(* ===== verification/Prelude.thy ===== *)
theory Prelude
  imports Main "HOL-Library.Sublist" "HOL-Library.Multiset"
begin

text \<open>
  Vocabulary shared by every component of the skill layer: Rust results as sums, the string
  operations of the standard library on UTF-8 byte strings (with ASCII whitespace and case),
  the \<open>HashSet\<close>-guarded \<open>retain\<close> loop, and Rust's stable \<open>sort_by\<close> with the laws of a total
  preorder as a locale.  A \<open>char\<close> is one byte of a Rust \<open>String\<close>, so \<open>length\<close> is Rust's
  \<open>len()\<close>.
\<close>

section \<open>Hints and result type\<close>

named_theorems model_simps \<open>unfolding equations of small model definitions\<close>

type_synonym ('e, 'a) result = "'e + 'a"

abbreviation Err :: "'e \<Rightarrow> ('e, 'a) result" where "Err \<equiv> Inl"
abbreviation Ok :: "'a \<Rightarrow> ('e, 'a) result" where "Ok \<equiv> Inr"

fun oks :: "('e, 'a) result list \<Rightarrow> 'a list" where
  "oks [] = []"
| "oks (Inr a # rs) = a # oks rs"
| "oks (Inl e # rs) = oks rs"

fun errs :: "('e, 'a) result list \<Rightarrow> 'e list" where
  "errs [] = []"
| "errs (Inl e # rs) = e # errs rs"
| "errs (Inr a # rs) = errs rs"

text \<open>The \<open>?\<close> operator.\<close>

fun rbind :: "('e, 'a) result \<Rightarrow> ('a \<Rightarrow> ('e, 'b) result) \<Rightarrow> ('e, 'b) result" where
  "rbind (Inl e) f = Inl e"
| "rbind (Inr a) f = f a"

lemma rbind_Inr_iff: "rbind r f = Inr b \<longleftrightarrow> (\<exists>a. r = Inr a \<and> f a = Inr b)"
  by (cases r) auto

lemma rbind_Inl_iff: "rbind r f = Inl e \<longleftrightarrow> r = Inl e \<or> (\<exists>a. r = Inr a \<and> f a = Inl e)"
  by (cases r) auto

lemma length_oks_errs: "length (oks rs) + length (errs rs) = length rs"
  by (induction rs rule: oks.induct) auto

lemma set_oks: "set (oks rs) = {a. Inr a \<in> set rs}"
  by (induction rs rule: oks.induct) auto

lemma set_errs: "set (errs rs) = {e. Inl e \<in> set rs}"
  by (induction rs rule: errs.induct) auto

lemma oks_Nil_iff: "oks rs = [] \<longleftrightarrow> (\<forall>r \<in> set rs. \<exists>e. r = Inl e)"
  by (induction rs rule: oks.induct) auto

section \<open>Strings\<close>

definition is_ws :: "char \<Rightarrow> bool" where
  "is_ws c \<longleftrightarrow> c = CHR '' '' \<or> (9 \<le> (of_char c :: nat) \<and> (of_char c :: nat) \<le> 13)"

definition trim_start :: "string \<Rightarrow> string" where
  "trim_start s = dropWhile is_ws s"

definition trim_end :: "string \<Rightarrow> string" where
  "trim_end s = rev (dropWhile is_ws (rev s))"

definition trim :: "string \<Rightarrow> string" where
  "trim s = trim_end (trim_start s)"

definition blank :: "string \<Rightarrow> bool" where
  "blank s \<longleftrightarrow> trim s = []"

definition lower_char :: "char \<Rightarrow> char" where
  "lower_char c = (if 65 \<le> (of_char c :: nat) \<and> (of_char c :: nat) \<le> 90
                   then char_of ((of_char c :: nat) + 32) else c)"

definition ascii_lower :: "string \<Rightarrow> string" where
  "ascii_lower s = map lower_char s"

definition is_alnum :: "char \<Rightarrow> bool" where
  "is_alnum c \<longleftrightarrow> (let n = (of_char c :: nat) in
     (48 \<le> n \<and> n \<le> 57) \<or> (65 \<le> n \<and> n \<le> 90) \<or> (97 \<le> n \<and> n \<le> 122))"

fun contains_str :: "string \<Rightarrow> string \<Rightarrow> bool" where
  "contains_str [] pat = (pat = [])"
| "contains_str (c # cs) pat = (prefix pat (c # cs) \<or> contains_str cs pat)"

fun join :: "string \<Rightarrow> string list \<Rightarrow> string" where
  "join sep [] = []"
| "join sep [x] = x"
| "join sep (x # y # zs) = x @ sep @ join sep (y # zs)"

text \<open>The \<open>{:?}\<close> format of a string of printable ASCII characters.\<close>

definition debug_str :: "string \<Rightarrow> string" where
  "debug_str s = [CHR 0x22] @
     concat (map (\<lambda>c. if c = CHR 0x22 \<or> c = CHR 0x5C then [CHR 0x5C, c] else [c]) s) @ [CHR 0x22]"

text \<open>\<open>split_on p s\<close> is Rust's \<open>str::split\<close> with a character predicate: empty pieces are kept.\<close>

fun split_on :: "(char \<Rightarrow> bool) \<Rightarrow> string \<Rightarrow> string list" where
  "split_on p [] = [[]]"
| "split_on p (c # cs) =
     (if p c then [] # split_on p cs
      else (case split_on p cs of [] \<Rightarrow> [[c]] | w # ws \<Rightarrow> (c # w) # ws))"

lemma contains_str_iff: "contains_str s pat \<longleftrightarrow> (\<exists>u v. s = u @ pat @ v)"
proof (induction s)
  case Nil
  then show ?case by auto
next
  case (Cons c s)
  have "(\<exists>u v. c # s = u @ pat @ v) \<longleftrightarrow> prefix pat (c # s) \<or> (\<exists>u v. s = u @ pat @ v)"
    by (auto simp: prefix_def Cons_eq_append_conv)
  with Cons show ?case by simp
qed

lemma dropWhile_hd: "dropWhile P xs = y # ys \<Longrightarrow> \<not> P y"
  using hd_dropWhile [of P xs] by (metis list.distinct(1) list.sel(1))

lemma trim_start_idem: "dropWhile P (dropWhile P xs) = dropWhile P xs"
  by simp

lemma dropWhile_eq_self_iff: "dropWhile P xs = xs \<longleftrightarrow> xs = [] \<or> \<not> P (hd xs)"
  by (cases xs) (auto, metis length_dropWhile_le impossible_Cons)

lemma dropWhile_rev_keep:
  assumes "dropWhile P xs = xs"
  shows "dropWhile P (rev (dropWhile P (rev xs))) = rev (dropWhile P (rev xs))"
proof (cases "dropWhile P (rev xs) = []")
  case False
  let ?d = "dropWhile P (rev xs)"
  have "rev xs = takeWhile P (rev xs) @ ?d" by simp
  then have xs: "xs = rev ?d @ rev (takeWhile P (rev xs))"
    by (metis rev_append rev_rev_ident)
  then have "hd xs = hd (rev ?d)" and "xs \<noteq> []"
    using False by (metis hd_append2 rev_is_Nil_conv, auto)
  with assms False show ?thesis by (simp add: dropWhile_eq_self_iff)
next
  case True
  then show ?thesis by (simp only: rev.simps dropWhile.simps)
qed

lemma trim_idem [simp]: "trim (trim s) = trim s"
  by (simp add: trim_def trim_start_def trim_end_def dropWhile_rev_keep)

lemma trim_Nil [simp]: "trim [] = []"
  by (simp add: trim_def trim_start_def trim_end_def)

lemma blank_Nil [simp]: "blank []"
  by (simp add: blank_def)

lemma blank_trim [simp]: "blank (trim s) = blank s"
  by (simp add: blank_def)

section \<open>The retain loop over a seen-set\<close>

fun retain_unseen :: "'a set \<Rightarrow> 'a list \<Rightarrow> 'a list" where
  "retain_unseen seen [] = []"
| "retain_unseen seen (x # xs) =
     (if x \<in> seen then retain_unseen seen xs else x # retain_unseen (insert x seen) xs)"

lemma set_retain_unseen: "set (retain_unseen seen xs) = set xs - seen"
  by (induction seen xs rule: retain_unseen.induct) auto

lemma distinct_retain_unseen: "distinct (retain_unseen seen xs)"
  by (induction seen xs rule: retain_unseen.induct) (auto simp: set_retain_unseen)

lemma subseq_retain_unseen: "subseq (retain_unseen seen xs) xs"
  by (induction seen xs rule: retain_unseen.induct) auto

lemma retain_unseen_distinct:
  "distinct xs \<Longrightarrow> set xs \<inter> seen = {} \<Longrightarrow> retain_unseen seen xs = xs"
  by (induction seen xs rule: retain_unseen.induct) auto

lemma retain_unseen_Nil_iff: "retain_unseen {} xs = [] \<longleftrightarrow> xs = []"
  by (cases xs) auto

lemma hd_retain_unseen: "xs \<noteq> [] \<Longrightarrow> hd (retain_unseen {} xs) = hd xs"
  by (cases xs) auto

section \<open>Stable sorting by a comparator\<close>

text \<open>
  \<open>le x y\<close> says that the comparator does not answer \<open>Greater\<close> on \<open>x, y\<close>.  On a total preorder
  the stable sorted permutation of a list is unique, so insertion models Rust's \<open>sort_by\<close>.
\<close>

fun insert_by :: "('a \<Rightarrow> 'a \<Rightarrow> bool) \<Rightarrow> 'a \<Rightarrow> 'a list \<Rightarrow> 'a list" where
  "insert_by le x [] = [x]"
| "insert_by le x (y # ys) = (if le x y then x # y # ys else y # insert_by le x ys)"

fun sort_by :: "('a \<Rightarrow> 'a \<Rightarrow> bool) \<Rightarrow> 'a list \<Rightarrow> 'a list" where
  "sort_by le [] = []"
| "sort_by le (x # xs) = insert_by le x (sort_by le xs)"

lemma mset_insert_by: "mset (insert_by le x xs) = {#x#} + mset xs"
  by (induction xs) auto

lemma mset_sort_by [simp]: "mset (sort_by le xs) = mset xs"
  by (induction xs) (auto simp: mset_insert_by)

lemma set_sort_by [simp]: "set (sort_by le xs) = set xs"
  by (metis mset_sort_by set_mset_mset)

lemma length_sort_by [simp]: "length (sort_by le xs) = length xs"
  by (metis mset_sort_by size_mset)

lemma set_insert_by: "set (insert_by le x xs) = insert x (set xs)"
  using mset_insert_by [of le x xs] by (metis add_mset_add_single set_mset_add_mset_insert
      set_mset_mset add.commute)

lemma distinct_sort_by [simp]: "distinct (sort_by le xs) = distinct xs"
  by (rule mset_eq_imp_distinct_iff) simp

locale total_preorder =
  fixes le :: "'a \<Rightarrow> 'a \<Rightarrow> bool"
  assumes le_trans: "le x y \<Longrightarrow> le y z \<Longrightarrow> le x z"
    and le_total: "le x y \<or> le y x"
begin

lemma le_refl: "le x x"
  using le_total by blast

lemma sorted_insert_by: "sorted_wrt le xs \<Longrightarrow> sorted_wrt le (insert_by le x xs)"
proof (induction xs)
  case (Cons y ys)
  then show ?case
    using le_total [of x y] by (auto simp: set_insert_by intro: le_trans)
qed simp

lemma sorted_sort_by: "sorted_wrt le (sort_by le xs)"
  by (induction xs) (auto intro: sorted_insert_by)

text \<open>Stability: elements the comparator calls equal keep their order.\<close>

lemma insert_by_filter_equal:
  "filter (\<lambda>y. le a y \<and> le y a) (insert_by le x xs) =
     filter (\<lambda>y. le a y \<and> le y a) (x # xs)"
proof (induction xs)
  case (Cons y ys)
  show ?case
  proof (cases "le x y")
    case False
    then have "\<not> ((le a x \<and> le x a) \<and> (le a y \<and> le y a))"
      using le_trans by blast
    with False Cons show ?thesis by auto
  qed simp
qed simp

lemma sort_by_stable:
  "filter (\<lambda>y. le a y \<and> le y a) (sort_by le xs) = filter (\<lambda>y. le a y \<and> le y a) xs"
  by (induction xs) (auto simp: insert_by_filter_equal)

lemma hd_sort_by_le: "y \<in> set xs \<Longrightarrow> le (hd (sort_by le xs)) y"
proof -
  assume y: "y \<in> set xs"
  then obtain z zs where z: "sort_by le xs = z # zs"
    by (metis length_greater_0_conv length_pos_if_in_set length_sort_by neq_Nil_conv)
  have "y \<in> set (z # zs)" using y z by (metis set_sort_by)
  moreover have "\<forall>u \<in> set zs. le z u" using sorted_sort_by [of xs] z by simp
  ultimately show ?thesis using z le_refl by auto
qed

text \<open>What a truncation keeps is at least as good as what it drops.\<close>

lemma take_drop_sort_by:
  assumes "x \<in> set (take n (sort_by le xs))" and "y \<in> set (drop n (sort_by le xs))"
  shows "le x y"
proof -
  have "sorted_wrt le (take n (sort_by le xs) @ drop n (sort_by le xs))"
    using sorted_sort_by by simp
  with assms show ?thesis by (auto simp only: sorted_wrt_append)
qed

end

section \<open>Small list facts\<close>

text \<open>\<open>slice::get\<close>.\<close>

definition nth_opt :: "'a list \<Rightarrow> nat \<Rightarrow> 'a option" where
  "nth_opt xs i = (if i < length xs then Some (xs ! i) else None)"

lemma nth_opt_Some_iff: "nth_opt xs i = Some x \<longleftrightarrow> i < length xs \<and> x = xs ! i"
  by (auto simp: nth_opt_def)

lemma nth_opt_map [simp]: "nth_opt (map f xs) i = map_option f (nth_opt xs i)"
  by (simp add: nth_opt_def)

lemma length_take_le: "length (take n xs) \<le> n"
  by simp

lemma map_filter_Some_set: "y \<in> set (List.map_filter f xs) \<longleftrightarrow> (\<exists>x \<in> set xs. f x = Some y)"
  by (induction xs) (auto simp: map_filter_simps split: option.splits)

lemma length_map_filter_le: "length (List.map_filter f xs) \<le> length xs"
  by (induction xs) (auto simp: map_filter_simps split: option.splits)

lemma sorted_wrt_filter': "sorted_wrt P xs \<Longrightarrow> sorted_wrt P (filter Q xs)"
  by (induction xs) auto

end
