(* ===== verification/F32.thy ===== *)
theory F32
  imports Prelude Complex_Main
begin

text \<open>
  IEEE 754 binary32, the \<open>f32\<close> of every score in the repository, as an executable type: a finite
  nonzero value is the rational it denotes, results are rounded to nearest, ties to even, with 24
  bits of precision and least exponent \<open>-149\<close>.  The signed zero and the infinities are kept apart;
  the NaN is one value (Rust leaves sign and payload of a computed NaN open), the greatest of the
  \<open>total_cmp\<close> order.  The lemmas give what the ranking proofs need: rounding is monotone and exact
  on representable values, and the comparisons are orders.
\<close>

section \<open>Values\<close>

datatype f32 = NaN | NegInf | NegZero | Fin rat | PosInf

fun fval :: "f32 \<Rightarrow> rat" where
  "fval (Fin q) = q"
| "fval _ = 0"

fun is_nan :: "f32 \<Rightarrow> bool" where
  "is_nan NaN = True"
| "is_nan _ = False"

fun is_inf :: "f32 \<Rightarrow> bool" where
  "is_inf PosInf = True"
| "is_inf NegInf = True"
| "is_inf _ = False"

fun is_neg :: "f32 \<Rightarrow> bool" where
  "is_neg NegInf = True"
| "is_neg NegZero = True"
| "is_neg (Fin q) = (q < 0)"
| "is_neg _ = False"

fun is_finite :: "f32 \<Rightarrow> bool" where
  "is_finite (Fin q) = True"
| "is_finite NegZero = True"
| "is_finite _ = False"

fun is_zero :: "f32 \<Rightarrow> bool" where
  "is_zero NegZero = True"
| "is_zero (Fin q) = (q = 0)"
| "is_zero _ = False"

section \<open>Rounding\<close>

function ilog2 :: "int \<Rightarrow> nat" where
  "ilog2 n = (if n < 2 then 0 else Suc (ilog2 (n div 2)))"
  by pat_completeness auto
termination
  by (relation "measure nat") auto

declare ilog2.simps [simp del]

text \<open>The exponent of the binade of a positive rational: \<open>2\<^sup>e \<le> q < 2\<^sup>e\<^sup>+\<^sup>1\<close>.\<close>

definition rat_exp :: "rat \<Rightarrow> int" where
  "rat_exp q = (let (n, d) = quotient_of q; e = int (ilog2 n) - int (ilog2 d)
                in if q < 2 powi e then e - 1 else e)"

definition round_even :: "rat \<Rightarrow> int" where
  "round_even q = (let f = \<lfloor>q\<rfloor>; r = q - of_int f in
     if r < 1/2 then f else if 1/2 < r then f + 1 else if even f then f else f + 1)"

definition quantum :: "rat \<Rightarrow> int" where
  "quantum q = max (rat_exp q - 23) (-149)"

definition round_mag :: "rat \<Rightarrow> rat" where
  "round_mag q = (if q = 0 then 0
     else of_int (round_even (q / 2 powi quantum q)) * 2 powi quantum q)"

text \<open>\<open>rnd s q\<close>: \<open>q\<close> rounded; \<open>s\<close> is the sign a zero result takes.\<close>

definition rnd :: "bool \<Rightarrow> rat \<Rightarrow> f32" where
  "rnd s q = (let m = round_mag \<bar>q\<bar> in
     if m = 0 then (if s then NegZero else Fin 0)
     else if 2 ^ 128 \<le> m then (if q < 0 then NegInf else PosInf)
     else Fin (if q < 0 then - m else m))"

abbreviation lit :: "rat \<Rightarrow> f32" where "lit q \<equiv> rnd False q"

definition f32_of_nat :: "nat \<Rightarrow> f32" where
  "f32_of_nat n = rnd False (of_nat n)"

section \<open>Arithmetic\<close>

definition fadd :: "f32 \<Rightarrow> f32 \<Rightarrow> f32" where
  "fadd x y =
     (if is_nan x \<or> is_nan y then NaN
      else if is_inf x \<and> is_inf y \<and> is_neg x \<noteq> is_neg y then NaN
      else if is_inf x then x
      else if is_inf y then y
      else if x = NegZero \<and> y = NegZero then NegZero
      else rnd False (fval x + fval y))"

fun fneg :: "f32 \<Rightarrow> f32" where
  "fneg NaN = NaN"
| "fneg NegInf = PosInf"
| "fneg PosInf = NegInf"
| "fneg NegZero = Fin 0"
| "fneg (Fin q) = (if q = 0 then NegZero else Fin (- q))"

definition fsub :: "f32 \<Rightarrow> f32 \<Rightarrow> f32" where
  "fsub x y = fadd x (fneg y)"

definition fmul :: "f32 \<Rightarrow> f32 \<Rightarrow> f32" where
  "fmul x y =
     (if is_nan x \<or> is_nan y then NaN
      else if is_inf x \<or> is_inf y then
        (if is_zero x \<or> is_zero y then NaN
         else if is_neg x \<noteq> is_neg y then NegInf else PosInf)
      else rnd (is_neg x \<noteq> is_neg y) (fval x * fval y))"

definition fdiv :: "f32 \<Rightarrow> f32 \<Rightarrow> f32" where
  "fdiv x y =
     (if is_nan x \<or> is_nan y \<or> (is_inf x \<and> is_inf y) \<or> (is_zero x \<and> is_zero y) then NaN
      else if is_inf x \<or> is_zero y then (if is_neg x \<noteq> is_neg y then NegInf else PosInf)
      else if is_inf y then (if is_neg x \<noteq> is_neg y then NegZero else Fin 0)
      else rnd (is_neg x \<noteq> is_neg y) (fval x / fval y))"

function isqrt :: "int \<Rightarrow> int" where
  "isqrt n = (if n \<le> 0 then 0
     else let r = 2 * isqrt (n div 4) in if (r + 1) * (r + 1) \<le> n then r + 1 else r)"
  by pat_completeness auto
termination
  by (relation "measure nat") auto

declare isqrt.simps [simp del]

definition sqrt_mag :: "rat \<Rightarrow> rat" where
  "sqrt_mag q = (if q = 0 then 0 else
     (let e = max (rat_exp q div 2 - 23) (-149);
          t = q / 2 powi (2 * e);
          m = isqrt \<lfloor>t\<rfloor>;
          h = of_int (m * m + m) + 1/4;
          k = (if t < h then m else if h < t then m + 1 else if even m then m else m + 1)
      in of_int k * 2 powi e))"

fun fsqrt :: "f32 \<Rightarrow> f32" where
  "fsqrt NaN = NaN"
| "fsqrt NegInf = NaN"
| "fsqrt NegZero = NegZero"
| "fsqrt PosInf = PosInf"
| "fsqrt (Fin q) = (if q < 0 then NaN else Fin (sqrt_mag q))"

section \<open>Comparisons\<close>

fun fle :: "f32 \<Rightarrow> f32 \<Rightarrow> bool" where
  "fle NaN _ = False"
| "fle _ NaN = False"
| "fle NegInf _ = True"
| "fle _ PosInf = True"
| "fle PosInf _ = False"
| "fle _ NegInf = False"
| "fle x y = (fval x \<le> fval y)"

definition flt :: "f32 \<Rightarrow> f32 \<Rightarrow> bool" where
  "flt x y \<longleftrightarrow> fle x y \<and> \<not> fle y x"

definition feq :: "f32 \<Rightarrow> f32 \<Rightarrow> bool" where
  "feq x y \<longleftrightarrow> fle x y \<and> fle y x"

definition fmax :: "f32 \<Rightarrow> f32 \<Rightarrow> f32" where
  "fmax x y = (if is_nan x then y else if is_nan y then x else if flt x y then y else x)"

definition fmin :: "f32 \<Rightarrow> f32 \<Rightarrow> f32" where
  "fmin x y = (if is_nan x then y else if is_nan y then x else if flt y x then y else x)"

definition fclamp :: "f32 \<Rightarrow> f32 \<Rightarrow> f32 \<Rightarrow> f32" where
  "fclamp x lo hi = (let y = (if flt x lo then lo else x) in if flt hi y then hi else y)"

text \<open>Iterator sums start at the additive neutral element \<open>-0.0\<close>.\<close>

definition fsum :: "f32 list \<Rightarrow> f32" where
  "fsum xs = foldl fadd NegZero xs"

text \<open>\<open>f32::total_cmp\<close>.\<close>

fun total_rank :: "f32 \<Rightarrow> nat" where
  "total_rank NegInf = 0"
| "total_rank (Fin q) = (if q < 0 then 1 else 3)"
| "total_rank NegZero = 2"
| "total_rank PosInf = 4"
| "total_rank NaN = 5"

instantiation f32 :: linorder
begin

definition less_eq_f32 :: "f32 \<Rightarrow> f32 \<Rightarrow> bool" where
  "less_eq_f32 x y \<longleftrightarrow>
     total_rank x < total_rank y \<or> (total_rank x = total_rank y \<and> fval x \<le> fval y)"

definition less_f32 :: "f32 \<Rightarrow> f32 \<Rightarrow> bool" where
  "less_f32 x y \<longleftrightarrow> x \<le> y \<and> \<not> y \<le> (x :: f32)"

instance
proof
  fix x y z :: f32
  show "x < y \<longleftrightarrow> x \<le> y \<and> \<not> y \<le> x" by (rule less_f32_def)
  show "x \<le> x" by (simp add: less_eq_f32_def)
  show "x \<le> y \<Longrightarrow> y \<le> z \<Longrightarrow> x \<le> z" by (auto simp: less_eq_f32_def)
  show "x \<le> y \<Longrightarrow> y \<le> x \<Longrightarrow> x = y"
    by (cases x; cases y) (auto simp: less_eq_f32_def split: if_splits)
  show "x \<le> y \<or> y \<le> x" by (auto simp: less_eq_f32_def)
qed

end

section \<open>Printing with a fixed number of decimals\<close>

fun digit_char :: "nat \<Rightarrow> char" where
  "digit_char n = char_of (48 + n)"

fun nat_str :: "nat \<Rightarrow> string" where
  "nat_str n = (if n < 10 then [digit_char n] else nat_str (n div 10) @ [digit_char (n mod 10)])"

declare nat_str.simps [simp del]

definition pad_zeros :: "nat \<Rightarrow> string \<Rightarrow> string" where
  "pad_zeros k s = replicate (k - length s) (CHR ''0'') @ s"

definition fmt_fixed :: "nat \<Rightarrow> f32 \<Rightarrow> string" where
  "fmt_fixed k x =
     (if is_nan x then ''NaN''
      else if is_inf x then (if is_neg x then ''-inf'' else ''inf'')
      else (let n = nat (round_even (\<bar>fval x\<bar> * 10 ^ k)) in
        (if is_neg x then ''-'' else []) @ nat_str (n div 10 ^ k) @ ''.'' @
          pad_zeros k (nat_str (n mod 10 ^ k))))"

section \<open>Rounding lemmas\<close>

lemma ilog2_bounds: "0 < n \<Longrightarrow> 2 ^ ilog2 n \<le> n \<and> n < 2 ^ Suc (ilog2 n)"
proof (induction n rule: ilog2.induct)
  case (1 n)
  show ?case
  proof (cases "n < 2")
    case True
    with 1 show ?thesis by (simp add: ilog2.simps [of n])
  next
    case False
    with 1 have "2 ^ ilog2 (n div 2) \<le> n div 2 \<and> n div 2 < 2 ^ Suc (ilog2 (n div 2))" by simp
    then have "2 * 2 ^ ilog2 (n div 2) \<le> n \<and> n < 2 * (2 * 2 ^ ilog2 (n div 2))" by auto
    with False show ?thesis by (simp add: ilog2.simps [of n])
  qed
qed

lemma isqrt_bounds: "0 \<le> n \<Longrightarrow> 0 \<le> isqrt n \<and> isqrt n * isqrt n \<le> n \<and> n < (isqrt n + 1) * (isqrt n + 1)"
proof (induction n rule: isqrt.induct)
  case (1 n)
  show ?case
  proof (cases "n \<le> 0")
    case True
    with 1 have "n = 0" by simp
    then show ?thesis by (simp add: isqrt.simps [of 0])
  next
    case False
    let ?s = "isqrt (n div 4)"
    have IH: "0 \<le> ?s" "?s * ?s \<le> n div 4" "n div 4 < (?s + 1) * (?s + 1)"
      using False 1 by auto
    have lo: "2 * ?s * (2 * ?s) \<le> n" using IH(2) by linarith
    have "n < 4 * ((?s + 1) * (?s + 1))" using IH(3) by linarith
    also have "\<dots> = (2 * ?s + 2) * (2 * ?s + 2)" by (simp add: algebra_simps)
    also have "\<dots> = (2 + 2 * ?s) * (2 + 2 * ?s)" by (simp add: algebra_simps)
    finally have hi: "n < (2 + 2 * ?s) * (2 + 2 * ?s)" .
    show ?thesis
    proof (cases "(2 * ?s + 1) * (2 * ?s + 1) \<le> n")
      case True
      with False hi IH(1) show ?thesis by (simp add: isqrt.simps [of n] Let_def)
    next
      case hi': False
      with False lo IH(1) show ?thesis by (simp add: isqrt.simps [of n] Let_def)
    qed
  qed
qed

lemma powi2_pos [simp]: "0 < (2 :: rat) powi e"
  by (simp add: zero_less_power_int)

lemma powi2_add: "(2 :: rat) powi (a + b) = 2 powi a * 2 powi b"
  by (simp add: power_int_add)

lemma powi2_mono: "a \<le> b \<Longrightarrow> (2 :: rat) powi a \<le> 2 powi b"
  by (rule power_int_increasing) auto

lemma powi2_less_iff: "(2 :: rat) powi a < 2 powi b \<longleftrightarrow> a < b"
  by (meson linorder_not_le powi2_mono power_int_strict_increasing one_less_numeral_iff semiring_norm(76))

lemma rat_exp_bounds:
  assumes "0 < q"
  shows "2 powi rat_exp q \<le> q \<and> q < 2 powi (rat_exp q + 1)"
proof -
  obtain n d where nd: "quotient_of q = (n, d)" by fastforce
  then have d: "0 < d" and q: "q = of_int n / of_int d"
    using quotient_of_denom_pos quotient_of_div by auto
  with assms have n: "0 < n" by (simp add: zero_less_divide_iff)
  let ?a = "ilog2 n" and ?b = "ilog2 d"
  have i: "n < 2 ^ Suc ?a" "2 ^ ?a \<le> n" "d < 2 ^ Suc ?b" "2 ^ ?b \<le> d"
    using ilog2_bounds [OF n] ilog2_bounds [OF d] by auto
  have r: "(of_int n :: rat) < 2 ^ Suc ?a" "2 ^ ?a \<le> (of_int n :: rat)"
    "(of_int d :: rat) < 2 ^ Suc ?b" "2 ^ ?b \<le> (of_int d :: rat)"
    using i by (metis of_int_less_iff of_int_power of_int_numeral,
        metis of_int_le_iff of_int_power of_int_numeral,
        metis of_int_less_iff of_int_power of_int_numeral,
        metis of_int_le_iff of_int_power of_int_numeral)
  let ?e = "int ?a - int ?b"
  have e: "(2 :: rat) powi ?e = 2 ^ ?a / 2 ^ ?b"
    by (simp add: power_int_diff)
  have up: "q < 2 powi (?e + 1)"
  proof -
    have "q < 2 ^ Suc ?a / 2 ^ ?b"
      unfolding q using r n d by (intro frac_less) auto
    then show ?thesis by (simp add: powi2_add e mult.commute)
  qed
  have low: "2 powi (?e - 1) \<le> q"
  proof -
    have "2 ^ ?a / 2 ^ Suc ?b \<le> q"
      unfolding q using r n d by (intro frac_le) auto
    then show ?thesis by (simp add: power_int_diff e)
  qed
  show ?thesis
    using up low by (auto simp: rat_exp_def nd Let_def)
qed

lemma rat_exp_mono: "0 < q \<Longrightarrow> q \<le> r \<Longrightarrow> rat_exp q \<le> rat_exp r"
  using rat_exp_bounds [of q] rat_exp_bounds [of r]
  by (metis add_le_cancel_right linorder_not_le order_le_less_trans order_less_le_trans powi2_less_iff
      zless_imp_add1_zle order.strict_trans1)

lemma round_even_of_int [simp]: "round_even (of_int n) = n"
  by (simp add: round_even_def Let_def)

lemma round_even_mono: "q \<le> r \<Longrightarrow> round_even q \<le> round_even r"
proof -
  assume qr: "q \<le> r"
  then have f: "\<lfloor>q\<rfloor> \<le> \<lfloor>r\<rfloor>" by (rule floor_mono)
  have b: "round_even q \<le> \<lfloor>q\<rfloor> + 1" "\<lfloor>r\<rfloor> \<le> round_even r"
    by (auto simp: round_even_def Let_def)
  show ?thesis
  proof (cases "\<lfloor>q\<rfloor> = \<lfloor>r\<rfloor>")
    case True
    with qr show ?thesis by (auto simp: round_even_def Let_def)
  next
    case False
    with f b show ?thesis by linarith
  qed
qed

lemma round_even_nonneg: "0 \<le> q \<Longrightarrow> 0 \<le> round_even q"
  using round_even_mono [of 0 q] round_even_of_int [of 0] by simp

lemma quantum_mono: "0 < q \<Longrightarrow> q \<le> r \<Longrightarrow> quantum q \<le> quantum r"
  using rat_exp_mono [of q r] by (auto simp: quantum_def)

lemma round_mag_nonneg: "0 \<le> q \<Longrightarrow> 0 \<le> round_mag q"
proof -
  assume "0 \<le> q"
  then have "0 \<le> q / 2 powi quantum q" by (simp add: divide_nonneg_pos)
  then have "(0 :: rat) \<le> of_int (round_even (q / 2 powi quantum q))"
    using round_even_nonneg by simp
  then show ?thesis
    by (simp add: round_mag_def mult_nonneg_nonneg order_less_imp_le del: of_int_0_le_iff)
qed

text \<open>A bound that is a multiple of the quantum survives rounding, from either side.\<close>

lemma powi2_int: "0 \<le> k \<Longrightarrow> (2 :: rat) powi k = of_int (2 ^ nat k)"
  by (simp add: power_int_def)

lemma round_mag_le_powi:
  assumes "0 < q" and "q \<le> 2 powi k" and "quantum q \<le> k"
  shows "round_mag q \<le> 2 powi k"
proof -
  let ?e = "quantum q"
  have k: "(2 :: rat) powi k = 2 powi (k - ?e) * 2 powi ?e" by (simp flip: powi2_add)
  have "q / 2 powi ?e \<le> of_int (2 ^ nat (k - ?e))"
    using assms k powi2_int [of "k - ?e"] by (simp add: pos_divide_le_eq)
  then have "round_even (q / 2 powi ?e) \<le> 2 ^ nat (k - ?e)"
    using round_even_mono [of "q / 2 powi ?e" "of_int (2 ^ nat (k - ?e))"] by (simp del: of_int_power)
  then have "of_int (round_even (q / 2 powi ?e)) \<le> (2 :: rat) powi (k - ?e)"
    using powi2_int [of "k - ?e"] assms(3) by (metis diff_ge_0_iff_ge of_int_le_iff)
  with assms(1) k show ?thesis
    by (simp add: round_mag_def mult_right_mono)
qed

lemma round_mag_ge_powi:
  assumes "0 < q" and "2 powi k \<le> q" and "quantum q \<le> k"
  shows "2 powi k \<le> round_mag q"
proof -
  let ?e = "quantum q"
  have k: "(2 :: rat) powi k = 2 powi (k - ?e) * 2 powi ?e" by (simp flip: powi2_add)
  have "of_int (2 ^ nat (k - ?e)) \<le> q / 2 powi ?e"
    using assms k powi2_int [of "k - ?e"] by (simp add: pos_le_divide_eq)
  then have "2 ^ nat (k - ?e) \<le> round_even (q / 2 powi ?e)"
    using round_even_mono [of "of_int (2 ^ nat (k - ?e))" "q / 2 powi ?e"] by (simp del: of_int_power)
  then have "(2 :: rat) powi (k - ?e) \<le> of_int (round_even (q / 2 powi ?e))"
    using powi2_int [of "k - ?e"] assms(3) by (metis diff_ge_0_iff_ge of_int_le_iff)
  with assms(1) k show ?thesis
    by (simp add: round_mag_def mult_right_mono)
qed

lemma round_mag_mono:
  assumes "0 \<le> q" and "q \<le> r"
  shows "round_mag q \<le> round_mag r"
proof (cases "q = 0")
  case True
  then show ?thesis using assms by (simp add: round_mag_def [of 0] round_mag_nonneg)
next
  case False
  with assms have q: "0 < q" and r: "0 < r" by auto
  have e: "quantum q \<le> quantum r" using q assms(2) by (rule quantum_mono)
  show ?thesis
  proof (cases "quantum q = quantum r")
    case True
    have "round_even (q / 2 powi quantum r) \<le> round_even (r / 2 powi quantum r)"
      using assms(2) by (intro round_even_mono divide_right_mono) (auto intro: order_less_imp_le)
    with True q r show ?thesis by (simp add: round_mag_def mult_right_mono order_less_imp_le)
  next
    case False
    with e have lt: "quantum q < quantum r" by simp
    then have er: "quantum r = rat_exp r - 23" by (auto simp: quantum_def)
    with lt have "rat_exp q + 1 \<le> rat_exp r" by (auto simp: quantum_def)
    then have "q \<le> 2 powi rat_exp r"
      using rat_exp_bounds [OF q] powi2_mono [of "rat_exp q + 1" "rat_exp r"] by linarith
    then have "round_mag q \<le> 2 powi rat_exp r"
      using q lt er by (intro round_mag_le_powi) auto
    also have "\<dots> \<le> round_mag r"
      using r rat_exp_bounds [OF r] er by (intro round_mag_ge_powi) auto
    finally show ?thesis .
  qed
qed

section \<open>Exactness\<close>

text \<open>
  Every value \<open>n * 2\<^sup>k\<close> with \<open>n \<le> 2\<^sup>2\<^sup>4\<close> and \<open>-149 \<le> k\<close> is its own rounding; in particular rounding
  is idempotent.
\<close>

lemma round_mag_multiple:
  assumes "0 < q" and "q = of_int m * 2 powi quantum q"
  shows "round_mag q = q"
proof -
  have "q / 2 powi quantum q = of_int m" using assms(2) by (metis nonzero_divide_eq_eq powi2_pos less_irrefl)
  with assms show ?thesis by (simp add: round_mag_def)
qed

lemma round_mag_exact:
  assumes "0 \<le> n" and "n \<le> 2 ^ 24" and "-149 \<le> k"
  shows "round_mag (of_int n * 2 powi k) = of_int n * 2 powi k"
proof (cases "n = 0")
  case True
  then show ?thesis by (simp add: round_mag_def)
next
  case False
  let ?q = "(of_int n :: rat) * 2 powi k"
  have q: "0 < ?q" using assms(1) False by simp
  let ?e = "quantum ?q"
  show ?thesis
  proof (cases "?e \<le> k")
    case True
    have "?q = of_int (n * 2 ^ nat (k - ?e)) * 2 powi ?e"
      using True powi2_int [of "k - ?e"] powi2_add [of "k - ?e" ?e] by (simp add: mult.assoc)
    with q show ?thesis by (rule round_mag_multiple)
  next
    case False
    then have e: "?e = rat_exp ?q - 23" "k + 1 \<le> ?e" using assms(3) by (auto simp: quantum_def)
    have n: "(of_int n :: rat) \<le> 2 powi 24"
      using assms(2) by (metis of_int_le_iff of_int_numeral of_int_power power_int_numeral)
    have "2 powi rat_exp ?q \<le> ?q" using rat_exp_bounds [OF q] by simp
    also have "?q \<le> 2 powi 24 * 2 powi k" using n by (simp add: mult_right_mono order_less_imp_le)
    finally have "\<not> (2 :: rat) powi (24 + k) < 2 powi rat_exp ?q"
      by (simp only: powi2_add not_less)
    then have "rat_exp ?q \<le> 24 + k" by (simp only: powi2_less_iff not_less)
    with e have ek: "?e = k + 1" "rat_exp ?q = 24 + k" by auto
    have "2 powi 24 * 2 powi k \<le> ?q"
      using rat_exp_bounds [OF q] ek(2) by (simp only: powi2_add)
    then have "(2 :: rat) powi 24 \<le> of_int n" by simp
    with n have "(of_int n :: rat) = 2 powi 24" by simp
    then have "?q = 2 powi (24 + k)" by (simp only: powi2_add)
    also have "24 + k = 23 + ?e" using ek by simp
    also have "(2 :: rat) powi (23 + ?e) = of_int (2 ^ 23) * 2 powi ?e"
      by (simp add: powi2_add)
    finally show ?thesis by (rule round_mag_multiple [OF q])
  qed
qed

lemma round_mag_of_nat: "n \<le> 2 ^ 24 \<Longrightarrow> round_mag (of_nat n) = of_nat n"
  using round_mag_exact [of "int n" 0] by simp

lemma round_even_upper:
  assumes "0 < q"
  shows "round_even (q / 2 powi quantum q) \<le> 2 ^ 24"
proof -
  have "rat_exp q + 1 \<le> 24 + quantum q" by (auto simp: quantum_def)
  then have "q \<le> 2 powi (24 + quantum q)"
    using rat_exp_bounds [OF assms] powi2_mono [of "rat_exp q + 1"] by fastforce
  then have "q / 2 powi quantum q \<le> of_int (2 ^ 24)"
    by (simp add: powi2_add pos_divide_le_eq)
  then have "round_even (q / 2 powi quantum q) \<le> round_even (of_int (2 ^ 24))"
    by (rule round_even_mono)
  then show ?thesis by (simp only: round_even_of_int)
qed

lemma round_mag_idem:
  assumes "0 \<le> q"
  shows "round_mag (round_mag q) = round_mag q"
proof (cases "q = 0")
  case False
  with assms have q: "0 < q" by simp
  then have "0 \<le> round_even (q / 2 powi quantum q)"
    by (intro round_even_nonneg) (simp add: divide_nonneg_pos)
  moreover have "-149 \<le> quantum q" by (simp add: quantum_def)
  ultimately show ?thesis
    using round_mag_exact [OF _ round_even_upper [OF q]] q by (simp add: round_mag_def [of q])
qed (simp add: round_mag_def)

section \<open>Order lemmas\<close>

text \<open>Finite, of a known sign: where products and sums cannot produce a NaN.\<close>

definition fnonneg :: "f32 \<Rightarrow> bool" where
  "fnonneg x \<longleftrightarrow> x = PosInf \<or> (is_finite x \<and> 0 \<le> fval x)"

definition ffin_nonneg :: "f32 \<Rightarrow> bool" where
  "ffin_nonneg x \<longleftrightarrow> is_finite x \<and> 0 \<le> fval x"

lemma ffin_nonneg_fnonneg: "ffin_nonneg x \<Longrightarrow> fnonneg x"
  by (simp add: ffin_nonneg_def fnonneg_def)

lemma fle_refl: "\<not> is_nan x \<Longrightarrow> fle x x"
  by (cases x) auto

lemma fle_trans: "fle x y \<Longrightarrow> fle y z \<Longrightarrow> fle x z"
  by (cases x; cases y; cases z) auto

lemma fle_total: "\<not> is_nan x \<Longrightarrow> \<not> is_nan y \<Longrightarrow> fle x y \<or> fle y x"
  by (cases x; cases y) auto

lemma fle_not_nan: "fle x y \<Longrightarrow> \<not> is_nan x \<and> \<not> is_nan y"
  by (cases x; cases y) auto

lemma less_eq_imp_fle: "x \<le> y \<Longrightarrow> \<not> is_nan y \<Longrightarrow> fle x y"
  by (cases x; cases y) (auto simp: less_eq_f32_def split: if_splits)

lemma flt_imp_less: "flt x y \<Longrightarrow> x < y"
  by (cases x; cases y) (auto simp: flt_def less_eq_f32_def less_f32_def split: if_splits)

lemma flt_irrefl: "\<not> flt x x"
  by (simp add: flt_def)

lemma flt_trans: "flt x y \<Longrightarrow> flt y z \<Longrightarrow> flt x z"
  unfolding flt_def using fle_trans by blast

lemma not_flt_iff: "\<not> is_nan x \<Longrightarrow> \<not> is_nan y \<Longrightarrow> (\<not> flt x y) = fle y x"
  using fle_total by (auto simp: flt_def)

lemma fnonneg_iff_fle: "fnonneg x \<longleftrightarrow> fle (Fin 0) x"
  by (cases x) (auto simp: fnonneg_def)

lemma rnd_not_nan [simp]: "\<not> is_nan (rnd s q)"
  by (simp add: rnd_def Let_def)

lemma round_mag_zero [simp]: "round_mag 0 = 0"
  by (simp add: round_mag_def)

lemma rnd_zero [simp]: "rnd s 0 = (if s then NegZero else Fin 0)"
  by (simp add: rnd_def)

lemma fle_NegInf [simp]: "fle NegInf x \<longleftrightarrow> \<not> is_nan x"
  by (cases x) auto

lemma fle_PosInf [simp]: "fle x PosInf \<longleftrightarrow> \<not> is_nan x"
  by (cases x) auto

lemma rnd_mono: "q \<le> r \<Longrightarrow> fle (rnd s q) (rnd t r)"
proof -
  assume qr: "q \<le> r"
  have nn: "0 \<le> round_mag \<bar>q\<bar>" "0 \<le> round_mag \<bar>r\<bar>" by (simp_all add: round_mag_nonneg)
  consider "0 \<le> q" | "r < 0" | "q < 0" "0 \<le> r" by linarith
  then show ?thesis
  proof cases
    case 1
    then have "round_mag \<bar>q\<bar> \<le> round_mag \<bar>r\<bar>" using qr by (intro round_mag_mono) auto
    with 1 qr nn show ?thesis by (auto simp: rnd_def Let_def)
  next
    case 2
    then have "round_mag \<bar>r\<bar> \<le> round_mag \<bar>q\<bar>" using qr by (intro round_mag_mono) auto
    with 2 qr nn show ?thesis by (auto simp: rnd_def Let_def)
  next
    case 3
    with nn show ?thesis by (auto simp: rnd_def Let_def)
  qed
qed

lemma rnd_nonneg: "0 \<le> q \<Longrightarrow> fnonneg (rnd s q)"
  by (auto simp: rnd_def Let_def fnonneg_def round_mag_nonneg)

lemma fle_zero_rnd: "0 \<le> q \<Longrightarrow> fle NegZero (rnd s q)" "0 \<le> q \<Longrightarrow> fle (Fin 0) (rnd s q)"
  using rnd_nonneg [of q s] by (cases "rnd s q"; auto simp: fnonneg_def)+

lemma fadd_nonneg: "fnonneg x \<Longrightarrow> fnonneg y \<Longrightarrow> fnonneg (fadd x y)"
  by (cases x; cases y) (auto simp: fadd_def fnonneg_def intro!: rnd_nonneg [unfolded fnonneg_def])

lemma fle_rnd_zero: "q \<le> 0 \<Longrightarrow> fle (rnd s q) NegZero"
  using rnd_mono [of q 0 s True] by simp

lemma fnonneg_simps [simp]:
  "fnonneg NegZero" "fnonneg PosInf" "fnonneg (Fin q) \<longleftrightarrow> 0 \<le> q" "\<not> fnonneg NaN" "\<not> fnonneg NegInf"
  by (auto simp: fnonneg_def)

lemma ffin_nonneg_simps [simp]:
  "ffin_nonneg NegZero" "\<not> ffin_nonneg PosInf" "ffin_nonneg (Fin q) \<longleftrightarrow> 0 \<le> q"
  "\<not> ffin_nonneg NaN" "\<not> ffin_nonneg NegInf"
  by (auto simp: ffin_nonneg_def)

lemma fmul_nonneg: "ffin_nonneg x \<Longrightarrow> ffin_nonneg y \<Longrightarrow> fnonneg (fmul x y)"
  by (cases x; cases y) (auto simp: fmul_def intro!: rnd_nonneg)

lemma fadd_mono:
  assumes "fnonneg x" and "fle x x'" and "fnonneg y" and "fle y y'"
  shows "fle (fadd x y) (fadd x' y')"
  using assms
  by (cases x; cases x'; cases y; cases y')
     (auto simp: fadd_def fnonneg_def intro!: rnd_mono fle_zero_rnd)

lemma fmul_mono_right:
  assumes "ffin_nonneg w" and "is_finite x" and "is_finite x'" and "fle x x'"
  shows "fle (fmul w x) (fmul w x')"
proof -
  have "fval w * fval x \<le> fval w * fval x'"
    using assms by (cases x; cases x') (auto simp: ffin_nonneg_def mult_left_mono mult_nonneg_nonpos)
  with assms show ?thesis
    by (cases w; cases x; cases x') (auto simp: fmul_def intro!: rnd_mono fle_zero_rnd fle_rnd_zero)
qed

lemma fdiv_antimono:
  assumes "ffin_nonneg w" and "0 < fval x" and "fle x x'" and "is_finite x'"
  shows "fle (fdiv w x') (fdiv w x)"
  using assms
  by (cases w; cases x; cases x')
     (auto simp: fdiv_def ffin_nonneg_def intro!: rnd_mono divide_left_mono)

lemma fdiv_nonneg: "ffin_nonneg w \<Longrightarrow> 0 < fval x \<Longrightarrow> fnonneg (fdiv w x)"
  by (cases w; cases x) (auto simp: fdiv_def ffin_nonneg_def fnonneg_def
        intro!: rnd_nonneg [unfolded fnonneg_def])

lemma f32_of_nat_mono: "m \<le> n \<Longrightarrow> fle (f32_of_nat m) (f32_of_nat n)"
  by (simp add: f32_of_nat_def rnd_mono)

lemma f32_of_nat_exact: "n \<le> 2 ^ 24 \<Longrightarrow> f32_of_nat n = Fin (of_nat n)"
  by (cases "n = 0") (auto simp: f32_of_nat_def rnd_def round_mag_of_nat Let_def round_mag_def [of 0])

lemma fmax_zero_nonneg: "fnonneg (fmax x (Fin 0))"
  by (cases x) (auto simp: fmax_def flt_def fnonneg_def)

end
