(* ===== verification/Domain_Model.thy ===== *)
theory Domain_Model
  imports F32
begin

text \<open>
  The pure domain crate (\<open>crates/domain/src\<close>): identifiers, the enumerations and records every
  other component shares, the rich session events and their flat transcript view, the
  configuration with its validation order, and the lifecycle file names.  A \<open>PathBuf\<close> is the list
  of its components.
\<close>

section \<open>Errors (errors.rs)\<close>

datatype config_error =
    MissingValue string
  | InvalidValue string string

datatype embedding_error =
    EmbProviderUnavailable string
  | EmbInvalidInput string
  | EmbTimeout nat
  | EmbUnexpected string

datatype extraction_error =
    ExtProviderUnavailable string
  | ExtInvalidTranscript string
  | ExtTimeout nat
  | ExtUnexpected string

datatype scope_error =
    ResolverUnavailable string
  | InvalidConfiguration string
  | ScopeUnexpected string

datatype compilation_error =
    CompInvalidInput string
  | CompUnexpected string

datatype domain_error =
    InvalidIdentifier string
  | InvalidState string
  | ConfigErr config_error
  | EmbeddingErr embedding_error
  | ExtractionErr extraction_error
  | ScopeErr scope_error
  | CompilationErr compilation_error

section \<open>Identifiers and enumerations (types.rs)\<close>

datatype domain_id = DomainId (as_str: string)

definition domain_id_parse :: "string \<Rightarrow> (domain_error, domain_id) result" where
  "domain_id_parse raw =
     (let trimmed = trim raw in
      if trimmed = [] then Err (InvalidIdentifier ''identifier cannot be blank'')
      else if list_ex is_ws trimmed
        then Err (InvalidIdentifier ''identifier cannot contain whitespace'')
      else Ok (DomainId trimmed))"

datatype scope_type = Project | Global | Team

fun scope_type_str :: "scope_type \<Rightarrow> string" where
  "scope_type_str Project = ''project''"
| "scope_type_str Global = ''global''"
| "scope_type_str Team = ''team''"

datatype lifecycle_status = LDraft | LActive | LRetired | LRejected | LDeleted

datatype skill_status = SDraft | SReady | SDeprecated | SRetired

datatype subunit_type = Procedure | Convention | Asset | Evidence | Summary

record skill =
  sk_id :: domain_id
  sk_name :: string
  sk_description :: string
  sk_scope :: scope_type
  sk_status :: skill_status
  sk_lifecycle :: lifecycle_status
  sk_tags :: "string list"
  sk_subunit_ids :: "domain_id list"
  sk_community_id :: "domain_id option"

record subunit =
  su_id :: domain_id
  su_skill_id :: domain_id
  su_kind :: subunit_type
  su_title :: string
  su_content :: string
  su_lifecycle :: lifecycle_status

type_synonym path = "string list"

record scope_descriptor =
  sd_scope_id :: string
  sd_scope_type :: scope_type
  sd_paths :: "path list"
  sd_config :: "(string \<times> string) list"

record scored_skill =
  ss_skill :: skill
  ss_score :: f32
  ss_matched_scope :: scope_type
  ss_rationale :: "string list"

section \<open>Session events (types.rs)\<close>

record transcript_entry =
  te_speaker :: string
  te_content :: string

record session_transcript =
  st_session_id :: domain_id
  st_entries :: "transcript_entry list"

text \<open>\<open>i32\<close> exit codes are \<open>int\<close>; the code only compares them with zero.\<close>

datatype session_event =
    UserMessage (event_index: nat) (user_content: string)
  | AssistantMessage (event_index: nat) (assistant_content: string)
  | ToolCall (event_index: nat) (call_id: string) (tool_name: string) (input_json: string)
  | ToolResult (event_index: nat) (result_id: string) (is_error: bool)
      (exit_code: "int option") (tool_output: string)
  | FileEdit (event_index: nat) (edit_id: string) (edit_path: string) (edit_operation: string)
  | Metadata (event_index: nat) (event_type: string)

fun is_conversational :: "session_event \<Rightarrow> bool" where
  "is_conversational (UserMessage _ _) = True"
| "is_conversational (AssistantMessage _ _) = True"
| "is_conversational _ = False"

fun as_transcript_entry :: "session_event \<Rightarrow> transcript_entry option" where
  "as_transcript_entry (UserMessage _ c) = Some \<lparr>te_speaker = ''user'', te_content = c\<rparr>"
| "as_transcript_entry (AssistantMessage _ c) = Some \<lparr>te_speaker = ''assistant'', te_content = c\<rparr>"
| "as_transcript_entry _ = None"

definition events_to_transcript :: "domain_id \<Rightarrow> session_event list \<Rightarrow> session_transcript" where
  "events_to_transcript sid events =
     \<lparr>st_session_id = sid, st_entries = List.map_filter as_transcript_entry events\<rparr>"

section \<open>Configuration (config.rs)\<close>

record embedding_config =
  ec_provider :: string
  ec_model :: string
  ec_dimension :: nat
  ec_timeout_ms :: nat
  ec_batch_timeout_ms :: nat
  ec_max_concurrency :: nat

record extraction_config =
  xc_provider :: string
  xc_model :: string
  xc_timeout_ms :: nat

record scope_config =
  sc_project_enabled :: bool
  sc_global_enabled :: bool
  sc_team_enabled :: bool
  sc_global_paths :: "path list"

record compilation_config =
  cc_max_skills :: nat
  cc_max_context_chars :: nat
  cc_include_rescue :: bool

record hdbscan_config =
  hc_min_cluster_size :: nat

record domain_config =
  dc_embedding :: embedding_config
  dc_extraction :: extraction_config
  dc_scope :: scope_config
  dc_compilation :: compilation_config
  dc_hdbscan :: hdbscan_config

definition embedding_default :: embedding_config where
  "embedding_default = \<lparr>ec_provider = ''ollama'', ec_model = ''nomic-embed-text'',
     ec_dimension = 768, ec_timeout_ms = 500, ec_batch_timeout_ms = 5000, ec_max_concurrency = 4\<rparr>"

definition extraction_default :: extraction_config where
  "extraction_default = \<lparr>xc_provider = ''claude'', xc_model = ''sonnet'', xc_timeout_ms = 1500\<rparr>"

definition scope_default :: scope_config where
  "scope_default = \<lparr>sc_project_enabled = True, sc_global_enabled = True,
     sc_team_enabled = False, sc_global_paths = []\<rparr>"

definition compilation_default :: compilation_config where
  "compilation_default = \<lparr>cc_max_skills = 12, cc_max_context_chars = 12000,
     cc_include_rescue = True\<rparr>"

definition hdbscan_default :: hdbscan_config where
  "hdbscan_default = \<lparr>hc_min_cluster_size = 3\<rparr>"

definition domain_config_default :: domain_config where
  "domain_config_default = \<lparr>dc_embedding = embedding_default, dc_extraction = extraction_default,
     dc_scope = scope_default, dc_compilation = compilation_default, dc_hdbscan = hdbscan_default\<rparr>"

definition invalid_value :: "string \<Rightarrow> string \<Rightarrow> (domain_error, 'a) result" where
  "invalid_value f m = Err (ConfigErr (InvalidValue f m))"

definition domain_config_validate :: "domain_config \<Rightarrow> (domain_error, unit) result" where
  "domain_config_validate c =
     (let e = dc_embedding c; x = dc_extraction c; s = dc_scope c; m = dc_compilation c in
      if ec_dimension e = 0 then
        invalid_value ''embedding.dimension'' ''must be greater than zero''
      else if ec_timeout_ms e = 0 then
        invalid_value ''embedding.timeout_ms'' ''must be greater than zero''
      else if ec_batch_timeout_ms e = 0 then
        invalid_value ''embedding.batch_timeout_ms'' ''must be greater than zero''
      else if ec_max_concurrency e = 0 then
        invalid_value ''embedding.max_concurrency'' ''must be greater than zero''
      else if trim (xc_provider x) = [] then
        invalid_value ''extraction.provider'' ''must not be blank''
      else if trim (xc_model x) = [] then
        invalid_value ''extraction.model'' ''must not be blank''
      else if xc_timeout_ms x = 0 then
        invalid_value ''extraction.timeout_ms'' ''must be greater than zero''
      else if \<not> sc_project_enabled s \<and> \<not> sc_global_enabled s \<and> \<not> sc_team_enabled s then
        invalid_value ''scope'' ''at least one scope must be enabled''
      else if cc_max_skills m = 0 then
        invalid_value ''compilation.max_skills'' ''must be greater than zero''
      else if cc_max_context_chars m = 0 then
        invalid_value ''compilation.max_context_chars'' ''must be greater than zero''
      else Ok ())"

section \<open>Lifecycle files and dates (lifecycle\_files.rs, lifecycle\_policy.rs)\<close>

definition active_skill_file :: string where "active_skill_file = ''SKILL.md''"
definition pending_skill_file :: string where "pending_skill_file = ''SKILL.md.pending''"
definition rejected_skill_file :: string where "rejected_skill_file = ''SKILL.md.rejected''"
definition retired_skill_file :: string where "retired_skill_file = ''SKILL.md.retired''"

definition file_name :: "path \<Rightarrow> string option" where
  "file_name p = (if p = [] \<or> last p = ''..'' \<or> last p = ''/'' then None else Some (last p))"

definition has_lifecycle_file_name :: "path \<Rightarrow> string \<Rightarrow> bool" where
  "has_lifecycle_file_name p expected =
     (case file_name p of None \<Rightarrow> False | Some f \<Rightarrow> ascii_lower f = ascii_lower expected)"

text \<open>The file system enters as the set of existing regular files.\<close>

definition is_rejected_tombstone :: "(path \<Rightarrow> bool) \<Rightarrow> path \<Rightarrow> bool" where
  "is_rejected_tombstone is_file p = (is_file p \<and> has_lifecycle_file_name p rejected_skill_file)"

text \<open>Timestamps are seconds.\<close>

definition pending_default_warning_at :: "int \<Rightarrow> int" where
  "pending_default_warning_at created_at = created_at + 30 * 86400"

definition pending_default_expires_at :: "int \<Rightarrow> int" where
  "pending_default_expires_at created_at = created_at + 90 * 86400"

section \<open>Properties of identifiers, events and configuration\<close>

lemma trim_no_ws: "\<not> list_ex is_ws s \<Longrightarrow> trim s = s"
proof -
  assume a: "\<not> list_ex is_ws s"
  then have ws: "\<forall>c \<in> set s. \<not> is_ws c" by (auto simp: list_ex_iff)
  then have "dropWhile is_ws s = s"
    by (metis dropWhile_eq_self_iff list.set_sel(1))
  moreover from ws have "dropWhile is_ws (rev s) = rev s"
    by (metis dropWhile_eq_self_iff list.set_sel(1) set_rev)
  ultimately show ?thesis by (simp add: trim_def trim_start_def trim_end_def)
qed

lemma domain_id_parse_Ok:
  "domain_id_parse raw = Ok i \<longleftrightarrow> trim raw \<noteq> [] \<and> \<not> list_ex is_ws (trim raw) \<and> i = DomainId (trim raw)"
  by (auto simp: domain_id_parse_def Let_def)

lemma as_transcript_entry_Some_iff: "(\<exists>e. as_transcript_entry ev = Some e) \<longleftrightarrow> is_conversational ev"
  by (cases ev) auto

lemma length_map_filter:
  "length (List.map_filter f xs) = length (filter (\<lambda>x. f x \<noteq> None) xs)"
  by (induction xs) (auto split: option.splits)

lemma map_filter_append [simp]:
  "List.map_filter f (xs @ ys) = List.map_filter f xs @ List.map_filter f ys"
  by (induction xs) (auto split: option.splits)

lemma validate_Ok_iff:
  "domain_config_validate c = Ok () \<longleftrightarrow>
     0 < ec_dimension (dc_embedding c) \<and> 0 < ec_timeout_ms (dc_embedding c) \<and>
     0 < ec_batch_timeout_ms (dc_embedding c) \<and> 0 < ec_max_concurrency (dc_embedding c) \<and>
     \<not> blank (xc_provider (dc_extraction c)) \<and> \<not> blank (xc_model (dc_extraction c)) \<and>
     0 < xc_timeout_ms (dc_extraction c) \<and>
     (sc_project_enabled (dc_scope c) \<or> sc_global_enabled (dc_scope c) \<or> sc_team_enabled (dc_scope c)) \<and>
     0 < cc_max_skills (dc_compilation c) \<and> 0 < cc_max_context_chars (dc_compilation c)"
  by (simp add: domain_config_validate_def invalid_value_def Let_def blank_def)

lemma scope_type_str_inj: "scope_type_str a = scope_type_str b \<Longrightarrow> a = b"
  by (cases a; cases b) auto

end
