(* ===== verification/Circuit_Breaker.thy ===== *)
theory Circuit_Breaker
  imports Prelude "HOL-Library.Word"
begin

text \<open>
  The circuit breaker that guards the embedding provider
  (\<open>crates/retrieval/src/circuit_breaker.rs\<close>; \<open>crates/infrastructure/src/resilience.rs\<close> holds the
  same type over an async mutex) and the bounded retry loop behind it.  Time is a monotone clock
  in milliseconds that each call reads; the \<open>u32\<close> failure counter is a 32-bit word, so the
  increment wraps as in a release build.
\<close>

section \<open>The breaker\<close>

datatype circuit_state = Closed | Open | HalfOpen

record circuit_data =
  cd_state :: circuit_state
  cd_failures :: "32 word"
  cd_opened_at :: "nat option"

record circuit_breaker = circuit_data +
  cb_threshold :: "32 word"
  cb_open_for :: nat

definition breaker_new :: "32 word \<Rightarrow> nat \<Rightarrow> circuit_breaker" where
  "breaker_new threshold open_for =
     \<lparr>cd_state = Closed, cd_failures = 0, cd_opened_at = None,
      cb_threshold = max threshold 1, cb_open_for = open_for\<rparr>"

definition ready_for_half_open :: "nat \<Rightarrow> circuit_breaker \<Rightarrow> bool" where
  "ready_for_half_open now b =
     (case cd_opened_at b of None \<Rightarrow> False | Some t \<Rightarrow> cb_open_for b \<le> now - t)"

definition allow_request :: "nat \<Rightarrow> circuit_breaker \<Rightarrow> bool \<times> circuit_breaker" where
  "allow_request now b =
     (case cd_state b of
        Closed \<Rightarrow> (True, b)
      | HalfOpen \<Rightarrow> (True, b)
      | Open \<Rightarrow> if ready_for_half_open now b then (True, b\<lparr>cd_state := HalfOpen\<rparr>) else (False, b))"

definition record_success :: "circuit_breaker \<Rightarrow> circuit_breaker" where
  "record_success b = b\<lparr>cd_state := Closed, cd_failures := 0, cd_opened_at := None\<rparr>"

definition record_failure :: "nat \<Rightarrow> circuit_breaker \<Rightarrow> circuit_breaker" where
  "record_failure now b =
     (let b' = b\<lparr>cd_failures := cd_failures b + 1\<rparr> in
      if cb_threshold b' \<le> cd_failures b'
      then b'\<lparr>cd_state := Open, cd_opened_at := Some now\<rparr> else b')"

section \<open>Reachable breakers\<close>

text \<open>One rule per public operation that writes the state.\<close>

inductive breaker_step :: "circuit_breaker \<Rightarrow> circuit_breaker \<Rightarrow> bool" where
  step_allow: "breaker_step b (snd (allow_request now b))"
| step_success: "breaker_step b (record_success b)"
| step_failure: "breaker_step b (record_failure now b)"

inductive breaker_reachable :: "32 word \<Rightarrow> nat \<Rightarrow> circuit_breaker \<Rightarrow> bool" for thr d where
  reach_new: "breaker_reachable thr d (breaker_new thr d)"
| reach_step: "breaker_reachable thr d b \<Longrightarrow> breaker_step b b' \<Longrightarrow> breaker_reachable thr d b'"

inductive_cases breaker_stepE: "breaker_step b b'"

definition breaker_inv :: "circuit_breaker \<Rightarrow> bool" where
  "breaker_inv b \<longleftrightarrow> 1 \<le> cb_threshold b \<and>
     (cd_state b = Open \<longrightarrow> cd_opened_at b \<noteq> None) \<and>
     (cd_state b = Closed \<longrightarrow> cd_failures b < cb_threshold b \<and> cd_opened_at b = None)"

lemma breaker_inv_new: "breaker_inv (breaker_new thr d)"
  by (auto simp: breaker_inv_def breaker_new_def max_def word_le_nat_alt word_less_nat_alt)

lemma breaker_inv_allow: "breaker_inv b \<Longrightarrow> breaker_inv (snd (allow_request now b))"
  by (cases "cd_state b") (auto simp: breaker_inv_def allow_request_def)

lemma breaker_inv_success: "breaker_inv b \<Longrightarrow> breaker_inv (record_success b)"
  by (auto simp: breaker_inv_def record_success_def word_le_nat_alt word_less_nat_alt)

lemma breaker_inv_failure: "breaker_inv b \<Longrightarrow> breaker_inv (record_failure now b)"
  by (auto simp: breaker_inv_def record_failure_def Let_def)

lemma breaker_inv_step: "breaker_step b b' \<Longrightarrow> breaker_inv b \<Longrightarrow> breaker_inv b'"
  by (elim breaker_stepE) (auto intro: breaker_inv_allow breaker_inv_success breaker_inv_failure)

lemma breaker_step_params:
  "breaker_step b b' \<Longrightarrow> cb_threshold b' = cb_threshold b \<and> cb_open_for b' = cb_open_for b"
  by (elim breaker_stepE)
     (auto simp: allow_request_def record_success_def record_failure_def Let_def
           split: circuit_state.splits)

lemma breaker_reachable_inv: "breaker_reachable thr d b \<Longrightarrow> breaker_inv b"
  by (induction rule: breaker_reachable.induct) (auto intro: breaker_inv_new breaker_inv_step)

lemma breaker_reachable_params:
  "breaker_reachable thr d b \<Longrightarrow> cb_threshold b = max thr 1 \<and> cb_open_for b = d"
  by (induction rule: breaker_reachable.induct) (auto simp: breaker_new_def dest: breaker_step_params)

text \<open>Failures in a row.\<close>

fun record_failures :: "nat list \<Rightarrow> circuit_breaker \<Rightarrow> circuit_breaker" where
  "record_failures [] b = b"
| "record_failures (t # ts) b = record_failures ts (record_failure t b)"

lemma record_failures_append:
  "record_failures (ts @ us) b = record_failures us (record_failures ts b)"
  by (induction ts arbitrary: b) auto

lemma unat_Suc_lt: "unat (w :: 32 word) + 1 < 2 ^ 32 \<Longrightarrow> unat (w + 1) = unat w + 1"
  by (simp add: unat_word_ariths)

lemma record_failures_count:
  assumes "unat (cd_failures b) + length ts < 2 ^ 32"
  shows "unat (cd_failures (record_failures ts b)) = unat (cd_failures b) + length ts"
  using assms
proof (induction ts arbitrary: b)
  case (Cons t ts)
  have "unat (cd_failures (record_failure t b)) = unat (cd_failures b) + 1"
    using Cons.prems unat_Suc_lt [of "cd_failures b"] by (simp add: record_failure_def Let_def)
  with Cons show ?case by simp
qed simp

lemma record_failures_threshold: "cb_threshold (record_failures ts b) = cb_threshold b"
  by (induction ts arbitrary: b) (auto simp: record_failure_def Let_def)

section \<open>Bounded retry (resilience.rs)\<close>

record retry_policy =
  rp_max_attempts :: nat
  rp_base_delay :: nat
  rp_max_delay :: nat

definition retry_policy_default :: retry_policy where
  "retry_policy_default = \<lparr>rp_max_attempts = 3, rp_base_delay = 50, rp_max_delay = 2000\<rparr>"

text \<open>
  The wait after attempt \<open>k\<close>; \<open>attempt * 7\<close> is a \<open>u32\<close> product.  The saturating \<open>Duration\<close>
  operations are exact below \<open>max_delay\<close>, which caps them.
\<close>

definition retry_wait :: "retry_policy \<Rightarrow> nat \<Rightarrow> nat" where
  "retry_wait p k = min (rp_base_delay p * k + (k * 7) mod 2 ^ 32) (rp_max_delay p)"

text \<open>
  \<open>op k\<close> is what the operation answers at its \<open>k\<close>-th call.  The result comes with the waits
  slept between the calls.
\<close>

function retry_loop ::
  "retry_policy \<Rightarrow> (nat \<Rightarrow> ('e, 'a) result) \<Rightarrow> nat \<Rightarrow> ('e, 'a) result \<times> nat list" where
  "retry_loop p op k =
     (case op k of
        Inr v \<Rightarrow> (Inr v, [])
      | Inl e \<Rightarrow>
          if rp_max_attempts p \<le> k then (Inl e, [])
          else (let (r, ws) = retry_loop p op (Suc k) in (r, retry_wait p k # ws)))"
  by pat_completeness auto
termination
  by (relation "measure (\<lambda>(p, op, k). rp_max_attempts p - k)") auto

declare retry_loop.simps [simp del]

definition retry_with_backoff ::
  "retry_policy \<Rightarrow> (nat \<Rightarrow> ('e, 'a) result) \<Rightarrow> ('e, 'a) result \<times> nat list" where
  "retry_with_backoff p op = retry_loop p op 1"

datatype 'e resilience_error = CircuitOpen | Operation 'e

text \<open>
  \<open>t0\<close> is the time the gate is asked, \<open>t1\<close> the time a final failure is recorded.
\<close>

definition execute_with_resilience ::
  "nat \<Rightarrow> nat \<Rightarrow> circuit_breaker \<Rightarrow> retry_policy \<Rightarrow> (nat \<Rightarrow> ('e, 'a) result) \<Rightarrow>
     ('e resilience_error, 'a) result \<times> circuit_breaker" where
  "execute_with_resilience t0 t1 b p op =
     (let (allowed, b1) = allow_request t0 b in
      if \<not> allowed then (Inl CircuitOpen, b1)
      else (case fst (retry_with_backoff p op) of
              Inr v \<Rightarrow> (Inr v, record_success b1)
            | Inl e \<Rightarrow> (Inl (Operation e), record_failure t1 b1)))"

lemma retry_loop_waits:
  "retry_loop p op k = (r, ws) \<Longrightarrow> k \<le> max 1 (rp_max_attempts p) \<Longrightarrow>
     length ws \<le> max 1 (rp_max_attempts p) - k \<and> (\<forall>w \<in> set ws. w \<le> rp_max_delay p)"
proof (induction p op k arbitrary: r ws rule: retry_loop.induct)
  case (1 p op k)
  show ?case
  proof (cases "op k")
    case (Inr v)
    with 1 show ?thesis by (simp add: retry_loop.simps [of p op k])
  next
    case (Inl e)
    show ?thesis
    proof (cases "rp_max_attempts p \<le> k")
      case True
      with Inl 1 show ?thesis by (simp add: retry_loop.simps [of p op k])
    next
      case False
      obtain r' ws' where rec: "retry_loop p op (Suc k) = (r', ws')" by fastforce
      with 1(1) [OF Inl False rec] False have
        "length ws' \<le> max 1 (rp_max_attempts p) - Suc k \<and> (\<forall>w \<in> set ws'. w \<le> rp_max_delay p)"
        by auto
      moreover have "ws = retry_wait p k # ws'"
        using 1(2) Inl False rec by (simp add: retry_loop.simps [of p op k])
      ultimately show ?thesis using False by (auto simp: retry_wait_def)
    qed
  qed
qed

text \<open>The calls made are exactly \<open>k, \<dots>, k + length ws\<close>: all but the last fail, the last is the answer.\<close>

lemma retry_loop_calls:
  "retry_loop p op k = (r, ws) \<Longrightarrow>
     op (k + length ws) = r \<and> (\<forall>i < length ws. \<exists>e. op (k + i) = Inl e)"
proof (induction p op k arbitrary: r ws rule: retry_loop.induct)
  case (1 p op k)
  show ?case
  proof (cases "op k")
    case (Inr v)
    with 1 show ?thesis by (simp add: retry_loop.simps [of p op k])
  next
    case (Inl e)
    show ?thesis
    proof (cases "rp_max_attempts p \<le> k")
      case True
      with Inl 1 show ?thesis by (simp add: retry_loop.simps [of p op k])
    next
      case False
      obtain r' ws' where rec: "retry_loop p op (Suc k) = (r', ws')" by fastforce
      have w: "r = r'" "ws = retry_wait p k # ws'"
        using 1(2) Inl False rec by (simp_all add: retry_loop.simps [of p op k])
      have "op (Suc k + length ws') = r' \<and> (\<forall>i < length ws'. \<exists>e. op (Suc k + i) = Inl e)"
        using 1(1) [OF Inl False rec] .
      then show ?thesis using Inl w by (auto simp: less_Suc_eq_0_disj)
    qed
  qed
qed

lemma retry_loop_err:
  "retry_loop p op k = (Inl e, ws) \<Longrightarrow> k \<le> max 1 (rp_max_attempts p) \<Longrightarrow>
     rp_max_attempts p \<le> k + length ws"
proof (induction p op k arbitrary: ws rule: retry_loop.induct)
  case (1 p op k)
  then show ?case
    by (cases "op k"; cases "rp_max_attempts p \<le> k")
       (fastforce simp: retry_loop.simps [of p op k] split: prod.splits)+
qed

section \<open>Properties\<close>

lemma record_failure_closed:
  assumes "cd_state b = Closed" and "unat (cd_failures b) + 1 < unat (cb_threshold b)"
  shows "cd_state (record_failure t b) = Closed"
proof -
  have "unat (cb_threshold b) < 2 ^ 32" using unsigned_less [of "cb_threshold b"] by simp
  with assms unat_Suc_lt [of "cd_failures b"] show ?thesis
    by (simp add: record_failure_def Let_def word_le_nat_alt)
qed

lemma record_failures_inv: "breaker_inv b \<Longrightarrow> breaker_inv (record_failures ts b)"
  by (induction ts arbitrary: b) (auto intro: breaker_inv_failure)

lemma record_failures_open_for: "cb_open_for (record_failures ts b) = cb_open_for b"
  by (induction ts arbitrary: b) (auto simp: record_failure_def Let_def)

text \<open>Failures never close a breaker.\<close>

lemma record_failures_open: "cd_state b = Open \<Longrightarrow> cd_state (record_failures ts b) = Open"
  by (induction ts arbitrary: b) (simp_all add: record_failure_def Let_def)

lemma record_failures_closed:
  "breaker_inv b \<Longrightarrow> cd_state b = Closed \<Longrightarrow>
     unat (cd_failures b) + length ts < unat (cb_threshold b) \<Longrightarrow> cd_state (record_failures ts b) = Closed"
proof (induction ts arbitrary: b)
  case (Cons t ts)
  have "unat (cb_threshold b) < 2 ^ 32" using unsigned_less [of "cb_threshold b"] by simp
  then have "unat (cd_failures (record_failure t b)) = unat (cd_failures b) + 1"
    using Cons.prems(3) record_failures_count [of b "[t]"] by simp
  with Cons show ?case
    using record_failure_closed [of b t] breaker_inv_failure [of b t]
      record_failures_threshold [of "[t]" b] by simp
qed simp

lemma record_failure_reopens:
  "unat (cb_threshold b) \<le> unat (cd_failures b) + 1 \<Longrightarrow> unat (cd_failures b) + 1 < 2 ^ 32 \<Longrightarrow>
     cd_state (record_failure t b) = Open \<and> cd_opened_at (record_failure t b) = Some t"
  using unat_Suc_lt [of "cd_failures b"] by (simp add: record_failure_def Let_def word_le_nat_alt)

lemma record_failures_state:
  assumes "length ts < 2 ^ 32"
  shows "cd_state (record_failures ts (breaker_new thr d)) =
      (if length ts < unat (max thr 1) then Closed else Open) \<and>
    (unat (max thr 1) \<le> length ts \<longrightarrow>
      cd_opened_at (record_failures ts (breaker_new thr d)) = Some (last ts))"
proof -
  let ?b = "breaker_new thr d"
  have b: "cd_state ?b = Closed" "cd_failures ?b = 0" "cb_threshold ?b = max thr 1"
    by (simp_all add: breaker_new_def)
  have "0 < unat (max thr 1)" by (auto simp: max_def word_le_nat_alt)
  show ?thesis
  proof (cases "length ts < unat (max thr 1)")
    case True
    then show ?thesis using record_failures_closed [of ?b ts] breaker_inv_new b by simp
  next
    case False
    then obtain us t where ts: "ts = us @ [t]"
      using \<open>0 < unat (max thr 1)\<close> by (metis append_butlast_last_id leI length_0_conv not_less_zero)
    let ?c = "record_failures us ?b"
    have "unat (cd_failures ?c) = length us" "cb_threshold ?c = max thr 1"
      using record_failures_count [of ?b us] assms b ts by (simp_all add: record_failures_threshold)
    with False record_failure_reopens [of ?c t] assms show ?thesis
      by (simp add: ts record_failures_append)
  qed
qed

text \<open>the breaker opens exactly at its threshold.  From a fresh breaker, a run of consecutive
  failures leaves it closed while it is shorter than the threshold (at least one) and open from then
  on, and an open breaker remembers the time of the last failure.\<close>

theorem breaker_opens_at_threshold:
  assumes "length ts < 2 ^ 32"
  shows "cd_state (record_failures ts (breaker_new thr d)) =
      (if length ts < unat (max thr 1) then Closed else Open) \<and>
    (unat (max thr 1) \<le> length ts \<longrightarrow>
      cd_opened_at (record_failures ts (breaker_new thr d)) = Some (last ts))"
  using assms by (rule record_failures_state)

theorem breaker_opens_at_threshold_witness:
  "cd_state (record_failures [3, 5, 9] (breaker_new 3 30)) = Open \<and>
   cd_opened_at (record_failures [3, 5, 9] (breaker_new 3 30)) = Some 9"
  using breaker_opens_at_threshold [of "[3, 5, 9]" 3 30] by (simp add: max_def word_le_nat_alt)

text \<open>the life of an open breaker.  A breaker that consecutive failures have opened rejects
  every request until the open time has passed since the last one, then admits requests and is half
  open; there the next failure opens it again at once, and the next success makes it a fresh
  breaker.\<close>

theorem breaker_half_open_recovery:
  assumes "unat (max thr 1) \<le> length ts" and "length ts + 1 < 2 ^ 32"
  shows "allow_request now (record_failures ts (breaker_new thr d)) =
      (if now - last ts < d then (False, record_failures ts (breaker_new thr d))
       else (True, (record_failures ts (breaker_new thr d))\<lparr>cd_state := HalfOpen\<rparr>)) \<and>
    cd_state (record_failure t ((record_failures ts (breaker_new thr d))\<lparr>cd_state := HalfOpen\<rparr>)) = Open \<and>
    cd_opened_at (record_failure t ((record_failures ts (breaker_new thr d))\<lparr>cd_state := HalfOpen\<rparr>)) = Some t \<and>
    record_success ((record_failures ts (breaker_new thr d))\<lparr>cd_state := HalfOpen\<rparr>) = breaker_new thr d"
proof -
  let ?b = "record_failures ts (breaker_new thr d)"
  have st: "cd_state ?b = Open" "cd_opened_at ?b = Some (last ts)"
    using record_failures_state [of ts thr d] assms by auto
  have par: "cb_threshold ?b = max thr 1" "cb_open_for ?b = d" "unat (cd_failures ?b) = length ts"
    using record_failures_count [of "breaker_new thr d" ts] assms(2)
    by (simp_all add: record_failures_threshold record_failures_open_for breaker_new_def)
  have "record_success (?b\<lparr>cd_state := HalfOpen\<rparr>) = breaker_new thr d"
    using par(1,2) by (simp add: record_success_def breaker_new_def)
  then show ?thesis
    using st par assms record_failure_reopens [of "?b\<lparr>cd_state := HalfOpen\<rparr>" t]
    by (simp add: allow_request_def ready_for_half_open_def)
qed

theorem breaker_half_open_recovery_witness:
  "allow_request 60 (record_failures [3, 5, 9] (breaker_new 3 30)) =
     (True, (record_failures [3, 5, 9] (breaker_new 3 30))\<lparr>cd_state := HalfOpen\<rparr>)"
  using breaker_half_open_recovery [of 3 "[3, 5, 9]" 60 30 0] by (simp add: max_def word_le_nat_alt)

text \<open>Half open admits every request, not one probe.\<close>

lemma half_open_admits_all: "cd_state b = HalfOpen \<Longrightarrow> allow_request now b = (True, b)"
  by (simp add: allow_request_def)

text \<open>retries are bounded and honest.  With the answers of the operation given per call, the
  loop returns the answer of its last call, every earlier call failed, it makes at most
  max(1, max\_attempts) calls and exactly that many when it fails, and no wait exceeds the cap.\<close>

theorem retry_with_backoff_bounded:
  "fst (retry_with_backoff p op) = op (Suc (length (snd (retry_with_backoff p op)))) \<and>
   (\<forall>i \<in> {1..length (snd (retry_with_backoff p op))}. \<exists>e. op i = Inl e) \<and>
   length (snd (retry_with_backoff p op)) < max 1 (rp_max_attempts p) \<and>
   (\<forall>w \<in> set (snd (retry_with_backoff p op)). w \<le> rp_max_delay p) \<and>
   ((\<exists>e. fst (retry_with_backoff p op) = Inl e) \<longrightarrow>
      Suc (length (snd (retry_with_backoff p op))) = max 1 (rp_max_attempts p))"
proof -
  obtain r ws where run: "retry_loop p op 1 = (r, ws)" by fastforce
  from retry_loop_waits [OF run] have w: "length ws < max 1 (rp_max_attempts p)"
    "\<forall>w \<in> set ws. w \<le> rp_max_delay p" by auto
  from retry_loop_calls [OF run] have c: "op (Suc (length ws)) = r" "\<forall>i < length ws. \<exists>e. op (Suc i) = Inl e"
    by auto
  have "\<exists>e. op i = Inl e" if "i \<in> {1..length ws}" for i
    using c(2) [rule_format, of "i - 1"] that by auto
  moreover have "Suc (length ws) = max 1 (rp_max_attempts p)" if "r = Inl e" for e
    using retry_loop_err [of p op 1 e ws] run that w(1) by auto
  ultimately show ?thesis using w c(1) unfolding retry_with_backoff_def run by auto
qed

theorem retry_with_backoff_bounded_witness:
  "fst (retry_with_backoff retry_policy_default (\<lambda>k. if k < 3 then Inl k else Inr k)) = Inr (3 :: nat)"
proof -
  let ?op = "\<lambda>k :: nat. if k < 3 then Inl k else Inr k"
  have "length (snd (retry_with_backoff retry_policy_default ?op)) = 2"
    by (simp add: retry_with_backoff_def retry_loop.simps retry_policy_default_def)
  then show ?thesis
    using retry_with_backoff_bounded [of retry_policy_default ?op, THEN conjunct1] by simp
qed

end
