(* ===== verification/Scoring.thy ===== *)
theory Scoring
  imports Domain_Model
begin

text \<open>
  Scoring of the read path: the eq.3 score and the usage prior (\<open>retrieval/src/scoring.rs\<close>), the
  in-memory cosine ranking (\<open>cosine_rank.rs\<close>) and the subunit projection of the skill graph
  (\<open>graph_search.rs\<close>).  All arithmetic is binary32.  The lemmas give top-k optimality of the
  ranking, the range of the terms and monotonicity of the score.
\<close>

section \<open>The eq.3 score (scoring.rs)\<close>

record score_components =
  sco_l1_semantic :: f32
  sco_subunit_evidence :: f32
  sco_prior :: f32
  sco_community_boost :: f32

record scoring_weights =
  sw_alpha :: f32
  sw_beta :: f32
  sw_gamma :: f32
  sw_lambda :: f32

definition scoring_weights_default :: scoring_weights where
  "scoring_weights_default =
     \<lparr>sw_alpha = lit 0.45, sw_beta = lit 0.35, sw_gamma = lit 0.20, sw_lambda = lit 0.25\<rparr>"

definition score_eq3 :: "score_components \<Rightarrow> scoring_weights \<Rightarrow> f32" where
  "score_eq3 c w =
     (let base = fadd (fadd (fmul (sw_alpha w) (sco_l1_semantic c))
                            (fmul (sw_beta w) (sco_subunit_evidence c)))
                      (fmul (sw_gamma w) (sco_prior c))
      in fmul base (fadd (lit 1) (fmul (sw_lambda w) (sco_community_boost c))))"

text \<open>
  \<open>f32::ln\<close> and \<open>f32::exp\<close> come from the platform's mathematical library and are parameters.
\<close>

definition usage_prior :: "(f32 \<Rightarrow> f32) \<Rightarrow> (f32 \<Rightarrow> f32) \<Rightarrow> nat \<Rightarrow> nat \<Rightarrow> f32" where
  "usage_prior ln_f32 exp_f32 usage_count age_days =
     (if usage_count = 0 then lit 0
      else fmin (fmul (ln_f32 (fadd (lit 1) (f32_of_nat usage_count)))
                      (exp_f32 (fneg (fdiv (f32_of_nat age_days) (lit 30)))))
                (lit 0.15))"

section \<open>Cosine ranking (cosine\_rank.rs)\<close>

definition cosine_similarity :: "f32 list \<Rightarrow> f32 list \<Rightarrow> f32" where
  "cosine_similarity lhs rhs =
     (if length lhs \<noteq> length rhs \<or> lhs = [] then lit 0
      else (let dot = fsum (map (\<lambda>(l, r). fmul l r) (zip lhs rhs));
                lhs_norm = fsqrt (fsum (map (\<lambda>v. fmul v v) lhs));
                rhs_norm = fsqrt (fsum (map (\<lambda>v. fmul v v) rhs))
            in if feq lhs_norm (lit 0) \<or> feq rhs_norm (lit 0) then lit 0
               else fdiv dot (fmul lhs_norm rhs_norm)))"

record cosine_hit =
  ch_skill_index :: nat
  ch_semantic_score :: f32

definition desc_by :: "('a \<Rightarrow> f32) \<Rightarrow> 'a \<Rightarrow> 'a \<Rightarrow> bool" where
  "desc_by f x y \<longleftrightarrow> f y \<le> f x"

definition cosine_hits :: "f32 list \<Rightarrow> f32 list list \<Rightarrow> cosine_hit list" where
  "cosine_hits prompt_embedding skill_embeddings =
     map (\<lambda>(i, e). \<lparr>ch_skill_index = i,
            ch_semantic_score = fmax (cosine_similarity prompt_embedding e) (lit 0)\<rparr>)
         (List.enumerate 0 skill_embeddings)"

definition rank_by_cosine :: "f32 list \<Rightarrow> f32 list list \<Rightarrow> nat \<Rightarrow> cosine_hit list" where
  "rank_by_cosine prompt_embedding skill_embeddings limit =
     take limit (sort_by (desc_by ch_semantic_score) (cosine_hits prompt_embedding skill_embeddings))"

section \<open>Subunit projection (graph\_search.rs)\<close>

definition tokenize :: "string \<Rightarrow> string set" where
  "tokenize input =
     set (filter (\<lambda>t. t \<noteq> [])
            (map (\<lambda>t. ascii_lower (trim t)) (split_on (\<lambda>ch. \<not> is_alnum ch) input)))"

definition token_overlap_score :: "string set \<Rightarrow> string set \<Rightarrow> f32" where
  "token_overlap_score lhs rhs =
     (if lhs = {} \<or> rhs = {} then lit 0
      else fdiv (f32_of_nat (card (lhs \<inter> rhs))) (f32_of_nat (card lhs)))"

record subunit_projection =
  sp_subunit :: subunit
  sp_relevance :: f32

record graph_hit =
  gh_skill_index :: nat
  gh_lexical_score :: f32
  gh_subunit_evidence :: f32
  gh_projections :: "subunit_projection list"

definition subunit_semantic_weight :: f32 where "subunit_semantic_weight = lit 0.75"
definition subunit_lexical_weight :: f32 where "subunit_lexical_weight = lit 0.25"

text \<open>One subunit at \<open>position\<close>: its projection and its semantic score.\<close>

definition score_subunit ::
  "string set \<Rightarrow> f32 list \<Rightarrow> f32 list list option \<Rightarrow> nat \<times> subunit \<Rightarrow> subunit_projection \<times> f32" where
  "score_subunit prompt_tokens prompt_embedding embeddings = (\<lambda>(position, su).
     (let semantic =
            (case (case embeddings of None \<Rightarrow> None | Some es \<Rightarrow> nth_opt es position) of
               None \<Rightarrow> lit 0
             | Some e \<Rightarrow> fmax (cosine_similarity prompt_embedding e) (lit 0));
          lexical = token_overlap_score prompt_tokens
            (tokenize (ascii_lower (su_title su) @ '' '' @ ascii_lower (su_content su)));
          relevance = fadd (fmul subunit_semantic_weight semantic)
                           (fmul subunit_lexical_weight lexical)
      in (\<lparr>sp_subunit = su, sp_relevance = relevance\<rparr>, semantic)))"

text \<open>Mean of the \<open>k\<close> best semantic scores.\<close>

definition top_k_mean :: "nat \<Rightarrow> f32 list \<Rightarrow> f32" where
  "top_k_mean k scores =
     (let sorted = sort_by (desc_by (\<lambda>x. x)) scores; top_k_len = min (length sorted) k in
      if top_k_len = 0 then lit 0
      else fdiv (fsum (take k sorted)) (f32_of_nat top_k_len))"

definition project_skill ::
  "string set \<Rightarrow> f32 list \<Rightarrow> nat \<Rightarrow> nat \<Rightarrow> string \<Rightarrow> subunit list \<Rightarrow> f32 list list option \<Rightarrow> graph_hit"
where
  "project_skill prompt_tokens prompt_embedding max_subunits i text subunits embeddings =
     (let scored = map (score_subunit prompt_tokens prompt_embedding embeddings)
                       (List.enumerate 0 subunits)
      in \<lparr>gh_skill_index = i,
          gh_lexical_score = token_overlap_score prompt_tokens (tokenize text),
          gh_subunit_evidence = top_k_mean max_subunits (map snd scored),
          gh_projections = map fst
            (take max_subunits (sort_by (desc_by (\<lambda>p. sp_relevance (fst p))) scored))\<rparr>)"

definition search_graph ::
  "string \<Rightarrow> f32 list \<Rightarrow> string list \<Rightarrow> subunit list list \<Rightarrow> f32 list list list \<Rightarrow>
     nat list \<Rightarrow> nat \<Rightarrow> graph_hit list" where
  "search_graph prompt prompt_embedding skill_text skill_subunits skill_subunit_embeddings
     candidate_indices max_subunits_per_skill =
     (let prompt_tokens = tokenize prompt in
      List.map_filter (\<lambda>i.
        (case nth_opt skill_text i of None \<Rightarrow> None | Some text \<Rightarrow>
        (case nth_opt skill_subunits i of None \<Rightarrow> None | Some subunits \<Rightarrow>
          Some (project_skill prompt_tokens prompt_embedding max_subunits_per_skill i text subunits
                  (nth_opt skill_subunit_embeddings i)))))
        candidate_indices)"

section \<open>Descending order by a score\<close>

interpretation desc: total_preorder "desc_by f" for f :: "'a \<Rightarrow> f32"
  by unfold_locales (auto simp: desc_by_def)

section \<open>Lemmas on the ranking\<close>

lemma fmax_lit_zero_nonneg: "fnonneg (fmax x (lit 0))"
  using fmax_zero_nonneg by simp

lemma length_cosine_hits [simp]: "length (cosine_hits p es) = length es"
  by (simp add: cosine_hits_def)

lemma map_index_cosine_hits: "map ch_skill_index (cosine_hits p es) = [0..<length es]"
  by (simp add: cosine_hits_def comp_def case_prod_unfold)

lemma cosine_hits_mem:
  "h \<in> set (cosine_hits p es) \<longleftrightarrow> (\<exists>i < length es. h = \<lparr>ch_skill_index = i,
      ch_semantic_score = fmax (cosine_similarity p (es ! i)) (lit 0)\<rparr>)"
  by (force simp: cosine_hits_def in_set_enumerate_eq image_iff Bex_def)

lemma rank_by_cosine_subset: "set (rank_by_cosine p es n) \<subseteq> set (cosine_hits p es)"
  unfolding rank_by_cosine_def using set_take_subset by (metis set_sort_by)

lemma length_rank_by_cosine: "length (rank_by_cosine p es n) = min n (length es)"
  by (simp add: rank_by_cosine_def min.commute)

lemma rank_by_cosine_sorted:
  "sorted_wrt (desc_by ch_semantic_score) (rank_by_cosine p es n)"
  unfolding rank_by_cosine_def by (rule sorted_wrt_take) (rule desc.sorted_sort_by)

lemma distinct_cosine_hits: "distinct (map ch_skill_index (cosine_hits p es))"
  by (simp add: map_index_cosine_hits)

lemma distinct_rank_by_cosine: "distinct (map ch_skill_index (rank_by_cosine p es n))"
proof -
  have "mset (map ch_skill_index (sort_by (desc_by ch_semantic_score) (cosine_hits p es)))
      = mset (map ch_skill_index (cosine_hits p es))" by simp
  then have "distinct (map ch_skill_index (sort_by (desc_by ch_semantic_score) (cosine_hits p es)))"
    using distinct_cosine_hits mset_eq_imp_distinct_iff by blast
  then show ?thesis unfolding rank_by_cosine_def by (simp add: take_map [symmetric])
qed

lemma rank_by_cosine_optimal:
  assumes "h \<in> set (rank_by_cosine p es n)" and "g \<in> set (cosine_hits p es)"
    and "g \<notin> set (rank_by_cosine p es n)"
  shows "ch_semantic_score g \<le> ch_semantic_score h"
proof -
  let ?s = "sort_by (desc_by ch_semantic_score) (cosine_hits p es)"
  have "g \<in> set (take n ?s @ drop n ?s)" using assms(2) by simp
  with assms(3) have "g \<in> set (drop n ?s)" unfolding rank_by_cosine_def by (simp only: set_append) blast
  with assms(1) have "desc_by ch_semantic_score h g"
    unfolding rank_by_cosine_def by (rule desc.take_drop_sort_by)
  then show ?thesis by (simp add: desc_by_def)
qed

lemma cosine_hits_nonneg: "h \<in> set (cosine_hits p es) \<Longrightarrow> fnonneg (ch_semantic_score h)"
  by (auto simp: cosine_hits_mem fmax_zero_nonneg)

lemma rank_by_cosine_nonneg: "h \<in> set (rank_by_cosine p es n) \<Longrightarrow> fnonneg (ch_semantic_score h)"
  using rank_by_cosine_subset cosine_hits_nonneg by blast

section \<open>Lemmas on the overlap and the projection\<close>

lemma finite_tokenize [simp]: "finite (tokenize s)"
  by (simp add: tokenize_def)

lemma length_split_on: "length (split_on p s) \<le> Suc (length s)"
  by (induction s) (auto split: list.splits)

lemma card_tokenize: "card (tokenize s) \<le> Suc (length s)"
proof -
  have "card (tokenize s) \<le> length (split_on (\<lambda>ch. \<not> is_alnum ch) s)"
    unfolding tokenize_def by (rule order_trans [OF card_length]) (metis length_filter_le length_map)
  then show ?thesis using length_split_on le_trans by blast
qed

lemma f32_of_nat_pos: "0 < n \<Longrightarrow> n \<le> 2 ^ 24 \<Longrightarrow> 0 < fval (f32_of_nat n)"
  by (simp add: f32_of_nat_exact)

lemma lit_one [simp]: "lit 1 = Fin 1"
  using f32_of_nat_exact [of 1] by (simp add: f32_of_nat_def)

lemma token_overlap_range:
  assumes "finite lhs" and "card lhs \<le> 2 ^ 24"
  shows "fle (Fin 0) (token_overlap_score lhs rhs) \<and> fle (token_overlap_score lhs rhs) (Fin 1)"
proof (cases "lhs = {} \<or> rhs = {}")
  case False
  let ?m = "card (lhs \<inter> rhs)" and ?n = "card lhs"
  have n: "0 < ?n" using assms(1) False by (simp add: card_gt_0_iff)
  have mn: "?m \<le> ?n" using assms(1) by (intro card_mono) auto
  have "token_overlap_score lhs rhs = rnd False (of_nat ?m / of_nat ?n)"
    using False n mn assms(2) by (simp add: token_overlap_score_def f32_of_nat_exact fdiv_def)
  moreover have "(of_nat ?m :: rat) / of_nat ?n \<le> 1" using mn n by simp
  then have "fle (rnd False (of_nat ?m / of_nat ?n)) (rnd False 1)" by (rule rnd_mono)
  moreover have "fle (Fin 0) (rnd False (of_nat ?m / of_nat ?n))" by (rule fle_zero_rnd) simp
  ultimately show ?thesis by simp
qed (auto simp: token_overlap_score_def)

lemma fsum_nonneg: "\<forall>x \<in> set xs. fnonneg x \<Longrightarrow> fnonneg (fsum xs)"
proof -
  have "fnonneg a \<Longrightarrow> \<forall>x \<in> set xs. fnonneg x \<Longrightarrow> fnonneg (foldl fadd a xs)" for a
    by (induction xs arbitrary: a) (auto intro: fadd_nonneg)
  then show "\<forall>x \<in> set xs. fnonneg x \<Longrightarrow> fnonneg (fsum xs)" by (simp add: fsum_def)
qed

lemma fdiv_fnonneg: "fnonneg x \<Longrightarrow> ffin_nonneg y \<Longrightarrow> 0 < fval y \<Longrightarrow> fnonneg (fdiv x y)"
  by (cases x; cases y) (auto simp: fdiv_def intro!: rnd_nonneg)

lemma top_k_mean_nonneg:
  assumes "\<forall>x \<in> set xs. fnonneg x" and "k \<le> 2 ^ 24"
  shows "fnonneg (top_k_mean k xs)"
proof (cases "min (length xs) k = 0")
  case False
  let ?s = "sort_by (desc_by (\<lambda>x. x)) xs" and ?m = "min (length xs) k"
  have "\<forall>x \<in> set (take k ?s). fnonneg x" using assms(1) by (auto dest: in_set_takeD)
  then have "fnonneg (fsum (take k ?s))" by (rule fsum_nonneg)
  moreover have "f32_of_nat ?m = Fin (of_nat ?m)" using assms(2) by (simp add: f32_of_nat_exact)
  ultimately have "fnonneg (fdiv (fsum (take k ?s)) (f32_of_nat ?m))"
    using False by (intro fdiv_fnonneg) auto
  with False show ?thesis by (simp add: top_k_mean_def Let_def)
qed (auto simp: top_k_mean_def Let_def)

lemma snd_score_subunit_nonneg: "fnonneg (snd (score_subunit ts pe es ps))"
  by (cases ps) (auto simp: score_subunit_def Let_def fmax_zero_nonneg split: option.splits)

lemma sp_subunit_score_subunit [simp]: "sp_subunit (fst (score_subunit ts pe es (i, su))) = su"
  by (simp add: score_subunit_def Let_def)

lemma gh_skill_index_project_skill [simp]: "gh_skill_index (project_skill ts pe k i t sus e) = i"
  by (simp add: project_skill_def Let_def)

lemma project_skill_projections:
  fixes ts pe k i t sus e
  defines "ps \<equiv> gh_projections (project_skill ts pe k i t sus e)"
  shows "length ps = min k (length sus)" and "sp_subunit ` set ps \<subseteq> set sus"
    and "sorted_wrt (desc_by sp_relevance) ps"
proof -
  let ?scored = "map (score_subunit ts pe e) (List.enumerate 0 sus)"
  let ?s = "sort_by (desc_by (\<lambda>p. sp_relevance (fst p))) ?scored"
  have ps: "ps = map fst (take k ?s)" by (simp add: ps_def project_skill_def Let_def)
  show "length ps = min k (length sus)" by (simp add: ps min.commute)
  have "sorted_wrt (desc_by (\<lambda>p. sp_relevance (fst p))) (take k ?s)"
    by (intro sorted_wrt_take desc.sorted_sort_by)
  then show "sorted_wrt (desc_by sp_relevance) ps"
    unfolding ps sorted_wrt_map by (simp only: desc_by_def [abs_def])
  show "sp_subunit ` set ps \<subseteq> set sus"
  proof
    fix x assume "x \<in> sp_subunit ` set ps"
    then obtain p where "p \<in> set (take k ?s)" "x = sp_subunit (fst p)" by (auto simp: ps)
    then have "p \<in> set ?scored" using set_take_subset [of k ?s] by auto
    with \<open>x = sp_subunit (fst p)\<close> show "x \<in> set sus" by (auto simp: in_set_enumerate_eq)
  qed
qed

lemma project_skill_evidence_nonneg:
  assumes "k \<le> 2 ^ 24"
  shows "fnonneg (gh_subunit_evidence (project_skill ts pe k i t sus e))"
proof -
  have "\<forall>x \<in> set (map snd (map (score_subunit ts pe e) (List.enumerate 0 sus))). fnonneg x"
    by (simp add: snd_score_subunit_nonneg)
  from top_k_mean_nonneg [OF this assms] show ?thesis
    by (simp only: project_skill_def Let_def graph_hit.select_convs)
qed

lemma search_graph_mem_iff:
  "h \<in> set (search_graph prompt pe txt sus embs cands k) \<longleftrightarrow>
     (\<exists>i \<in> set cands. i < length txt \<and> i < length sus \<and>
        h = project_skill (tokenize prompt) pe k i (txt ! i) (sus ! i) (nth_opt embs i))"
  unfolding search_graph_def Let_def map_filter_Some_set
proof (rule bex_cong [OF refl])
  fix i
  let ?h = "project_skill (tokenize prompt) pe k i (txt ! i) (sus ! i) (nth_opt embs i)"
  show "(case nth_opt txt i of None \<Rightarrow> None | Some text \<Rightarrow>
          (case nth_opt sus i of None \<Rightarrow> None | Some subunits \<Rightarrow>
             Some (project_skill (tokenize prompt) pe k i text subunits (nth_opt embs i)))) = Some h
        \<longleftrightarrow> i < length txt \<and> i < length sus \<and> h = ?h"
    by (cases "i < length txt"; cases "i < length sus") (auto simp: nth_opt_def [where xs = "txt"] nth_opt_def [where xs = sus])
qed

section \<open>Monotonicity of the score\<close>

lemma fmul_mono_left:
  assumes "fnonneg x" and "fle x x'" and "is_finite w" and "0 < fval w"
  shows "fle (fmul x w) (fmul x' w)"
  using assms
  by (cases x; cases x'; cases w)
     (auto simp: fmul_def intro!: rnd_mono fle_zero_rnd fle_rnd_zero mult_right_mono)


lemma fnonneg_fmul_mono:
  "ffin_nonneg w \<Longrightarrow> ffin_nonneg x \<Longrightarrow> ffin_nonneg x' \<Longrightarrow> fle x x' \<Longrightarrow>
     fnonneg (fmul w x) \<and> fle (fmul w x) (fmul w x')"
  by (auto intro: fmul_nonneg fmul_mono_right simp: ffin_nonneg_def)

lemma one_le_fadd: "fnonneg y \<Longrightarrow> fle (Fin 1) (fadd (lit 1) y)"
proof -
  assume y: "fnonneg y"
  have "fle (fadd (Fin 1) (Fin 0)) (fadd (Fin 1) y)"
    using y by (intro fadd_mono) (auto simp: fnonneg_iff_fle)
  moreover have "fadd (Fin 1) (Fin 0) = Fin 1" using lit_one by (simp add: fadd_def)
  ultimately show ?thesis by simp
qed

section \<open>Properties\<close>

text \<open>the cosine ranking of the prompt against the skill index is a correct top-k.  It returns
  as many hits as it can, no skill twice, best score first, every hit carries the clamped cosine of
  the skill at its index, and no skill that was left out scores better than one that was kept.\<close>

theorem rank_by_cosine_top_k:
  "length (rank_by_cosine p es n) = min n (length es) \<and>
   distinct (map ch_skill_index (rank_by_cosine p es n)) \<and>
   sorted_wrt (\<lambda>g h. ch_semantic_score h \<le> ch_semantic_score g) (rank_by_cosine p es n) \<and>
   (\<forall>h \<in> set (rank_by_cosine p es n).
      ch_skill_index h < length es \<and>
      ch_semantic_score h = fmax (cosine_similarity p (es ! ch_skill_index h)) (lit 0) \<and>
      (\<forall>i < length es. i \<notin> ch_skill_index ` set (rank_by_cosine p es n) \<longrightarrow>
         fmax (cosine_similarity p (es ! i)) (lit 0) \<le> ch_semantic_score h))"
proof (intro conjI ballI allI impI)
  show "sorted_wrt (\<lambda>g h. ch_semantic_score h \<le> ch_semantic_score g) (rank_by_cosine p es n)"
    using rank_by_cosine_sorted by (simp add: desc_by_def [abs_def])
  fix h assume h: "h \<in> set (rank_by_cosine p es n)"
  then have "h \<in> set (cosine_hits p es)" using rank_by_cosine_subset by blast
  then show "ch_skill_index h < length es"
    and "ch_semantic_score h = fmax (cosine_similarity p (es ! ch_skill_index h)) (lit 0)"
    by (auto simp: cosine_hits_mem)
  fix i assume i: "i < length es" "i \<notin> ch_skill_index ` set (rank_by_cosine p es n)"
  let ?g = "\<lparr>ch_skill_index = i, ch_semantic_score = fmax (cosine_similarity p (es ! i)) (lit 0)\<rparr>"
  have "?g \<in> set (cosine_hits p es)" using i by (auto simp: cosine_hits_mem)
  moreover have "?g \<notin> set (rank_by_cosine p es n)" using i(2) by force
  ultimately show "fmax (cosine_similarity p (es ! i)) (lit 0) \<le> ch_semantic_score h"
    using rank_by_cosine_optimal [OF h] by fastforce
qed (simp_all add: length_rank_by_cosine distinct_rank_by_cosine)


text \<open>the eq.3 score is monotone.  With nonnegative finite weights and terms, raising the
  semantic, subunit-evidence or prior term never lowers the score, in binary32 arithmetic with all
  its roundings and overflows of the base.\<close>

theorem score_eq3_mono:
  assumes w: "ffin_nonneg (sw_alpha w)" "ffin_nonneg (sw_beta w)" "ffin_nonneg (sw_gamma w)"
      "ffin_nonneg (sw_lambda w)"
    and c: "ffin_nonneg (sco_l1_semantic c)" "ffin_nonneg (sco_subunit_evidence c)"
      "ffin_nonneg (sco_prior c)" "ffin_nonneg (sco_community_boost c)"
    and c': "ffin_nonneg (sco_l1_semantic c')" "ffin_nonneg (sco_subunit_evidence c')"
      "ffin_nonneg (sco_prior c')"
    and le: "fle (sco_l1_semantic c) (sco_l1_semantic c')"
      "fle (sco_subunit_evidence c) (sco_subunit_evidence c')" "fle (sco_prior c) (sco_prior c')"
    and boost: "sco_community_boost c' = sco_community_boost c"
      "is_finite (fadd (lit 1) (fmul (sw_lambda w) (sco_community_boost c)))"
  shows "fle (score_eq3 c w) (score_eq3 c' w)"
proof -
  let ?b = "fadd (lit 1) (fmul (sw_lambda w) (sco_community_boost c))"
  have "fle (Fin 1) ?b" using w(4) c(4) by (intro one_le_fadd fmul_nonneg)
  then have b: "0 < fval ?b" using boost(2) by (cases ?b) auto
  note ms = fnonneg_fmul_mono [OF w(1) c(1) c'(1) le(1)] fnonneg_fmul_mono [OF w(2) c(2) c'(2) le(2)]
    fnonneg_fmul_mono [OF w(3) c(3) c'(3) le(3)]
  show ?thesis
    unfolding score_eq3_def Let_def boost(1)
    by (intro fmul_mono_left [OF _ _ boost(2) b] fadd_mono fadd_nonneg) (use ms in auto)
qed


text \<open>the token overlap of a prompt shorter than 2 ^ 24 bytes with any text lies in [0, 1].\<close>

theorem token_overlap_unit_interval:
  assumes "length prompt < 2 ^ 24"
  shows "fle (Fin 0) (token_overlap_score (tokenize prompt) (tokenize text)) \<and>
         fle (token_overlap_score (tokenize prompt) (tokenize text)) (Fin 1)"
  using card_tokenize [of prompt] assms by (intro token_overlap_range) auto

theorem token_overlap_unit_interval_witness:
  "fle (token_overlap_score (tokenize ''Fix the parser'') (tokenize ''parser'')) (Fin 1)"
  by (rule token_overlap_unit_interval [THEN conjunct2]) simp

text \<open>the subunit projection of the skill graph.  A hit exists exactly for the candidate
  indices the projection covers, and it lists the best subunits of that skill, at most the budget,
  by descending relevance, with a subunit evidence that is never negative.\<close>

theorem search_graph_projects:
  assumes "k \<le> 2 ^ 24"
  shows "gh_skill_index ` set (search_graph prompt pe txt sus embs cands k) =
           {i \<in> set cands. i < length txt \<and> i < length sus} \<and>
         (\<forall>h \<in> set (search_graph prompt pe txt sus embs cands k).
            length (gh_projections h) = min k (length (sus ! gh_skill_index h)) \<and>
            sp_subunit ` set (gh_projections h) \<subseteq> set (sus ! gh_skill_index h) \<and>
            sorted_wrt (\<lambda>p q. sp_relevance q \<le> sp_relevance p) (gh_projections h) \<and>
            fnonneg (gh_subunit_evidence h))"
proof (intro conjI ballI)
  show "gh_skill_index ` set (search_graph prompt pe txt sus embs cands k) =
          {i \<in> set cands. i < length txt \<and> i < length sus}"
    by (force simp: search_graph_mem_iff image_iff)
next
  fix h assume "h \<in> set (search_graph prompt pe txt sus embs cands k)"
  then obtain i where "h = project_skill (tokenize prompt) pe k i (txt ! i) (sus ! i) (nth_opt embs i)"
    by (auto simp: search_graph_mem_iff)
  with project_skill_projections project_skill_evidence_nonneg [OF assms] show
    "length (gh_projections h) = min k (length (sus ! gh_skill_index h))"
    "sp_subunit ` set (gh_projections h) \<subseteq> set (sus ! gh_skill_index h)"
    "sorted_wrt (\<lambda>p q. sp_relevance q \<le> sp_relevance p) (gh_projections h)"
    "fnonneg (gh_subunit_evidence h)"
    by (simp_all add: desc_by_def [abs_def])
qed

theorem search_graph_projects_witness:
  "gh_skill_index ` set (search_graph ''parse'' [] [''parse json''] [[]] [] [0, 7] 3) = {0}"
  by (subst search_graph_projects [THEN conjunct1]) auto

end
