(* ===== verification/Fusion.thy ===== *)
theory Fusion
  imports Scoring
begin

text \<open>
  Candidate selection (\<open>retrieval/src/fusion.rs\<close>): greedy maximal marginal relevance and weighted
  reciprocal rank fusion.  The iteration order of the Rust \<open>HashMap\<close> is unspecified; it enters the
  fusion as a parameter, a function that only permutes.
\<close>

section \<open>Candidates\<close>

record fused_candidate =
  fc_skill_index :: nat
  fc_skill_id :: string
  fc_matched_scope :: scope_type
  fc_score :: f32
  fc_semantic_score :: f32
  fc_lexical_score :: f32
  fc_subunit_evidence :: f32
  fc_embedding :: "f32 list"
  fc_highlights :: "subunit_projection list"

record scope_ranking =
  sr_scope_id :: string
  sr_weight :: f32
  sr_candidates :: "fused_candidate list"

record aggregate =
  ag_rrf_score :: f32
  ag_representative :: fused_candidate

section \<open>Maximal marginal relevance\<close>

text \<open>\<open>f32::MIN\<close>, the least finite value.\<close>

definition f32_MIN :: f32 where
  "f32_MIN = Fin (- ((2 ^ 24 - 1) * 2 ^ 104))"

definition max_similarity :: "fused_candidate list \<Rightarrow> nat list \<Rightarrow> nat \<Rightarrow> f32" where
  "max_similarity cands selected i =
     foldl fmax (lit 0)
       (map (\<lambda>j. fmax (cosine_similarity (fc_embedding (cands ! i)) (fc_embedding (cands ! j))) (lit 0))
            selected)"

definition mmr_value :: "fused_candidate list \<Rightarrow> f32 \<Rightarrow> nat list \<Rightarrow> nat \<Rightarrow> f32" where
  "mmr_value cands lam selected i =
     fsub (fmul lam (fc_score (cands ! i)))
          (fmul (fsub (lit 1) lam) (max_similarity cands selected i))"

fun mmr_best_go ::
  "(nat \<Rightarrow> f32) \<Rightarrow> nat option \<Rightarrow> f32 \<Rightarrow> nat list \<Rightarrow> nat option" where
  "mmr_best_go vf best_index best_mmr [] = best_index"
| "mmr_best_go vf best_index best_mmr (i # ixs) =
     (if flt best_mmr (vf i) then mmr_best_go vf (Some i) (vf i) ixs
      else mmr_best_go vf best_index best_mmr ixs)"

definition mmr_best :: "(nat \<Rightarrow> f32) \<Rightarrow> nat list \<Rightarrow> nat option" where
  "mmr_best vf remaining = mmr_best_go vf None f32_MIN remaining"

lemma mmr_best_go_mem:
  "mmr_best_go vf b m ixs = Some w \<Longrightarrow> b = Some w \<or> w \<in> set ixs"
  by (induction vf b m ixs rule: mmr_best_go.induct) (auto split: if_splits)

lemma mmr_best_mem: "mmr_best vf ixs = Some w \<Longrightarrow> w \<in> set ixs"
  using mmr_best_go_mem [of vf None] by (auto simp: mmr_best_def)

function mmr_loop ::
  "fused_candidate list \<Rightarrow> nat \<Rightarrow> f32 \<Rightarrow> nat list \<Rightarrow> nat list \<Rightarrow> nat list" where
  "mmr_loop cands max_results lam selected remaining =
     (if length selected < max_results \<and> remaining \<noteq> [] then
        (case mmr_best (mmr_value cands lam selected) remaining of
           None \<Rightarrow> selected
         | Some w \<Rightarrow> mmr_loop cands max_results lam (selected @ [w])
                       (filter (\<lambda>i. i \<noteq> w) remaining))
      else selected)"
  by pat_completeness auto
termination
proof (relation "measure (\<lambda>(c, m, l, s, r). length r)", goal_cases)
  case (2 cands max_results lam selected remaining w)
  then have "w \<in> set remaining" by (auto dest: mmr_best_mem)
  then have "length (filter (\<lambda>i. i \<noteq> w) remaining) < length remaining"
    by (metis (mono_tags, lifting) length_filter_less)
  then show ?case by simp
qed simp

declare mmr_loop.simps [simp del]

definition mmr_select :: "fused_candidate list \<Rightarrow> nat \<Rightarrow> f32 \<Rightarrow> fused_candidate list" where
  "mmr_select candidates max_results lambda =
     (if candidates = [] \<or> max_results = 0 then []
      else map (\<lambda>i. candidates ! i)
             (mmr_loop candidates max_results (fclamp lambda (lit 0) (lit 1)) []
                [0..<length candidates]))"

section \<open>Weighted reciprocal rank fusion\<close>

fun scope_priority :: "scope_type \<Rightarrow> nat" where
  "scope_priority Project = 3"
| "scope_priority Global = 2"
| "scope_priority Team = 1"

definition should_replace_representative :: "fused_candidate \<Rightarrow> fused_candidate \<Rightarrow> bool" where
  "should_replace_representative candidate current \<longleftrightarrow>
     flt (fc_score current) (fc_score candidate) \<or>
     (feq (fc_score candidate) (fc_score current) \<and>
      scope_priority (fc_matched_scope current) < scope_priority (fc_matched_scope candidate))"

text \<open>The hash map is an association list in insertion order; \<open>finalize_aggregates\<close> reorders it.\<close>

type_synonym aggregates = "(string \<times> aggregate) list"

fun upsert_aggregate :: "aggregates \<Rightarrow> fused_candidate \<Rightarrow> f32 \<Rightarrow> aggregates" where
  "upsert_aggregate [] c contribution =
     [(fc_skill_id c, \<lparr>ag_rrf_score = contribution, ag_representative = c\<rparr>)]"
| "upsert_aggregate ((k, a) # rest) c contribution =
     (if k = fc_skill_id c
      then (k, \<lparr>ag_rrf_score = fadd (ag_rrf_score a) contribution,
                ag_representative =
                  (if should_replace_representative c (ag_representative a) then c
                   else ag_representative a)\<rparr>) # rest
      else (k, a) # upsert_aggregate rest c contribution)"

definition rrf_contribution :: "f32 \<Rightarrow> f32 \<Rightarrow> nat \<Rightarrow> f32" where
  "rrf_contribution weight rrf_k rank = fdiv weight (fadd rrf_k (fadd (f32_of_nat rank) (lit 1)))"

definition accumulate_scope_ranking :: "aggregates \<Rightarrow> scope_ranking \<Rightarrow> f32 \<Rightarrow> aggregates" where
  "accumulate_scope_ranking aggregated ranking rrf_k =
     (if fle (sr_weight ranking) (lit 0) then aggregated
      else foldl (\<lambda>acc (rank, c). upsert_aggregate acc c (rrf_contribution (sr_weight ranking) rrf_k rank))
             aggregated (List.enumerate 0 (sr_candidates ranking)))"

definition finalize_aggregates ::
  "(aggregates \<Rightarrow> aggregates) \<Rightarrow> aggregates \<Rightarrow> fused_candidate list" where
  "finalize_aggregates hash_order aggregated =
     map (\<lambda>(k, a). (ag_representative a)\<lparr>fc_score := ag_rrf_score a\<rparr>) (hash_order aggregated)"

text \<open>\<open>fused_candidate_order\<close> answers \<open>Less\<close> or \<open>Equal\<close>: a lexicographic chain of \<open>then_with\<close>.\<close>

definition fused_candidate_le :: "fused_candidate \<Rightarrow> fused_candidate \<Rightarrow> bool" where
  "fused_candidate_le l r \<longleftrightarrow>
     fc_score r < fc_score l \<or> (fc_score r = fc_score l \<and>
     (scope_priority (fc_matched_scope r) < scope_priority (fc_matched_scope l) \<or>
      (scope_priority (fc_matched_scope r) = scope_priority (fc_matched_scope l) \<and>
       (fc_semantic_score r < fc_semantic_score l \<or> (fc_semantic_score r = fc_semantic_score l \<and>
        fc_lexical_score r \<le> fc_lexical_score l)))))"

definition effective_rrf_k :: "f32 \<Rightarrow> f32" where
  "effective_rrf_k k = (if is_finite k \<and> flt (lit 0) k then k else lit 60)"

definition weighted_reciprocal_rank_fusion ::
  "(aggregates \<Rightarrow> aggregates) \<Rightarrow> scope_ranking list \<Rightarrow> f32 \<Rightarrow> nat \<Rightarrow> fused_candidate list" where
  "weighted_reciprocal_rank_fusion hash_order scope_rankings k max_results =
     (if scope_rankings = [] \<or> max_results = 0 then []
      else (let rrf_k = effective_rrf_k k;
                aggregated = foldl (\<lambda>acc sr. accumulate_scope_ranking acc sr rrf_k) [] scope_rankings
            in take max_results
                 (sort_by fused_candidate_le (finalize_aggregates hash_order aggregated))))"

interpretation fused: total_preorder fused_candidate_le
proof
  fix x y z :: fused_candidate
  show "fused_candidate_le x y \<Longrightarrow> fused_candidate_le y z \<Longrightarrow> fused_candidate_le x z"
    unfolding fused_candidate_le_def by (smt (verit) less_trans order_trans)
  show "fused_candidate_le x y \<or> fused_candidate_le y x"
    unfolding fused_candidate_le_def by (metis linorder_less_linear linorder_linear)
qed

section \<open>Lemmas on MMR\<close>

lemma flt_not_nan: "flt x y \<Longrightarrow> \<not> is_nan x \<and> \<not> is_nan y"
  by (auto simp: flt_def dest: fle_not_nan)

lemma fle_flt_trans: "fle x y \<Longrightarrow> flt y z \<Longrightarrow> flt x z"
  unfolding flt_def using fle_trans by blast

lemma mmr_best_go_bound:
  "mmr_best_go vf b m ixs = Some w \<Longrightarrow> \<not> is_nan m \<Longrightarrow> (\<forall>v. b = Some v \<longrightarrow> m = vf v) \<Longrightarrow>
     fle m (vf w) \<and> (\<forall>i \<in> set ixs. \<not> flt (vf w) (vf i))"
proof (induction vf b m ixs rule: mmr_best_go.induct)
  case (1 vf b m)
  then show ?case by (auto simp: fle_refl)
next
  case (2 vf b m i ixs)
  show ?case
  proof (cases "flt m (vf i)")
    case True
    have go: "mmr_best_go vf (Some i) (vf i) ixs = Some w" using 2(3) True by simp
    have IH: "fle (vf i) (vf w) \<and> (\<forall>i \<in> set ixs. \<not> flt (vf w) (vf i))"
      by (rule 2(1) [OF True go]) (simp_all add: flt_not_nan [OF True])
    with True have "fle m (vf w)" unfolding flt_def using fle_trans by blast
    with IH show ?thesis by (auto simp: flt_def)
  next
    case False
    have go: "mmr_best_go vf b m ixs = Some w" using 2(3) False by simp
    have IH: "fle m (vf w) \<and> (\<forall>i \<in> set ixs. \<not> flt (vf w) (vf i))"
      by (rule 2(2) [OF False go 2(4) 2(5)])
    then have "\<not> flt (vf w) (vf i)" using False fle_flt_trans by blast
    with IH show ?thesis by simp
  qed
qed

lemma mmr_best_max:
  "mmr_best vf ixs = Some w \<Longrightarrow> i \<in> set ixs \<Longrightarrow> \<not> flt (vf w) (vf i)"
  using mmr_best_go_bound [of vf None f32_MIN ixs w] by (auto simp: mmr_best_def f32_MIN_def)

lemma mmr_best_go_exists:
  "b \<noteq> None \<or> (\<exists>i \<in> set ixs. flt m (vf i)) \<Longrightarrow> mmr_best_go vf b m ixs \<noteq> None"
  by (induction vf b m ixs rule: mmr_best_go.induct) auto

lemma mmr_best_exists: "i \<in> set ixs \<Longrightarrow> flt f32_MIN (vf i) \<Longrightarrow> mmr_best vf ixs \<noteq> None"
  unfolding mmr_best_def by (rule mmr_best_go_exists) auto

text \<open>What one run of the loop adds: distinct indices of the remaining ones, greedily best.\<close>

lemma mmr_loop_extends:
  assumes "distinct (sel @ rem)" and "length sel \<le> n"
  shows "\<exists>ext. mmr_loop cands n lam sel rem = sel @ ext \<and> distinct (sel @ ext) \<and>
           set ext \<subseteq> set rem \<and> length (sel @ ext) \<le> n"
  using assms
proof (induction cands n lam sel rem rule: mmr_loop.induct)
  case (1 cands n lam sel rem)
  show ?case
  proof (cases "length sel < n \<and> rem \<noteq> []")
    case True
    show ?thesis
    proof (cases "mmr_best (mmr_value cands lam sel) rem")
      case None
      with True 1 show ?thesis by (auto simp: mmr_loop.simps [of cands n lam sel rem])
    next
      case (Some w)
      then have w: "w \<in> set rem" by (rule mmr_best_mem)
      let ?rem = "filter (\<lambda>i. i \<noteq> w) rem"
      have "distinct ((sel @ [w]) @ ?rem)" "length (sel @ [w]) \<le> n"
        using True 1 w by auto
      then obtain ext where
        "mmr_loop cands n lam (sel @ [w]) ?rem = (sel @ [w]) @ ext \<and> distinct ((sel @ [w]) @ ext) \<and>
         set ext \<subseteq> set ?rem \<and> length ((sel @ [w]) @ ext) \<le> n"
        using 1(1) [OF True Some] by blast
      with True Some w show ?thesis
        by (intro exI [of _ "w # ext"]) (auto simp: mmr_loop.simps [of cands n lam sel rem])
    qed
  next
    case False
    with 1 show ?thesis by (auto simp: mmr_loop.simps [of cands n lam sel rem])
  qed
qed

lemma mmr_loop_start:
  shows "distinct (mmr_loop cands n lam [] [0..<m])" and "set (mmr_loop cands n lam [] [0..<m]) \<subseteq> {0..<m}"
    and "length (mmr_loop cands n lam [] [0..<m]) \<le> n"
  using mmr_loop_extends [of "[]" "[0..<m]" n cands lam] by auto

lemma mmr_select_subset: "set (mmr_select cands n lam) \<subseteq> set cands"
  using mmr_loop_start(2) [of cands n "fclamp lam (lit 0) (lit 1)" "length cands"]
  by (auto simp: mmr_select_def dest!: subsetD)

lemma length_mmr_select: "length (mmr_select cands n lam) \<le> min n (length cands)"
proof -
  let ?ixs = "mmr_loop cands n (fclamp lam (lit 0) (lit 1)) [] [0..<length cands]"
  have "length ?ixs = card (set ?ixs)" using mmr_loop_start(1) by (simp add: distinct_card)
  also have "\<dots> \<le> card {0..<length cands}"
    using mmr_loop_start(2) by (intro card_mono) auto
  finally show ?thesis using mmr_loop_start(3) by (auto simp: mmr_select_def)
qed

section \<open>Lemmas on the aggregation\<close>

definition aggregate_keys :: "aggregates \<Rightarrow> string set" where
  "aggregate_keys as = fst ` set as"

lemma upsert_keys: "map fst (upsert_aggregate as c x) =
   map fst as @ (if fc_skill_id c \<in> set (map fst as) then [] else [fc_skill_id c])"
  by (induction as c x rule: upsert_aggregate.induct) auto

lemma distinct_upsert: "distinct (map fst as) \<Longrightarrow> distinct (map fst (upsert_aggregate as c x))"
  by (simp add: upsert_keys)

text \<open>An aggregation invariant: keys are the representatives' identifiers and scores are nonnegative.\<close>

definition aggregates_ok :: "fused_candidate set \<Rightarrow> aggregates \<Rightarrow> bool" where
  "aggregates_ok C as \<longleftrightarrow> distinct (map fst as) \<and>
     (\<forall>(k, a) \<in> set as. fc_skill_id (ag_representative a) = k \<and> ag_representative a \<in> C)"

lemma upsert_mem:
  "(k, a) \<in> set (upsert_aggregate as c x) \<Longrightarrow>
     (k, a) \<in> set as \<or>
     (k = fc_skill_id c \<and> (ag_representative a = c \<or> (\<exists>a'. (k, a') \<in> set as \<and> ag_representative a = ag_representative a')))"
proof (induction as c x rule: upsert_aggregate.induct)
  case (2 k' a' rest c x)
  show ?case
  proof (cases "k' = fc_skill_id c")
    case True
    with 2(2) consider "(k, a) \<in> set rest" |
      "k = fc_skill_id c" "ag_representative a = c \<or> ag_representative a = ag_representative a'"
      by (auto split: if_splits)
    with True show ?thesis by cases auto
  next
    case False
    with 2(2) consider "(k, a) = (k', a')" | "(k, a) \<in> set (upsert_aggregate rest c x)" by auto
    then show ?thesis
    proof cases
      case 2
      from "2.IH" [OF False 2] show ?thesis by fastforce
    qed simp
  qed
qed simp

lemma upsert_ok: "aggregates_ok C as \<Longrightarrow> c \<in> C \<Longrightarrow> aggregates_ok C (upsert_aggregate as c x)"
  unfolding aggregates_ok_def using distinct_upsert upsert_mem by (fastforce split: prod.splits)

lemma foldl_upsert_ok:
  "aggregates_ok C as \<Longrightarrow> snd ` set rcs \<subseteq> C \<Longrightarrow>
     aggregates_ok C (foldl (\<lambda>acc (rank, c). upsert_aggregate acc c (f rank)) as rcs)"
proof (induction rcs arbitrary: as)
  case (Cons rc rcs)
  obtain r c where rc: "rc = (r, c)" by fastforce
  show ?case unfolding rc foldl_Cons split_conv
    by (rule Cons.IH [OF upsert_ok]) (use Cons.prems rc in auto)
qed simp

lemma snd_set_enumerate: "snd ` set (List.enumerate n xs) = set xs"
  by (metis list.set_map map_snd_enumerate)

lemma accumulate_ok:
  "aggregates_ok C as \<Longrightarrow> set (sr_candidates r) \<subseteq> C \<Longrightarrow> aggregates_ok C (accumulate_scope_ranking as r k)"
  unfolding accumulate_scope_ranking_def by (simp add: foldl_upsert_ok snd_set_enumerate)

lemma foldl_accumulate_ok:
  "aggregates_ok C as \<Longrightarrow> (\<forall>r \<in> set rs. set (sr_candidates r) \<subseteq> C) \<Longrightarrow>
     aggregates_ok C (foldl (\<lambda>acc sr. accumulate_scope_ranking acc sr k) as rs)"
  by (induction rs arbitrary: as) (auto simp: accumulate_ok)

lemma keys_foldl_upsert:
  "set (map fst (foldl (\<lambda>acc (rank, c). upsert_aggregate acc c (f rank)) as rcs)) =
     set (map fst as) \<union> fc_skill_id ` snd ` set rcs"
proof (induction rcs arbitrary: as)
  case (Cons rc rcs)
  obtain r c where rc: "rc = (r, c)" by fastforce
  show ?case unfolding rc using Cons [of "upsert_aggregate as c (f r)"]
    by (simp only: foldl_Cons split_conv upsert_keys set_append) auto
qed simp

lemma keys_accumulate:
  "set (map fst (accumulate_scope_ranking as r k)) =
     set (map fst as) \<union> (if fle (sr_weight r) (lit 0) then {} else fc_skill_id ` set (sr_candidates r))"
  by (simp only: accumulate_scope_ranking_def if_distrib keys_foldl_upsert snd_set_enumerate
      image_Un if_True if_False split: if_splits) auto

lemma keys_foldl_accumulate:
  "set (map fst (foldl (\<lambda>acc sr. accumulate_scope_ranking acc sr k) as rs)) =
     set (map fst as) \<union> (\<Union>r \<in> {r \<in> set rs. \<not> fle (sr_weight r) (lit 0)}. fc_skill_id ` set (sr_candidates r))"
proof (induction rs arbitrary: as)
  case (Cons r rs)
  show ?case using Cons [of "accumulate_scope_ranking as r k"]
    by (simp only: foldl_Cons keys_accumulate) auto
qed simp


text \<open>The greedy choice: what was picked at each step was the best of what remained.\<close>

definition mmr_greedy :: "fused_candidate list \<Rightarrow> f32 \<Rightarrow> nat set \<Rightarrow> nat list \<Rightarrow> nat \<Rightarrow> bool" where
  "mmr_greedy cands lam pool ixs start \<longleftrightarrow>
     (\<forall>j \<in> {start..<length ixs}. \<forall>i \<in> pool - set (take j ixs).
        \<not> flt (mmr_value cands lam (take j ixs) (ixs ! j)) (mmr_value cands lam (take j ixs) i))"

lemma mmr_loop_greedy:
  assumes "pool - set sel = set rem"
  shows "mmr_greedy cands lam pool (mmr_loop cands n lam sel rem) (length sel) \<and>
         take (length sel) (mmr_loop cands n lam sel rem) = sel"
  using assms
proof (induction cands n lam sel rem rule: mmr_loop.induct)
  case (1 cands n lam sel rem)
  show ?case
  proof (cases "length sel < n \<and> rem \<noteq> []")
    case True
    show ?thesis
    proof (cases "mmr_best (mmr_value cands lam sel) rem")
      case None
      with True show ?thesis by (simp add: mmr_loop.simps [of cands n lam sel rem] mmr_greedy_def)
    next
      case (Some w)
      let ?rem = "filter (\<lambda>i. i \<noteq> w) rem"
      let ?r = "mmr_loop cands n lam (sel @ [w]) ?rem"
      have eq: "mmr_loop cands n lam sel rem = ?r"
        using True Some by (simp add: mmr_loop.simps [of cands n lam sel rem])
      have "pool - set (sel @ [w]) = set ?rem" using 1(2) by auto
      from 1(1) [OF True Some this] have
        g: "mmr_greedy cands lam pool ?r (Suc (length sel))" and
        t: "take (Suc (length sel)) ?r = sel @ [w]" by auto
      have len: "length sel < length ?r" using arg_cong [OF t, of length] by simp
      with t have ts: "take (length sel) ?r = sel" and nth: "?r ! length sel = w"
        by (metis append_eq_conv_conj butlast_snoc take_Suc_conv_app_nth append1_eq_conv)+
      have "mmr_greedy cands lam pool ?r (length sel)"
        unfolding mmr_greedy_def
      proof (intro ballI)
        fix j i
        assume j: "j \<in> {length sel..<length ?r}" and i: "i \<in> pool - set (take j ?r)"
        show "\<not> flt (mmr_value cands lam (take j ?r) (?r ! j)) (mmr_value cands lam (take j ?r) i)"
        proof (cases "j = length sel")
          case True
          with i ts nth 1(2) mmr_best_max [OF Some] show ?thesis by auto
        next
          case False
          with j i g show ?thesis by (auto simp: mmr_greedy_def)
        qed
      qed
      with eq ts show ?thesis by simp
    qed
  next
    case False
    then show ?thesis by (auto simp: mmr_loop.simps [of cands n lam sel rem] mmr_greedy_def)
  qed
qed

text \<open>The loop stops short of the limit only when nothing left has a value above \<open>f32::MIN\<close>.\<close>

lemma mmr_loop_stops:
  "\<lbrakk>pool - set sel = set rem; length (mmr_loop cands n lam sel rem) < n; i \<in> pool - set (mmr_loop cands n lam sel rem)\<rbrakk> \<Longrightarrow>
     \<not> flt f32_MIN (mmr_value cands lam (mmr_loop cands n lam sel rem) i)"
proof (induction cands n lam sel rem rule: mmr_loop.induct)
  case (1 cands n lam sel rem)
  show ?case
  proof (cases "length sel < n \<and> rem \<noteq> []")
    case True
    show ?thesis
    proof (cases "mmr_best (mmr_value cands lam sel) rem")
      case None
      then have stop: "mmr_loop cands n lam sel rem = sel" using True by (simp add: mmr_loop.simps [of cands n lam sel rem])
      with 1(2,4) have "i \<in> set rem" by simp
      with None mmr_best_exists [of i rem "mmr_value cands lam sel"] stop show ?thesis by auto
    next
      case (Some w)
      let ?rem = "filter (\<lambda>i. i \<noteq> w) rem"
      have "mmr_loop cands n lam sel rem = mmr_loop cands n lam (sel @ [w]) ?rem"
        using True Some by (simp add: mmr_loop.simps [of cands n lam sel rem])
      moreover have "pool - set (sel @ [w]) = set ?rem" using 1(2) by auto
      ultimately show ?thesis using 1(1) [OF True Some] 1(3,4) by simp
    qed
  next
    case False
    then have "mmr_loop cands n lam sel rem = sel" by (auto simp: mmr_loop.simps [of cands n lam sel rem])
    with False 1(2-4) show ?thesis by auto
  qed
qed

section \<open>Lemmas on the fused scores\<close>

text \<open>Reference: the contributions a skill collects, in ranking order, and their running sum.\<close>

definition rrf_contributions :: "scope_ranking list \<Rightarrow> f32 \<Rightarrow> string \<Rightarrow> f32 list" where
  "rrf_contributions rankings k skill =
     concat (map (\<lambda>r. map (\<lambda>(rank, c). rrf_contribution (sr_weight r) k rank)
                       (filter (\<lambda>(rank, c). fc_skill_id c = skill) (List.enumerate 0 (sr_candidates r))))
              (filter (\<lambda>r. \<not> fle (sr_weight r) (lit 0)) rankings))"

definition add_contribution :: "f32 option \<Rightarrow> f32 \<Rightarrow> f32 option" where
  "add_contribution acc x = Some (case acc of None \<Rightarrow> x | Some y \<Rightarrow> fadd y x)"

lemma map_of_upsert:
  "map_option ag_rrf_score (map_of (upsert_aggregate as c x) s) =
     (if fc_skill_id c = s then add_contribution (map_option ag_rrf_score (map_of as s)) x
      else map_option ag_rrf_score (map_of as s))"
  by (induction as c x rule: upsert_aggregate.induct) (auto simp: add_contribution_def)

lemma foldl_upsert_score:
  "map_option ag_rrf_score (map_of (foldl (\<lambda>acc (rank, c). upsert_aggregate acc c (f rank)) as rcs) s) =
     foldl add_contribution (map_option ag_rrf_score (map_of as s))
       (map (\<lambda>(rank, c). f rank) (filter (\<lambda>(rank, c). fc_skill_id c = s) rcs))"
proof (induction rcs arbitrary: as)
  case (Cons rc rcs)
  obtain r c where "rc = (r, c)" by fastforce
  with Cons [of "upsert_aggregate as c (f r)"] show ?case by (simp add: map_of_upsert)
qed simp

lemma foldl_accumulate_score:
  "map_option ag_rrf_score (map_of (foldl (\<lambda>acc sr. accumulate_scope_ranking acc sr k) as rs) s) =
     foldl add_contribution (map_option ag_rrf_score (map_of as s)) (rrf_contributions rs k s)"
proof (induction rs arbitrary: as)
  case (Cons r rs)
  show ?case unfolding foldl_Cons Cons
    by (simp add: accumulate_scope_ranking_def foldl_upsert_score rrf_contributions_def)
qed (simp add: rrf_contributions_def)

lemma foldl_add_contribution_Some:
  "foldl add_contribution (Some x) xs = Some (foldl fadd x xs)"
  by (induction xs arbitrary: x) (auto simp: add_contribution_def)

lemma foldl_add_contribution:
  "foldl add_contribution None xs = (case xs of [] \<Rightarrow> None | x # xs \<Rightarrow> Some (foldl fadd x xs))"
  by (cases xs) (auto simp: add_contribution_def foldl_add_contribution_Some)

text \<open>The table built from all rankings.\<close>

definition rrf_table :: "scope_ranking list \<Rightarrow> f32 \<Rightarrow> aggregates" where
  "rrf_table rankings k = foldl (\<lambda>acc sr. accumulate_scope_ranking acc sr k) [] rankings"

lemma rrf_table_ok: "aggregates_ok (\<Union>r \<in> set rs. set (sr_candidates r)) (rrf_table rs k)"
  unfolding rrf_table_def by (rule foldl_accumulate_ok) (auto simp: aggregates_ok_def)

lemma rrf_table_distinct: "distinct (map fst (rrf_table rs k))"
  using rrf_table_ok unfolding aggregates_ok_def by blast

lemma rrf_table_score:
  assumes "(s, a) \<in> set (rrf_table rs k)"
  shows "\<exists>x xs. rrf_contributions rs k s = x # xs \<and> ag_rrf_score a = foldl fadd x xs"
proof -
  have "map_of (rrf_table rs k) s = Some a"
    by (rule map_of_is_SomeI [OF rrf_table_distinct assms])
  then have "Some (ag_rrf_score a) = foldl add_contribution None (rrf_contributions rs k s)"
    using foldl_accumulate_score [of k "[]" rs s] by (simp add: rrf_table_def)
  then show ?thesis by (auto simp: foldl_add_contribution split: list.splits)
qed

lemma finalize_mem:
  assumes "\<forall>as. mset (hash_order as) = mset as" and "c \<in> set (finalize_aggregates hash_order (rrf_table rs k))"
  shows "\<exists>a. (fc_skill_id c, a) \<in> set (rrf_table rs k) \<and> c = (ag_representative a)\<lparr>fc_score := ag_rrf_score a\<rparr> \<and>
             (\<exists>r \<in> set rs. ag_representative a \<in> set (sr_candidates r))"
proof -
  have "set (hash_order (rrf_table rs k)) = set (rrf_table rs k)"
    using assms(1) by (metis set_mset_mset)
  with assms(2) obtain s a where a: "(s, a) \<in> set (rrf_table rs k)"
    and c: "c = (ag_representative a)\<lparr>fc_score := ag_rrf_score a\<rparr>"
    by (auto simp: finalize_aggregates_def)
  moreover have "fc_skill_id (ag_representative a) = s"
    and "\<exists>r \<in> set rs. ag_representative a \<in> set (sr_candidates r)"
    using rrf_table_ok [of rs k] a unfolding aggregates_ok_def by auto
  ultimately show ?thesis by auto
qed

lemma finalize_ids:
  assumes "\<forall>as. mset (hash_order as) = mset as"
  shows "mset (map fc_skill_id (finalize_aggregates hash_order (rrf_table rs k))) =
         mset (map fst (rrf_table rs k))"
proof -
  have "map fc_skill_id (finalize_aggregates hash_order (rrf_table rs k)) =
        map (\<lambda>(s, a). fc_skill_id (ag_representative a)) (hash_order (rrf_table rs k))"
    by (auto simp: finalize_aggregates_def)
  moreover have "mset (map (\<lambda>(s, a). fc_skill_id (ag_representative a)) (hash_order (rrf_table rs k))) =
        mset (map (\<lambda>(s, a). fc_skill_id (ag_representative a)) (rrf_table rs k))"
    by (simp add: assms)
  moreover have "map (\<lambda>(s, a). fc_skill_id (ag_representative a)) (rrf_table rs k) = map fst (rrf_table rs k)"
    using rrf_table_ok [of rs k] by (auto simp: aggregates_ok_def)
  ultimately show ?thesis by metis
qed

lemma wrrf_eq:
  "weighted_reciprocal_rank_fusion hash_order rs k n =
     (if rs = [] \<or> n = 0 then []
      else take n (sort_by fused_candidate_le
             (finalize_aggregates hash_order (rrf_table rs (effective_rrf_k k)))))"
  by (simp add: weighted_reciprocal_rank_fusion_def rrf_table_def Let_def)


lemma wrrf_score_sum:
  assumes "\<forall>as. mset (hash_order as) = mset as"
    and "c \<in> set (weighted_reciprocal_rank_fusion hash_order rs k n)"
  shows "\<exists>x xs. rrf_contributions rs (effective_rrf_k k) (fc_skill_id c) = x # xs \<and>
                fc_score c = foldl fadd x xs"
proof -
  have "c \<in> set (finalize_aggregates hash_order (rrf_table rs (effective_rrf_k k)))"
    using assms(2) by (auto simp: wrrf_eq split: if_splits dest: in_set_takeD)
  from finalize_mem [OF assms(1) this] obtain a where
    "(fc_skill_id c, a) \<in> set (rrf_table rs (effective_rrf_k k))" "fc_score c = ag_rrf_score a"
    by auto
  with rrf_table_score show ?thesis by force
qed

section \<open>Properties\<close>

text \<open>C24: maximal marginal relevance selects greedily and correctly. The result lists distinct candidates, at most the limit, and at every step the chosen one has an MMR value that no candidate not yet chosen exceeds, given the ones chosen before; it stops short of the limit only when no candidate left has a value above \<open>f32::MIN\<close>.\<close>

theorem mmr_select_greedy:
  "\<exists>ixs. mmr_select cands n lam = map ((!) cands) ixs \<and> distinct ixs \<and> set ixs \<subseteq> {..<length cands} \<and>
     length ixs \<le> n \<and>
     (\<forall>j < length ixs. \<forall>i < length cands. i \<notin> set (take j ixs) \<longrightarrow>
        \<not> flt (mmr_value cands (fclamp lam (lit 0) (lit 1)) (take j ixs) (ixs ! j))
             (mmr_value cands (fclamp lam (lit 0) (lit 1)) (take j ixs) i)) \<and>
     (length ixs < n \<longrightarrow> (\<forall>i < length cands. i \<notin> set ixs \<longrightarrow>
        \<not> flt f32_MIN (mmr_value cands (fclamp lam (lit 0) (lit 1)) ixs i)))"
proof (cases "cands = [] \<or> n = 0")
  case True
  then show ?thesis by (intro exI [of _ "[]"]) (auto simp: mmr_select_def)
next
  case False
  let ?lam = "fclamp lam (lit 0) (lit 1)"
  let ?ixs = "mmr_loop cands n ?lam [] [0..<length cands]"
  have "mmr_greedy cands ?lam {0..<length cands} ?ixs 0"
    using mmr_loop_greedy [of "{0..<length cands}" "[]" "[0..<length cands]" cands ?lam n] by simp
  moreover have "mmr_select cands n lam = map ((!) cands) ?ixs"
    using False by (simp add: mmr_select_def)
  ultimately show ?thesis
    using mmr_loop_start [of cands n ?lam "length cands"]
      mmr_loop_stops [of "{0..<length cands}" "[]" "[0..<length cands]" cands n ?lam]
    by (intro exI [of _ ?ixs]) (auto simp: mmr_greedy_def)
qed

text \<open>One skill alone is selected when its value is above \<open>f32::MIN\<close>.\<close>

definition sample_candidate :: "string \<Rightarrow> f32 \<Rightarrow> fused_candidate" where
  "sample_candidate sid score =
     \<lparr>fc_skill_index = 0, fc_skill_id = sid, fc_matched_scope = Project, fc_score = score,
      fc_semantic_score = score, fc_lexical_score = Fin 0, fc_subunit_evidence = Fin 0,
      fc_embedding = [], fc_highlights = []\<rparr>"

theorem mmr_select_greedy_witness:
  "\<exists>ixs. mmr_select [sample_candidate ''a'' (Fin 1)] 1 (Fin 1) = map ((!) [sample_candidate ''a'' (Fin 1)]) ixs \<and>
     length ixs \<le> 1 \<and> set ixs \<subseteq> {..<1}"
  using mmr_select_greedy [of "[sample_candidate ''a'' (Fin 1)]" 1 "Fin 1"] by auto

text \<open>C25: reciprocal rank fusion computes its formula. The score of every returned skill is the binary32 running sum, in ranking order, of the contributions weight / (k + rank + 1) of all its occurrences in the scopes with a positive weight; no returned skill has no contribution.\<close>

theorem wrrf_score_is_sum_of_contributions:
  assumes "\<forall>as. mset (hash_order as) = mset as"
    and "c \<in> set (weighted_reciprocal_rank_fusion hash_order rs k n)"
  shows "\<exists>x xs. rrf_contributions rs (effective_rrf_k k) (fc_skill_id c) = x # xs \<and>
                fc_score c = foldl fadd x xs"
  using assms by (rule wrrf_score_sum)

definition sample_ranking :: "fused_candidate list \<Rightarrow> scope_ranking" where
  "sample_ranking cs = \<lparr>sr_scope_id = ''p'', sr_weight = Fin 1, sr_candidates = cs\<rparr>"

lemma sample_fusion:
  "weighted_reciprocal_rank_fusion (\<lambda>as. as) [sample_ranking [sample_candidate ''a'' (Fin 1)]] (Fin 3) 2 =
     [(sample_candidate ''a'' (Fin (1/4)))\<lparr>fc_semantic_score := Fin 1\<rparr>]"
  by code_simp

theorem wrrf_score_is_sum_of_contributions_witness:
  "\<exists>x xs. rrf_contributions [sample_ranking [sample_candidate ''a'' (Fin 1)]] (effective_rrf_k (Fin 3)) ''a'' = x # xs \<and>
     Fin (1/4) = foldl fadd x xs"
proof -
  let ?c = "(sample_candidate ''a'' (Fin (1/4)))\<lparr>fc_semantic_score := Fin 1\<rparr>"
  have "?c \<in> set (weighted_reciprocal_rank_fusion (\<lambda>as. as) [sample_ranking [sample_candidate ''a'' (Fin 1)]] (Fin 3) 2)"
    by (simp add: sample_fusion)
  from wrrf_score_is_sum_of_contributions [OF _ this] show ?thesis
    by (simp add: sample_candidate_def)
qed

text \<open>the fused ranking is a ranked, duplicate-free top-k.  Whatever the order of the hash map,
  the fused list has no skill twice, at most the limit, is in the fused order, and every skill with
  a contribution that the limit cut off ranks no better than the ones returned.\<close>

theorem wrrf_ranked:
  assumes "\<forall>as. mset (hash_order as) = mset as" and "rs \<noteq> []"
  shows "distinct (map fc_skill_id (weighted_reciprocal_rank_fusion hash_order rs k n)) \<and>
    length (weighted_reciprocal_rank_fusion hash_order rs k n) \<le> n \<and>
    sorted_wrt fused_candidate_le (weighted_reciprocal_rank_fusion hash_order rs k n) \<and>
    (\<forall>c \<in> set (finalize_aggregates hash_order (rrf_table rs (effective_rrf_k k))).
       c \<in> set (weighted_reciprocal_rank_fusion hash_order rs k n) \<or>
       (\<forall>d \<in> set (weighted_reciprocal_rank_fusion hash_order rs k n). fused_candidate_le d c))"
proof -
  let ?f = "finalize_aggregates hash_order (rrf_table rs (effective_rrf_k k))"
  let ?s = "sort_by fused_candidate_le ?f"
  have w: "weighted_reciprocal_rank_fusion hash_order rs k n = take n ?s"
    using assms(2) by (simp add: wrrf_eq)
  have "mset (map fc_skill_id ?s) = mset (map fst (rrf_table rs (effective_rrf_k k)))"
    using finalize_ids [OF assms(1)] by simp
  then have "distinct (map fc_skill_id ?s)"
    using rrf_table_distinct mset_eq_imp_distinct_iff by blast
  then have "distinct (map fc_skill_id (take n ?s))" by (simp add: take_map [symmetric])
  moreover have "sorted_wrt fused_candidate_le (take n ?s)"
    by (intro sorted_wrt_take fused.sorted_sort_by)
  moreover have "c \<in> set (take n ?s) \<or> (\<forall>d \<in> set (take n ?s). fused_candidate_le d c)"
    if "c \<in> set ?f" for c
  proof -
    have "c \<in> set (take n ?s @ drop n ?s)" using that by simp
    then show ?thesis using fused.take_drop_sort_by unfolding set_append by blast
  qed
  ultimately show ?thesis unfolding w by auto
qed

text \<open>a better rank never contributes less.  For a finite nonnegative scope weight and a
  constant k that the fusion uses, the contribution does not increase with the rank.\<close>

theorem rrf_contribution_antimono:
  assumes "ffin_nonneg w" and "i \<le> j" and "j < 2 ^ 24" and "fle k (Fin (2 ^ 24))"
    and "is_finite k"
  shows "fle (rrf_contribution w (effective_rrf_k k) j) (rrf_contribution w (effective_rrf_k k) i)"
proof -
  let ?k = "effective_rrf_k k"
  have sixty: "lit 60 = Fin 60" using f32_of_nat_exact [of 60] by (simp add: f32_of_nat_def)
  have k: "\<exists>q. ?k = Fin q \<and> 0 < q \<and> q \<le> 2 ^ 24"
    using assms(4,5) by (cases k) (auto simp: effective_rrf_k_def sixty flt_def)
  then obtain q where q: "?k = Fin q" "0 < q" "q \<le> 2 ^ 24" by blast
  have den: "fadd (f32_of_nat m) (lit 1) = Fin (of_nat (Suc m))" if "m < 2 ^ 24" for m
    using that f32_of_nat_exact [of "Suc m"] unfolding f32_of_nat_def [of "Suc m"]
    by (simp add: f32_of_nat_exact fadd_def add.commute)
  have upper: "fle (fadd ?k (Fin (of_nat (Suc m)))) (Fin (2 ^ 25))" if "m < 2 ^ 24" for m
  proof -
    have "(of_nat (Suc m) :: rat) \<le> of_nat (2 ^ 24)" using that by (intro of_nat_mono) simp
    then have "q + of_nat (Suc m) \<le> 2 ^ 25" using q(3) by simp
    then have "fle (rnd False (q + of_nat (Suc m))) (rnd False (2 ^ 25))" by (rule rnd_mono)
    moreover have "rnd False (2 ^ 25) = Fin (2 ^ 25)" by code_simp
    ultimately show ?thesis using q by (simp add: fadd_def)
  qed
  have lower: "fle (Fin 1) (fadd ?k (Fin (of_nat (Suc m))))" for m
  proof -
    have "fle (rnd False 1) (rnd False (q + of_nat (Suc m)))" using q(2) by (intro rnd_mono) simp
    then show ?thesis using q by (simp add: fadd_def)
  qed
  show ?thesis unfolding rrf_contribution_def den [OF assms(3)] den [OF le_less_trans [OF assms(2,3)]]
  proof (rule fdiv_antimono [OF assms(1)])
    show "0 < fval (fadd ?k (Fin (of_nat (Suc i))))"
      using lower [of i] upper [of i] assms(2,3) by (cases "fadd ?k (Fin (of_nat (Suc i)))") auto
    show "fle (fadd ?k (Fin (of_nat (Suc i)))) (fadd ?k (Fin (of_nat (Suc j))))"
      using q assms(2) by (intro fadd_mono) (auto simp: fnonneg_def)
    show "is_finite (fadd ?k (Fin (of_nat (Suc j))))"
      using lower [of j] upper [OF assms(3)] by (cases "fadd ?k (Fin (of_nat (Suc j)))") auto
  qed
qed

theorem rrf_contribution_antimono_witness:
  "fle (rrf_contribution (Fin 1) (effective_rrf_k (Fin 60)) 5) (rrf_contribution (Fin 1) (effective_rrf_k (Fin 60)) 2)"
  by (rule rrf_contribution_antimono) simp_all

end
