(* ===== verification/Scope_Search.thy ===== *)
theory Scope_Search
  imports Fusion
begin

text \<open>
  The read model (\<open>retrieval/src/orchestrator.rs\<close>: seeded skills, snapshot, configuration), the
  resolution of a repository path to a project and a global scope
  (\<open>retrieval/src/scope\_resolution.rs\<close>) and the search of the resolved scopes under a timeout
  (\<open>retrieval/src/dual\_scope.rs\<close>).  The answers of the scope resolvers and the fate of each
  blocking search task (finished, panicked, timed out) are parameters.
\<close>

section \<open>Read model and configuration (orchestrator.rs)\<close>

record seeded_skill =
  seed_skill :: skill
  seed_scope_id :: string
  seed_source_paths :: "path list"
  seed_embedding :: "f32 list"
  seed_subunits :: "subunit list"
  seed_subunit_embeddings :: "f32 list list"
  seed_prior :: f32
  seed_community_boost :: f32

datatype community_boost_mode = Binary | CentroidAffinity | Off

definition community_boost_mode_from_str :: "string \<Rightarrow> (string, community_boost_mode) result" where
  "community_boost_mode_from_str s =
     (let other = ascii_lower (trim s) in
      if other = ''binary'' then Ok Binary
      else if other \<in> {''centroid_affinity'', ''centroid'', ''affinity''} then Ok CentroidAffinity
      else if other \<in> {''off'', ''none'', ''disabled''} then Ok Off
      else Err (''invalid CommunityBoostMode '' @ debug_str other @
                '' (expected binary|centroid_affinity|off)''))"

record retrieval_snapshot =
  rsn_graph_version :: int
  rsn_skills :: "seeded_skill list"
  rsn_community_centroids :: "(string \<times> f32 list) list"

definition retrieval_snapshot_new :: "seeded_skill list \<Rightarrow> int \<Rightarrow> retrieval_snapshot" where
  "retrieval_snapshot_new skills graph_version =
     \<lparr>rsn_graph_version = graph_version, rsn_skills = skills, rsn_community_centroids = []\<rparr>"

definition with_community_centroids ::
  "(string \<times> f32 list) list \<Rightarrow> retrieval_snapshot \<Rightarrow> retrieval_snapshot" where
  "with_community_centroids centroids s = s\<lparr>rsn_community_centroids := centroids\<rparr>"

record graph_snapshot =
  gs_graph :: retrieval_snapshot
  gs_version :: int

definition graph_snapshot_new :: "retrieval_snapshot \<Rightarrow> graph_snapshot" where
  "graph_snapshot_new s = \<lparr>gs_graph = s, gs_version = rsn_graph_version s\<rparr>"

record retrieval_config =
  rc_scope_id :: string
  rc_scope_type :: scope_type
  rc_candidate_limit :: nat
  rc_max_results :: nat
  rc_max_subunits_per_skill :: nat
  rc_rescue_threshold :: f32
  rc_relevance_threshold :: f32
  rc_mmr_lambda :: f32
  rc_scoring_weights :: scoring_weights
  rc_project_scope_weight :: f32
  rc_global_scope_weight :: f32
  rc_rrf_k :: f32
  rc_scope_timeout_ms :: nat
  rc_community_boost_mode :: community_boost_mode

definition retrieval_config_default :: retrieval_config where
  "retrieval_config_default =
     \<lparr>rc_scope_id = ''global'', rc_scope_type = Global, rc_candidate_limit = 50, rc_max_results = 3,
      rc_max_subunits_per_skill = 3, rc_rescue_threshold = lit 0.15,
      rc_relevance_threshold = lit 0.48, rc_mmr_lambda = lit 0.65,
      rc_scoring_weights = scoring_weights_default, rc_project_scope_weight = lit 1.0,
      rc_global_scope_weight = lit 0.7, rc_rrf_k = lit 60.0, rc_scope_timeout_ms = 400,
      rc_community_boost_mode = Off\<rparr>"

section \<open>Scope resolution (scope\_resolution.rs)\<close>

record scope_resolution_outcome =
  sro_project :: "scope_descriptor option"
  sro_global :: "scope_descriptor option"
  sro_degraded_scopes :: "string list"
  sro_reason_codes :: "string list"
  sro_configured_scopes :: "string list"

definition dedupe :: "string list \<Rightarrow> string list" where
  "dedupe xs = retain_unseen {} xs"

definition resolved_scopes :: "scope_resolution_outcome \<Rightarrow> scope_descriptor list" where
  "resolved_scopes o' =
     (case sro_project o' of None \<Rightarrow> [] | Some p \<Rightarrow> [p]) @
     (case sro_global o' of None \<Rightarrow> [] | Some g \<Rightarrow> [g])"

definition scopes_considered_of :: "scope_resolution_outcome \<Rightarrow> string list" where
  "scopes_considered_of o' =
     (let scopes =
        (if sro_project o' \<noteq> None \<or> ''project'' \<in> set (sro_degraded_scopes o') then [''project''] else []) @
        (if sro_global o' \<noteq> None \<or> ''global'' \<in> set (sro_degraded_scopes o') then [''global''] else [])
      in if scopes = [] then sro_configured_scopes o' else scopes)"

definition configured_scope_ids :: "string list" where
  "configured_scope_ids = [''project'', ''global'']"

text \<open>What one resolver's answer gives: its scope, degraded entries and reason codes.\<close>

definition resolve_one ::
  "string \<Rightarrow> scope_type \<Rightarrow> (domain_error, scope_descriptor list) result \<Rightarrow>
     scope_descriptor option \<times> string list \<times> string list" where
  "resolve_one label ty answer =
     (let (scope, degraded, reasons) =
        (case answer of
           Inr scopes \<Rightarrow> (find (\<lambda>s. sd_scope_type s = ty) scopes, [], [])
         | Inl _ \<Rightarrow> (None, [label], [label @ ''_scope_resolution_failed'']))
      in if scope = None
         then (scope, degraded @ [label], reasons @ [label @ ''_scope_unresolved''])
         else (scope, degraded, reasons))"

definition dual_scope_resolve ::
  "(domain_error, scope_descriptor list) result \<Rightarrow> (domain_error, scope_descriptor list) result \<Rightarrow>
     scope_resolution_outcome" where
  "dual_scope_resolve project_result global_result =
     (let (project, d1, r1) = resolve_one ''project'' Project project_result;
          (global, d2, r2) = resolve_one ''global'' Global global_result
      in \<lparr>sro_project = project, sro_global = global,
          sro_degraded_scopes = dedupe (d1 @ d2), sro_reason_codes = dedupe (r1 @ r2),
          sro_configured_scopes = configured_scope_ids\<rparr>)"

section \<open>Searching one scope (dual\_scope.rs)\<close>

record scoped_search_result =
  sres_scope_id :: string
  sres_scope_type :: scope_type
  sres_candidates :: "fused_candidate list"

record scoped_search_failure =
  sfail_scope_id :: string
  sfail_reason_code :: string

definition seeded_skill_matches_scope :: "seeded_skill \<Rightarrow> scope_descriptor \<Rightarrow> bool" where
  "seeded_skill_matches_scope seeded scope =
     (if sk_scope (seed_skill seeded) \<noteq> sd_scope_type scope then False
      else if seed_scope_id seeded \<noteq> sd_scope_id scope then False
      else if sd_paths scope = [] then True
      else if seed_source_paths seeded = [] then False
      else list_all (\<lambda>src. list_ex (\<lambda>p. prefix p src) (sd_paths scope)) (seed_source_paths seeded))"

definition scoped_indices :: "retrieval_snapshot \<Rightarrow> scope_descriptor \<Rightarrow> nat list" where
  "scoped_indices graph scope =
     map fst (filter (\<lambda>(_, seeded). seeded_skill_matches_scope seeded scope)
                     (List.enumerate 0 (rsn_skills graph)))"

definition skill_text :: "seeded_skill \<Rightarrow> string" where
  "skill_text s = sk_name (seed_skill s) @ '' '' @ sk_description (seed_skill s) @ '' '' @
     join '' '' (sk_tags (seed_skill s))"

definition community_boost_of ::
  "retrieval_config \<Rightarrow> retrieval_snapshot \<Rightarrow> f32 list \<Rightarrow> seeded_skill \<Rightarrow> f32" where
  "community_boost_of config graph prompt_embedding s =
     (case rc_community_boost_mode config of
        Binary \<Rightarrow> seed_community_boost s
      | Off \<Rightarrow> lit 0
      | CentroidAffinity \<Rightarrow>
          (case (case sk_community_id (seed_skill s) of None \<Rightarrow> None
                 | Some cid \<Rightarrow> map_of (rsn_community_centroids graph) (as_str cid)) of
             None \<Rightarrow> lit 0
           | Some centroid \<Rightarrow> fclamp (cosine_similarity prompt_embedding centroid) (lit 0) (lit 1)))"

text \<open>The closure of the \<open>filter\_map\<close> over the cosine hits.\<close>

definition scope_candidate ::
  "retrieval_config \<Rightarrow> retrieval_snapshot \<Rightarrow> scope_descriptor \<Rightarrow> f32 list \<Rightarrow> nat list \<Rightarrow>
     (nat \<Rightarrow> graph_hit option) \<Rightarrow> cosine_hit \<Rightarrow> fused_candidate option" where
  "scope_candidate config graph scope prompt_embedding indices graph_hits_by_skill hit =
     (case nth_opt indices (ch_skill_index hit) of
        None \<Rightarrow> None
      | Some i \<Rightarrow>
     (case nth_opt (rsn_skills graph) i of
        None \<Rightarrow> None
      | Some seeded \<Rightarrow>
          (let graph_hit = graph_hits_by_skill i;
               lexical = (case graph_hit of None \<Rightarrow> lit 0 | Some h \<Rightarrow> gh_lexical_score h);
               evidence = (case graph_hit of None \<Rightarrow> lit 0 | Some h \<Rightarrow> gh_subunit_evidence h);
               boost = community_boost_of config graph prompt_embedding seeded;
               score = score_eq3 \<lparr>sco_l1_semantic = ch_semantic_score hit,
                                  sco_subunit_evidence = evidence, sco_prior = seed_prior seeded,
                                  sco_community_boost = boost\<rparr> (rc_scoring_weights config)
           in Some \<lparr>fc_skill_index = i, fc_skill_id = as_str (sk_id (seed_skill seeded)),
                    fc_matched_scope = sd_scope_type scope, fc_score = score,
                    fc_semantic_score = ch_semantic_score hit, fc_lexical_score = lexical,
                    fc_subunit_evidence = evidence, fc_embedding = seed_embedding seeded,
                    fc_highlights = (case graph_hit of None \<Rightarrow> [] | Some h \<Rightarrow> gh_projections h)\<rparr>)))"

definition scope_cosine_hits ::
  "retrieval_config \<Rightarrow> retrieval_snapshot \<Rightarrow> f32 list \<Rightarrow> nat list \<Rightarrow> cosine_hit list" where
  "scope_cosine_hits config graph prompt_embedding indices =
     rank_by_cosine prompt_embedding
       (List.map_filter (\<lambda>i. map_option seed_embedding (nth_opt (rsn_skills graph) i)) indices)
       (rc_candidate_limit config)"

definition scope_graph_hits ::
  "string \<Rightarrow> f32 list \<Rightarrow> retrieval_config \<Rightarrow> retrieval_snapshot \<Rightarrow> nat list \<Rightarrow> cosine_hit list \<Rightarrow>
     (nat \<Rightarrow> graph_hit option)" where
  "scope_graph_hits prompt prompt_embedding config graph indices hits =
     (let candidate_indices = List.map_filter (\<lambda>h. nth_opt indices (ch_skill_index h)) hits
      in map_of (rev (map (\<lambda>h. (gh_skill_index h, h))
           (search_graph prompt prompt_embedding (map skill_text (rsn_skills graph))
              (map seed_subunits (rsn_skills graph)) (map seed_subunit_embeddings (rsn_skills graph))
              candidate_indices (rc_max_subunits_per_skill config)))))"

definition perform_scope_search ::
  "string \<Rightarrow> f32 list \<Rightarrow> retrieval_snapshot \<Rightarrow> retrieval_config \<Rightarrow> scope_descriptor \<Rightarrow>
     scoped_search_result" where
  "perform_scope_search prompt prompt_embedding graph config scope =
     (let indices = scoped_indices graph scope in
      if indices = []
      then \<lparr>sres_scope_id = sd_scope_id scope, sres_scope_type = sd_scope_type scope,
            sres_candidates = []\<rparr>
      else
        (let hits = scope_cosine_hits config graph prompt_embedding indices;
             graph_hits = scope_graph_hits prompt prompt_embedding config graph indices hits;
             fused = filter (\<lambda>c. fle (rc_relevance_threshold config) (fc_score c))
                       (List.map_filter
                          (scope_candidate config graph scope prompt_embedding indices graph_hits) hits);
             sorted = sort_by (desc_by fc_score) fused
         in \<lparr>sres_scope_id = sd_scope_id scope, sres_scope_type = sd_scope_type scope,
             sres_candidates = mmr_select sorted (rc_candidate_limit config) (rc_mmr_lambda config)\<rparr>))"

section \<open>Searching the scopes concurrently\<close>

text \<open>What \<open>timeout\<close> over the blocking task answered.\<close>

datatype task_fate = Completed | TaskFailed | TimedOut

definition run_scope_search_with_timeout ::
  "scope_descriptor \<Rightarrow> task_fate \<Rightarrow> scoped_search_result \<Rightarrow>
     (scoped_search_failure, scoped_search_result) result" where
  "run_scope_search_with_timeout scope fate search_work =
     (case fate of
        Completed \<Rightarrow> Ok search_work
      | TaskFailed \<Rightarrow> Err \<lparr>sfail_scope_id = sd_scope_id scope,
          sfail_reason_code = scope_type_str (sd_scope_type scope) @ ''_search_task_failed''\<rparr>
      | TimedOut \<Rightarrow> Err \<lparr>sfail_scope_id = sd_scope_id scope,
          sfail_reason_code = scope_type_str (sd_scope_type scope) @ ''_search_timeout''\<rparr>)"

definition search_scope ::
  "string \<Rightarrow> f32 list \<Rightarrow> retrieval_snapshot \<Rightarrow> retrieval_config \<Rightarrow> task_fate \<Rightarrow> scope_descriptor \<Rightarrow>
     (scoped_search_failure, scoped_search_result) result" where
  "search_scope prompt prompt_embedding graph config fate scope =
     run_scope_search_with_timeout scope fate
       (perform_scope_search prompt prompt_embedding graph config scope)"

text \<open>
  \<open>fates ! i\<close> is the fate of the search task of scope \<open>i\<close>; \<open>joins ! i\<close> tells whether the
  spawned outer task of scope \<open>i\<close> could be joined, which only the general branch consults.
\<close>

definition search_scopes_concurrently ::
  "string \<Rightarrow> f32 list \<Rightarrow> retrieval_snapshot \<Rightarrow> retrieval_config \<Rightarrow> scope_descriptor list \<Rightarrow>
     (nat \<Rightarrow> task_fate) \<Rightarrow> (nat \<Rightarrow> bool) \<Rightarrow>
     scoped_search_result list \<times> scoped_search_failure list" where
  "search_scopes_concurrently prompt prompt_embedding graph config scopes fates joins =
     (let run = (\<lambda>i scope. search_scope prompt prompt_embedding graph config (fates i) scope);
          results =
            (case scopes of
               [scope] \<Rightarrow> [run 0 scope]
             | [first, second] \<Rightarrow> [run 0 first, run 1 second]
             | _ \<Rightarrow> map (\<lambda>(i, scope).
                 if joins i then run i scope
                 else Err \<lparr>sfail_scope_id = sd_scope_id scope,
                   sfail_reason_code = scope_type_str (sd_scope_type scope) @ ''_search_task_failed''\<rparr>)
                 (List.enumerate 0 scopes))
      in (oks results, errs results))"

section \<open>Lemmas on the resolution\<close>

lemma set_dedupe [simp]: "set (dedupe xs) = set xs"
  by (simp add: dedupe_def set_retain_unseen)

lemma distinct_dedupe [simp]: "distinct (dedupe xs)"
  by (simp add: dedupe_def distinct_retain_unseen)

lemma dedupe_Nil_iff [simp]: "dedupe xs = [] \<longleftrightarrow> xs = []"
  by (simp add: dedupe_def retain_unseen_Nil_iff)

lemma hd_dedupe: "xs \<noteq> [] \<Longrightarrow> hd (dedupe xs) = hd xs"
  by (simp add: dedupe_def hd_retain_unseen)

text \<open>The scope of the wanted type that a resolver's answer offers first.\<close>

definition offered :: "scope_type \<Rightarrow> (domain_error, scope_descriptor list) result \<Rightarrow> scope_descriptor option" where
  "offered ty answer = (case answer of Inr ss \<Rightarrow> find (\<lambda>s. sd_scope_type s = ty) ss | Inl _ \<Rightarrow> None)"

lemma resolve_one_offered:
  "resolve_one label ty answer =
     (case offered ty answer of
        Some s \<Rightarrow> (Some s, [], [])
      | None \<Rightarrow> (case answer of
          Inr _ \<Rightarrow> (None, [label], [label @ ''_scope_unresolved''])
        | Inl _ \<Rightarrow> (None, [label, label],
            [label @ ''_scope_resolution_failed'', label @ ''_scope_unresolved''])))"
  by (auto simp: resolve_one_def offered_def split: sum.splits option.splits)

lemma offered_type: "offered ty answer = Some s \<Longrightarrow> sd_scope_type s = ty"
  by (auto simp: offered_def find_Some_iff split: sum.splits)

section \<open>Lemmas on the search\<close>

lemma scoped_indices_iff:
  "i \<in> set (scoped_indices graph scope) \<longleftrightarrow>
     i < length (rsn_skills graph) \<and> seeded_skill_matches_scope (rsn_skills graph ! i) scope"
  by (force simp: scoped_indices_def in_set_enumerate_eq)

lemma distinct_scoped_indices: "distinct (scoped_indices graph scope)"
  unfolding scoped_indices_def by (rule distinct_map_filter) (simp add: distinct_enumerate)

lemma scope_candidate_SomeD:
  assumes "scope_candidate config graph scope pe (scoped_indices graph scope) ghs hit = Some c"
  shows "fc_skill_index c < length (rsn_skills graph)"
    and "seeded_skill_matches_scope (rsn_skills graph ! fc_skill_index c) scope"
    and "fc_skill_id c = as_str (sk_id (seed_skill (rsn_skills graph ! fc_skill_index c)))"
    and "fc_matched_scope c = sd_scope_type scope"
    and "fc_semantic_score c = ch_semantic_score hit"
    and "fc_embedding c = seed_embedding (rsn_skills graph ! fc_skill_index c)"
proof -
  obtain i where i: "nth_opt (scoped_indices graph scope) (ch_skill_index hit) = Some i"
    "i < length (rsn_skills graph)" "fc_skill_index c = i"
    and rest: "fc_skill_id c = as_str (sk_id (seed_skill (rsn_skills graph ! i)))"
      "fc_matched_scope c = sd_scope_type scope" "fc_semantic_score c = ch_semantic_score hit"
      "fc_embedding c = seed_embedding (rsn_skills graph ! i)"
    using assms by (auto simp: scope_candidate_def Let_def nth_opt_Some_iff [of "rsn_skills graph"]
        split: option.splits)
  then have "i \<in> set (scoped_indices graph scope)" by (auto simp: nth_opt_Some_iff)
  with i rest show "fc_skill_index c < length (rsn_skills graph)"
    "seeded_skill_matches_scope (rsn_skills graph ! fc_skill_index c) scope"
    "fc_skill_id c = as_str (sk_id (seed_skill (rsn_skills graph ! fc_skill_index c)))"
    "fc_matched_scope c = sd_scope_type scope" "fc_semantic_score c = ch_semantic_score hit"
    "fc_embedding c = seed_embedding (rsn_skills graph ! fc_skill_index c)"
    by (auto simp: scoped_indices_iff)
qed

lemma perform_scope_search_head [simp]:
  "sres_scope_id (perform_scope_search prompt pe graph config scope) = sd_scope_id scope"
  "sres_scope_type (perform_scope_search prompt pe graph config scope) = sd_scope_type scope"
  by (simp_all add: perform_scope_search_def Let_def)

text \<open>What every candidate of a scope search satisfies.\<close>

definition candidate_of_scope ::
  "retrieval_snapshot \<Rightarrow> retrieval_config \<Rightarrow> scope_descriptor \<Rightarrow> fused_candidate \<Rightarrow> bool" where
  "candidate_of_scope graph config scope c \<longleftrightarrow>
     fc_skill_index c < length (rsn_skills graph) \<and>
     seeded_skill_matches_scope (rsn_skills graph ! fc_skill_index c) scope \<and>
     fc_skill_id c = as_str (sk_id (seed_skill (rsn_skills graph ! fc_skill_index c))) \<and>
     fc_matched_scope c = sd_scope_type scope \<and>
     fle (rc_relevance_threshold config) (fc_score c)"

lemma perform_scope_search_candidate:
  assumes "c \<in> set (sres_candidates (perform_scope_search prompt pe graph config scope))"
  shows "candidate_of_scope graph config scope c"
proof -
  obtain ghs hits where
    c: "c \<in> set (filter (\<lambda>c. fle (rc_relevance_threshold config) (fc_score c))
          (List.map_filter (scope_candidate config graph scope pe (scoped_indices graph scope) ghs) hits))"
    using assms by (fastforce simp: perform_scope_search_def Let_def split: if_splits
        dest!: subsetD [OF mmr_select_subset])
  then obtain hit where
    hit: "scope_candidate config graph scope pe (scoped_indices graph scope) ghs hit = Some c"
    by (auto simp: map_filter_Some_set)
  from c scope_candidate_SomeD [OF hit] show ?thesis by (simp add: candidate_of_scope_def)
qed

lemma length_perform_scope_search:
  "length (sres_candidates (perform_scope_search prompt pe graph config scope)) \<le> rc_candidate_limit config"
  unfolding perform_scope_search_def Let_def
  using order_trans [OF length_mmr_select] by (auto simp: min_le_iff_disj)

section \<open>Lemmas on the concurrent search\<close>

text \<open>All branches answer per scope, in order; \<open>scope_answer\<close> is that answer.\<close>

definition scope_answer ::
  "string \<Rightarrow> f32 list \<Rightarrow> retrieval_snapshot \<Rightarrow> retrieval_config \<Rightarrow> (nat \<Rightarrow> task_fate) \<Rightarrow>
     (nat \<Rightarrow> bool) \<Rightarrow> nat \<times> scope_descriptor \<Rightarrow>
     (scoped_search_failure, scoped_search_result) result" where
  "scope_answer prompt pe graph config fates joins = (\<lambda>(i, scope).
     search_scope prompt pe graph config (if joins i then fates i else TaskFailed) scope)"

lemma search_scopes_answers:
  fixes prompt pe graph config scopes fates joins
  defines "joined \<equiv> (\<lambda>i. length scopes \<in> {1, 2} \<or> joins i)"
  defines "answers \<equiv> map (scope_answer prompt pe graph config fates joined) (List.enumerate 0 scopes)"
  shows "search_scopes_concurrently prompt pe graph config scopes fates joins = (oks answers, errs answers)"
proof -
  consider (1) s where "scopes = [s]" | (2) s t where "scopes = [s, t]"
    | (3) "length scopes \<notin> {1, 2}" "\<And>s. scopes \<noteq> [s]" "\<And>s t. scopes \<noteq> [s, t]"
    by (cases scopes; cases "tl scopes"; cases "tl (tl scopes)") fastforce+
  then show ?thesis
  proof cases
    case 3
    have b: "(case scopes of [scope] \<Rightarrow> x scope | [first, second] \<Rightarrow> y first second | _ \<Rightarrow> z) = z" for x y z
      using 3 by (auto split: list.splits)
    show ?thesis
      unfolding search_scopes_concurrently_def Let_def b answers_def
      using 3(1) by (auto simp: joined_def scope_answer_def search_scope_def
          run_scope_search_with_timeout_def case_prod_unfold
          intro!: arg_cong2 [where f = Pair] arg_cong [where f = oks] arg_cong [where f = errs])
  qed (auto simp: search_scopes_concurrently_def answers_def joined_def scope_answer_def Let_def)
qed

lemma search_scope_OkD:
  "search_scope prompt pe graph config fate scope = Inr r \<Longrightarrow>
     fate = Completed \<and> r = perform_scope_search prompt pe graph config scope"
  by (auto simp: search_scope_def run_scope_search_with_timeout_def split: task_fate.splits)

lemma search_scope_ErrD:
  "search_scope prompt pe graph config fate scope = Inl f \<Longrightarrow> sfail_scope_id f = sd_scope_id scope"
  by (auto simp: search_scope_def run_scope_search_with_timeout_def split: task_fate.splits)

lemma search_scopes_resultD:
  assumes "r \<in> set (fst (search_scopes_concurrently prompt pe graph config scopes fates joins))"
  shows "\<exists>i < length scopes. fates i = Completed \<and>
    r = perform_scope_search prompt pe graph config (scopes ! i)"
proof -
  obtain j i where "i < length scopes" and
    "scope_answer prompt pe graph config fates j (i, scopes ! i) = Inr r"
    using assms by (auto simp: search_scopes_answers set_oks in_set_enumerate_eq image_iff)
  then show ?thesis
    by (auto simp: scope_answer_def dest!: search_scope_OkD split: if_splits intro!: exI [of _ i])
qed

lemma search_scopes_counts:
  "length (fst (search_scopes_concurrently prompt pe graph config scopes fates joins)) +
   length (snd (search_scopes_concurrently prompt pe graph config scopes fates joins)) = length scopes"
  by (simp add: search_scopes_answers length_oks_errs)

section \<open>Properties\<close>

text \<open>scope resolution is total and honest.  It takes the first scope of the right type each
  resolver offers, and a scope is reported degraded exactly when it is missing; without a
  degraded scope there is no reason code, both scopes are always considered, and no entry of the
  two lists is repeated.\<close>

theorem dual_scope_resolve_reports:
  "sro_project (dual_scope_resolve pr gr) = offered Project pr \<and>
   sro_global (dual_scope_resolve pr gr) = offered Global gr \<and>
   (''project'' \<in> set (sro_degraded_scopes (dual_scope_resolve pr gr)) \<longleftrightarrow> offered Project pr = None) \<and>
   (''global'' \<in> set (sro_degraded_scopes (dual_scope_resolve pr gr)) \<longleftrightarrow> offered Global gr = None) \<and>
   (sro_reason_codes (dual_scope_resolve pr gr) = [] \<longleftrightarrow> sro_degraded_scopes (dual_scope_resolve pr gr) = []) \<and>
   distinct (sro_degraded_scopes (dual_scope_resolve pr gr)) \<and>
   distinct (sro_reason_codes (dual_scope_resolve pr gr)) \<and>
   scopes_considered_of (dual_scope_resolve pr gr) = [''project'', ''global'']"
  by (cases "offered Project pr"; cases "offered Global gr"; cases pr; cases gr)
     (simp_all add: dual_scope_resolve_def resolve_one_offered scopes_considered_of_def)

text \<open>C14: scopes are isolated and the relevance floor holds. Every candidate a scope search returns is a skill of the read model that belongs to this scope (type, identifier and source paths), is named by its own identifier, scores at least the configured floor, and there are at most the configured number.\<close>

theorem scope_search_isolated:
  "length (sres_candidates (perform_scope_search prompt pe graph config scope)) \<le> rc_candidate_limit config \<and>
   (\<forall>c \<in> set (sres_candidates (perform_scope_search prompt pe graph config scope)).
      (\<exists>s \<in> set (rsn_skills graph). s = rsn_skills graph ! fc_skill_index c \<and>
         fc_skill_id c = as_str (sk_id (seed_skill s)) \<and>
         sk_scope (seed_skill s) = sd_scope_type scope \<and> seed_scope_id s = sd_scope_id scope \<and>
         (sd_paths scope \<noteq> [] \<longrightarrow> seed_source_paths s \<noteq> [] \<and>
            (\<forall>src \<in> set (seed_source_paths s). \<exists>p \<in> set (sd_paths scope). prefix p src))) \<and>
      fle (rc_relevance_threshold config) (fc_score c))"
proof (intro conjI ballI)
  show "length (sres_candidates (perform_scope_search prompt pe graph config scope)) \<le> rc_candidate_limit config"
    by (rule length_perform_scope_search)
  fix c assume "c \<in> set (sres_candidates (perform_scope_search prompt pe graph config scope))"
  then have c: "candidate_of_scope graph config scope c" by (rule perform_scope_search_candidate)
  then show "fle (rc_relevance_threshold config) (fc_score c)" by (simp add: candidate_of_scope_def)
  let ?s = "rsn_skills graph ! fc_skill_index c"
  from c have "?s \<in> set (rsn_skills graph)" by (simp add: candidate_of_scope_def)
  with c show "\<exists>s \<in> set (rsn_skills graph). s = ?s \<and>
         fc_skill_id c = as_str (sk_id (seed_skill s)) \<and>
         sk_scope (seed_skill s) = sd_scope_type scope \<and> seed_scope_id s = sd_scope_id scope \<and>
         (sd_paths scope \<noteq> [] \<longrightarrow> seed_source_paths s \<noteq> [] \<and>
            (\<forall>src \<in> set (seed_source_paths s). \<exists>p \<in> set (sd_paths scope). prefix p src))"
    by (auto simp: candidate_of_scope_def seeded_skill_matches_scope_def list_all_iff list_ex_iff
        split: if_splits)
qed

definition sample_skill :: "string \<Rightarrow> scope_type \<Rightarrow> seeded_skill" where
  "sample_skill sid ty =
     \<lparr>seed_skill = \<lparr>sk_id = DomainId sid, sk_name = sid, sk_description = [], sk_scope = ty,
        sk_status = SReady, sk_lifecycle = LActive, sk_tags = [], sk_subunit_ids = [],
        sk_community_id = None\<rparr>,
      seed_scope_id = scope_type_str ty, seed_source_paths = [], seed_embedding = [],
      seed_subunits = [], seed_subunit_embeddings = [], seed_prior = Fin 0,
      seed_community_boost = Fin 0\<rparr>"

definition sample_scope :: "scope_type \<Rightarrow> scope_descriptor" where
  "sample_scope ty = \<lparr>sd_scope_id = scope_type_str ty, sd_scope_type = ty, sd_paths = [], sd_config = []\<rparr>"

definition sample_config :: retrieval_config where
  "sample_config =
     \<lparr>rc_scope_id = ''global'', rc_scope_type = Global, rc_candidate_limit = 2, rc_max_results = 1,
      rc_max_subunits_per_skill = 1, rc_rescue_threshold = Fin 0,
      rc_relevance_threshold = Fin 0, rc_mmr_lambda = Fin 1,
      rc_scoring_weights = \<lparr>sw_alpha = Fin (1/2), sw_beta = Fin 0, sw_gamma = Fin 0, sw_lambda = Fin 0\<rparr>,
      rc_project_scope_weight = Fin 1, rc_global_scope_weight = Fin (1/2), rc_rrf_k = Fin 3,
      rc_scope_timeout_ms = 400, rc_community_boost_mode = Off\<rparr>"

definition sample_graph :: retrieval_snapshot where
  "sample_graph = retrieval_snapshot_new [sample_skill ''l'' Project, sample_skill ''d'' Global] 7"

lemma sample_search:
  "map fc_skill_id (sres_candidates
     (perform_scope_search [] [] sample_graph sample_config (sample_scope Project))) = [''l'']"
  by code_simp

theorem scope_search_isolated_witness:
  "fle (Fin 0) (fc_score (hd (sres_candidates
     (perform_scope_search [] [] sample_graph sample_config (sample_scope Project)))))"
proof -
  let ?cs = "sres_candidates (perform_scope_search [] [] sample_graph sample_config (sample_scope Project))"
  have "hd ?cs \<in> set ?cs" using sample_search by (cases ?cs) auto
  with scope_search_isolated [of "[]" "[]" sample_graph sample_config "sample_scope Project"]
  have "fle (rc_relevance_threshold sample_config) (fc_score (hd ?cs))" by blast
  then show ?thesis by (simp add: sample_config_def)
qed

text \<open>a slow or crashed scope costs only itself.  Every scope is answered exactly once; a
  result appears only for a scope whose task completed and is that scope's full search, and every
  failure names a searched scope and carries one of the two reason codes of its type.  When all
  tasks complete, the results are the searches of all scopes in order.\<close>

theorem search_scopes_fault_isolation:
  "length (fst (search_scopes_concurrently prompt pe graph config scopes fates joins)) +
   length (snd (search_scopes_concurrently prompt pe graph config scopes fates joins)) = length scopes \<and>
   (\<forall>r \<in> set (fst (search_scopes_concurrently prompt pe graph config scopes fates joins)).
      \<exists>i < length scopes. fates i = Completed \<and> r = perform_scope_search prompt pe graph config (scopes ! i)) \<and>
   (\<forall>f \<in> set (snd (search_scopes_concurrently prompt pe graph config scopes fates joins)).
      \<exists>s \<in> set scopes. sfail_scope_id f = sd_scope_id s \<and>
        sfail_reason_code f \<in> {scope_type_str (sd_scope_type s) @ ''_search_task_failed'',
                               scope_type_str (sd_scope_type s) @ ''_search_timeout''}) \<and>
   ((\<forall>i < length scopes. fates i = Completed \<and> joins i) \<longrightarrow>
      fst (search_scopes_concurrently prompt pe graph config scopes fates joins) =
        map (perform_scope_search prompt pe graph config) scopes)"
proof (intro conjI ballI impI)
  fix f assume "f \<in> set (snd (search_scopes_concurrently prompt pe graph config scopes fates joins))"
  then obtain j i where i: "i < length scopes"
    "scope_answer prompt pe graph config fates j (i, scopes ! i) = Inl f"
    by (auto simp: search_scopes_answers set_errs in_set_enumerate_eq image_iff)
  then show "\<exists>s \<in> set scopes. sfail_scope_id f = sd_scope_id s \<and>
      sfail_reason_code f \<in> {scope_type_str (sd_scope_type s) @ ''_search_task_failed'',
                             scope_type_str (sd_scope_type s) @ ''_search_timeout''}"
    by (intro bexI [of _ "scopes ! i"])
       (auto simp: scope_answer_def search_scope_def run_scope_search_with_timeout_def
         split: if_splits task_fate.splits)
next
  assume all: "\<forall>i < length scopes. fates i = Completed \<and> joins i"
  have "map (scope_answer prompt pe graph config fates (\<lambda>i. length scopes \<in> {1, 2} \<or> joins i))
          (List.enumerate 0 scopes) = map (\<lambda>s. Inr (perform_scope_search prompt pe graph config s)) scopes"
    using all by (intro nth_equalityI)
      (auto simp: nth_enumerate_eq scope_answer_def search_scope_def run_scope_search_with_timeout_def)
  moreover have "oks (map (\<lambda>s. Inr (g s)) xs) = map g xs" for g :: "scope_descriptor \<Rightarrow> scoped_search_result" and xs
    by (induction xs) auto
  ultimately show "fst (search_scopes_concurrently prompt pe graph config scopes fates joins) =
        map (perform_scope_search prompt pe graph config) scopes"
    by (simp add: search_scopes_answers)
qed (use search_scopes_counts search_scopes_resultD in auto)

theorem search_scopes_fault_isolation_witness:
  "fst (search_scopes_concurrently [] [] sample_graph sample_config
          [sample_scope Project, sample_scope Global] (\<lambda>_. Completed) (\<lambda>_. True)) =
   map (perform_scope_search [] [] sample_graph sample_config)
     [sample_scope Project, sample_scope Global]"
  by (rule search_scopes_fault_isolation [THEN conjunct2, THEN conjunct2, THEN conjunct2, THEN mp]) simp

end
