(* ===== verification/Config_Env.thy ===== *)
theory Config_Env
  imports Scope_Search Circuit_Breaker
begin

text \<open>
  The configuration read from environment variables (\<open>retrieval/src/orchestrator.rs\<close>): the number
  parsers of the standard library it uses, the fail-loud \<open>env\_or\<close>, the retrieval configuration
  and the embedding circuit breaker.  An environment maps a variable to its value when it is set;
  a panic is an \<open>Err\<close> that names the variable.
\<close>

section \<open>Parsing numbers\<close>

definition is_digit :: "char \<Rightarrow> bool" where
  "is_digit c \<longleftrightarrow> 48 \<le> (of_char c :: nat) \<and> (of_char c :: nat) \<le> 57"

definition digits_val :: "string \<Rightarrow> nat" where
  "digits_val s = foldl (\<lambda>n c. 10 * n + (of_char c - 48)) 0 s"

text \<open>\<open>parse\<close> at an unsigned type of \<open>w\<close> bits: an optional plus sign, at least one digit, no overflow.\<close>

definition parse_unsigned :: "nat \<Rightarrow> string \<Rightarrow> nat option" where
  "parse_unsigned w s =
     (let ds = (case s of c # cs \<Rightarrow> if c = CHR ''+'' then cs else s | [] \<Rightarrow> [])
      in if ds \<noteq> [] \<and> list_all is_digit ds \<and> digits_val ds < 2 ^ w then Some (digits_val ds) else None)"

text \<open>\<open>parse\<close> at \<open>f32\<close>: sign, then infinity, NaN or a decimal number with an optional exponent.\<close>

definition split_at_first :: "(char \<Rightarrow> bool) \<Rightarrow> string \<Rightarrow> string \<times> string option" where
  "split_at_first p s = (takeWhile (\<lambda>c. \<not> p c) s,
     (case dropWhile (\<lambda>c. \<not> p c) s of [] \<Rightarrow> None | c # cs \<Rightarrow> Some cs))"

definition parse_exponent :: "string option \<Rightarrow> int option" where
  "parse_exponent e =
     (case e of None \<Rightarrow> Some 0
      | Some s \<Rightarrow>
        (let (neg, ds) = (case s of c # cs \<Rightarrow>
               if c = CHR ''-'' then (True, cs) else if c = CHR ''+'' then (False, cs) else (False, s)
             | [] \<Rightarrow> (False, []))
         in if ds \<noteq> [] \<and> list_all is_digit ds
            then Some (if neg then - int (digits_val ds) else int (digits_val ds)) else None))"

definition parse_decimal :: "bool \<Rightarrow> string \<Rightarrow> f32 option" where
  "parse_decimal neg s =
     (let (mantissa, e) = split_at_first (\<lambda>c. c = CHR ''e'' \<or> c = CHR ''E'') s;
          (whole, frac) = split_at_first (\<lambda>c. c = CHR ''.'') mantissa;
          fs = (case frac of None \<Rightarrow> [] | Some f \<Rightarrow> f)
      in if whole @ fs \<noteq> [] \<and> list_all is_digit (whole @ fs)
         then (case parse_exponent e of None \<Rightarrow> None
               | Some k \<Rightarrow>
                 (let m = of_nat (digits_val (whole @ fs)) * (10 :: rat) powi (k - int (length fs))
                  in Some (rnd neg (if neg then - m else m))))
         else None)"

definition parse_f32 :: "string \<Rightarrow> f32 option" where
  "parse_f32 s =
     (let (neg, body) = (case s of c # cs \<Rightarrow>
            if c = CHR ''-'' then (True, cs) else if c = CHR ''+'' then (False, cs) else (False, s)
          | [] \<Rightarrow> (False, []));
          word = ascii_lower body
      in if word = ''inf'' \<or> word = ''infinity'' then Some (if neg then NegInf else PosInf)
         else if word = ''nan'' then Some NaN
         else parse_decimal neg body)"

definition parse_boost_mode :: "string \<Rightarrow> community_boost_mode option" where
  "parse_boost_mode s = (case community_boost_mode_from_str s of Inr m \<Rightarrow> Some m | Inl _ \<Rightarrow> None)"

section \<open>The fail-loud environment\<close>

type_synonym environment = "string \<Rightarrow> string option"

definition env_or ::
  "environment \<Rightarrow> (string \<Rightarrow> 'a option) \<Rightarrow> string \<Rightarrow> 'a \<Rightarrow> (string, 'a) result" where
  "env_or env parse name dflt =
     (case env name of
        None \<Rightarrow> Ok dflt
      | Some raw \<Rightarrow>
          if trim raw = [] then Ok dflt
          else (case parse (trim raw) of Some v \<Rightarrow> Ok v | None \<Rightarrow> Err name))"

definition relevance_threshold_from_env :: "environment \<Rightarrow> (string, f32) result" where
  "relevance_threshold_from_env env =
     (case env ''RETRIEVAL_RELEVANCE_THRESHOLD'' of
        Some raw \<Rightarrow> (case parse_f32 raw of Some v \<Rightarrow> Ok v | None \<Rightarrow> Err ''RETRIEVAL_RELEVANCE_THRESHOLD'')
      | None \<Rightarrow> Ok (rc_relevance_threshold retrieval_config_default))"

definition weights_from_env :: "environment \<Rightarrow> scoring_weights \<Rightarrow> (string, scoring_weights) result" where
  "weights_from_env env w =
     rbind (env_or env parse_f32 ''RETRIEVAL_ALPHA'' (sw_alpha w)) (\<lambda>a.
     rbind (env_or env parse_f32 ''RETRIEVAL_BETA'' (sw_beta w)) (\<lambda>b.
     rbind (env_or env parse_f32 ''RETRIEVAL_GAMMA'' (sw_gamma w)) (\<lambda>g.
     rbind (env_or env parse_f32 ''RETRIEVAL_LAMBDA'' (sw_lambda w)) (\<lambda>l.
     Ok \<lparr>sw_alpha = a, sw_beta = b, sw_gamma = g, sw_lambda = l\<rparr>))))"

definition retrieval_config_from_env :: "environment \<Rightarrow> (string, retrieval_config) result" where
  "retrieval_config_from_env env =
     (let d = retrieval_config_default; usize = parse_unsigned 64 in
     rbind (env_or env usize ''RETRIEVAL_CANDIDATE_LIMIT'' (rc_candidate_limit d)) (\<lambda>cl.
     rbind (env_or env usize ''RETRIEVAL_MAX_RESULTS'' (rc_max_results d)) (\<lambda>mr.
     rbind (env_or env usize ''RETRIEVAL_MAX_SUBUNITS_PER_SKILL'' (rc_max_subunits_per_skill d)) (\<lambda>ms.
     rbind (env_or env parse_f32 ''RETRIEVAL_RESCUE_THRESHOLD'' (rc_rescue_threshold d)) (\<lambda>rt.
     rbind (env_or env parse_f32 ''RETRIEVAL_RELEVANCE_THRESHOLD'' (rc_relevance_threshold d)) (\<lambda>th.
     rbind (env_or env parse_f32 ''RETRIEVAL_MMR_LAMBDA'' (rc_mmr_lambda d)) (\<lambda>ml.
     rbind (weights_from_env env (rc_scoring_weights d)) (\<lambda>w.
     rbind (env_or env parse_f32 ''RETRIEVAL_PROJECT_SCOPE_WEIGHT'' (rc_project_scope_weight d)) (\<lambda>pw.
     rbind (env_or env parse_f32 ''RETRIEVAL_GLOBAL_SCOPE_WEIGHT'' (rc_global_scope_weight d)) (\<lambda>gw.
     rbind (env_or env parse_f32 ''RETRIEVAL_RRF_K'' (rc_rrf_k d)) (\<lambda>k.
     rbind (env_or env parse_boost_mode ''RETRIEVAL_COMMUNITY_BOOST_MODE'' (rc_community_boost_mode d)) (\<lambda>bm.
     Ok (d\<lparr>rc_candidate_limit := cl, rc_max_results := mr, rc_max_subunits_per_skill := ms,
           rc_rescue_threshold := rt, rc_relevance_threshold := th, rc_mmr_lambda := ml,
           rc_scoring_weights := w, rc_project_scope_weight := pw, rc_global_scope_weight := gw,
           rc_rrf_k := k, rc_community_boost_mode := bm\<rparr>)))))))))))))"

text \<open>Here an empty value is not absent: it does not parse.  Times are milliseconds.\<close>

definition build_embedding_circuit_breaker_from_env :: "environment \<Rightarrow> (string, circuit_breaker) result" where
  "build_embedding_circuit_breaker_from_env env =
     rbind (case env ''EMBED_CIRCUIT_FAILURE_THRESHOLD'' of
              Some raw \<Rightarrow> (case parse_unsigned 32 raw of Some v \<Rightarrow> Ok v
                           | None \<Rightarrow> Err ''EMBED_CIRCUIT_FAILURE_THRESHOLD'')
            | None \<Rightarrow> Ok 5) (\<lambda>failure_threshold.
     rbind (case env ''EMBED_CIRCUIT_OPEN_FOR_SECS'' of
              Some raw \<Rightarrow> (case parse_unsigned 64 raw of Some v \<Rightarrow> Ok v
                           | None \<Rightarrow> Err ''EMBED_CIRCUIT_OPEN_FOR_SECS'')
            | None \<Rightarrow> Ok 30) (\<lambda>open_for_secs.
     Ok (breaker_new (of_nat failure_threshold) (1000 * open_for_secs))))"

section \<open>Lemmas\<close>

lemma env_or_absent: "env name = None \<or> (\<exists>raw. env name = Some raw \<and> blank raw) \<Longrightarrow> env_or env p name d = Inr d"
  by (auto simp: env_or_def blank_def)

lemma env_or_Err_iff:
  "env_or env p name d = Inl e \<longleftrightarrow> e = name \<and> (\<exists>raw. env name = Some raw \<and> \<not> blank raw \<and> p (trim raw) = None)"
  by (auto simp: env_or_def blank_def split: option.splits)

lemma env_or_Ok_iff:
  "env_or env p name d = Inr v \<longleftrightarrow>
     ((env name = None \<or> (\<exists>raw. env name = Some raw \<and> blank raw)) \<and> v = d) \<or>
     (\<exists>raw. env name = Some raw \<and> \<not> blank raw \<and> p (trim raw) = Some v)"
  by (auto simp: env_or_def blank_def split: option.splits)

lemma parse_unsigned_bound: "parse_unsigned w s = Some n \<Longrightarrow> n < 2 ^ w"
  by (auto simp: parse_unsigned_def Let_def split: if_splits)

lemma digit_char_val: "n < 10 \<Longrightarrow> of_char (digit_char n) = 48 + n"
  by simp

lemma digits_val_append: "digits_val (s @ [c]) = 10 * digits_val s + (of_char c - 48)"
  by (simp add: digits_val_def)

lemma digits_val_nat_str: "digits_val (nat_str n) = n \<and> list_all is_digit (nat_str n) \<and> nat_str n \<noteq> []"
proof (induction n rule: nat_str.induct)
  case (1 n)
  show ?case
  proof (cases "n < 10")
    case True
    then show ?thesis by (simp add: nat_str.simps [of n] digits_val_def is_digit_def)
  next
    case False
    with 1 show ?thesis
      by (simp add: nat_str.simps [of n] digits_val_append is_digit_def)
  qed
qed

lemma hd_nat_str: "nat_str n = c # cs \<Longrightarrow> c \<noteq> CHR ''+''"
  using digits_val_nat_str [of n] by (auto simp: is_digit_def)

text \<open>Printing a number and parsing it back.\<close>

lemma parse_unsigned_nat_str: "n < 2 ^ w \<Longrightarrow> parse_unsigned w (nat_str n) = Some n"
  using digits_val_nat_str [of n] hd_nat_str [of n]
  by (auto simp: parse_unsigned_def Let_def split: list.splits)

section \<open>Properties\<close>

text \<open>configuration fails loud.  An environment that sets none of the variables (or sets them
  blank) gives the defaults; a configuration is built only if every variable that is set parses;
  otherwise start-up panics on a variable that is set to a nonblank value; and what no variable
  names keeps its default.\<close>

theorem retrieval_config_from_env_loud:
  "((\<forall>v raw. env v = Some raw \<longrightarrow> blank raw) \<longrightarrow> retrieval_config_from_env env = Ok retrieval_config_default) \<and>
   (\<forall>e. retrieval_config_from_env env = Err e \<longrightarrow> (\<exists>raw. env e = Some raw \<and> \<not> blank raw)) \<and>
   (\<forall>c. retrieval_config_from_env env = Ok c \<longrightarrow>
      rc_scope_timeout_ms c = 400 \<and>
      (\<forall>raw. env ''RETRIEVAL_CANDIDATE_LIMIT'' = Some raw \<longrightarrow> \<not> blank raw \<longrightarrow>
         parse_unsigned 64 (trim raw) = Some (rc_candidate_limit c)) \<and>
      (\<forall>raw. env ''RETRIEVAL_MAX_RESULTS'' = Some raw \<longrightarrow> \<not> blank raw \<longrightarrow>
         parse_unsigned 64 (trim raw) = Some (rc_max_results c)) \<and>
      (\<forall>raw. env ''RETRIEVAL_RELEVANCE_THRESHOLD'' = Some raw \<longrightarrow> \<not> blank raw \<longrightarrow>
         parse_f32 (trim raw) = Some (rc_relevance_threshold c)) \<and>
      (\<forall>raw. env ''RETRIEVAL_LAMBDA'' = Some raw \<longrightarrow> \<not> blank raw \<longrightarrow>
         parse_f32 (trim raw) = Some (sw_lambda (rc_scoring_weights c))) \<and>
      (\<forall>raw. env ''RETRIEVAL_COMMUNITY_BOOST_MODE'' = Some raw \<longrightarrow> \<not> blank raw \<longrightarrow>
         parse_boost_mode (trim raw) = Some (rc_community_boost_mode c)))"
proof (intro conjI allI impI)
  assume "\<forall>v raw. env v = Some raw \<longrightarrow> blank raw"
  then have "env_or env p name d = Inr d" for p :: "string \<Rightarrow> 'z option" and name d
    by (cases "env name") (auto intro: env_or_absent)
  then have "\<And>p name (d :: nat). env_or env p name d = Inr d" "\<And>p name (d :: f32). env_or env p name d = Inr d"
    "\<And>p name (d :: community_boost_mode). env_or env p name d = Inr d"
    using \<open>\<forall>v raw. env v = Some raw \<longrightarrow> blank raw\<close>
    by (auto simp: env_or_Ok_iff)
  then show "retrieval_config_from_env env = Ok retrieval_config_default"
    by (simp add: retrieval_config_from_env_def weights_from_env_def)
next
  fix e assume "retrieval_config_from_env env = Err e"
  then show "\<exists>raw. env e = Some raw \<and> \<not> blank raw"
    by (auto simp: retrieval_config_from_env_def weights_from_env_def Let_def rbind_Inl_iff env_or_Err_iff)
next
  fix c raw assume c: "retrieval_config_from_env env = Ok c"
  show "rc_scope_timeout_ms c = 400"
    using c by (auto simp: retrieval_config_from_env_def Let_def rbind_Inr_iff retrieval_config_default_def)
  assume raw: "\<not> blank raw"
  show "env ''RETRIEVAL_CANDIDATE_LIMIT'' = Some raw \<Longrightarrow> parse_unsigned 64 (trim raw) = Some (rc_candidate_limit c)"
    using c raw by (auto simp: retrieval_config_from_env_def Let_def rbind_Inr_iff env_or_Ok_iff [of _ _ "''RETRIEVAL_CANDIDATE_LIMIT''"])
  show "env ''RETRIEVAL_MAX_RESULTS'' = Some raw \<Longrightarrow> parse_unsigned 64 (trim raw) = Some (rc_max_results c)"
    using c raw by (auto simp: retrieval_config_from_env_def Let_def rbind_Inr_iff env_or_Ok_iff [of _ _ "''RETRIEVAL_MAX_RESULTS''"])
  show "env ''RETRIEVAL_RELEVANCE_THRESHOLD'' = Some raw \<Longrightarrow> parse_f32 (trim raw) = Some (rc_relevance_threshold c)"
    using c raw by (auto simp: retrieval_config_from_env_def Let_def rbind_Inr_iff env_or_Ok_iff [of _ _ "''RETRIEVAL_RELEVANCE_THRESHOLD''"])
  show "env ''RETRIEVAL_LAMBDA'' = Some raw \<Longrightarrow> parse_f32 (trim raw) = Some (sw_lambda (rc_scoring_weights c))"
    using c raw by (auto simp: retrieval_config_from_env_def weights_from_env_def Let_def rbind_Inr_iff env_or_Ok_iff [of _ _ "''RETRIEVAL_LAMBDA''"])
  show "env ''RETRIEVAL_COMMUNITY_BOOST_MODE'' = Some raw \<Longrightarrow> parse_boost_mode (trim raw) = Some (rc_community_boost_mode c)"
    using c raw by (auto simp: retrieval_config_from_env_def Let_def rbind_Inr_iff env_or_Ok_iff [of _ _ "''RETRIEVAL_COMMUNITY_BOOST_MODE''"])
qed

text \<open>One variable set.\<close>

theorem retrieval_config_from_env_loud_witness:
  "\<exists>c. retrieval_config_from_env (\<lambda>v. if v = ''RETRIEVAL_MAX_RESULTS'' then Some ''5'' else None) = Ok c \<and>
       rc_max_results c = 5 \<and> rc_scope_timeout_ms c = 400"
proof -
  let ?env = "\<lambda>v. if v = ''RETRIEVAL_MAX_RESULTS'' then Some ''5'' else None"
  have t: "trim ''5'' = ''5''" by (simp add: trim_no_ws is_ws_def)
  have five: "parse_unsigned 64 (trim ''5'') = Some 5" "trim ''5'' \<noteq> []"
    by (simp_all add: t parse_unsigned_def digits_val_def is_digit_def)
  obtain c where c: "retrieval_config_from_env ?env = Ok c"
    by (simp add: retrieval_config_from_env_def weights_from_env_def env_or_def five)
  have "parse_unsigned 64 (trim ''5'') = Some (rc_max_results c) \<and> rc_scope_timeout_ms c = 400"
    using retrieval_config_from_env_loud [of ?env] c five by (simp add: blank_def)
  with c five show ?thesis by simp
qed

end
