(* ===== verification/Retrieval.thy ===== *)
theory Retrieval
  imports Config_Env
begin

text \<open>
  The retrieval orchestrator (\<open>retrieval/src/orchestrator.rs\<close>): the swappable read model, the
  circuit breaker around the embedding call and the request path \<open>retrieve\<close>.  A request meets the
  outside world through its \<open>request\_env\<close>: the clock, the answer of the embedding provider, the
  fates of the search tasks and the iteration order of the hash map.  The breaker is threaded
  through as state; concurrent requests interleave only at its three atomic operations.
\<close>

section \<open>State and outcome\<close>

record dual_scope_resolver =
  dsr_project :: "string option \<Rightarrow> (domain_error, scope_descriptor list) result"
  dsr_global :: "string option \<Rightarrow> (domain_error, scope_descriptor list) result"

record orchestrator =
  or_current :: graph_snapshot
  or_config :: retrieval_config
  or_scope_resolver :: "dual_scope_resolver option"
  or_embedding_breaker :: circuit_breaker

record retrieved_subunit =
  rsu_kind :: subunit_type
  rsu_title :: string
  rsu_content :: string
  rsu_relevance :: f32

record retrieved_skill =
  rsk_scored_skill :: scored_skill
  rsk_highlights :: "retrieved_subunit list"

record rescue_cue =
  rq_source_skill :: string
  rq_title :: string
  rq_content :: string
  rq_relevance :: f32

record retrieval_outcome =
  ro_skills :: "retrieved_skill list"
  ro_rescue_pool :: "rescue_cue list"
  ro_degraded_scopes :: "string list"
  ro_reason_codes :: "string list"
  ro_health :: "(string \<times> string) list"
  ro_scopes_considered :: "string list"
  ro_graph_version :: int
  ro_latency_ms :: nat

definition is_degraded :: "retrieval_outcome \<Rightarrow> bool" where
  "is_degraded r \<longleftrightarrow> ro_degraded_scopes r \<noteq> []"

definition orchestrator_new :: "retrieval_snapshot \<Rightarrow> retrieval_config \<Rightarrow> circuit_breaker \<Rightarrow> orchestrator" where
  "orchestrator_new graph config breaker_from_env =
     \<lparr>or_current = graph_snapshot_new graph, or_config = config, or_scope_resolver = None,
      or_embedding_breaker = breaker_from_env\<rparr>"

definition new_dual_scope ::
  "retrieval_snapshot \<Rightarrow> retrieval_config \<Rightarrow> dual_scope_resolver \<Rightarrow> circuit_breaker \<Rightarrow> orchestrator" where
  "new_dual_scope graph config resolver breaker =
     \<lparr>or_current = graph_snapshot_new graph, or_config = config, or_scope_resolver = Some resolver,
      or_embedding_breaker = breaker\<rparr>"

definition new_with_breaker :: "retrieval_snapshot \<Rightarrow> retrieval_config \<Rightarrow> circuit_breaker \<Rightarrow> orchestrator" where
  "new_with_breaker graph config breaker =
     \<lparr>or_current = graph_snapshot_new graph, or_config = config, or_scope_resolver = None,
      or_embedding_breaker = breaker\<rparr>"

section \<open>The swappable read model\<close>

definition swap_graph :: "retrieval_snapshot \<Rightarrow> orchestrator \<Rightarrow> bool \<times> orchestrator" where
  "swap_graph snapshot orch =
     (let incoming = rsn_graph_version snapshot; new_snap = graph_snapshot_new snapshot;
          prev = or_current orch
      in (gs_version prev < incoming,
          orch\<lparr>or_current := (if gs_version prev < incoming then new_snap else prev)\<rparr>))"

definition current_graph_version :: "orchestrator \<Rightarrow> int" where
  "current_graph_version orch = gs_version (or_current orch)"

definition configured_scopes :: "orchestrator \<Rightarrow> string list" where
  "configured_scopes orch =
     (case or_scope_resolver orch of
        Some _ \<Rightarrow> configured_scope_ids
      | None \<Rightarrow> [rc_scope_id (or_config orch)])"

section \<open>Health markers and reasons\<close>

definition healthy_markers :: "(string \<times> string) list" where
  "healthy_markers = [(''filesystem_index'', ''ok''), (''ollama'', ''ok''), (''skill_snapshot_sync'', ''ok'')]"

definition degraded_marker :: "string \<Rightarrow> (string \<times> string) list" where
  "degraded_marker reason =
     [(''filesystem_index'', ''ok''), (''ollama'', ''degraded''), (''reason'', reason),
      (''skill_snapshot_sync'', ''ok'')]"

definition reason_embedding_circuit_open :: string where
  "reason_embedding_circuit_open = ''embedding_circuit_open''"

fun map_embedding_error_to_reason :: "embedding_error \<Rightarrow> string" where
  "map_embedding_error_to_reason (EmbProviderUnavailable _) = ''embedding_provider_unavailable''"
| "map_embedding_error_to_reason (EmbTimeout _) = ''embedding_timeout''"
| "map_embedding_error_to_reason (EmbInvalidInput _) = ''embedding_invalid_input''"
| "map_embedding_error_to_reason (EmbUnexpected _) = ''embedding_unexpected''"

definition first_reason :: "string list \<Rightarrow> string" where
  "first_reason codes = (case codes of [] \<Rightarrow> ''retrieval_degraded'' | r # _ \<Rightarrow> r)"

definition build_degraded_outcome ::
  "int \<Rightarrow> string list \<Rightarrow> string list \<Rightarrow> string list \<Rightarrow> nat \<Rightarrow> retrieval_outcome" where
  "build_degraded_outcome graph_version degraded_scopes reason_codes scopes_considered latency =
     (let d = dedupe degraded_scopes; r = dedupe reason_codes
      in \<lparr>ro_skills = [], ro_rescue_pool = [],
          ro_degraded_scopes = (if d = [] then scopes_considered else d),
          ro_reason_codes = r, ro_health = degraded_marker (first_reason r),
          ro_scopes_considered = scopes_considered, ro_graph_version = graph_version,
          ro_latency_ms = latency\<rparr>)"

section \<open>Scopes of a request\<close>

definition resolve_scopes ::
  "orchestrator \<Rightarrow> string option \<Rightarrow> scope_descriptor list \<times> string list \<times> string list \<times> string list" where
  "resolve_scopes orch repo_path =
     (case or_scope_resolver orch of
        Some resolver \<Rightarrow>
          (let o' = dual_scope_resolve (dsr_project resolver repo_path) (dsr_global resolver None)
           in (resolved_scopes o', scopes_considered_of o', sro_degraded_scopes o', sro_reason_codes o'))
      | None \<Rightarrow>
          ([\<lparr>sd_scope_id = rc_scope_id (or_config orch), sd_scope_type = rc_scope_type (or_config orch),
             sd_paths = [], sd_config = [(''resolver'', ''static'')]\<rparr>],
           [rc_scope_id (or_config orch)], [], []))"

fun scope_weight :: "retrieval_config \<Rightarrow> scope_type \<Rightarrow> f32" where
  "scope_weight config Project = rc_project_scope_weight config"
| "scope_weight config Global = rc_global_scope_weight config"
| "scope_weight config Team = rc_global_scope_weight config"

section \<open>Assembling the answer\<close>

definition retrieved_subunit_of :: "subunit_projection \<Rightarrow> retrieved_subunit" where
  "retrieved_subunit_of p =
     \<lparr>rsu_kind = su_kind (sp_subunit p), rsu_title = su_title (sp_subunit p),
      rsu_content = su_content (sp_subunit p), rsu_relevance = sp_relevance p\<rparr>"

definition retrieved_skill_of :: "retrieval_snapshot \<Rightarrow> fused_candidate \<Rightarrow> retrieved_skill option" where
  "retrieved_skill_of graph c =
     (case nth_opt (rsn_skills graph) (fc_skill_index c) of
        None \<Rightarrow> None
      | Some seeded \<Rightarrow> Some
          \<lparr>rsk_scored_skill =
             \<lparr>ss_skill = seed_skill seeded, ss_score = fc_score c,
              ss_matched_scope = fc_matched_scope c,
              ss_rationale = [''rrf='' @ fmt_fixed 6 (fc_score c),
                ''semantic='' @ fmt_fixed 3 (fc_semantic_score c),
                ''subunit_evidence='' @ fmt_fixed 3 (fc_subunit_evidence c),
                ''lexical='' @ fmt_fixed 3 (fc_lexical_score c)]\<rparr>,
           rsk_highlights = map retrieved_subunit_of
             (filter (\<lambda>p. flt (lit 0) (sp_relevance p)) (fc_highlights c))\<rparr>)"

definition rescue_cues_of :: "retrieval_config \<Rightarrow> retrieval_snapshot \<Rightarrow> fused_candidate \<Rightarrow> rescue_cue list" where
  "rescue_cues_of config graph c =
     (let skill_name = (case nth_opt (rsn_skills graph) (fc_skill_index c) of
                          None \<Rightarrow> ''unknown-skill'' | Some seeded \<Rightarrow> sk_name (seed_skill seeded))
      in map (\<lambda>p. \<lparr>rq_source_skill = skill_name, rq_title = su_title (sp_subunit p),
                   rq_content = su_content (sp_subunit p), rq_relevance = sp_relevance p\<rparr>)
           (filter (\<lambda>p. fle (rc_rescue_threshold config) (sp_relevance p)) (fc_highlights c)))"

text \<open>From the results of the scopes to the outcome.\<close>

definition fuse_scope_results ::
  "(aggregates \<Rightarrow> aggregates) \<Rightarrow> retrieval_config \<Rightarrow> scoped_search_result list \<Rightarrow> fused_candidate list" where
  "fuse_scope_results hash_order config scope_results =
     (let rankings = map (\<lambda>r. \<lparr>sr_scope_id = sres_scope_id r,
                               sr_weight = scope_weight config (sres_scope_type r),
                               sr_candidates = sres_candidates r\<rparr>) scope_results;
          fusion_limit = max (sum_list (map (\<lambda>r. length (sr_candidates r)) rankings)) (rc_max_results config)
      in weighted_reciprocal_rank_fusion hash_order rankings (rc_rrf_k config) fusion_limit)"

definition build_outcome ::
  "retrieval_config \<Rightarrow> retrieval_snapshot \<Rightarrow> int \<Rightarrow> fused_candidate list \<Rightarrow>
     string list \<Rightarrow> string list \<Rightarrow> string list \<Rightarrow> nat \<Rightarrow> retrieval_outcome" where
  "build_outcome config graph graph_version ranked degraded_scopes reason_codes scopes_considered latency =
     (let selected = take (rc_max_results config) ranked;
          selected_ids = set (map fc_skill_id selected);
          d = dedupe degraded_scopes; r = dedupe reason_codes
      in \<lparr>ro_skills = List.map_filter (retrieved_skill_of graph) selected,
          ro_rescue_pool = concat (map (rescue_cues_of config graph)
            (filter (\<lambda>c. fc_skill_id c \<notin> selected_ids) ranked)),
          ro_degraded_scopes = d, ro_reason_codes = r,
          ro_health = (if d = [] then healthy_markers else degraded_marker (first_reason r)),
          ro_scopes_considered = scopes_considered, ro_graph_version = graph_version,
          ro_latency_ms = latency\<rparr>)"

section \<open>The request path\<close>

record request_env =
  rv_allow_at :: nat
  rv_record_at :: nat
  rv_embed :: "string \<Rightarrow> (embedding_error, f32 list) result"
  rv_fates :: "nat \<Rightarrow> task_fate"
  rv_joins :: "nat \<Rightarrow> bool"
  rv_hash_order :: "aggregates \<Rightarrow> aggregates"
  rv_latency :: nat

text \<open>The embedding behind the breaker: the answer and the breaker afterwards.\<close>

definition guarded_embedding ::
  "request_env \<Rightarrow> string \<Rightarrow> circuit_breaker \<Rightarrow> (string, f32 list) result \<times> circuit_breaker" where
  "guarded_embedding env prompt breaker =
     (let (allowed, breaker') = allow_request (rv_allow_at env) breaker in
      if \<not> allowed then (Err reason_embedding_circuit_open, breaker')
      else (case rv_embed env prompt of
              Inr embedding \<Rightarrow> (Ok embedding, record_success breaker')
            | Inl e \<Rightarrow> (Err (map_embedding_error_to_reason e), record_failure (rv_record_at env) breaker')))"

definition retrieve ::
  "request_env \<Rightarrow> string \<Rightarrow> string option \<Rightarrow> orchestrator \<Rightarrow> retrieval_outcome \<times> orchestrator" where
  "retrieve env prompt repo_path orch =
     (let graph = gs_graph (or_current orch); graph_version = gs_version (or_current orch);
          config = or_config orch; latency = rv_latency env;
          (scopes, considered, degraded, reasons) = resolve_scopes orch repo_path
      in if scopes = [] then
           (build_degraded_outcome graph_version degraded reasons considered latency, orch)
         else
           (case guarded_embedding env prompt (or_embedding_breaker orch) of
              (Inl reason, breaker') \<Rightarrow>
                (build_degraded_outcome graph_version considered (reasons @ [reason]) considered latency,
                 orch\<lparr>or_embedding_breaker := breaker'\<rparr>)
            | (Inr embedding, breaker') \<Rightarrow>
                (let (results, failures) =
                       search_scopes_concurrently prompt embedding graph config scopes
                         (rv_fates env) (rv_joins env);
                     degraded' = degraded @ map sfail_scope_id failures;
                     reasons' = reasons @ map sfail_reason_code failures
                 in (if results = []
                     then build_degraded_outcome graph_version degraded' reasons' considered latency
                     else build_outcome config graph graph_version
                            (fuse_scope_results (rv_hash_order env) config results)
                            degraded' reasons' considered latency,
                     orch\<lparr>or_embedding_breaker := breaker'\<rparr>))))"

section \<open>Lemmas on the outcome\<close>

lemma healthy_not_degraded: "healthy_markers \<noteq> degraded_marker r"
  by (simp add: healthy_markers_def degraded_marker_def)

lemma considered_nonempty:
  "resolve_scopes orch repo = (scopes, considered, degraded, reasons) \<Longrightarrow> considered \<noteq> []"
  by (auto simp: resolve_scopes_def scopes_considered_of_def configured_scope_ids_def
      dual_scope_resolve_def Let_def split: option.splits prod.splits if_splits)

lemma resolved_degraded:
  "resolve_scopes orch repo = (scopes, considered, degraded, reasons) \<Longrightarrow>
     (degraded = [] \<longleftrightarrow> reasons = []) \<and> (scopes = [] \<longrightarrow> degraded \<noteq> [])"
  by (auto simp: resolve_scopes_def dual_scope_resolve_def resolve_one_offered resolved_scopes_def
      Let_def split: option.splits prod.splits sum.splits)

lemma build_degraded_outcome_simps [simp]:
  "ro_skills (build_degraded_outcome v d r s l) = []"
  "ro_rescue_pool (build_degraded_outcome v d r s l) = []"
  "ro_graph_version (build_degraded_outcome v d r s l) = v"
  "ro_scopes_considered (build_degraded_outcome v d r s l) = s"
  "ro_reason_codes (build_degraded_outcome v d r s l) = dedupe r"
  "ro_health (build_degraded_outcome v d r s l) = degraded_marker (first_reason (dedupe r))"
  "ro_degraded_scopes (build_degraded_outcome v d r s l) = (if d = [] then s else dedupe d)"
  by (simp_all add: build_degraded_outcome_def Let_def)

lemma build_outcome_simps [simp]:
  "ro_graph_version (build_outcome c g v ranked d r s l) = v"
  "ro_scopes_considered (build_outcome c g v ranked d r s l) = s"
  "ro_reason_codes (build_outcome c g v ranked d r s l) = dedupe r"
  "ro_degraded_scopes (build_outcome c g v ranked d r s l) = dedupe d"
  "ro_health (build_outcome c g v ranked d r s l) =
     (if d = [] then healthy_markers else degraded_marker (first_reason (dedupe r)))"
  by (simp_all add: build_outcome_def Let_def)

lemma build_outcome_skills:
  "ro_skills (build_outcome c g v ranked d r s l) =
     List.map_filter (retrieved_skill_of g) (take (rc_max_results c) ranked)"
  "ro_rescue_pool (build_outcome c g v ranked d r s l) =
     concat (map (rescue_cues_of c g)
       (filter (\<lambda>x. fc_skill_id x \<notin> fc_skill_id ` set (take (rc_max_results c) ranked)) ranked))"
  by (simp_all add: build_outcome_def Let_def)

text \<open>The three ways a request ends.\<close>

lemma retrieve_no_scopes:
  assumes "resolve_scopes orch repo = ([], considered, degraded, reasons)"
  shows "retrieve env prompt repo orch =
    (build_degraded_outcome (gs_version (or_current orch)) degraded reasons considered (rv_latency env), orch)"
  using assms by (simp add: retrieve_def Let_def)

lemma retrieve_blocked:
  assumes "resolve_scopes orch repo = (scopes, considered, degraded, reasons)" and "scopes \<noteq> []"
    and "guarded_embedding env prompt (or_embedding_breaker orch) = (Inl reason, b)"
  shows "retrieve env prompt repo orch =
    (build_degraded_outcome (gs_version (or_current orch)) considered (reasons @ [reason]) considered
       (rv_latency env), orch\<lparr>or_embedding_breaker := b\<rparr>)"
  using assms by (simp add: retrieve_def Let_def)

lemma retrieve_searched:
  assumes "resolve_scopes orch repo = (scopes, considered, degraded, reasons)" and "scopes \<noteq> []"
    and "guarded_embedding env prompt (or_embedding_breaker orch) = (Inr pe, b)"
    and "search_scopes_concurrently prompt pe (gs_graph (or_current orch)) (or_config orch) scopes
           (rv_fates env) (rv_joins env) = (results, failures)"
  shows "retrieve env prompt repo orch =
    ((if results = []
      then build_degraded_outcome (gs_version (or_current orch)) (degraded @ map sfail_scope_id failures)
             (reasons @ map sfail_reason_code failures) considered (rv_latency env)
      else build_outcome (or_config orch) (gs_graph (or_current orch)) (gs_version (or_current orch))
             (fuse_scope_results (rv_hash_order env) (or_config orch) results)
             (degraded @ map sfail_scope_id failures) (reasons @ map sfail_reason_code failures)
             considered (rv_latency env)),
     orch\<lparr>or_embedding_breaker := b\<rparr>)"
  using assms by (simp add: retrieve_def Let_def)

lemma guarded_embedding_rejected:
  "\<not> fst (allow_request (rv_allow_at env) b) \<Longrightarrow>
     guarded_embedding env prompt b = (Inl reason_embedding_circuit_open, snd (allow_request (rv_allow_at env) b))"
  by (simp add: guarded_embedding_def case_prod_unfold)

lemma allow_rejected_unchanged: "\<not> fst (allow_request now b) \<Longrightarrow> snd (allow_request now b) = b"
  by (auto simp: allow_request_def split: circuit_state.splits if_splits)

lemma retrieve_keeps:
  "or_current (snd (retrieve env prompt repo orch)) = or_current orch"
  "or_config (snd (retrieve env prompt repo orch)) = or_config orch"
  "or_scope_resolver (snd (retrieve env prompt repo orch)) = or_scope_resolver orch"
  by (auto simp: retrieve_def Let_def split: prod.splits sum.splits)

text \<open>Where a fused candidate comes from.\<close>

lemma fused_result_origin:
  assumes "\<forall>as. mset (hash_order as) = mset as"
    and "c \<in> set (fuse_scope_results hash_order config results)"
  shows "\<exists>r \<in> set results. \<exists>c' \<in> set (sres_candidates r). c = c'\<lparr>fc_score := fc_score c\<rparr>"
proof -
  let ?rs = "map (\<lambda>r. \<lparr>sr_scope_id = sres_scope_id r, sr_weight = scope_weight config (sres_scope_type r),
                       sr_candidates = sres_candidates r\<rparr>) results"
  obtain n where c: "c \<in> set (weighted_reciprocal_rank_fusion hash_order ?rs (rc_rrf_k config) n)"
    using assms(2) by (auto simp: fuse_scope_results_def Let_def)
  then have "c \<in> set (finalize_aggregates hash_order (rrf_table ?rs (effective_rrf_k (rc_rrf_k config))))"
    by (auto simp: wrrf_eq split: if_splits dest: in_set_takeD)
  from finalize_mem [OF assms(1) this] obtain a :: aggregate and r :: scope_ranking where
    "c = (ag_representative a)\<lparr>fc_score := ag_rrf_score a\<rparr>" "r \<in> set ?rs"
    "ag_representative a \<in> set (sr_candidates r)" by blast
  then show ?thesis by force
qed

lemma retrieved_skill_of_SomeD:
  "retrieved_skill_of graph c = Some k \<Longrightarrow>
     fc_skill_index c < length (rsn_skills graph) \<and>
     ss_skill (rsk_scored_skill k) = seed_skill (rsn_skills graph ! fc_skill_index c) \<and>
     ss_score (rsk_scored_skill k) = fc_score c \<and>
     ss_matched_scope (rsk_scored_skill k) = fc_matched_scope c \<and>
     rsk_highlights k = map retrieved_subunit_of (filter (\<lambda>p. flt (lit 0) (sp_relevance p)) (fc_highlights c))"
  by (auto simp: retrieved_skill_of_def nth_opt_Some_iff split: option.splits)

text \<open>A returned skill, traced back to the search of one resolved scope.\<close>

definition skill_traced ::
  "request_env \<Rightarrow> string \<Rightarrow> string option \<Rightarrow> orchestrator \<Rightarrow> retrieved_skill \<Rightarrow> bool" where
  "skill_traced env prompt repo orch k \<longleftrightarrow>
     (\<exists>pe. rv_embed env prompt = Inr pe \<and>
     (\<exists>scope \<in> set (fst (resolve_scopes orch repo)).
      \<exists>c \<in> set (sres_candidates (perform_scope_search prompt pe (gs_graph (or_current orch)) (or_config orch) scope)).
        candidate_of_scope (gs_graph (or_current orch)) (or_config orch) scope c \<and>
        ss_skill (rsk_scored_skill k) =
          seed_skill (rsn_skills (gs_graph (or_current orch)) ! fc_skill_index c) \<and>
        ss_matched_scope (rsk_scored_skill k) = sd_scope_type scope))"

lemma retrieve_skill_traced:
  assumes "\<forall>as. mset (rv_hash_order env as) = mset as"
    and "k \<in> set (ro_skills (fst (retrieve env prompt repo orch)))"
  shows "skill_traced env prompt repo orch k"
proof -
  obtain scopes considered degraded reasons where
    res: "resolve_scopes orch repo = (scopes, considered, degraded, reasons)"
    by (metis prod.exhaust)
  have ne: "scopes \<noteq> []"
  proof
    assume "scopes = []"
    with retrieve_no_scopes [of orch repo considered degraded reasons env prompt] res assms(2)
    show False by simp
  qed
  obtain answer b where ge: "guarded_embedding env prompt (or_embedding_breaker orch) = (answer, b)"
    by fastforce
  obtain pe where pe: "answer = Inr pe"
    using assms(2) retrieve_blocked [OF res ne] ge by (cases answer) auto
  then have emb: "rv_embed env prompt = Inr pe"
    using ge by (auto simp: guarded_embedding_def split: prod.splits if_splits sum.splits)
  obtain results failures where
    srch: "search_scopes_concurrently prompt pe (gs_graph (or_current orch)) (or_config orch) scopes
             (rv_fates env) (rv_joins env) = (results, failures)" by fastforce
  note ret = retrieve_searched [OF res ne ge [unfolded pe] srch]
  have "results \<noteq> []" using assms(2) ret by auto
  with assms(2) ret have
    "k \<in> set (List.map_filter (retrieved_skill_of (gs_graph (or_current orch)))
       (take (rc_max_results (or_config orch)) (fuse_scope_results (rv_hash_order env) (or_config orch) results)))"
    by (simp add: build_outcome_skills)
  then obtain c where c: "c \<in> set (fuse_scope_results (rv_hash_order env) (or_config orch) results)"
    and k: "retrieved_skill_of (gs_graph (or_current orch)) c = Some k"
    by (auto simp: map_filter_Some_set dest: in_set_takeD)
  from fused_result_origin [OF assms(1) c] obtain r c' where
    r: "r \<in> set results" "c' \<in> set (sres_candidates r)" "c = c'\<lparr>fc_score := fc_score c\<rparr>" by blast
  from r(1) srch search_scopes_resultD [of r prompt pe] obtain i where
    i: "i < length scopes"
       "r = perform_scope_search prompt pe (gs_graph (or_current orch)) (or_config orch) (scopes ! i)"
    by (metis fst_conv)
  have cand: "candidate_of_scope (gs_graph (or_current orch)) (or_config orch) (scopes ! i) c'"
    using r(2) i(2) by (auto intro: perform_scope_search_candidate)
  have idx: "fc_skill_index c = fc_skill_index c'" "fc_matched_scope c = fc_matched_scope c'"
    using arg_cong [OF r(3), of fc_skill_index] arg_cong [OF r(3), of fc_matched_scope] by simp_all
  with retrieved_skill_of_SomeD [OF k] have
    "ss_skill (rsk_scored_skill k) = seed_skill (rsn_skills (gs_graph (or_current orch)) ! fc_skill_index c')"
    "ss_matched_scope (rsk_scored_skill k) = sd_scope_type (scopes ! i)"
    using cand by (auto simp: candidate_of_scope_def)
  with emb i cand r(2) res show ?thesis
    unfolding skill_traced_def
    by (intro exI [of _ pe] conjI bexI [of _ "scopes ! i"] bexI [of _ c']) auto
qed

lemma length_retrieve_skills:
  "length (ro_skills (fst (retrieve env prompt repo orch))) \<le> rc_max_results (or_config orch)"
proof -
  have "length (List.map_filter f (take n xs)) \<le> n" for f :: "fused_candidate \<Rightarrow> retrieved_skill option" and n xs
    by (rule order_trans [OF length_map_filter_le]) simp
  then show ?thesis
    by (auto simp: retrieve_def Let_def build_outcome_skills split: prod.splits sum.splits)
qed

section \<open>Lemmas on the breaker along requests\<close>

text \<open>Requests served one after the other.\<close>

fun run_requests :: "request_env list \<Rightarrow> string \<Rightarrow> string option \<Rightarrow> orchestrator \<Rightarrow> orchestrator" where
  "run_requests [] prompt repo orch = orch"
| "run_requests (e # es) prompt repo orch = run_requests es prompt repo (snd (retrieve e prompt repo orch))"

lemma run_requests_keeps:
  "or_scope_resolver (run_requests es prompt repo orch) = or_scope_resolver orch \<and>
   or_config (run_requests es prompt repo orch) = or_config orch"
  by (induction es arbitrary: orch) (simp_all add: retrieve_keeps)

lemma resolve_scopes_cong:
  "or_scope_resolver orch' = or_scope_resolver orch \<Longrightarrow> or_config orch' = or_config orch \<Longrightarrow>
     resolve_scopes orch' repo = resolve_scopes orch repo"
  by (cases "or_scope_resolver orch") (simp_all add: resolve_scopes_def)

lemma retrieve_failing_closed:
  assumes "fst (resolve_scopes orch repo) \<noteq> []" and "rv_embed env prompt = Inl err"
    and "cd_state (or_embedding_breaker orch) = Closed"
  shows "or_embedding_breaker (snd (retrieve env prompt repo orch)) =
           record_failure (rv_record_at env) (or_embedding_breaker orch)"
proof -
  obtain scopes considered degraded reasons where
    "resolve_scopes orch repo = (scopes, considered, degraded, reasons)" by (metis prod.exhaust)
  with assms show ?thesis
    by (simp add: retrieve_def Let_def guarded_embedding_def allow_request_def)
qed

lemma run_failing_requests:
  assumes "fst (resolve_scopes orch repo) \<noteq> []" and "\<forall>e \<in> set es. \<exists>err. rv_embed e prompt = Inl err"
    and "cd_state (or_embedding_breaker orch) = Closed"
    and "unat (cd_failures (or_embedding_breaker orch)) + length es
           \<le> unat (cb_threshold (or_embedding_breaker orch))"
  shows "or_embedding_breaker (run_requests es prompt repo orch) =
           record_failures (map rv_record_at es) (or_embedding_breaker orch)"
  using assms
proof (induction es arbitrary: orch)
  case (Cons e es)
  let ?o = "snd (retrieve e prompt repo orch)" and ?b = "or_embedding_breaker orch"
  obtain err where "rv_embed e prompt = Inl err" using Cons.prems(2) by auto
  then have b: "or_embedding_breaker ?o = record_failure (rv_record_at e) ?b"
    using retrieve_failing_closed Cons.prems(1,3) by blast
  show ?case
  proof (cases "es = []")
    case False
    have "unat (cb_threshold ?b) < 2 ^ 32" using unsigned_less [of "cb_threshold ?b"] by simp
    then have "unat (cd_failures (record_failure (rv_record_at e) ?b)) = unat (cd_failures ?b) + 1"
      using Cons.prems(4) record_failures_count [of ?b "[rv_record_at e]"] by simp
    moreover have "cd_state (record_failure (rv_record_at e) ?b) = Closed"
      using False Cons.prems(3,4) by (intro record_failure_closed) (cases es; simp)+
    moreover have "fst (resolve_scopes ?o repo) \<noteq> []"
      using Cons.prems(1) resolve_scopes_cong [of ?o orch] by (simp add: retrieve_keeps)
    moreover have "cb_threshold (record_failure (rv_record_at e) ?b) = cb_threshold ?b"
      by (simp add: record_failure_def Let_def)
    ultimately show ?thesis using Cons.IH [of ?o] Cons.prems b by simp
  qed (simp add: b)
qed simp

lemma record_failures_trip:
  assumes "unat (cd_failures b) + length ts = unat (cb_threshold b)" and "ts \<noteq> []"
  shows "cd_state (record_failures ts b) = Open \<and> cd_opened_at (record_failures ts b) = Some (last ts)"
proof -
  obtain us t where ts: "ts = us @ [t]" using assms(2) by (metis append_butlast_last_id)
  have "unat (cb_threshold b) < 2 ^ 32" using unsigned_less [of "cb_threshold b"] by simp
  then have "unat (cd_failures (record_failures ts b)) = unat (cb_threshold b)"
    using assms(1) record_failures_count [of b ts] by simp
  then show ?thesis
    unfolding ts record_failures_append
    using record_failures_threshold [of us b]
    by (simp add: record_failure_def Let_def word_le_nat_alt split: if_splits)
qed

section \<open>Lemmas on swaps\<close>

definition swap_inv :: "retrieval_snapshot set \<Rightarrow> orchestrator \<Rightarrow> bool" where
  "swap_inv pool orch \<longleftrightarrow>
     current_graph_version orch = Max (rsn_graph_version ` pool) \<and>
     gs_version (or_current orch) = rsn_graph_version (gs_graph (or_current orch)) \<and>
     gs_graph (or_current orch) \<in> pool"

lemma swap_inv_step:
  assumes "swap_inv (set gs) orch"
  shows "swap_inv (insert s (set gs)) (snd (swap_graph s orch))"
proof -
  have "rsn_graph_version ` set gs \<noteq> {}" using assms by (auto simp: swap_inv_def)
  then have "Max (rsn_graph_version ` insert s (set gs)) =
      max (rsn_graph_version s) (Max (rsn_graph_version ` set gs))" by simp
  then show ?thesis
    using assms unfolding swap_inv_def swap_graph_def Let_def current_graph_version_def
    by (simp add: graph_snapshot_new_def max_def)
qed

section \<open>Properties\<close>

text \<open>swapping the read model is monotone and never torn.  After any sequence of swaps the
  served version is the greatest one offered, the version beside the graph is that graph's own,
  and one more swap reports success exactly when it brings a strictly newer version.\<close>

theorem swap_graph_monotone:
  fixes graph config resolver breaker snapshots
  defines "orch \<equiv> foldl (\<lambda>o' s. snd (swap_graph s o')) (new_dual_scope graph config resolver breaker) snapshots"
  shows "current_graph_version orch = Max (rsn_graph_version ` set (graph # snapshots)) \<and>
    gs_version (or_current orch) = rsn_graph_version (gs_graph (or_current orch)) \<and>
    gs_graph (or_current orch) \<in> set (graph # snapshots) \<and>
    fst (swap_graph s orch) = (current_graph_version orch < rsn_graph_version s) \<and>
    current_graph_version orch \<le> current_graph_version (snd (swap_graph s orch))"
proof -
  have "swap_inv (set (graph # snapshots)) orch"
    unfolding orch_def
  proof (induction snapshots rule: rev_induct)
    case (snoc s ss)
    from swap_inv_step [OF this, of s] show ?case by (simp add: insert_commute)
  qed (simp add: swap_inv_def new_dual_scope_def graph_snapshot_new_def current_graph_version_def)
  then show ?thesis
    by (auto simp: swap_inv_def swap_graph_def Let_def current_graph_version_def graph_snapshot_new_def)
qed

text \<open>C1: retrieval returns only real, in-scope, relevant skills. At most the configured number of skills is returned, and each is the skill of the read model that the search of one resolved scope found for this prompt's embedding, in that scope and at or above the relevance floor; the outcome carries the version of the read model it was computed on.\<close>

theorem retrieve_returns_scoped_matches:
  assumes "\<forall>as. mset (rv_hash_order env as) = mset as"
  shows "length (ro_skills (fst (retrieve env prompt repo orch))) \<le> rc_max_results (or_config orch) \<and>
    (\<forall>k \<in> set (ro_skills (fst (retrieve env prompt repo orch))). skill_traced env prompt repo orch k) \<and>
    ro_graph_version (fst (retrieve env prompt repo orch)) = current_graph_version orch"
proof (intro conjI ballI)
  show "ro_graph_version (fst (retrieve env prompt repo orch)) = current_graph_version orch"
    by (auto simp: retrieve_def Let_def current_graph_version_def split: prod.splits sum.splits)
qed (use assms length_retrieve_skills retrieve_skill_traced in auto)

definition sample_env :: "(embedding_error, f32 list) result \<Rightarrow> request_env" where
  "sample_env answer = \<lparr>rv_allow_at = 100, rv_record_at = 110, rv_embed = (\<lambda>_. answer),
     rv_fates = (\<lambda>_. Completed), rv_joins = (\<lambda>_. True), rv_hash_order = (\<lambda>as. as), rv_latency = 12\<rparr>"

definition sample_orchestrator :: orchestrator where
  "sample_orchestrator = new_with_breaker sample_graph
     (sample_config\<lparr>rc_scope_id := ''global''\<rparr>) (breaker_new 2 30000)"

theorem retrieve_returns_scoped_matches_witness:
  "length (ro_skills (fst (retrieve (sample_env (Ok [])) [] None sample_orchestrator))) \<le> 1 \<and>
   ro_graph_version (fst (retrieve (sample_env (Ok [])) [] None sample_orchestrator)) = 7"
  using retrieve_returns_scoped_matches [of "sample_env (Ok [])" "[]" None sample_orchestrator]
  by (simp add: sample_env_def sample_orchestrator_def new_with_breaker_def sample_config_def
      current_graph_version_def graph_snapshot_new_def sample_graph_def retrieval_snapshot_new_def)

text \<open>C15: degradation is loud. An outcome is degraded exactly when its health says so, a degraded outcome always carries a reason code and its health names the first one, and an outcome that is not degraded carries none.\<close>

theorem retrieve_degradation_is_loud:
  "(is_degraded (fst (retrieve env prompt repo orch)) \<longrightarrow>
      ro_reason_codes (fst (retrieve env prompt repo orch)) \<noteq> [] \<and>
      ro_health (fst (retrieve env prompt repo orch)) =
        degraded_marker (hd (ro_reason_codes (fst (retrieve env prompt repo orch))))) \<and>
   (\<not> is_degraded (fst (retrieve env prompt repo orch)) \<longrightarrow>
      ro_reason_codes (fst (retrieve env prompt repo orch)) = [] \<and>
      ro_health (fst (retrieve env prompt repo orch)) = healthy_markers)"
proof -
  obtain scopes considered degraded reasons where
    res: "resolve_scopes orch repo = (scopes, considered, degraded, reasons)"
    by (metis prod.exhaust)
  have hd: "first_reason rs = hd rs" if "rs \<noteq> []" for rs :: "string list"
    using that by (cases rs) (auto simp: first_reason_def)
  note cn = considered_nonempty [OF res] resolved_degraded [OF res]
  show ?thesis
  proof (cases "scopes = []")
    case True
    with cn have "reasons \<noteq> []" "degraded \<noteq> []" by auto
    then show ?thesis
      by (simp add: retrieve_no_scopes [OF res [unfolded True]] is_degraded_def hd)
  next
    case ne: False
    obtain answer b where ge: "guarded_embedding env prompt (or_embedding_breaker orch) = (answer, b)"
      by fastforce
    show ?thesis
    proof (cases answer)
      case (Inl reason)
      show ?thesis
        using cn by (simp add: retrieve_blocked [OF res ne ge [unfolded Inl]] is_degraded_def hd)
    next
      case (Inr pe)
      obtain results failures where
        srch: "search_scopes_concurrently prompt pe (gs_graph (or_current orch)) (or_config orch) scopes
                 (rv_fates env) (rv_joins env) = (results, failures)" by fastforce
      have "length results + length failures = length scopes"
        using search_scopes_counts [of prompt pe "gs_graph (or_current orch)" "or_config orch" scopes
            "rv_fates env" "rv_joins env"] srch by simp
      then have "results = [] \<longrightarrow> failures \<noteq> []" using ne by auto
      with cn show ?thesis
        by (auto simp: retrieve_searched [OF res ne ge [unfolded Inr] srch] is_degraded_def hd)
    qed
  qed
qed

text \<open>A provider time-out: the outcome is degraded and says why.\<close>

theorem retrieve_degradation_is_loud_witness:
  "ro_health (fst (retrieve (sample_env (Err (EmbTimeout 500))) [] None sample_orchestrator)) =
     degraded_marker (hd (ro_reason_codes (fst (retrieve (sample_env (Err (EmbTimeout 500))) [] None sample_orchestrator))))"
proof -
  have "is_degraded (fst (retrieve (sample_env (Err (EmbTimeout 500))) [] None sample_orchestrator))"
    by (simp add: is_degraded_def retrieve_def resolve_scopes_def sample_orchestrator_def new_with_breaker_def
        sample_env_def guarded_embedding_def allow_request_def breaker_new_def Let_def)
  then show ?thesis using retrieve_degradation_is_loud by blast
qed

text \<open>the breaker protects the request path.  Starting from a fresh breaker with threshold t,
  after t requests in a row whose embedding fails, a request that arrives before the open time has
  passed is answered at once: degraded in every considered scope, with no skills and the reason
  embedding\_circuit\_open, whatever the provider would answer, and the breaker stays as it is.\<close>

theorem breaker_trips_requests:
  assumes "1 \<le> t" and "t < 2 ^ 32" and "or_embedding_breaker orch = breaker_new (of_nat t) d"
    and "fst (resolve_scopes orch repo) \<noteq> []"
    and "length es = t" and "\<forall>e \<in> set es. \<exists>err. rv_embed e prompt = Inl err"
    and "rv_allow_at env - rv_record_at (last es) < d"
  shows "ro_skills (fst (retrieve env prompt repo (run_requests es prompt repo orch))) = [] \<and>
    reason_embedding_circuit_open \<in>
      set (ro_reason_codes (fst (retrieve env prompt repo (run_requests es prompt repo orch)))) \<and>
    set (ro_degraded_scopes (fst (retrieve env prompt repo (run_requests es prompt repo orch)))) =
      set (ro_scopes_considered (fst (retrieve env prompt repo (run_requests es prompt repo orch)))) \<and>
    snd (retrieve env prompt repo (run_requests es prompt repo orch)) = run_requests es prompt repo orch"
proof -
  let ?o = "run_requests es prompt repo orch" and ?b = "breaker_new (of_nat t) d"
  have "unat (of_nat t :: 32 word) = t" using assms(2) by (simp add: unat_of_nat)
  then have thr: "unat (cb_threshold ?b) = t"
    using assms(1) by (simp add: breaker_new_def max_def word_le_nat_alt)
  have b0: "cd_state ?b = Closed" "cd_failures ?b = 0" "cb_open_for ?b = d" by (simp_all add: breaker_new_def)
  have b: "or_embedding_breaker ?o = record_failures (map rv_record_at es) ?b"
    using run_failing_requests [OF assms(4,6)] assms(3,5) thr b0 by simp
  have "es \<noteq> []" using assms(1,5) by auto
  then have "cd_state (or_embedding_breaker ?o) = Open"
    and "cd_opened_at (or_embedding_breaker ?o) = Some (rv_record_at (last es))"
    using record_failures_trip [of ?b "map rv_record_at es"] thr b0 assms(5) b
    by (auto simp: last_map)
  moreover have "cb_open_for (or_embedding_breaker ?o) = d"
    unfolding b using b0(3) by (induction es arbitrary: rule: rev_induct)
      (auto simp: record_failures_append record_failure_def Let_def)
  ultimately have rej: "\<not> fst (allow_request (rv_allow_at env) (or_embedding_breaker ?o))"
    using assms(7) by (simp add: allow_request_def ready_for_half_open_def)
  then have ge: "guarded_embedding env prompt (or_embedding_breaker ?o) =
      (Inl reason_embedding_circuit_open, or_embedding_breaker ?o)"
    using guarded_embedding_rejected allow_rejected_unchanged by metis
  have "fst (resolve_scopes ?o repo) \<noteq> []"
    using assms(4) resolve_scopes_cong [of ?o orch] run_requests_keeps by simp
  then obtain scopes considered degraded reasons where
    res: "resolve_scopes ?o repo = (scopes, considered, degraded, reasons)" "scopes \<noteq> []"
    by (metis fst_conv prod.exhaust)
  show ?thesis
    using considered_nonempty [OF res(1)] by (simp add: retrieve_blocked [OF res ge])
qed

theorem breaker_trips_requests_witness:
  "reason_embedding_circuit_open \<in> set (ro_reason_codes (fst (retrieve (sample_env (Ok [Fin 1])) [] None
     (run_requests [sample_env (Err (EmbTimeout 500)), sample_env (Err (EmbTimeout 500))] [] None
        sample_orchestrator))))"
  by (rule breaker_trips_requests [where t = 2 and d = 30000, THEN conjunct2, THEN conjunct1])
     (simp_all add: sample_orchestrator_def new_with_breaker_def sample_env_def resolve_scopes_def)

end
