(* ===== verification/Compiler_Model.thy ===== *)
theory Compiler_Model
  imports Retrieval
begin

text \<open>
  The template-only context compiler (\<open>crates/compiler/src\<close>): the ranking of rescue cues per skill,
  the deterministic match reason (\<open>rescue.rs\<close>), the markdown (\<open>template.rs\<close>) and the
  \<open>TemplateOnlyCompiler\<close> (\<open>lib.rs\<close>).  The output is the byte string of the markdown.
\<close>

section \<open>Inputs and contexts (rescue.rs)\<close>

record compiler_highlight_input =
  hi_kind :: subunit_type
  hi_title :: string
  hi_content :: string
  hi_relevance :: f32

record compiler_skill_input =
  ci_name :: string
  ci_description :: string
  ci_score :: f32
  ci_highlights :: "compiler_highlight_input list"
  ci_matched_scope :: string
  ci_rationale :: "string list"

record compiler_rescue_cue_input =
  rci_source_skill :: string
  rci_title :: string
  rci_content :: string
  rci_relevance :: f32

record compiled_skill_context =
  cx_name :: string
  cx_description :: string
  cx_score :: string
  cx_highlights :: "string list"
  cx_rescue_cues :: "string list"
  cx_match_reason :: string

definition compiler_tokenize :: "string \<Rightarrow> string set" where
  "compiler_tokenize input =
     set (filter (\<lambda>token. token \<noteq> [])
            (map (\<lambda>token. ascii_lower (trim token)) (split_on (\<lambda>ch. \<not> is_alnum ch) input)))"

definition compiler_token_overlap :: "string set \<Rightarrow> string set \<Rightarrow> f32" where
  "compiler_token_overlap lhs rhs =
     (if lhs = {} \<or> rhs = {} then lit 0
      else fdiv (f32_of_nat (card (lhs \<inter> rhs))) (f32_of_nat (card lhs)))"

definition cue_composite :: "string set \<Rightarrow> compiler_rescue_cue_input \<Rightarrow> f32" where
  "cue_composite skill_tokens cue =
     (let cue_tokens = compiler_tokenize (rci_title cue @ '' '' @ rci_content cue);
          lexical = compiler_token_overlap skill_tokens cue_tokens
      in fadd (fmul (lit 0.6) (rci_relevance cue)) (fmul (lit 0.4) lexical))"

definition ranked_rescue ::
  "compiler_skill_input \<Rightarrow> compiler_rescue_cue_input list \<Rightarrow> nat \<Rightarrow> (compiler_rescue_cue_input \<times> f32) list"
where
  "ranked_rescue skill rescue_pool max_rescue_per_skill =
     (let skill_tokens = compiler_tokenize (ci_name skill @ '' '' @ ci_description skill)
      in take max_rescue_per_skill
           (sort_by (desc_by snd)
              (filter (\<lambda>(_, score). flt (lit 0) score)
                 (map (\<lambda>cue. (cue, cue_composite skill_tokens cue))
                    (filter (\<lambda>cue. rci_source_skill cue \<noteq> ci_name skill) rescue_pool)))))"

definition score_bucket :: "f32 \<Rightarrow> string" where
  "score_bucket score =
     (if fle (lit 0.40) score then ''high'' else if fle (lit 0.20) score then ''medium'' else ''low'')"

definition build_match_reason :: "compiler_skill_input \<Rightarrow> string" where
  "build_match_reason skill =
     join '' | '' ([''scope='' @ ci_matched_scope skill, ''bucket='' @ score_bucket (ci_score skill)] @
       filter (\<lambda>token. prefix ''semantic='' token \<or> prefix ''lexical='' token) (ci_rationale skill))"

fun kind_debug_lower :: "subunit_type \<Rightarrow> string" where
  "kind_debug_lower Procedure = ''procedure''"
| "kind_debug_lower Convention = ''convention''"
| "kind_debug_lower Asset = ''asset''"
| "kind_debug_lower Evidence = ''evidence''"
| "kind_debug_lower Summary = ''summary''"

text \<open>The em dash between blanks, in UTF-8.\<close>

definition em_dash :: string where
  "em_dash = [CHR 0x20, CHR 0xE2, CHR 0x80, CHR 0x94, CHR 0x20]"

definition highlight_line :: "compiler_highlight_input \<Rightarrow> string" where
  "highlight_line h = ''- ['' @ kind_debug_lower (hi_kind h) @ ''] '' @ hi_title h @ em_dash @ hi_content h"

definition rescue_line :: "compiler_rescue_cue_input \<Rightarrow> string" where
  "rescue_line cue = ''- from '' @ [CHR 0x60] @ rci_source_skill cue @ [CHR 0x60] @ '': '' @ rci_title cue @
     em_dash @ rci_content cue"

definition attach_rescue_cues ::
  "compiler_skill_input list \<Rightarrow> compiler_rescue_cue_input list \<Rightarrow> nat \<Rightarrow> compiled_skill_context list" where
  "attach_rescue_cues skills rescue_pool max_rescue_per_skill =
     map (\<lambda>skill.
       \<lparr>cx_name = ci_name skill, cx_description = ci_description skill,
        cx_score = fmt_fixed 3 (ci_score skill),
        cx_highlights = map highlight_line (ci_highlights skill),
        cx_rescue_cues = map (\<lambda>(cue, _). rescue_line cue)
                           (ranked_rescue skill rescue_pool max_rescue_per_skill),
        cx_match_reason = build_match_reason skill\<rparr>) skills"

section \<open>The markdown (template.rs)\<close>

definition nl :: string where "nl = [CHR 0x0A]"

definition context_header :: "string \<Rightarrow> string" where
  "context_header prompt =
     ''# Compiled Context'' @ nl @ nl @ ''Prompt: '' @ [CHR 0x60] @ prompt @ [CHR 0x60] @ nl"

definition lines_block :: "string \<Rightarrow> string list \<Rightarrow> string" where
  "lines_block heading ls =
     (if ls = [] then [] else heading @ nl @ concat (map (\<lambda>l. l @ nl) ls))"

definition skill_block :: "compiled_skill_context \<Rightarrow> string" where
  "skill_block skill =
     nl @ ''## Skill: '' @ cx_name skill @ nl @ ''- Description: '' @ cx_description skill @ nl @
     ''- Score: '' @ cx_score skill @ nl @
     lines_block ''### Highlights'' (cx_highlights skill) @
     lines_block ''### Rescue cues'' (cx_rescue_cues skill)"

definition reason_line :: "compiled_skill_context \<Rightarrow> string" where
  "reason_line skill = ''- '' @ cx_name skill @ '': '' @ cx_match_reason skill @ nl"

definition render_markdown :: "string \<Rightarrow> compiled_skill_context list \<Rightarrow> string" where
  "render_markdown prompt skills =
     (if skills = [] then []
      else context_header prompt @ concat (map skill_block skills) @
           ''### Why These Skills'' @ nl @ concat (map reason_line skills))"

section \<open>The compiler (lib.rs)\<close>

record template_only_compiler =
  toc_max_rescue_per_skill :: nat

definition template_only_compiler_default :: template_only_compiler where
  "template_only_compiler_default = \<lparr>toc_max_rescue_per_skill = 2\<rparr>"

definition template_only_compiler_new :: "nat \<Rightarrow> template_only_compiler" where
  "template_only_compiler_new n = \<lparr>toc_max_rescue_per_skill = n\<rparr>"

definition compile_with_rescue ::
  "template_only_compiler \<Rightarrow> string \<Rightarrow> compiler_skill_input list \<Rightarrow> compiler_rescue_cue_input list \<Rightarrow> string"
where
  "compile_with_rescue c prompt skills rescue_pool =
     render_markdown prompt (attach_rescue_cues skills rescue_pool (toc_max_rescue_per_skill c))"

definition compile_skills :: "scored_skill list \<Rightarrow> string \<Rightarrow> string" where
  "compile_skills skills prompt =
     (if skills = [] then []
      else context_header prompt @ concat (map (\<lambda>s.
        nl @ ''## Skill: '' @ sk_name (ss_skill s) @ nl @ ''- Description: '' @ sk_description (ss_skill s) @ nl @
        ''- Score: '' @ fmt_fixed 3 (ss_score s) @ nl) skills))"

section \<open>Lemmas\<close>

lemma compiler_tokenize_eq: "compiler_tokenize = tokenize"
  by (rule ext) (simp add: compiler_tokenize_def tokenize_def)

lemma compiler_token_overlap_eq: "compiler_token_overlap = token_overlap_score"
  by (intro ext) (simp add: compiler_token_overlap_def token_overlap_score_def)

lemma context_header_nonempty: "context_header prompt \<noteq> []"
  by (simp add: context_header_def)

lemma render_markdown_Nil_iff: "render_markdown prompt skills = [] \<longleftrightarrow> skills = []"
  by (simp add: render_markdown_def context_header_nonempty)

lemma contains_str_appendI:
  "contains_str u p \<Longrightarrow> contains_str (u @ v) p" "contains_str v p \<Longrightarrow> contains_str (u @ v) p"
  unfolding contains_str_iff by (metis append_assoc)+

lemma contains_str_refl [simp]: "contains_str s s"
  unfolding contains_str_iff by (metis append_Nil append_Nil2)

lemma contains_str_concat: "x \<in> set xs \<Longrightarrow> contains_str x p \<Longrightarrow> contains_str (concat xs) p"
  by (induction xs) (auto intro: contains_str_appendI)

lemma contains_lines_block: "l \<in> set ls \<Longrightarrow> contains_str (lines_block h ls) (l @ nl)"
proof -
  assume l: "l \<in> set ls"
  have "contains_str (concat (map (\<lambda>l. l @ nl) ls)) (l @ nl)"
    by (rule contains_str_concat [of "l @ nl"]) (use l in auto)
  then have "contains_str (h @ nl @ concat (map (\<lambda>l. l @ nl) ls)) (l @ nl)"
    by (intro contains_str_appendI(2))
  moreover have "ls \<noteq> []" using l by auto
  ultimately show ?thesis by (simp add: lines_block_def)
qed

lemma skill_block_contains_line:
  "l \<in> set (cx_highlights x) \<or> l \<in> set (cx_rescue_cues x) \<Longrightarrow> contains_str (skill_block x) (l @ nl)"
proof -
  assume l: "l \<in> set (cx_highlights x) \<or> l \<in> set (cx_rescue_cues x)"
  define a where "a = nl @ ''## Skill: '' @ cx_name x @ nl @ ''- Description: '' @ cx_description x @ nl @
     ''- Score: '' @ cx_score x @ nl"
  have "skill_block x = a @ lines_block ''### Highlights'' (cx_highlights x) @
     lines_block ''### Rescue cues'' (cx_rescue_cues x)"
    by (simp only: skill_block_def a_def append_assoc)
  with l show ?thesis
    by (auto intro: contains_str_appendI contains_lines_block)
qed

lemma render_contains_block:
  "x \<in> set skills \<Longrightarrow> contains_str (skill_block x) p \<Longrightarrow> contains_str (render_markdown prompt skills) p"
proof -
  assume x: "x \<in> set skills" and p: "contains_str (skill_block x) p"
  have "contains_str (concat (map skill_block skills)) p"
    by (rule contains_str_concat [OF _ p]) (use x in auto)
  then have "contains_str (context_header prompt @ concat (map skill_block skills) @
      ''### Why These Skills'' @ nl @ concat (map reason_line skills)) p"
    by (rule contains_str_appendI(2) [OF contains_str_appendI(1)])
  moreover have "skills \<noteq> []" using x by auto
  ultimately show ?thesis by (simp only: render_markdown_def if_False)
qed

lemma render_contains_reason:
  "x \<in> set skills \<Longrightarrow> contains_str (render_markdown prompt skills) (reason_line x)"
proof -
  assume x: "x \<in> set skills"
  have "contains_str (concat (map reason_line skills)) (reason_line x)"
    by (rule contains_str_concat [of "reason_line x"]) (use x in auto)
  then show ?thesis
    using x unfolding render_markdown_def by (auto intro!: contains_str_appendI(2))
qed

lemma ranked_rescue_mem:
  "(cue, score) \<in> set (ranked_rescue skill pool n) \<Longrightarrow>
     cue \<in> set pool \<and> rci_source_skill cue \<noteq> ci_name skill \<and> flt (lit 0) score \<and>
     score = cue_composite (compiler_tokenize (ci_name skill @ '' '' @ ci_description skill)) cue"
  by (auto simp: ranked_rescue_def Let_def dest!: in_set_takeD)

lemma ranked_rescue_optimal:
  assumes "p \<in> set (ranked_rescue skill pool n)" and "cue \<in> set pool"
    and "rci_source_skill cue \<noteq> ci_name skill"
    and "flt (lit 0) (cue_composite (compiler_tokenize (ci_name skill @ '' '' @ ci_description skill)) cue)"
    and "cue \<notin> fst ` set (ranked_rescue skill pool n)"
  shows "cue_composite (compiler_tokenize (ci_name skill @ '' '' @ ci_description skill)) cue \<le> snd p"
proof -
  let ?t = "compiler_tokenize (ci_name skill @ '' '' @ ci_description skill)"
  let ?all = "filter (\<lambda>(_, score). flt (lit 0) score)
     (map (\<lambda>cue. (cue, cue_composite ?t cue)) (filter (\<lambda>cue. rci_source_skill cue \<noteq> ci_name skill) pool))"
  let ?s = "sort_by (desc_by snd) ?all"
  have rr: "ranked_rescue skill pool n = take n ?s" by (simp add: ranked_rescue_def Let_def)
  have "(cue, cue_composite ?t cue) \<in> set ?all" using assms(2-4) by auto
  then have "(cue, cue_composite ?t cue) \<in> set (take n ?s @ drop n ?s)" by simp
  moreover have "(cue, cue_composite ?t cue) \<notin> set (take n ?s)" using assms(5) unfolding rr by force
  ultimately have "(cue, cue_composite ?t cue) \<in> set (drop n ?s)" by (simp only: set_append) blast
  with assms(1) have "desc_by snd p (cue, cue_composite ?t cue)"
    unfolding rr by (rule desc.take_drop_sort_by)
  then show ?thesis by (simp add: desc_by_def)
qed

section \<open>Properties\<close>

text \<open>the compiled context leaves nothing out.  It is empty exactly when there are no skills;
  otherwise it starts with the prompt, and for every skill it contains its heading and description
  with its score, a line for every highlight and every attached rescue cue, and its match reason.\<close>

theorem compile_with_rescue_complete:
  "(compile_with_rescue c prompt skills pool = [] \<longleftrightarrow> skills = []) \<and>
   (skills \<noteq> [] \<longrightarrow> prefix (context_header prompt) (compile_with_rescue c prompt skills pool)) \<and>
   (\<forall>s \<in> set skills.
      contains_str (compile_with_rescue c prompt skills pool)
        (''## Skill: '' @ ci_name s @ nl @ ''- Description: '' @ ci_description s @ nl @
         ''- Score: '' @ fmt_fixed 3 (ci_score s)) \<and>
      contains_str (compile_with_rescue c prompt skills pool)
        (''- '' @ ci_name s @ '': '' @ build_match_reason s @ nl) \<and>
      (\<forall>h \<in> set (ci_highlights s).
         contains_str (compile_with_rescue c prompt skills pool) (highlight_line h @ nl)) \<and>
      (\<forall>p \<in> set (ranked_rescue s pool (toc_max_rescue_per_skill c)).
         contains_str (compile_with_rescue c prompt skills pool) (rescue_line (fst p) @ nl)))"
proof (intro conjI ballI)
  let ?n = "toc_max_rescue_per_skill c"
  let ?xs = "attach_rescue_cues skills pool ?n"
  show "compile_with_rescue c prompt skills pool = [] \<longleftrightarrow> skills = []"
    by (simp add: compile_with_rescue_def render_markdown_Nil_iff attach_rescue_cues_def)
  show "skills \<noteq> [] \<longrightarrow> prefix (context_header prompt) (compile_with_rescue c prompt skills pool)"
    by (simp add: compile_with_rescue_def render_markdown_def attach_rescue_cues_def)
  fix s assume "s \<in> set skills"
  then obtain x where x: "x \<in> set ?xs" "cx_name x = ci_name s" "cx_description x = ci_description s"
    "cx_score x = fmt_fixed 3 (ci_score s)" "cx_highlights x = map highlight_line (ci_highlights s)"
    "cx_rescue_cues x = map (\<lambda>(cue, _). rescue_line cue) (ranked_rescue s pool ?n)"
    "cx_match_reason x = build_match_reason s"
    unfolding attach_rescue_cues_def by force
  have block: "contains_str (skill_block x) p \<Longrightarrow> contains_str (compile_with_rescue c prompt skills pool) p" for p
    unfolding compile_with_rescue_def using x(1) by (rule render_contains_block)
  have "skill_block x = nl @ (''## Skill: '' @ ci_name s @ nl @ ''- Description: '' @ ci_description s @ nl @
         ''- Score: '' @ fmt_fixed 3 (ci_score s)) @ (nl @ lines_block ''### Highlights'' (cx_highlights x) @
         lines_block ''### Rescue cues'' (cx_rescue_cues x))"
    by (simp only: skill_block_def x append_assoc)
  then have "contains_str (skill_block x) (''## Skill: '' @ ci_name s @ nl @ ''- Description: '' @
      ci_description s @ nl @ ''- Score: '' @ fmt_fixed 3 (ci_score s))"
    unfolding contains_str_iff by blast
  then show "contains_str (compile_with_rescue c prompt skills pool)
     (''## Skill: '' @ ci_name s @ nl @ ''- Description: '' @ ci_description s @ nl @
         ''- Score: '' @ fmt_fixed 3 (ci_score s))" by (rule block)
  show "contains_str (compile_with_rescue c prompt skills pool)
      (''- '' @ ci_name s @ '': '' @ build_match_reason s @ nl)"
    using render_contains_reason [OF x(1), of prompt] x unfolding compile_with_rescue_def reason_line_def by simp
  have lb: "l \<in> set (cx_highlights x) \<or> l \<in> set (cx_rescue_cues x) \<Longrightarrow>
      contains_str (compile_with_rescue c prompt skills pool) (l @ nl)" for l
    by (intro block skill_block_contains_line)
  show "h \<in> set (ci_highlights s) \<Longrightarrow> contains_str (compile_with_rescue c prompt skills pool) (highlight_line h @ nl)" for h
    by (rule lb) (simp add: x)
  show "p \<in> set (ranked_rescue s pool ?n) \<Longrightarrow> contains_str (compile_with_rescue c prompt skills pool) (rescue_line (fst p) @ nl)" for p
    by (rule lb) (simp add: x(6) case_prod_unfold)
qed

definition sample_input :: compiler_skill_input where
  "sample_input = \<lparr>ci_name = ''lint'', ci_description = ''run it'', ci_score = Fin (1/2),
     ci_highlights = [\<lparr>hi_kind = Procedure, hi_title = ''t'', hi_content = ''c'', hi_relevance = Fin 1\<rparr>],
     ci_matched_scope = ''project'', ci_rationale = []\<rparr>"

theorem compile_with_rescue_complete_witness:
  "contains_str (compile_with_rescue template_only_compiler_default ''p'' [sample_input] [])
     (highlight_line \<lparr>hi_kind = Procedure, hi_title = ''t'', hi_content = ''c'', hi_relevance = Fin 1\<rparr> @ nl)"
  using compile_with_rescue_complete [of template_only_compiler_default "''p''" "[sample_input]" "[]"]
  by (simp add: sample_input_def)

text \<open>the rescue cues of a skill are a correct top-k.  At most the limit is attached, best
  composite score first; each comes from another skill of the pool and scores above zero, and a
  pool cue of another skill that scores above zero is left out only for cues at least as good.\<close>

theorem rescue_cues_top_k:
  "length (ranked_rescue s pool n) \<le> n \<and>
   sorted_wrt (\<lambda>p q. snd q \<le> snd p) (ranked_rescue s pool n) \<and>
   (\<forall>p \<in> set (ranked_rescue s pool n).
      fst p \<in> set pool \<and> rci_source_skill (fst p) \<noteq> ci_name s \<and> flt (lit 0) (snd p) \<and>
      (\<forall>cue \<in> set pool. rci_source_skill cue \<noteq> ci_name s \<longrightarrow>
         flt (lit 0) (cue_composite (compiler_tokenize (ci_name s @ '' '' @ ci_description s)) cue) \<longrightarrow>
         cue \<notin> fst ` set (ranked_rescue s pool n) \<longrightarrow>
         cue_composite (compiler_tokenize (ci_name s @ '' '' @ ci_description s)) cue \<le> snd p))"
proof (intro conjI ballI impI)
  show "length (ranked_rescue s pool n) \<le> n" by (simp add: ranked_rescue_def Let_def)
  have "sorted_wrt (desc_by snd) (ranked_rescue s pool n)"
    unfolding ranked_rescue_def Let_def by (intro sorted_wrt_take desc.sorted_sort_by)
  then show "sorted_wrt (\<lambda>p q. snd q \<le> snd p) (ranked_rescue s pool n)" by (simp only: desc_by_def [abs_def])
qed (use ranked_rescue_mem ranked_rescue_optimal in auto)

section \<open>The score bucket of a fused score\<close>

lemma lit_sixty: "lit 60 = Fin 60"
  using f32_of_nat_exact [of 60] by (simp add: f32_of_nat_def)

lemma rrf_denominator_ge: "fle (Fin 61) (fadd (lit 60) (fadd (f32_of_nat rank) (lit 1)))"
proof -
  have one: "fadd (f32_of_nat 0) (lit 1) = Fin 1" using f32_of_nat_exact [of 0] lit_one by (simp add: fadd_def)
  have "fle (f32_of_nat 0) (f32_of_nat rank)" by (rule f32_of_nat_mono) simp
  moreover have "fnonneg (f32_of_nat 0)" using f32_of_nat_exact [of 0] by simp
  ultimately have "fle (fadd (f32_of_nat 0) (lit 1)) (fadd (f32_of_nat rank) (lit 1))"
    by (intro fadd_mono) auto
  then have "fle (Fin 1) (fadd (f32_of_nat rank) (lit 1))" unfolding one .
  then have "fle (fadd (Fin 60) (Fin 1)) (fadd (Fin 60) (fadd (f32_of_nat rank) (lit 1)))"
    by (intro fadd_mono) auto
  moreover have "fadd (Fin 60) (Fin 1) = Fin 61"
    using f32_of_nat_exact [of 61] by (simp add: fadd_def f32_of_nat_def)
  ultimately show ?thesis by (simp add: lit_sixty)
qed

lemma rrf_contribution_small:
  assumes "ffin_nonneg w" and "fle w (Fin 1)"
  shows "fle (rrf_contribution w (lit 60) rank) (rnd False (1/61)) \<and> fnonneg (rrf_contribution w (lit 60) rank)"
proof -
  let ?y = "fadd (lit 60) (fadd (f32_of_nat rank) (lit 1))"
  have y: "fle (Fin 61) ?y" by (rule rrf_denominator_ge)
  have "fle (fdiv w ?y) (rnd False (1/61)) \<and> fnonneg (fdiv w ?y)"
  proof (cases ?y)
    case (Fin q)
    then have q: "61 \<le> q" using y by simp
    then have "fval w / q \<le> 1 / 61"
      using assms by (cases w) (auto intro!: frac_le)
    moreover have "0 \<le> fval w / q" using assms(1) q by (auto simp: ffin_nonneg_def)
    ultimately show ?thesis
      using assms q unfolding Fin
      by (cases w) (auto simp: fdiv_def intro!: rnd_mono rnd_nonneg fle_zero_rnd)
  next
    case PosInf
    have "fle (Fin 0) (rnd False (1/61))" "fle NegZero (rnd False (1/61))" by (rule fle_zero_rnd; simp)+
    then show ?thesis using assms unfolding PosInf by (cases w) (auto simp: fdiv_def)
  qed (use y in auto)
  then show ?thesis by (simp only: rrf_contribution_def)
qed

lemma effective_rrf_k_sixty: "effective_rrf_k (lit 60) = lit 60"
  by (simp add: effective_rrf_k_def lit_sixty)

lemma low_bound: "flt (fadd (rnd False (1/61)) (rnd False (1/61))) (lit 0.20)"
  by code_simp

lemma score_bucket_low:
  assumes "fle x (fadd (rnd False (1/61)) (rnd False (1/61)))"
  shows "score_bucket x = ''low''"
proof -
  have lt: "flt x (lit 0.20)" using assms low_bound by (rule fle_flt_trans)
  moreover have "fle (lit 0.20) (lit 0.40)" by (rule rnd_mono) simp
  ultimately have "\<not> fle (lit 0.40) x" using fle_trans unfolding flt_def by blast
  with lt show ?thesis unfolding score_bucket_def flt_def by simp
qed

text \<open>under the shipped weights the score bucket of the match reason is a constant. With the default constant k = 60 and scope weights of at most 1, a skill that occurs at most once in each of the two scopes has a fused score whose bucket is low, whatever its ranks are.\<close>

theorem fused_score_bucket_always_low:
  assumes "\<forall>as. mset (hash_order as) = mset as"
    and "c \<in> set (weighted_reciprocal_rank_fusion hash_order rs (lit 60) n)"
    and "\<forall>r \<in> set rs. ffin_nonneg (sr_weight r) \<and> fle (sr_weight r) (Fin 1)"
    and "length (rrf_contributions rs (lit 60) (fc_skill_id c)) \<le> 2"
  shows "score_bucket (fc_score c) = ''low''"
proof -
  let ?b = "rnd False (1/61)"
  obtain x xs where x: "rrf_contributions rs (lit 60) (fc_skill_id c) = x # xs" "fc_score c = foldl fadd x xs"
    using wrrf_score_sum [OF assms(1,2)] by (auto simp: effective_rrf_k_sixty)
  have small: "\<forall>y \<in> set (rrf_contributions rs (lit 60) (fc_skill_id c)). fle y ?b \<and> fnonneg y"
    using assms(3) rrf_contribution_small unfolding rrf_contributions_def by fastforce
  have b0: "fnonneg ?b" by (rule rnd_nonneg) simp
  have "fle (fc_score c) (fadd ?b ?b)"
  proof (cases xs)
    case Nil
    have "fle (fadd ?b (Fin 0)) (fadd ?b ?b)"
      using b0 by (intro fadd_mono) (auto simp: fnonneg_iff_fle fle_refl)
    moreover have "fadd ?b (Fin 0) = ?b" by code_simp
    ultimately show ?thesis using Nil x small fle_trans by fastforce
  next
    case (Cons y ys)
    with x assms(4) have "ys = []" by simp
    with Cons x small show ?thesis by (auto intro!: fadd_mono)
  qed
  then show ?thesis by (rule score_bucket_low)
qed

end
