(* ===== verification/Session_Store.thy ===== *)
theory Session_Store
  imports Prelude
begin

text \<open>
  What the two session stores of the server share (\<open>mcp-server/src/suppression\_state.rs\<close>,
  \<open>context\_cache.rs\<close>): the Redis port with the escaped pattern delete, and the contract of a local
  map whose entries are indexed by session.  Redis and the JSON codec are parameters: a
  \<open>redis\_env\<close> says what they answer, and writes are the commands sent.
\<close>

section \<open>The Redis port\<close>

record 'e redis_env =
  re_connect :: bool
  re_get :: "string \<Rightarrow> (unit, string option) result"
  re_decode :: "string \<Rightarrow> 'e option"
  re_encode :: "'e \<Rightarrow> string option"

datatype redis_command = SetEx string string nat | DelKeys "string list" | ScanDel string string

text \<open>\<open>try\_redis\_get\<close>: no client, no connection, an error, a miss and a bad value all give nothing.\<close>

definition redis_lookup :: "'e redis_env \<Rightarrow> bool \<Rightarrow> string \<Rightarrow> 'e option" where
  "redis_lookup env client key =
     (if \<not> client then None
      else if \<not> re_connect env then None
      else (case re_get env key of
              Inl _ \<Rightarrow> None
            | Inr None \<Rightarrow> None
            | Inr (Some json) \<Rightarrow> re_decode env json))"

definition redis_setex :: "'e redis_env \<Rightarrow> bool \<Rightarrow> nat \<Rightarrow> string \<Rightarrow> 'e \<Rightarrow> redis_command list" where
  "redis_setex env client ttl_secs key entry =
     (if \<not> client \<or> \<not> re_connect env then []
      else (case re_encode env entry of None \<Rightarrow> [] | Some v \<Rightarrow> [SetEx key v ttl_secs]))"

text \<open>
  \<open>scan\_and\_del\_pattern\<close>: the replies of the server to the successive SCANs; without a reply that
  carries cursor zero or an error the loop goes on, and the model answers \<open>None\<close>.
\<close>

fun scan_keys ::
  "(unit, nat \<times> string list) result list \<Rightarrow> string list \<Rightarrow> string list option option" where
  "scan_keys [] keys = None"
| "scan_keys (Inl _ # replies) keys = Some None"
| "scan_keys (Inr (next_cursor, batch) # replies) keys =
     (if next_cursor = 0 then Some (Some (keys @ batch)) else scan_keys replies (keys @ batch))"

definition scan_and_del_pattern ::
  "bool \<Rightarrow> (unit, nat \<times> string list) result list \<Rightarrow> redis_command list option" where
  "scan_and_del_pattern connected replies =
     (if \<not> connected then Some []
      else (case scan_keys replies [] of
              None \<Rightarrow> None
            | Some None \<Rightarrow> Some []
            | Some (Some keys) \<Rightarrow> Some (if keys = [] then [] else [DelKeys keys])))"

definition is_glob_meta :: "char \<Rightarrow> bool" where
  "is_glob_meta ch \<longleftrightarrow> ch \<in> {CHR ''*'', CHR ''?'', CHR ''['', CHR '']'', CHR 0x5C}"

definition escape_redis_glob :: "string \<Rightarrow> string" where
  "escape_redis_glob raw = concat (map (\<lambda>ch. if is_glob_meta ch then [CHR 0x5C, ch] else [ch]) raw)"

text \<open>
  What Redis documents of a MATCH pattern: an escaped character and an ordinary one match
  themselves, and a trailing star matches anything.
\<close>

definition redis_glob_laws :: "(string \<Rightarrow> string \<Rightarrow> bool) \<Rightarrow> bool" where
  "redis_glob_laws glob \<longleftrightarrow>
     (\<forall>c p s. glob (CHR 0x5C # c # p) s \<longleftrightarrow> (\<exists>s'. s = c # s' \<and> glob p s')) \<and>
     (\<forall>c p s. \<not> is_glob_meta c \<longrightarrow> (glob (c # p) s \<longleftrightarrow> (\<exists>s'. s = c # s' \<and> glob p s'))) \<and>
     (\<forall>s. glob ''*'' s)"

lemma escape_Cons:
  "escape_redis_glob (c # cs) = (if is_glob_meta c then [CHR 0x5C, c] else [c]) @ escape_redis_glob cs"
  by (simp add: escape_redis_glob_def)

lemma glob_escaped:
  "redis_glob_laws glob \<Longrightarrow> glob (escape_redis_glob raw @ p) s \<longleftrightarrow> (\<exists>t. s = raw @ t \<and> glob p t)"
proof (induction raw arbitrary: s)
  case Nil
  then show ?case by (simp add: escape_redis_glob_def)
next
  case (Cons c raw)
  then show ?case by (auto simp: redis_glob_laws_def escape_Cons)
qed

lemma glob_plain:
  "redis_glob_laws glob \<Longrightarrow> \<forall>c \<in> set q. \<not> is_glob_meta c \<Longrightarrow>
     glob (q @ p) s \<longleftrightarrow> (\<exists>t. s = q @ t \<and> glob p t)"
proof (induction q arbitrary: s)
  case (Cons c q)
  then show ?case by (auto simp: redis_glob_laws_def)
qed simp

text \<open>A matcher that has the laws: enough of the pattern language for a witness.\<close>

fun glob_match :: "string \<Rightarrow> string \<Rightarrow> bool" where
  "glob_match [] s = (s = [])"
| "glob_match (c # p) s =
     (if c = CHR ''*'' \<and> p = [] then True
      else if c = CHR 0x5C then
        (case p of [] \<Rightarrow> False | d # q \<Rightarrow> (case s of [] \<Rightarrow> False | e # t \<Rightarrow> d = e \<and> glob_match q t))
      else (case s of [] \<Rightarrow> False | e # t \<Rightarrow> c = e \<and> glob_match p t))"

lemma glob_match_laws: "redis_glob_laws glob_match"
  unfolding redis_glob_laws_def
  by (intro conjI allI impI) (auto simp: is_glob_meta_def split: list.splits)

section \<open>A local map indexed by session\<close>

text \<open>
  The contract both stores satisfy: recording stores the entry and owns its key, clearing a session
  removes what it owns and forgets it, and nothing else changes.
\<close>

locale session_indexed =
  fixes lookup :: "'s \<Rightarrow> string \<Rightarrow> 'e option"
    and owned :: "'s \<Rightarrow> string \<Rightarrow> string set"
    and record_entry :: "string \<Rightarrow> string \<Rightarrow> 'e \<Rightarrow> 's \<Rightarrow> 's"
    and clear :: "string \<Rightarrow> 's \<Rightarrow> 's"
  assumes lookup_record: "lookup (record_entry sid k e s) k' = (if k' = k then Some e else lookup s k')"
    and owned_record: "owned (record_entry sid k e s) sid' =
      (if sid' = trim sid then insert k (owned s sid') else owned s sid')"
    and lookup_clear: "lookup (clear sid s) k = (if k \<in> owned s (trim sid) then None else lookup s k)"
    and owned_clear: "owned (clear sid s) sid' = (if sid' = trim sid then {} else owned s sid')"
begin

definition mirrored :: "'s \<Rightarrow> bool" where
  "mirrored s \<longleftrightarrow> (\<forall>k. lookup s k \<noteq> None \<longrightarrow> (\<exists>sid. k \<in> owned s sid))"

lemma mirrored_record: "mirrored s \<Longrightarrow> mirrored (record_entry sid k e s)"
  unfolding mirrored_def lookup_record owned_record by (metis insertCI)

lemma mirrored_clear: "mirrored s \<Longrightarrow> mirrored (clear sid s)"
  unfolding mirrored_def lookup_clear owned_clear by (metis empty_iff)

text \<open>A session that owns the only claim on its keys loses all of them and no other session any.\<close>

lemma clear_removes: "k \<in> owned s (trim sid) \<Longrightarrow> lookup (clear sid s) k = None"
  by (simp add: lookup_clear)

lemma clear_keeps: "k \<notin> owned s (trim sid) \<Longrightarrow> lookup (clear sid s) k = lookup s k"
  by (simp add: lookup_clear)

text \<open>Keys stay apart when every recording uses a key that determines its session.\<close>

definition keyed :: "(string \<Rightarrow> string \<Rightarrow> bool) \<Rightarrow> 's \<Rightarrow> bool" where
  "keyed belongs s \<longleftrightarrow> (\<forall>sid. \<forall>k \<in> owned s sid. belongs sid k)"

lemma keyed_record: "keyed b s \<Longrightarrow> b (trim sid) k \<Longrightarrow> keyed b (record_entry sid k e s)"
  unfolding keyed_def owned_record by auto

lemma keyed_clear: "keyed b s \<Longrightarrow> keyed b (clear sid s)"
  unfolding keyed_def owned_clear by auto

lemma clear_only_own:
  "keyed b s \<Longrightarrow> \<not> b (trim sid) k \<Longrightarrow> lookup (clear sid s) k = lookup s k"
  unfolding keyed_def by (rule clear_keeps) blast

end

end
