(* ===== verification/Suppression.thy ===== *)
theory Suppression
  imports Session_Store
begin

text \<open>
  The session suppression state (\<open>mcp-server/src/suppression\_state.rs\<close>): which session already
  received compiled context for a repository at a graph version, with read-through to Redis and
  eviction of a session.
\<close>

section \<open>State and keys\<close>

record suppression_entry =
  se_suppressed :: bool
  se_graph_version :: int
  se_scopes_considered :: "string list"

record suppression_state =
  sup_inner :: "string \<rightharpoonup> suppression_entry"
  sup_session_index :: "string \<rightharpoonup> string set"
  sup_redis_client :: bool
  sup_ttl_secs :: nat
  sup_key_prefix :: string

definition default_ttl_secs :: nat where "default_ttl_secs = 3600"

definition redis_key_prefix :: "string option \<Rightarrow> string" where
  "redis_key_prefix env_value = (case env_value of None \<Rightarrow> [] | Some v \<Rightarrow> v)"

definition suppression_new :: "string option \<Rightarrow> bool \<Rightarrow> nat \<Rightarrow> suppression_state" where
  "suppression_new env_prefix redis_client ttl_secs =
     \<lparr>sup_inner = Map.empty, sup_session_index = Map.empty, sup_redis_client = redis_client,
      sup_ttl_secs = ttl_secs, sup_key_prefix = redis_key_prefix env_prefix\<rparr>"

definition sup_record_local ::
  "string \<Rightarrow> string \<Rightarrow> suppression_entry \<Rightarrow> suppression_state \<Rightarrow> suppression_state" where
  "sup_record_local session_id local_key entry st =
     st\<lparr>sup_inner := (sup_inner st)(local_key \<mapsto> entry),
        sup_session_index := (sup_session_index st)(trim session_id \<mapsto>
          insert local_key (case sup_session_index st (trim session_id) of None \<Rightarrow> {} | Some ks \<Rightarrow> ks))\<rparr>"

definition sup_redis_key :: "suppression_state \<Rightarrow> string \<Rightarrow> string \<Rightarrow> string" where
  "sup_redis_key st session_id repo_path =
     sup_key_prefix st @ ''suppression:'' @ trim session_id @ ''::'' @ trim repo_path"

definition sup_local_key :: "string \<Rightarrow> string \<Rightarrow> string" where
  "sup_local_key session_id repo_path = trim session_id @ ''::'' @ trim repo_path"

definition sup_try_redis_get ::
  "suppression_entry redis_env \<Rightarrow> string \<Rightarrow> string \<Rightarrow> suppression_state \<Rightarrow> suppression_entry option" where
  "sup_try_redis_get env session_id repo_path st =
     redis_lookup env (sup_redis_client st) (sup_redis_key st session_id repo_path)"

definition sup_try_redis_setex ::
  "suppression_entry redis_env \<Rightarrow> string \<Rightarrow> string \<Rightarrow> suppression_entry \<Rightarrow> suppression_state \<Rightarrow>
     redis_command list" where
  "sup_try_redis_setex env session_id repo_path entry st =
     redis_setex env (sup_redis_client st) (sup_ttl_secs st) (sup_redis_key st session_id repo_path) entry"

section \<open>Operations\<close>

definition is_suppressed ::
  "suppression_entry redis_env \<Rightarrow> string \<Rightarrow> string \<Rightarrow> int \<Rightarrow> suppression_state \<Rightarrow> bool \<times> suppression_state"
where
  "is_suppressed env session_id repo_path graph_version st =
     (let key = sup_local_key session_id repo_path in
      case sup_inner st key of
        Some entry \<Rightarrow> (se_suppressed entry \<and> se_graph_version entry = graph_version, st)
      | None \<Rightarrow>
          (case sup_try_redis_get env session_id repo_path st of
             Some e \<Rightarrow> (se_suppressed e \<and> se_graph_version e = graph_version,
                        sup_record_local session_id key e st)
           | None \<Rightarrow> (False, st)))"

definition sup_graph_version ::
  "suppression_entry redis_env \<Rightarrow> string \<Rightarrow> string \<Rightarrow> suppression_state \<Rightarrow> int option \<times> suppression_state" where
  "sup_graph_version env session_id repo_path st =
     (let key = sup_local_key session_id repo_path in
      case sup_inner st key of
        Some entry \<Rightarrow> (Some (se_graph_version entry), st)
      | None \<Rightarrow>
          (case sup_try_redis_get env session_id repo_path st of
             Some e \<Rightarrow> (Some (se_graph_version e), sup_record_local session_id key e st)
           | None \<Rightarrow> (None, st)))"

definition sup_scopes_considered ::
  "suppression_entry redis_env \<Rightarrow> string \<Rightarrow> string \<Rightarrow> suppression_state \<Rightarrow>
     string list option \<times> suppression_state" where
  "sup_scopes_considered env session_id repo_path st =
     (let key = sup_local_key session_id repo_path in
      case sup_inner st key of
        Some entry \<Rightarrow> (Some (se_scopes_considered entry), st)
      | None \<Rightarrow>
          (case sup_try_redis_get env session_id repo_path st of
             Some e \<Rightarrow> (Some (se_scopes_considered e), sup_record_local session_id key e st)
           | None \<Rightarrow> (None, st)))"

definition mark_healthy ::
  "suppression_entry redis_env \<Rightarrow> string \<Rightarrow> string \<Rightarrow> int \<Rightarrow> string list \<Rightarrow> suppression_state \<Rightarrow>
     suppression_state \<times> redis_command list" where
  "mark_healthy env session_id repo_path graph_version scopes_considered st =
     (let entry = \<lparr>se_suppressed = True, se_graph_version = graph_version,
                   se_scopes_considered = scopes_considered\<rparr>;
          st' = sup_record_local session_id (sup_local_key session_id repo_path) entry st
      in (st', sup_try_redis_setex env session_id repo_path entry st'))"

definition sup_evict_local :: "string \<Rightarrow> suppression_state \<Rightarrow> suppression_state" where
  "sup_evict_local session_id st =
     (case sup_session_index st (trim session_id) of
        None \<Rightarrow> st
      | Some keys \<Rightarrow> st\<lparr>sup_session_index := (sup_session_index st)(trim session_id := None),
                        sup_inner := (\<lambda>k. if k \<in> keys then None else sup_inner st k)\<rparr>)"

definition sup_clear_pattern :: "suppression_state \<Rightarrow> string \<Rightarrow> string" where
  "sup_clear_pattern st session_id =
     sup_key_prefix st @ ''suppression:'' @ escape_redis_glob (trim session_id) @ ''::*''"

text \<open>The local eviction, and the pattern the background task scans when there is a client.\<close>

definition sup_clear_session :: "string \<Rightarrow> suppression_state \<Rightarrow> suppression_state \<times> redis_command list" where
  "sup_clear_session session_id st =
     (sup_evict_local session_id st,
      if sup_redis_client st then [ScanDel (sup_clear_pattern st session_id) ''suppression_clear''] else [])"

section \<open>The contract of the indexed store\<close>

definition sup_owned :: "suppression_state \<Rightarrow> string \<Rightarrow> string set" where
  "sup_owned st sid = (case sup_session_index st sid of None \<Rightarrow> {} | Some ks \<Rightarrow> ks)"

interpretation sup: session_indexed sup_inner sup_owned sup_record_local sup_evict_local
proof
  fix sid k e s k' sid'
  show "sup_inner (sup_record_local sid k e s) k' = (if k' = k then Some e else sup_inner s k')"
    by (simp add: sup_record_local_def)
  show "sup_owned (sup_record_local sid k e s) sid' =
      (if sid' = trim sid then insert k (sup_owned s sid') else sup_owned s sid')"
    by (simp add: sup_record_local_def sup_owned_def)
  show "sup_inner (sup_evict_local sid s) k = (if k \<in> sup_owned s (trim sid) then None else sup_inner s k)"
    by (simp add: sup_evict_local_def sup_owned_def split: option.splits)
  show "sup_owned (sup_evict_local sid s) sid' = (if sid' = trim sid then {} else sup_owned s sid')"
    by (auto simp: sup_evict_local_def sup_owned_def split: option.splits)
qed

section \<open>Reachable states\<close>

text \<open>Every public operation, on sessions whose identifier satisfies \<open>ok\<close>.\<close>

inductive sup_reachable :: "(string \<Rightarrow> bool) \<Rightarrow> suppression_state \<Rightarrow> bool" for ok where
  sup_start: "sup_reachable ok (suppression_new p c ttl)"
| sup_mark: "sup_reachable ok st \<Longrightarrow> ok (trim sid) \<Longrightarrow>
    sup_reachable ok (fst (mark_healthy env sid repo v scopes st))"
| sup_check: "sup_reachable ok st \<Longrightarrow> ok (trim sid) \<Longrightarrow>
    sup_reachable ok (snd (is_suppressed env sid repo v st))"
| sup_version: "sup_reachable ok st \<Longrightarrow> ok (trim sid) \<Longrightarrow>
    sup_reachable ok (snd (sup_graph_version env sid repo st))"
| sup_scopes: "sup_reachable ok st \<Longrightarrow> ok (trim sid) \<Longrightarrow>
    sup_reachable ok (snd (sup_scopes_considered env sid repo st))"
| sup_clear: "sup_reachable ok st \<Longrightarrow> sup_reachable ok (fst (sup_clear_session sid st))"

definition colon_free :: "string \<Rightarrow> bool" where
  "colon_free s \<longleftrightarrow> CHR '':'' \<notin> set s"

definition key_session :: "string \<Rightarrow> string" where
  "key_session k = takeWhile (\<lambda>c. c \<noteq> CHR '':'') k"

lemma takeWhile_colon_free: "colon_free s \<Longrightarrow> takeWhile (\<lambda>c. c \<noteq> CHR '':'') (s @ CHR '':'' # t) = s"
  by (subst takeWhile_append2) (auto simp: colon_free_def)

lemma key_session_local_key: "colon_free (trim sid) \<Longrightarrow> key_session (sup_local_key sid repo) = trim sid"
  by (simp add: key_session_def sup_local_key_def takeWhile_colon_free)

lemma sup_reads_step:
  "snd (is_suppressed env sid repo v st) = st \<or>
     (\<exists>e. snd (is_suppressed env sid repo v st) = sup_record_local sid (sup_local_key sid repo) e st)"
  "snd (sup_graph_version env sid repo st) = st \<or>
     (\<exists>e. snd (sup_graph_version env sid repo st) = sup_record_local sid (sup_local_key sid repo) e st)"
  "snd (sup_scopes_considered env sid repo st) = st \<or>
     (\<exists>e. snd (sup_scopes_considered env sid repo st) = sup_record_local sid (sup_local_key sid repo) e st)"
  by (auto simp: is_suppressed_def sup_graph_version_def sup_scopes_considered_def Let_def split: option.splits)

definition sup_inv :: "suppression_state \<Rightarrow> bool" where
  "sup_inv st \<longleftrightarrow> sup.mirrored st \<and> sup.keyed (\<lambda>sid k. key_session k = sid) st"

lemma sup_inv_record:
  "sup_inv st \<Longrightarrow> colon_free (trim sid) \<Longrightarrow> sup_inv (sup_record_local sid (sup_local_key sid repo) e st)"
  by (simp add: sup_inv_def sup.mirrored_record sup.keyed_record key_session_local_key)

lemma sup_inv_read:
  "st' = st \<or> (\<exists>e. st' = sup_record_local sid (sup_local_key sid repo) e st) \<Longrightarrow>
     sup_inv st \<Longrightarrow> colon_free (trim sid) \<Longrightarrow> sup_inv st'"
  using sup_inv_record by blast

lemma sup_reachable_inv:
  assumes "sup_reachable ok st" and "\<And>sid. ok sid \<Longrightarrow> colon_free sid"
  shows "sup_inv st"
  using assms(1)
proof (induction rule: sup_reachable.induct)
  case (sup_start p c ttl)
  show ?case
    unfolding sup_inv_def sup.mirrored_def sup.keyed_def by (simp add: suppression_new_def sup_owned_def)
next
  case (sup_mark st sid env repo v scopes)
  then show ?case by (simp add: mark_healthy_def Let_def sup_inv_record assms(2))
next
  case (sup_check st sid env repo v)
  then show ?case by (intro sup_inv_read [OF sup_reads_step(1)] assms(2))
next
  case (sup_version st sid env repo)
  then show ?case by (intro sup_inv_read [OF sup_reads_step(2)] assms(2))
next
  case (sup_scopes st sid env repo)
  then show ?case by (intro sup_inv_read [OF sup_reads_step(3)] assms(2))
next
  case (sup_clear st sid)
  then show ?case
    by (simp add: sup_clear_session_def sup_inv_def sup.mirrored_clear sup.keyed_clear)
qed

section \<open>Properties\<close>

text \<open>a mark suppresses exactly its own graph version.  After a healthy compilation is recorded,
  the session is suppressed for that repository at that version and at no other, whatever Redis
  answers, and the recorded version and scopes are what the lookups return.\<close>

theorem mark_then_suppressed:
  "fst (is_suppressed env' sid repo v' (fst (mark_healthy env sid repo v scopes st))) = (v' = v) \<and>
   fst (sup_graph_version env' sid repo (fst (mark_healthy env sid repo v scopes st))) = Some v \<and>
   fst (sup_scopes_considered env' sid repo (fst (mark_healthy env sid repo v scopes st))) = Some scopes"
  by (auto simp: is_suppressed_def sup_graph_version_def sup_scopes_considered_def mark_healthy_def
      sup_record_local_def Let_def)

text \<open>clearing a session evicts it and nothing else.  In every state the operations reach with
  session identifiers without a colon, clearing a session leaves no local entry for it, so that
  without Redis it is suppressed nowhere, and every other session keeps all its entries.\<close>

theorem clear_session_exact:
  assumes "sup_reachable colon_free st" and "colon_free (trim sid)"
  shows "sup_inner (fst (sup_clear_session sid st)) (sup_local_key sid repo) = None \<and>
    (sup_redis_client st \<longrightarrow> snd (sup_clear_session sid st) \<noteq> []) \<and>
    (\<not> sup_redis_client st \<longrightarrow> \<not> fst (is_suppressed env sid repo v (fst (sup_clear_session sid st)))) \<and>
    (\<forall>other. colon_free (trim other) \<longrightarrow> trim other \<noteq> trim sid \<longrightarrow>
       sup_inner (fst (sup_clear_session sid st)) (sup_local_key other repo) =
         sup_inner st (sup_local_key other repo))"
proof (intro conjI allI impI)
  have inv: "sup_inv st" using sup_reachable_inv [OF assms(1)] .
  have ks: "key_session (sup_local_key sid repo) = trim sid" using assms(2) by (rule key_session_local_key)
  show gone: "sup_inner (fst (sup_clear_session sid st)) (sup_local_key sid repo) = None"
  proof (rule ccontr)
    assume "sup_inner (fst (sup_clear_session sid st)) (sup_local_key sid repo) \<noteq> None"
    then have ne: "sup_inner (sup_evict_local sid st) (sup_local_key sid repo) \<noteq> None"
      by (simp add: sup_clear_session_def)
    then have "sup_inner st (sup_local_key sid repo) \<noteq> None"
      and "sup_local_key sid repo \<notin> sup_owned st (trim sid)"
      by (auto simp: sup.lookup_clear split: if_splits)
    with inv ks show False unfolding sup_inv_def sup.mirrored_def sup.keyed_def by metis
  qed
  show "sup_redis_client st \<Longrightarrow> snd (sup_clear_session sid st) \<noteq> []"
    by (simp add: sup_clear_session_def)
  assume "\<not> sup_redis_client st"
  then have "\<not> sup_redis_client (fst (sup_clear_session sid st))"
    by (simp add: sup_clear_session_def sup_evict_local_def split: option.splits)
  then show "\<not> fst (is_suppressed env sid repo v (fst (sup_clear_session sid st)))"
    using gone by (simp add: is_suppressed_def sup_try_redis_get_def redis_lookup_def)
next
  fix other assume "colon_free (trim other)" "trim other \<noteq> trim sid"
  then have "key_session (sup_local_key other repo) \<noteq> trim sid" by (simp add: key_session_local_key)
  then show "sup_inner (fst (sup_clear_session sid st)) (sup_local_key other repo) =
      sup_inner st (sup_local_key other repo)"
    using sup_reachable_inv [OF assms(1)] sup.clear_only_own [of "\<lambda>sid k. key_session k = sid" st sid]
    unfolding sup_inv_def
    by (simp add: sup_clear_session_def)
qed

definition no_redis :: "'e redis_env" where
  "no_redis = \<lparr>re_connect = False, re_get = (\<lambda>_. Inl ()), re_decode = (\<lambda>_. None), re_encode = (\<lambda>_. None)\<rparr>"

theorem clear_session_exact_witness:
  "\<not> fst (is_suppressed no_redis ''s1'' ''/r'' 4 (fst (sup_clear_session ''s1''
       (fst (mark_healthy no_redis ''s1'' ''/r'' 4 [] (suppression_new None False 3600))))))"
proof -
  let ?st = "fst (mark_healthy no_redis ''s1'' ''/r'' 4 [] (suppression_new None False 3600))"
  have t: "trim ''s1'' = ''s1''" by (simp add: trim_def trim_start_def trim_end_def is_ws_def)
  then have ok: "colon_free (trim ''s1'')" by (simp add: colon_free_def)
  have "sup_reachable colon_free ?st" by (intro sup_mark sup_start ok)
  from clear_session_exact [OF this ok, of "''/r''" no_redis 4] show ?thesis
    by (simp add: mark_healthy_def Let_def sup_record_local_def suppression_new_def)
qed

text \<open>a session identifier that contains the separator breaks the isolation.  Session a with
  repository b::c and session a::b with repository c share one local key, so clearing session a
  also evicts the suppression of session a::b.\<close>

theorem clear_session_over_evicts:
  "fst (is_suppressed no_redis ''a::b'' ''c'' 1
     (fst (mark_healthy no_redis ''a::b'' ''c'' 1 []
       (fst (mark_healthy no_redis ''a'' ''b::c'' 1 [] (suppression_new None False 3600)))))) \<and>
   \<not> fst (is_suppressed no_redis ''a::b'' ''c'' 1 (fst (sup_clear_session ''a''
     (fst (mark_healthy no_redis ''a::b'' ''c'' 1 []
       (fst (mark_healthy no_redis ''a'' ''b::c'' 1 [] (suppression_new None False 3600))))))))"
proof -
  have t: "trim ''a'' = ''a''" "trim ''a::b'' = ''a::b''" "trim ''c'' = ''c''" "trim ''b::c'' = ''b::c''"
    by (simp_all add: trim_def trim_start_def trim_end_def is_ws_def)
  show ?thesis
    by (simp add: is_suppressed_def mark_healthy_def Let_def sup_record_local_def sup_local_key_def
        sup_clear_session_def sup_evict_local_def suppression_new_def sup_try_redis_get_def redis_lookup_def t)
qed

text \<open>the Redis eviction cannot be widened by a hostile session identifier.  With a prefix free
  of glob characters, the pattern of a session matches exactly the keys that start with that
  session's literal prefix, whatever characters its identifier contains.\<close>

theorem clear_pattern_exact:
  assumes "redis_glob_laws glob" and "\<forall>c \<in> set (sup_key_prefix st). \<not> is_glob_meta c"
  shows "glob (sup_clear_pattern st sid) key \<longleftrightarrow>
    prefix (sup_key_prefix st @ ''suppression:'' @ trim sid @ ''::'') key"
proof -
  let ?q = "sup_key_prefix st @ ''suppression:''"
  have q: "\<forall>c \<in> set ?q. \<not> is_glob_meta c" using assms(2) by (auto simp: is_glob_meta_def)
  have "glob (sup_clear_pattern st sid) key \<longleftrightarrow>
      (\<exists>t. key = ?q @ t \<and> glob (escape_redis_glob (trim sid) @ ''::*'') t)"
    using glob_plain [OF assms(1) q, of "escape_redis_glob (trim sid) @ ''::*''" key]
    by (simp add: sup_clear_pattern_def)
  also have "\<dots> \<longleftrightarrow> (\<exists>u. key = ?q @ trim sid @ u \<and> glob ''::*'' u)"
    by (auto simp: glob_escaped [OF assms(1)])
  also have "\<dots> \<longleftrightarrow> (\<exists>w. key = ?q @ trim sid @ ''::'' @ w)"
  proof -
    have "glob (''::'' @ ''*'') u \<longleftrightarrow> (\<exists>w. u = ''::'' @ w \<and> glob ''*'' w)" for u
      by (rule glob_plain [OF assms(1)]) (simp add: is_glob_meta_def)
    moreover have "glob ''*'' w" for w using assms(1) by (simp add: redis_glob_laws_def)
    ultimately show ?thesis by auto
  qed
  finally show ?thesis by (auto simp: prefix_def)
qed

theorem clear_pattern_exact_witness:
  "\<not> glob_match (sup_clear_pattern (suppression_new None True 60) ''*'') ''suppression:s1::/r''"
proof -
  have "trim ''*'' = ''*''" by (simp add: trim_def trim_start_def trim_end_def is_ws_def)
  then show ?thesis
    by (subst clear_pattern_exact [OF glob_match_laws])
       (simp_all add: suppression_new_def redis_key_prefix_def prefix_def)
qed

end
