(* ===== verification/Context_Cache.thy ===== *)
theory Context_Cache
  imports Suppression
begin

text \<open>
  The compiled-context cache (\<open>mcp-server/src/context\_cache.rs\<close>), keyed by session, prompt hash and
  configured scopes, with a graph version checked on every hit.  The BLAKE3 digest is a parameter.
\<close>

section \<open>State and keys\<close>

datatype compile_context_status = CcOk | NoMatch | Degraded | DuplicateSuppressed

record cached_context =
  cac_status :: compile_context_status
  cac_reason_code :: "string option"
  cac_additional_context :: "string option"
  cac_scopes_considered :: "string list"
  cac_graph_version :: int
  cac_health :: "(string \<times> string) list"

record compiled_context_cache =
  cch_inner :: "string \<rightharpoonup> cached_context"
  cch_session_index :: "string \<rightharpoonup> string set"
  cch_redis_client :: bool
  cch_ttl_secs :: nat
  cch_key_prefix :: string

definition cache_default_ttl_secs :: nat where "cache_default_ttl_secs = 600"

definition cache_new :: "string option \<Rightarrow> bool \<Rightarrow> nat \<Rightarrow> compiled_context_cache" where
  "cache_new env_prefix redis_client ttl_secs =
     \<lparr>cch_inner = Map.empty, cch_session_index = Map.empty, cch_redis_client = redis_client,
      cch_ttl_secs = ttl_secs, cch_key_prefix = redis_key_prefix env_prefix\<rparr>"

definition cache_record_local ::
  "string \<Rightarrow> string \<Rightarrow> cached_context \<Rightarrow> compiled_context_cache \<Rightarrow> compiled_context_cache" where
  "cache_record_local session_id cache_key entry st =
     st\<lparr>cch_inner := (cch_inner st)(cache_key \<mapsto> entry),
        cch_session_index := (cch_session_index st)(trim session_id \<mapsto>
          insert cache_key (case cch_session_index st (trim session_id) of None \<Rightarrow> {} | Some ks \<Rightarrow> ks))\<rparr>"

definition prompt_hash :: "(string \<Rightarrow> string) \<Rightarrow> string \<Rightarrow> string" where
  "prompt_hash blake3_hex prompt = take 16 (blake3_hex prompt)"

fun bytes_le :: "string \<Rightarrow> string \<Rightarrow> bool" where
  "bytes_le [] t = True"
| "bytes_le (c # s) [] = False"
| "bytes_le (c # s) (d # t) =
     ((of_char c :: nat) < of_char d \<or> (c = d \<and> bytes_le s t))"

definition scope_fingerprint :: "string list \<Rightarrow> string" where
  "scope_fingerprint configured = join '','' (sort_by bytes_le configured)"

definition cache_key ::
  "(string \<Rightarrow> string) \<Rightarrow> compiled_context_cache \<Rightarrow> string \<Rightarrow> string \<Rightarrow> string list \<Rightarrow> string" where
  "cache_key blake3_hex st session_id prompt configured =
     cch_key_prefix st @ ''cache:'' @ trim session_id @ '':'' @ prompt_hash blake3_hex prompt @ '':'' @
     scope_fingerprint configured"

section \<open>Operations\<close>

definition cache_get ::
  "cached_context redis_env \<Rightarrow> (string \<Rightarrow> string) \<Rightarrow> string \<Rightarrow> string \<Rightarrow> string list \<Rightarrow> int \<Rightarrow>
     compiled_context_cache \<Rightarrow> cached_context option \<times> compiled_context_cache" where
  "cache_get env blake3_hex session_id prompt configured graph_version st =
     (let key = cache_key blake3_hex st session_id prompt configured;
          from_redis =
            (case redis_lookup env (cch_redis_client st) key of
               Some e \<Rightarrow> if cac_graph_version e = graph_version
                         then (Some e, cache_record_local session_id key e st) else (None, st)
             | None \<Rightarrow> (None, st))
      in case cch_inner st key of
           Some entry \<Rightarrow> if cac_graph_version entry = graph_version then (Some entry, st) else from_redis
         | None \<Rightarrow> from_redis)"

definition cache_set ::
  "cached_context redis_env \<Rightarrow> (string \<Rightarrow> string) \<Rightarrow> string \<Rightarrow> string \<Rightarrow> string list \<Rightarrow> cached_context \<Rightarrow>
     compiled_context_cache \<Rightarrow> compiled_context_cache \<times> redis_command list" where
  "cache_set env blake3_hex session_id prompt configured entry st =
     (let key = cache_key blake3_hex st session_id prompt configured;
          st' = cache_record_local session_id key entry st
      in (st', redis_setex env (cch_redis_client st') (cch_ttl_secs st') key entry))"

definition cache_evict_local :: "string \<Rightarrow> compiled_context_cache \<Rightarrow> compiled_context_cache" where
  "cache_evict_local session_id st =
     (case cch_session_index st (trim session_id) of
        None \<Rightarrow> st
      | Some keys \<Rightarrow> st\<lparr>cch_session_index := (cch_session_index st)(trim session_id := None),
                        cch_inner := (\<lambda>k. if k \<in> keys then None else cch_inner st k)\<rparr>)"

definition cache_clear_pattern :: "compiled_context_cache \<Rightarrow> string \<Rightarrow> string" where
  "cache_clear_pattern st session_id =
     cch_key_prefix st @ ''cache:'' @ escape_redis_glob (trim session_id) @ '':*''"

definition cache_clear_session ::
  "string \<Rightarrow> compiled_context_cache \<Rightarrow> compiled_context_cache \<times> redis_command list" where
  "cache_clear_session session_id st =
     (cache_evict_local session_id st,
      if cch_redis_client st then [ScanDel (cache_clear_pattern st session_id) ''cache_clear''] else [])"

section \<open>The contract of the indexed store\<close>

definition cache_owned :: "compiled_context_cache \<Rightarrow> string \<Rightarrow> string set" where
  "cache_owned st sid = (case cch_session_index st sid of None \<Rightarrow> {} | Some ks \<Rightarrow> ks)"

interpretation cache: session_indexed cch_inner cache_owned cache_record_local cache_evict_local
proof
  fix sid k e s k' sid'
  show "cch_inner (cache_record_local sid k e s) k' = (if k' = k then Some e else cch_inner s k')"
    by (simp add: cache_record_local_def)
  show "cache_owned (cache_record_local sid k e s) sid' =
      (if sid' = trim sid then insert k (cache_owned s sid') else cache_owned s sid')"
    by (simp add: cache_record_local_def cache_owned_def)
  show "cch_inner (cache_evict_local sid s) k = (if k \<in> cache_owned s (trim sid) then None else cch_inner s k)"
    by (simp add: cache_evict_local_def cache_owned_def split: option.splits)
  show "cache_owned (cache_evict_local sid s) sid' = (if sid' = trim sid then {} else cache_owned s sid')"
    by (auto simp: cache_evict_local_def cache_owned_def split: option.splits)
qed

section \<open>Lemmas\<close>

lemma cache_key_record [simp]:
  "cache_key h (cache_record_local sid k e st) s p c = cache_key h st s p c"
  by (simp add: cache_key_def cache_record_local_def)

lemma cache_get_version:
  "fst (cache_get env h sid p c v st) = Some e \<Longrightarrow> cac_graph_version e = v"
  by (auto simp: cache_get_def Let_def split: option.splits if_splits)

lemma cache_get_after_set:
  "cac_graph_version e = v \<Longrightarrow>
     cache_get env' h sid p c v (fst (cache_set env h sid p c e st)) = (Some e, fst (cache_set env h sid p c e st))"
  by (simp add: cache_get_def cache_set_def Let_def cache.lookup_record)

lemma cache_get_keeps_mirror:
  "cache.mirrored st \<Longrightarrow> cache.mirrored (snd (cache_get env h sid p c v st))"
  by (auto simp: cache_get_def Let_def split: option.splits intro: cache.mirrored_record)

lemma cache_set_keeps_mirror:
  "cache.mirrored st \<Longrightarrow> cache.mirrored (fst (cache_set env h sid p c e st))"
  by (simp add: cache_set_def Let_def cache.mirrored_record)

lemma cache_clear_keeps_mirror:
  "cache.mirrored st \<Longrightarrow> cache.mirrored (fst (cache_clear_session sid st))"
  by (simp add: cache_clear_session_def cache.mirrored_clear)

lemma owned_after_set:
  "cache_key h st sid p c \<in> cache_owned (fst (cache_set env h sid p c e st)) (trim sid)"
  by (simp add: cache_set_def Let_def cache.owned_record)

lemma cache_key_evict [simp]: "cache_key h (cache_evict_local sid st) s p c = cache_key h st s p c"
  by (simp add: cache_key_def cache_evict_local_def split: option.splits)

lemma cache_client_evict [simp]: "cch_redis_client (cache_evict_local sid st) = cch_redis_client st"
  by (simp add: cache_evict_local_def split: option.splits)

lemma cache_set_simps [simp]:
  "cache_key h' (fst (cache_set env h sid p c e st)) s' p' c' = cache_key h' st s' p' c'"
  "cch_redis_client (fst (cache_set env h sid p c e st)) = cch_redis_client st"
  by (simp_all add: cache_set_def Let_def) (simp add: cache_record_local_def)

section \<open>Properties\<close>

text \<open>the cache serves what was stored, for the current graph only, until the session is cleared. A stored context is returned for the same session, prompt and scopes at its version; nothing is ever returned for another version than the one asked; and after the session is cleared the stored context is gone, unless Redis still holds it.\<close>

theorem cache_round_trip:
  "fst (cache_get env' h sid p c (cac_graph_version e) (fst (cache_set env h sid p c e st))) = Some e \<and>
   (\<forall>x. fst (cache_get env' h sid p c v st) = Some x \<longrightarrow> cac_graph_version x = v) \<and>
   (\<not> cch_redis_client st \<longrightarrow>
      fst (cache_get env' h sid p c v (fst (cache_clear_session sid (fst (cache_set env h sid p c e st))))) = None)"
proof (intro conjI allI impI)
  assume "\<not> cch_redis_client st"
  then show "fst (cache_get env' h sid p c v (fst (cache_clear_session sid (fst (cache_set env h sid p c e st))))) = None"
    using cache.clear_removes [OF owned_after_set [of h st sid p c env e]]
    by (simp add: cache_get_def cache_clear_session_def Let_def redis_lookup_def)
qed (auto simp: cache_get_after_set dest: cache_get_version)

definition sample_context :: cached_context where
  "sample_context = \<lparr>cac_status = CcOk, cac_reason_code = None, cac_additional_context = Some ''x'',
     cac_scopes_considered = [''project''], cac_graph_version = 4, cac_health = []\<rparr>"

theorem cache_round_trip_witness:
  "fst (cache_get no_redis (\<lambda>s. s) ''s'' ''p'' [''global''] 5
     (fst (cache_clear_session ''s'' (fst (cache_set no_redis (\<lambda>s. s) ''s'' ''p'' [''global''] sample_context
        (cache_new None False 600)))))) = None"
  by (rule cache_round_trip [THEN conjunct2, THEN conjunct2, THEN mp]) (simp add: cache_new_def)

end
