(* ===== verification/Compile_Context.thy ===== *)
theory Compile_Context
  imports Compiler_Model Context_Cache
begin

text \<open>
  The \<open>compile\_context\<close> tool (\<open>mcp-server/src/tools/compile\_context.rs\<close>): suppression and cache
  lookup, retrieval, and what is recorded for which outcome.  The tool sees its retriever through
  the three methods of the trait \<open>SkillRetriever\<close>; the locale states what it relies on and is
  interpreted on the orchestrator.
\<close>

section \<open>Requests, responses and the tool\<close>

datatype trigger_kind = TriggerCompact | TriggerOther

record compile_context_request =
  cr_prompt :: string
  cr_session_id :: string
  cr_repo_path :: string
  cr_trigger :: "trigger_kind option"

record compile_context_response =
  cp_status :: compile_context_status
  cp_reason_code :: "string option"
  cp_additional_context :: "string option"
  cp_health :: "(string \<times> string) list"
  cp_scopes_considered :: "string list"
  cp_graph_version :: int
  cp_latency_ms :: nat
  cp_source :: string

text \<open>The trait \<open>SkillRetriever\<close>, over a retriever state and the environment of one request.\<close>

record ('env, 'r) skill_retriever =
  rt_retrieve :: "'env \<Rightarrow> string \<Rightarrow> string option \<Rightarrow> 'r \<Rightarrow> retrieval_outcome \<times> 'r"
  rt_current_graph_version :: "'r \<Rightarrow> int"
  rt_configured_scopes :: "'r \<Rightarrow> string list"

record 'r compile_context_tool =
  ct_retriever :: 'r
  ct_compiler :: template_only_compiler
  ct_state :: suppression_state
  ct_cache :: compiled_context_cache

text \<open>What one invocation meets: Redis behind either store, the digest, the clock.\<close>

record tool_env =
  tv_suppression_redis :: "suppression_entry redis_env"
  tv_cache_redis :: "cached_context redis_env"
  tv_blake3_hex :: "string \<Rightarrow> string"
  tv_elapsed_ms :: nat

section \<open>The compiled markdown\<close>

definition compiler_skill_of :: "retrieved_skill \<Rightarrow> compiler_skill_input" where
  "compiler_skill_of k =
     \<lparr>ci_name = sk_name (ss_skill (rsk_scored_skill k)),
      ci_description = sk_description (ss_skill (rsk_scored_skill k)),
      ci_score = ss_score (rsk_scored_skill k),
      ci_highlights = map (\<lambda>h. \<lparr>hi_kind = rsu_kind h, hi_title = rsu_title h, hi_content = rsu_content h,
                               hi_relevance = rsu_relevance h\<rparr>) (rsk_highlights k),
      ci_matched_scope = scope_type_str (ss_matched_scope (rsk_scored_skill k)),
      ci_rationale = ss_rationale (rsk_scored_skill k)\<rparr>"

definition compiler_cue_of :: "rescue_cue \<Rightarrow> compiler_rescue_cue_input" where
  "compiler_cue_of cue =
     \<lparr>rci_source_skill = rq_source_skill cue, rci_title = rq_title cue, rci_content = rq_content cue,
      rci_relevance = rq_relevance cue\<rparr>"

definition compile_markdown :: "template_only_compiler \<Rightarrow> string \<Rightarrow> retrieval_outcome \<Rightarrow> string" where
  "compile_markdown compiler prompt outcome =
     compile_with_rescue compiler prompt (map compiler_skill_of (ro_skills outcome))
       (map compiler_cue_of (ro_rescue_pool outcome))"

section \<open>Suppression or cache\<close>

definition try_suppression_or_cache ::
  "tool_env \<Rightarrow> compile_context_request \<Rightarrow> string list \<Rightarrow> int \<Rightarrow> 'r compile_context_tool \<Rightarrow>
     compile_context_response option \<times> 'r compile_context_tool" where
  "try_suppression_or_cache env request scopes graph_version tool =
     (let rs = tv_suppression_redis env; sid = cr_session_id request; repo = cr_repo_path request;
          (suppressed, s1) = is_suppressed rs sid repo graph_version (ct_state tool)
      in if suppressed then
           (let (gv, s2) = sup_graph_version rs sid repo s1;
                (sc, s3) = sup_scopes_considered rs sid repo s2
            in (Some \<lparr>cp_status = DuplicateSuppressed,
                      cp_reason_code = Some ''already_compiled_for_session'',
                      cp_additional_context = None, cp_health = [],
                      cp_scopes_considered = (case sc of None \<Rightarrow> scopes | Some x \<Rightarrow> x),
                      cp_graph_version = (case gv of None \<Rightarrow> graph_version | Some x \<Rightarrow> x),
                      cp_latency_ms = tv_elapsed_ms env, cp_source = ''suppression''\<rparr>,
                tool\<lparr>ct_state := s3\<rparr>))
         else
           (let (hit, c1) = cache_get (tv_cache_redis env) (tv_blake3_hex env) sid (cr_prompt request)
                              scopes graph_version (ct_cache tool);
                tool' = tool\<lparr>ct_state := s1, ct_cache := c1\<rparr>
            in (case hit of
                  None \<Rightarrow> (None, tool')
                | Some cached \<Rightarrow>
                    (Some \<lparr>cp_status = cac_status cached, cp_reason_code = cac_reason_code cached,
                           cp_additional_context = cac_additional_context cached,
                           cp_health = cac_health cached,
                           cp_scopes_considered = cac_scopes_considered cached,
                           cp_graph_version = cac_graph_version cached,
                           cp_latency_ms = tv_elapsed_ms env, cp_source = ''cache''\<rparr>, tool'))))"

section \<open>Handling a retrieval\<close>

definition response_of ::
  "compile_context_status \<Rightarrow> string option \<Rightarrow> string option \<Rightarrow> retrieval_outcome \<Rightarrow> compile_context_response"
where
  "response_of status reason context outcome =
     \<lparr>cp_status = status, cp_reason_code = reason, cp_additional_context = context,
      cp_health = ro_health outcome, cp_scopes_considered = ro_scopes_considered outcome,
      cp_graph_version = ro_graph_version outcome, cp_latency_ms = ro_latency_ms outcome,
      cp_source = ''retrieval''\<rparr>"

definition first_reason_code :: "retrieval_outcome \<Rightarrow> string option" where
  "first_reason_code outcome =
     (case ro_reason_codes outcome of [] \<Rightarrow> Some ''retrieval_degraded'' | r # _ \<Rightarrow> Some r)"

text \<open>Mark the session healthy and store the context, the tail of both recorded outcomes.\<close>

definition cache_and_suppress ::
  "tool_env \<Rightarrow> compile_context_request \<Rightarrow> retrieval_outcome \<Rightarrow> compile_context_status \<Rightarrow>
     string option \<Rightarrow> string option \<Rightarrow> string list \<Rightarrow> 'r compile_context_tool \<Rightarrow> 'r compile_context_tool" where
  "cache_and_suppress env request outcome status reason context scopes tool =
     (let (s1, _) = mark_healthy (tv_suppression_redis env) (cr_session_id request) (cr_repo_path request)
                      (ro_graph_version outcome) (ro_scopes_considered outcome) (ct_state tool);
          (c1, _) = cache_set (tv_cache_redis env) (tv_blake3_hex env) (cr_session_id request)
                      (cr_prompt request) scopes
                      \<lparr>cac_status = status, cac_reason_code = reason, cac_additional_context = context,
                       cac_scopes_considered = ro_scopes_considered outcome,
                       cac_graph_version = ro_graph_version outcome, cac_health = ro_health outcome\<rparr>
                      (ct_cache tool)
      in tool\<lparr>ct_state := s1, ct_cache := c1\<rparr>)"

definition cache_and_suppress_ok ::
  "tool_env \<Rightarrow> compile_context_request \<Rightarrow> retrieval_outcome \<Rightarrow> string \<Rightarrow> string list \<Rightarrow>
     'r compile_context_tool \<Rightarrow> 'r compile_context_tool" where
  "cache_and_suppress_ok env request outcome markdown scopes tool =
     cache_and_suppress env request outcome CcOk None (Some markdown) scopes tool"

definition handle_retrieval_result ::
  "tool_env \<Rightarrow> compile_context_request \<Rightarrow> retrieval_outcome \<Rightarrow> string list \<Rightarrow>
     'r compile_context_tool \<Rightarrow> compile_context_response \<times> 'r compile_context_tool" where
  "handle_retrieval_result env request outcome scopes tool =
     (if ro_skills outcome = [] then
        (if is_degraded outcome
         then (response_of Degraded (first_reason_code outcome) None outcome, tool)
         else (response_of NoMatch (Some ''no_relevant_skills'') None outcome,
               cache_and_suppress env request outcome NoMatch (Some ''no_relevant_skills'') None scopes tool))
      else
        (let markdown = compile_markdown (ct_compiler tool) (cr_prompt request) outcome in
         if is_degraded outcome
         then (response_of Degraded (first_reason_code outcome) (Some markdown) outcome, tool)
         else (response_of CcOk None (Some markdown) outcome,
               cache_and_suppress_ok env request outcome markdown scopes tool)))"

section \<open>The invocation\<close>

definition invoke_and_capture_outcome ::
  "('env, 'r) skill_retriever \<Rightarrow> tool_env \<Rightarrow> 'env \<Rightarrow> compile_context_request \<Rightarrow> 'r compile_context_tool \<Rightarrow>
     (compile_context_response \<times> retrieval_outcome option) \<times> 'r compile_context_tool" where
  "invoke_and_capture_outcome R env renv request tool =
     (let graph_version = rt_current_graph_version R (ct_retriever tool);
          scopes = rt_configured_scopes R (ct_retriever tool);
          compact_bypass = (cr_trigger request = Some TriggerCompact);
          (early, tool1) = (if compact_bypass then (None, tool)
                            else try_suppression_or_cache env request scopes graph_version tool)
      in case early of
           Some response \<Rightarrow> ((response, None), tool1)
         | None \<Rightarrow>
             (let (outcome, r') = rt_retrieve R renv (cr_prompt request) (Some (cr_repo_path request))
                                    (ct_retriever tool1);
                  (response, tool2) = handle_retrieval_result env request outcome scopes
                                        (tool1\<lparr>ct_retriever := r'\<rparr>)
              in ((response, Some outcome), tool2)))"

definition invoke ::
  "('env, 'r) skill_retriever \<Rightarrow> tool_env \<Rightarrow> 'env \<Rightarrow> compile_context_request \<Rightarrow> 'r compile_context_tool \<Rightarrow>
     compile_context_response \<times> 'r compile_context_tool" where
  "invoke R env renv request tool =
     (let ((response, _), tool') = invoke_and_capture_outcome R env renv request tool in (response, tool'))"

section \<open>The retriever contract\<close>

locale retriever_contract =
  fixes R :: "('env, 'r) skill_retriever"
  assumes outcome_version:
      "ro_graph_version (fst (rt_retrieve R env p repo r)) = rt_current_graph_version R r"
    and version_kept:
      "rt_current_graph_version R (snd (rt_retrieve R env p repo r)) = rt_current_graph_version R r"
    and scopes_kept:
      "rt_configured_scopes R (snd (rt_retrieve R env p repo r)) = rt_configured_scopes R r"
begin

text \<open>The stores after an invocation that retrieved.\<close>

lemma invoke_retrieved:
  assumes "invoke_and_capture_outcome R env renv request tool = ((response, Some outcome), tool')"
  shows "\<exists>s c. (cr_trigger request = Some TriggerCompact \<and> s = ct_state tool \<and> c = ct_cache tool \<or>
      cr_trigger request \<noteq> Some TriggerCompact \<and>
      s = snd (is_suppressed (tv_suppression_redis env) (cr_session_id request) (cr_repo_path request)
            (rt_current_graph_version R (ct_retriever tool)) (ct_state tool)) \<and>
      c = snd (cache_get (tv_cache_redis env) (tv_blake3_hex env) (cr_session_id request) (cr_prompt request)
            (rt_configured_scopes R (ct_retriever tool)) (rt_current_graph_version R (ct_retriever tool))
            (ct_cache tool))) \<and>
    (outcome, ct_retriever tool') = rt_retrieve R renv (cr_prompt request) (Some (cr_repo_path request)) (ct_retriever tool) \<and>
    (response, tool') = handle_retrieval_result env request outcome
      (rt_configured_scopes R (ct_retriever tool))
      (tool\<lparr>ct_retriever := ct_retriever tool', ct_state := s, ct_cache := c\<rparr>)"
  using assms
  by (cases "cr_trigger request = Some TriggerCompact")
     (auto simp: invoke_and_capture_outcome_def try_suppression_or_cache_def handle_retrieval_result_def
        cache_and_suppress_ok_def cache_and_suppress_def Let_def
        split: prod.splits option.splits if_splits)

lemma handle_status:
  "handle_retrieval_result env request outcome scopes tool = (response, tool') \<Longrightarrow>
     cp_status response = (if is_degraded outcome then Degraded
                           else if ro_skills outcome = [] then NoMatch else CcOk) \<and>
     cp_additional_context response = (if ro_skills outcome = [] then None
        else Some (compile_markdown (ct_compiler tool) (cr_prompt request) outcome)) \<and>
     cp_source response = ''retrieval'' \<and> cp_graph_version response = ro_graph_version outcome"
  by (auto simp: handle_retrieval_result_def response_of_def Let_def split: if_splits)

lemma handle_degraded_keeps:
  "handle_retrieval_result env request outcome scopes tool = (response, tool') \<Longrightarrow>
     cp_status response = Degraded \<Longrightarrow> tool' = tool"
  by (auto simp: handle_retrieval_result_def response_of_def Let_def split: if_splits)

lemma handle_recorded:
  assumes "handle_retrieval_result env request outcome scopes tool = (response, tool')"
    and "cp_status response \<noteq> Degraded"
  shows "sup_inner (ct_state tool') (sup_local_key (cr_session_id request) (cr_repo_path request)) =
      Some \<lparr>se_suppressed = True, se_graph_version = ro_graph_version outcome,
            se_scopes_considered = ro_scopes_considered outcome\<rparr> \<and>
    ct_cache tool' = fst (cache_set (tv_cache_redis env) (tv_blake3_hex env) (cr_session_id request)
      (cr_prompt request) scopes
      \<lparr>cac_status = cp_status response, cac_reason_code = cp_reason_code response,
       cac_additional_context = cp_additional_context response,
       cac_scopes_considered = ro_scopes_considered outcome,
       cac_graph_version = ro_graph_version outcome, cac_health = ro_health outcome\<rparr> (ct_cache tool)) \<and>
    (\<forall>k. k \<noteq> sup_local_key (cr_session_id request) (cr_repo_path request) \<longrightarrow>
       sup_inner (ct_state tool') k = sup_inner (ct_state tool) k) \<and>
    sup_redis_client (ct_state tool') = sup_redis_client (ct_state tool)"
  using assms
  by (auto simp: handle_retrieval_result_def response_of_def cache_and_suppress_ok_def
      cache_and_suppress_def mark_healthy_def sup_record_local_def Let_def
      split: if_splits prod.splits)

text \<open>A suppressed session is answered without a retrieval.\<close>

lemma suppressed_answer:
  assumes "sup_inner (ct_state tool) (sup_local_key (cr_session_id request) (cr_repo_path request)) = Some e"
    and "se_suppressed e" and "se_graph_version e = rt_current_graph_version R (ct_retriever tool)"
    and "cr_trigger request \<noteq> Some TriggerCompact"
  shows "\<exists>response. invoke_and_capture_outcome R env renv request tool = ((response, None), tool) \<and>
    cp_status response = DuplicateSuppressed \<and> cp_additional_context response = None \<and>
    cp_graph_version response = se_graph_version e \<and> cp_scopes_considered response = se_scopes_considered e"
  using assms
  by (simp add: invoke_and_capture_outcome_def try_suppression_or_cache_def is_suppressed_def
      sup_graph_version_def sup_scopes_considered_def Let_def)

lemma repeat_suppressed:
  assumes first: "invoke_and_capture_outcome R env renv request tool = ((response, Some outcome), tool')"
    and status: "cp_status response \<noteq> Degraded"
    and same: "sup_local_key (cr_session_id request2) (cr_repo_path request2) =
               sup_local_key (cr_session_id request) (cr_repo_path request)"
    and trig: "cr_trigger request2 \<noteq> Some TriggerCompact"
  shows "\<exists>response2. invoke_and_capture_outcome R env2 renv2 request2 tool' = ((response2, None), tool') \<and>
    cp_status response2 = DuplicateSuppressed \<and> cp_additional_context response2 = None \<and>
    cp_graph_version response2 = cp_graph_version response"
proof -
  from invoke_retrieved [OF first] obtain s c where
    r: "(outcome, ct_retriever tool') = rt_retrieve R renv (cr_prompt request) (Some (cr_repo_path request)) (ct_retriever tool)"
    and h: "handle_retrieval_result env request outcome (rt_configured_scopes R (ct_retriever tool))
      (tool\<lparr>ct_retriever := ct_retriever tool', ct_state := s, ct_cache := c\<rparr>) = (response, tool')"
    by (auto dest: sym)
  have v: "ro_graph_version outcome = rt_current_graph_version R (ct_retriever tool')"
    using outcome_version version_kept r by (metis fst_conv snd_conv)
  from handle_recorded [OF h status] have
    "sup_inner (ct_state tool') (sup_local_key (cr_session_id request2) (cr_repo_path request2)) =
      Some \<lparr>se_suppressed = True, se_graph_version = ro_graph_version outcome,
            se_scopes_considered = ro_scopes_considered outcome\<rparr>" by (simp add: same)
  from suppressed_answer [OF this _ _ trig, where env = env2 and renv = renv2] v
    handle_status [OF h, THEN conjunct2, THEN conjunct2, THEN conjunct2] show ?thesis by auto
qed

text \<open>A degraded answer leaves both stores as a lookup leaves them.\<close>

lemma degraded_not_recorded:
  assumes "invoke_and_capture_outcome R env renv request tool = ((response, Some outcome), tool')"
    and "cp_status response = Degraded"
    and "\<not> sup_redis_client (ct_state tool)" and "\<not> cch_redis_client (ct_cache tool)"
  shows "ct_state tool' = ct_state tool \<and> ct_cache tool' = ct_cache tool"
proof -
  have "snd (is_suppressed e a b v (ct_state tool)) = ct_state tool" for e a b v
    using assms(3) by (auto simp: is_suppressed_def sup_try_redis_get_def redis_lookup_def Let_def split: option.splits)
  moreover have "snd (cache_get e h a p sc v (ct_cache tool)) = ct_cache tool" for e h a p sc v
    using assms(4) by (auto simp: cache_get_def redis_lookup_def Let_def split: option.splits)
  ultimately obtain r where
    h: "handle_retrieval_result env request outcome (rt_configured_scopes R (ct_retriever tool))
      (tool\<lparr>ct_retriever := r, ct_state := ct_state tool, ct_cache := ct_cache tool\<rparr>) = (response, tool')"
    using invoke_retrieved [OF assms(1)] by (auto dest: sym)
  from handle_degraded_keeps [OF h assms(2)] show ?thesis by simp
qed

lemma compact_retrieves:
  "cr_trigger request = Some TriggerCompact \<Longrightarrow>
     \<exists>response outcome tool'. invoke_and_capture_outcome R env renv request tool = ((response, Some outcome), tool')"
  by (auto simp: invoke_and_capture_outcome_def split: prod.splits)

text \<open>The cache knows the session and the prompt, not the repository.\<close>

lemma cache_hit_answer:
  assumes "cch_inner (ct_cache tool) (cache_key (tv_blake3_hex env) (ct_cache tool) (cr_session_id request)
             (cr_prompt request) (rt_configured_scopes R (ct_retriever tool))) = Some e"
    and "cac_graph_version e = rt_current_graph_version R (ct_retriever tool)"
    and "sup_inner (ct_state tool) (sup_local_key (cr_session_id request) (cr_repo_path request)) = None"
    and "\<not> sup_redis_client (ct_state tool)"
    and "cr_trigger request \<noteq> Some TriggerCompact"
  shows "\<exists>response. invoke_and_capture_outcome R env renv request tool = ((response, None), tool) \<and>
    cp_status response = cac_status e \<and> cp_additional_context response = cac_additional_context e \<and>
    cp_source response = ''cache''"
  using assms
  by (simp add: invoke_and_capture_outcome_def try_suppression_or_cache_def is_suppressed_def
      sup_try_redis_get_def redis_lookup_def cache_get_def Let_def)

lemma other_repository_cached:
  assumes first: "invoke_and_capture_outcome R env renv request tool = ((response, Some outcome), tool')"
    and status: "cp_status response \<noteq> Degraded"
    and request2: "cr_session_id request2 = cr_session_id request" "cr_prompt request2 = cr_prompt request"
      "trim (cr_repo_path request2) \<noteq> trim (cr_repo_path request)" "cr_trigger request2 \<noteq> Some TriggerCompact"
    and fresh: "sup_inner (ct_state tool) (sup_local_key (cr_session_id request2) (cr_repo_path request2)) = None"
    and local: "\<not> sup_redis_client (ct_state tool)" "\<not> cch_redis_client (ct_cache tool)"
    and hash: "tv_blake3_hex env2 = tv_blake3_hex env"
  shows "\<exists>response2. invoke_and_capture_outcome R env2 renv2 request2 tool' = ((response2, None), tool') \<and>
    cp_status response2 = cp_status response \<and>
    cp_additional_context response2 = cp_additional_context response \<and> cp_source response2 = ''cache''"
proof -
  have id: "snd (is_suppressed e a b v (ct_state tool)) = ct_state tool" for e a b v
    using local(1) by (auto simp: is_suppressed_def sup_try_redis_get_def redis_lookup_def Let_def split: option.splits)
  from invoke_retrieved [OF first] obtain s c where
    d: "s = ct_state tool \<or> s = snd (is_suppressed (tv_suppression_redis env) (cr_session_id request)
         (cr_repo_path request) (rt_current_graph_version R (ct_retriever tool)) (ct_state tool))"
    and r: "(outcome, ct_retriever tool') = rt_retrieve R renv (cr_prompt request) (Some (cr_repo_path request)) (ct_retriever tool)"
    and h': "(response, tool') = handle_retrieval_result env request outcome (rt_configured_scopes R (ct_retriever tool))
      (tool\<lparr>ct_retriever := ct_retriever tool', ct_state := s, ct_cache := c\<rparr>)"
    by blast
  have s: "s = ct_state tool" using d id by auto
  note h = h' [symmetric]
  note rec = handle_recorded [OF h status]
  have sc: "rt_configured_scopes R (ct_retriever tool') = rt_configured_scopes R (ct_retriever tool)"
    and v: "ro_graph_version outcome = rt_current_graph_version R (ct_retriever tool')"
    using scopes_kept outcome_version version_kept r by (metis fst_conv snd_conv)+
  have "sup_local_key (cr_session_id request2) (cr_repo_path request2) \<noteq>
        sup_local_key (cr_session_id request) (cr_repo_path request)"
    using request2(1,3) by (simp add: sup_local_key_def)
  with rec fresh s have fresh': "sup_inner (ct_state tool')
      (sup_local_key (cr_session_id request2) (cr_repo_path request2)) = None"
    by simp
  have cl: "\<not> sup_redis_client (ct_state tool')" using rec s local(1) by simp
  obtain e where hit: "cch_inner (ct_cache tool') (cache_key (tv_blake3_hex env2) (ct_cache tool')
      (cr_session_id request2) (cr_prompt request2) (rt_configured_scopes R (ct_retriever tool'))) = Some e"
    and e: "cac_status e = cp_status response" "cac_additional_context e = cp_additional_context response"
      "cac_graph_version e = ro_graph_version outcome"
    using rec by (auto simp: request2 hash sc) (auto simp: cache_set_def Let_def cache.lookup_record)
  from cache_hit_answer [OF hit _ fresh' cl request2(4)] e v show ?thesis by simp
qed

end

text \<open>The orchestrator is a retriever that honours the contract.\<close>

definition orchestrator_retriever :: "(request_env, orchestrator) skill_retriever" where
  "orchestrator_retriever =
     \<lparr>rt_retrieve = retrieve, rt_current_graph_version = current_graph_version,
      rt_configured_scopes = configured_scopes\<rparr>"

interpretation orch: retriever_contract orchestrator_retriever
proof
  fix env p repo r
  show "ro_graph_version (fst (rt_retrieve orchestrator_retriever env p repo r)) =
      rt_current_graph_version orchestrator_retriever r"
    by (auto simp: orchestrator_retriever_def retrieve_def Let_def current_graph_version_def
        split: prod.splits sum.splits)
  show "rt_current_graph_version orchestrator_retriever (snd (rt_retrieve orchestrator_retriever env p repo r)) =
      rt_current_graph_version orchestrator_retriever r"
    by (simp add: orchestrator_retriever_def current_graph_version_def retrieve_keeps)
  show "rt_configured_scopes orchestrator_retriever (snd (rt_retrieve orchestrator_retriever env p repo r)) =
      rt_configured_scopes orchestrator_retriever r"
    by (cases "or_scope_resolver r") (simp_all add: orchestrator_retriever_def configured_scopes_def retrieve_keeps)
qed

section \<open>Sample requests\<close>

definition sample_tool_env :: tool_env where
  "sample_tool_env = \<lparr>tv_suppression_redis = no_redis, tv_cache_redis = no_redis,
     tv_blake3_hex = (\<lambda>s. s), tv_elapsed_ms = 3\<rparr>"

definition sample_tool :: "orchestrator compile_context_tool" where
  "sample_tool = \<lparr>ct_retriever = sample_orchestrator, ct_compiler = template_only_compiler_default,
     ct_state = suppression_new None False 3600, ct_cache = cache_new None False 600\<rparr>"

definition sample_request :: "string \<Rightarrow> trigger_kind option \<Rightarrow> compile_context_request" where
  "sample_request repo trigger = \<lparr>cr_prompt = ''p'', cr_session_id = ''s'', cr_repo_path = repo, cr_trigger = trigger\<rparr>"

lemma sample_healthy: "\<not> is_degraded (fst (retrieve (sample_env (Ok [])) prompt repo sample_orchestrator))"
  by (simp add: is_degraded_def retrieve_def resolve_scopes_def sample_orchestrator_def new_with_breaker_def
      sample_env_def guarded_embedding_def allow_request_def breaker_new_def Let_def
      search_scopes_concurrently_def search_scope_def run_scope_search_with_timeout_def)

lemma sample_degraded:
  "is_degraded (fst (retrieve (sample_env (Err (EmbTimeout 500))) prompt repo sample_orchestrator))"
  by (simp add: is_degraded_def retrieve_def resolve_scopes_def sample_orchestrator_def new_with_breaker_def
      sample_env_def guarded_embedding_def allow_request_def breaker_new_def Let_def)

lemma sample_run:
  obtains response tool' where
    "invoke_and_capture_outcome orchestrator_retriever sample_tool_env (sample_env answer)
       (sample_request repo trigger) sample_tool =
     ((response, Some (fst (retrieve (sample_env answer) ''p'' (Some repo) sample_orchestrator))), tool')"
proof -
  let ?o = "fst (retrieve (sample_env answer) ''p'' (Some repo) sample_orchestrator)"
  have "\<exists>response tool'. invoke_and_capture_outcome orchestrator_retriever sample_tool_env (sample_env answer)
       (sample_request repo trigger) sample_tool = ((response, Some ?o), tool')"
    by (simp add: invoke_and_capture_outcome_def try_suppression_or_cache_def is_suppressed_def
        sup_try_redis_get_def redis_lookup_def cache_get_def orchestrator_retriever_def
        sample_tool_def sample_request_def suppression_new_def cache_new_def case_prod_unfold Let_def)
  then show ?thesis using that by blast
qed

section \<open>Properties\<close>

text \<open>C4: the status tells the truth about the retrieval. When an invocation retrieved, the outcome is the orchestrator's for this prompt and repository, the status is Degraded exactly for a degraded outcome and otherwise Ok or NoMatch according to whether there are skills, and the response carries the compiled markdown exactly when there are skills.\<close>

theorem compile_context_status_sound:
  assumes "invoke_and_capture_outcome orchestrator_retriever env renv request tool = ((response, Some outcome), tool')"
  shows "outcome = fst (retrieve renv (cr_prompt request) (Some (cr_repo_path request)) (ct_retriever tool)) \<and>
    cp_status response = (if is_degraded outcome then Degraded
                          else if ro_skills outcome = [] then NoMatch else CcOk) \<and>
    cp_additional_context response = (if ro_skills outcome = [] then None
      else Some (compile_markdown (ct_compiler tool) (cr_prompt request) outcome)) \<and>
    cp_source response = ''retrieval''"
proof -
  from orch.invoke_retrieved [OF assms] obtain s c where
    r: "(outcome, ct_retriever tool') = rt_retrieve orchestrator_retriever renv (cr_prompt request)
          (Some (cr_repo_path request)) (ct_retriever tool)"
    and h: "(response, tool') = handle_retrieval_result env request outcome
      (rt_configured_scopes orchestrator_retriever (ct_retriever tool))
      (tool\<lparr>ct_retriever := ct_retriever tool', ct_state := s, ct_cache := c\<rparr>)" by blast
  have "outcome = fst (retrieve renv (cr_prompt request) (Some (cr_repo_path request)) (ct_retriever tool))"
    using r by (simp add: orchestrator_retriever_def) (metis fst_conv)
  with orch.handle_status [OF h [symmetric]] show ?thesis by simp
qed

theorem compile_context_status_sound_witness:
  "cp_status (fst (fst (invoke_and_capture_outcome orchestrator_retriever sample_tool_env
     (sample_env (Err (EmbTimeout 500))) (sample_request ''/r'' None) sample_tool))) = Degraded"
proof -
  obtain response tool' where run: "invoke_and_capture_outcome orchestrator_retriever sample_tool_env
     (sample_env (Err (EmbTimeout 500))) (sample_request ''/r'' None) sample_tool =
     ((response, Some (fst (retrieve (sample_env (Err (EmbTimeout 500))) ''p'' (Some ''/r'') sample_orchestrator))), tool')"
    by (rule sample_run)
  from compile_context_status_sound [OF run] sample_degraded show ?thesis by (simp add: run)
qed

text \<open>C36: a session gets its context once per repository and graph version. After an invocation that retrieved and was not degraded, the next one for the same session and repository, whatever its prompt, is answered DuplicateSuppressed with the same version, without a retrieval and without touching the tool's state, unless it is a compact re-injection.\<close>

theorem compile_context_once_per_session:
  assumes "invoke_and_capture_outcome orchestrator_retriever env renv request tool = ((response, Some outcome), tool')"
    and "cp_status response \<noteq> Degraded"
    and "trim (cr_session_id request2) = trim (cr_session_id request)"
    and "trim (cr_repo_path request2) = trim (cr_repo_path request)"
    and "cr_trigger request2 \<noteq> Some TriggerCompact"
  shows "\<exists>response2. invoke_and_capture_outcome orchestrator_retriever env2 renv2 request2 tool' =
      ((response2, None), tool') \<and> cp_status response2 = DuplicateSuppressed \<and>
    cp_additional_context response2 = None \<and> cp_graph_version response2 = cp_graph_version response"
  by (rule orch.repeat_suppressed [OF assms(1,2) _ assms(5)]) (simp add: sup_local_key_def assms(3,4))

theorem compile_context_once_per_session_witness:
  "cp_status (fst (fst (invoke_and_capture_outcome orchestrator_retriever sample_tool_env
     (sample_env (Ok [])) (sample_request ''/r'' None)
     (snd (invoke_and_capture_outcome orchestrator_retriever sample_tool_env
        (sample_env (Ok [])) (sample_request ''/r'' None) sample_tool))))) = DuplicateSuppressed"
proof -
  obtain response tool' where run: "invoke_and_capture_outcome orchestrator_retriever sample_tool_env
     (sample_env (Ok [])) (sample_request ''/r'' None) sample_tool =
     ((response, Some (fst (retrieve (sample_env (Ok [])) ''p'' (Some ''/r'') sample_orchestrator))), tool')"
    by (rule sample_run)
  have "cp_status response = (if ro_skills (fst (retrieve (sample_env (Ok [])) ''p'' (Some ''/r'') sample_orchestrator)) = []
      then NoMatch else CcOk)"
    using orch.invoke_retrieved [OF run] orch.handle_status sample_healthy by metis
  then have "cp_status response \<noteq> Degraded" by simp
  from compile_context_once_per_session [OF run this, of "sample_request ''/r'' None" sample_tool_env "sample_env (Ok [])"]
  obtain response2 where "invoke_and_capture_outcome orchestrator_retriever sample_tool_env (sample_env (Ok []))
      (sample_request ''/r'' None) tool' = ((response2, None), tool')" "cp_status response2 = DuplicateSuppressed"
    by (auto simp: sample_request_def)
  then show ?thesis by (simp add: run)
qed

text \<open>a degraded answer is never recorded, and a compact re-injection is never suppressed.  Without
  Redis, after a degraded retrieval both stores are as before, so the next call retrieves again; and
  an invocation triggered by compaction always performs a retrieval.\<close>

theorem compile_context_degraded_not_recorded:
  assumes "invoke_and_capture_outcome orchestrator_retriever env renv request tool = ((response, Some outcome), tool')"
    and "\<not> sup_redis_client (ct_state tool)" and "\<not> cch_redis_client (ct_cache tool)"
    and "cr_trigger reinject = Some TriggerCompact"
  shows "(cp_status response = Degraded \<longrightarrow> ct_state tool' = ct_state tool \<and> ct_cache tool' = ct_cache tool) \<and>
    (\<exists>response2 outcome2 tool2. invoke_and_capture_outcome orchestrator_retriever env2 renv2 reinject tool' =
       ((response2, Some outcome2), tool2))"
  using orch.degraded_not_recorded [OF assms(1) _ assms(2,3)] orch.compact_retrieves [OF assms(4)] by blast

theorem compile_context_degraded_not_recorded_witness:
  "ct_state (snd (invoke_and_capture_outcome orchestrator_retriever sample_tool_env
     (sample_env (Err (EmbTimeout 500))) (sample_request ''/r'' None) sample_tool)) = suppression_new None False 3600"
proof -
  obtain response tool' where run: "invoke_and_capture_outcome orchestrator_retriever sample_tool_env
     (sample_env (Err (EmbTimeout 500))) (sample_request ''/r'' None) sample_tool =
     ((response, Some (fst (retrieve (sample_env (Err (EmbTimeout 500))) ''p'' (Some ''/r'') sample_orchestrator))), tool')"
    by (rule sample_run)
  have st: "cp_status response = Degraded"
    using orch.invoke_retrieved [OF run] orch.handle_status sample_degraded by metis
  have cl: "\<not> sup_redis_client (ct_state sample_tool)" "\<not> cch_redis_client (ct_cache sample_tool)"
    by (simp_all add: sample_tool_def suppression_new_def cache_new_def)
  have "ct_state tool' = ct_state sample_tool"
    using compile_context_degraded_not_recorded [OF run cl, of "sample_request ''/r'' (Some TriggerCompact)"] st
    by (simp add: sample_request_def)
  then have "ct_state tool' = suppression_new None False 3600" by (simp add: sample_tool_def)
  then show ?thesis by (simp add: run)
qed

text \<open>the cache crosses repositories. Its key has the session, the prompt and the configured scopes but not the repository: after a context was compiled for one repository, the same prompt in the same session for another repository, not yet suppressed there, is answered from the cache with the first repository's context, without any retrieval for the second.\<close>

theorem compile_context_cache_crosses_repositories:
  assumes "invoke_and_capture_outcome orchestrator_retriever env renv request tool = ((response, Some outcome), tool')"
    and "cp_status response \<noteq> Degraded"
    and "cr_session_id request2 = cr_session_id request" and "cr_prompt request2 = cr_prompt request"
    and "trim (cr_repo_path request2) \<noteq> trim (cr_repo_path request)"
    and "cr_trigger request2 \<noteq> Some TriggerCompact"
    and "sup_inner (ct_state tool) (sup_local_key (cr_session_id request2) (cr_repo_path request2)) = None"
    and "\<not> sup_redis_client (ct_state tool)" and "\<not> cch_redis_client (ct_cache tool)"
    and "tv_blake3_hex env2 = tv_blake3_hex env"
  shows "\<exists>response2. invoke_and_capture_outcome orchestrator_retriever env2 renv2 request2 tool' =
      ((response2, None), tool') \<and> cp_status response2 = cp_status response \<and>
    cp_additional_context response2 = cp_additional_context response \<and> cp_source response2 = ''cache''"
  using assms by (rule orch.other_repository_cached)

theorem compile_context_cache_crosses_repositories_witness:
  "cp_source (fst (fst (invoke_and_capture_outcome orchestrator_retriever sample_tool_env
     (sample_env (Ok [])) (sample_request ''/other'' None)
     (snd (invoke_and_capture_outcome orchestrator_retriever sample_tool_env
        (sample_env (Ok [])) (sample_request ''/r'' None) sample_tool))))) = ''cache''"
proof -
  obtain response tool' where run: "invoke_and_capture_outcome orchestrator_retriever sample_tool_env
     (sample_env (Ok [])) (sample_request ''/r'' None) sample_tool =
     ((response, Some (fst (retrieve (sample_env (Ok [])) ''p'' (Some ''/r'') sample_orchestrator))), tool')"
    by (rule sample_run)
  have "cp_status response = (if ro_skills (fst (retrieve (sample_env (Ok [])) ''p'' (Some ''/r'') sample_orchestrator)) = []
      then NoMatch else CcOk)"
    using orch.invoke_retrieved [OF run] orch.handle_status sample_healthy by metis
  then have st: "cp_status response \<noteq> Degraded" by simp
  have t: "trim ''/r'' = ''/r''" "trim ''/other'' = ''/other''"
    by (simp_all add: trim_no_ws is_ws_def)
  have "\<exists>response2. invoke_and_capture_outcome orchestrator_retriever sample_tool_env (sample_env (Ok []))
      (sample_request ''/other'' None) tool' = ((response2, None), tool') \<and> cp_status response2 = cp_status response \<and>
    cp_additional_context response2 = cp_additional_context response \<and> cp_source response2 = ''cache''"
    by (rule compile_context_cache_crosses_repositories [OF run st])
       (simp_all add: sample_request_def t sample_tool_def suppression_new_def cache_new_def)
  then show ?thesis by (auto simp: run)
qed

end
