(* ===== verification/Outbox.thy ===== *)
theory Outbox
  imports Context_Cache Domain_Model
begin

text \<open>
  The transactional outbox (\<open>infrastructure/src/persistence/outbox.rs\<close>): events, the payload contract,
  the Postgres table as a list of rows with each statement as one atomic function, the relay to
  the vector store and its two draining loops.  The database is a parameter per statement: whether it
  answers, its clock, and the order of RETURNING.  Times are seconds, identifiers their text.
\<close>

section \<open>Payloads\<close>

text \<open>A JSON value; a number is the real its double denotes.\<close>

datatype json = JNull | JBool bool | JNum rat | JStr string | JArr "json list" | JObj "(string \<times> json) list"

fun json_get :: "json \<Rightarrow> string \<Rightarrow> json option" where
  "json_get (JObj kvs) key = map_of kvs key"
| "json_get _ key = None"

fun json_str :: "json \<Rightarrow> string option" where
  "json_str (JStr s) = Some s"
| "json_str _ = None"

fun json_array :: "json \<Rightarrow> json list option" where
  "json_array (JArr xs) = Some xs"
| "json_array _ = None"

fun json_f32 :: "json \<Rightarrow> f32 option" where
  "json_f32 (JNum q) = Some (rnd (q < 0) q)"
| "json_f32 _ = None"

record vector_upsert_request =
  vu_content_hash :: string
  vu_vector :: "f32 list"
  vu_payload :: json

definition hash_message :: string where
  "hash_message = ''payload.content_hash must be a non-empty string''"

definition array_message :: string where
  "array_message = ''payload.vector must be a non-empty numeric array''"

definition numeric_message :: string where
  "numeric_message = ''payload.vector must contain only numeric values''"

fun parse_vector :: "json list \<Rightarrow> (string, f32 list) result" where
  "parse_vector [] = Ok []"
| "parse_vector (item # items) =
     (case json_f32 item of
        None \<Rightarrow> Err numeric_message
      | Some v \<Rightarrow> rbind (parse_vector items) (\<lambda>vs. Ok (v # vs)))"

definition parse_vector_upsert_request :: "json \<Rightarrow> (string, vector_upsert_request) result" where
  "parse_vector_upsert_request payload =
     (case Option.bind (json_get payload ''content_hash'') json_str of
        None \<Rightarrow> Err hash_message
      | Some raw \<Rightarrow>
          if trim raw = [] then Err hash_message
          else (case Option.bind (json_get payload ''vector'') json_array of
                  None \<Rightarrow> Err array_message
                | Some values \<Rightarrow>
                    if values = [] then Err array_message
                    else rbind (parse_vector values) (\<lambda>vector.
                      Ok \<lparr>vu_content_hash = trim raw, vu_vector = vector,
                          vu_payload = (case json_get payload ''payload'' of None \<Rightarrow> JNull | Some b \<Rightarrow> b)\<rparr>)))"

text \<open>The first eight bytes of the BLAKE3 digest, big endian; the digest is a parameter.\<close>

definition qdrant_point_id :: "(string \<Rightarrow> nat list) \<Rightarrow> string \<Rightarrow> nat" where
  "qdrant_point_id blake3 content_hash = foldl (\<lambda>n b. 256 * n + b mod 256) 0 (take 8 (blake3 content_hash))"

section \<open>Events, rows and errors\<close>

type_synonym uuid = string

record outbox_event =
  oe_event_id :: uuid
  oe_event_type :: string
  oe_correlation_id :: uuid
  oe_idempotency_key :: string
  oe_schema_version :: nat
  oe_timestamp :: int
  oe_payload :: json

datatype outbox_status = OPending | OProcessing | OPublished | OFailed

fun outbox_status_str :: "outbox_status \<Rightarrow> string" where
  "outbox_status_str OPending = ''pending''"
| "outbox_status_str OProcessing = ''processing''"
| "outbox_status_str OPublished = ''published''"
| "outbox_status_str OFailed = ''failed''"

text \<open>A row of \<open>outbox\_events\<close>; the record handed to callers is the row without its status.\<close>

record outbox_record =
  ob_event :: outbox_event
  ob_attempts :: int
  ob_stream_id :: "string option"
  ob_last_error :: "string option"
  ob_available_at :: int

record outbox_row = outbox_record +
  ob_status :: outbox_status
  ob_published_at :: "int option"

type_synonym outbox_table = "outbox_row list"

abbreviation row_id :: "'a outbox_record_scheme \<Rightarrow> uuid" where
  "row_id r \<equiv> oe_event_id (ob_event r)"

datatype outbox_error =
    InvalidContract string
  | IdempotencyConflict string
  | EventNotFound uuid
  | IllegalTransition uuid string string
  | Persistence

datatype outbox_relay_error =
    InvalidPayload string
  | Coordinator outbox_error
  | VectorStore string

definition max_outbox_retries :: int where "max_outbox_retries = 3"

definition vector_upsert_event_type :: string where "vector_upsert_event_type = ''vector.upsert''"

record db_env =
  db_up :: bool
  db_now :: int
  db_app_now :: int
  db_returning :: "outbox_row list \<Rightarrow> outbox_row list"

section \<open>Statements of the coordinator\<close>

definition validate_outbox_event :: "outbox_event \<Rightarrow> (outbox_error, int) result" where
  "validate_outbox_event event =
     (if trim (oe_event_type event) = [] \<or> trim (oe_idempotency_key event) = []
      then Err (InvalidContract ''event_type and idempotency_key must not be blank'')
      else if oe_schema_version event < 2 ^ 31 then Ok (int (oe_schema_version event))
      else Err (InvalidContract ''schema_version exceeds i32 storage limit''))"

definition validate_claim_limit :: "int \<Rightarrow> (outbox_error, unit) result" where
  "validate_claim_limit limit =
     (if limit \<le> 0 then Err (InvalidContract ''claim limit must be greater than zero'') else Ok ())"

definition new_row :: "db_env \<Rightarrow> outbox_event \<Rightarrow> outbox_row" where
  "new_row db event =
     \<lparr>ob_event = event, ob_attempts = 0, ob_stream_id = None, ob_last_error = None,
      ob_available_at = db_now db, ob_status = OPending, ob_published_at = None\<rparr>"

text \<open>
  INSERT under the table's constraints: the primary key, the unique key and the check on the version.
\<close>

definition insert_outbox_event ::
  "db_env \<Rightarrow> outbox_event \<Rightarrow> int \<Rightarrow> outbox_table \<Rightarrow> (outbox_error, unit) result \<times> outbox_table" where
  "insert_outbox_event db event schema_version tbl =
     (if \<not> db_up db \<or> schema_version \<le> 0 then (Err Persistence, tbl)
      else if oe_event_id event \<in> row_id ` set tbl
        then (Err (InvalidContract (''outbox event already exists for event_id '' @ oe_event_id event)), tbl)
      else if oe_idempotency_key event \<in> (\<lambda>r. oe_idempotency_key (ob_event r)) ` set tbl
        then (Err (IdempotencyConflict (oe_idempotency_key event)), tbl)
      else (Ok (), tbl @ [new_row db event]))"

definition insert_outbox_event_idempotent ::
  "db_env \<Rightarrow> outbox_event \<Rightarrow> int \<Rightarrow> outbox_table \<Rightarrow> (outbox_error, bool) result \<times> outbox_table" where
  "insert_outbox_event_idempotent db event schema_version tbl =
     (if \<not> db_up db \<or> schema_version \<le> 0 then (Err Persistence, tbl)
      else if oe_idempotency_key event \<in> (\<lambda>r. oe_idempotency_key (ob_event r)) ` set tbl
        then (Ok False, tbl)
      else if oe_event_id event \<in> row_id ` set tbl then (Err Persistence, tbl)
      else (Ok True, tbl @ [new_row db event]))"

definition append_outbox_event ::
  "db_env \<Rightarrow> outbox_event \<Rightarrow> outbox_table \<Rightarrow> (outbox_error, unit) result \<times> outbox_table" where
  "append_outbox_event db event tbl =
     (if \<not> db_up db then (Err Persistence, tbl)
      else (case validate_outbox_event event of
              Inl e \<Rightarrow> (Err e, tbl)
            | Inr schema_version \<Rightarrow> insert_outbox_event db event schema_version tbl))"

definition append_outbox_event_idempotent ::
  "db_env \<Rightarrow> outbox_event \<Rightarrow> outbox_table \<Rightarrow> (outbox_error, bool) result \<times> outbox_table" where
  "append_outbox_event_idempotent db event tbl =
     (case validate_outbox_event event of
        Inl e \<Rightarrow> (Err e, tbl)
      | Inr schema_version \<Rightarrow> insert_outbox_event_idempotent db event schema_version tbl)"

definition claim_order :: "outbox_row \<Rightarrow> outbox_row \<Rightarrow> bool" where
  "claim_order r s \<longleftrightarrow> ob_available_at r < ob_available_at s \<or>
     (ob_available_at r = ob_available_at s \<and> oe_timestamp (ob_event r) \<le> oe_timestamp (ob_event s))"

definition claimable :: "db_env \<Rightarrow> uuid option \<Rightarrow> outbox_row \<Rightarrow> bool" where
  "claimable db correlation r \<longleftrightarrow> ob_status r = OPending \<and> ob_available_at r \<le> db_now db \<and>
     (case correlation of None \<Rightarrow> True | Some c \<Rightarrow> oe_correlation_id (ob_event r) = c)"

definition claimed_row :: "outbox_row \<Rightarrow> outbox_row" where
  "claimed_row r = r\<lparr>ob_status := OProcessing\<rparr>"

text \<open>
  Both claims: the second adds the correlation to the WHERE clause.  The identifier is the primary
  key, so the rows whose identifier was selected are the claimable ones.
\<close>

definition claim_pending_outbox ::
  "db_env \<Rightarrow> uuid option \<Rightarrow> int \<Rightarrow> outbox_table \<Rightarrow>
     (outbox_error, outbox_record list) result \<times> outbox_table" where
  "claim_pending_outbox db correlation limit tbl =
     (case validate_claim_limit limit of
        Inl e \<Rightarrow> (Err e, tbl)
      | Inr _ \<Rightarrow>
          if \<not> db_up db then (Err Persistence, tbl)
          else (let chosen = row_id ` set (take (nat limit)
                      (sort_by claim_order (filter (claimable db correlation) tbl)));
                    hit = (\<lambda>r. claimable db correlation r \<and> row_id r \<in> chosen)
                in (Ok (map outbox_record.truncate
                      (db_returning db (map claimed_row (filter hit tbl)))),
                    map (\<lambda>r. if hit r then claimed_row r else r) tbl)))"

definition transition_error :: "db_env \<Rightarrow> uuid \<Rightarrow> string \<Rightarrow> outbox_table \<Rightarrow> outbox_error" where
  "transition_error db event_id expected tbl =
     (if \<not> db_up db then Persistence
      else (case find (\<lambda>r. row_id r = event_id) tbl of
              Some r \<Rightarrow> IllegalTransition event_id expected (outbox_status_str (ob_status r))
            | None \<Rightarrow> EventNotFound event_id))"

definition in_processing :: "uuid \<Rightarrow> outbox_row \<Rightarrow> bool" where
  "in_processing event_id r \<longleftrightarrow> row_id r = event_id \<and> ob_status r = OProcessing"

text \<open>UPDATE of the rows being processed, with the count of rows affected.\<close>

definition update_processing ::
  "db_env \<Rightarrow> uuid \<Rightarrow> (outbox_row \<Rightarrow> outbox_row) \<Rightarrow> outbox_table \<Rightarrow>
     (outbox_error, unit) result \<times> outbox_table" where
  "update_processing db event_id f tbl =
     (if \<not> db_up db then (Err Persistence, tbl)
      else (let tbl' = map (\<lambda>r. if in_processing event_id r then f r else r) tbl in
            if length (filter (in_processing event_id) tbl) = 1 then (Ok (), tbl')
            else (Err (transition_error db event_id ''processing'' tbl'), tbl')))"

definition published_row :: "db_env \<Rightarrow> string \<Rightarrow> outbox_row \<Rightarrow> outbox_row" where
  "published_row db stream_id r =
     r\<lparr>ob_status := OPublished, ob_stream_id := Some stream_id, ob_published_at := Some (db_now db)\<rparr>"

definition mark_outbox_published ::
  "db_env \<Rightarrow> uuid \<Rightarrow> string \<Rightarrow> outbox_table \<Rightarrow> (outbox_error, unit) result \<times> outbox_table" where
  "mark_outbox_published db event_id stream_id tbl =
     (if trim stream_id = [] then (Err (InvalidContract ''stream_id must not be blank''), tbl)
      else update_processing db event_id (published_row db stream_id) tbl)"

definition failed_row :: "int \<Rightarrow> string \<Rightarrow> outbox_row \<Rightarrow> outbox_row" where
  "failed_row available_at error_message r =
     r\<lparr>ob_status := (if max_outbox_retries \<le> ob_attempts r + 1 then OFailed else OPending),
       ob_attempts := ob_attempts r + 1, ob_last_error := Some error_message,
       ob_available_at := (if max_outbox_retries \<le> ob_attempts r + 1 then ob_available_at r else available_at)\<rparr>"

definition mark_outbox_failed ::
  "db_env \<Rightarrow> uuid \<Rightarrow> string \<Rightarrow> nat \<Rightarrow> outbox_table \<Rightarrow> (outbox_error, unit) result \<times> outbox_table" where
  "mark_outbox_failed db event_id error_message retry_after_seconds tbl =
     (if trim error_message = [] then (Err (InvalidContract ''error_message must not be blank''), tbl)
      else if 2 ^ 63 \<le> retry_after_seconds
        then (Err (InvalidContract ''retry_after_seconds exceeds i64 range for scheduling''), tbl)
      else update_processing db event_id
             (failed_row (db_app_now db + int retry_after_seconds) error_message) tbl)"

definition has_pending_for_correlation :: "db_env \<Rightarrow> uuid \<Rightarrow> outbox_table \<Rightarrow> (outbox_error, bool) result" where
  "has_pending_for_correlation db correlation tbl =
     (if \<not> db_up db then Err Persistence
      else Ok (list_ex (\<lambda>r. oe_correlation_id (ob_event r) = correlation \<and>
                            ob_status r \<in> {OPending, OProcessing}) tbl))"

definition list_published_events_by_type ::
  "db_env \<Rightarrow> string \<Rightarrow> int \<Rightarrow> outbox_table \<Rightarrow> (outbox_error, outbox_record list) result" where
  "list_published_events_by_type db ev_type limit tbl =
     (if trim ev_type = [] then Err (InvalidContract ''event_type must not be blank'')
      else if limit \<le> 0 then Err (InvalidContract ''limit must be greater than zero'')
      else if \<not> db_up db then Err Persistence
      else Ok (map outbox_record.truncate (take (nat limit)
             (sort_by (\<lambda>r s. oe_timestamp (ob_event s) \<le> oe_timestamp (ob_event r))
                (filter (\<lambda>r. ob_status r = OPublished \<and> oe_event_type (ob_event r) = ev_type) tbl)))))"

section \<open>The relay\<close>

type_synonym vector_store = "nat \<rightharpoonup> f32 list \<times> json"

record relay_state =
  rls_table :: outbox_table
  rls_store :: vector_store

record outbox_relay =
  rly_claim_limit :: int
  rly_retry_after_seconds :: nat

record run_report =
  rr_claimed :: nat
  rr_published :: nat
  rr_failed :: nat

text \<open>
  What one record meets: the answer of the vector store, whether a failed write reached it anyway,
  and the database at the statement that settles the record.
\<close>

record record_env =
  rve_upsert :: "(string, unit) result"
  rve_wrote :: bool
  rve_db :: db_env

record cycle_env =
  cye_inspect :: db_env
  cye_claim :: db_env
  cye_records :: "nat \<Rightarrow> record_env"

definition outbox_relay_new :: "int \<Rightarrow> nat \<Rightarrow> (outbox_relay_error, outbox_relay) result" where
  "outbox_relay_new claim_limit retry_after_seconds =
     (if claim_limit \<le> 0 then Err (InvalidPayload ''claim_limit must be greater than zero'')
      else Ok \<lparr>rly_claim_limit = claim_limit, rly_retry_after_seconds = retry_after_seconds\<rparr>)"

text \<open>One claimed record: \<open>Inr True\<close> when published, \<open>Inr False\<close> when counted as failed.\<close>

definition relay_record ::
  "(string \<Rightarrow> nat list) \<Rightarrow> outbox_relay \<Rightarrow> record_env \<Rightarrow> outbox_record \<Rightarrow> relay_state \<Rightarrow>
     (outbox_relay_error, bool) result \<times> relay_state" where
  "relay_record blake3 relay env rec st =
     (let fail = (\<lambda>message st.
            (case mark_outbox_failed (rve_db env) (row_id rec) message (rly_retry_after_seconds relay)
                    (rls_table st) of
               (Inl e, tbl) \<Rightarrow> (Err (Coordinator e), st\<lparr>rls_table := tbl\<rparr>)
             | (Inr _, tbl) \<Rightarrow> (Ok False, st\<lparr>rls_table := tbl\<rparr>)))
      in if oe_event_type (ob_event rec) \<noteq> vector_upsert_event_type
         then fail (''unsupported outbox event type '' @ [CHR 0x60] @ oe_event_type (ob_event rec) @ [CHR 0x60]) st
         else (case parse_vector_upsert_request (oe_payload (ob_event rec)) of
                 Inl message \<Rightarrow> fail (''invalid vector payload contract: '' @ message) st
               | Inr upsert \<Rightarrow>
                   (let point_id = qdrant_point_id blake3 (vu_content_hash upsert);
                        stored = st\<lparr>rls_store := (rls_store st)(point_id \<mapsto> (vu_vector upsert, vu_payload upsert))\<rparr>
                    in (case rve_upsert env of
                          Inl message \<Rightarrow> fail message (if rve_wrote env then stored else st)
                        | Inr _ \<Rightarrow>
                            (case mark_outbox_published (rve_db env) (row_id rec)
                                    (''qdrant:'' @ nat_str point_id) (rls_table stored) of
                               (Inl e, tbl) \<Rightarrow> (Err (Coordinator e), stored\<lparr>rls_table := tbl\<rparr>)
                             | (Inr _, tbl) \<Rightarrow> (Ok True, stored\<lparr>rls_table := tbl\<rparr>))))))"

fun process_claimed_records ::
  "(string \<Rightarrow> nat list) \<Rightarrow> outbox_relay \<Rightarrow> (nat \<Rightarrow> record_env) \<Rightarrow> nat \<Rightarrow> outbox_record list \<Rightarrow>
     run_report \<Rightarrow> relay_state \<Rightarrow> (outbox_relay_error, run_report) result \<times> relay_state" where
  "process_claimed_records blake3 relay envs i [] report st = (Ok report, st)"
| "process_claimed_records blake3 relay envs i (rec # recs) report st =
     (case relay_record blake3 relay (envs i) rec st of
        (Inl e, st') \<Rightarrow> (Err e, st')
      | (Inr published, st') \<Rightarrow>
          process_claimed_records blake3 relay envs (Suc i) recs
            (if published then report\<lparr>rr_published := rr_published report + 1\<rparr>
             else report\<lparr>rr_failed := rr_failed report + 1\<rparr>) st')"

text \<open>\<open>relay\_once\<close> and \<open>relay\_once\_for\_correlation\<close>.\<close>

definition relay_once ::
  "(string \<Rightarrow> nat list) \<Rightarrow> outbox_relay \<Rightarrow> cycle_env \<Rightarrow> uuid option \<Rightarrow> relay_state \<Rightarrow>
     (outbox_relay_error, run_report) result \<times> relay_state" where
  "relay_once blake3 relay env correlation st =
     (case claim_pending_outbox (cye_claim env) correlation (rly_claim_limit relay) (rls_table st) of
        (Inl e, tbl) \<Rightarrow> (Err (Coordinator e), st\<lparr>rls_table := tbl\<rparr>)
      | (Inr recs, tbl) \<Rightarrow>
          process_claimed_records blake3 relay (cye_records env) 0 recs
            \<lparr>rr_claimed = length recs, rr_published = 0, rr_failed = 0\<rparr> (st\<lparr>rls_table := tbl\<rparr>))"

section \<open>Progress of the queue\<close>

text \<open>
  The contract of a retried queue: settling a piece of work uses up weight, so that from a given
  state only finitely many can be settled.
\<close>

locale retry_ledger =
  fixes weight :: "'s \<Rightarrow> nat"
    and settle :: "'a \<Rightarrow> 's \<Rightarrow> 's option"
  assumes settle_weight: "settle a s = Some s' \<Longrightarrow> weight s' < weight s"
begin

fun settle_all :: "'a list \<Rightarrow> 's \<Rightarrow> 's option" where
  "settle_all [] s = Some s"
| "settle_all (a # as) s = Option.bind (settle a s) (settle_all as)"

lemma settle_all_weight: "settle_all as s = Some s' \<Longrightarrow> weight s' + length as \<le> weight s"
proof (induction as arbitrary: s)
  case (Cons a as)
  then obtain t where t: "settle a s = Some t" "settle_all as t = Some s'"
    by (auto simp: bind_eq_Some_conv)
  with Cons.IH settle_weight [OF t(1)] show ?case by fastforce
qed simp

lemma settle_all_bound: "settle_all as s \<noteq> None \<Longrightarrow> length as \<le> weight s"
  using settle_all_weight by fastforce

end

fun row_weight :: "outbox_row \<Rightarrow> nat" where
  "row_weight r = (if ob_status r \<in> {OPending, OProcessing}
                   then 1 + nat (max_outbox_retries - ob_attempts r) else 0)"

definition table_weight :: "outbox_table \<Rightarrow> nat" where
  "table_weight tbl = sum_list (map row_weight tbl)"

datatype settlement = Publish db_env uuid string | Fail db_env uuid string nat

fun settle_outbox :: "settlement \<Rightarrow> outbox_table \<Rightarrow> outbox_table option" where
  "settle_outbox (Publish db i stream_id) tbl =
     (case mark_outbox_published db i stream_id tbl of (Inr _, tbl') \<Rightarrow> Some tbl' | (Inl _, _) \<Rightarrow> None)"
| "settle_outbox (Fail db i message retry) tbl =
     (case mark_outbox_failed db i message retry tbl of (Inr _, tbl') \<Rightarrow> Some tbl' | (Inl _, _) \<Rightarrow> None)"

lemma sum_list_map_decrease:
  assumes "\<And>r. r \<in> set tbl \<Longrightarrow> p r \<Longrightarrow> w (f r) < (w r :: nat)" and "filter p tbl \<noteq> []"
  shows "sum_list (map (\<lambda>r. w (if p r then f r else r)) tbl) < sum_list (map w tbl)"
  using assms
proof (induction tbl)
  case (Cons r tbl)
  have le: "sum_list (map (\<lambda>r. w (if p r then f r else r)) tbl) \<le> sum_list (map w tbl)"
    using Cons.prems(1) by (intro sum_list_mono) (auto intro: less_imp_le)
  show ?case
  proof (cases "p r")
    case True
    have "w (f r) < w r" using Cons.prems(1) True by simp
    with le True show ?thesis by simp
  next
    case False
    with Cons show ?thesis by simp
  qed
qed simp

lemma update_processing_weight:
  assumes "update_processing db i f tbl = (Inr u, tbl')"
    and "\<And>r. ob_status r = OProcessing \<Longrightarrow> row_weight (f r) < row_weight r"
  shows "table_weight tbl' < table_weight tbl"
proof -
  have tbl': "tbl' = map (\<lambda>r. if in_processing i r then f r else r) tbl"
    and "length (filter (in_processing i) tbl) = 1"
    using assms(1) by (auto simp: update_processing_def Let_def split: if_splits)
  then have "filter (in_processing i) tbl \<noteq> []" by auto
  from sum_list_map_decrease [OF _ this, of row_weight f] assms(2) show ?thesis
    unfolding tbl' table_weight_def map_map comp_def by (auto simp: in_processing_def)
qed

interpretation outbox: retry_ledger table_weight settle_outbox
proof
  fix a s s'
  assume "settle_outbox a s = Some s'"
  then show "table_weight s' < table_weight s"
  proof (cases a)
    case (Publish db i stream_id)
    with \<open>settle_outbox a s = Some s'\<close> have "update_processing db i (published_row db stream_id) s = (Inr (), s')"
      by (auto simp: mark_outbox_published_def split: if_splits sum.splits prod.splits)
    then show ?thesis by (rule update_processing_weight) (simp add: published_row_def)
  next
    case (Fail db i message retry)
    with \<open>settle_outbox a s = Some s'\<close> have
      "update_processing db i (failed_row (db_app_now db + int retry) message) s = (Inr (), s')"
      by (auto simp: mark_outbox_failed_def split: if_splits sum.splits prod.splits)
    then show ?thesis
      by (rule update_processing_weight) (auto simp: failed_row_def max_outbox_retries_def)
  qed
qed

lemma relay_record_settles:
  assumes "relay_record blake3 relay env rec st = (Inr p, st')"
  shows "\<exists>a. settle_outbox a (rls_table st) = Some (rls_table st')"
proof -
  let ?fail = "\<lambda>m. Fail (rve_db env) (row_id rec) m (rly_retry_after_seconds relay)"
  show ?thesis
  proof (cases "oe_event_type (ob_event rec) = vector_upsert_event_type")
    case False
    then show ?thesis
      using assms by (intro exI [of _ "?fail (''unsupported outbox event type '' @ [CHR 0x60] @ oe_event_type (ob_event rec) @ [CHR 0x60])"])
        (auto simp: relay_record_def Let_def split: sum.splits prod.splits)
  next
    case True
    show ?thesis
    proof (cases "parse_vector_upsert_request (oe_payload (ob_event rec))")
      case (Inl m)
      with True show ?thesis
        using assms by (intro exI [of _ "?fail (''invalid vector payload contract: '' @ m)"])
          (auto simp: relay_record_def Let_def split: sum.splits prod.splits)
    next
      case (Inr upsert)
      show ?thesis
      proof (cases "rve_upsert env")
        case (Inl m)
        with True Inr show ?thesis
          using assms by (intro exI [of _ "?fail m"])
            (auto simp: relay_record_def Let_def split: sum.splits prod.splits if_splits)
      next
        case Ok': (Inr u)
        with True Inr show ?thesis
          using assms by (intro exI [of _ "Publish (rve_db env) (row_id rec)
              (''qdrant:'' @ nat_str (qdrant_point_id blake3 (vu_content_hash upsert)))"])
            (auto simp: relay_record_def Let_def split: sum.splits prod.splits)
      qed
    qed
  qed
qed

lemma process_settles:
  "process_claimed_records blake3 relay envs i recs report st = (Inr report', st') \<Longrightarrow>
     \<exists>as. length as = length recs \<and> outbox.settle_all as (rls_table st) = Some (rls_table st')"
proof (induction recs arbitrary: i report st)
  case (Cons rec recs)
  then obtain p st1 where r: "relay_record blake3 relay (envs i) rec st = (Inr p, st1)"
    by (auto split: prod.splits sum.splits)
  obtain a where a: "settle_outbox a (rls_table st) = Some (rls_table st1)"
    using relay_record_settles [OF r] by blast
  obtain as where as: "length as = length recs" "outbox.settle_all as (rls_table st1) = Some (rls_table st')"
    using Cons.IH Cons.prems r by (auto split: if_splits) blast+
  with a show ?case by (intro exI [of _ "a # as"]) simp
qed simp

lemma process_weight:
  "process_claimed_records blake3 relay envs i recs report st = (Inr report', st') \<Longrightarrow>
     table_weight (rls_table st') + length recs \<le> table_weight (rls_table st)"
  using process_settles outbox.settle_all_weight by metis

lemma process_report:
  "process_claimed_records blake3 relay envs i recs report st = (Inr report', st') \<Longrightarrow>
     rr_claimed report' = rr_claimed report \<and>
     rr_published report' + rr_failed report' = rr_published report + rr_failed report + length recs"
  by (induction recs arbitrary: i report st)
     (fastforce split: prod.splits sum.splits if_splits)+

lemma sum_list_map_same:
  "(\<And>r. r \<in> set tbl \<Longrightarrow> p r \<Longrightarrow> w (f r) = (w r :: nat)) \<Longrightarrow>
     sum_list (map (\<lambda>r. w (if p r then f r else r)) tbl) = sum_list (map w tbl)"
  by (intro arg_cong [where f = sum_list] map_cong) auto

lemma claim_Ok:
  "claim_pending_outbox db c n tbl = (Inr recs, tbl') \<Longrightarrow>
     \<exists>chosen. recs = map outbox_record.truncate (db_returning db
         (map claimed_row (filter (\<lambda>r. claimable db c r \<and> row_id r \<in> chosen) tbl))) \<and>
       tbl' = map (\<lambda>r. if claimable db c r \<and> row_id r \<in> chosen then claimed_row r else r) tbl \<and>
       chosen = row_id ` set (take (nat n) (sort_by claim_order (filter (claimable db c) tbl)))"
  unfolding claim_pending_outbox_def Let_def by (auto split: sum.splits if_splits)

lemma claim_Err: "claim_pending_outbox db c n tbl = (Inl e, tbl') \<Longrightarrow> tbl' = tbl"
  unfolding claim_pending_outbox_def Let_def by (auto split: sum.splits if_splits)

lemma claim_weight: "claim_pending_outbox db c n tbl = (Inr recs, tbl') \<Longrightarrow> table_weight tbl' = table_weight tbl"
proof -
  assume "claim_pending_outbox db c n tbl = (Inr recs, tbl')"
  from claim_Ok [OF this] obtain X where
    tbl': "tbl' = map (\<lambda>r. if claimable db c r \<and> row_id r \<in> X then claimed_row r else r) tbl" by blast
  have "sum_list (map (\<lambda>r. row_weight (if claimable db c r \<and> row_id r \<in> X then claimed_row r else r)) tbl) =
      sum_list (map row_weight tbl)"
    by (rule sum_list_map_same) (simp add: claimable_def claimed_row_def)
  then show ?thesis unfolding tbl' table_weight_def map_map comp_def .
qed

lemma relay_once_Ok:
  assumes "relay_once blake3 relay env c st = (Inr report, st')"
  shows "\<exists>recs tbl. claim_pending_outbox (cye_claim env) c (rly_claim_limit relay) (rls_table st) = (Inr recs, tbl) \<and>
    process_claimed_records blake3 relay (cye_records env) 0 recs
      \<lparr>rr_claimed = length recs, rr_published = 0, rr_failed = 0\<rparr> (st\<lparr>rls_table := tbl\<rparr>) = (Inr report, st')"
  using assms by (auto simp: relay_once_def split: prod.splits sum.splits)

lemma relay_once_progress:
  assumes "relay_once blake3 relay env c st = (Inr report, st')"
  shows "table_weight (rls_table st') + rr_claimed report \<le> table_weight (rls_table st)"
    and "rr_published report + rr_failed report = rr_claimed report"
proof -
  obtain recs tbl where
    cl: "claim_pending_outbox (cye_claim env) c (rly_claim_limit relay) (rls_table st) = (Inr recs, tbl)" and
    pr: "process_claimed_records blake3 relay (cye_records env) 0 recs
      \<lparr>rr_claimed = length recs, rr_published = 0, rr_failed = 0\<rparr> (st\<lparr>rls_table := tbl\<rparr>) = (Inr report, st')"
    using relay_once_Ok [OF assms] by blast
  show "table_weight (rls_table st') + rr_claimed report \<le> table_weight (rls_table st)"
    using claim_weight [OF cl] process_weight [OF pr] process_report [OF pr] by simp
  show "rr_published report + rr_failed report = rr_claimed report"
    using process_report [OF pr] by simp
qed

section \<open>Draining loops\<close>

text \<open>\<open>envs k\<close> is the environment of cycle \<open>k\<close>; both loops end because cycles use up weight.\<close>

function drain_correlation_outbox ::
  "(string \<Rightarrow> nat list) \<Rightarrow> outbox_relay \<Rightarrow> (nat \<Rightarrow> cycle_env) \<Rightarrow> nat \<Rightarrow> uuid \<Rightarrow> relay_state \<Rightarrow>
     (outbox_relay_error, unit) result \<times> relay_state" where
  "drain_correlation_outbox blake3 relay envs k correlation st =
     (case has_pending_for_correlation (cye_inspect (envs k)) correlation (rls_table st) of
        Inl e \<Rightarrow> (Err (Coordinator e), st)
      | Inr False \<Rightarrow> (Ok (), st)
      | Inr True \<Rightarrow>
          (case relay_once blake3 relay (envs k) (Some correlation) st of
             (Inl e, st') \<Rightarrow> (Err e, st')
           | (Inr report, st') \<Rightarrow>
               if rr_claimed report = 0 then
                 (Err (InvalidPayload (''outbox for correlation '' @ [CHR 0x60] @ correlation @ [CHR 0x60] @
                    '' has pending events that could not be claimed or relayed (stuck or in retry backoff); drain made no progress'')), st')
               else drain_correlation_outbox blake3 relay envs (Suc k) correlation st'))"
  by pat_completeness auto
termination
proof (relation "measure (\<lambda>(b, r, e, k, c, st). table_weight (rls_table st))", goal_cases)
  case (2 blake3 relay envs k correlation st)
  then show ?case by (auto dest!: relay_once_progress(1) [OF sym])
qed simp

declare drain_correlation_outbox.simps [simp del]

function relay_all_pending ::
  "(string \<Rightarrow> nat list) \<Rightarrow> outbox_relay \<Rightarrow> (nat \<Rightarrow> cycle_env) \<Rightarrow> nat \<Rightarrow> nat \<Rightarrow> relay_state \<Rightarrow>
     (outbox_relay_error, nat) result \<times> relay_state" where
  "relay_all_pending blake3 relay envs k total_published st =
     (case relay_once blake3 relay (envs k) None st of
        (Inl e, st') \<Rightarrow> (Err e, st')
      | (Inr report, st') \<Rightarrow>
          if rr_claimed report = 0 then (Ok (min (total_published + rr_published report) (2 ^ 64 - 1)), st')
          else relay_all_pending blake3 relay envs (Suc k)
                 (min (total_published + rr_published report) (2 ^ 64 - 1)) st')"
  by pat_completeness auto
termination
proof (relation "measure (\<lambda>(b, r, e, k, t, st). table_weight (rls_table st))", goal_cases)
  case (2 blake3 relay envs k total_published st)
  then show ?case by (auto dest!: relay_once_progress(1) [OF sym])
qed simp

declare relay_all_pending.simps [simp del]

definition relay_all_pending_to_completion ::
  "(string \<Rightarrow> nat list) \<Rightarrow> outbox_relay \<Rightarrow> (nat \<Rightarrow> cycle_env) \<Rightarrow> relay_state \<Rightarrow>
     (outbox_relay_error, nat) result \<times> relay_state" where
  "relay_all_pending_to_completion blake3 relay envs st = relay_all_pending blake3 relay envs 0 0 st"

end
