(* ===== verification/Outbox_Facts.thy ===== *)
theory Outbox_Facts
  imports Outbox
begin

text \<open>
  The invariants of the outbox: the table over all reachable statements, the link between published
  rows and the vector store over the relay, and what the draining loops guarantee when they return.
\<close>

section \<open>Reachable tables\<close>

text \<open>Every statement of the coordinator that writes, under any database behaviour.\<close>

inductive outbox_step :: "outbox_table \<Rightarrow> outbox_table \<Rightarrow> bool" where
  ob_append: "outbox_step tbl (snd (append_outbox_event db event tbl))"
| ob_append_idem: "outbox_step tbl (snd (append_outbox_event_idempotent db event tbl))"
| ob_claim: "outbox_step tbl (snd (claim_pending_outbox db correlation limit tbl))"
| ob_publish: "outbox_step tbl (snd (mark_outbox_published db event_id stream_id tbl))"
| ob_fail: "outbox_step tbl (snd (mark_outbox_failed db event_id message retry tbl))"

inductive outbox_reachable :: "outbox_table \<Rightarrow> bool" where
  ob_empty: "outbox_reachable []"
| ob_step: "outbox_reachable tbl \<Longrightarrow> outbox_step tbl tbl' \<Longrightarrow> outbox_reachable tbl'"

inductive_cases outbox_stepE: "outbox_step tbl tbl'"

definition row_ok :: "outbox_row \<Rightarrow> bool" where
  "row_ok r \<longleftrightarrow> 0 \<le> ob_attempts r \<and> ob_attempts r \<le> max_outbox_retries \<and>
     (ob_status r = OFailed \<longleftrightarrow> ob_attempts r = max_outbox_retries) \<and>
     (ob_status r = OPublished \<longrightarrow> ob_stream_id r \<noteq> None)"

definition table_keys :: "outbox_table \<Rightarrow> string list" where
  "table_keys tbl = map (\<lambda>r. oe_idempotency_key (ob_event r)) tbl"

definition outbox_inv :: "outbox_table \<Rightarrow> bool" where
  "outbox_inv tbl \<longleftrightarrow> distinct (map row_id tbl) \<and> distinct (table_keys tbl) \<and> (\<forall>r \<in> set tbl. row_ok r)"

text \<open>What any statement does to an existing row.\<close>

definition row_change :: "outbox_row \<Rightarrow> outbox_row \<Rightarrow> bool" where
  "row_change r r' \<longleftrightarrow> ob_event r' = ob_event r \<and> (row_ok r \<longrightarrow> row_ok r') \<and>
     (ob_status r \<in> {OPublished, OFailed} \<longrightarrow> r' = r)"

lemma row_change_refl [simp]: "row_change r r"
  by (simp add: row_change_def)

lemma row_change_claim: "claimable db c r \<Longrightarrow> row_change r (claimed_row r)"
  by (auto simp: row_change_def row_ok_def claimable_def claimed_row_def)

lemma row_change_publish: "ob_status r = OProcessing \<Longrightarrow> row_change r (published_row db sid r)"
  by (auto simp: row_change_def row_ok_def published_row_def)

lemma row_change_fail: "ob_status r = OProcessing \<Longrightarrow> row_change r (failed_row t m r)"
  by (auto simp: row_change_def row_ok_def failed_row_def max_outbox_retries_def)

text \<open>A statement maps the rows and may append one fresh pending row.\<close>

definition fresh_row :: "outbox_table \<Rightarrow> outbox_row \<Rightarrow> bool" where
  "fresh_row tbl r \<longleftrightarrow> row_ok r \<and> ob_status r = OPending \<and> row_id r \<notin> set (map row_id tbl) \<and>
     oe_idempotency_key (ob_event r) \<notin> set (table_keys tbl)"

lemma update_processing_map:
  assumes "\<And>r. ob_status r = OProcessing \<Longrightarrow> row_change r (f r)"
  shows "\<exists>g. snd (update_processing db i f tbl) = map g tbl \<and> (\<forall>r \<in> set tbl. row_change r (g r))"
proof (cases "db_up db")
  case True
  then show ?thesis using assms
    by (intro exI [of _ "\<lambda>r. if in_processing i r then f r else r"])
       (auto simp: update_processing_def Let_def in_processing_def)
qed (auto simp: update_processing_def intro: exI [of _ id])

lemma id_map_change: "\<exists>g. tbl = map g tbl \<and> (\<forall>r \<in> set tbl. row_change r (g r))"
  by (rule exI [of _ id]) simp

lemma append_shape:
  "snd (append_outbox_event db event tbl) = tbl \<or>
     (snd (append_outbox_event db event tbl) = tbl @ [new_row db event] \<and> fresh_row tbl (new_row db event))"
  "snd (append_outbox_event_idempotent db event tbl) = tbl \<or>
     (snd (append_outbox_event_idempotent db event tbl) = tbl @ [new_row db event] \<and> fresh_row tbl (new_row db event))"
  by (auto simp: append_outbox_event_def append_outbox_event_idempotent_def insert_outbox_event_def
      insert_outbox_event_idempotent_def fresh_row_def new_row_def row_ok_def max_outbox_retries_def
      table_keys_def split: sum.splits)

lemma outbox_step_shape:
  assumes "outbox_step tbl tbl'"
  shows "(\<exists>g. tbl' = map g tbl \<and> (\<forall>r \<in> set tbl. row_change r (g r))) \<or>
    (\<exists>r. tbl' = tbl @ [r] \<and> fresh_row tbl r)"
  using assms
proof cases
  case (ob_append db event)
  then show ?thesis using append_shape(1) [of db event tbl] id_map_change [of tbl] by auto
next
  case (ob_append_idem db event)
  then show ?thesis using append_shape(2) [of db event tbl] id_map_change [of tbl] by auto
next
  case (ob_claim db c n)
  obtain res t where cl: "claim_pending_outbox db c n tbl = (res, t)" by fastforce
  show ?thesis
  proof (cases res)
    case (Inl e)
    with cl claim_Err have "tbl' = tbl" using ob_claim by simp
    then show ?thesis using id_map_change by blast
  next
    case (Inr recs)
    with cl claim_Ok ob_claim obtain X where
      "tbl' = map (\<lambda>r. if claimable db c r \<and> row_id r \<in> X then claimed_row r else r) tbl" by fastforce
    then show ?thesis
      by (intro disjI1 exI [of _ "\<lambda>r. if claimable db c r \<and> row_id r \<in> X then claimed_row r else r"])
         (auto intro: row_change_claim)
  qed
next
  case (ob_publish db i sid)
  then show ?thesis
    using id_map_change [of tbl] update_processing_map [of "published_row db sid" db i tbl] row_change_publish
    by (auto simp: mark_outbox_published_def split: if_splits)
next
  case (ob_fail db i m retry)
  then show ?thesis
    using id_map_change [of tbl] row_change_fail
      update_processing_map [of "failed_row (db_app_now db + int retry) m" db i tbl]
    by (auto simp: mark_outbox_failed_def split: if_splits)
qed

lemma outbox_inv_map:
  assumes "outbox_inv tbl" and "\<forall>r \<in> set tbl. row_change r (g r)"
  shows "outbox_inv (map g tbl)"
proof -
  have eq: "map row_id (map g tbl) = map row_id tbl" "table_keys (map g tbl) = table_keys tbl"
    using assms(2) by (auto simp: row_change_def table_keys_def)
  show ?thesis
    using assms unfolding outbox_inv_def eq by (auto simp: row_change_def)
qed

lemma outbox_inv_step: "outbox_inv tbl \<Longrightarrow> outbox_step tbl tbl' \<Longrightarrow> outbox_inv tbl'"
  using outbox_step_shape [of tbl tbl'] outbox_inv_map
  by (auto simp: outbox_inv_def fresh_row_def table_keys_def)

lemma outbox_reachable_inv: "outbox_reachable tbl \<Longrightarrow> outbox_inv tbl"
proof (induction rule: outbox_reachable.induct)
  case (ob_step tbl tbl')
  then show ?case using outbox_inv_step by blast
qed (simp add: outbox_inv_def table_keys_def)

lemma outbox_step_terminal:
  "outbox_step tbl tbl' \<Longrightarrow> r \<in> set tbl \<Longrightarrow> ob_status r \<in> {OPublished, OFailed} \<Longrightarrow> r \<in> set tbl'"
proof -
  assume step: "outbox_step tbl tbl'" and r: "r \<in> set tbl" "ob_status r \<in> {OPublished, OFailed}"
  from outbox_step_shape [OF step] show ?thesis
  proof (elim disjE exE conjE)
    fix g assume g: "tbl' = map g tbl" "\<forall>r \<in> set tbl. row_change r (g r)"
    then have "g r = r" using r by (auto simp: row_change_def)
    with g(1) r(1) show ?thesis by (metis image_eqI list.set_map)
  qed (use r in simp)
qed

section \<open>The relay keeps events and steps through statements\<close>

lemma relay_record_events:
  "map ob_event (rls_table (snd (relay_record blake3 relay env rec st))) = map ob_event (rls_table st)"
proof -
  have pub: "map ob_event (snd (mark_outbox_published db i s tbl)) = map ob_event tbl" for db i s tbl
    by (auto simp: mark_outbox_published_def update_processing_def published_row_def Let_def)
  have fail: "map ob_event (snd (mark_outbox_failed db i m t tbl)) = map ob_event tbl" for db i m t tbl
    by (auto simp: mark_outbox_failed_def update_processing_def failed_row_def Let_def)
  show ?thesis
    using pub [of "rve_db env" "row_id rec"] fail [of "rve_db env" "row_id rec"]
    unfolding relay_record_def Let_def
    by (fastforce split: sum.splits prod.splits dest: arg_cong [where f = snd])
qed

lemma relay_record_step:
  "outbox_step (rls_table st) (rls_table (snd (relay_record blake3 relay env rec st)))"
proof -
  have pub: "outbox_step tbl t" if "mark_outbox_published db i s tbl = (x, t)" for db i s tbl x t
    using ob_publish [of tbl db i s] that by simp
  have fail: "outbox_step tbl t" if "mark_outbox_failed db i m n tbl = (x, t)" for db i m n tbl x t
    using ob_fail [of tbl db i m n] that by simp
  show ?thesis
    unfolding relay_record_def Let_def by (auto split: sum.splits prod.splits intro: pub fail)
qed

section \<open>Published rows have their vector\<close>

definition row_stored :: "(string \<Rightarrow> nat list) \<Rightarrow> vector_store \<Rightarrow> outbox_event \<Rightarrow> bool" where
  "row_stored blake3 store event \<longleftrightarrow>
     (\<exists>u. parse_vector_upsert_request (oe_payload event) = Inr u \<and>
          store (qdrant_point_id blake3 (vu_content_hash u)) \<noteq> None)"

definition stored_inv :: "(string \<Rightarrow> nat list) \<Rightarrow> relay_state \<Rightarrow> bool" where
  "stored_inv blake3 st \<longleftrightarrow>
     (\<forall>r \<in> set (rls_table st). ob_status r = OPublished \<longrightarrow> row_stored blake3 (rls_store st) (ob_event r))"

lemma row_stored_mono:
  "row_stored blake3 store e \<Longrightarrow> row_stored blake3 (store(p \<mapsto> v)) e"
  by (auto simp: row_stored_def)

lemma failed_published:
  "mark_outbox_failed db i m t tbl = (x, tbl') \<Longrightarrow> r' \<in> set tbl' \<Longrightarrow> ob_status r' = OPublished \<Longrightarrow> r' \<in> set tbl"
  by (auto simp: mark_outbox_failed_def update_processing_def failed_row_def in_processing_def Let_def
      split: if_splits)

lemma published_published:
  "mark_outbox_published db i s tbl = (x, tbl') \<Longrightarrow> r' \<in> set tbl' \<Longrightarrow> ob_status r' = OPublished \<Longrightarrow>
     r' \<in> set tbl \<or> (\<exists>r \<in> set tbl. row_id r = i \<and> ob_event r' = ob_event r)"
  by (auto simp: mark_outbox_published_def update_processing_def published_row_def in_processing_def Let_def
      split: if_splits) blast+

lemma stored_inv_failed:
  assumes "stored_inv blake3 st" and "mark_outbox_failed db i m t (rls_table st) = (x, tbl')"
  shows "stored_inv blake3 (st\<lparr>rls_table := tbl'\<rparr>)"
  using assms(1) failed_published [OF assms(2)] by (auto simp: stored_inv_def)

lemma stored_inv_store: "stored_inv blake3 st \<Longrightarrow> stored_inv blake3 (st\<lparr>rls_store := (rls_store st)(p \<mapsto> v)\<rparr>)"
  by (auto simp: stored_inv_def row_stored_mono)

lemma stored_inv_published:
  assumes "stored_inv blake3 st" and "mark_outbox_published db i s (rls_table st) = (x, tbl')"
    and "\<forall>r \<in> set (rls_table st). row_id r = i \<longrightarrow> row_stored blake3 (rls_store st) (ob_event r)"
  shows "stored_inv blake3 (st\<lparr>rls_table := tbl'\<rparr>)"
  unfolding stored_inv_def
proof (intro ballI impI)
  fix r' assume "r' \<in> set (rls_table (st\<lparr>rls_table := tbl'\<rparr>))" "ob_status r' = OPublished"
  with published_published [OF assms(2)] consider "r' \<in> set (rls_table st)" |
    r where "r \<in> set (rls_table st)" "row_id r = i" "ob_event r' = ob_event r" by auto
  then show "row_stored blake3 (rls_store (st\<lparr>rls_table := tbl'\<rparr>)) (ob_event r')"
    using \<open>ob_status r' = OPublished\<close> assms(1,3) by cases (auto simp: stored_inv_def)
qed

lemma relay_record_stored:
  assumes inv: "stored_inv blake3 st" and dist: "distinct (map row_id (rls_table st))"
    and mem: "ob_event rec \<in> ob_event ` set (rls_table st)"
  shows "stored_inv blake3 (snd (relay_record blake3 relay env rec st))"
proof -
  let ?t = "rls_table st"
  have fail: "stored_inv blake3 (snd (case mark_outbox_failed db i m n (rls_table st') of
       (Inl e, tbl) \<Rightarrow> (Err (Coordinator e), st'\<lparr>rls_table := tbl\<rparr>)
     | (Inr u, tbl) \<Rightarrow> (Ok False, st'\<lparr>rls_table := tbl\<rparr>)))"
    if "stored_inv blake3 st'" for db i m n and st' :: relay_state
    using stored_inv_failed [OF that] by (auto split: prod.splits sum.splits)
  have pub: "stored_inv blake3 (snd (case mark_outbox_published db (row_id rec) s (rls_table st') of
       (Inl e, tbl) \<Rightarrow> (Err (Coordinator e), st'\<lparr>rls_table := tbl\<rparr>)
     | (Inr u, tbl) \<Rightarrow> (Ok True, st'\<lparr>rls_table := tbl\<rparr>)))"
    if "stored_inv blake3 st'" "rls_table st' = ?t" "row_stored blake3 (rls_store st') (ob_event rec)"
    for db s and st' :: relay_state
  proof -
    have "\<forall>r \<in> set (rls_table st'). row_id r = row_id rec \<longrightarrow> row_stored blake3 (rls_store st') (ob_event r)"
    proof (intro ballI impI)
      fix r assume r: "r \<in> set (rls_table st')" "row_id r = row_id rec"
      obtain q where q: "q \<in> set ?t" "ob_event q = ob_event rec" using mem by auto
      then have "q = r" using r dist that(2) inj_onD [of row_id "set ?t" q r] by (simp add: distinct_map)
      with q that(3) show "row_stored blake3 (rls_store st') (ob_event r)" by simp
    qed
    from stored_inv_published [OF that(1) _ this] show ?thesis by (auto split: prod.splits sum.splits)
  qed
  show ?thesis
  proof (cases "oe_event_type (ob_event rec) = vector_upsert_event_type")
    case False
    then show ?thesis using fail [OF inv] by (simp add: relay_record_def)
  next
    case True
    show ?thesis
    proof (cases "parse_vector_upsert_request (oe_payload (ob_event rec))")
      case (Inl m)
      with True show ?thesis using fail [OF inv] by (simp add: relay_record_def)
    next
      case (Inr u)
      let ?p = "qdrant_point_id blake3 (vu_content_hash u)"
      let ?st = "st\<lparr>rls_store := (rls_store st)(?p \<mapsto> (vu_vector u, vu_payload u))\<rparr>"
      have "row_stored blake3 (rls_store ?st) (ob_event rec)" using Inr by (simp add: row_stored_def)
      then show ?thesis
        using True Inr fail [OF inv] fail [OF stored_inv_store [OF inv]] pub [of ?st] stored_inv_store [OF inv]
        by (cases "rve_upsert env") (simp_all add: relay_record_def Let_def)
    qed
  qed
qed

lemma process_stored:
  assumes "stored_inv blake3 st" and "distinct (map row_id (rls_table st))"
    and "\<forall>rec \<in> set recs. ob_event rec \<in> ob_event ` set (rls_table st)"
  shows "stored_inv blake3 (snd (process_claimed_records blake3 relay envs i recs report st)) \<and>
    map ob_event (rls_table (snd (process_claimed_records blake3 relay envs i recs report st))) =
      map ob_event (rls_table st)"
  using assms
proof (induction recs arbitrary: i report st)
  case (Cons rec recs)
  obtain res st1 where r: "relay_record blake3 relay (envs i) rec st = (res, st1)" by fastforce
  have ev: "map ob_event (rls_table st1) = map ob_event (rls_table st)"
    using relay_record_events [of blake3 relay "envs i" rec st] r by simp
  have "map row_id (rls_table st1) = map oe_event_id (map ob_event (rls_table st1))" by simp
  also have "\<dots> = map oe_event_id (map ob_event (rls_table st))" by (simp only: ev)
  also have "\<dots> = map row_id (rls_table st)" by simp
  finally have "map row_id (rls_table st1) = map row_id (rls_table st)" .
  moreover have "ob_event ` set (rls_table st1) = ob_event ` set (rls_table st)"
    using ev by (metis list.set_map)
  moreover have "stored_inv blake3 st1" using relay_record_stored [of blake3 st rec] Cons.prems r
    by (metis list.set_intros(1) snd_conv)
  ultimately show ?case using Cons.IH [of st1] Cons.prems r ev by (cases res) auto
qed simp

section \<open>Lemmas on the loops\<close>

lemma claim_nothing:
  assumes "claim_pending_outbox db c n tbl = (Inr [], tbl')" and "0 < n"
    and "\<forall>rs. mset (db_returning db rs) = mset rs"
  shows "filter (claimable db c) tbl = [] \<and> tbl' = tbl"
proof -
  from claim_Ok [OF assms(1)] obtain X where
    recs: "map outbox_record.truncate (db_returning db (map claimed_row
        (filter (\<lambda>r. claimable db c r \<and> row_id r \<in> X) tbl))) = []" and
    tbl': "tbl' = map (\<lambda>r. if claimable db c r \<and> row_id r \<in> X then claimed_row r else r) tbl" and
    X: "X = row_id ` set (take (nat n) (sort_by claim_order (filter (claimable db c) tbl)))" by auto
  have none: "filter (\<lambda>r. claimable db c r \<and> row_id r \<in> X) tbl = []"
    using recs assms(3) [rule_format, of "map claimed_row (filter (\<lambda>r. claimable db c r \<and> row_id r \<in> X) tbl)"]
    by simp
  have f: "filter (claimable db c) tbl = []"
  proof (rule ccontr)
    assume "filter (claimable db c) tbl \<noteq> []"
    then have "sort_by claim_order (filter (claimable db c) tbl) \<noteq> []"
      by (metis length_0_conv length_sort_by)
    then obtain r rs where rs: "sort_by claim_order (filter (claimable db c) tbl) = r # rs"
      by (meson neq_Nil_conv)
    then have "r \<in> set (filter (claimable db c) tbl)" by (metis list.set_intros(1) set_sort_by)
    moreover have "row_id r \<in> X" using rs assms(2) by (cases "nat n") (auto simp: X)
    ultimately have "r \<in> set (filter (\<lambda>r. claimable db c r \<and> row_id r \<in> X) tbl)" by simp
    with none show False by simp
  qed
  have "tbl' = tbl" unfolding tbl' using none by (intro map_idI) (auto simp: filter_empty_conv)
  with f show ?thesis by simp
qed

lemma relay_once_nothing:
  assumes "relay_once blake3 relay env c st = (Inr report, st')" and "rr_claimed report = 0"
    and "0 < rly_claim_limit relay" and "\<forall>rs. mset (db_returning (cye_claim env) rs) = mset rs"
  shows "filter (claimable (cye_claim env) c) (rls_table st) = [] \<and> st' = st"
proof -
  obtain recs tbl where
    cl: "claim_pending_outbox (cye_claim env) c (rly_claim_limit relay) (rls_table st) = (Inr recs, tbl)" and
    pr: "process_claimed_records blake3 relay (cye_records env) 0 recs
      \<lparr>rr_claimed = length recs, rr_published = 0, rr_failed = 0\<rparr> (st\<lparr>rls_table := tbl\<rparr>) = (Inr report, st')"
    using relay_once_Ok [OF assms(1)] by blast
  have "recs = []" using process_report [OF pr] assms(2) by simp
  with cl pr claim_nothing [of "cye_claim env" c "rly_claim_limit relay" "rls_table st" tbl] assms(3,4)
  show ?thesis by auto
qed

lemma relay_all_Ok:
  assumes "relay_all_pending blake3 relay envs k tot st = (Inr n, st')"
    and "0 < rly_claim_limit relay" and "\<forall>k rs. mset (db_returning (cye_claim (envs k)) rs) = mset rs"
  shows "n + table_weight (rls_table st') \<le> tot + table_weight (rls_table st) \<and>
    (\<exists>k' \<ge> k. filter (claimable (cye_claim (envs k')) None) (rls_table st') = [])"
  using assms
proof (induction blake3 relay envs k tot st rule: relay_all_pending.induct)
  case (1 blake3 relay envs k tot st)
  obtain res st1 where r: "relay_once blake3 relay (envs k) None st = (res, st1)" by fastforce
  obtain report where rep: "res = Inr report"
    using "1.prems"(1) r by (cases res) (simp_all add: relay_all_pending.simps [of blake3 relay envs k tot st])
  note r = r [unfolded rep]
  note prog = relay_once_progress [OF r]
  show ?case
  proof (cases "rr_claimed report = 0")
    case True
    from relay_once_nothing [OF r True] "1.prems"(2,3) have
      "filter (claimable (cye_claim (envs k)) None) (rls_table st) = []" "st1 = st" by auto
    moreover have "n = min (tot + rr_published report) (2 ^ 64 - 1)" "st' = st1"
      using "1.prems"(1) True r by (simp_all add: relay_all_pending.simps [of blake3 relay envs k tot st])
    ultimately show ?thesis using prog True by auto
  next
    case False
    have rec: "relay_all_pending blake3 relay envs (Suc k) (min (tot + rr_published report) (2 ^ 64 - 1)) st1 = (Inr n, st')"
      using "1.prems"(1) False r by (simp add: relay_all_pending.simps [of blake3 relay envs k tot st])
    from "1.IH" [OF r [symmetric] refl False rec "1.prems"(2,3)] prog show ?thesis
      by (auto intro: Suc_leD)
  qed
qed

lemma drain_Ok:
  assumes "drain_correlation_outbox blake3 relay envs k c st = (Inr u, st')"
  shows "\<forall>r \<in> set (rls_table st'). oe_correlation_id (ob_event r) = c \<longrightarrow> ob_status r \<in> {OPublished, OFailed}"
  using assms
proof (induction blake3 relay envs k c st rule: drain_correlation_outbox.induct)
  case (1 blake3 relay envs k c st)
  show ?case
  proof (cases "has_pending_for_correlation (cye_inspect (envs k)) c (rls_table st)")
    case (Inl e)
    with 1 show ?thesis by (simp add: drain_correlation_outbox.simps [of blake3 relay envs k c st])
  next
    case (Inr b)
    show ?thesis
    proof (cases b)
      case False
      with Inr 1 have "st' = st" by (simp add: drain_correlation_outbox.simps [of blake3 relay envs k c st])
      moreover have "\<not> list_ex (\<lambda>r. oe_correlation_id (ob_event r) = c \<and> ob_status r \<in> {OPending, OProcessing}) (rls_table st)"
        using Inr False by (auto simp: has_pending_for_correlation_def split: if_splits)
      ultimately show ?thesis using outbox_status.exhaust by (auto simp: list_ex_iff)
    next
      case True
      obtain res st1 where r: "relay_once blake3 relay (envs k) (Some c) st = (res, st1)" by fastforce
      obtain report where rep: "res = Inr report" "rr_claimed report \<noteq> 0"
        using "1.prems" Inr True r
        by (cases res) (auto simp: drain_correlation_outbox.simps [of blake3 relay envs k c st] split: if_splits)
      have rec: "drain_correlation_outbox blake3 relay envs (Suc k) c st1 = (Inr u, st')"
        using "1.prems" Inr True r rep by (simp add: drain_correlation_outbox.simps [of blake3 relay envs k c st])
      show ?thesis
        by (rule "1.IH" [OF Inr [unfolded True [simplified]] _ r [symmetric] rep rec]) (use True in simp)
    qed
  qed
qed

section \<open>Reachable relay states\<close>

text \<open>Producers append, relay cycles run with any outcome; RETURNING only reorders.\<close>

inductive relay_reachable :: "(string \<Rightarrow> nat list) \<Rightarrow> relay_state \<Rightarrow> bool" for blake3 where
  rel_start: "relay_reachable blake3 \<lparr>rls_table = [], rls_store = Map.empty\<rparr>"
| rel_append: "relay_reachable blake3 st \<Longrightarrow>
    relay_reachable blake3 (st\<lparr>rls_table := snd (append_outbox_event db event (rls_table st))\<rparr>)"
| rel_append_idem: "relay_reachable blake3 st \<Longrightarrow>
    relay_reachable blake3 (st\<lparr>rls_table := snd (append_outbox_event_idempotent db event (rls_table st))\<rparr>)"
| rel_cycle: "relay_reachable blake3 st \<Longrightarrow> \<forall>rs. mset (db_returning (cye_claim env) rs) = mset rs \<Longrightarrow>
    relay_reachable blake3 (snd (relay_once blake3 relay env c st))"

lemma process_inv: "outbox_inv (rls_table st) \<Longrightarrow>
    outbox_inv (rls_table (snd (process_claimed_records blake3 relay envs i recs report st)))"
proof (induction recs arbitrary: i report st)
  case (Cons rec recs)
  obtain res st1 where r: "relay_record blake3 relay (envs i) rec st = (res, st1)" by fastforce
  have "outbox_inv (rls_table st1)"
    using outbox_inv_step [OF Cons.prems relay_record_step [of st blake3 relay "envs i" rec]] r by simp
  with Cons.IH r show ?case by (cases res) auto
qed simp

lemma relay_once_inv:
  assumes "outbox_inv (rls_table st)" and "stored_inv blake3 st"
    and "\<forall>rs. mset (db_returning (cye_claim env) rs) = mset rs"
  shows "outbox_inv (rls_table (snd (relay_once blake3 relay env c st))) \<and>
    stored_inv blake3 (snd (relay_once blake3 relay env c st))"
proof -
  obtain res tbl where
    cl: "claim_pending_outbox (cye_claim env) c (rly_claim_limit relay) (rls_table st) = (res, tbl)" by fastforce
  have inv: "outbox_inv tbl"
    using outbox_inv_step [OF assms(1) ob_claim [of "rls_table st" "cye_claim env" c "rly_claim_limit relay"]] cl by simp
  show ?thesis
  proof (cases res)
    case (Inl e)
    with cl claim_Err have "tbl = rls_table st" by blast
    with Inl cl assms show ?thesis by (simp add: relay_once_def)
  next
    case (Inr recs)
    from claim_Ok [OF cl [unfolded Inr]] obtain X where
      recs: "recs = map outbox_record.truncate (db_returning (cye_claim env)
         (map claimed_row (filter (\<lambda>r. claimable (cye_claim env) c r \<and> row_id r \<in> X) (rls_table st))))" and
      tbl: "tbl = map (\<lambda>r. if claimable (cye_claim env) c r \<and> row_id r \<in> X then claimed_row r else r) (rls_table st)"
      by blast
    have evs: "ob_event ` set tbl = ob_event ` set (rls_table st)"
      unfolding tbl list.set_map image_image by (rule image_cong) (auto simp: claimed_row_def)
    have "ob_event rec \<in> ob_event ` set tbl" if mem: "rec \<in> set recs" for rec
    proof -
      obtain q where q: "q \<in> set (db_returning (cye_claim env)
         (map claimed_row (filter (\<lambda>r. claimable (cye_claim env) c r \<and> row_id r \<in> X) (rls_table st))))"
        "rec = outbox_record.truncate q" using mem recs by auto
      then have "q \<in> set (map claimed_row (filter (\<lambda>r. claimable (cye_claim env) c r \<and> row_id r \<in> X) (rls_table st)))"
        using assms(3) by (metis set_mset_mset)
      then have "ob_event q \<in> ob_event ` set (rls_table st)" by (auto simp: claimed_row_def)
      then show ?thesis unfolding evs q(2) by (simp add: outbox_record.truncate_def)
    qed
    moreover have "stored_inv blake3 (st\<lparr>rls_table := tbl\<rparr>)"
      using assms(2) by (auto simp: stored_inv_def tbl claimed_row_def)
    moreover have "distinct (map row_id tbl)" using inv by (simp add: outbox_inv_def)
    ultimately show ?thesis
      using process_stored [of blake3 "st\<lparr>rls_table := tbl\<rparr>" recs] process_inv [of "st\<lparr>rls_table := tbl\<rparr>"] inv
        cl Inr by (simp add: relay_once_def)
  qed
qed

lemma relay_reachable_inv:
  "relay_reachable blake3 st \<Longrightarrow> outbox_inv (rls_table st) \<and> stored_inv blake3 st"
proof (induction rule: relay_reachable.induct)
  case rel_start
  then show ?case by (simp add: outbox_inv_def table_keys_def stored_inv_def)
next
  case (rel_append st db event)
  then show ?case
    using append_shape(1) [of db event "rls_table st"] outbox_inv_step [OF _ ob_append [of "rls_table st" db event]]
    by (auto simp: stored_inv_def fresh_row_def)
next
  case (rel_append_idem st db event)
  then show ?case
    using append_shape(2) [of db event "rls_table st"] outbox_inv_step [OF _ ob_append_idem [of "rls_table st" db event]]
    by (auto simp: stored_inv_def fresh_row_def)
next
  case (rel_cycle st env relay c)
  then show ?case using relay_once_inv by blast
qed

section \<open>Properties\<close>

text \<open>C5: the outbox is a sound state machine. In every reachable table identifiers and idempotency keys are unique, no row has more than three attempts, a row is failed exactly when its attempts are used up, a published row has its stream identifier; and no statement ever changes or drops a published or failed row.\<close>

theorem outbox_state_machine:
  assumes "outbox_reachable tbl"
  shows "distinct (map row_id tbl) \<and> distinct (map (\<lambda>r. oe_idempotency_key (ob_event r)) tbl) \<and>
    (\<forall>r \<in> set tbl. 0 \<le> ob_attempts r \<and> ob_attempts r \<le> max_outbox_retries \<and>
       (ob_status r = OFailed \<longleftrightarrow> ob_attempts r = max_outbox_retries) \<and>
       (ob_status r = OPublished \<longrightarrow> ob_stream_id r \<noteq> None)) \<and>
    (\<forall>tbl'. outbox_step tbl tbl' \<longrightarrow>
       (\<forall>r \<in> set tbl. ob_status r \<in> {OPublished, OFailed} \<longrightarrow> r \<in> set tbl'))"
  using outbox_reachable_inv [OF assms] outbox_step_terminal
  by (auto simp: outbox_inv_def row_ok_def table_keys_def)

definition sample_db :: db_env where
  "sample_db = \<lparr>db_up = True, db_now = 10, db_app_now = 10, db_returning = (\<lambda>rs. rs)\<rparr>"

definition sample_event :: outbox_event where
  "sample_event = \<lparr>oe_event_id = ''e1'', oe_event_type = ''vector.upsert'', oe_correlation_id = ''c1'',
     oe_idempotency_key = ''k1'', oe_schema_version = 1, oe_timestamp = 5,
     oe_payload = JObj [(''content_hash'', JStr ''h''), (''vector'', JArr [JNum 1])]\<rparr>"

lemma trim_samples: "trim ''vector.upsert'' = ''vector.upsert''" "trim ''k1'' = ''k1''" "trim ''h'' = ''h''"
  by (simp_all add: trim_no_ws is_ws_def)

lemma sample_append:
  "append_outbox_event sample_db sample_event [] = (Ok (), [new_row sample_db sample_event])"
  by (simp add: append_outbox_event_def sample_db_def validate_outbox_event_def sample_event_def
      insert_outbox_event_def trim_samples)

theorem outbox_state_machine_witness:
  "ob_attempts (hd (snd (append_outbox_event sample_db sample_event []))) \<le> max_outbox_retries"
proof -
  have "outbox_reachable (snd (append_outbox_event sample_db sample_event []))"
    by (rule ob_step [OF ob_empty ob_append])
  from outbox_state_machine [OF this] show ?thesis by (simp add: sample_append)
qed

text \<open>C2: published means stored. In every state the producers and the relay reach, whatever fails and wherever a cycle stops, an event marked published is a well-formed vector upsert and the vector store holds the point of its content hash.\<close>

theorem relay_published_has_vector:
  assumes "relay_reachable blake3 st" and "r \<in> set (rls_table st)" and "ob_status r = OPublished"
  shows "\<exists>u. parse_vector_upsert_request (oe_payload (ob_event r)) = Inr u \<and>
    rls_store st (qdrant_point_id blake3 (vu_content_hash u)) \<noteq> None"
  using relay_reachable_inv [OF assms(1)] assms(2,3) by (auto simp: stored_inv_def row_stored_def)

definition sample_relay :: outbox_relay where
  "sample_relay = \<lparr>rly_claim_limit = 10, rly_retry_after_seconds = 0\<rparr>"

definition sample_cycle :: "(string, unit) result \<Rightarrow> cycle_env" where
  "sample_cycle answer = \<lparr>cye_inspect = sample_db, cye_claim = sample_db,
     cye_records = (\<lambda>_. \<lparr>rve_upsert = answer, rve_wrote = False, rve_db = sample_db\<rparr>)\<rparr>"

definition sample_pending :: relay_state where
  "sample_pending = \<lparr>rls_table = [new_row sample_db sample_event], rls_store = Map.empty\<rparr>"

lemma sample_reachable: "relay_reachable b sample_pending"
  using rel_append [OF rel_start, of b sample_db sample_event] by (simp add: sample_append sample_pending_def)

lemma sample_parse: "\<exists>u. parse_vector_upsert_request (oe_payload sample_event) = Inr u"
  by (simp add: parse_vector_upsert_request_def sample_event_def trim_samples)

lemma trim_cons: "\<not> is_ws c \<Longrightarrow> trim (c # cs) \<noteq> []"
proof -
  assume c: "\<not> is_ws c"
  have "dropWhile is_ws (rev (c # cs)) \<noteq> []" using c by simp
  then show ?thesis using c by (simp add: trim_def trim_start_def trim_end_def)
qed

lemma trim_stream: "trim (''qdrant:'' @ s) \<noteq> []"
  using trim_cons [of "CHR ''q''"] by (simp add: is_ws_def)

lemma sample_relay_once:
  "rls_table (snd (relay_once blake3 sample_relay (sample_cycle (Ok ())) None sample_pending)) =
     [published_row sample_db (''qdrant:'' @ nat_str (qdrant_point_id blake3 ''h''))
        (claimed_row (new_row sample_db sample_event))]"
proof -
  obtain u where u: "parse_vector_upsert_request (oe_payload sample_event) = Inr u" using sample_parse by blast
  then have "vu_content_hash u = ''h''"
    by (auto simp: parse_vector_upsert_request_def sample_event_def trim_samples)
  with u show ?thesis
    using trim_stream [of "nat_str (qdrant_point_id blake3 ''h'')"]
    by (simp add: relay_once_def sample_pending_def sample_relay_def sample_cycle_def claim_pending_outbox_def
        validate_claim_limit_def sample_db_def claimable_def new_row_def relay_record_def
        vector_upsert_event_type_def outbox_record.truncate_def claimed_row_def Let_def
        mark_outbox_published_def update_processing_def in_processing_def)
      (simp add: sample_event_def)
qed

theorem relay_published_has_vector_witness:
  "\<exists>u. parse_vector_upsert_request (oe_payload sample_event) = Inr u \<and>
    rls_store (snd (relay_once (\<lambda>_. [1]) sample_relay (sample_cycle (Ok ())) None sample_pending))
      (qdrant_point_id (\<lambda>_. [1]) (vu_content_hash u)) \<noteq> None"
proof -
  let ?r = "published_row sample_db (''qdrant:'' @ nat_str (qdrant_point_id (\<lambda>_. [1]) ''h''))
        (claimed_row (new_row sample_db sample_event))"
  have "relay_reachable (\<lambda>_. [1]) (snd (relay_once (\<lambda>_. [1]) sample_relay (sample_cycle (Ok ())) None sample_pending))"
    by (rule rel_cycle [OF sample_reachable]) (simp add: sample_cycle_def sample_db_def)
  from relay_published_has_vector [OF this, of ?r] show ?thesis
    by (simp add: sample_relay_once) (simp add: published_row_def claimed_row_def new_row_def)
qed

text \<open>the self-heal relay drains to completion.  The loop always returns; when it returns a count,
  that many events were published, at most as many as the table had attempts left, and at the clock of
  its last cycle nothing was left to claim.\<close>

theorem relay_all_drains:
  assumes "relay_all_pending_to_completion blake3 relay envs st = (Ok n, st')"
    and "0 < rly_claim_limit relay" and "\<forall>k rs. mset (db_returning (cye_claim (envs k)) rs) = mset rs"
  shows "n + table_weight (rls_table st') \<le> table_weight (rls_table st) \<and>
    (\<exists>k. \<forall>r \<in> set (rls_table st'). \<not> (ob_status r = OPending \<and> ob_available_at r \<le> db_now (cye_claim (envs k))))"
proof -
  from relay_all_Ok [OF assms(1) [unfolded relay_all_pending_to_completion_def] assms(2,3)] obtain k where
    "n + table_weight (rls_table st') \<le> table_weight (rls_table st)"
    "filter (claimable (cye_claim (envs k)) None) (rls_table st') = []" by auto
  then show ?thesis by (auto simp: filter_empty_conv claimable_def)
qed

lemma sample_relay_nothing:
  "relay_once blake3 sample_relay (sample_cycle a) c
     \<lparr>rls_table = [published_row db s (claimed_row (new_row sample_db sample_event))], rls_store = store\<rparr> =
   (Ok \<lparr>rr_claimed = 0, rr_published = 0, rr_failed = 0\<rparr>,
    \<lparr>rls_table = [published_row db s (claimed_row (new_row sample_db sample_event))], rls_store = store\<rparr>)"
  by (simp add: relay_once_def sample_relay_def sample_cycle_def claim_pending_outbox_def
      validate_claim_limit_def sample_db_def claimable_def published_row_def Let_def)

lemma sample_relay_once_full:
  "\<exists>store. relay_once blake3 sample_relay (sample_cycle (Ok ())) c sample_pending =
    (Ok \<lparr>rr_claimed = 1, rr_published = 1, rr_failed = 0\<rparr>,
     \<lparr>rls_table = [published_row sample_db (''qdrant:'' @ nat_str (qdrant_point_id blake3 ''h''))
        (claimed_row (new_row sample_db sample_event))], rls_store = store\<rparr>)"
  if "c = None \<or> c = Some ''c1''" for c
proof -
  obtain u where u: "parse_vector_upsert_request (oe_payload sample_event) = Inr u" using sample_parse by blast
  then have "vu_content_hash u = ''h''"
    by (auto simp: parse_vector_upsert_request_def sample_event_def trim_samples)
  moreover have "oe_correlation_id sample_event = ''c1''" "oe_event_type sample_event = ''vector.upsert''"
    "oe_event_id sample_event = ''e1''" by (simp_all add: sample_event_def)
  ultimately show ?thesis
    using u that trim_stream [of "nat_str (qdrant_point_id blake3 ''h'')"]
    by (auto simp: relay_once_def sample_pending_def sample_relay_def sample_cycle_def claim_pending_outbox_def
        validate_claim_limit_def sample_db_def claimable_def new_row_def relay_record_def
        vector_upsert_event_type_def outbox_record.truncate_def claimed_row_def Let_def
        mark_outbox_published_def update_processing_def in_processing_def)
qed

lemma sample_relay_all:
  "\<exists>st'. relay_all_pending_to_completion blake3 sample_relay (\<lambda>_. sample_cycle (Ok ())) sample_pending = (Ok 1, st')"
  using sample_relay_once_full [of None blake3]
  by (auto simp: relay_all_pending_to_completion_def relay_all_pending.simps [of _ _ _ 0]
      relay_all_pending.simps [of _ _ _ "Suc 0"] sample_relay_nothing)

theorem relay_all_drains_witness:
  "\<exists>st'. relay_all_pending_to_completion (\<lambda>_. [1]) sample_relay (\<lambda>_. sample_cycle (Ok ())) sample_pending = (Ok 1, st') \<and>
     1 + table_weight (rls_table st') \<le> table_weight (rls_table sample_pending)"
proof -
  obtain st' where run: "relay_all_pending_to_completion (\<lambda>_. [1]) sample_relay (\<lambda>_. sample_cycle (Ok ())) sample_pending = (Ok 1, st')"
    using sample_relay_all by blast
  from relay_all_drains [OF run] show ?thesis
    using run by (auto simp: sample_relay_def sample_cycle_def sample_db_def)
qed

text \<open>C31: a drain that returns Ok has settled its correlation. The loop always returns, and when it returns Ok no event of the correlation is pending or being processed any more: each is published, or failed for good.\<close>

theorem drain_settles:
  assumes "drain_correlation_outbox blake3 relay envs 0 correlation st = (Ok (), st')"
    and "r \<in> set (rls_table st')" and "oe_correlation_id (ob_event r) = correlation"
  shows "ob_status r = OPublished \<or> ob_status r = OFailed"
  using drain_Ok [OF assms(1)] assms(2,3) by auto

lemma sample_drain:
  "\<exists>store. drain_correlation_outbox blake3 sample_relay (\<lambda>_. sample_cycle (Ok ())) 0 ''c1'' sample_pending =
    (Ok (), \<lparr>rls_table = [published_row sample_db (''qdrant:'' @ nat_str (qdrant_point_id blake3 ''h''))
        (claimed_row (new_row sample_db sample_event))], rls_store = store\<rparr>)"
proof -
  have p: "has_pending_for_correlation (cye_inspect (sample_cycle (Ok ()))) ''c1'' (rls_table sample_pending) = Inr True"
    by (simp add: has_pending_for_correlation_def sample_cycle_def sample_db_def sample_pending_def new_row_def sample_event_def)
  show ?thesis
    using sample_relay_once_full [of "Some ''c1''" blake3]
    by (auto simp: drain_correlation_outbox.simps [of _ _ _ 0] drain_correlation_outbox.simps [of _ _ _ "Suc 0"] p)
      (simp add: has_pending_for_correlation_def sample_cycle_def published_row_def, simp add: sample_db_def)
qed

theorem drain_settles_witness:
  "\<exists>st' r. drain_correlation_outbox (\<lambda>_. [1]) sample_relay (\<lambda>_. sample_cycle (Ok ())) 0 ''c1'' sample_pending = (Ok (), st') \<and>
     r \<in> set (rls_table st') \<and> (ob_status r = OPublished \<or> ob_status r = OFailed)"
proof -
  let ?r = "published_row sample_db (''qdrant:'' @ nat_str (qdrant_point_id (\<lambda>_. [1]) ''h''))
        (claimed_row (new_row sample_db sample_event))"
  obtain store where run: "drain_correlation_outbox (\<lambda>_. [1]) sample_relay (\<lambda>_. sample_cycle (Ok ())) 0 ''c1'' sample_pending =
    (Ok (), \<lparr>rls_table = [?r], rls_store = store\<rparr>)" using sample_drain by blast
  have "oe_correlation_id (ob_event ?r) = ''c1''"
    by (simp add: published_row_def claimed_row_def new_row_def sample_event_def)
  from drain_settles [OF run _ this] run show ?thesis by force
qed

lemma sample_fail_cycle:
  assumes "ob_event r = sample_event" "ob_status r = OPending" "ob_available_at r \<le> 10"
  shows "relay_once blake3 sample_relay (sample_cycle (Err ''down'')) (Some ''c1'') \<lparr>rls_table = [r], rls_store = store\<rparr> =
    (Ok \<lparr>rr_claimed = 1, rr_published = 0, rr_failed = 1\<rparr>,
     \<lparr>rls_table = [failed_row 10 ''down'' (claimed_row r)], rls_store = store\<rparr>)"
proof -
  obtain u where u: "parse_vector_upsert_request (oe_payload sample_event) = Inr u" using sample_parse by blast
  have "oe_correlation_id sample_event = ''c1''" "oe_event_type sample_event = ''vector.upsert''"
    "oe_event_id sample_event = ''e1''" by (simp_all add: sample_event_def)
  moreover have "trim ''down'' \<noteq> []" by (rule trim_cons) (simp add: is_ws_def)
  ultimately show ?thesis
    using u assms
    by (auto simp: relay_once_def sample_relay_def sample_cycle_def claim_pending_outbox_def
        validate_claim_limit_def sample_db_def claimable_def relay_record_def
        vector_upsert_event_type_def outbox_record.truncate_def claimed_row_def Let_def
        mark_outbox_failed_def update_processing_def in_processing_def)
qed

lemma sample_has_pending:
  "has_pending_for_correlation (cye_inspect (sample_cycle a)) ''c1'' [r] =
     Inr (oe_correlation_id (ob_event r) = ''c1'' \<and> ob_status r \<in> {OPending, OProcessing})"
  by (simp add: has_pending_for_correlation_def sample_cycle_def sample_db_def)

text \<open>a drain can return Ok although a vector was lost. With a vector store that refuses every write and no retry delay, draining one event's correlation uses up its three attempts, marks it failed and returns Ok, with nothing stored.\<close>

theorem drain_reports_success_despite_loss:
  "\<exists>st'. drain_correlation_outbox blake3 sample_relay (\<lambda>_. sample_cycle (Err ''down'')) 0 ''c1'' sample_pending = (Ok (), st') \<and>
     rls_store st' = Map.empty \<and> map ob_event (rls_table st') = [sample_event] \<and>
     map ob_status (rls_table st') = [OFailed]"
proof -
  define r0 where "r0 = new_row sample_db sample_event"
  define r1 where "r1 = failed_row 10 ''down'' (claimed_row r0)"
  define r2 where "r2 = failed_row 10 ''down'' (claimed_row r1)"
  define r3 where "r3 = failed_row 10 ''down'' (claimed_row r2)"
  have s: "ob_event r0 = sample_event" "ob_event r1 = sample_event" "ob_event r2 = sample_event" "ob_event r3 = sample_event"
    "ob_status r0 = OPending" "ob_status r1 = OPending" "ob_status r2 = OPending" "ob_status r3 = OFailed"
    "ob_available_at r0 \<le> 10" "ob_available_at r1 \<le> 10" "ob_available_at r2 \<le> 10"
    by (simp_all add: r0_def r1_def r2_def r3_def failed_row_def claimed_row_def new_row_def sample_db_def max_outbox_retries_def)
  have c: "oe_correlation_id sample_event = ''c1''" by (simp add: sample_event_def)
  let ?st = "\<lambda>r. \<lparr>rls_table = [r], rls_store = Map.empty\<rparr>"
  let ?e = "\<lambda>_ :: nat. sample_cycle (Err ''down'')"
  have step: "drain_correlation_outbox blake3 sample_relay ?e k ''c1'' (?st r) =
      drain_correlation_outbox blake3 sample_relay ?e (Suc k) ''c1'' (?st (failed_row 10 ''down'' (claimed_row r)))"
    if "ob_event r = sample_event" "ob_status r = OPending" "ob_available_at r \<le> 10" for k r
    using that sample_fail_cycle [OF that]
    by (subst drain_correlation_outbox.simps) (simp add: sample_has_pending c)
  have "drain_correlation_outbox blake3 sample_relay ?e 0 ''c1'' (?st r0) =
      drain_correlation_outbox blake3 sample_relay ?e 3 ''c1'' (?st r3)"
    using step [of r0 0] step [of r1 1] step [of r2 2] s
    by (simp add: r1_def [symmetric] r2_def [symmetric] r3_def [symmetric] numeral_2_eq_2 numeral_3_eq_3)
  also have "\<dots> = (Ok (), ?st r3)"
    by (subst drain_correlation_outbox.simps) (simp add: sample_has_pending s)
  finally show ?thesis using s by (simp add: sample_pending_def r0_def)
qed

end
