(* ===== verification/Outbox_Reconciler.thy ===== *)
theory Outbox_Reconciler
  imports Outbox_Facts Config_Env
begin

text \<open>
  The reconciler (\<open>infrastructure/src/persistence/outbox\_reconciler.rs\<close>): it compares the published
  events with the vector store, re-enqueues what is missing and deletes orphaned points.  The
  answers of the store and of the database, fresh identifiers and the order of the hash map are
  parameters.
\<close>

section \<open>Expected points\<close>

record reconciliation_report =
  rcr_scanned :: nat
  rcr_missing_vectors :: nat
  rcr_repair_enqueued :: nat
  rcr_orphaned_vectors_deleted :: nat

record vector_point_listing =
  vpl_point_ids :: "nat list"
  vpl_is_complete :: bool

type_synonym expected_points = "(nat \<times> outbox_record) list"

definition outbox_record_is_newer :: "outbox_record \<Rightarrow> outbox_record \<Rightarrow> bool" where
  "outbox_record_is_newer candidate current \<longleftrightarrow>
     oe_timestamp (ob_event current) < oe_timestamp (ob_event candidate) \<or>
     (oe_timestamp (ob_event candidate) = oe_timestamp (ob_event current) \<and>
      \<not> bytes_le (row_id candidate) (row_id current))"

fun upsert_expected :: "expected_points \<Rightarrow> nat \<Rightarrow> outbox_record \<Rightarrow> expected_points" where
  "upsert_expected [] point_id rec = [(point_id, rec)]"
| "upsert_expected ((p, current) # rest) point_id rec =
     (if p = point_id
      then (p, if outbox_record_is_newer rec current then rec else current) # rest
      else (p, current) # upsert_expected rest point_id rec)"

fun expected_points_by_event ::
  "(string \<Rightarrow> nat list) \<Rightarrow> outbox_record list \<Rightarrow> expected_points \<Rightarrow>
     (outbox_relay_error, expected_points) result" where
  "expected_points_by_event blake3 [] expected = Ok expected"
| "expected_points_by_event blake3 (rec # recs) expected =
     (case parse_vector_upsert_request (oe_payload (ob_event rec)) of
        Inl m \<Rightarrow> Err (InvalidPayload m)
      | Inr upsert \<Rightarrow> expected_points_by_event blake3 recs
          (upsert_expected expected (qdrant_point_id blake3 (vu_content_hash upsert)) rec))"

section \<open>One reconciliation\<close>

record reconcile_env =
  rce_list_db :: db_env
  rce_hash_order :: "expected_points \<Rightarrow> expected_points"
  rce_has_error :: "nat \<Rightarrow> string option"
  rce_append_db :: "nat \<Rightarrow> db_env"
  rce_now_v7 :: "nat \<Rightarrow> uuid"
  rce_now :: "nat \<Rightarrow> int"
  rce_listing :: "vector_store \<Rightarrow> (string, vector_point_listing) result"
  rce_delete :: "(string, unit) result"

definition outbox_reconciler_new :: "int \<Rightarrow> (outbox_relay_error, int) result" where
  "outbox_reconciler_new scan_limit =
     (if scan_limit \<le> 0 then Err (InvalidPayload ''scan_limit must be greater than zero'') else Ok scan_limit)"

text \<open>The records whose point the store does not hold.\<close>

fun missing_records ::
  "(nat \<Rightarrow> string option) \<Rightarrow> vector_store \<Rightarrow> expected_points \<Rightarrow>
     (outbox_relay_error, outbox_record list) result" where
  "missing_records has_error store [] = Ok []"
| "missing_records has_error store ((point_id, rec) # rest) =
     (case has_error point_id of
        Some m \<Rightarrow> Err (VectorStore m)
      | None \<Rightarrow> rbind (missing_records has_error store rest)
                 (\<lambda>ms. Ok (if store point_id = None then rec # ms else ms)))"

definition reconcile_key :: "(string \<Rightarrow> nat list) \<Rightarrow> outbox_record \<Rightarrow> string \<Rightarrow> string" where
  "reconcile_key blake3 rec content_hash =
     ''reconcile:'' @ row_id rec @ '':'' @ nat_str (qdrant_point_id blake3 content_hash)"

definition repair_event ::
  "(string \<Rightarrow> nat list) \<Rightarrow> uuid \<Rightarrow> int \<Rightarrow> outbox_record \<Rightarrow> string \<Rightarrow> outbox_event" where
  "repair_event blake3 new_id now rec content_hash =
     \<lparr>oe_event_id = new_id, oe_event_type = vector_upsert_event_type,
      oe_correlation_id = oe_correlation_id (ob_event rec),
      oe_idempotency_key = reconcile_key blake3 rec content_hash,
      oe_schema_version = oe_schema_version (ob_event rec), oe_timestamp = now,
      oe_payload = oe_payload (ob_event rec)\<rparr>"

fun enqueue_repairs ::
  "(string \<Rightarrow> nat list) \<Rightarrow> reconcile_env \<Rightarrow> nat \<Rightarrow> outbox_record list \<Rightarrow> nat \<Rightarrow> outbox_table \<Rightarrow>
     (outbox_relay_error, nat) result \<times> outbox_table" where
  "enqueue_repairs blake3 env i [] enqueued tbl = (Ok enqueued, tbl)"
| "enqueue_repairs blake3 env i (rec # recs) enqueued tbl =
     (case parse_vector_upsert_request (oe_payload (ob_event rec)) of
        Inl m \<Rightarrow> (Err (InvalidPayload m), tbl)
      | Inr upsert \<Rightarrow>
          (case append_outbox_event (rce_append_db env i)
                  (repair_event blake3 (rce_now_v7 env i) (rce_now env i) rec (vu_content_hash upsert)) tbl of
             (Inr _, tbl') \<Rightarrow> enqueue_repairs blake3 env (Suc i) recs (Suc enqueued) tbl'
           | (Inl (IdempotencyConflict _), tbl') \<Rightarrow> enqueue_repairs blake3 env (Suc i) recs enqueued tbl'
           | (Inl e, tbl') \<Rightarrow> (Err (Coordinator e), tbl')))"

definition delete_orphans ::
  "reconcile_env \<Rightarrow> bool \<Rightarrow> expected_points \<Rightarrow> vector_store \<Rightarrow>
     (outbox_relay_error, nat) result \<times> vector_store" where
  "delete_orphans env expected_set_is_complete expected store =
     (case rce_listing env store of
        Inl m \<Rightarrow> (Err (VectorStore m), store)
      | Inr listing \<Rightarrow>
          if expected_set_is_complete \<and> vpl_is_complete listing then
            (let orphaned = filter (\<lambda>p. p \<notin> fst ` set expected) (vpl_point_ids listing) in
             if orphaned = [] then (Ok 0, store)
             else (case rce_delete env of
                     Inl m \<Rightarrow> (Err (VectorStore m), store)
                   | Inr _ \<Rightarrow> (Ok (length orphaned), (\<lambda>p. if p \<in> set orphaned then None else store p))))
          else (Ok 0, store))"

definition reconcile_once ::
  "(string \<Rightarrow> nat list) \<Rightarrow> int \<Rightarrow> reconcile_env \<Rightarrow> relay_state \<Rightarrow>
     (outbox_relay_error, reconciliation_report) result \<times> relay_state" where
  "reconcile_once blake3 scan_limit env st =
     (case list_published_events_by_type (rce_list_db env) vector_upsert_event_type scan_limit (rls_table st) of
        Inl e \<Rightarrow> (Err (Coordinator e), st)
      | Inr published \<Rightarrow>
     (case expected_points_by_event blake3 published [] of
        Inl e \<Rightarrow> (Err e, st)
      | Inr expected0 \<Rightarrow>
          (let expected = rce_hash_order env expected0 in
     (case missing_records (rce_has_error env) (rls_store st) expected of
        Inl e \<Rightarrow> (Err e, st)
      | Inr missing \<Rightarrow>
     (case enqueue_repairs blake3 env 0 missing 0 (rls_table st) of
        (Inl e, tbl) \<Rightarrow> (Err e, st\<lparr>rls_table := tbl\<rparr>)
      | (Inr enqueued, tbl) \<Rightarrow>
     (case delete_orphans env (int (length published) < scan_limit) expected (rls_store st) of
        (Inl e, store) \<Rightarrow> (Err e, st\<lparr>rls_table := tbl, rls_store := store\<rparr>)
      | (Inr deleted, store) \<Rightarrow>
          (Ok \<lparr>rcr_scanned = length published, rcr_missing_vectors = length missing,
               rcr_repair_enqueued = enqueued, rcr_orphaned_vectors_deleted = deleted\<rparr>,
           st\<lparr>rls_table := tbl, rls_store := store\<rparr>)))))))"

section \<open>Lemmas\<close>

lemma keys_upsert_expected: "fst ` set (upsert_expected ex p rec) = insert p (fst ` set ex)"
  by (induction ex p rec rule: upsert_expected.induct) auto

lemma expected_keys:
  "expected_points_by_event blake3 recs ex = Inr ex' \<Longrightarrow>
     fst ` set ex' = fst ` set ex \<union>
       {qdrant_point_id blake3 (vu_content_hash u) | rec u. rec \<in> set recs \<and>
          parse_vector_upsert_request (oe_payload (ob_event rec)) = Inr u}"
proof (induction recs arbitrary: ex)
  case (Cons rec recs)
  then obtain u where u: "parse_vector_upsert_request (oe_payload (ob_event rec)) = Inr u"
    by (auto split: sum.splits)
  with Cons.prems have "expected_points_by_event blake3 recs
      (upsert_expected ex (qdrant_point_id blake3 (vu_content_hash u)) rec) = Inr ex'" by simp
  from Cons.IH [OF this] show ?case unfolding keys_upsert_expected using u by auto
qed simp

lemma published_complete:
  assumes "list_published_events_by_type db ty n tbl = Inr recs" and "int (length recs) < n"
    and "r \<in> set tbl" and "ob_status r = OPublished" and "oe_event_type (ob_event r) = ty"
  shows "\<exists>rec \<in> set recs. ob_event rec = ob_event r"
proof -
  let ?s = "sort_by (\<lambda>r s. oe_timestamp (ob_event s) \<le> oe_timestamp (ob_event r))
    (filter (\<lambda>r. ob_status r = OPublished \<and> oe_event_type (ob_event r) = ty) tbl)"
  have recs: "recs = map outbox_record.truncate (take (nat n) ?s)"
    using assms(1) by (auto simp: list_published_events_by_type_def split: if_splits)
  then have "length (take (nat n) ?s) < nat n" using assms(2) by auto
  then have "take (nat n) ?s = ?s" by simp
  moreover have "r \<in> set ?s" using assms(3-5) by simp
  ultimately have "outbox_record.truncate r \<in> set recs" unfolding recs by simp
  then show ?thesis by (intro bexI) (auto simp: outbox_record.truncate_def)
qed

lemma delete_orphans_keeps:
  assumes "store p \<noteq> None" and "full \<Longrightarrow> p \<in> fst ` set ex"
  shows "snd (delete_orphans env full ex store) p \<noteq> None"
  using assms by (auto simp: delete_orphans_def Let_def split: sum.splits)

lemma append_conflict_or_row:
  "append_outbox_event db e tbl = (Inr u, tbl') \<Longrightarrow> oe_idempotency_key e \<in> set (table_keys tbl') \<and> set (table_keys tbl) \<subseteq> set (table_keys tbl')"
  "append_outbox_event db e tbl = (Inl (IdempotencyConflict k), tbl') \<Longrightarrow>
     oe_idempotency_key e \<in> set (table_keys tbl') \<and> tbl' = tbl"
  by (auto simp: append_outbox_event_def insert_outbox_event_def new_row_def table_keys_def validate_outbox_event_def
      split: if_splits sum.splits)

lemma enqueue_repairs_keys:
  "enqueue_repairs blake3 env i recs n tbl = (Inr m, tbl') \<Longrightarrow>
     set (table_keys tbl) \<subseteq> set (table_keys tbl') \<and>
     (\<forall>rec \<in> set recs. \<exists>u. parse_vector_upsert_request (oe_payload (ob_event rec)) = Inr u \<and>
        reconcile_key blake3 rec (vu_content_hash u) \<in> set (table_keys tbl'))"
proof (induction recs arbitrary: i n tbl)
  case (Cons rec recs)
  then obtain u where u: "parse_vector_upsert_request (oe_payload (ob_event rec)) = Inr u"
    by (auto split: sum.splits)
  let ?e = "repair_event blake3 (rce_now_v7 env i) (rce_now env i) rec (vu_content_hash u)"
  obtain res t where ap: "append_outbox_event (rce_append_db env i) ?e tbl = (res, t)" by fastforce
  have key: "oe_idempotency_key ?e = reconcile_key blake3 rec (vu_content_hash u)" by (simp add: repair_event_def)
  obtain n' where n': "enqueue_repairs blake3 env (Suc i) recs n' t = (Inr m, tbl')"
    and t: "oe_idempotency_key ?e \<in> set (table_keys t)" "set (table_keys tbl) \<subseteq> set (table_keys t)"
  proof (cases res)
    case (Inr x)
    then show ?thesis using that [of "Suc n"] Cons.prems u ap append_conflict_or_row(1) [of _ ?e tbl] by simp
  next
    case (Inl e)
    then obtain k where "e = IdempotencyConflict k" using Cons.prems u ap by (cases e) simp_all
    with Inl ap append_conflict_or_row(2) [of _ ?e tbl k t] have "t = tbl" "oe_idempotency_key ?e \<in> set (table_keys t)" by blast+
    with Inl \<open>e = _\<close> show ?thesis using that [of n] Cons.prems u ap by simp
  qed
  from Cons.IH [OF n'] t u key show ?case by auto
qed (simp add: subset_refl)

section \<open>The newest record of a point\<close>

lemma bytes_le_total: "bytes_le s t \<or> bytes_le t s"
  by (induction s t rule: bytes_le.induct) (auto simp: not_less_iff_gr_or_eq)

lemma bytes_le_trans: "bytes_le s t \<Longrightarrow> bytes_le t u \<Longrightarrow> bytes_le s u"
proof (induction s t arbitrary: u rule: bytes_le.induct)
  case (3 c s d t)
  then show ?case by (cases u) (auto intro: less_trans)
qed auto

lemma not_newer_iff: "\<not> outbox_record_is_newer a b \<longleftrightarrow> oe_timestamp (ob_event a) < oe_timestamp (ob_event b) \<or>
    (oe_timestamp (ob_event a) = oe_timestamp (ob_event b) \<and> bytes_le (row_id a) (row_id b))"
  by (auto simp: outbox_record_is_newer_def)

interpretation newest: total_preorder "\<lambda>a b. \<not> outbox_record_is_newer a b"
proof
  show "\<not> outbox_record_is_newer x y \<Longrightarrow> \<not> outbox_record_is_newer y z \<Longrightarrow> \<not> outbox_record_is_newer x z" for x y z
    unfolding not_newer_iff using bytes_le_trans by fastforce
  show "\<not> outbox_record_is_newer x y \<or> \<not> outbox_record_is_newer y x" for x y
    unfolding not_newer_iff using bytes_le_total by fastforce
qed

definition point_of :: "(string \<Rightarrow> nat list) \<Rightarrow> outbox_record \<Rightarrow> nat option" where
  "point_of blake3 rec = (case parse_vector_upsert_request (oe_payload (ob_event rec)) of
     Inl _ \<Rightarrow> None | Inr u \<Rightarrow> Some (qdrant_point_id blake3 (vu_content_hash u)))"

text \<open>The map holds, for every point of the records seen, the newest of its records.\<close>

definition newest_of :: "(string \<Rightarrow> nat list) \<Rightarrow> outbox_record list \<Rightarrow> nat \<Rightarrow> outbox_record \<Rightarrow> bool" where
  "newest_of blake3 recs p rec \<longleftrightarrow> rec \<in> set recs \<and> point_of blake3 rec = Some p \<and>
     list_all (\<lambda>r. point_of blake3 r = Some p \<longrightarrow> \<not> outbox_record_is_newer r rec) recs"

definition expects :: "(string \<Rightarrow> nat list) \<Rightarrow> outbox_record list \<Rightarrow> expected_points \<Rightarrow> bool" where
  "expects blake3 recs ex \<longleftrightarrow> distinct (map fst ex) \<and> (\<forall>(p, rec) \<in> set ex. newest_of blake3 recs p rec) \<and>
     (\<forall>rec \<in> set recs. \<forall>p. point_of blake3 rec = Some p \<longrightarrow> p \<in> fst ` set ex)"

lemma upsert_expected_set:
  "distinct (map fst ex) \<Longrightarrow> set (upsert_expected ex p rec) =
     {q \<in> set ex. fst q \<noteq> p} \<union> {(p, case map_of ex p of None \<Rightarrow> rec | Some cur \<Rightarrow> if outbox_record_is_newer rec cur then rec else cur)}"
proof (induction ex p rec rule: upsert_expected.induct)
  case (2 p current rest point_id rec)
  then show ?case by (auto dest: map_of_SomeD split: option.split)
qed auto

lemma upsert_expected_distinct: "distinct (map fst ex) \<Longrightarrow> distinct (map fst (upsert_expected ex p rec))"
proof (induction ex p rec rule: upsert_expected.induct)
  case (2 p current rest point_id rec)
  then show ?case using keys_upsert_expected [of rest point_id rec] by (auto simp flip: set_map)
qed simp

lemma upsert_expects:
  assumes ex: "expects blake3 recs ex" and p: "point_of blake3 rec = Some p"
  shows "expects blake3 (recs @ [rec]) (upsert_expected ex p rec)"
proof -
  note d = ex [unfolded expects_def, THEN conjunct1]
  have old: "newest_of blake3 recs q r" if "(q, r) \<in> set ex" for q r using ex that by (auto simp: expects_def)
  have others: "newest_of blake3 (recs @ [rec]) q r" if "(q, r) \<in> set ex" "q \<noteq> p" for q r
    using old [OF that(1)] that(2) p by (auto simp: newest_of_def)
  have this_point: "newest_of blake3 (recs @ [rec]) p
      (case map_of ex p of None \<Rightarrow> rec | Some cur \<Rightarrow> if outbox_record_is_newer rec cur then rec else cur)"
  proof (cases "map_of ex p")
    case None
    then have "point_of blake3 r \<noteq> Some p" if "r \<in> set recs" for r
      using ex that by (auto simp: expects_def map_of_eq_None_iff)
    with None p newest.le_refl [of rec] show ?thesis by (auto simp: newest_of_def list_all_iff)
  next
    case (Some cur)
    then have "newest_of blake3 recs p cur" using old map_of_SomeD by fast
    with Some p newest.le_refl [of rec] newest.le_trans [of _ cur rec] newest.le_total [of cur rec] show ?thesis
      by (fastforce simp: newest_of_def list_all_iff)
  qed
  have "\<forall>r \<in> set (recs @ [rec]). \<forall>q. point_of blake3 r = Some q \<longrightarrow> q \<in> fst ` set (upsert_expected ex p rec)"
    using ex p by (auto simp: keys_upsert_expected expects_def)
  with others this_point show ?thesis
    unfolding expects_def upsert_expected_set [OF d] using upsert_expected_distinct [OF d] by auto
qed

lemma expected_points_newest:
  "expected_points_by_event blake3 recs ex = Inr ex' \<Longrightarrow> expects blake3 seen ex \<Longrightarrow> expects blake3 (seen @ recs) ex'"
proof (induction recs arbitrary: ex seen)
  case (Cons rec recs)
  then obtain u where u: "parse_vector_upsert_request (oe_payload (ob_event rec)) = Inr u" by (auto split: sum.splits)
  then have "point_of blake3 rec = Some (qdrant_point_id blake3 (vu_content_hash u))" by (simp add: point_of_def)
  from upsert_expects [OF Cons.prems(2) this] Cons.IH [of _ "seen @ [rec]"] Cons.prems(1) u show ?case by simp
qed simp

section \<open>Repairs\<close>

lemma nat_str_plain: "CHR '':'' \<notin> set (nat_str n)"
proof -
  have "\<not> is_digit (CHR '':'')" by (simp add: is_digit_def)
  then show ?thesis using digits_val_nat_str [of n] by (metis list_all_iff)
qed

lemma reconcile_key_point:
  assumes "reconcile_key blake3 r h = reconcile_key blake3 s g"
  shows "qdrant_point_id blake3 h = qdrant_point_id blake3 g"
proof -
  have tail: "takeWhile (\<lambda>c. c \<noteq> CHR '':'') (rev (x @ '':'' @ nat_str n)) = rev (nat_str n)" for x n
  proof -
    have "\<forall>c \<in> set (rev (nat_str n)). c \<noteq> CHR '':''" using nat_str_plain [of n] by (metis set_rev)
    then show ?thesis using takeWhile_append2 [of "rev (nat_str n)" "\<lambda>c. c \<noteq> CHR '':''" "CHR '':'' # rev x"] by simp
  qed
  have "takeWhile (\<lambda>c. c \<noteq> CHR '':'') (rev (reconcile_key blake3 r h)) = rev (nat_str (qdrant_point_id blake3 h))" for r h
    using tail [of "''reconcile:'' @ row_id r"] by (simp add: reconcile_key_def)
  with assms have "nat_str (qdrant_point_id blake3 h) = nat_str (qdrant_point_id blake3 g)" by (metis rev_is_rev_conv)
  then show ?thesis using digits_val_nat_str by metis
qed

text \<open>A row that repairs a record: pending, an upsert of the same payload for the same correlation, under the key of the repair.\<close>

definition repair_key :: "(string \<Rightarrow> nat list) \<Rightarrow> outbox_record \<Rightarrow> string option" where
  "repair_key blake3 rec = (case parse_vector_upsert_request (oe_payload (ob_event rec)) of
     Inl _ \<Rightarrow> None | Inr u \<Rightarrow> Some (reconcile_key blake3 rec (vu_content_hash u)))"

lemma repair_key_point: "repair_key blake3 r = repair_key blake3 s \<Longrightarrow> point_of blake3 r = point_of blake3 s"
  by (auto simp: repair_key_def point_of_def dest: reconcile_key_point split: sum.split_asm sum.split)

definition is_repair :: "(string \<Rightarrow> nat list) \<Rightarrow> outbox_record \<Rightarrow> outbox_row \<Rightarrow> bool" where
  "is_repair blake3 rec r \<longleftrightarrow> ob_status r = OPending \<and> oe_event_type (ob_event r) = vector_upsert_event_type \<and>
     oe_payload (ob_event r) = oe_payload (ob_event rec) \<and> oe_correlation_id (ob_event r) = oe_correlation_id (ob_event rec) \<and>
     repair_key blake3 rec = Some (oe_idempotency_key (ob_event r))"

lemma append_extends:
  "append_outbox_event db e tbl = (r, tbl') \<Longrightarrow> tbl' = tbl \<or> tbl' = tbl @ [new_row db e]"
  by (auto simp: append_outbox_event_def insert_outbox_event_def split: if_splits sum.splits)

lemma enqueue_repairs_rows:
  "enqueue_repairs blake3 env i recs n tbl = (res, tbl') \<Longrightarrow>
     \<exists>added. tbl' = tbl @ added \<and> list_all (\<lambda>r. \<exists>rec \<in> set recs. is_repair blake3 rec r) added"
proof (induction recs arbitrary: i n tbl)
  case (Cons rec recs)
  show ?case
  proof (cases "parse_vector_upsert_request (oe_payload (ob_event rec))")
    case (Inr u)
    let ?e = "repair_event blake3 (rce_now_v7 env i) (rce_now env i) rec (vu_content_hash u)"
    obtain ares t where ap: "append_outbox_event (rce_append_db env i) ?e tbl = (ares, t)" by fastforce
    have rep: "is_repair blake3 rec (new_row (rce_append_db env i) ?e)"
      using Inr by (simp add: is_repair_def repair_key_def new_row_def repair_event_def)
    from append_extends [OF ap] obtain more where t: "t = tbl @ more" "list_all (is_repair blake3 rec) more"
    proof
      assume "t = tbl"
      then show thesis using that [of "[]"] by simp
    next
      assume "t = tbl @ [new_row (rce_append_db env i) ?e]"
      then show thesis using that rep by fastforce
    qed
    from Cons.prems Inr ap obtain n' where "tbl' = t \<or> enqueue_repairs blake3 env (Suc i) recs n' t = (res, tbl')"
      by (auto split: sum.split_asm outbox_error.split_asm)
    then show ?thesis
    proof
      assume "tbl' = t"
      with t show ?thesis by (intro exI [of _ more]) (auto simp: list_all_iff)
    next
      assume "enqueue_repairs blake3 env (Suc i) recs n' t = (res, tbl')"
      from Cons.IH [OF this] obtain added where "tbl' = t @ added" "list_all (\<lambda>r. \<exists>rec \<in> set recs. is_repair blake3 rec r) added"
        by blast
      with t show ?thesis by (intro exI [of _ "more @ added"]) (auto simp: list_all_iff)
    qed
  qed (use Cons.prems in auto)
qed simp

lemma missing_in_expected:
  "missing_records he store ex = Inr ms \<Longrightarrow> set ms = snd ` {q \<in> set ex. store (fst q) = None}"
proof (induction ex arbitrary: ms)
  case (Cons q ex)
  obtain a b where q: "q = (a, b)" by fastforce
  with Cons.prems obtain ms' where "missing_records he store ex = Inr ms'" "ms = (if store a = None then b # ms' else ms')"
    by (auto simp: rbind_Inr_iff split: option.splits)
  with Cons.IH q show ?case by (cases "store a = None") force+
qed simp

lemma reconcile_table_cases:
  assumes "list_published_events_by_type (rce_list_db env) vector_upsert_event_type n (rls_table st) = Inr published"
  obtains (unchanged) "rls_table (snd (reconcile_once blake3 n env st)) = rls_table st"
      "isl (fst (reconcile_once blake3 n env st))"
    | (enqueued) ex ms res tbl where "expected_points_by_event blake3 published [] = Inr ex"
      "missing_records (rce_has_error env) (rls_store st) (rce_hash_order env ex) = Inr ms"
      "enqueue_repairs blake3 env 0 ms 0 (rls_table st) = (res, tbl)"
      "rls_table (snd (reconcile_once blake3 n env st)) = tbl"
      "isl res \<longrightarrow> isl (fst (reconcile_once blake3 n env st))"
proof (cases "expected_points_by_event blake3 published []")
  case (Inr ex)
  note ex = this
  show thesis
  proof (cases "missing_records (rce_has_error env) (rls_store st) (rce_hash_order env ex)")
    case (Inr ms)
    obtain res tbl where q: "enqueue_repairs blake3 env 0 ms 0 (rls_table st) = (res, tbl)" by fastforce
    with assms ex Inr show thesis
      by (intro enqueued [OF ex Inr q]) (auto simp: reconcile_once_def Let_def split: sum.splits prod.splits)
  qed (use assms ex in \<open>intro unchanged; simp add: reconcile_once_def Let_def\<close>)
qed (use assms in \<open>intro unchanged; simp add: reconcile_once_def Let_def\<close>)

lemma repairs_exact:
  assumes order: "mset (rce_hash_order env ex) = mset ex" and ex: "expected_points_by_event blake3 published [] = Inr ex"
    and ms: "missing_records (rce_has_error env) store (rce_hash_order env ex) = Inr ms"
  shows "list_all (\<lambda>rec. \<exists>p. store p = None \<and> newest_of blake3 published p rec) ms"
    and "\<lbrakk>store p = None; list_ex (\<lambda>r. point_of blake3 r = Some p) published\<rbrakk> \<Longrightarrow>
      \<exists>rec \<in> set ms. newest_of blake3 published p rec"
    and "\<lbrakk>r \<in> set ms; s \<in> set ms; point_of blake3 r = point_of blake3 s\<rbrakk> \<Longrightarrow> r = s"
proof -
  have "expects blake3 [] []" by (simp add: expects_def)
  from expected_points_newest [OF ex this] have e: "expects blake3 published ex" by simp
  have set: "set ms = snd ` {q \<in> set ex. store (fst q) = None}"
    using missing_in_expected [OF ms] mset_eq_setD [OF order] by simp
  show "list_all (\<lambda>rec. \<exists>p. store p = None \<and> newest_of blake3 published p rec) ms"
    using e unfolding set list_all_iff by (fastforce simp: expects_def)
  show "\<exists>rec \<in> set ms. newest_of blake3 published p rec"
    if "store p = None" "list_ex (\<lambda>r. point_of blake3 r = Some p) published"
    using e that unfolding set by (fastforce simp: expects_def list_ex_iff)
  show "r = s" if m: "r \<in> set ms" "s \<in> set ms" "point_of blake3 r = point_of blake3 s"
  proof -
    obtain p q where pq: "(p, r) \<in> set ex" "(q, s) \<in> set ex" using m(1,2) unfolding set by auto
    with e have "point_of blake3 r = Some p" "point_of blake3 s = Some q" by (auto simp: expects_def newest_of_def)
    with m(3) pq e show ?thesis by (auto simp: expects_def dest: eq_key_imp_eq_value)
  qed
qed


lemma reconcile_repairs:
  assumes order: "\<forall>ex. mset (rce_hash_order env ex) = mset ex"
    and l: "list_published_events_by_type (rce_list_db env) vector_upsert_event_type n (rls_table st) = Inr published"
  shows "(\<exists>added. rls_table (snd (reconcile_once blake3 n env st)) = rls_table st @ added \<and>
       list_all (\<lambda>row. \<exists>p rec. rls_store st p = None \<and> newest_of blake3 published p rec \<and> is_repair blake3 rec row) added) \<and>
    (\<not> isl (fst (reconcile_once blake3 n env st)) \<and> rls_store st p = None \<and> list_ex (\<lambda>r. point_of blake3 r = Some p) published \<longrightarrow>
       (\<exists>rec row. newest_of blake3 published p rec \<and> row \<in> set (rls_table (snd (reconcile_once blake3 n env st))) \<and>
          repair_key blake3 rec = Some (oe_idempotency_key (ob_event row)) \<and> (row \<in> set (rls_table st) \<or> is_repair blake3 rec row)))"
proof (rule reconcile_table_cases [OF l, of blake3], goal_cases unchanged enqueued)
  case unchanged
  then show ?thesis by simp
next
  case (enqueued ex ms res tbl)
  note exact = repairs_exact [OF order [rule_format] enqueued(1,2)]
  obtain added where added: "tbl = rls_table st @ added" "list_all (\<lambda>r. \<exists>rec \<in> set ms. is_repair blake3 rec r) added"
    using enqueue_repairs_rows [OF enqueued(3)] by blast
  have rows: "\<exists>p rec. rls_store st p = None \<and> newest_of blake3 published p rec \<and> is_repair blake3 rec row" if "row \<in> set added" for row
    using that added(2) exact(1) unfolding list_all_iff by blast
  have "\<exists>rec row. newest_of blake3 published p rec \<and> row \<in> set tbl \<and>
      repair_key blake3 rec = Some (oe_idempotency_key (ob_event row)) \<and> (row \<in> set (rls_table st) \<or> is_repair blake3 rec row)"
    if ok: "\<not> isl res" and p: "rls_store st p = None" "list_ex (\<lambda>r. point_of blake3 r = Some p) published"
  proof -
    obtain rec where rec: "rec \<in> set ms" "newest_of blake3 published p rec" using exact(2) [OF p] by blast
    from ok obtain k where "enqueue_repairs blake3 env 0 ms 0 (rls_table st) = (Inr k, tbl)" using enqueued(3) by (cases res) auto
    from enqueue_repairs_keys [OF this] rec(1) obtain row where row: "row \<in> set tbl"
      "repair_key blake3 rec = Some (oe_idempotency_key (ob_event row))"
      by (force simp: repair_key_def table_keys_def)
    have "is_repair blake3 rec row" if "row \<notin> set (rls_table st)"
    proof -
      from that row(1) added obtain other where o: "other \<in> set ms" "is_repair blake3 other row" by (auto simp: list_all_iff)
      then have "repair_key blake3 other = repair_key blake3 rec" using row(2) by (simp add: is_repair_def)
      with exact(3) [OF o(1) rec(1)] o(2) show ?thesis using repair_key_point by blast
    qed
    with rec(2) row show ?thesis by blast
  qed
  with added(1) rows enqueued(4,5) show ?thesis by (auto simp: list_all_iff)
qed

lemma reconcile_keeps_published:
  assumes "\<forall>ex. mset (rce_hash_order env ex) = mset ex"
    and r: "r \<in> set (rls_table st)" "ob_status r = OPublished"
    "oe_event_type (ob_event r) = vector_upsert_event_type"
    and u: "parse_vector_upsert_request (oe_payload (ob_event r)) = Inr u"
    and p: "rls_store st (qdrant_point_id blake3 (vu_content_hash u)) \<noteq> None"
  shows "rls_store (snd (reconcile_once blake3 n env st)) (qdrant_point_id blake3 (vu_content_hash u)) \<noteq> None"
proof -
  let ?p = "qdrant_point_id blake3 (vu_content_hash u)"
  have keep: "snd (delete_orphans env (int (length published) < n) (rce_hash_order env ex) (rls_store st)) ?p \<noteq> None"
    if "list_published_events_by_type (rce_list_db env) vector_upsert_event_type n (rls_table st) = Inr published"
      "expected_points_by_event blake3 published [] = Inr ex" for published ex
  proof (rule delete_orphans_keeps [where store = "rls_store st"], rule p)
    assume "int (length published) < n"
    from published_complete [OF that(1) this r] obtain rec where "rec \<in> set published" "ob_event rec = ob_event r" by blast
    then have "\<exists>rec \<in> set published. parse_vector_upsert_request (oe_payload (ob_event rec)) = Inr u"
      using u by metis
    then have "?p \<in> fst ` set ex" unfolding expected_keys [OF that(2)] by auto
    moreover have "set (rce_hash_order env ex) = set ex" using assms by (metis set_mset_mset)
    ultimately show "?p \<in> fst ` set (rce_hash_order env ex)" by simp
  qed
  show ?thesis
    unfolding reconcile_once_def Let_def
    using p keep by (auto split: sum.splits prod.splits) (metis option.distinct(1) snd_conv)+
qed

section \<open>Properties\<close>

text \<open>C20: reconciliation is safe and complete. Whatever it is answered, it never removes the vector of a published vector upsert event, and all it adds to the outbox are pending repairs, with the payload and correlation of the newest published record it scanned of a point the store was missing; and when it succeeds, the outbox holds, for every missing point of a scanned record, a row under the repair key of the point's newest record: that repair, or a row that had the key before.\<close>

theorem reconcile_once_safe:
  assumes "\<forall>ex. mset (rce_hash_order env ex) = mset ex"
  shows "(\<forall>r \<in> set (rls_table st). \<forall>u. ob_status r = OPublished \<longrightarrow>
      oe_event_type (ob_event r) = vector_upsert_event_type \<longrightarrow>
      parse_vector_upsert_request (oe_payload (ob_event r)) = Inr u \<longrightarrow>
      rls_store st (qdrant_point_id blake3 (vu_content_hash u)) \<noteq> None \<longrightarrow>
      rls_store (snd (reconcile_once blake3 n env st)) (qdrant_point_id blake3 (vu_content_hash u)) \<noteq> None) \<and>
    (\<forall>published. list_published_events_by_type (rce_list_db env) vector_upsert_event_type n (rls_table st) = Inr published \<longrightarrow>
      (\<exists>added. rls_table (snd (reconcile_once blake3 n env st)) = rls_table st @ added \<and>
         list_all (\<lambda>row. \<exists>p rec. rls_store st p = None \<and> newest_of blake3 published p rec \<and> is_repair blake3 rec row) added) \<and>
      (\<forall>p. \<not> isl (fst (reconcile_once blake3 n env st)) \<and> rls_store st p = None \<and>
           list_ex (\<lambda>r. point_of blake3 r = Some p) published \<longrightarrow>
         (\<exists>rec row. newest_of blake3 published p rec \<and> row \<in> set (rls_table (snd (reconcile_once blake3 n env st))) \<and>
            repair_key blake3 rec = Some (oe_idempotency_key (ob_event row)) \<and>
            (row \<in> set (rls_table st) \<or> is_repair blake3 rec row))))"
  using reconcile_keeps_published [OF assms] reconcile_repairs [OF assms] by simp

definition sample_reconcile :: reconcile_env where
  "sample_reconcile = \<lparr>rce_list_db = sample_db, rce_hash_order = rev, rce_has_error = (\<lambda>_. None),
     rce_append_db = (\<lambda>_. sample_db), rce_now_v7 = (\<lambda>_. ''e9''), rce_now = (\<lambda>_. 20),
     rce_listing = (\<lambda>_. Ok \<lparr>vpl_point_ids = [1, 2], vpl_is_complete = True\<rparr>), rce_delete = Ok ()\<rparr>"

definition sample_published :: relay_state where
  "sample_published = \<lparr>rls_table = [published_row sample_db ''qdrant:1'' (claimed_row (new_row sample_db sample_event))],
     rls_store = [1 \<mapsto> ([], JNull), 2 \<mapsto> ([], JNull)]\<rparr>"

theorem reconcile_once_safe_witness:
  "\<exists>u. parse_vector_upsert_request (oe_payload sample_event) = Inr u \<and>
     qdrant_point_id (\<lambda>_. [1]) (vu_content_hash u) = 1 \<and>
     rls_store (snd (reconcile_once (\<lambda>_. [1]) 10 sample_reconcile sample_published)) 1 \<noteq> None"
proof -
  obtain u where u: "parse_vector_upsert_request (oe_payload sample_event) = Inr u" using sample_parse by blast
  have p: "qdrant_point_id (\<lambda>_. [1]) (vu_content_hash u) = 1" by (simp add: qdrant_point_id_def)
  let ?r = "published_row sample_db ''qdrant:1'' (claimed_row (new_row sample_db sample_event))"
  have r: "?r \<in> set (rls_table sample_published)" "ob_status ?r = OPublished"
    "oe_event_type (ob_event ?r) = vector_upsert_event_type" "oe_payload (ob_event ?r) = oe_payload sample_event"
    by (simp_all add: sample_published_def published_row_def claimed_row_def new_row_def sample_event_def
        vector_upsert_event_type_def)
  have "\<forall>ex. mset (rce_hash_order sample_reconcile ex) = mset ex" by (simp add: sample_reconcile_def)
  from reconcile_once_safe [OF this, of sample_published "\<lambda>_. [1]" 10] r u p show ?thesis
    by (auto simp: sample_published_def)
qed

lemma append_present_key:
  "oe_idempotency_key e \<in> set (table_keys tbl) \<Longrightarrow> snd (append_outbox_event db e tbl) = tbl"
  by (auto simp: append_outbox_event_def insert_outbox_event_def table_keys_def image_comp comp_def split: sum.splits)

lemma enqueue_repairs_present:
  "\<forall>rec \<in> set recs. \<exists>u. parse_vector_upsert_request (oe_payload (ob_event rec)) = Inr u \<and>
     reconcile_key blake3 rec (vu_content_hash u) \<in> set (table_keys tbl) \<Longrightarrow>
   snd (enqueue_repairs blake3 env i recs n tbl) = tbl"
proof (induction recs arbitrary: i n)
  case (Cons rec recs)
  then obtain u where u: "parse_vector_upsert_request (oe_payload (ob_event rec)) = Inr u"
    "reconcile_key blake3 rec (vu_content_hash u) \<in> set (table_keys tbl)" by auto
  have "snd (append_outbox_event (rce_append_db env i)
      (repair_event blake3 (rce_now_v7 env i) (rce_now env i) rec (vu_content_hash u)) tbl) = tbl"
    by (rule append_present_key) (simp add: repair_event_def u(2))
  then obtain res where "append_outbox_event (rce_append_db env i)
      (repair_event blake3 (rce_now_v7 env i) (rce_now env i) rec (vu_content_hash u)) tbl = (res, tbl)"
    by (metis prod.collapse)
  with Cons u show ?case by (auto split: sum.splits outbox_error.splits)
qed simp

lemma missing_records_origin:
  "missing_records he store ex = Inr ms \<Longrightarrow> rec \<in> set ms \<Longrightarrow> \<exists>p. (p, rec) \<in> set ex \<and> store p = None"
proof (induction ex arbitrary: ms)
  case (Cons q ex)
  obtain a b where q: "q = (a, b)" by fastforce
  with Cons.prems(1) obtain ms' where "missing_records he store ex = Inr ms'"
    "ms = (if store a = None then b # ms' else ms')" by (auto simp: rbind_Inr_iff split: option.splits)
  with Cons.IH Cons.prems(2) q show ?case by (cases "store a = None") fastforce+
qed simp

text \<open>A repair that failed is never tried again. The key of a repair names the published event and the point, so once a row with that key exists, in whatever status, a reconciliation that finds the vector missing leaves the outbox as it was: after a permanently failed repair the vector stays lost.\<close>

theorem failed_repair_never_retried:
  assumes "\<forall>ex. mset (rce_hash_order env ex) = mset ex"
    and "list_published_events_by_type (rce_list_db env) vector_upsert_event_type n (rls_table st) = Inr published"
    and "expected_points_by_event blake3 published [] = Inr ex"
    and "\<forall>(p, rec) \<in> set ex. rls_store st p = None \<longrightarrow>
      (\<exists>u. parse_vector_upsert_request (oe_payload (ob_event rec)) = Inr u \<and>
         reconcile_key blake3 rec (vu_content_hash u) \<in> set (table_keys (rls_table st)))"
  shows "rls_table (snd (reconcile_once blake3 n env st)) = rls_table st"
proof (cases "missing_records (rce_has_error env) (rls_store st) (rce_hash_order env ex)")
  case (Inl e)
  then show ?thesis using assms(2,3) by (simp add: reconcile_once_def Let_def)
next
  case (Inr ms)
  have "set (rce_hash_order env ex) = set ex" using assms(1) by (metis set_mset_mset)
  then have "\<forall>rec \<in> set ms. \<exists>u. parse_vector_upsert_request (oe_payload (ob_event rec)) = Inr u \<and>
      reconcile_key blake3 rec (vu_content_hash u) \<in> set (table_keys (rls_table st))"
    using assms(4) missing_records_origin [OF Inr] by fastforce
  from enqueue_repairs_present [OF this] obtain res where
    "enqueue_repairs blake3 env 0 ms 0 (rls_table st) = (res, rls_table st)" by (metis prod.collapse)
  then show ?thesis using assms(2,3) Inr
    by (auto simp: reconcile_once_def Let_def split: sum.splits prod.splits)
qed

definition sample_failed_repair :: relay_state where
  "sample_failed_repair = \<lparr>rls_table =
     [published_row sample_db ''qdrant:1'' (claimed_row (new_row sample_db sample_event)),
      (new_row sample_db (sample_event\<lparr>oe_event_id := ''e2'',
         oe_idempotency_key := ''reconcile:e1:1''\<rparr>))\<lparr>ob_status := OFailed, ob_attempts := 3\<rparr>],
     rls_store = Map.empty\<rparr>"

theorem failed_repair_never_retried_witness:
  "rls_table (snd (reconcile_once (\<lambda>_. [1]) 10 sample_reconcile sample_failed_repair)) =
     rls_table sample_failed_repair"
proof -
  let ?r = "published_row sample_db ''qdrant:1'' (claimed_row (new_row sample_db sample_event))"
  let ?rec = "outbox_record.truncate ?r"
  obtain u where u: "parse_vector_upsert_request (oe_payload sample_event) = Inr u" using sample_parse by blast
  have ev: "ob_event ?rec = sample_event"
    by (simp add: outbox_record.truncate_def published_row_def claimed_row_def new_row_def)
  have p: "qdrant_point_id (\<lambda>_. [1]) s = 1" for s by (simp add: qdrant_point_id_def)
  have l: "list_published_events_by_type (rce_list_db sample_reconcile) vector_upsert_event_type 10
      (rls_table sample_failed_repair) = Inr [?rec]"
    by (simp add: list_published_events_by_type_def sample_reconcile_def sample_failed_repair_def
        vector_upsert_event_type_def trim_samples sample_db_def published_row_def claimed_row_def new_row_def
        sample_event_def)
  have e: "expected_points_by_event (\<lambda>_. [1]) [?rec] [] = Inr [(1, ?rec)]" using u p by (simp add: ev)
  have "nat_str 1 = ''1''" by (code_simp)
  then have key: "reconcile_key (\<lambda>_. [1]) ?rec (vu_content_hash u) = ''reconcile:e1:1''"
    unfolding reconcile_key_def ev p by (simp add: sample_event_def)
  have mem: "''reconcile:e1:1'' \<in> set (table_keys (rls_table sample_failed_repair))"
    by (simp add: sample_failed_repair_def table_keys_def new_row_def)
  show ?thesis
  proof (rule failed_repair_never_retried [OF _ l e])
    show "\<forall>ex. mset (rce_hash_order sample_reconcile ex) = mset ex" by (simp add: sample_reconcile_def)
    have "parse_vector_upsert_request (oe_payload (ob_event ?rec)) = Inr u" using u by (simp only: ev)
    with key mem show "\<forall>(p, rec) \<in> set [(1, ?rec)]. rls_store sample_failed_repair p = None \<longrightarrow>
        (\<exists>u. parse_vector_upsert_request (oe_payload (ob_event rec)) = Inr u \<and>
          reconcile_key (\<lambda>_. [1]) rec (vu_content_hash u) \<in> set (table_keys (rls_table sample_failed_repair)))"
      by fastforce
  qed
qed

end
