(* ===== verification/Transcript_Queue.thy ===== *)
theory Transcript_Queue
  imports Outbox
begin

text \<open>
  The durable transcript queue (\<open>infrastructure/src/persistence/transcript\_queue.rs\<close>) and the drain
  of the maintenance worker (\<open>maintenance/src/transcript\_drain.rs\<close>).  The table is a list of rows and
  each statement one atomic function on it, as for the outbox; the digest, fresh identifiers, what
  the database answers and what the extractor answers are parameters.
\<close>

section \<open>Requests, rows and errors\<close>

definition max_transcript_ingest_bytes :: nat where
  "max_transcript_ingest_bytes = 10 * 1024 * 1024"

definition max_transcript_drain_attempts :: int where
  "max_transcript_drain_attempts = 3"

datatype transcript_source = SessionEnd | PreCompact | Reconcile

fun transcript_source_str :: "transcript_source \<Rightarrow> string" where
  "transcript_source_str SessionEnd = ''session_end''"
| "transcript_source_str PreCompact = ''pre_compact''"
| "transcript_source_str Reconcile = ''reconcile''"

datatype transcript_queue_error =
    EmptyContent
  | ContentTooLarge nat nat
  | TqInvalidContract string
  | TqPersistence

fun transcript_reason_code :: "transcript_queue_error \<Rightarrow> string" where
  "transcript_reason_code EmptyContent = ''transcript_content_empty''"
| "transcript_reason_code (ContentTooLarge _ _) = ''transcript_content_too_large''"
| "transcript_reason_code (TqInvalidContract _) = ''transcript_ingest_invalid_contract''"
| "transcript_reason_code TqPersistence = ''transcript_queue_persistence_failed''"

definition transcript_source_parse :: "string \<Rightarrow> (transcript_queue_error, transcript_source) result" where
  "transcript_source_parse raw =
     (let s = trim raw in
      if s = ''session_end'' then Ok SessionEnd
      else if s = ''pre_compact'' then Ok PreCompact
      else if s = ''reconcile'' then Ok Reconcile
      else Err (TqInvalidContract (''unsupported transcript source '' @ [CHR 0x60] @ s @ [CHR 0x60])))"

record transcript_ingest_request =
  tir_session_id :: string
  tir_repo_path :: "string option"
  tir_source :: transcript_source
  tir_content :: string

datatype enqueue_outcome = Enqueued uuid string | Duplicate string

fun outcome_content_hash :: "enqueue_outcome \<Rightarrow> string" where
  "outcome_content_hash (Enqueued _ h) = h"
| "outcome_content_hash (Duplicate h) = h"

fun outcome_is_new :: "enqueue_outcome \<Rightarrow> bool" where
  "outcome_is_new (Enqueued _ _) = True"
| "outcome_is_new (Duplicate _) = False"

record transcript_queue_record =
  tqr_id :: uuid
  tqr_session_id :: string
  tqr_content_hash :: string
  tqr_content :: string
  tqr_source :: transcript_source
  tqr_repo_path :: "string option"
  tqr_attempts :: int

text \<open>A row of \<open>transcript\_ingest\_queue\<close>; the column \<open>source\<close> holds its text.\<close>

datatype transcript_status = TPending | TProcessing | TProcessed | TFailed

record transcript_row =
  tw_id :: uuid
  tw_session_id :: string
  tw_content_hash :: string
  tw_content :: string
  tw_source :: string
  tw_repo_path :: "string option"
  tw_status :: transcript_status
  tw_attempts :: int
  tw_error :: "string option"
  tw_enqueued_at :: int
  tw_processed_at :: "int option"

type_synonym transcript_table = "transcript_row list"

record transcript_db =
  tdb_up :: bool
  tdb_now :: int
  tdb_returning :: "transcript_row list \<Rightarrow> transcript_row list"

section \<open>Operations of the queue\<close>

definition normalized_repo_path :: "string option \<Rightarrow> string option" where
  "normalized_repo_path p =
     (case p of None \<Rightarrow> None | Some s \<Rightarrow> if trim s = [] then None else Some (trim s))"

definition transcript_new_row ::
  "transcript_db \<Rightarrow> uuid \<Rightarrow> string \<Rightarrow> transcript_ingest_request \<Rightarrow> transcript_row" where
  "transcript_new_row db new_id content_hash request =
     \<lparr>tw_id = new_id, tw_session_id = tir_session_id request, tw_content_hash = content_hash,
      tw_content = tir_content request, tw_source = transcript_source_str (tir_source request),
      tw_repo_path = normalized_repo_path (tir_repo_path request), tw_status = TPending, tw_attempts = 0,
      tw_error = None, tw_enqueued_at = tdb_now db, tw_processed_at = None\<rparr>"

definition enqueue ::
  "(string \<Rightarrow> string) \<Rightarrow> transcript_db \<Rightarrow> uuid \<Rightarrow> transcript_ingest_request \<Rightarrow> transcript_table \<Rightarrow>
     (transcript_queue_error, enqueue_outcome) result \<times> transcript_table" where
  "enqueue blake3_hex db new_id request tbl =
     (if trim (tir_session_id request) = []
        then (Err (TqInvalidContract ''session_id must not be blank''), tbl)
      else if trim (tir_content request) = [] then (Err EmptyContent, tbl)
      else if max_transcript_ingest_bytes < length (tir_content request)
        then (Err (ContentTooLarge max_transcript_ingest_bytes (length (tir_content request))), tbl)
      else (let content_hash = blake3_hex (tir_content request) in
            if \<not> tdb_up db then (Err TqPersistence, tbl)
            else if content_hash \<in> tw_content_hash ` set tbl then (Ok (Duplicate content_hash), tbl)
            else if new_id \<in> tw_id ` set tbl then (Err TqPersistence, tbl)
            else (Ok (Enqueued new_id content_hash), tbl @ [transcript_new_row db new_id content_hash request])))"

definition transcript_record_of :: "transcript_row \<Rightarrow> (transcript_queue_error, transcript_queue_record) result" where
  "transcript_record_of r =
     rbind (transcript_source_parse (tw_source r)) (\<lambda>src.
       Ok \<lparr>tqr_id = tw_id r, tqr_session_id = tw_session_id r, tqr_content_hash = tw_content_hash r,
           tqr_content = tw_content r, tqr_source = src, tqr_repo_path = tw_repo_path r,
           tqr_attempts = tw_attempts r\<rparr>)"

fun collect_records ::
  "transcript_row list \<Rightarrow> (transcript_queue_error, transcript_queue_record list) result" where
  "collect_records [] = Ok []"
| "collect_records (r # rs) =
     rbind (transcript_record_of r) (\<lambda>rec. rbind (collect_records rs) (\<lambda>recs. Ok (rec # recs)))"

definition claimed_transcript :: "transcript_row \<Rightarrow> transcript_row" where
  "claimed_transcript r = r\<lparr>tw_status := TProcessing\<rparr>"

text \<open>The identifiers the inner SELECT of a claim chooses, oldest first.\<close>

definition chosen_transcripts :: "int \<Rightarrow> transcript_table \<Rightarrow> uuid list" where
  "chosen_transcripts limit tbl =
     map tw_id (take (nat limit) (sort_by (\<lambda>r s. tw_enqueued_at r \<le> tw_enqueued_at s)
       (filter (\<lambda>r. tw_status r = TPending) tbl)))"

definition claim_pending ::
  "transcript_db \<Rightarrow> int \<Rightarrow> transcript_table \<Rightarrow>
     (transcript_queue_error, transcript_queue_record list) result \<times> transcript_table" where
  "claim_pending db limit tbl =
     (if limit \<le> 0 then (Err (TqInvalidContract ''claim limit must be greater than zero''), tbl)
      else if \<not> tdb_up db then (Err TqPersistence, tbl)
      else (let hit = (\<lambda>r. tw_id r \<in> set (chosen_transcripts limit tbl)) in
            (collect_records (tdb_returning db (map claimed_transcript (filter hit tbl))),
             map (\<lambda>r. if hit r then claimed_transcript r else r) tbl)))"

definition drained :: "uuid \<Rightarrow> transcript_row \<Rightarrow> bool" where
  "drained i r \<longleftrightarrow> tw_id r = i \<and> tw_status r = TProcessing"

definition processed_transcript :: "transcript_db \<Rightarrow> transcript_row \<Rightarrow> transcript_row" where
  "processed_transcript db r =
     r\<lparr>tw_status := TProcessed, tw_processed_at := Some (tdb_now db), tw_error := None\<rparr>"

definition mark_processed ::
  "transcript_db \<Rightarrow> uuid \<Rightarrow> transcript_table \<Rightarrow> (transcript_queue_error, unit) result \<times> transcript_table" where
  "mark_processed db i tbl =
     (if \<not> tdb_up db then (Err TqPersistence, tbl)
      else (Ok (), map (\<lambda>r. if drained i r then processed_transcript db r else r) tbl))"

definition failed_transcript :: "string \<Rightarrow> int \<Rightarrow> transcript_row \<Rightarrow> transcript_row" where
  "failed_transcript error_message max_attempts r =
     r\<lparr>tw_status := (if max_attempts \<le> tw_attempts r + 1 then TFailed else TPending),
       tw_attempts := tw_attempts r + 1, tw_error := Some error_message\<rparr>"

definition mark_failed ::
  "transcript_db \<Rightarrow> uuid \<Rightarrow> string \<Rightarrow> int \<Rightarrow> transcript_table \<Rightarrow>
     (transcript_queue_error, unit) result \<times> transcript_table" where
  "mark_failed db i error_message max_attempts tbl =
     (if \<not> tdb_up db then (Err TqPersistence, tbl)
      else (Ok (), map (\<lambda>r. if drained i r then failed_transcript error_message max_attempts r else r) tbl))"

section \<open>The drain of the maintenance worker\<close>

record drain_report =
  dr_claimed :: nat
  dr_processed :: nat
  dr_failed :: nat

text \<open>What one claimed record meets: the extractor's answer and the database at its settlement.\<close>

record drain_row_env =
  dre_extract :: "(string, string list) result"
  dre_db :: transcript_db

record drain_env =
  den_claim :: transcript_db
  den_rows :: "uuid \<Rightarrow> drain_row_env"

definition transcript_queue_drain_new :: "int \<Rightarrow> int" where
  "transcript_queue_drain_new batch_limit = max batch_limit 1"

fun drain_rows ::
  "(uuid \<Rightarrow> drain_row_env) \<Rightarrow> transcript_queue_record list \<Rightarrow> drain_report \<Rightarrow> transcript_table \<Rightarrow>
     (transcript_queue_error, drain_report) result \<times> transcript_table" where
  "drain_rows envs [] report tbl = (Ok report, tbl)"
| "drain_rows envs (rec # recs) report tbl =
     (let env = envs (tqr_id rec) in
      case dre_extract env of
        Inr _ \<Rightarrow>
          (case mark_processed (dre_db env) (tqr_id rec) tbl of
             (Inl e, tbl') \<Rightarrow> (Err e, tbl')
           | (Inr _, tbl') \<Rightarrow> drain_rows envs recs (report\<lparr>dr_processed := dr_processed report + 1\<rparr>) tbl')
      | Inl reason_code \<Rightarrow>
          (case mark_failed (dre_db env) (tqr_id rec) reason_code max_transcript_drain_attempts tbl of
             (Inl e, tbl') \<Rightarrow> (Err e, tbl')
           | (Inr _, tbl') \<Rightarrow> drain_rows envs recs (report\<lparr>dr_failed := dr_failed report + 1\<rparr>) tbl'))"

definition drain_once ::
  "int \<Rightarrow> drain_env \<Rightarrow> transcript_table \<Rightarrow>
     (transcript_queue_error, drain_report) result \<times> transcript_table" where
  "drain_once batch_limit env tbl =
     (case claim_pending (den_claim env) batch_limit tbl of
        (Inl e, tbl') \<Rightarrow> (Err e, tbl')
      | (Inr recs, tbl') \<Rightarrow>
          drain_rows (den_rows env) recs \<lparr>dr_claimed = length recs, dr_processed = 0, dr_failed = 0\<rparr> tbl')"

section \<open>What the statements do to the table\<close>

lemma source_str_parse [simp]: "transcript_source_parse (transcript_source_str s) = Ok s"
proof -
  have "trim (transcript_source_str s) = transcript_source_str s"
    by (cases s) (simp_all add: trim_no_ws is_ws_def)
  then show ?thesis by (cases s) (simp_all add: transcript_source_parse_def)
qed

lemma collect_records_ids:
  "collect_records rs = Inr recs \<Longrightarrow> map tqr_id recs = map tw_id rs"
  by (induction rs arbitrary: recs) (auto simp: rbind_Inr_iff transcript_record_of_def)

lemma collect_records_total:
  "\<forall>r \<in> set rs. tw_source r \<in> range transcript_source_str \<Longrightarrow> \<exists>recs. collect_records rs = Inr recs"
  by (induction rs) (auto simp: rbind_Inr_iff transcript_record_of_def image_iff)

lemma claimed_transcript_id [simp]:
  "tw_id (claimed_transcript r) = tw_id r" "tw_source (claimed_transcript r) = tw_source r"
  by (simp_all add: claimed_transcript_def)

definition settled_transcript :: "drain_row_env \<Rightarrow> transcript_row \<Rightarrow> transcript_row" where
  "settled_transcript env r =
     (case dre_extract env of
        Inr _ \<Rightarrow> processed_transcript (dre_db env) r
      | Inl m \<Rightarrow> failed_transcript m max_transcript_drain_attempts r)"

lemma settled_id [simp]:
  "tw_id (settled_transcript env r) = tw_id r"
  "tw_id (processed_transcript db r) = tw_id r" "tw_id (failed_transcript m k r) = tw_id r"
  by (simp_all add: settled_transcript_def processed_transcript_def failed_transcript_def split: sum.splits)

lemma settled_not_processing [simp]: "tw_status (settled_transcript env r) \<noteq> TProcessing"
  by (simp add: settled_transcript_def processed_transcript_def failed_transcript_def split: sum.splits)

text \<open>One turn of the loop settles the row of its record, if it is still in processing.\<close>

lemma drain_rows_step:
  assumes "drain_rows envs (c # cs) rep tbl = (Inr rep', tbl')"
  shows "tdb_up (dre_db (envs (tqr_id c))) \<and>
    (\<exists>rep1. drain_rows envs cs rep1
        (map (\<lambda>r. if drained (tqr_id c) r then settled_transcript (envs (tqr_id c)) r else r) tbl) = (Inr rep', tbl') \<and>
      dr_claimed rep1 = dr_claimed rep \<and>
      dr_processed rep1 = dr_processed rep + (if \<exists>p. dre_extract (envs (tqr_id c)) = Inr p then 1 else 0) \<and>
      dr_processed rep1 + dr_failed rep1 = Suc (dr_processed rep + dr_failed rep))"
proof (cases "dre_extract (envs (tqr_id c))")
  case (Inl m)
  then have "(\<lambda>r. if drained (tqr_id c) r then settled_transcript (envs (tqr_id c)) r else r) =
      (\<lambda>r. if drained (tqr_id c) r then failed_transcript m max_transcript_drain_attempts r else r)"
    by (simp add: fun_eq_iff settled_transcript_def)
  with Inl assms show ?thesis
    by (auto simp: Let_def mark_failed_def split: if_splits
        intro!: exI [of _ "rep\<lparr>dr_failed := dr_failed rep + 1\<rparr>"])
next
  case (Inr p)
  then have "(\<lambda>r. if drained (tqr_id c) r then settled_transcript (envs (tqr_id c)) r else r) =
      (\<lambda>r. if drained (tqr_id c) r then processed_transcript (dre_db (envs (tqr_id c))) r else r)"
    by (simp add: fun_eq_iff settled_transcript_def)
  with Inr assms show ?thesis
    by (auto simp: Let_def mark_processed_def split: if_splits
        intro!: exI [of _ "rep\<lparr>dr_processed := dr_processed rep + 1\<rparr>"])
qed

text \<open>The loop over the claimed records settles exactly their rows, all in one map.\<close>

lemma drain_rows_map:
  assumes "drain_rows envs recs rep tbl = (Inr rep', tbl')" and "distinct (map tqr_id recs)"
  shows "tbl' = map (\<lambda>r. if tw_id r \<in> tqr_id ` set recs \<and> tw_status r = TProcessing
                         then settled_transcript (envs (tw_id r)) r else r) tbl \<and>
    dr_claimed rep' = dr_claimed rep \<and>
    dr_processed rep' = dr_processed rep + length (filter (\<lambda>c. \<exists>p. dre_extract (envs (tqr_id c)) = Inr p) recs) \<and>
    dr_processed rep' + dr_failed rep' = dr_processed rep + dr_failed rep + length recs"
  using assms
proof (induction recs arbitrary: rep tbl)
  case (Cons c cs)
  let ?one = "\<lambda>r. if drained (tqr_id c) r then settled_transcript (envs (tqr_id c)) r else r"
  obtain rep1 where rest: "drain_rows envs cs rep1 (map ?one tbl) = (Inr rep', tbl')"
    and rep1: "dr_claimed rep1 = dr_claimed rep"
      "dr_processed rep1 = dr_processed rep + (if \<exists>p. dre_extract (envs (tqr_id c)) = Inr p then 1 else 0)"
      "dr_processed rep1 + dr_failed rep1 = Suc (dr_processed rep + dr_failed rep)"
    using drain_rows_step [OF Cons.prems(1)] by blast
  have *: "tw_id (?one r) = tw_id r" for r by simp
  have "(if tw_id (?one r) \<in> tqr_id ` set cs \<and> tw_status (?one r) = TProcessing
         then settled_transcript (envs (tw_id (?one r))) (?one r) else ?one r) =
        (if tw_id r \<in> tqr_id ` set (c # cs) \<and> tw_status r = TProcessing
         then settled_transcript (envs (tw_id r)) r else r)" for r
    using Cons.prems(2) by (auto simp: drained_def)
  with Cons.IH [OF rest] Cons.prems(2) rep1 show ?case by (simp add: comp_def)
qed simp

section \<open>The invariant of the table\<close>

definition transcript_ok :: "transcript_row \<Rightarrow> bool" where
  "transcript_ok r \<longleftrightarrow> 0 \<le> tw_attempts r \<and> tw_attempts r \<le> max_transcript_drain_attempts \<and>
     (tw_status r = TFailed \<longleftrightarrow> tw_attempts r = max_transcript_drain_attempts) \<and>
     (tw_status r = TFailed \<longrightarrow> tw_error r \<noteq> None) \<and>
     (tw_status r = TProcessed \<longrightarrow> tw_error r = None \<and> tw_processed_at r \<noteq> None) \<and>
     tw_source r \<in> range transcript_source_str"

definition transcript_inv :: "transcript_table \<Rightarrow> bool" where
  "transcript_inv tbl \<longleftrightarrow> distinct (map tw_id tbl) \<and> distinct (map tw_content_hash tbl) \<and>
     (\<forall>r \<in> set tbl. transcript_ok r)"

text \<open>Ingest, claims and settlements in any order, of any number of workers.\<close>

inductive transcript_step :: "(string \<Rightarrow> string) \<Rightarrow> transcript_table \<Rightarrow> transcript_table \<Rightarrow> bool" for h where
  ts_enqueue: "transcript_step h tbl (snd (enqueue h db new_id request tbl))"
| ts_claim: "transcript_step h tbl (snd (claim_pending db limit tbl))"
| ts_processed: "transcript_step h tbl (snd (mark_processed db i tbl))"
| ts_failed: "transcript_step h tbl (snd (mark_failed db i m max_transcript_drain_attempts tbl))"

inductive transcript_reachable :: "(string \<Rightarrow> string) \<Rightarrow> transcript_table \<Rightarrow> bool" for h where
  tr_empty: "transcript_reachable h []"
| tr_step: "transcript_reachable h tbl \<Longrightarrow> transcript_step h tbl tbl' \<Longrightarrow> transcript_reachable h tbl'"

lemma transcript_inv_map:
  assumes "transcript_inv tbl" and "\<And>r. r \<in> set tbl \<Longrightarrow> tw_id (f r) = tw_id r \<and> tw_content_hash (f r) = tw_content_hash r"
    and "\<And>r. r \<in> set tbl \<Longrightarrow> transcript_ok r \<Longrightarrow> transcript_ok (f r)"
  shows "transcript_inv (map f tbl)"
proof -
  have "map tw_id (map f tbl) = map tw_id tbl" "map tw_content_hash (map f tbl) = map tw_content_hash tbl"
    using assms(2) by simp_all
  moreover have "\<forall>r \<in> set (map f tbl). transcript_ok r" using assms(1,3) by (auto simp: transcript_inv_def)
  ultimately show ?thesis using assms(1) unfolding transcript_inv_def by metis
qed

lemma chosen_pending:
  "i \<in> set (chosen_transcripts limit tbl) \<Longrightarrow> \<exists>r \<in> set tbl. tw_id r = i \<and> tw_status r = TPending"
  by (auto simp: chosen_transcripts_def dest!: in_set_takeD)

lemma chosen_row:
  "distinct (map tw_id tbl) \<Longrightarrow> r \<in> set tbl \<Longrightarrow> tw_id r \<in> set (chosen_transcripts limit tbl) \<Longrightarrow>
     tw_status r = TPending"
  using chosen_pending [of "tw_id r"] by (auto simp: distinct_map inj_on_def)

lemma transcript_inv_step:
  assumes "transcript_step h tbl tbl'" and inv: "transcript_inv tbl"
  shows "transcript_inv tbl'"
  using assms(1)
proof (cases rule: transcript_step.cases)
  case (ts_enqueue db new_id request)
  then show ?thesis using inv
    by (auto simp: enqueue_def transcript_inv_def transcript_ok_def transcript_new_row_def Let_def
        max_transcript_drain_attempts_def)
next
  case (ts_claim db limit)
  let ?f = "\<lambda>r. if tw_id r \<in> set (chosen_transcripts limit tbl) then claimed_transcript r else r"
  have "transcript_inv (map ?f tbl)"
    by (rule transcript_inv_map [OF inv])
      (use inv chosen_row [of tbl] in \<open>auto simp: transcript_inv_def transcript_ok_def claimed_transcript_def\<close>)
  with ts_claim inv show ?thesis by (auto simp: claim_pending_def Let_def)
next
  case (ts_processed db i)
  have "transcript_inv (map (\<lambda>r. if drained i r then processed_transcript db r else r) tbl)"
    by (rule transcript_inv_map [OF inv])
      (auto simp: drained_def transcript_ok_def processed_transcript_def)
  with ts_processed inv show ?thesis by (auto simp: mark_processed_def)
next
  case (ts_failed db i m)
  have "transcript_inv (map (\<lambda>r. if drained i r then failed_transcript m max_transcript_drain_attempts r else r) tbl)"
    by (rule transcript_inv_map [OF inv])
      (auto simp: drained_def transcript_ok_def failed_transcript_def max_transcript_drain_attempts_def)
  with ts_failed inv show ?thesis by (auto simp: mark_failed_def)
qed

lemma transcript_reachable_inv: "transcript_reachable h tbl \<Longrightarrow> transcript_inv tbl"
proof (induction rule: transcript_reachable.induct)
  case tr_empty
  show ?case by (simp add: transcript_inv_def)
next
  case (tr_step tbl tbl')
  then show ?case using transcript_inv_step by blast
qed

section \<open>One sweep\<close>

definition faithful_db :: "transcript_db \<Rightarrow> bool" where
  "faithful_db db \<longleftrightarrow> tdb_up db \<and> (\<forall>rs. mset (tdb_returning db rs) = mset rs)"

lemma transcript_inv_ids: "transcript_inv tbl \<Longrightarrow> distinct (map tw_id tbl)"
  by (simp add: transcript_inv_def)

lemma distinct_chosen:
  assumes "distinct (map tw_id tbl)"
  shows "distinct (chosen_transcripts limit tbl)"
proof -
  let ?p = "filter (\<lambda>r. tw_status r = TPending) tbl"
  have "distinct (map tw_id ?p)" using assms by (rule distinct_map_filter)
  moreover have "mset (map tw_id (sort_by (\<lambda>r s. tw_enqueued_at r \<le> tw_enqueued_at s) ?p)) = mset (map tw_id ?p)"
    by (simp add: mset_sort_by)
  ultimately have "distinct (map tw_id (sort_by (\<lambda>r s. tw_enqueued_at r \<le> tw_enqueued_at s) ?p))"
    by (metis mset_eq_imp_distinct_iff)
  then show ?thesis by (simp add: chosen_transcripts_def take_map [symmetric] distinct_take)
qed

lemma claim_records:
  assumes "claim_pending db limit tbl = (Inr recs, tbl')" and "distinct (map tw_id tbl)"
    and "\<forall>rs. mset (tdb_returning db rs) = mset rs"
  shows "distinct (map tqr_id recs)" and "tqr_id ` set recs = set (chosen_transcripts limit tbl)"
    and "tbl' = map (\<lambda>r. if tw_id r \<in> set (chosen_transcripts limit tbl) then claimed_transcript r else r) tbl"
proof -
  let ?hit = "\<lambda>r. tw_id r \<in> set (chosen_transcripts limit tbl)"
  let ?rows = "tdb_returning db (map claimed_transcript (filter ?hit tbl))"
  have c: "collect_records ?rows = Inr recs"
    and "tbl' = map (\<lambda>r. if ?hit r then claimed_transcript r else r) tbl"
    using assms(1) by (auto simp: claim_pending_def Let_def split: if_splits)
  then show "tbl' = map (\<lambda>r. if ?hit r then claimed_transcript r else r) tbl" by simp
  have ids: "mset (map tqr_id recs) = mset (map tw_id (filter ?hit tbl))"
    using collect_records_ids [OF c] assms(3) by (metis (no_types, lifting) claimed_transcript_id(1) list.map_comp list.map_cong0 mset_map comp_apply)
  moreover have "distinct (map tw_id (filter ?hit tbl))" using assms(2) by (rule distinct_map_filter)
  ultimately show "distinct (map tqr_id recs)" by (metis mset_eq_imp_distinct_iff)
  have "set (map tqr_id recs) = set (map tw_id (filter ?hit tbl))" using ids by (metis set_mset_mset)
  moreover have "tw_id ` {r \<in> set tbl. ?hit r} = set (chosen_transcripts limit tbl)"
  proof (intro equalityI subsetI)
    fix i assume i: "i \<in> set (chosen_transcripts limit tbl)"
    with chosen_pending obtain r where "r \<in> set tbl" "tw_id r = i" by blast
    with i show "i \<in> tw_id ` {r \<in> set tbl. ?hit r}" by blast
  qed auto
  ultimately show "tqr_id ` set recs = set (chosen_transcripts limit tbl)" by simp
qed

text \<open>The table a sweep leaves: the chosen rows settled, every other row as it was.\<close>

definition sweep_spec :: "int \<Rightarrow> drain_env \<Rightarrow> transcript_table \<Rightarrow> transcript_table" where
  "sweep_spec batch_limit env tbl =
     map (\<lambda>r. if tw_id r \<in> set (chosen_transcripts batch_limit tbl)
              then settled_transcript (den_rows env (tw_id r)) (claimed_transcript r) else r) tbl"

lemma drain_once_sweep:
  assumes "drain_once batch_limit env tbl = (Inr rep, tbl')" and d: "distinct (map tw_id tbl)"
    and "\<forall>rs. mset (tdb_returning (den_claim env) rs) = mset rs"
  shows "tbl' = sweep_spec batch_limit env tbl" and "dr_claimed rep = length (chosen_transcripts batch_limit tbl)"
    and "dr_processed rep = card {i \<in> set (chosen_transcripts batch_limit tbl). \<exists>p. dre_extract (den_rows env i) = Inr p}"
    and "dr_processed rep + dr_failed rep = dr_claimed rep"
proof -
  obtain recs t where c: "claim_pending (den_claim env) batch_limit tbl = (Inr recs, t)"
    and r: "drain_rows (den_rows env) recs \<lparr>dr_claimed = length recs, dr_processed = 0, dr_failed = 0\<rparr> t = (Inr rep, tbl')"
    using assms(1) by (auto simp: drain_once_def split: sum.splits prod.splits)
  note cl = claim_records [OF c d assms(3)]
  note rows = drain_rows_map [OF r cl(1)]
  have t: "tbl' = map (\<lambda>r. if tw_id r \<in> set (chosen_transcripts batch_limit tbl) \<and> tw_status r = TProcessing
                then settled_transcript (den_rows env (tw_id r)) r else r) t"
    using rows cl(2) by simp
  show "tbl' = sweep_spec batch_limit env tbl"
    unfolding t cl(3) sweep_spec_def by (auto simp: claimed_transcript_def)
  have dist: "distinct (chosen_transcripts batch_limit tbl)" by (rule distinct_chosen [OF d])
  have "length recs = card (set (chosen_transcripts batch_limit tbl))"
    using cl(1,2) distinct_card [OF cl(1)] by simp
  then show "dr_claimed rep = length (chosen_transcripts batch_limit tbl)"
    using rows dist by (simp add: distinct_card)
  have "length (filter (\<lambda>c. \<exists>p. dre_extract (den_rows env (tqr_id c)) = Inr p) recs) =
      length (filter (\<lambda>i. \<exists>p. dre_extract (den_rows env i) = Inr p) (map tqr_id recs))"
    by (simp add: filter_map comp_def)
  also have "\<dots> = card (set (filter (\<lambda>i. \<exists>p. dre_extract (den_rows env i) = Inr p) (map tqr_id recs)))"
    using cl(1) by (intro distinct_card [symmetric] distinct_filter)
  also have "set (filter (\<lambda>i. \<exists>p. dre_extract (den_rows env i) = Inr p) (map tqr_id recs)) =
      {i \<in> set (chosen_transcripts batch_limit tbl). \<exists>p. dre_extract (den_rows env i) = Inr p}"
    using cl(2) by auto
  finally show "dr_processed rep = card {i \<in> set (chosen_transcripts batch_limit tbl). \<exists>p. dre_extract (den_rows env i) = Inr p}"
    using rows cl(2) by simp
  show "dr_processed rep + dr_failed rep = dr_claimed rep" using rows by simp
qed

lemma drain_rows_total:
  "\<forall>c \<in> set recs. tdb_up (dre_db (envs (tqr_id c))) \<Longrightarrow> \<exists>rep' tbl'. drain_rows envs recs rep tbl = (Inr rep', tbl')"
  by (induction recs arbitrary: rep tbl) (auto simp: Let_def mark_processed_def mark_failed_def split: sum.splits)

lemma drain_once_total:
  assumes "0 < batch_limit" and "faithful_db (den_claim env)" and "\<forall>i. tdb_up (dre_db (den_rows env i))"
    and "\<forall>r \<in> set tbl. tw_source r \<in> range transcript_source_str"
  shows "\<exists>rep tbl'. drain_once batch_limit env tbl = (Inr rep, tbl')"
proof -
  let ?rows = "tdb_returning (den_claim env)
    (map claimed_transcript (filter (\<lambda>r. tw_id r \<in> set (chosen_transcripts batch_limit tbl)) tbl))"
  have "set ?rows \<subseteq> claimed_transcript ` set tbl"
    using assms(2) by (metis (no_types, lifting) faithful_db_def filter_is_subset image_mono list.set_map set_mset_mset)
  then have "\<forall>r \<in> set ?rows. tw_source r \<in> range transcript_source_str" using assms(4) by auto
  then obtain recs where "collect_records ?rows = Inr recs" using collect_records_total by blast
  then show ?thesis using assms(1-3) drain_rows_total
    by (auto simp: drain_once_def claim_pending_def faithful_db_def Let_def)
qed

section \<open>Progress: the second retried queue\<close>

fun transcript_weight :: "transcript_row \<Rightarrow> nat" where
  "transcript_weight r = (if tw_status r \<in> {TPending, TProcessing}
                          then max 1 (nat (max_transcript_drain_attempts - tw_attempts r)) else 0)"

definition queue_weight :: "transcript_table \<Rightarrow> nat" where
  "queue_weight tbl = sum_list (map transcript_weight tbl)"

text \<open>The body of the loop for one record that is in processing.\<close>

fun settle_transcript :: "drain_row_env \<times> uuid \<Rightarrow> transcript_table \<Rightarrow> transcript_table option" where
  "settle_transcript (env, i) tbl =
     (if tdb_up (dre_db env) \<and> filter (drained i) tbl \<noteq> []
      then Some (map (\<lambda>r. if drained i r then settled_transcript env r else r) tbl) else None)"

lemma settled_weight:
  "tw_status r = TProcessing \<Longrightarrow> transcript_weight (settled_transcript env r) < transcript_weight r"
  by (auto simp: settled_transcript_def processed_transcript_def failed_transcript_def
      max_transcript_drain_attempts_def split: sum.splits)

interpretation transcripts: retry_ledger queue_weight settle_transcript
proof
  fix a s s'
  assume "settle_transcript a s = Some s'"
  then obtain env i where "filter (drained i) s \<noteq> []"
    and s': "s' = map (\<lambda>r. if drained i r then settled_transcript env r else r) s"
    by (cases a) (auto split: if_splits)
  from sum_list_map_decrease [OF _ this(1), of transcript_weight "settled_transcript env"]
  show "queue_weight s' < queue_weight s"
    unfolding s' queue_weight_def map_map comp_def
    by (simp del: transcript_weight.simps add: settled_weight drained_def)
qed

lemma drain_rows_settles:
  "drain_rows envs recs rep tbl = (Inr rep', tbl') \<Longrightarrow> distinct (map tqr_id recs) \<Longrightarrow>
     \<forall>c \<in> set recs. filter (drained (tqr_id c)) tbl \<noteq> [] \<Longrightarrow>
     transcripts.settle_all (map (\<lambda>c. (envs (tqr_id c), tqr_id c)) recs) tbl = Some tbl'"
proof (induction recs arbitrary: rep tbl)
  case (Cons c cs)
  let ?one = "\<lambda>r. if drained (tqr_id c) r then settled_transcript (envs (tqr_id c)) r else r"
  obtain rep1 where up: "tdb_up (dre_db (envs (tqr_id c)))"
    and rest: "drain_rows envs cs rep1 (map ?one tbl) = (Inr rep', tbl')"
    using drain_rows_step [OF Cons.prems(1)] by blast
  have "drained (tqr_id d) (?one r)" if "d \<in> set cs" "drained (tqr_id d) r" for d r
    using Cons.prems(2) that by (auto simp: drained_def image_iff)
  then have "\<forall>d \<in> set cs. filter (drained (tqr_id d)) (map ?one tbl) \<noteq> []"
    using Cons.prems(3) by (fastforce simp: filter_empty_conv)
  from Cons.IH [OF rest _ this] Cons.prems up show ?case by simp
qed simp

lemma queue_weight_claim:
  "distinct (map tw_id tbl) \<Longrightarrow>
     queue_weight (map (\<lambda>r. if tw_id r \<in> set (chosen_transcripts limit tbl) then claimed_transcript r else r) tbl) =
     queue_weight tbl"
  unfolding queue_weight_def map_map comp_def
  by (intro arg_cong [where f = sum_list] map_cong refl) (auto simp: claimed_transcript_def dest: chosen_row)

text \<open>Every settled record uses up weight.\<close>

lemma drain_once_weight:
  assumes "drain_once batch_limit env tbl = (Inr rep, tbl')" and d: "distinct (map tw_id tbl)"
    and "\<forall>rs. mset (tdb_returning (den_claim env) rs) = mset rs"
  shows "queue_weight tbl' + dr_claimed rep \<le> queue_weight tbl"
proof -
  obtain recs t where c: "claim_pending (den_claim env) batch_limit tbl = (Inr recs, t)"
    and r: "drain_rows (den_rows env) recs \<lparr>dr_claimed = length recs, dr_processed = 0, dr_failed = 0\<rparr> t = (Inr rep, tbl')"
    using assms(1) by (auto simp: drain_once_def split: sum.splits prod.splits)
  note cl = claim_records [OF c d assms(3)]
  have "filter (drained (tqr_id x)) t \<noteq> []" if "x \<in> set recs" for x
  proof -
    from that cl(2) have i: "tqr_id x \<in> set (chosen_transcripts batch_limit tbl)" by auto
    with chosen_pending obtain r where "r \<in> set tbl" "tw_id r = tqr_id x" by blast
    with i have "claimed_transcript r \<in> set t" "drained (tqr_id x) (claimed_transcript r)"
      by (auto simp: cl(3) drained_def claimed_transcript_def)
    then show ?thesis by (auto simp: filter_empty_conv)
  qed
  with drain_rows_settles [OF r cl(1)] have
    "transcripts.settle_all (map (\<lambda>c. (den_rows env (tqr_id c), tqr_id c)) recs) t = Some tbl'" by blast
  from transcripts.settle_all_weight [OF this] have "queue_weight tbl' + length recs \<le> queue_weight t" by simp
  moreover have "queue_weight t = queue_weight tbl" unfolding cl(3) by (rule queue_weight_claim [OF d])
  ultimately show ?thesis using drain_rows_map [OF r cl(1)] by simp
qed

section \<open>Sweeps\<close>

definition healthy_drain :: "drain_env \<Rightarrow> bool" where
  "healthy_drain env \<longleftrightarrow> faithful_db (den_claim env) \<and> (\<forall>i. tdb_up (dre_db (den_rows env i)))"

definition drain_sweeps :: "int \<Rightarrow> drain_env list \<Rightarrow> transcript_table \<Rightarrow> transcript_table" where
  "drain_sweeps batch_limit envs tbl = foldl (\<lambda>t env. snd (drain_once batch_limit env t)) tbl envs"

lemma healthy_drain_once:
  assumes "healthy_drain env" and "0 < b" and inv: "transcript_inv tbl"
  obtains rep where "drain_once b env tbl = (Inr rep, sweep_spec b env tbl)"
    and "dr_claimed rep = length (chosen_transcripts b tbl)"
proof -
  have "\<forall>r \<in> set tbl. tw_source r \<in> range transcript_source_str"
    using inv by (simp add: transcript_inv_def transcript_ok_def)
  then obtain rep t where t: "drain_once b env tbl = (Inr rep, t)"
    using drain_once_total assms(1,2) unfolding healthy_drain_def by blast
  have m: "\<forall>rs. mset (tdb_returning (den_claim env) rs) = mset rs"
    using assms(1) by (simp add: healthy_drain_def faithful_db_def)
  show ?thesis using that t drain_once_sweep(1,2) [OF t transcript_inv_ids [OF inv] m] by simp
qed

lemma settled_claimed_ok:
  "transcript_ok r \<Longrightarrow> tw_status r = TPending \<Longrightarrow> transcript_ok (settled_transcript env (claimed_transcript r))"
  by (auto simp: transcript_ok_def claimed_transcript_def settled_transcript_def processed_transcript_def
      failed_transcript_def max_transcript_drain_attempts_def split: sum.splits)

lemma settled_claimed_hash [simp]:
  "tw_content_hash (settled_transcript env (claimed_transcript r)) = tw_content_hash r"
  by (auto simp: claimed_transcript_def settled_transcript_def processed_transcript_def
      failed_transcript_def split: sum.splits)

lemma sweep_spec_inv:
  assumes "transcript_inv tbl"
  shows "transcript_inv (sweep_spec b env tbl)"
  unfolding sweep_spec_def
  by (rule transcript_inv_map [OF assms])
    (use chosen_row [OF transcript_inv_ids [OF assms]] settled_claimed_ok in auto)

lemma chosen_Nil_iff:
  assumes "0 < b"
  shows "chosen_transcripts b tbl = [] \<longleftrightarrow> (\<forall>r \<in> set tbl. tw_status r \<noteq> TPending)"
proof -
  let ?p = "filter (\<lambda>r. tw_status r = TPending) tbl"
  have "sort_by (\<lambda>r s. tw_enqueued_at r \<le> tw_enqueued_at s) ?p = [] \<longleftrightarrow> ?p = []"
    by (metis length_0_conv length_sort_by)
  then have "chosen_transcripts b tbl = [] \<longleftrightarrow> ?p = []"
    using assms by (simp add: chosen_transcripts_def)
  then show ?thesis by (simp add: filter_empty_conv)
qed

lemma sweep_weight:
  assumes "healthy_drain env" and "0 < b" and "transcript_inv tbl"
  shows "queue_weight (sweep_spec b env tbl) + length (chosen_transcripts b tbl) \<le> queue_weight tbl"
proof -
  have m: "\<forall>rs. mset (tdb_returning (den_claim env) rs) = mset rs"
    using assms(1) by (simp add: healthy_drain_def faithful_db_def)
  obtain rep where d: "drain_once b env tbl = (Inr rep, sweep_spec b env tbl)"
    and "dr_claimed rep = length (chosen_transcripts b tbl)"
    using healthy_drain_once [OF assms] by blast
  with drain_once_weight [OF d transcript_inv_ids [OF assms(3)] m] show ?thesis by simp
qed

lemma pending_weight: "r \<in> set tbl \<Longrightarrow> tw_status r = TPending \<Longrightarrow> 0 < queue_weight tbl"
  by (induction tbl) (auto simp: queue_weight_def)

lemma drain_sweeps_no_pending:
  assumes "0 < b" and "transcript_inv tbl" and "\<forall>env \<in> set envs. healthy_drain env"
    and "queue_weight tbl \<le> length envs"
  shows "\<forall>r \<in> set (drain_sweeps b envs tbl). tw_status r \<noteq> TPending"
  using assms(2-4)
proof (induction envs arbitrary: tbl)
  case Nil
  then show ?case by (auto dest: pending_weight simp: drain_sweeps_def)
next
  case (Cons env envs)
  then obtain rep where d: "snd (drain_once b env tbl) = sweep_spec b env tbl"
    using healthy_drain_once [of env b tbl] assms(1) by (metis list.set_intros(1) snd_conv)
  then have s: "drain_sweeps b (env # envs) tbl = drain_sweeps b envs (sweep_spec b env tbl)"
    by (simp add: drain_sweeps_def)
  show ?case
  proof (cases "chosen_transcripts b tbl = []")
    case True
    have id: "sweep_spec b e tbl = tbl" for e using True by (simp add: sweep_spec_def)
    have "drain_sweeps b es tbl = tbl" if "\<forall>e \<in> set es. healthy_drain e" for es
      using that
    proof (induction es)
      case (Cons e es)
      then have "snd (drain_once b e tbl) = tbl"
        using healthy_drain_once [of e b tbl] assms(1) \<open>transcript_inv tbl\<close> id by (metis list.set_intros(1) snd_conv)
      with Cons show ?case by (simp add: drain_sweeps_def)
    qed (simp add: drain_sweeps_def)
    with s id Cons.prems(2) have "drain_sweeps b (env # envs) tbl = tbl" by simp
    then show ?thesis using True chosen_Nil_iff [OF assms(1)] by simp
  next
    case False
    then have "queue_weight (sweep_spec b env tbl) < queue_weight tbl"
      using sweep_weight [OF _ assms(1) Cons.prems(1), of env] Cons.prems(2)
      by (metis add_less_same_cancel1 add.commute le_neq_implies_less length_greater_0_conv less_add_same_cancel1 less_le_trans list.set_intros(1))
    then show ?thesis unfolding s using Cons.prems by (intro Cons.IH sweep_spec_inv) auto
  qed
qed

lemma queue_weight_bound: "transcript_inv tbl \<Longrightarrow> queue_weight tbl \<le> 3 * length tbl"
proof -
  assume "transcript_inv tbl"
  then have "\<forall>r \<in> set tbl. transcript_weight r \<le> 3"
    by (auto simp: transcript_inv_def transcript_ok_def max_transcript_drain_attempts_def)
  then show ?thesis by (induction tbl) (auto simp: queue_weight_def)
qed

text \<open>What happens after a worker died: ingest goes on and sweeps run again.\<close>

inductive queue_sweeps :: "(string \<Rightarrow> string) \<Rightarrow> transcript_table \<Rightarrow> transcript_table \<Rightarrow> bool" for h tbl where
  qs_refl: "queue_sweeps h tbl tbl"
| qs_enqueue: "queue_sweeps h tbl t \<Longrightarrow> queue_sweeps h tbl (snd (enqueue h db new_id request t))"
| qs_drain: "queue_sweeps h tbl t \<Longrightarrow> healthy_drain env \<Longrightarrow> 0 < b \<Longrightarrow> queue_sweeps h tbl (snd (drain_once b env t))"

lemma queue_sweeps_keep_processing:
  assumes "queue_sweeps h tbl t" and "transcript_inv tbl" and "r \<in> set tbl" and "tw_status r = TProcessing"
  shows "transcript_inv t \<and> r \<in> set t"
  using assms(1)
proof (induction rule: queue_sweeps.induct)
  case qs_refl
  then show ?case using assms by simp
next
  case (qs_enqueue t db new_id request)
  then show ?case using transcript_inv_step [OF ts_enqueue]
    by (auto simp: enqueue_def Let_def)
next
  case (qs_drain t env b)
  then obtain rep where d: "drain_once b env t = (Inr rep, sweep_spec b env t)"
    using healthy_drain_once by blast
  have "tw_id r \<notin> set (chosen_transcripts b t)"
    using chosen_row [of t r b] transcript_inv_ids qs_drain.IH assms(4) by auto
  then have "r \<in> set (sweep_spec b env t)" using qs_drain.IH by (auto simp: sweep_spec_def intro!: image_eqI)
  then show ?case using d sweep_spec_inv qs_drain.IH by simp
qed

lemma distinct_map_one:
  "distinct (map f xs) \<Longrightarrow> y \<in> f ` set xs \<Longrightarrow> length (filter (\<lambda>x. f x = y) xs) = 1"
proof (induction xs)
  case (Cons x xs)
  show ?case
  proof (cases "f x = y")
    case True
    with Cons.prems(1) have "filter (\<lambda>x. f x = y) xs = []" by (auto simp: filter_empty_conv image_iff)
    with True show ?thesis by simp
  qed (use Cons in auto)
qed simp

section \<open>Properties\<close>

text \<open>Ingest deduplicates by content.  When a request is accepted, exactly one row holds its digest,
  a new row is written exactly when there was none, a duplicate leaves the table alone, and every later
  request with the same content from any session is answered as a duplicate.\<close>

theorem enqueue_deduplicates:
  assumes "transcript_reachable h tbl" and "enqueue h db new_id request tbl = (Ok outcome, tbl')"
  shows "length (filter (\<lambda>r. tw_content_hash r = h (tir_content request)) tbl') = 1 \<and>
    outcome_content_hash outcome = h (tir_content request) \<and>
    (outcome_is_new outcome \<longleftrightarrow> h (tir_content request) \<notin> tw_content_hash ` set tbl) \<and>
    (\<not> outcome_is_new outcome \<longrightarrow> tbl' = tbl) \<and>
    (trim sid \<noteq> [] \<longrightarrow> tdb_up db2 \<longrightarrow>
      enqueue h db2 id2 (request\<lparr>tir_session_id := sid\<rparr>) tbl' =
        (Ok (Duplicate (h (tir_content request))), tbl'))"
proof -
  let ?c = "h (tir_content request)"
  have inv: "transcript_inv tbl'"
    using transcript_inv_step [OF ts_enqueue transcript_reachable_inv [OF assms(1)], of h db new_id request] assms(2)
    by simp
  have mem: "?c \<in> tw_content_hash ` set tbl'"
    and nb: "trim (tir_content request) \<noteq> []" "length (tir_content request) \<le> max_transcript_ingest_bytes"
    using assms(2) by (auto simp: enqueue_def Let_def transcript_new_row_def split: if_splits)
  have "distinct (map tw_content_hash tbl')" using inv by (simp add: transcript_inv_def)
  then have "length (filter (\<lambda>r. tw_content_hash r = ?c) tbl') = 1" using mem by (rule distinct_map_one)
  moreover have "trim sid \<noteq> [] \<longrightarrow> tdb_up db2 \<longrightarrow>
      enqueue h db2 id2 (request\<lparr>tir_session_id := sid\<rparr>) tbl' = (Ok (Duplicate ?c), tbl')"
    using mem nb by (simp add: enqueue_def)
  ultimately show ?thesis using assms(2) by (auto simp: enqueue_def Let_def split: if_splits)
qed

definition sample_tdb :: transcript_db where
  "sample_tdb = \<lparr>tdb_up = True, tdb_now = 7, tdb_returning = rev\<rparr>"

definition sample_transcript :: transcript_ingest_request where
  "sample_transcript = \<lparr>tir_session_id = ''s'', tir_repo_path = Some '' '', tir_source = SessionEnd,
     tir_content = ''x''\<rparr>"

lemma trim_s_x: "trim ''s'' = ''s''" "trim ''x'' = ''x''" "trim ''t'' = ''t''" "trim '' '' = []"
  by (simp_all add: trim_no_ws is_ws_def) (simp add: trim_def trim_start_def trim_end_def is_ws_def)

lemma sample_enqueue:
  "enqueue (\<lambda>c. c) sample_tdb ''i'' sample_transcript [] =
     (Ok (Enqueued ''i'' ''x''), [transcript_new_row sample_tdb ''i'' ''x'' sample_transcript])"
  by (simp add: enqueue_def sample_transcript_def sample_tdb_def trim_s_x max_transcript_ingest_bytes_def Let_def)

lemma sample_queue_reachable:
  "transcript_reachable (\<lambda>c. c) [transcript_new_row sample_tdb ''i'' ''x'' sample_transcript]"
  using tr_step [OF tr_empty ts_enqueue, of "\<lambda>c. c" sample_tdb "''i''" sample_transcript]
  by (simp add: sample_enqueue)

theorem enqueue_deduplicates_witness:
  "enqueue (\<lambda>c. c) sample_tdb ''j'' (sample_transcript\<lparr>tir_session_id := ''t''\<rparr>)
     [transcript_new_row sample_tdb ''i'' ''x'' sample_transcript] =
   (Ok (Duplicate ''x''), [transcript_new_row sample_tdb ''i'' ''x'' sample_transcript])"
  using enqueue_deduplicates [OF tr_empty sample_enqueue, of "''t''" sample_tdb "''j''"]
  by (simp add: trim_s_x sample_tdb_def sample_transcript_def)

text \<open>C10: A sweep refines one parallel update. A drain that returns a report has settled exactly the oldest pending rows up to its batch limit: each is processed if the extractor answered and failed or pending again otherwise, every other row is untouched, and the report counts them truthfully.\<close>

theorem drain_once_refines_sweep:
  assumes "transcript_reachable h tbl" and "drain_once b env tbl = (Ok report, tbl')"
    and "\<forall>rs. mset (tdb_returning (den_claim env) rs) = mset rs"
  shows "tbl' = sweep_spec b env tbl \<and>
    dr_claimed report = length (chosen_transcripts b tbl) \<and>
    dr_processed report = card {i \<in> set (chosen_transcripts b tbl). \<exists>p. dre_extract (den_rows env i) = Inr p} \<and>
    dr_processed report + dr_failed report = dr_claimed report"
  using drain_once_sweep [OF assms(2) transcript_inv_ids [OF transcript_reachable_inv [OF assms(1)]] assms(3)]
  by blast

definition sample_drain_env :: "(string, string list) result \<Rightarrow> drain_env" where
  "sample_drain_env answer = \<lparr>den_claim = sample_tdb,
     den_rows = (\<lambda>_. \<lparr>dre_extract = answer, dre_db = sample_tdb\<rparr>)\<rparr>"

lemma sample_healthy_drain: "healthy_drain (sample_drain_env a)"
  by (simp add: healthy_drain_def sample_drain_env_def faithful_db_def sample_tdb_def)

theorem drain_once_refines_sweep_witness:
  "\<exists>report. drain_once 5 (sample_drain_env (Ok [])) [transcript_new_row sample_tdb ''i'' ''x'' sample_transcript] =
     (Ok report, sweep_spec 5 (sample_drain_env (Ok [])) [transcript_new_row sample_tdb ''i'' ''x'' sample_transcript]) \<and>
   dr_processed report + dr_failed report = dr_claimed report"
proof -
  let ?t = "[transcript_new_row sample_tdb ''i'' ''x'' sample_transcript]"
  obtain report where r: "drain_once 5 (sample_drain_env (Ok [])) ?t = (Ok report, sweep_spec 5 (sample_drain_env (Ok [])) ?t)"
    using healthy_drain_once [OF sample_healthy_drain _ transcript_reachable_inv [OF sample_queue_reachable], of 5] by auto
  have m: "\<forall>rs. mset (tdb_returning (den_claim (sample_drain_env (Ok []))) rs) = mset rs"
    by (simp add: sample_drain_env_def sample_tdb_def)
  from r drain_once_refines_sweep [OF sample_queue_reachable r m] show ?thesis by blast
qed

text \<open>C26: The backlog drains. While the database answers, three sweeps per row are enough: after them no row is pending, whatever the extractor answered, and no row was lost.\<close>

theorem backlog_drains:
  assumes "transcript_reachable h tbl" and "0 < b" and "\<forall>env \<in> set envs. healthy_drain env"
    and "3 * length tbl \<le> length envs"
  shows "(\<forall>r \<in> set (drain_sweeps b envs tbl). tw_status r \<noteq> TPending) \<and>
    map tw_id (drain_sweeps b envs tbl) = map tw_id tbl"
proof
  note inv = transcript_reachable_inv [OF assms(1)]
  show "\<forall>r \<in> set (drain_sweeps b envs tbl). tw_status r \<noteq> TPending"
    by (rule drain_sweeps_no_pending [OF assms(2) inv assms(3)]) (use queue_weight_bound [OF inv] assms(4) in simp)
  show "map tw_id (drain_sweeps b envs tbl) = map tw_id tbl"
    using inv assms(3)
  proof (induction envs arbitrary: tbl)
    case (Cons env envs)
    then obtain rep where "drain_once b env tbl = (Inr rep, sweep_spec b env tbl)"
      using healthy_drain_once [of env b tbl] assms(2) by (metis list.set_intros(1))
    moreover have "map tw_id (sweep_spec b env tbl) = map tw_id tbl"
      by (auto simp: sweep_spec_def)
    ultimately show ?case using Cons.IH [OF sweep_spec_inv [OF Cons.prems(1)], of b env] Cons.prems(2)
      by (simp add: drain_sweeps_def)
  qed (simp add: drain_sweeps_def)
qed

theorem backlog_drains_witness:
  "list_all (\<lambda>r. tw_status r \<noteq> TPending) (drain_sweeps 1 (replicate 3 (sample_drain_env (Err ''down'')))
     [transcript_new_row sample_tdb ''i'' ''x'' sample_transcript])"
  using backlog_drains [OF sample_queue_reachable, of 1 "replicate 3 (sample_drain_env (Err ''down''))"]
  by (simp add: sample_healthy_drain list_all_iff)

text \<open>A claimed transcript does not survive its worker. A row left in processing, by a worker that died or by a sweep that stopped at a database error, stays as it is whatever is ingested and however often the queue is swept again: it is never extracted.\<close>

theorem interrupted_transcript_stuck:
  assumes "transcript_reachable h tbl" and "r \<in> set tbl" and "tw_status r = TProcessing"
    and "queue_sweeps h tbl tbl'"
  shows "r \<in> set tbl' \<and> (\<forall>b. tw_id r \<notin> set (chosen_transcripts b tbl'))"
proof -
  have *: "transcript_inv tbl'" "r \<in> set tbl'"
    using queue_sweeps_keep_processing [OF assms(4) transcript_reachable_inv [OF assms(1)] assms(2,3)] by auto
  then show ?thesis using chosen_row [OF transcript_inv_ids [OF *(1)] *(2)] assms(3) by auto
qed

theorem interrupted_transcript_stuck_witness:
  "claimed_transcript (transcript_new_row sample_tdb ''i'' ''x'' sample_transcript) \<in>
     set (snd (drain_once 5 (sample_drain_env (Ok []))
       (snd (claim_pending sample_tdb 5 [transcript_new_row sample_tdb ''i'' ''x'' sample_transcript]))))"
proof -
  let ?r = "transcript_new_row sample_tdb ''i'' ''x'' sample_transcript"
  have c: "claimed_transcript ?r \<in> set (snd (claim_pending sample_tdb 5 [?r]))"
    by (simp add: claim_pending_def sample_tdb_def Let_def chosen_transcripts_def transcript_new_row_def)
  have "transcript_reachable (\<lambda>c. c) (snd (claim_pending sample_tdb 5 [?r]))"
    by (rule tr_step [OF sample_queue_reachable ts_claim])
  from interrupted_transcript_stuck [OF this c _ qs_drain [OF qs_refl sample_healthy_drain, of 5]]
  show ?thesis by (simp add: claimed_transcript_def)
qed

end
