(* ===== verification/Segmentation.thy ===== *)
theory Segmentation
  imports Domain_Model "HOL-Library.Word"
begin

text \<open>
  Episodic segmentation (\<open>session-extractor/src/segmentation.rs\<close>): overlapping windows over the events
  of a session, bounded by a token budget.  Token counts are natural numbers: the bytes of a session
  fit the address space, so the additions of the code do not wrap.
\<close>

section \<open>Episodes and configuration\<close>

datatype arc_id = ArcId "64 word"

fun as_u64 :: "arc_id \<Rightarrow> 64 word" where
  "as_u64 (ArcId n) = n"

record episode =
  ep_event_indices :: "nat list"
  ep_arc_id :: "arc_id option"

record segmentation_config =
  sgc_token_budget :: nat
  sgc_overlap_events :: nat

definition segmentation_config_new :: "nat \<Rightarrow> nat \<Rightarrow> segmentation_config" where
  "segmentation_config_new token_budget overlap_events =
     \<lparr>sgc_token_budget = token_budget, sgc_overlap_events = overlap_events\<rparr>"

definition segmentation_config_default :: segmentation_config where
  "segmentation_config_default = \<lparr>sgc_token_budget = 4096, sgc_overlap_events = 3\<rparr>"

fun event_char_count :: "session_event \<Rightarrow> nat" where
  "event_char_count (UserMessage _ content) = length content"
| "event_char_count (AssistantMessage _ content) = length content"
| "event_char_count (ToolCall _ _ name input) = length name + length input"
| "event_char_count (ToolResult _ _ _ _ output) = length output"
| "event_char_count (FileEdit _ _ path operation) = length path + length operation"
| "event_char_count (Metadata _ ty) = length ty"

definition estimate_tokens :: "session_event \<Rightarrow> nat" where
  "estimate_tokens event = max (event_char_count event div 4) 1"

section \<open>Windows\<close>

text \<open>The inner loop: \<open>packed\<close> are the indices taken so far, \<open>tokens\<close> their estimate.\<close>

fun pack_window :: "nat \<Rightarrow> session_event list \<Rightarrow> nat list \<Rightarrow> nat \<Rightarrow> nat list" where
  "pack_window token_budget [] packed tokens = packed"
| "pack_window token_budget (e # es) packed tokens =
     (if packed = [] \<or> tokens + estimate_tokens e \<le> token_budget
      then pack_window token_budget es (packed @ [event_index e]) (tokens + estimate_tokens e)
      else packed)"

lemma pack_window_grows: "length packed \<le> length (pack_window b es packed t)"
  by (induction b es packed t rule: pack_window.induct) auto

lemma pack_window_nonempty: "es \<noteq> [] \<Longrightarrow> pack_window b es [] t \<noteq> []"
  using pack_window_grows [of "[event_index (hd es)]" b "tl es" "t + estimate_tokens (hd es)"]
  by (cases es) auto

definition next_window_start :: "segmentation_config \<Rightarrow> nat \<Rightarrow> nat \<Rightarrow> nat" where
  "next_window_start config window_start window_len =
     (if window_len \<le> sgc_overlap_events config then window_start + 1
      else window_start + (window_len - sgc_overlap_events config))"

lemma next_window_start_gt: "window_start < next_window_start config window_start window_len"
  by (auto simp: next_window_start_def)

function windows_from :: "session_event list \<Rightarrow> segmentation_config \<Rightarrow> nat \<Rightarrow> episode list" where
  "windows_from events config window_start =
     (if window_start < length events then
        (let window = pack_window (sgc_token_budget config) (drop window_start events) [] 0;
             window_end = window_start + length window
         in \<lparr>ep_event_indices = window, ep_arc_id = None\<rparr> #
            (if length events \<le> window_end then []
             else windows_from events config (next_window_start config window_start (length window))))
      else [])"
  by pat_completeness auto
termination
  by (relation "measure (\<lambda>(es, c, s). length es - s)") (auto simp: next_window_start_def)

declare windows_from.simps [simp del]

definition segment_session :: "session_event list \<Rightarrow> segmentation_config \<Rightarrow> episode list" where
  "segment_session events config = (if events = [] then [] else windows_from events config 0)"

section \<open>A window is a maximal affordable slice\<close>

abbreviation tokens_of :: "session_event list \<Rightarrow> nat" where
  "tokens_of es \<equiv> sum_list (map estimate_tokens es)"

text \<open>Number of events a window takes: greedy, at least one.\<close>

lemma pack_window_eq:
  "pack_window b es packed t = packed @ map event_index (take (length (pack_window b es packed t) - length packed) es)"
proof (induction b es packed t rule: pack_window.induct)
  case (2 b e es packed t)
  show ?case
  proof (cases "packed = [] \<or> t + estimate_tokens e \<le> b")
    case True
    let ?w = "pack_window b es (packed @ [event_index e]) (t + estimate_tokens e)"
    have "Suc (length packed) \<le> length ?w" using pack_window_grows [of "packed @ [event_index e]"] by simp
    then have "length ?w - length packed = Suc (length ?w - Suc (length packed))" by simp
    with True 2 [OF True] show ?thesis by simp
  qed simp
qed simp

lemma pack_window_length: "length (pack_window b es packed t) \<le> length packed + length es"
  by (induction b es packed t rule: pack_window.induct) auto

lemma pack_window_budget:
  "packed \<noteq> [] \<Longrightarrow> n = length (pack_window b es packed t) - length packed \<Longrightarrow>
     (0 < n \<longrightarrow> t + tokens_of (take n es) \<le> b) \<and> (n < length es \<longrightarrow> b < t + tokens_of (take (Suc n) es))"
proof (induction b es packed t arbitrary: n rule: pack_window.induct)
  case (2 b e es packed t)
  show ?case
  proof (cases "t + estimate_tokens e \<le> b")
    case True
    let ?w = "pack_window b es (packed @ [event_index e]) (t + estimate_tokens e)"
    have "Suc (length packed) \<le> length ?w" using pack_window_grows [of "packed @ [event_index e]"] by simp
    then have n: "n = Suc (length ?w - Suc (length packed))" using 2(3) True by simp
    have "(0 < length ?w - Suc (length packed) \<longrightarrow>
          (t + estimate_tokens e) + tokens_of (take (length ?w - Suc (length packed)) es) \<le> b) \<and>
        (length ?w - Suc (length packed) < length es \<longrightarrow>
          b < (t + estimate_tokens e) + tokens_of (take (Suc (length ?w - Suc (length packed))) es))"
      using True by (intro 2(1)) auto
    then show ?thesis unfolding n using True by (cases "length ?w - Suc (length packed)") (auto simp: add.assoc)
  next
    case False
    then have "n = 0" using 2(2,3) by simp
    with False show ?thesis by simp
  qed
qed simp

definition window_slice :: "nat \<Rightarrow> session_event list \<Rightarrow> nat \<Rightarrow> nat \<Rightarrow> bool" where
  "window_slice budget events start len \<longleftrightarrow> 0 < len \<and> start + len \<le> length events \<and>
     (len = 1 \<or> tokens_of (take len (drop start events)) \<le> budget) \<and>
     (start + len < length events \<longrightarrow> budget < tokens_of (take (Suc len) (drop start events)))"

lemma pack_window_slice:
  assumes "start < length events"
  shows "window_slice b events start (length (pack_window b (drop start events) [] 0))"
    and "pack_window b (drop start events) [] 0 =
      map event_index (take (length (pack_window b (drop start events) [] 0)) (drop start events))"
proof -
  let ?w = "pack_window b (drop start events) [] 0"
  show "?w = map event_index (take (length ?w) (drop start events))" using pack_window_eq [of b _ "[]" 0] by simp
  obtain e es where d: "drop start events = e # es" using assms by (cases "drop start events") auto
  have w: "?w = pack_window b es [event_index e] (estimate_tokens e)" unfolding d by simp
  have pos: "0 < length ?w" using pack_window_nonempty [of "drop start events"] assms by simp
  have len: "start + length ?w \<le> length events"
    using pack_window_length [of b "drop start events" "[]" 0] assms by simp
  have es: "length es = length events - Suc start" using d assms by (metis Suc_diff_Suc diff_Suc_1 length_Cons length_drop)
  have "(0 < length ?w - 1 \<longrightarrow> estimate_tokens e + tokens_of (take (length ?w - 1) es) \<le> b) \<and>
      (length ?w - 1 < length es \<longrightarrow> b < estimate_tokens e + tokens_of (take (Suc (length ?w - 1)) es))"
    using pack_window_budget [of "[event_index e]" "length ?w - 1" b es "estimate_tokens e"] w by simp
  moreover obtain k where k: "length ?w = Suc k" using pos by (cases "length ?w") auto
  ultimately have "(0 < k \<longrightarrow> estimate_tokens e + tokens_of (take k es) \<le> b) \<and>
      (k < length es \<longrightarrow> b < estimate_tokens e + tokens_of (take (Suc k) es))" by simp
  then have "window_slice b events start (Suc k)"
    unfolding window_slice_def d take_Suc_Cons list.map sum_list.Cons using len es assms k
    by (cases "k < length es") auto
  with k show "window_slice b events start (length ?w)" by simp
qed

section \<open>The windows of a session\<close>

text \<open>A span is the first position and the length of a window.\<close>

abbreviation span_episode :: "session_event list \<Rightarrow> nat \<times> nat \<Rightarrow> episode" where
  "span_episode events w \<equiv>
     \<lparr>ep_event_indices = map event_index (take (snd w) (drop (fst w) events)), ep_arc_id = None\<rparr>"

definition follows :: "nat \<Rightarrow> nat \<times> nat \<Rightarrow> nat \<times> nat \<Rightarrow> bool" where
  "follows overlap a b \<longleftrightarrow> fst b = fst a + snd a - min overlap (snd a - 1)"

lemma next_window_start_follows:
  "0 < len \<Longrightarrow> follows (sgc_overlap_events c) (s, len) (next_window_start c s len, l)"
  by (auto simp: follows_def next_window_start_def)

definition spans_from :: "segmentation_config \<Rightarrow> session_event list \<Rightarrow> nat \<Rightarrow> (nat \<times> nat) list \<Rightarrow> bool" where
  "spans_from config events start spans \<longleftrightarrow> spans \<noteq> [] \<and> fst (hd spans) = start \<and>
     (\<forall>a \<in> set spans. window_slice (sgc_token_budget config) events (fst a) (snd a)) \<and>
     successively (follows (sgc_overlap_events config)) spans \<and>
     fst (last spans) + snd (last spans) = length events"

lemma next_window_start_inside: "\<lbrakk>s + len < n; 0 < len\<rbrakk> \<Longrightarrow> next_window_start c s len < n"
  by (auto simp: next_window_start_def)

lemma spans_from_single:
  "\<lbrakk>window_slice (sgc_token_budget c) events s l; length events \<le> s + l\<rbrakk> \<Longrightarrow> spans_from c events s [(s, l)]"
  by (auto simp: spans_from_def window_slice_def)

lemma spans_from_Cons:
  assumes "window_slice (sgc_token_budget c) events s l"
    and "spans_from c events s' spans" and "s' = next_window_start c s l"
  shows "spans_from c events s ((s, l) # spans)"
proof -
  have "0 < l" using assms(1) by (simp add: window_slice_def)
  then have "follows (sgc_overlap_events c) (s, l) (hd spans)"
    using next_window_start_follows [of l c s "snd (hd spans)"] assms(2,3) by (simp add: spans_from_def follows_def)
  then show ?thesis using assms by (cases spans) (auto simp: spans_from_def)
qed

lemma windows_from_unfold:
  assumes "start < length events"
  shows "windows_from events config start =
     \<lparr>ep_event_indices = pack_window (sgc_token_budget config) (drop start events) [] 0, ep_arc_id = None\<rparr> #
     (if length events \<le> start + length (pack_window (sgc_token_budget config) (drop start events) [] 0) then []
      else windows_from events config
        (next_window_start config start (length (pack_window (sgc_token_budget config) (drop start events) [] 0))))"
  using assms windows_from.simps [of events config start] by (simp only: if_True Let_def)

lemma windows_from_spans:
  "start < length events \<Longrightarrow>
     \<exists>spans. windows_from events config start = map (span_episode events) spans \<and> spans_from config events start spans"
proof (induction events config start rule: windows_from.induct)
  case (1 events config start)
  let ?w = "pack_window (sgc_token_budget config) (drop start events) [] 0"
  let ?l = "length ?w" and ?n = "next_window_start config start (length ?w)"
  note slice = pack_window_slice [OF 1(2), of "sgc_token_budget config"]
  have unfold: "windows_from events config start = span_episode events (start, ?l) #
      (if length events \<le> start + ?l then [] else windows_from events config ?n)"
    unfolding fst_conv snd_conv slice(2) [symmetric] windows_from_unfold [OF 1(2)] ..
  show ?case
  proof (cases "length events \<le> start + ?l")
    case True
    then have "spans_from config events start [(start, ?l)]" using slice(1) by (rule spans_from_single [rotated])
    moreover have "windows_from events config start = map (span_episode events) [(start, ?l)]"
      unfolding unfold list.map if_P [OF True] ..
    ultimately show ?thesis by blast
  next
    case False
    then have "?n < length events" using slice(1) by (intro next_window_start_inside) (simp_all only: not_le window_slice_def)
    with 1(1) [OF 1(2) refl refl False] obtain spans where
      w: "windows_from events config ?n = map (span_episode events) spans" and s: "spans_from config events ?n spans"
      by blast
    have "windows_from events config start = map (span_episode events) ((start, ?l) # spans)"
      unfolding unfold list.map if_not_P [OF False] w ..
    with spans_from_Cons [OF slice(1) s refl] show ?thesis by blast
  qed
qed

lemma spans_cover:
  "\<lbrakk>spans_from c events s spans; s \<le> i; i < length events\<rbrakk> \<Longrightarrow> \<exists>a \<in> set spans. fst a \<le> i \<and> i < fst a + snd a"
proof (induction spans arbitrary: s)
  case (Cons a spans)
  show ?case
  proof (cases "i < fst a + snd a")
    case True
    with Cons.prems show ?thesis by (auto simp: spans_from_def)
  next
    case False
    then have "spans \<noteq> []" using Cons.prems by (auto simp: spans_from_def)
    then have "spans_from c events (fst (hd spans)) spans" and "follows (sgc_overlap_events c) a (hd spans)"
      using Cons.prems(1) by (auto simp: spans_from_def successively_Cons)
    then show ?thesis using Cons.IH [of "fst (hd spans)"] False Cons.prems by (auto simp: follows_def)
  qed
qed (simp add: spans_from_def)

lemma spans_bounded: "spans_from c events s spans \<Longrightarrow> length spans + s \<le> length events"
proof (induction spans arbitrary: s)
  case (Cons a spans)
  have pos: "0 < snd a" "fst a + snd a \<le> length events" "fst a = s"
    using Cons.prems by (auto simp: spans_from_def window_slice_def)
  show ?case
  proof (cases "spans = []")
    case False
    then have "spans_from c events (fst (hd spans)) spans" and "follows (sgc_overlap_events c) a (hd spans)"
      using Cons.prems(1) by (auto simp: spans_from_def successively_Cons)
    then show ?thesis using Cons.IH [of "fst (hd spans)"] pos by (auto simp: follows_def)
  qed (use pos in auto)
qed (simp add: spans_from_def)

section \<open>Properties\<close>

text \<open>C27: The windows of a session are nonempty contiguous slices of it, each as long as the token budget allows (a lone event may exceed it), the first begins at the first event, each later one begins \<open>min overlap (len - 1)\<close> events before the end of the one before, every event lies in a window, and there are at most as many windows as events.\<close>

theorem segment_session_windows:
  assumes "events \<noteq> []"
  shows "\<exists>spans. segment_session events config = map (span_episode events) spans \<and> fst (hd spans) = 0 \<and>
    (\<forall>a \<in> set spans. window_slice (sgc_token_budget config) events (fst a) (snd a)) \<and>
    successively (follows (sgc_overlap_events config)) spans \<and>
    (\<forall>i < length events. \<exists>a \<in> set spans. fst a \<le> i \<and> i < fst a + snd a) \<and> length spans \<le> length events"
proof -
  obtain spans where "windows_from events config 0 = map (span_episode events) spans" and s: "spans_from config events 0 spans"
    using windows_from_spans [of 0 events config] assms by blast
  moreover have "\<forall>i < length events. \<exists>a \<in> set spans. fst a \<le> i \<and> i < fst a + snd a" using spans_cover [OF s] by simp
  moreover have "length spans \<le> length events" using spans_bounded [OF s] by simp
  ultimately show ?thesis using assms by (auto simp: segment_session_def spans_from_def)
qed

abbreviation turn :: "nat \<Rightarrow> string \<Rightarrow> session_event" where
  "turn i content \<equiv> UserMessage i content"

theorem segment_session_windows_witness:
  "\<exists>spans. segment_session [turn 0 ''a'', turn 3 ''b''] segmentation_config_default =
      map (span_episode [turn 0 ''a'', turn 3 ''b'']) spans \<and> length spans \<le> 2"
  using segment_session_windows [of "[turn 0 ''a'', turn 3 ''b'']" segmentation_config_default] by auto

lemma tokens_of_take_le: "tokens_of (take n es) \<le> tokens_of es"
  by (metis append_take_drop_id le_add1 map_append sum_list_append)

text \<open>When the estimate of the whole session fits the budget there is exactly one window, and it holds every event in order.\<close>

theorem segment_session_one_window:
  assumes "events \<noteq> []" and "tokens_of events \<le> sgc_token_budget config"
  shows "segment_session events config = [\<lparr>ep_event_indices = map event_index events, ep_arc_id = None\<rparr>]"
proof -
  let ?w = "pack_window (sgc_token_budget config) (drop 0 events) [] 0"
  have nz: "0 < length events" using assms(1) by simp
  note slice = pack_window_slice [OF nz, of "sgc_token_budget config"]
  have "length events \<le> 0 + length ?w"
    using slice(1) assms(2) tokens_of_take_le [of "Suc (length ?w)" events] by (force simp: window_slice_def)
  then show ?thesis unfolding segment_session_def if_not_P [OF assms(1)] windows_from_unfold [OF nz]
    using slice(2) by simp
qed

theorem segment_session_one_window_witness:
  "segment_session [turn 0 ''a'', turn 3 ''b''] segmentation_config_default = [\<lparr>ep_event_indices = [0, 3], ep_arc_id = None\<rparr>]"
  using segment_session_one_window [of "[turn 0 ''a'', turn 3 ''b'']" segmentation_config_default]
  by (simp add: segmentation_config_default_def estimate_tokens_def)

text \<open>A window may add no event to what the one before it covered: the start advances by one whenever a window is no longer than the overlap, so a session of three short turns and a long one is cut into four windows, the second of which is the end of the first.\<close>

theorem window_may_add_nothing:
  "map ep_event_indices (segment_session [turn 0 ''a'', turn 1 ''b'', turn 2 ''c'', turn 3 ''0123456789abcdef'']
      (segmentation_config_new 4 2)) = [[0, 1, 2], [1, 2], [2], [3]]"
  by (simp add: segment_session_def windows_from_unfold segmentation_config_new_def next_window_start_def estimate_tokens_def)

end
