(* ===== verification/Extraction_Model.thy ===== *)
theory Extraction_Model
  imports Config_Env
begin

text \<open>
  Data of the session extractor (\<open>session-extractor/src/lib.rs\<close>, \<open>routing.rs\<close> and the error types of
  its modules): candidates, requests and responses, provider and run path selection, the errors with
  their stable reason codes, routing tiers, and the path rendering of lifecycle events.  The
  environment is a lookup function; a path is the list of its components, the root directory being
  the component \<open>/\<close>.
\<close>

section \<open>Candidates (domain/src/types.rs)\<close>

record extracted_skill_candidate =
  ec_name :: string
  ec_description :: string
  ec_tags :: "string list"
  ec_procedures :: "string list"
  ec_conventions :: "string list"
  ec_assets :: "string list"
  ec_confidence :: f32
  ec_generality :: "string option"
  ec_generality_rationale :: "string option"

record extraction_result =
  er_source_session_id :: domain_id
  er_candidates :: "extracted_skill_candidate list"
  er_provider :: string

section \<open>Requests and responses (lib.rs)\<close>

record extract_session_request =
  esq_transcript_ref :: string
  esq_transcript_inline :: "string option"
  esq_session_id :: string
  esq_repo_path :: "string option"

record extract_session_response =
  esr_status :: string
  esr_reason_code :: "string option"
  esr_job_id :: "string option"
  esr_provider :: "string option"

section \<open>Errors\<close>

datatype transcript_error =
    InvalidRoot string
  | InvalidReference string
  | ReadFailure string string
  | TrInvalidPayload string

fun transcript_error_reason :: "transcript_error \<Rightarrow> string" where
  "transcript_error_reason (InvalidRoot _) = ''invalid_transcript_root''"
| "transcript_error_reason (InvalidReference _) = ''invalid_transcript_ref''"
| "transcript_error_reason (ReadFailure _ _) = ''transcript_read_failed''"
| "transcript_error_reason (TrInvalidPayload _) = ''invalid_transcript_payload''"

datatype writer_error =
    InvalidRepoPath string
  | ScopeResolution string
  | WriteFailure string string
  | FrontmatterSerialization string
  | BatchValidation string
  | RejectedTombstonePresent string
  | WriteDenied string
  | MissingConfig string

fun writer_error_reason :: "writer_error \<Rightarrow> string" where
  "writer_error_reason (InvalidRepoPath _) = ''invalid_repo_path''"
| "writer_error_reason (ScopeResolution _) = ''scope_resolution_failed''"
| "writer_error_reason (WriteFailure _ _) = ''pending_draft_write_failed''"
| "writer_error_reason (FrontmatterSerialization _) = ''pending_frontmatter_serialization_failed''"
| "writer_error_reason (BatchValidation _) = ''pending_draft_batch_validation_failed''"
| "writer_error_reason (RejectedTombstonePresent _) = ''rejected_tombstone_present''"
| "writer_error_reason (WriteDenied _) = ''write_denied''"
| "writer_error_reason (MissingConfig _) = ''writer_missing_config''"

datatype normalization_error =
    NormProviderFailure string
  | NormParseFailure string

datatype skeleton_error = LabelerFailed string

datatype synthesis_error =
    SynthProviderFailure string
  | SynthParseFailure string

datatype cosine_similarity_error =
    CosDimensionMismatch nat nat
  | CosZeroMagnitude

datatype orchestration_error =
    PreambleNormalization normalization_error
  | EpisodeExtraction extraction_error
  | SkeletonLabelErr skeleton_error
  | OrcEmbedding embedding_error
  | CosineSimilarity cosine_similarity_error
  | EquivalenceVerification string
  | Synthesis synthesis_error
  | DraftWrite writer_error
  | EmptySession
  | AllWindowsFailed nat "string list"

datatype session_extraction_error =
    SexTranscript transcript_error
  | SexExtraction extraction_error
  | SexWriter writer_error
  | SexEventPublication string
  | SexOrchestration orchestration_error

fun extraction_error_reason :: "extraction_error \<Rightarrow> string" where
  "extraction_error_reason (ExtProviderUnavailable _) = ''provider_unavailable''"
| "extraction_error_reason _ = ''extraction_failed''"

fun session_error_reason :: "session_extraction_error \<Rightarrow> string" where
  "session_error_reason (SexTranscript e) = transcript_error_reason e"
| "session_error_reason (SexExtraction e) = extraction_error_reason e"
| "session_error_reason (SexWriter e) = writer_error_reason e"
| "session_error_reason (SexEventPublication _) = ''event_publication_failed''"
| "session_error_reason (SexOrchestration _) = ''orchestration_failed''"

text \<open>The \<open>Display\<close> texts of the errors that are carried as text.\<close>

fun config_error_str :: "config_error \<Rightarrow> string" where
  "config_error_str (MissingValue field) = ''missing configuration: '' @ field"
| "config_error_str (InvalidValue field m) = ''invalid configuration for '' @ field @ '': '' @ m"

fun embedding_error_str :: "embedding_error \<Rightarrow> string" where
  "embedding_error_str (EmbProviderUnavailable m) = ''embedding provider unavailable: '' @ m"
| "embedding_error_str (EmbInvalidInput m) = ''embedding input is invalid: '' @ m"
| "embedding_error_str (EmbTimeout ms) = ''embedding request timed out after '' @ nat_str ms @ ''ms''"
| "embedding_error_str (EmbUnexpected m) = ''embedding failure: '' @ m"

fun extraction_error_str :: "extraction_error \<Rightarrow> string" where
  "extraction_error_str (ExtProviderUnavailable m) = ''extraction provider unavailable: '' @ m"
| "extraction_error_str (ExtInvalidTranscript m) = ''transcript payload is invalid: '' @ m"
| "extraction_error_str (ExtTimeout ms) = ''extraction request timed out after '' @ nat_str ms @ ''ms''"
| "extraction_error_str (ExtUnexpected m) = ''extraction failure: '' @ m"

fun scope_error_str :: "scope_error \<Rightarrow> string" where
  "scope_error_str (ResolverUnavailable m) = ''scope resolution unavailable: '' @ m"
| "scope_error_str (InvalidConfiguration m) = ''invalid scope configuration: '' @ m"
| "scope_error_str (ScopeUnexpected m) = ''scope resolution failure: '' @ m"

fun compilation_error_str :: "compilation_error \<Rightarrow> string" where
  "compilation_error_str (CompInvalidInput m) = ''context compilation input is invalid: '' @ m"
| "compilation_error_str (CompUnexpected m) = ''context compilation failure: '' @ m"

fun domain_error_str :: "domain_error \<Rightarrow> string" where
  "domain_error_str (InvalidIdentifier m) = ''invalid identifier: '' @ m"
| "domain_error_str (InvalidState m) = ''invalid state: '' @ m"
| "domain_error_str (ConfigErr e) = config_error_str e"
| "domain_error_str (EmbeddingErr e) = embedding_error_str e"
| "domain_error_str (ExtractionErr e) = extraction_error_str e"
| "domain_error_str (ScopeErr e) = scope_error_str e"
| "domain_error_str (CompilationErr e) = compilation_error_str e"

definition ticked :: "string \<Rightarrow> string" where
  "ticked s = [CHR 0x60] @ s @ [CHR 0x60]"

fun transcript_error_str :: "transcript_error \<Rightarrow> string" where
  "transcript_error_str (InvalidRoot m) = ''invalid transcript root: '' @ m"
| "transcript_error_str (InvalidReference m) = ''invalid transcript_ref: '' @ m"
| "transcript_error_str (ReadFailure p m) = ''unable to read transcript '' @ ticked p @ '': '' @ m"
| "transcript_error_str (TrInvalidPayload m) = ''invalid transcript payload: '' @ m"

fun writer_error_str :: "writer_error \<Rightarrow> string" where
  "writer_error_str (InvalidRepoPath m) = ''invalid repo_path: '' @ m"
| "writer_error_str (ScopeResolution m) = ''scope resolution failed: '' @ m"
| "writer_error_str (WriteFailure p m) = ''unable to write pending draft '' @ ticked p @ '': '' @ m"
| "writer_error_str (FrontmatterSerialization m) = ''pending draft frontmatter serialization failed: '' @ m"
| "writer_error_str (BatchValidation m) = ''pending draft batch validation failed: '' @ m"
| "writer_error_str (RejectedTombstonePresent p) = ''rejected tombstone blocks pending draft reproposal: '' @ ticked p"
| "writer_error_str (WriteDenied p) = ''write denied: path '' @ ticked p @ '' is outside write-allowed output roots''"
| "writer_error_str (MissingConfig m) = ''writer configuration error: '' @ m"

fun normalization_error_str :: "normalization_error \<Rightarrow> string" where
  "normalization_error_str (NormProviderFailure m) = ''normalizer LLM call failed: '' @ m"
| "normalization_error_str (NormParseFailure m) = ''normalizer response parse failed: '' @ m"

fun skeleton_error_str :: "skeleton_error \<Rightarrow> string" where
  "skeleton_error_str (LabelerFailed m) = ''labeler failed: '' @ m"

fun synthesis_error_str :: "synthesis_error \<Rightarrow> string" where
  "synthesis_error_str (SynthProviderFailure m) = ''synthesis LLM call failed: '' @ m"
| "synthesis_error_str (SynthParseFailure m) = ''synthesis response parse failed: '' @ m"

fun cosine_error_str :: "cosine_similarity_error \<Rightarrow> string" where
  "cosine_error_str (CosDimensionMismatch l r) =
     ''embedding dimension mismatch: left='' @ nat_str l @ '', right='' @ nat_str r"
| "cosine_error_str CosZeroMagnitude = ''cannot compare zero-magnitude embedding vectors''"

fun orchestration_error_str :: "orchestration_error \<Rightarrow> string" where
  "orchestration_error_str (PreambleNormalization e) = ''preamble normalization failed: '' @ normalization_error_str e"
| "orchestration_error_str (EpisodeExtraction e) = ''episode extraction failed: '' @ extraction_error_str e"
| "orchestration_error_str (SkeletonLabelErr e) = ''skeleton labeling failed: '' @ skeleton_error_str e"
| "orchestration_error_str (OrcEmbedding e) = ''candidate embedding failed: '' @ embedding_error_str e"
| "orchestration_error_str (CosineSimilarity e) = ''cosine similarity computation failed: '' @ cosine_error_str e"
| "orchestration_error_str (EquivalenceVerification m) = ''equivalence verification failed: '' @ m"
| "orchestration_error_str (Synthesis e) = ''synthesis pass failed: '' @ synthesis_error_str e"
| "orchestration_error_str (DraftWrite e) = ''draft writing failed: '' @ writer_error_str e"
| "orchestration_error_str EmptySession = ''session has no events to process''"
| "orchestration_error_str (AllWindowsFailed n es) = ''all '' @ nat_str n @
     '' map window(s) failed; extraction produced nothing. errors: ['' @ join '', '' (map debug_str es) @ '']''"

fun session_error_str :: "session_extraction_error \<Rightarrow> string" where
  "session_error_str (SexTranscript e) = transcript_error_str e"
| "session_error_str (SexExtraction e) = extraction_error_str e"
| "session_error_str (SexWriter e) = writer_error_str e"
| "session_error_str (SexEventPublication m) = ''lifecycle event publication failed: '' @ m"
| "session_error_str (SexOrchestration e) = ''orchestration pipeline failed: '' @ orchestration_error_str e"

section \<open>Provider, run path and routing tier\<close>

datatype extraction_provider = Claude | ClaudeCode | Ollama

fun provider_str :: "extraction_provider \<Rightarrow> string" where
  "provider_str ClaudeCode = ''claude-code''"
| "provider_str Claude = ''claude''"
| "provider_str Ollama = ''ollama''"

datatype init_error =
    InvalidProvider string
  | InvalidRunPath string
  | SeamInit string
  | InitTranscript transcript_error
  | InitWriter writer_error
  | InitExtraction extraction_error
  | InitRedis string
  | InitRouting string string

definition provider_from_str :: "string \<Rightarrow> (init_error, extraction_provider) result" where
  "provider_from_str raw =
     (let s = ascii_lower (trim raw) in
      if s = [] \<or> s = ''ollama'' then Ok Ollama
      else if s = ''claude'' \<or> s = ''claude-api'' then Ok Claude
      else if s = ''claude-code'' \<or> s = ''claude-cli'' then Ok ClaudeCode
      else Err (InvalidProvider s))"

datatype extraction_run_path = Orchestrated | SingleShot

fun run_path_str :: "extraction_run_path \<Rightarrow> string" where
  "run_path_str Orchestrated = ''orchestrated''"
| "run_path_str SingleShot = ''single-shot''"

definition run_path_from_str :: "string \<Rightarrow> (init_error, extraction_run_path) result" where
  "run_path_from_str raw =
     (let s = ascii_lower (trim raw) in
      if s = [] \<or> s = ''orchestrated'' then Ok Orchestrated
      else if s = ''single-shot'' \<or> s = ''legacy'' then Ok SingleShot
      else Err (InvalidRunPath s))"

datatype routing_tier = TierLocal | TierFrontier

fun tier_str :: "routing_tier \<Rightarrow> string" where
  "tier_str TierLocal = ''local''"
| "tier_str TierFrontier = ''frontier''"

definition local_tier_token_budget :: nat where "local_tier_token_budget = 8192"
definition frontier_tier_token_budget :: nat where "frontier_tier_token_budget = 40960"

definition token_budget_from_env :: "environment \<Rightarrow> string \<Rightarrow> nat \<Rightarrow> nat" where
  "token_budget_from_env env env_var dflt =
     (case Option.bind (env env_var) (\<lambda>raw. parse_unsigned 64 (trim raw)) of
        Some v \<Rightarrow> if 0 < v then v else dflt
      | None \<Rightarrow> dflt)"

record routing_decision =
  rd_tier :: routing_tier
  rd_provider :: extraction_provider
  rd_token_budget :: nat
  rd_dual_pass :: bool

definition compute_routing_decision :: "environment \<Rightarrow> extraction_provider \<Rightarrow> routing_decision" where
  "compute_routing_decision env provider =
     (let routing = ascii_lower (trim (case env ''EXTRACT_SESSION_ROUTING'' of None \<Rightarrow> [] | Some raw \<Rightarrow> raw));
          aware = (case provider of Ollama \<Rightarrow> TierLocal | _ \<Rightarrow> TierFrontier);
          tier = (if routing = [] \<or> routing = ''tiered'' then aware
                  else if routing = ''local'' then TierLocal
                  else if routing = ''frontier'' then TierFrontier
                  else aware);
          (budget, dual) = (case tier of
              TierFrontier \<Rightarrow> (token_budget_from_env env ''EXTRACT_SESSION_FRONTIER_TOKEN_BUDGET'' frontier_tier_token_budget, True)
            | TierLocal \<Rightarrow> (token_budget_from_env env ''EXTRACT_SESSION_LOCAL_TOKEN_BUDGET'' local_tier_token_budget, False))
      in \<lparr>rd_tier = tier, rd_provider = provider, rd_token_budget = budget, rd_dual_pass = dual\<rparr>)"

definition bool_str :: "bool \<Rightarrow> string" where
  "bool_str b = (if b then ''true'' else ''false'')"

definition routing_summary :: "routing_decision \<Rightarrow> string" where
  "routing_summary d = ''tier='' @ tier_str (rd_tier d) @ '' provider='' @ provider_str (rd_provider d) @
     '' token_budget='' @ nat_str (rd_token_budget d) @ '' dual_pass='' @ bool_str (rd_dual_pass d)"

text \<open>The message of \<open>ParseIntError\<close> for a 64-bit unsigned integer that does not parse; the digits are read from
  the left, so an overflow is reported before a later invalid digit.\<close>

definition parse_int_error :: "string \<Rightarrow> string" where
  "parse_int_error s =
     (let ds = (case s of c # cs \<Rightarrow> if c = CHR ''+'' then cs else s | [] \<Rightarrow> []) in
      if s = [] then ''cannot parse integer from empty string''
      else if 2 ^ 64 \<le> digits_val (takeWhile is_digit ds) then ''number too large to fit in target type''
      else ''invalid digit found in string'')"

text \<open>The ceiling of a job in milliseconds: \<open>Some None\<close> is the explicit \<open>0\<close>, no ceiling.\<close>

definition job_timeout_override :: "environment \<Rightarrow> (init_error, nat option option) result" where
  "job_timeout_override env =
     (case env ''EXTRACTION_JOB_TIMEOUT_MS'' of
        None \<Rightarrow> Ok None
      | Some raw \<Rightarrow> (case parse_unsigned 64 (trim raw) of
            None \<Rightarrow> Err (SeamInit (''invalid EXTRACTION_JOB_TIMEOUT_MS value '' @ debug_str raw @ '': '' @ parse_int_error (trim raw)))
          | Some ms \<Rightarrow> Ok (Some (if ms = 0 then None else Some ms))))"

section \<open>Paths\<close>

definition path_parse :: "string \<Rightarrow> path" where
  "path_parse s = (if prefix ''/'' s then [''/''] else []) @
     filter (\<lambda>c. c \<noteq> [] \<and> c \<noteq> ''.'') (split_on (\<lambda>c. c = CHR ''/'') s)"

definition path_is_absolute :: "path \<Rightarrow> bool" where
  "path_is_absolute p = (case p of [] \<Rightarrow> False | c # _ \<Rightarrow> c = ''/'')"

definition path_display :: "path \<Rightarrow> string" where
  "path_display p = (if path_is_absolute p then ''/'' @ join ''/'' (tl p) else join ''/'' p)"

text \<open>Drafts are published relative to their scope root: from the first \<open>.skills\<close> component on.\<close>

definition relative_draft_path :: "path \<Rightarrow> string" where
  "relative_draft_path p =
     (let rel = dropWhile (\<lambda>c. c \<noteq> ''.skills'') p in
      if rel \<noteq> [] then path_display rel
      else (case file_name p of Some n \<Rightarrow> n | None \<Rightarrow> path_display p))"

end
