(* ===== verification/Worker_Pool.thy ===== *)
theory Worker_Pool
  imports Extraction_Model Circuit_Breaker
begin

text \<open>
  The extraction worker pool (\<open>session-extractor/src/worker\_pool.rs\<close>): a bounded queue of jobs and a
  fixed number of workers.  Every operation of the code is one function on the pool: submitting,
  receiving, the end of a run, the ceiling, and the requeue after the backoff.  What the extractor
  answers, and when a ceiling elapses, is chosen by the step.  The response channel of a job is the
  number its submission was given; a job is identified by it, since job names come from the caller.
  Worker panics are outside the model.
\<close>

section \<open>Configuration\<close>

record pool_config =
  wpc_queue_depth :: nat
  wpc_max_concurrent :: nat
  wpc_timeout :: "nat option"
  wpc_retry_policy :: retry_policy

definition pool_config_default :: pool_config where
  "pool_config_default = \<lparr>wpc_queue_depth = 64, wpc_max_concurrent = 4, wpc_timeout = None,
     wpc_retry_policy = retry_policy_default\<rparr>"

definition with_queue_depth :: "nat \<Rightarrow> pool_config \<Rightarrow> pool_config" where
  "with_queue_depth n c = c\<lparr>wpc_queue_depth := n\<rparr>"

definition with_max_concurrent :: "nat \<Rightarrow> pool_config \<Rightarrow> pool_config" where
  "with_max_concurrent n c = c\<lparr>wpc_max_concurrent := n\<rparr>"

definition with_timeout :: "nat \<Rightarrow> pool_config \<Rightarrow> pool_config" where
  "with_timeout t c = c\<lparr>wpc_timeout := Some t\<rparr>"

definition with_optional_timeout :: "nat option \<Rightarrow> pool_config \<Rightarrow> pool_config" where
  "with_optional_timeout t c = c\<lparr>wpc_timeout := t\<rparr>"

definition with_retry_policy :: "retry_policy \<Rightarrow> pool_config \<Rightarrow> pool_config" where
  "with_retry_policy p c = c\<lparr>wpc_retry_policy := p\<rparr>"

section \<open>Jobs, workers and the pool\<close>

record extraction_job =
  xj_provider :: extraction_provider
  xj_job_id :: string
  xj_request :: extract_session_request
  xj_response_tx :: nat
  xj_ceiling_hits :: nat

datatype extraction_outcome = Completed "path list" string | Failed session_extraction_error

text \<open>The terminal lifecycle events a worker publishes.\<close>

datatype terminal_event =
    ExtractionCompleted string "path list" string
  | ExtractionFailed string string
  | CeilingExhausted string

datatype worker = Idle | Running extraction_job | Backoff extraction_job nat

record pool =
  wp_queue :: "extraction_job list"
  wp_workers :: "worker list"
  wp_next_tx :: nat
  wp_events :: "(nat \<times> terminal_event) list"
  wp_responses :: "(nat \<times> extract_session_response) list"

definition pool_new :: "pool_config \<Rightarrow> pool" where
  "pool_new config = \<lparr>wp_queue = [], wp_workers = replicate (max (wpc_max_concurrent config) 1) Idle,
     wp_next_tx = 0, wp_events = [], wp_responses = []\<rparr>"

text \<open>
  \<open>try_send\<close>.  Each worker holds a sender and a receiver of the channel, and there is a worker, so
  the channel is never closed and the only refusal is a full queue.
\<close>

definition try_send :: "pool_config \<Rightarrow> extraction_job \<Rightarrow> pool \<Rightarrow> pool option" where
  "try_send config job p =
     (if length (wp_queue p) < max (wpc_queue_depth config) 1 then Some (p\<lparr>wp_queue := wp_queue p @ [job]\<rparr>)
      else None)"

definition submit ::
  "pool_config \<Rightarrow> extraction_provider \<Rightarrow> string \<Rightarrow> extract_session_request \<Rightarrow> pool \<Rightarrow>
     (extract_session_response, nat) result \<times> pool" where
  "submit config provider job_id request p =
     (let job = \<lparr>xj_provider = provider, xj_job_id = job_id, xj_request = request,
                 xj_response_tx = wp_next_tx p, xj_ceiling_hits = 0\<rparr>
      in case try_send config job p of
           Some p' \<Rightarrow> (Ok (wp_next_tx p), p'\<lparr>wp_next_tx := Suc (wp_next_tx p)\<rparr>)
         | None \<Rightarrow> (Err \<lparr>esr_status = ''rejected'', esr_reason_code = Some ''extraction_queue_full'',
                          esr_job_id = None, esr_provider = Some (provider_str provider)\<rparr>, p))"

section \<open>The worker loop\<close>

definition job_response :: "extraction_job \<Rightarrow> string \<Rightarrow> string option \<Rightarrow> extract_session_response" where
  "job_response job status reason = \<lparr>esr_status = status, esr_reason_code = reason,
     esr_job_id = Some (xj_job_id job), esr_provider = Some (provider_str (xj_provider job))\<rparr>"

definition finish_job :: "nat \<Rightarrow> extraction_job \<Rightarrow> terminal_event \<Rightarrow> extract_session_response \<Rightarrow> pool \<Rightarrow> pool" where
  "finish_job w job event response p = p\<lparr>wp_workers := (wp_workers p)[w := Idle],
     wp_events := wp_events p @ [(xj_response_tx job, event)],
     wp_responses := wp_responses p @ [(xj_response_tx job, response)]\<rparr>"

definition exhausted_reason :: string where
  "exhausted_reason = ''extraction_timed_out_retries_exhausted''"

definition exhaust_job :: "nat \<Rightarrow> extraction_job \<Rightarrow> pool \<Rightarrow> pool" where
  "exhaust_job w job = finish_job w job (CeilingExhausted (xj_job_id job))
     (job_response job ''failed'' (Some exhausted_reason))"

definition worker_at :: "pool \<Rightarrow> nat \<Rightarrow> worker option" where
  "worker_at p w = nth_opt (wp_workers p) w"

definition worker_recv :: "nat \<Rightarrow> pool \<Rightarrow> pool option" where
  "worker_recv w p =
     (case (worker_at p w, wp_queue p) of
        (Some Idle, job # rest) \<Rightarrow> Some (p\<lparr>wp_queue := rest, wp_workers := (wp_workers p)[w := Running job]\<rparr>)
      | _ \<Rightarrow> None)"

definition worker_outcome :: "nat \<Rightarrow> extraction_outcome \<Rightarrow> pool \<Rightarrow> pool option" where
  "worker_outcome w res p =
     (case worker_at p w of
        Some (Running job) \<Rightarrow> Some (case res of
            Completed draft_paths session \<Rightarrow>
              finish_job w job (ExtractionCompleted (xj_job_id job) draft_paths session)
                (job_response job ''completed'' None) p
          | Failed e \<Rightarrow>
              finish_job w job (ExtractionFailed (xj_job_id job) (session_error_reason e))
                (job_response job ''failed'' (Some (session_error_reason e))) p)
      | _ \<Rightarrow> None)"

text \<open>The ceiling: a wait with the linear backoff of the policy, or the terminal failure.\<close>

definition ceiling_backoff :: "retry_policy \<Rightarrow> nat \<Rightarrow> nat" where
  "ceiling_backoff policy next_hits =
     min (rp_base_delay policy * next_hits + next_hits * 7) (rp_max_delay policy)"

definition worker_elapsed :: "pool_config \<Rightarrow> nat \<Rightarrow> pool \<Rightarrow> pool option" where
  "worker_elapsed config w p =
     (case (wpc_timeout config, worker_at p w) of
        (Some _, Some (Running job)) \<Rightarrow>
          (let next_hits = xj_ceiling_hits job + 1; policy = wpc_retry_policy config in
           Some (if next_hits < rp_max_attempts policy
                 then p\<lparr>wp_workers := (wp_workers p)[w := Backoff job (ceiling_backoff policy next_hits)]\<rparr>
                 else exhaust_job w job p))
      | _ \<Rightarrow> None)"

definition worker_requeue :: "pool_config \<Rightarrow> nat \<Rightarrow> pool \<Rightarrow> pool option" where
  "worker_requeue config w p =
     (case worker_at p w of
        Some (Backoff job _) \<Rightarrow>
          (let job' = job\<lparr>xj_ceiling_hits := xj_ceiling_hits job + 1\<rparr> in
           Some (case try_send config job' p of
               Some p' \<Rightarrow> p'\<lparr>wp_workers := (wp_workers p')[w := Idle]\<rparr>
             | None \<Rightarrow> exhaust_job w job' p))
      | _ \<Rightarrow> None)"

section \<open>Runs of the pool\<close>

inductive worker_step :: "pool_config \<Rightarrow> pool \<Rightarrow> pool \<Rightarrow> bool" for config where
  ws_recv: "worker_recv w p = Some p' \<Longrightarrow> worker_step config p p'"
| ws_outcome: "worker_outcome w res p = Some p' \<Longrightarrow> worker_step config p p'"
| ws_elapsed: "worker_elapsed config w p = Some p' \<Longrightarrow> worker_step config p p'"
| ws_requeue: "worker_requeue config w p = Some p' \<Longrightarrow> worker_step config p p'"

inductive pool_reachable :: "pool_config \<Rightarrow> pool \<Rightarrow> bool" for config where
  pr_new: "pool_reachable config (pool_new config)"
| pr_submit: "pool_reachable config p \<Longrightarrow>
    pool_reachable config (snd (submit config provider job_id request p))"
| pr_worker: "pool_reachable config p \<Longrightarrow> worker_step config p p' \<Longrightarrow> pool_reachable config p'"

fun worker_jobs :: "worker \<Rightarrow> extraction_job list" where
  "worker_jobs Idle = []"
| "worker_jobs (Running job) = [job]"
| "worker_jobs (Backoff job _) = [job]"

definition live_jobs :: "pool \<Rightarrow> extraction_job list" where
  "live_jobs p = wp_queue p @ concat (map worker_jobs (wp_workers p))"

definition max_hits :: "pool_config \<Rightarrow> nat" where
  "max_hits config = max 1 (rp_max_attempts (wpc_retry_policy config))"

fun worker_ok :: "pool_config \<Rightarrow> worker \<Rightarrow> bool" where
  "worker_ok config Idle = True"
| "worker_ok config (Running job) = (xj_ceiling_hits job < max_hits config)"
| "worker_ok config (Backoff job wait) =
     (xj_ceiling_hits job + 1 < max_hits config \<and> wait \<le> rp_max_delay (wpc_retry_policy config))"

definition pool_inv :: "pool_config \<Rightarrow> pool \<Rightarrow> bool" where
  "pool_inv config p \<longleftrightarrow>
     mset (map xj_response_tx (live_jobs p)) + mset (map fst (wp_events p)) = mset [0..<wp_next_tx p] \<and>
     map fst (wp_responses p) = map fst (wp_events p) \<and>
     length (wp_queue p) \<le> max (wpc_queue_depth config) 1 \<and>
     length (wp_workers p) = max (wpc_max_concurrent config) 1 \<and>
     (\<forall>job \<in> set (wp_queue p). xj_ceiling_hits job < max_hits config) \<and>
     (\<forall>w \<in> set (wp_workers p). worker_ok config w)"

lemma mset_worker_update:
  assumes "i < length ws"
  shows "mset (map f (concat (map worker_jobs (ws[i := w])))) + mset (map f (worker_jobs (ws ! i))) =
    mset (map f (concat (map worker_jobs ws))) + mset (map f (worker_jobs w))"
proof -
  have "ws = take i ws @ ws ! i # drop (Suc i) ws" using assms by (rule id_take_nth_drop)
  then have "mset (map f (concat (map worker_jobs ws))) =
      mset (map f (concat (map worker_jobs (take i ws @ ws ! i # drop (Suc i) ws))))" by simp
  then show ?thesis using assms by (simp add: upd_conv_take_nth_drop)
qed

lemma worker_at_iff: "worker_at p i = Some w \<longleftrightarrow> i < length (wp_workers p) \<and> wp_workers p ! i = w"
  by (auto simp: worker_at_def nth_opt_def split: if_splits)

lemma worker_ok_at: "\<lbrakk>pool_inv config p; worker_at p i = Some w\<rbrakk> \<Longrightarrow> worker_ok config w"
  by (auto simp: pool_inv_def worker_at_iff)

lemma workers_ok_update:
  "\<lbrakk>\<forall>v \<in> set ws. worker_ok config v; worker_ok config w\<rbrakk> \<Longrightarrow> \<forall>v \<in> set (ws[i := w]). worker_ok config v"
  using set_update_subset_insert by fastforce

text \<open>One lemma per move: what becomes of the jobs, the rest of the invariant being immediate.\<close>

lemma finish_job_inv:
  assumes "pool_inv config p" and "worker_at p i = Some w" and "worker_jobs w = [job']" "xj_response_tx job' = xj_response_tx job"
  shows "pool_inv config (finish_job i job e r p)"
proof -
  have "mset (map xj_response_tx (concat (map worker_jobs ((wp_workers p)[i := Idle])))) + {#xj_response_tx job#} =
      mset (map xj_response_tx (concat (map worker_jobs (wp_workers p))))"
    using mset_worker_update [of i "wp_workers p" xj_response_tx Idle] assms(2-4) by (simp add: worker_at_iff)
  then have eq: "mset (map xj_response_tx (live_jobs (finish_job i job e r p))) + mset (map fst (wp_events (finish_job i job e r p))) =
      mset (map xj_response_tx (live_jobs p)) + mset (map fst (wp_events p))"
    by (simp add: live_jobs_def finish_job_def)
  show ?thesis using assms(1) workers_ok_update [of "wp_workers p" config Idle i]
    unfolding pool_inv_def eq by (simp add: finish_job_def)
qed

lemma move_job_inv:
  assumes inv: "pool_inv config p" and at: "worker_at p i = Some w" and ok: "worker_ok config w'"
    and jobs: "mset (map xj_response_tx q') + mset (map xj_response_tx (worker_jobs w')) =
      mset (map xj_response_tx (wp_queue p)) + mset (map xj_response_tx (worker_jobs w))"
    and q: "length q' \<le> max (wpc_queue_depth config) 1" "\<forall>job \<in> set q'. xj_ceiling_hits job < max_hits config"
  shows "pool_inv config (p\<lparr>wp_queue := q', wp_workers := (wp_workers p)[i := w']\<rparr>)"
proof -
  let ?c = "\<lambda>ws. mset (map xj_response_tx (concat (map worker_jobs ws)))"
  have u: "?c ((wp_workers p)[i := w']) + mset (map xj_response_tx (worker_jobs w)) =
      ?c (wp_workers p) + mset (map xj_response_tx (worker_jobs w'))"
    using mset_worker_update [of i "wp_workers p" xj_response_tx w'] at by (simp add: worker_at_iff)
  have "mset (map xj_response_tx q') + ?c ((wp_workers p)[i := w']) =
      mset (map xj_response_tx (wp_queue p)) + ?c (wp_workers p)"
    (is "?a + ?b = ?d + ?e")
  proof -
    have "(?a + ?b) + mset (map xj_response_tx (worker_jobs w)) =
        ?a + (?e + mset (map xj_response_tx (worker_jobs w')))" using u by (simp only: add.assoc)
    also have "\<dots> = (?a + mset (map xj_response_tx (worker_jobs w'))) + ?e" by (simp only: ac_simps)
    also have "\<dots> = (?d + ?e) + mset (map xj_response_tx (worker_jobs w))" unfolding jobs by (simp only: ac_simps)
    finally show ?thesis by (simp only: add_right_cancel)
  qed
  then show ?thesis using inv q workers_ok_update [OF _ ok, of "wp_workers p" i]
    by (simp add: pool_inv_def live_jobs_def)
qed

lemma try_send_Some:
  "try_send config job p = Some p' \<longleftrightarrow>
     length (wp_queue p) < max (wpc_queue_depth config) 1 \<and> p' = p\<lparr>wp_queue := wp_queue p @ [job]\<rparr>"
  by (auto simp: try_send_def)

lemma submit_inv: "pool_inv config p \<Longrightarrow> pool_inv config (snd (submit config provider job_id request p))"
  by (auto simp: submit_def Let_def try_send_def pool_inv_def live_jobs_def max_hits_def simp del: mset_upt)

lemma worker_recv_inv:
  assumes "pool_inv config p" and "worker_recv i p = Some p'"
  shows "pool_inv config p'"
proof -
  obtain job rest where at: "worker_at p i = Some Idle" and q: "wp_queue p = job # rest"
    and p': "p' = p\<lparr>wp_queue := rest, wp_workers := (wp_workers p)[i := Running job]\<rparr>"
    using assms(2) by (auto simp: worker_recv_def split: option.splits worker.splits list.splits)
  show ?thesis unfolding p' using assms(1) q by (intro move_job_inv [OF assms(1) at]) (auto simp: pool_inv_def)
qed

lemma worker_outcome_inv: "\<lbrakk>pool_inv config p; worker_outcome i res p = Some p'\<rbrakk> \<Longrightarrow> pool_inv config p'"
  unfolding worker_outcome_def
  by (auto split: option.splits worker.splits extraction_outcome.splits intro!: finish_job_inv)

lemma worker_elapsed_inv:
  assumes "pool_inv config p" and "worker_elapsed config i p = Some p'"
  shows "pool_inv config p'"
proof -
  obtain job where at: "worker_at p i = Some (Running job)"
    and p': "p' = (if xj_ceiling_hits job + 1 < rp_max_attempts (wpc_retry_policy config)
       then p\<lparr>wp_workers := (wp_workers p)[i := Backoff job (ceiling_backoff (wpc_retry_policy config) (xj_ceiling_hits job + 1))]\<rparr>
       else exhaust_job i job p)"
    using assms(2) by (auto simp: worker_elapsed_def Let_def split: option.splits worker.splits)
  show ?thesis
  proof (cases "xj_ceiling_hits job + 1 < rp_max_attempts (wpc_retry_policy config)")
    case True
    then have "pool_inv config (p\<lparr>wp_queue := wp_queue p,
        wp_workers := (wp_workers p)[i := Backoff job (ceiling_backoff (wpc_retry_policy config) (xj_ceiling_hits job + 1))]\<rparr>)"
      using assms(1) by (intro move_job_inv [OF assms(1) at]) (auto simp: max_hits_def ceiling_backoff_def pool_inv_def)
    with p' True show ?thesis by simp
  next
    case False
    with p' finish_job_inv [OF assms(1) at] show ?thesis by (simp add: exhaust_job_def)
  qed
qed

lemma worker_requeue_inv:
  assumes "pool_inv config p" and "worker_requeue config i p = Some p'"
  shows "pool_inv config p'"
proof -
  obtain job wait where at: "worker_at p i = Some (Backoff job wait)"
    and p': "p' = (case try_send config (job\<lparr>xj_ceiling_hits := xj_ceiling_hits job + 1\<rparr>) p of
        Some q \<Rightarrow> q\<lparr>wp_workers := (wp_workers q)[i := Idle]\<rparr>
      | None \<Rightarrow> exhaust_job i (job\<lparr>xj_ceiling_hits := xj_ceiling_hits job + 1\<rparr>) p)"
    using assms(2) by (auto simp: worker_requeue_def Let_def split: option.splits worker.splits)
  show ?thesis
  proof (cases "length (wp_queue p) < max (wpc_queue_depth config) 1")
    case True
    have "pool_inv config (p\<lparr>wp_queue := wp_queue p @ [job\<lparr>xj_ceiling_hits := xj_ceiling_hits job + 1\<rparr>],
        wp_workers := (wp_workers p)[i := Idle]\<rparr>)"
      using assms(1) True worker_ok_at [OF assms(1) at]
      by (intro move_job_inv [OF assms(1) at]) (auto simp: pool_inv_def)
    with p' True show ?thesis by (simp add: try_send_def)
  next
    case False
    with p' finish_job_inv [OF assms(1) at, of job "job\<lparr>xj_ceiling_hits := xj_ceiling_hits job + 1\<rparr>"]
    show ?thesis by (simp add: exhaust_job_def try_send_def)
  qed
qed

lemmas worker_moves_inv = worker_recv_inv worker_outcome_inv worker_elapsed_inv worker_requeue_inv

lemma worker_step_inv: "\<lbrakk>worker_step config p p'; pool_inv config p\<rbrakk> \<Longrightarrow> pool_inv config p'"
  by (cases rule: worker_step.cases) (auto intro: worker_moves_inv)

lemma pool_new_inv: "pool_inv config (pool_new config)"
  by (auto simp: pool_inv_def pool_new_def live_jobs_def)

lemma pool_reachable_inv: "pool_reachable config p \<Longrightarrow> pool_inv config p"
  by (induction rule: pool_reachable.induct) (auto intro: pool_new_inv submit_inv worker_step_inv)

section \<open>Progress\<close>

text \<open>A bound on the steps a job still takes: three per remaining ceiling.\<close>

definition job_weight :: "pool_config \<Rightarrow> extraction_job \<Rightarrow> nat" where
  "job_weight config job = 3 * (max_hits config - xj_ceiling_hits job)"

fun worker_weight :: "pool_config \<Rightarrow> worker \<Rightarrow> nat" where
  "worker_weight config Idle = 0"
| "worker_weight config (Running job) = job_weight config job - 1"
| "worker_weight config (Backoff job _) = job_weight config job - 2"

definition pool_weight :: "pool_config \<Rightarrow> pool \<Rightarrow> nat" where
  "pool_weight config p = (\<Sum>job \<leftarrow> wp_queue p. job_weight config job) + (\<Sum>w \<leftarrow> wp_workers p. worker_weight config w)"

lemma worker_weight_update:
  assumes "worker_at p i = Some w"
  shows "(\<Sum>v \<leftarrow> (wp_workers p)[i := w']. worker_weight config v) + worker_weight config w =
    (\<Sum>v \<leftarrow> wp_workers p. worker_weight config v) + worker_weight config w'"
proof -
  have i: "i < length (wp_workers p)" "wp_workers p ! i = w" using assms by (auto simp: worker_at_iff)
  then have "wp_workers p = take i (wp_workers p) @ w # drop (Suc i) (wp_workers p)" by (metis id_take_nth_drop)
  then have "(\<Sum>v \<leftarrow> wp_workers p. worker_weight config v) =
      (\<Sum>v \<leftarrow> take i (wp_workers p) @ w # drop (Suc i) (wp_workers p). worker_weight config v)" by simp
  then show ?thesis using i(1) by (simp add: upd_conv_take_nth_drop)
qed

lemma finish_job_weight:
  "\<lbrakk>worker_at p i = Some w; 0 < worker_weight config w\<rbrakk> \<Longrightarrow> pool_weight config (finish_job i job e r p) < pool_weight config p"
  using worker_weight_update [of p i w config Idle] by (simp add: pool_weight_def finish_job_def)

lemma running_weight: "worker_ok config (Running job) \<Longrightarrow> 2 \<le> worker_weight config (Running job)"
  by (simp add: job_weight_def)

lemma backoff_weight: "worker_ok config (Backoff job wait) \<Longrightarrow> 2 \<le> worker_weight config (Backoff job wait)"
  by (auto simp: job_weight_def)

lemma worker_step_weight:
  assumes "worker_step config p p'" and inv: "pool_inv config p"
  shows "pool_weight config p' < pool_weight config p"
  using assms(1)
proof cases
  case (ws_recv i)
  then obtain job rest where at: "worker_at p i = Some Idle" and q: "wp_queue p = job # rest"
    and p': "p' = p\<lparr>wp_queue := rest, wp_workers := (wp_workers p)[i := Running job]\<rparr>"
    by (auto simp: worker_recv_def split: option.splits worker.splits list.splits)
  have "xj_ceiling_hits job < max_hits config" using inv q by (simp add: pool_inv_def)
  then show ?thesis using worker_weight_update [OF at, of config "Running job"] q p'
    by (simp add: pool_weight_def job_weight_def)
next
  case (ws_outcome i res)
  then obtain job e r where at: "worker_at p i = Some (Running job)" and p': "p' = finish_job i job e r p"
    by (auto simp: worker_outcome_def split: option.splits worker.splits extraction_outcome.splits)
  show ?thesis unfolding p' using running_weight [OF worker_ok_at [OF inv at]]
    by (intro finish_job_weight [OF at]) simp
next
  case (ws_elapsed i)
  then obtain job where at: "worker_at p i = Some (Running job)"
    and p': "(\<exists>t. p' = p\<lparr>wp_workers := (wp_workers p)[i := Backoff job t]\<rparr>) \<or> p' = exhaust_job i job p"
    by (auto simp: worker_elapsed_def Let_def split: option.splits worker.splits if_splits)
  note w = running_weight [OF worker_ok_at [OF inv at]]
  from p' show ?thesis
  proof
    assume "\<exists>t. p' = p\<lparr>wp_workers := (wp_workers p)[i := Backoff job t]\<rparr>"
    then obtain t where "p' = p\<lparr>wp_workers := (wp_workers p)[i := Backoff job t]\<rparr>" by blast
    then show ?thesis using worker_weight_update [OF at, of config "Backoff job t"] w by (simp add: pool_weight_def)
  qed (use w finish_job_weight [OF at] in \<open>simp add: exhaust_job_def\<close>)
next
  case (ws_requeue i)
  then obtain job t where at: "worker_at p i = Some (Backoff job t)"
    and p': "p' = (case try_send config (job\<lparr>xj_ceiling_hits := xj_ceiling_hits job + 1\<rparr>) p of
        Some q \<Rightarrow> q\<lparr>wp_workers := (wp_workers q)[i := Idle]\<rparr>
      | None \<Rightarrow> exhaust_job i (job\<lparr>xj_ceiling_hits := xj_ceiling_hits job + 1\<rparr>) p)"
    by (auto simp: worker_requeue_def Let_def split: option.splits worker.splits)
  note ok = worker_ok_at [OF inv at]
  show ?thesis
  proof (cases "length (wp_queue p) < max (wpc_queue_depth config) 1")
    case True
    then show ?thesis using worker_weight_update [OF at, of config Idle] ok p'
      by (auto simp: pool_weight_def try_send_def job_weight_def)
  next
    case False
    then show ?thesis using p' backoff_weight [OF ok] finish_job_weight [OF at]
      by (simp add: exhaust_job_def try_send_def)
  qed
qed

lemma worker_step_next_tx: "worker_step config p p' \<Longrightarrow> wp_next_tx p' = wp_next_tx p"
  by (cases rule: worker_step.cases)
    (auto simp: worker_recv_def worker_outcome_def worker_elapsed_def worker_requeue_def Let_def finish_job_def
      exhaust_job_def try_send_def split: option.splits worker.splits list.splits extraction_outcome.splits if_splits)

lemma live_jobs_step:
  assumes "pool_inv config p" and "live_jobs p \<noteq> []"
  shows "\<exists>p'. worker_step config p p'"
proof (cases "\<exists>i w. worker_at p i = Some w \<and> w \<noteq> Idle")
  case True
  then obtain i w where "worker_at p i = Some w" "w \<noteq> Idle" by blast
  then have "worker_outcome i (Completed [] []) p \<noteq> None \<or> worker_requeue config i p \<noteq> None"
    by (cases w) (auto simp: worker_outcome_def worker_requeue_def Let_def)
  then show ?thesis by (auto intro: ws_outcome ws_requeue)
next
  case False
  then have "\<forall>w \<in> set (wp_workers p). w = Idle" by (auto simp: worker_at_iff in_set_conv_nth)
  then have "wp_queue p \<noteq> []" using assms(2) by (force simp: live_jobs_def)
  moreover have "0 < length (wp_workers p)" using assms(1) by (auto simp: pool_inv_def)
  then have "worker_at p 0 = Some Idle" using False by (auto simp: worker_at_iff)
  ultimately have "worker_recv 0 p \<noteq> None" by (auto simp: worker_recv_def neq_Nil_conv)
  then show ?thesis by (auto intro: ws_recv)
qed

lemma worker_run_inv:
  "\<lbrakk>(worker_step config ^^ n) p p'; pool_inv config p\<rbrakk> \<Longrightarrow>
     pool_inv config p' \<and> wp_next_tx p' = wp_next_tx p \<and> n + pool_weight config p' \<le> pool_weight config p"
proof (induction n arbitrary: p')
  case (Suc n)
  then obtain q where q: "(worker_step config ^^ n) p q" "worker_step config q p'" by auto
  with Suc have "pool_inv config q" "wp_next_tx q = wp_next_tx p" "n + pool_weight config q \<le> pool_weight config p"
    by blast+
  with worker_step_inv [OF q(2)] worker_step_next_tx [OF q(2)] worker_step_weight [OF q(2)] show ?case by simp
qed simp

section \<open>Properties\<close>

text \<open>C8: In every reachable state each job accepted so far is in exactly one place: once in the queue or with one worker, or answered with exactly one terminal event and one response; the queue stays within its depth, the workers keep their number, and no waiting worker waits longer than the policy allows.\<close>

theorem accepted_job_answered_once:
  assumes "pool_reachable config p"
  shows "mset (map xj_response_tx (live_jobs p)) + mset (map fst (wp_events p)) = mset [0..<wp_next_tx p] \<and>
    map fst (wp_responses p) = map fst (wp_events p) \<and>
    length (wp_queue p) \<le> max (wpc_queue_depth config) 1 \<and>
    length (wp_workers p) = max (wpc_max_concurrent config) 1 \<and>
    (\<forall>job wait. Backoff job wait \<in> set (wp_workers p) \<longrightarrow> wait \<le> rp_max_delay (wpc_retry_policy config))"
  using pool_reachable_inv [OF assms] by (fastforce simp: pool_inv_def)

text \<open>C28: Without further submissions the workers settle: from a reachable state every run of worker steps is bounded by the remaining work, whatever the extractor answers and whenever ceilings elapse, and where no step is left every accepted job has its terminal event and its response.\<close>

theorem pool_settles:
  assumes "pool_reachable config p" and "(worker_step config ^^ n) p p'"
  shows "n \<le> pool_weight config p \<and>
    ((\<exists>q. worker_step config p' q) \<or>
     (live_jobs p' = [] \<and> mset (map fst (wp_events p')) = mset [0..<wp_next_tx p] \<and>
      mset (map fst (wp_responses p')) = mset [0..<wp_next_tx p]))"
proof -
  note run = worker_run_inv [OF assms(2) pool_reachable_inv [OF assms(1)]]
  have "live_jobs p' = []" if "\<not> (\<exists>q. worker_step config p' q)" using live_jobs_step [of config p'] run that by blast
  with run show ?thesis by (force simp: pool_inv_def simp del: mset_upt mset_map)
qed

definition sample_job :: extract_session_request where
  "sample_job = \<lparr>esq_transcript_ref = ''t.jsonl'', esq_transcript_inline = None, esq_session_id = ''s'', esq_repo_path = None\<rparr>"

definition small_pool :: pool_config where
  "small_pool = with_timeout 1000 (with_max_concurrent 1 (with_queue_depth 1 pool_config_default))"

definition one_running :: pool where
  "one_running = (case worker_recv 0 (snd (submit small_pool Ollama ''a'' sample_job (pool_new small_pool))) of Some p \<Rightarrow> p)"

definition one_waiting :: pool where
  "one_waiting = (case worker_elapsed small_pool 0 one_running of Some p \<Rightarrow> p)"

text \<open>The first job has met one ceiling while a second took the only place of the queue.\<close>

definition first_refused :: pool where
  "first_refused = (case worker_requeue small_pool 0 (snd (submit small_pool Ollama ''b'' sample_job one_waiting)) of Some p \<Rightarrow> p)"

lemmas small_pool_simps = small_pool_def with_timeout_def with_max_concurrent_def with_queue_depth_def pool_config_default_def
  retry_policy_default_def

lemma one_running_step: "worker_recv 0 (snd (submit small_pool Ollama ''a'' sample_job (pool_new small_pool))) = Some one_running"
  by (simp add: one_running_def small_pool_simps submit_def pool_new_def try_send_def worker_recv_def worker_at_def nth_opt_def)

lemmas one_running_eq = one_running_def small_pool_simps submit_def pool_new_def try_send_def worker_recv_def worker_at_def nth_opt_def

lemma one_waiting_step: "worker_elapsed small_pool 0 one_running = Some one_waiting"
  by (simp add: one_waiting_def worker_elapsed_def one_running_eq)

lemmas one_waiting_eq = one_waiting_def worker_elapsed_def one_running_eq

lemma first_refused_step: "worker_requeue small_pool 0 (snd (submit small_pool Ollama ''b'' sample_job one_waiting)) = Some first_refused"
  by (simp add: first_refused_def worker_requeue_def one_waiting_eq finish_job_def exhaust_job_def)

lemma one_running_reachable: "pool_reachable small_pool one_running"
  using pr_worker [OF pr_submit [OF pr_new] ws_recv [OF one_running_step]] .

lemma first_refused_reachable: "pool_reachable small_pool first_refused"
  using pr_worker [OF pr_submit [OF pr_worker [OF one_running_reachable ws_elapsed [OF one_waiting_step]]]
    ws_requeue [OF first_refused_step]] .

text \<open>A job can be lost at its first ceiling although two attempts remain: if another job took the last place of the queue while it waited, it is failed for good with the reason that its retries are exhausted.\<close>

theorem first_ceiling_can_be_terminal:
  "pool_reachable small_pool first_refused \<and> rp_max_attempts (wpc_retry_policy small_pool) = 3 \<and>
   wp_events one_running = [] \<and> wp_events first_refused = [(0, CeilingExhausted ''a'')] \<and>
   map (esr_reason_code \<circ> snd) (wp_responses first_refused) = [Some exhausted_reason] \<and>
   map xj_job_id (wp_queue first_refused) = [''b'']"
  using first_refused_reachable
  by (simp add: first_refused_def worker_requeue_def one_waiting_eq finish_job_def exhaust_job_def job_response_def)

theorem accepted_job_answered_once_witness:
  "mset (map xj_response_tx (live_jobs first_refused)) + mset (map fst (wp_events first_refused)) = mset [0, 1]"
  using accepted_job_answered_once [OF first_refused_reachable]
  by (simp add: first_refused_def worker_requeue_def one_waiting_eq finish_job_def exhaust_job_def numeral_2_eq_2)

theorem pool_settles_witness:
  "(worker_step small_pool ^^ 1) one_running one_waiting \<and> 1 \<le> pool_weight small_pool one_running"
proof -
  have r: "(worker_step small_pool ^^ 1) one_running one_waiting" using ws_elapsed [OF one_waiting_step] by (simp add: eq_OO)
  with pool_settles [OF one_running_reachable r] show ?thesis by blast
qed

end
