(* ===== verification/Transcripts.thy ===== *)
theory Transcripts
  imports Extraction_Model Outbox
begin

text \<open>
  Transcript loading and parsing (\<open>session-extractor/src/transcripts.rs\<close>): the trust boundary of
  transcript references, the flat parser and the rich parser of JSONL sessions.  Parsing and printing
  of JSON values is \<open>serde_json\<close>'s: parameters.  The file system enters as the answers it gives.
\<close>

section \<open>The file system and JSON codec\<close>

record file_system =
  fs_canonicalize :: "path \<Rightarrow> (string, path) result"
  fs_is_dir :: "path \<Rightarrow> bool"
  fs_read_to_string :: "path \<Rightarrow> (string, string) result"

record json_codec =
  jc_from_str :: "string \<Rightarrow> (string, json) result"
  jc_to_string :: "json \<Rightarrow> string"

definition max_inline_bytes :: nat where
  "max_inline_bytes = 10 * 1024 * 1024"

section \<open>The loader\<close>

record transcript_loader =
  tl_transcript_root :: path

definition loader_new :: "file_system \<Rightarrow> path \<Rightarrow> (transcript_error, transcript_loader) result" where
  "loader_new fs troot =
     (case fs_canonicalize fs troot of
        Err e \<Rightarrow> Err (InvalidRoot e)
      | Ok canonical \<Rightarrow>
          if \<not> fs_is_dir fs canonical
          then Err (InvalidRoot (''transcript root '' @ ticked (path_display canonical) @ '' is not a directory''))
          else Ok \<lparr>tl_transcript_root = canonical\<rparr>)"

definition loader_from_environment :: "environment \<Rightarrow> file_system \<Rightarrow> (transcript_error, transcript_loader) result" where
  "loader_from_environment env fs =
     (case env ''CLAUDE_TRANSCRIPT_ROOT'' of
        None \<Rightarrow> Err (InvalidRoot ''CLAUDE_TRANSCRIPT_ROOT is not set'')
      | Some raw \<Rightarrow> loader_new fs (path_parse raw))"

definition validate_ref :: "file_system \<Rightarrow> transcript_loader \<Rightarrow> string \<Rightarrow> (transcript_error, path) result" where
  "validate_ref fs loader transcript_ref =
     (let trimmed = trim transcript_ref; candidate = path_parse trimmed in
      if trimmed = [] then Err (InvalidReference ''transcript_ref must not be blank'')
      else if path_is_absolute candidate then Err (InvalidReference ''absolute transcript paths are not allowed'')
      else if list_ex (\<lambda>c. c = ''..'' \<or> c = ''/'') candidate
        then Err (InvalidReference ''path traversal is not allowed for transcript_ref'')
      else (case fs_canonicalize fs (tl_transcript_root loader @ candidate) of
          Err e \<Rightarrow> Err (InvalidReference (''unable to resolve transcript_ref '' @ ticked trimmed @ '': '' @ e))
        | Ok canonical \<Rightarrow>
            if \<not> prefix (tl_transcript_root loader) canonical
              then Err (InvalidReference ''transcript_ref resolved outside CLAUDE_TRANSCRIPT_ROOT'')
            else if fs_is_dir fs canonical then Err (InvalidReference ''transcript_ref must point to a file'')
            else Ok canonical))"

definition load_raw ::
  "file_system \<Rightarrow> transcript_loader \<Rightarrow> string \<Rightarrow> string option \<Rightarrow> (transcript_error, string) result" where
  "load_raw fs loader transcript_ref transcript_inline =
     (case transcript_inline of
        Some payload \<Rightarrow>
          if max_inline_bytes < length payload
          then Err (InvalidReference (''transcript_inline exceeds '' @ nat_str max_inline_bytes @ '' bytes''))
          else Ok payload
      | None \<Rightarrow>
          rbind (validate_ref fs loader transcript_ref) (\<lambda>p.
            case fs_read_to_string fs p of
              Err e \<Rightarrow> Err (ReadFailure (path_display p) e)
            | Ok payload \<Rightarrow> Ok payload))"

section \<open>Reading JSON values\<close>

text \<open>A carriage return is part of a line's end only before its line feed.\<close>

definition str_lines :: "string \<Rightarrow> string list" where
  "str_lines s =
     (let ls = split_on (\<lambda>c. c = CHR 0x0A) s
      in map (\<lambda>l. if l \<noteq> [] \<and> last l = CHR 0x0D then butlast l else l) (butlast ls) @
         (if last ls = [] then [] else [last ls]))"

definition json_pointer2 :: "json \<Rightarrow> string \<Rightarrow> string \<Rightarrow> json option" where
  "json_pointer2 v a b = Option.bind (json_get v a) (\<lambda>w. json_get w b)"

fun json_bool :: "json \<Rightarrow> bool option" where
  "json_bool (JBool b) = Some b"
| "json_bool _ = None"

definition str_field :: "json \<Rightarrow> string \<Rightarrow> string option" where
  "str_field v key = Option.bind (json_get v key) json_str"

definition str_field_or :: "string \<Rightarrow> json \<Rightarrow> string \<Rightarrow> string" where
  "str_field_or dflt v key = (case str_field v key of Some s \<Rightarrow> s | None \<Rightarrow> dflt)"

definition or_else :: "'a option \<Rightarrow> 'a option \<Rightarrow> 'a option" where
  "or_else a b = (case a of Some x \<Rightarrow> Some x | None \<Rightarrow> b)"

definition nonempty_trimmed :: "string \<Rightarrow> string option" where
  "nonempty_trimmed s = (if trim s = [] then None else Some (trim s))"

definition extract_speaker :: "json \<Rightarrow> string option" where
  "extract_speaker v =
     Option.bind (or_else (or_else (str_field v ''speaker'') (str_field v ''role''))
       (Option.bind (json_pointer2 v ''message'' ''role'') json_str)) nonempty_trimmed"

definition parse_content_value :: "json \<Rightarrow> string option" where
  "parse_content_value v =
     or_else (Option.bind (json_str v) nonempty_trimmed)
       (case json_array v of
          Some parts \<Rightarrow>
            (let stitched = join '' '' (List.map_filter (\<lambda>part. Option.bind (str_field part ''text'') nonempty_trimmed) parts)
             in if stitched = [] then None else Some stitched)
        | None \<Rightarrow> None)"

definition extract_content :: "json \<Rightarrow> string option" where
  "extract_content v =
     or_else (Option.bind (json_get v ''content'') parse_content_value)
       (Option.bind (json_pointer2 v ''message'' ''content'') parse_content_value)"

section \<open>The flat parser\<close>

text \<open>One line: \<open>Ok None\<close> when it is skipped.\<close>

definition flat_line :: "json_codec \<Rightarrow> nat \<Rightarrow> string \<Rightarrow> (transcript_error, transcript_entry option) result" where
  "flat_line codec i line =
     (if trim line = [] then Ok None
      else case jc_from_str codec (trim line) of
          Err e \<Rightarrow> Err (TrInvalidPayload (''line '' @ nat_str (i + 1) @ '' is not valid JSON: '' @ e))
        | Ok v \<Rightarrow> Ok (case (extract_speaker v, extract_content v) of
              (Some speaker, Some content) \<Rightarrow> Some \<lparr>te_speaker = speaker, te_content = content\<rparr>
            | _ \<Rightarrow> None))"

fun flat_lines :: "json_codec \<Rightarrow> nat \<Rightarrow> string list \<Rightarrow> (transcript_error, transcript_entry list) result" where
  "flat_lines codec i [] = Ok []"
| "flat_lines codec i (l # ls) =
     rbind (flat_line codec i l) (\<lambda>entry. rbind (flat_lines codec (Suc i) ls) (\<lambda>entries.
       Ok (case entry of Some e \<Rightarrow> e # entries | None \<Rightarrow> entries)))"

definition parse_claude_jsonl :: "json_codec \<Rightarrow> string \<Rightarrow> string \<Rightarrow> (transcript_error, session_transcript) result" where
  "parse_claude_jsonl codec session_id payload =
     (case domain_id_parse session_id of
        Err e \<Rightarrow> Err (TrInvalidPayload (domain_error_str e))
      | Ok sid \<Rightarrow> rbind (flat_lines codec 0 (str_lines payload)) (\<lambda>entries.
          if entries = [] then Err (TrInvalidPayload ''transcript contains no conversational entries'')
          else Ok \<lparr>st_session_id = sid, st_entries = entries\<rparr>))"

definition load ::
  "file_system \<Rightarrow> json_codec \<Rightarrow> transcript_loader \<Rightarrow> string \<Rightarrow> string \<Rightarrow> string option \<Rightarrow>
     (transcript_error, session_transcript) result" where
  "load fs codec loader session_id transcript_ref transcript_inline =
     rbind (load_raw fs loader transcript_ref transcript_inline) (parse_claude_jsonl codec session_id)"

section \<open>The rich parser\<close>

definition parse_i32 :: "string \<Rightarrow> int option" where
  "parse_i32 s =
     (let negative = (s \<noteq> [] \<and> hd s = CHR ''-'');
          ds = (if s \<noteq> [] \<and> (hd s = CHR ''-'' \<or> hd s = CHR ''+'') then tl s else s);
          v = (if negative then - int (digits_val ds) else int (digits_val ds))
      in if ds \<noteq> [] \<and> list_all is_digit ds \<and> - (2 ^ 31) \<le> v \<and> v < 2 ^ 31 then Some v else None)"

definition extract_exit_code_from_output :: "string \<Rightarrow> int option" where
  "extract_exit_code_from_output output =
     (if prefix ''Exit code '' output
      then parse_i32 (trim (hd (split_on (\<lambda>c. c = CHR 0x0A) (drop (length ''Exit code '') output))))
      else None)"

definition parse_tool_use_block :: "json_codec \<Rightarrow> json \<Rightarrow> nat \<Rightarrow> session_event list" where
  "parse_tool_use_block codec block i =
     (let tool_use_id = str_field_or [] block ''id'';
          name = str_field_or ''unknown'' block ''name'';
          input = (case json_get block ''input'' of Some v \<Rightarrow> jc_to_string codec v | None \<Rightarrow> ''{}'')
      in (if name \<in> {''Write'', ''Edit'', ''MultiEdit''}
          then [FileEdit i tool_use_id
                 (case Option.bind (json_pointer2 block ''input'' ''file_path'') json_str of Some p \<Rightarrow> p | None \<Rightarrow> []) name]
          else []) @ [ToolCall i tool_use_id name input])"

definition parse_tool_result_block :: "json \<Rightarrow> nat \<Rightarrow> session_event" where
  "parse_tool_result_block block i =
     (let output = str_field_or [] block ''content''
      in ToolResult i (str_field_or [] block ''tool_use_id'')
           (case Option.bind (json_get block ''is_error'') json_bool of Some b \<Rightarrow> b | None \<Rightarrow> False)
           (extract_exit_code_from_output output) output)"

definition spoken :: "nat \<Rightarrow> string \<Rightarrow> string \<Rightarrow> session_event" where
  "spoken i speaker content = (if speaker = ''user'' then UserMessage i content else AssistantMessage i content)"

text \<open>The turn of a line that carries speaker and content itself.\<close>

definition spoken_turn :: "json \<Rightarrow> nat \<Rightarrow> session_event list" where
  "spoken_turn v i =
     (case (extract_speaker v, extract_content v) of
        (Some speaker, Some content) \<Rightarrow> [spoken i speaker content]
      | _ \<Rightarrow> [])"

text \<open>A user line: its events and whether it counts as malformed.\<close>

definition user_line :: "json \<Rightarrow> nat \<Rightarrow> session_event list \<times> nat" where
  "user_line v i =
     (case json_pointer2 v ''message'' ''content'' of
        Some (JStr text) \<Rightarrow> (if trim text = [] then [] else [UserMessage i (trim text)], 0)
      | Some (JArr blocks) \<Rightarrow>
          (map (\<lambda>b. parse_tool_result_block b i) (filter (\<lambda>b. str_field_or [] b ''type'' = ''tool_result'') blocks), 0)
      | None \<Rightarrow> (spoken_turn v i, 0)
      | Some _ \<Rightarrow> ([UserMessage i (''[unexpected content shape on line '' @ nat_str (i + 1) @ '']'')], 1))"

definition assistant_block :: "json_codec \<Rightarrow> nat \<Rightarrow> json \<Rightarrow> session_event list" where
  "assistant_block codec i block =
     (let ty = str_field_or [] block ''type'' in
      if ty = ''text'' then
        (let text = trim (str_field_or [] block ''text'') in if text = [] then [] else [AssistantMessage i text])
      else if ty = ''tool_use'' then parse_tool_use_block codec block i
      else [])"

definition assistant_line :: "json_codec \<Rightarrow> json \<Rightarrow> nat \<Rightarrow> session_event list" where
  "assistant_line codec v i =
     (case Option.bind (json_pointer2 v ''message'' ''content'') json_array of
        Some blocks \<Rightarrow> concat (map (assistant_block codec i) blocks)
      | None \<Rightarrow> (case extract_content v of Some content \<Rightarrow> [AssistantMessage i content] | None \<Rightarrow> []))"

definition line_events :: "json_codec \<Rightarrow> nat \<Rightarrow> string \<Rightarrow> session_event list \<times> nat" where
  "line_events codec i line =
     (if trim line = [] then ([], 0)
      else case jc_from_str codec (trim line) of
          Err e \<Rightarrow> ([UserMessage i (''[unparseable line '' @ nat_str (i + 1) @ '']'')], 1)
        | Ok v \<Rightarrow>
            (let ty = str_field_or ''unknown'' v ''type'' in
             if ty = ''user'' then user_line v i
             else if ty = ''assistant'' then (assistant_line codec v i, 0)
             else if ty = ''message'' then (spoken_turn v i, 0)
             else (case spoken_turn v i of [] \<Rightarrow> ([Metadata i ty], 0) | turn \<Rightarrow> (turn, 0))))"

record parsed_events =
  pe_events :: "session_event list"
  pe_malformed_count :: nat

definition parse_session_events :: "json_codec \<Rightarrow> string \<Rightarrow> parsed_events" where
  "parse_session_events codec payload =
     (let lines = map (\<lambda>(i, l). line_events codec i l) (List.enumerate 0 (str_lines payload))
      in \<lparr>pe_events = concat (map fst lines), pe_malformed_count = sum_list (map snd lines)\<rparr>)"

section \<open>The events of a session\<close>

fun is_file_edit :: "session_event \<Rightarrow> bool" where
  "is_file_edit (FileEdit _ _ _ _) = True"
| "is_file_edit _ = False"

text \<open>A list of events that does not end in a file edit.\<close>

definition edit_closed :: "session_event list \<Rightarrow> bool" where
  "edit_closed es \<longleftrightarrow> es \<noteq> [] \<longrightarrow> \<not> is_file_edit (last es)"

lemma edit_closed_concat: "\<forall>es \<in> set ess. edit_closed es \<Longrightarrow> edit_closed (concat ess)"
proof (induction ess rule: rev_induct)
  case (snoc es ess)
  then show ?case by (cases "es = []") (auto simp: edit_closed_def)
qed (simp add: edit_closed_def)

lemma spoken_index [simp]: "event_index (spoken i s c) = i"
  by (simp add: spoken_def)

lemma spoken_not_edit [simp]: "\<not> is_file_edit (spoken i s c)"
  by (simp add: spoken_def)

lemma tool_use_index: "e \<in> set (parse_tool_use_block codec b i) \<Longrightarrow> event_index e = i"
  by (auto simp: parse_tool_use_block_def Let_def split: if_splits)

lemma tool_use_closed: "edit_closed (parse_tool_use_block codec b i)"
  by (simp add: edit_closed_def parse_tool_use_block_def Let_def)

lemma assistant_block_facts:
  "edit_closed (assistant_block codec i b) \<and> (\<forall>e \<in> set (assistant_block codec i b). event_index e = i)"
  by (auto simp: assistant_block_def Let_def tool_use_closed dest: tool_use_index) (auto simp: edit_closed_def)

definition line_ok :: "nat \<Rightarrow> session_event list \<Rightarrow> bool" where
  "line_ok i es \<longleftrightarrow> edit_closed es \<and> (\<forall>e \<in> set es. event_index e = i)"

lemma line_ok_single [simp]: "line_ok i [e] \<longleftrightarrow> event_index e = i \<and> \<not> is_file_edit e"
  by (auto simp: line_ok_def edit_closed_def)

lemma line_ok_Nil [simp]: "line_ok i []"
  by (simp add: line_ok_def edit_closed_def)

lemma line_ok_concat: "\<forall>es \<in> set ess. line_ok i es \<Longrightarrow> line_ok i (concat ess)"
  by (auto simp: line_ok_def intro: edit_closed_concat)

lemma spoken_turn_ok: "line_ok i (spoken_turn v i)"
  by (auto simp: spoken_turn_def split: option.splits)

lemma tool_results_ok: "line_ok i (map (\<lambda>b. parse_tool_result_block b i) bs)"
  by (cases bs rule: rev_cases) (auto simp: line_ok_def edit_closed_def parse_tool_result_block_def Let_def)

lemma user_line_ok: "line_ok i (fst (user_line v i))"
  by (auto simp: user_line_def spoken_turn_ok tool_results_ok split: option.splits json.splits)

lemma assistant_line_ok: "line_ok i (assistant_line codec v i)"
  by (auto simp: assistant_line_def line_ok_def assistant_block_facts split: option.splits intro!: edit_closed_concat)
    (auto simp: edit_closed_def)

lemma case_turn: "fst (case xs of [] \<Rightarrow> (a, n) | x # ys \<Rightarrow> (x # ys, m)) = (if xs = [] then a else xs)"
  by (cases xs) auto

lemma line_events_ok: "line_ok i (fst (line_events codec i l))"
  by (auto simp: line_events_def Let_def case_turn user_line_ok assistant_line_ok spoken_turn_ok split: sum.splits)

lemma enumerate_as_map: "List.enumerate 0 xs = map (\<lambda>i. (i, xs ! i)) [0..<length xs]"
  by (rule nth_equalityI) (auto simp: nth_enumerate_eq)

lemma parse_session_events_alt:
  "pe_events (parse_session_events codec payload) =
     concat (map (\<lambda>i. fst (line_events codec i (str_lines payload ! i))) [0..<length (str_lines payload)])"
  "pe_malformed_count (parse_session_events codec payload) =
     (\<Sum>i \<leftarrow> [0..<length (str_lines payload)]. snd (line_events codec i (str_lines payload ! i)))"
  by (simp_all add: parse_session_events_def Let_def enumerate_as_map comp_def)

text \<open>Concatenation of lines whose events carry their line's number.\<close>

lemma sorted_line_concat:
  "\<forall>i < n. line_ok i (f i) \<Longrightarrow> sorted (map event_index (concat (map f [0..<n])))"
proof (induction n)
  case (Suc n)
  have "\<forall>e \<in> set (concat (map f [0..<n])). event_index e < n"
  proof
    fix e assume "e \<in> set (concat (map f [0..<n]))"
    then obtain i where "i < n" "e \<in> set (f i)" by auto
    moreover from this have "event_index e = i" using Suc.prems unfolding line_ok_def by (meson less_SucI)
    ultimately show "event_index e < n" by simp
  qed
  moreover have "\<forall>e \<in> set (f n). event_index e = n" using Suc.prems by (simp add: line_ok_def)
  moreover have "sorted (map event_index (f n))"
    using calculation(2) by (auto simp: sorted_iff_nth_mono)
  ultimately show ?case using Suc by (fastforce simp: sorted_append)
qed simp

lemma filter_line_concat:
  "\<forall>i < n. line_ok i (f i) \<Longrightarrow>
     [e \<leftarrow> concat (map f [0..<n]). event_index e = i] = (if i < n then f i else [])"
proof (induction n)
  case (Suc n)
  have "[e \<leftarrow> f n. event_index e = i] = (if n = i then f n else [])"
    using Suc.prems by (auto simp: line_ok_def filter_id_conv filter_empty_conv)
  with Suc show ?case by (auto simp: less_Suc_eq)
qed simp

lemma events_of_line:
  "[e \<leftarrow> pe_events (parse_session_events codec payload). event_index e = i] =
     (if i < length (str_lines payload) then fst (line_events codec i (str_lines payload ! i)) else [])"
  unfolding parse_session_events_alt by (rule filter_line_concat) (simp add: line_events_ok)

definition unreadable :: "json_codec \<Rightarrow> string \<Rightarrow> bool" where
  "unreadable codec line \<longleftrightarrow> trim line \<noteq> [] \<and> (\<exists>e. jc_from_str codec (trim line) = Err e)"

lemma line_events_unreadable:
  "unreadable codec line \<Longrightarrow>
     line_events codec i line = ([UserMessage i (''[unparseable line '' @ nat_str (i + 1) @ '']'')], 1)"
  by (auto simp: unreadable_def line_events_def)

lemma sum_list_count_le: "(\<And>x. x \<in> set xs \<Longrightarrow> P x \<Longrightarrow> 1 \<le> f x) \<Longrightarrow> length (filter P xs) \<le> (\<Sum>x \<leftarrow> xs. f x :: nat)"
proof (induction xs)
  case (Cons x xs)
  then have "length (filter P xs) \<le> (\<Sum>x \<leftarrow> xs. f x)" by simp
  with Cons.prems [of x] show ?case by (cases "P x") simp_all
qed simp

text \<open>The events of a session come in source order and carry the number of their line, and no line that is not JSON is lost: each is the placeholder event of its number, and the malformed count is at least their number.\<close>

theorem parse_session_events_ordered:
  fixes codec payload
  defines "parsed \<equiv> parse_session_events codec payload" and "lines \<equiv> str_lines payload"
  shows "sorted (map event_index (pe_events parsed)) \<and>
    (\<forall>e \<in> set (pe_events parsed). event_index e < length lines) \<and>
    (\<forall>i < length lines. unreadable codec (lines ! i) \<longrightarrow>
       [e \<leftarrow> pe_events parsed. event_index e = i] = [UserMessage i (''[unparseable line '' @ nat_str (i + 1) @ '']'')]) \<and>
    length (filter (unreadable codec) lines) \<le> pe_malformed_count parsed"
proof -
  let ?f = "\<lambda>i. fst (line_events codec i (lines ! i))"
  have ev: "pe_events parsed = concat (map ?f [0..<length lines])"
    unfolding parsed_def lines_def parse_session_events_alt ..
  have "length (filter (unreadable codec) lines) = length (filter (\<lambda>i. unreadable codec (lines ! i)) [0..<length lines])"
    by (subst map_nth [of lines, symmetric]) (simp only: filter_map length_map comp_def length_map)
  also have "\<dots> \<le> pe_malformed_count parsed"
    unfolding parsed_def parse_session_events_alt lines_def
    by (rule sum_list_count_le) (simp add: line_events_unreadable)
  finally show ?thesis
    using sorted_line_concat [of "length lines" ?f] line_events_ok line_events_unreadable [of codec]
    by (auto simp: ev line_ok_def filter_line_concat)
qed

text \<open>C11: A transcript read from disk lies under the configured transcript root: what \<open>load\_raw\<close> returns without an inline payload is the content of a path that is no directory and lies below the canonical form of that root, a directory, after the links of the reference are resolved; the reference itself is relative and has no parent component.\<close>

theorem load_raw_contained:
  assumes "loader_new fs troot = Ok loader" and "load_raw fs loader transcript_ref None = Ok payload"
  shows "\<exists>root p. fs_canonicalize fs troot = Ok root \<and> fs_is_dir fs root \<and>
    fs_canonicalize fs (root @ path_parse (trim transcript_ref)) = Ok p \<and>
    prefix root p \<and> \<not> fs_is_dir fs p \<and> fs_read_to_string fs p = Ok payload \<and>
    \<not> path_is_absolute (path_parse (trim transcript_ref)) \<and> ''..'' \<notin> set (path_parse (trim transcript_ref))"
proof -
  have root: "fs_canonicalize fs troot = Ok (tl_transcript_root loader)" "fs_is_dir fs (tl_transcript_root loader)"
    using assms(1) by (auto simp: loader_new_def split: sum.splits if_splits)
  obtain p where v: "validate_ref fs loader transcript_ref = Ok p"
    using assms(2) by (cases "validate_ref fs loader transcript_ref") (auto simp: load_raw_def)
  then have "fs_read_to_string fs p = Ok payload"
    using assms(2) by (cases "fs_read_to_string fs p") (auto simp: load_raw_def)
  with root v show ?thesis by (auto simp: validate_ref_def Let_def list_ex_iff split: if_splits sum.splits)
qed

definition one_file :: file_system where
  "one_file = \<lparr>fs_canonicalize = Ok, fs_is_dir = (\<lambda>p. p = [''/'', ''t'']), fs_read_to_string = (\<lambda>p. Ok ''log'')\<rparr>"

theorem load_raw_contained_witness:
  "load_raw one_file \<lparr>tl_transcript_root = [''/'', ''t'']\<rparr> ''a.jsonl'' None = Ok ''log'' \<and>
   (\<exists>p. prefix [''/'', ''t''] p \<and> fs_read_to_string one_file p = Ok ''log'')"
proof -
  have "loader_new one_file [''/'', ''t''] = Ok \<lparr>tl_transcript_root = [''/'', ''t'']\<rparr>" by (simp add: loader_new_def one_file_def)
  moreover
  have "load_raw one_file \<lparr>tl_transcript_root = [''/'', ''t'']\<rparr> ''a.jsonl'' None = Ok ''log''"
    by (simp add: load_raw_def validate_ref_def one_file_def path_parse_def path_is_absolute_def trim_def trim_start_def
        trim_end_def is_ws_def Let_def)
  ultimately show ?thesis using load_raw_contained [of one_file "[''/'', ''t'']" _ "''a.jsonl''"] by (auto simp: one_file_def)
qed

end
