(* ===== verification/Skeleton.thy ===== *)
theory Skeleton
  imports Transcripts
begin

text \<open>
  Skeleton mining (\<open>session-extractor/src/skeleton.rs\<close>): the steps between the first failing tool
  result and the end of its resolution, mined from the events alone, and the bounded labelling of a
  mined skeleton.  The labeler is a parameter; its label never reaches the steps.
\<close>

section \<open>Text\<close>

text \<open>The characters of a UTF-8 string: a byte \<open>10xxxxxx\<close> continues a character.\<close>

definition is_continuation :: "char \<Rightarrow> bool" where
  "is_continuation c \<longleftrightarrow> 128 \<le> (of_char c :: nat) \<and> (of_char c :: nat) < 192"

lemma length_dropWhile_less_Suc [termination_simp]: "length (dropWhile P xs) < Suc (length xs)"
  by (simp add: length_dropWhile_le less_Suc_eq_le)

fun utf8_chars :: "string \<Rightarrow> string list" where
  "utf8_chars [] = []"
| "utf8_chars (c # cs) = (c # takeWhile is_continuation cs) # utf8_chars (dropWhile is_continuation cs)"

lemma concat_utf8_chars: "concat (utf8_chars s) = s"
  by (induction s rule: utf8_chars.induct) auto

text \<open>The characters that start before byte \<open>max_bytes\<close>.\<close>

fun chars_below :: "nat \<Rightarrow> nat \<Rightarrow> string list \<Rightarrow> string" where
  "chars_below max_bytes pos [] = []"
| "chars_below max_bytes pos (ch # chs) =
     (if pos < max_bytes then ch @ chars_below max_bytes (pos + length ch) chs else [])"

definition ellipsis :: string where
  "ellipsis = [CHR 0xE2, CHR 0x80, CHR 0xA6]"

definition truncate_failure_text :: "string \<Rightarrow> nat \<Rightarrow> string" where
  "truncate_failure_text text max_bytes =
     (if length text \<le> max_bytes then text else chars_below max_bytes 0 (utf8_chars text) @ ellipsis)"

definition extract_command_text :: "json_codec \<Rightarrow> string \<Rightarrow> string \<Rightarrow> string" where
  "extract_command_text codec name input =
     (if name = ''Bash'' then
        (case jc_from_str codec input of
           Ok v \<Rightarrow> (case str_field v ''command'' of Some cmd \<Rightarrow> cmd | None \<Rightarrow> ''Bash('' @ input @ '')'')
         | Err _ \<Rightarrow> ''Bash('' @ input @ '')'')
      else name @ ''('' @
        (case jc_from_str codec input of
           Ok (JObj kvs) \<Rightarrow> join '', '' (map (\<lambda>(k, v). k @ ''='' @ jc_to_string codec v) (take 2 kvs))
         | _ \<Rightarrow> concat (take 60 (utf8_chars input))) @ '')'')"

section \<open>The miner\<close>

record mined_step =
  ms_tool_use_id :: string
  ms_command_text :: string
  ms_tool_name :: string

record procedure_skeleton =
  ps_steps :: "mined_step list"
  ps_trigger_failure :: string
  ps_trigger_exit_code :: "int option"

fun result_failed :: "session_event \<Rightarrow> bool" where
  "result_failed (ToolResult _ _ err code _) = (err \<or> (case code of Some c \<Rightarrow> c \<noteq> 0 | None \<Rightarrow> False))"
| "result_failed _ = False"

fun result_succeeded :: "session_event \<Rightarrow> bool" where
  "result_succeeded (ToolResult _ _ err code _) = (\<not> err \<and> (case code of Some c \<Rightarrow> c = 0 | None \<Rightarrow> True))"
| "result_succeeded _ = False"

fun arc_end_scan :: "nat \<Rightarrow> nat option \<Rightarrow> session_event list \<Rightarrow> nat option" where
  "arc_end_scan pos last_success [] = last_success"
| "arc_end_scan pos last_success (e # es) =
     arc_end_scan (Suc pos)
       (if result_succeeded e then Some (Suc pos) else if result_failed e then None else last_success) es"

definition find_resolution_arc_end :: "session_event list \<Rightarrow> nat" where
  "find_resolution_arc_end arc = (case arc_end_scan 0 None arc of Some n \<Rightarrow> n | None \<Rightarrow> length arc)"

fun is_step_event :: "session_event \<Rightarrow> bool" where
  "is_step_event (ToolCall _ _ _ _) = True"
| "is_step_event (FileEdit _ _ _ _) = True"
| "is_step_event _ = False"

fun step_id :: "session_event \<Rightarrow> string" where
  "step_id (ToolCall _ i _ _) = i"
| "step_id (FileEdit _ i _ _) = i"
| "step_id _ = []"

fun step_of :: "json_codec \<Rightarrow> session_event \<Rightarrow> mined_step" where
  "step_of codec (FileEdit _ i path operation) =
     \<lparr>ms_tool_use_id = i, ms_command_text = operation @ '' '' @ path, ms_tool_name = operation\<rparr>"
| "step_of codec (ToolCall _ i name input) =
     \<lparr>ms_tool_use_id = i, ms_command_text = extract_command_text codec name input, ms_tool_name = name\<rparr>"
| "step_of codec _ = \<lparr>ms_tool_use_id = [], ms_command_text = [], ms_tool_name = []\<rparr>"

text \<open>The second pass: a call whose id has a file edit is skipped, an id that was seen too.\<close>

fun emit_steps :: "json_codec \<Rightarrow> string set \<Rightarrow> string set \<Rightarrow> session_event list \<Rightarrow> mined_step list" where
  "emit_steps codec edit_ids seen [] = []"
| "emit_steps codec edit_ids seen (e # es) =
     (if \<not> is_file_edit e \<and> step_id e \<in> edit_ids then emit_steps codec edit_ids seen es
      else if step_id e \<in> seen then emit_steps codec edit_ids seen es
      else step_of codec e # emit_steps codec edit_ids (insert (step_id e) seen) es)"

definition build_steps_deduplicated :: "json_codec \<Rightarrow> session_event list \<Rightarrow> mined_step list" where
  "build_steps_deduplicated codec events =
     (let ordered = sort_by (\<lambda>a b. event_index a \<le> event_index b) (filter is_step_event events)
      in emit_steps codec (set (map step_id (filter is_file_edit ordered))) {} ordered)"

definition mine_skeleton :: "json_codec \<Rightarrow> session_event list \<Rightarrow> procedure_skeleton option" where
  "mine_skeleton codec events =
     (case dropWhile (\<lambda>e. \<not> result_failed e) events of
        ToolResult i rid err code output # arc \<Rightarrow>
          (let steps = build_steps_deduplicated codec (take (find_resolution_arc_end arc) arc) in
           if steps = [] then None
           else Some \<lparr>ps_steps = steps, ps_trigger_failure = truncate_failure_text output 512,
                      ps_trigger_exit_code = code\<rparr>)
      | _ \<Rightarrow> None)"

section \<open>Labelling\<close>

record skeleton_label =
  sl_name :: string
  sl_description :: string
  sl_generality :: "string option"
  sl_keep :: bool
  sl_confidence :: f32

datatype map_outcome = SkeletonOutcome extracted_skill_candidate | ProseFallback string

type_synonym labeler = "procedure_skeleton \<Rightarrow> (skeleton_error, skeleton_label) result"

definition map_episode ::
  "json_codec \<Rightarrow> labeler \<Rightarrow> session_event list \<Rightarrow> (skeleton_error, map_outcome) result" where
  "map_episode codec labeler events =
     (case mine_skeleton codec events of
        None \<Rightarrow> Ok (ProseFallback ''no actionable tool arc found in episode events'')
      | Some skeleton \<Rightarrow> rbind (labeler skeleton) (\<lambda>label.
          if \<not> sl_keep label
          then Ok (ProseFallback (''labeler dropped skeleton with confidence '' @ fmt_fixed 2 (sl_confidence label) @
                 '': '' @ sl_name label))
          else Ok (SkeletonOutcome \<lparr>ec_name = sl_name label, ec_description = sl_description label,
                 ec_tags = [''skeleton-mined''], ec_procedures = map ms_command_text (ps_steps skeleton),
                 ec_conventions = [], ec_assets = [], ec_confidence = sl_confidence label,
                 ec_generality = sl_generality label, ec_generality_rationale = None\<rparr>)))"

section \<open>Grounding\<close>

interpretation by_index: total_preorder "\<lambda>a b. event_index a \<le> event_index b"
  by unfold_locales auto

lemma step_of_id: "is_step_event e \<Longrightarrow> ms_tool_use_id (step_of codec e) = step_id e"
  by (cases e) auto

text \<open>The emitted steps come from a subsequence of the events in which an edited id is always its edit.\<close>

lemma emit_steps_subseq:
  "\<exists>src. subseq src es \<and> emit_steps codec edit_ids seen es = map (step_of codec) src \<and>
     (\<forall>e \<in> set src. is_file_edit e \<or> step_id e \<notin> edit_ids)"
proof (induction codec edit_ids seen es rule: emit_steps.induct)
  case (2 codec edit_ids seen e es)
  show ?case
  proof (cases "\<not> is_file_edit e \<and> step_id e \<in> edit_ids \<or> step_id e \<in> seen")
    case True
    then have "emit_steps codec edit_ids seen (e # es) = emit_steps codec edit_ids seen es" by auto
    moreover obtain src where "subseq src es" "emit_steps codec edit_ids seen es = map (step_of codec) src"
      "\<forall>e \<in> set src. is_file_edit e \<or> step_id e \<notin> edit_ids"
      using 2(1,2) True by blast
    ultimately show ?thesis by (intro exI [of _ src]) auto
  next
    case False
    then obtain src where "subseq src es" "\<forall>e \<in> set src. is_file_edit e \<or> step_id e \<notin> edit_ids"
      "emit_steps codec edit_ids (insert (step_id e) seen) es = map (step_of codec) src"
      using 2(3) by blast
    with False show ?thesis by (intro exI [of _ "e # src"]) auto
  qed
qed simp

lemma emit_steps_ids:
  "\<forall>e \<in> set es. is_step_event e \<Longrightarrow>
     distinct (map ms_tool_use_id (emit_steps codec edit_ids seen es)) \<and>
     set (map ms_tool_use_id (emit_steps codec edit_ids seen es)) \<inter> seen = {}"
  by (induction codec edit_ids seen es rule: emit_steps.induct) (auto simp: step_of_id)

lemma emit_steps_covers:
  "\<lbrakk>\<forall>e \<in> set es. is_step_event e; \<forall>i \<in> edit_ids. i \<in> seen \<or> (\<exists>f \<in> set es. is_file_edit f \<and> step_id f = i)\<rbrakk> \<Longrightarrow>
     step_id ` set es \<subseteq> seen \<union> set (map ms_tool_use_id (emit_steps codec edit_ids seen es))"
proof (induction codec edit_ids seen es rule: emit_steps.induct)
  case (2 codec edit_ids seen e es)
  have step: "is_step_event e" "\<forall>e \<in> set es. is_step_event e" using 2(4) by auto
  consider (edited) "\<not> is_file_edit e" "step_id e \<in> edit_ids"
    | (seen) "\<not> (\<not> is_file_edit e \<and> step_id e \<in> edit_ids)" "step_id e \<in> seen"
    | (new) "\<not> (\<not> is_file_edit e \<and> step_id e \<in> edit_ids)" "step_id e \<notin> seen" by blast
  then show ?case
  proof cases
    case edited
    have inv: "\<forall>i \<in> edit_ids. i \<in> seen \<or> (\<exists>f \<in> set es. is_file_edit f \<and> step_id f = i)" using 2(5) edited(1) by auto
    then have "step_id e \<in> seen \<union> step_id ` set es" using edited(2) by (metis UnCI image_eqI)
    moreover have "step_id ` set es \<subseteq> seen \<union> set (map ms_tool_use_id (emit_steps codec edit_ids seen es))"
      using 2(1) edited step(2) inv by blast
    ultimately show ?thesis using edited by auto
  next
    case seen
    have "\<forall>i \<in> edit_ids. i \<in> seen \<or> (\<exists>f \<in> set es. is_file_edit f \<and> step_id f = i)" using 2(5) seen(2) by auto
    then show ?thesis using 2(2) seen step(2) by auto
  next
    case new
    have "\<forall>i \<in> edit_ids. i \<in> insert (step_id e) seen \<or> (\<exists>f \<in> set es. is_file_edit f \<and> step_id f = i)" using 2(5) by auto
    then show ?thesis using 2(3) new step by (auto simp: step_of_id)
  qed
qed simp

lemma subseq_set: "subseq xs ys \<Longrightarrow> set xs \<subseteq> set ys"
  by (induction rule: list_emb.induct) auto

lemma sorted_wrt_subseq: "\<lbrakk>subseq xs ys; sorted_wrt P ys\<rbrakk> \<Longrightarrow> sorted_wrt P xs"
  by (induction rule: list_emb.induct) (use subseq_set in auto)

lemma build_steps_facts:
  "\<exists>src. build_steps_deduplicated codec events = map (step_of codec) src \<and>
     set src \<subseteq> {e \<in> set events. is_step_event e} \<and> sorted (map event_index src) \<and> distinct (map step_id src) \<and>
     (\<forall>f \<in> set events. is_step_event f \<longrightarrow> (\<exists>e \<in> set src. step_id e = step_id f \<and> (is_file_edit f \<longrightarrow> is_file_edit e)))"
proof -
  let ?o = "sort_by (\<lambda>a b. event_index a \<le> event_index b) (filter is_step_event events)"
  let ?E = "set (map step_id (filter is_file_edit ?o))"
  obtain src where src: "subseq src ?o" "emit_steps codec ?E {} ?o = map (step_of codec) src"
    "\<forall>e \<in> set src. is_file_edit e \<or> step_id e \<notin> ?E"
    using emit_steps_subseq [of ?o codec ?E "{}"] by blast
  have steps: "\<forall>e \<in> set ?o. is_step_event e" by simp
  have sub: "set src \<subseteq> set ?o" using src(1) by (rule subseq_set)
  have ids: "map ms_tool_use_id (map (step_of codec) src) = map step_id src" using sub by (auto simp: step_of_id)
  have "sorted_wrt (\<lambda>a b. event_index a \<le> event_index b) src"
    using src(1) by_index.sorted_sort_by by (rule sorted_wrt_subseq)
  moreover have "distinct (map step_id src)"
    using emit_steps_ids [OF steps, of codec ?E "{}"] unfolding src(2) ids by (rule conjunct1)
  moreover have "step_id ` set ?o \<subseteq> step_id ` set src"
    using emit_steps_covers [OF steps, of ?E "{}" codec] unfolding src(2) ids by auto
  moreover have "\<exists>e \<in> set src. step_id e = step_id f \<and> (is_file_edit f \<longrightarrow> is_file_edit e)"
    if f: "f \<in> set events" "is_step_event f" for f
  proof -
    have "step_id f \<in> step_id ` set src" using f calculation(3) by auto
    then obtain e where e: "e \<in> set src" "step_id e = step_id f" by force
    have "step_id f \<in> ?E" if "is_file_edit f" using f that by auto
    with e src(3) show ?thesis by metis
  qed
  ultimately show ?thesis
    using src(2) sub by (intro exI [of _ src]) (auto simp: build_steps_deduplicated_def sorted_map)
qed

lemma mine_skeleton_Some:
  assumes "mine_skeleton codec events = Some skeleton"
  obtains pre i rid err code res arc where "events = pre @ ToolResult i rid err code res # arc"
    and "\<forall>e \<in> set pre. \<not> result_failed e" and "result_failed (ToolResult i rid err code res)"
    and "ps_steps skeleton = build_steps_deduplicated codec (take (find_resolution_arc_end arc) arc)"
    and "ps_steps skeleton \<noteq> []" and "ps_trigger_failure skeleton = truncate_failure_text res 512"
    and "ps_trigger_exit_code skeleton = code"
proof -
  let ?P = "\<lambda>e. \<not> result_failed e"
  from assms obtain i rid err code res arc where d: "dropWhile ?P events = ToolResult i rid err code res # arc"
    and sk: "ps_steps skeleton = build_steps_deduplicated codec (take (find_resolution_arc_end arc) arc)"
      "ps_steps skeleton \<noteq> []" "ps_trigger_failure skeleton = truncate_failure_text res 512"
      "ps_trigger_exit_code skeleton = code"
    by (auto simp: mine_skeleton_def Let_def split: list.split_asm session_event.split_asm if_split_asm)
  have "events = takeWhile ?P events @ ToolResult i rid err code res # arc"
    using takeWhile_dropWhile_id [of ?P events] d by simp
  moreover have "\<forall>e \<in> set (takeWhile ?P events). \<not> result_failed e" by (auto dest: set_takeWhileD)
  moreover have "result_failed (ToolResult i rid err code res)" using dropWhile_hd [OF d] by simp
  ultimately show thesis using that sk by blast
qed

section \<open>Properties\<close>

text \<open>A mined skeleton is grounded and complete: it opens at the first failing tool result, and its steps are, in source order and one per tool use, exactly the calls and edits of the resolution arc after it, an edited id being represented by its file edit.\<close>

theorem mine_skeleton_grounded:
  assumes "mine_skeleton codec events = Some skeleton"
  shows "\<exists>pre trigger arc src. events = pre @ trigger # arc \<and> result_failed trigger \<and>
    (\<forall>e \<in> set pre. \<not> result_failed e) \<and>
    ps_steps skeleton = map (step_of codec) src \<and> src \<noteq> [] \<and>
    set src \<subseteq> {e \<in> set (take (find_resolution_arc_end arc) arc). is_step_event e} \<and>
    sorted (map event_index src) \<and> distinct (map step_id src) \<and>
    (\<forall>f \<in> set (take (find_resolution_arc_end arc) arc). is_step_event f \<longrightarrow>
       (\<exists>e \<in> set src. step_id e = step_id f \<and> (is_file_edit f \<longrightarrow> is_file_edit e)))"
proof -
  from assms obtain pre i rid err code res arc where ev: "events = pre @ ToolResult i rid err code res # arc"
    and b: "\<forall>e \<in> set pre. \<not> result_failed e" and t: "result_failed (ToolResult i rid err code res)"
    and steps: "ps_steps skeleton = build_steps_deduplicated codec (take (find_resolution_arc_end arc) arc)"
      "ps_steps skeleton \<noteq> []" by (rule mine_skeleton_Some)
  obtain src where "build_steps_deduplicated codec (take (find_resolution_arc_end arc) arc) = map (step_of codec) src"
    "set src \<subseteq> {e \<in> set (take (find_resolution_arc_end arc) arc). is_step_event e}" "sorted (map event_index src)"
    "distinct (map step_id src)"
    "\<forall>f \<in> set (take (find_resolution_arc_end arc) arc). is_step_event f \<longrightarrow>
       (\<exists>e \<in> set src. step_id e = step_id f \<and> (is_file_edit f \<longrightarrow> is_file_edit e))"
    using build_steps_facts by blast
  then show ?thesis using ev b t steps
    by (intro exI [of _ pre] exI [of _ "ToolResult i rid err code res"] exI [of _ arc] exI [of _ src]) simp
qed

definition plain_json :: json_codec where
  "plain_json = \<lparr>jc_from_str = (\<lambda>s. Err ''expected value''), jc_to_string = (\<lambda>v. [])\<rparr>"

definition failing_run :: "session_event list" where
  "failing_run = [ToolCall 0 ''a'' ''Bash'' ''x'', ToolResult 1 ''a'' True None ''boom'',
     FileEdit 2 ''b'' ''f'' ''Edit'', ToolCall 2 ''b'' ''Edit'' ''y'', ToolResult 3 ''b'' True (Some 1) ''again'']"

lemma failing_run_skeleton:
  "mine_skeleton plain_json failing_run = Some \<lparr>ps_steps =
     [\<lparr>ms_tool_use_id = ''b'', ms_command_text = ''Edit f'', ms_tool_name = ''Edit''\<rparr>],
     ps_trigger_failure = ''boom'', ps_trigger_exit_code = None\<rparr>"
  by (simp add: mine_skeleton_def failing_run_def find_resolution_arc_end_def build_steps_deduplicated_def
      truncate_failure_text_def)

theorem mine_skeleton_grounded_witness:
  "\<exists>pre trigger arc. failing_run = pre @ trigger # arc \<and> result_failed trigger \<and> (\<forall>e \<in> set pre. \<not> result_failed e)"
  using mine_skeleton_grounded [OF failing_run_skeleton] by blast

text \<open>An arc that never succeeds is mined all the same: after a failure whose only later result fails again the steps taken are offered as the procedure that resolved it.\<close>

theorem unresolved_failure_is_mined:
  "(\<forall>e \<in> set failing_run. \<not> result_succeeded e) \<and>
   map_option (map ms_command_text \<circ> ps_steps) (mine_skeleton plain_json failing_run) = Some [''Edit f'']"
  unfolding failing_run_skeleton by (simp add: failing_run_def)

text \<open>The labeler cannot write a step: whatever it answers, the procedures of a candidate are the command texts of the mined steps, and it is consulted only when the events hold an arc.\<close>

theorem map_episode_grounded:
  assumes "map_episode codec labeler events = Ok (SkeletonOutcome candidate)"
  shows "\<exists>skeleton label. mine_skeleton codec events = Some skeleton \<and> labeler skeleton = Ok label \<and> sl_keep label \<and>
    ec_procedures candidate = map ms_command_text (ps_steps skeleton) \<and> ec_procedures candidate \<noteq> [] \<and>
    ec_name candidate = sl_name label \<and> ec_conventions candidate = [] \<and> ec_assets candidate = []"
proof -
  from assms obtain skeleton label where "mine_skeleton codec events = Some skeleton" "labeler skeleton = Ok label"
    by (auto simp: map_episode_def rbind_Inr_iff split: option.split_asm)
  with assms show ?thesis
    by (auto simp: map_episode_def split: if_split_asm elim: mine_skeleton_Some)
qed

end
