(* ===== verification/Preamble.thy ===== *)
theory Preamble
  imports Skeleton "HOL-Library.List_Lexorder" "HOL-Library.Char_ord"
begin

text \<open>
  The session preamble (\<open>session-extractor/src/preamble.rs\<close>): preferences and project facts mined in
  one pass over the events, the optional normalisation by a language model, and the token cap with
  its drop order.  The normalizer and the JSON codec are parameters.  The order of strings is the
  byte order of \<open>BTreeSet\<close>.
\<close>

section \<open>Types\<close>

definition preamble_hard_token_cap :: nat where
  "preamble_hard_token_cap = 512"

definition approximate_token_count :: "string \<Rightarrow> nat" where
  "approximate_token_count text = (length text + 3) div 4"

datatype preference_generality = PrefGeneral | PrefUncertain

fun generality_str :: "preference_generality \<Rightarrow> string" where
  "generality_str PrefGeneral = ''general''"
| "generality_str PrefUncertain = ''uncertain''"

record detected_preference =
  dp_raw_statement :: string
  dp_generality :: preference_generality

record project_facts =
  pf_repo_name :: "string option"
  pf_primary_language :: "string option"
  pf_salient_paths :: "string list"
  pf_stated_conventions :: "string list"

record preamble_draft =
  pd_preferences :: "detected_preference list"
  pd_facts :: project_facts

record preamble =
  pr_text :: string
  pr_preferences :: "detected_preference list"
  pr_facts :: project_facts
  pr_approximate_tokens :: nat

section \<open>Preferences of a user turn\<close>

definition preference_signal_phrases :: "string list" where
  "preference_signal_phrases =
     [''always '', ''never '', ''prefer '', ''don'' @ [CHR 0x27] @ ''t '', ''do not '', ''i want '', ''use '', ''avoid '',
      ''make sure '', ''please use '', ''please don'' @ [CHR 0x27] @ ''t '', ''please never '', ''please always '']"

definition project_scope_signals :: "string list" where
  "project_scope_signals =
     [''this project'', ''this repo'', ''our repo'', ''this codebase'', ''our codebase'', ''here '', ''in this '', ''for this '']"

definition contains_project_scoping_signal :: "string \<Rightarrow> bool" where
  "contains_project_scoping_signal lower = list_ex (contains_str lower) project_scope_signals"

definition ends_sentence :: "char \<Rightarrow> bool" where
  "ends_sentence c \<longleftrightarrow> c = CHR ''.'' \<or> c = CHR ''!'' \<or> c = CHR ''?'' \<or> c = CHR 0x0A"

text \<open>\<open>acc\<close> is the sentence read so far; blank sentences are dropped.\<close>

fun sentences :: "string \<Rightarrow> string \<Rightarrow> string list" where
  "sentences acc [] = (if blank acc then [] else [acc])"
| "sentences acc (c # cs) =
     (if ends_sentence c then (if blank (acc @ [c]) then [] else [acc @ [c]]) @ sentences [] cs
      else sentences (acc @ [c]) cs)"

definition split_into_sentences :: "string \<Rightarrow> string list" where
  "split_into_sentences s = sentences [] s"

definition signals_preference :: "string \<Rightarrow> bool" where
  "signals_preference lower = list_ex (contains_str lower) preference_signal_phrases"

definition detect_preferences_in_user_turn :: "string \<Rightarrow> detected_preference list" where
  "detect_preferences_in_user_turn content =
     List.map_filter (\<lambda>s. let trimmed = trim s; lower = ascii_lower trimmed in
         if trimmed \<noteq> [] \<and> signals_preference lower
         then Some \<lparr>dp_raw_statement = trimmed,
                    dp_generality = (if contains_project_scoping_signal lower then PrefUncertain else PrefGeneral)\<rparr>
         else None) (split_into_sentences content)"

definition preference_key :: "detected_preference \<Rightarrow> string" where
  "preference_key p = ascii_lower (trim (dp_raw_statement p))"

fun dedup_from :: "string set \<Rightarrow> detected_preference list \<Rightarrow> detected_preference list" where
  "dedup_from seen [] = []"
| "dedup_from seen (p # ps) =
     (if preference_key p \<in> seen then dedup_from seen ps
      else p # dedup_from (insert (preference_key p) seen) ps)"

definition deduplicate_preferences :: "detected_preference list \<Rightarrow> detected_preference list" where
  "deduplicate_preferences ps = dedup_from {} ps"

section \<open>Project facts\<close>

definition extract_bash_command :: "json_codec \<Rightarrow> string \<Rightarrow> string option" where
  "extract_bash_command codec input =
     (case jc_from_str codec input of Ok v \<Rightarrow> str_field v ''command'' | Err _ \<Rightarrow> None)"

definition detect_language_from_command :: "string \<Rightarrow> string option" where
  "detect_language_from_command command =
     (let has = contains_str (ascii_lower command) in
      if has ''cargo '' \<or> has ''rustc '' \<or> has ''rust-analyzer'' then Some ''Rust''
      else if has ''npm '' \<or> has ''yarn '' \<or> has ''pnpm '' then Some ''TypeScript''
      else if has ''python '' \<or> has ''pip '' \<or> has ''uv '' then Some ''Python''
      else if has ''go '' \<and> (has ''go build'' \<or> has ''go test'') then Some ''Go''
      else if has ''mvn '' \<or> has ''gradle '' then Some ''Java''
      else None)"

definition detect_language_from_path :: "string \<Rightarrow> string option" where
  "detect_language_from_path p =
     (let ends = (\<lambda>suf. suffix suf p) in
      if ends ''.rs'' then Some ''Rust''
      else if ends ''.ts'' \<or> ends ''.tsx'' then Some ''TypeScript''
      else if ends ''.js'' \<or> ends ''.jsx'' then Some ''JavaScript''
      else if ends ''.py'' then Some ''Python''
      else if ends ''.go'' then Some ''Go''
      else if ends ''.java'' then Some ''Java''
      else None)"

definition system_dirs :: "string list" where
  "system_dirs = [''home'', ''usr'', ''var'', ''tmp'', ''opt'', ''etc'', ''root'', ''srv'']"

text \<open>A system directory is skipped together with the component after it.\<close>

fun skip_system :: "bool \<Rightarrow> string list \<Rightarrow> string list" where
  "skip_system skip_next [] = []"
| "skip_system skip_next (c # cs) =
     (if skip_next then skip_system False cs
      else if c \<in> set system_dirs then skip_system True cs
      else c # skip_system False cs)"

definition is_slash :: "char \<Rightarrow> bool" where
  "is_slash c \<longleftrightarrow> c = CHR ''/''"

definition salient_path_from_file_path :: "string \<Rightarrow> string option" where
  "salient_path_from_file_path raw =
     (let components = filter (\<lambda>c. c \<noteq> []) (split_on is_slash (dropWhile is_slash (trim raw)));
          interesting = skip_system False components
      in case interesting of
           [] \<Rightarrow> None
         | [a] \<Rightarrow> Some a
         | [a, b] \<Rightarrow> Some (a @ ''/'' @ b)
         | a # b # c # _ \<Rightarrow> Some (b @ ''/'' @ c))"

definition extract_repo_name_from_path :: "string \<Rightarrow> string option" where
  "extract_repo_name_from_path p =
     List.find (\<lambda>c. 1 < length c) (skip_system False (split_on is_slash (dropWhile is_slash p)))"

fun bump :: "string \<Rightarrow> (string \<times> nat) list \<Rightarrow> (string \<times> nat) list" where
  "bump v [] = [(v, 1)]"
| "bump v ((w, n) # counts) = (if w = v then (w, n + 1) # counts else (w, n) # bump v counts)"

text \<open>\<open>max\_by\_key\<close> keeps the last of several maxima.\<close>

fun max_by_count :: "string \<times> nat \<Rightarrow> (string \<times> nat) list \<Rightarrow> string \<times> nat" where
  "max_by_count best [] = best"
| "max_by_count best (x # xs) = max_by_count (if snd best \<le> snd x then x else best) xs"

definition plurality_vote :: "string list \<Rightarrow> string option" where
  "plurality_vote votes =
     (case foldl (\<lambda>counts v. bump v counts) [] votes of [] \<Rightarrow> None | x # xs \<Rightarrow> Some (fst (max_by_count x xs)))"

section \<open>The deterministic pass\<close>

fun event_preferences :: "session_event \<Rightarrow> detected_preference list" where
  "event_preferences (UserMessage _ content) = detect_preferences_in_user_turn content"
| "event_preferences _ = []"

fun event_language :: "json_codec \<Rightarrow> session_event \<Rightarrow> string option" where
  "event_language codec (ToolCall _ _ name input) =
     (if name = ''Bash'' then Option.bind (extract_bash_command codec input) detect_language_from_command else None)"
| "event_language codec (FileEdit _ _ p _) = detect_language_from_path p"
| "event_language codec _ = None"

fun event_path :: "session_event \<Rightarrow> string option" where
  "event_path (FileEdit _ _ p _) = Some p"
| "event_path _ = None"

definition find_map :: "('a \<Rightarrow> 'b option) \<Rightarrow> 'a list \<Rightarrow> 'b option" where
  "find_map f xs = (case List.map_filter f xs of [] \<Rightarrow> None | y # _ \<Rightarrow> Some y)"

definition mine_draft_deterministic :: "json_codec \<Rightarrow> session_event list \<Rightarrow> preamble_draft" where
  "mine_draft_deterministic codec events =
     (let raw_paths = List.map_filter event_path events
      in \<lparr>pd_preferences = deduplicate_preferences (concat (map event_preferences events)),
          pd_facts = \<lparr>pf_repo_name = find_map extract_repo_name_from_path raw_paths,
            pf_primary_language = plurality_vote (List.map_filter (event_language codec) events),
            pf_salient_paths = take 10 (sort (remdups (List.map_filter salient_path_from_file_path raw_paths))),
            pf_stated_conventions = []\<rparr>\<rparr>)"

section \<open>Rendering and the token cap\<close>

definition newline :: string where "newline = [CHR 0x0A]"

definition fact_lines :: "project_facts \<Rightarrow> string list" where
  "fact_lines facts =
     (case pf_repo_name facts of Some r \<Rightarrow> [''Repo: '' @ r] | None \<Rightarrow> []) @
     (case pf_primary_language facts of Some l \<Rightarrow> [''Language: '' @ l] | None \<Rightarrow> []) @
     (if pf_salient_paths facts = [] then [] else [''Key paths: '' @ join '', '' (pf_salient_paths facts)]) @
     map (\<lambda>c. ''Convention: '' @ c) (pf_stated_conventions facts)"

definition render_preamble_text :: "detected_preference list \<Rightarrow> project_facts \<Rightarrow> string" where
  "render_preamble_text preferences facts =
     join (newline @ newline)
       ((if fact_lines facts = [] then [] else [''[Project facts]'' @ newline @ join newline (fact_lines facts)]) @
        (if preferences = [] then []
         else [''[Standing user preferences]'' @ newline @
               join newline (map (\<lambda>p. ''- '' @ trim (dp_raw_statement p)) preferences)]))"

text \<open>One item goes per round: paths, then conventions, then preferences, each from the end.\<close>

function enforce_cap :: "detected_preference list \<Rightarrow> project_facts \<Rightarrow> preamble" where
  "enforce_cap preferences facts =
     (let text = render_preamble_text preferences facts; tokens = approximate_token_count text in
      if tokens \<le> preamble_hard_token_cap
      then \<lparr>pr_text = text, pr_preferences = preferences, pr_facts = facts, pr_approximate_tokens = tokens\<rparr>
      else if pf_salient_paths facts \<noteq> []
        then enforce_cap preferences (facts\<lparr>pf_salient_paths := butlast (pf_salient_paths facts)\<rparr>)
      else if pf_stated_conventions facts \<noteq> []
        then enforce_cap preferences (facts\<lparr>pf_stated_conventions := butlast (pf_stated_conventions facts)\<rparr>)
      else if preferences \<noteq> [] then enforce_cap (butlast preferences) facts
      else \<lparr>pr_text = [], pr_preferences = preferences, pr_facts = facts, pr_approximate_tokens = 0\<rparr>)"
  by pat_completeness auto
termination
  by (relation "measure (\<lambda>(ps, f). length ps + length (pf_salient_paths f) + length (pf_stated_conventions f))") auto

declare enforce_cap.simps [simp del]

definition enforce_token_cap_and_build :: "preamble_draft \<Rightarrow> preamble" where
  "enforce_token_cap_and_build draft = enforce_cap (pd_preferences draft) (pd_facts draft)"

type_synonym normalizer = "preamble_draft \<Rightarrow> (normalization_error, preamble_draft) result"

definition mine_preamble ::
  "json_codec \<Rightarrow> session_event list \<Rightarrow> normalizer option \<Rightarrow> (normalization_error, preamble) result" where
  "mine_preamble codec events normalizer =
     rbind (case normalizer of
              Some norm_fn \<Rightarrow> norm_fn (mine_draft_deterministic codec events)
            | None \<Rightarrow> Ok (mine_draft_deterministic codec events))
       (\<lambda>draft. Ok (enforce_token_cap_and_build draft))"

section \<open>Preference candidates\<close>

definition name_punctuation :: "char \<Rightarrow> bool" where
  "name_punctuation c \<longleftrightarrow> c = CHR ''.'' \<or> c = CHR ''!'' \<or> c = CHR ''?'' \<or> c = CHR '',''"

definition derive_preference_name :: "string \<Rightarrow> string" where
  "derive_preference_name raw =
     (let name = join '' '' (take 8 (filter (\<lambda>w. w \<noteq> []) (split_on is_ws raw)))
      in rev (dropWhile name_punctuation (rev name)) @ '' (preference)'')"

definition preference_to_skill_candidate :: "detected_preference \<Rightarrow> extracted_skill_candidate" where
  "preference_to_skill_candidate p =
     \<lparr>ec_name = derive_preference_name (dp_raw_statement p),
      ec_description = ''Standing user preference: '' @ trim (dp_raw_statement p),
      ec_tags = [''preference'', ''convention''], ec_procedures = [],
      ec_conventions = [trim (dp_raw_statement p)], ec_assets = [], ec_confidence = lit 0.7,
      ec_generality = Some (generality_str (dp_generality p)),
      ec_generality_rationale =
        Some ''Detected as a standing user directive; generality inferred from scope signals.''\<rparr>"

definition preference_skill_candidates :: "preamble \<Rightarrow> extracted_skill_candidate list" where
  "preference_skill_candidates p = map preference_to_skill_candidate (pr_preferences p)"

section \<open>The cap\<close>

lemma butlast_prefix: "prefix (butlast xs) xs"
  by (cases xs rule: rev_cases) auto

lemma prefix_butlast: "prefix ys (butlast xs) \<Longrightarrow> prefix ys xs"
  using butlast_prefix prefix_order.trans by blast

text \<open>\<open>trimmed\<close> says what a trimmed preamble keeps: lower priorities are gone before a higher one loses an item.\<close>

definition trimmed :: "detected_preference list \<Rightarrow> project_facts \<Rightarrow> preamble \<Rightarrow> bool" where
  "trimmed ps f p \<longleftrightarrow>
     prefix (pr_preferences p) ps \<and>
     prefix (pf_salient_paths (pr_facts p)) (pf_salient_paths f) \<and>
     prefix (pf_stated_conventions (pr_facts p)) (pf_stated_conventions f) \<and>
     pf_repo_name (pr_facts p) = pf_repo_name f \<and> pf_primary_language (pr_facts p) = pf_primary_language f \<and>
     (pf_stated_conventions (pr_facts p) \<noteq> pf_stated_conventions f \<longrightarrow> pf_salient_paths (pr_facts p) = []) \<and>
     (pr_preferences p \<noteq> ps \<longrightarrow> pf_salient_paths (pr_facts p) = [] \<and> pf_stated_conventions (pr_facts p) = [])"

lemma enforce_cap_trimmed: "trimmed ps f (enforce_cap ps f)"
proof (induction ps f rule: enforce_cap.induct)
  case (1 ps f)
  let ?over = "\<not> approximate_token_count (render_preamble_text ps f) \<le> preamble_hard_token_cap"
  consider (stop) "\<not> ?over \<or> pf_salient_paths f = [] \<and> pf_stated_conventions f = [] \<and> ps = []"
    | (paths) ?over "pf_salient_paths f \<noteq> []"
    | (conventions) ?over "pf_salient_paths f = []" "pf_stated_conventions f \<noteq> []"
    | (preferences) ?over "pf_salient_paths f = []" "pf_stated_conventions f = []" "ps \<noteq> []"
    by blast
  then show ?case
  proof cases
    case stop
    then show ?thesis by (auto simp: enforce_cap.simps [of ps f] Let_def trimmed_def)
  next
    case paths
    then have "enforce_cap ps f = enforce_cap ps (f\<lparr>pf_salient_paths := butlast (pf_salient_paths f)\<rparr>)"
      by (simp add: enforce_cap.simps [of ps f] Let_def)
    with 1(1) [OF refl refl paths(1) paths(2)] show ?thesis by (auto simp: trimmed_def intro: prefix_butlast)
  next
    case conventions
    then have "enforce_cap ps f = enforce_cap ps (f\<lparr>pf_stated_conventions := butlast (pf_stated_conventions f)\<rparr>)"
      by (simp add: enforce_cap.simps [of ps f] Let_def)
    with 1(2) [OF refl refl conventions(1) _ conventions(3)] conventions(2) show ?thesis
      by (auto simp: trimmed_def intro: prefix_butlast)
  next
    case preferences
    then have "enforce_cap ps f = enforce_cap (butlast ps) f"
      by (simp add: enforce_cap.simps [of ps f] Let_def)
    with 1(3) [OF refl refl preferences(1) _ _ preferences(4)] preferences(2,3) show ?thesis
      by (auto simp: trimmed_def intro: prefix_butlast)
  qed
qed

lemma enforce_cap_bounded:
  "pr_approximate_tokens (enforce_cap ps f) = approximate_token_count (pr_text (enforce_cap ps f)) \<and>
   approximate_token_count (pr_text (enforce_cap ps f)) \<le> preamble_hard_token_cap"
proof (induction ps f rule: enforce_cap.induct)
  case (1 ps f)
  then show ?case
    by (subst (1 2 3) enforce_cap.simps) (auto simp: Let_def approximate_token_count_def)
qed

lemma enforce_cap_fits:
  "approximate_token_count (render_preamble_text ps f) \<le> preamble_hard_token_cap \<Longrightarrow>
     enforce_cap ps f = \<lparr>pr_text = render_preamble_text ps f, pr_preferences = ps, pr_facts = f,
       pr_approximate_tokens = approximate_token_count (render_preamble_text ps f)\<rparr>"
  by (simp add: enforce_cap.simps Let_def)

section \<open>Properties\<close>

lemma dedup_from_keys:
  "set (map preference_key (dedup_from seen ps)) = set (map preference_key ps) - seen \<and>
   distinct (map preference_key (dedup_from seen ps)) \<and> subseq (dedup_from seen ps) ps"
  by (induction seen ps rule: dedup_from.induct) auto

lemma detect_preferences_set:
  "p \<in> set (detect_preferences_in_user_turn content) \<longleftrightarrow>
     (\<exists>s \<in> set (split_into_sentences content). trim s \<noteq> [] \<and> signals_preference (ascii_lower (trim s)) \<and>
       p = \<lparr>dp_raw_statement = trim s, dp_generality =
         (if contains_project_scoping_signal (ascii_lower (trim s)) then PrefUncertain else PrefGeneral)\<rparr>)"
  by (auto simp: detect_preferences_in_user_turn_def map_filter_Some_set Let_def split: if_splits)

lemma event_preferences_set: "p \<in> set (event_preferences e) \<longleftrightarrow>
    (\<exists>i content. e = UserMessage i content \<and> p \<in> set (detect_preferences_in_user_turn content))"
  by (cases e) auto

lemma sentences_nonblank: "s \<in> set (sentences acc cs) \<Longrightarrow> trim s \<noteq> []"
  by (induction acc cs rule: sentences.induct) (auto simp: blank_def split: if_splits)

text \<open>The preferences of a preamble draft are exactly the sentences of user turns that carry a signal phrase, one per statement up to case and surrounding space: each is such a sentence, and each such sentence is represented.\<close>

theorem preferences_mined:
  fixes codec events
  defines "prefs \<equiv> pd_preferences (mine_draft_deterministic codec events)"
  shows "distinct (map preference_key prefs) \<and>
    (\<forall>p \<in> set prefs. \<exists>i content. UserMessage i content \<in> set events \<and>
       (\<exists>s \<in> set (split_into_sentences content). dp_raw_statement p = trim s \<and> signals_preference (ascii_lower (trim s)))) \<and>
    (\<forall>i content. UserMessage i content \<in> set events \<longrightarrow>
       (\<forall>s \<in> set (split_into_sentences content). signals_preference (ascii_lower (trim s)) \<longrightarrow>
         (\<exists>p \<in> set prefs. preference_key p = ascii_lower (trim s))))"
proof -
  let ?all = "concat (map event_preferences events)"
  have prefs: "prefs = dedup_from {} ?all"
    by (simp add: prefs_def mine_draft_deterministic_def deduplicate_preferences_def Let_def)
  note keys = dedup_from_keys [of "{}" ?all]
  have sub: "set prefs \<subseteq> set ?all" unfolding prefs using keys subseq_set by blast
  have "\<exists>i content. UserMessage i content \<in> set events \<and>
      (\<exists>s \<in> set (split_into_sentences content). dp_raw_statement p = trim s \<and> signals_preference (ascii_lower (trim s)))"
    if p: "p \<in> set prefs" for p
  proof -
    obtain e where e: "e \<in> set events" "p \<in> set (event_preferences e)" using sub p by auto
    then obtain i content where "UserMessage i content \<in> set events" "p \<in> set (detect_preferences_in_user_turn content)"
      unfolding event_preferences_set by blast
    then show ?thesis unfolding detect_preferences_set by (intro exI [of _ i] exI [of _ content]) auto
  qed
  moreover have "\<exists>p \<in> set prefs. preference_key p = ascii_lower (trim s)"
    if u: "UserMessage i content \<in> set events" "s \<in> set (split_into_sentences content)"
      "signals_preference (ascii_lower (trim s))" for i content s
  proof -
    have "trim s \<noteq> []" using u(2) sentences_nonblank by (simp add: split_into_sentences_def)
    then obtain p where "p \<in> set ?all" "dp_raw_statement p = trim s"
      using u by (force simp: event_preferences_set detect_preferences_set)
    then have "ascii_lower (trim s) \<in> set (map preference_key ?all)" by (force simp: preference_key_def)
    then have "ascii_lower (trim s) \<in> set (map preference_key prefs)" using keys unfolding prefs by blast
    then show ?thesis by auto
  qed
  moreover have "distinct (map preference_key prefs)" using keys unfolding prefs by blast
  ultimately show ?thesis by blast
qed

text \<open>The text is that of the items kept, unless even the empty preamble does not fit.\<close>

lemma enforce_cap_text:
  "pr_text (enforce_cap ps f) = render_preamble_text (pr_preferences (enforce_cap ps f)) (pr_facts (enforce_cap ps f)) \<or>
   (pr_text (enforce_cap ps f) = [] \<and> pr_preferences (enforce_cap ps f) = [] \<and> pf_salient_paths (pr_facts (enforce_cap ps f)) = [] \<and>
    pf_stated_conventions (pr_facts (enforce_cap ps f)) = [] \<and>
    \<not> approximate_token_count (render_preamble_text [] (pr_facts (enforce_cap ps f))) \<le> preamble_hard_token_cap)"
proof (induction ps f rule: enforce_cap.induct)
  case (1 ps f)
  then show ?case
    by (subst (1 2 3 4 5 6 7 8) enforce_cap.simps) (auto simp: Let_def)
qed

text \<open>C40: The preamble of a draft, the mined one or what the normalizer makes of it, fits its cap and drops by priority: its text has at most 2048 bytes and is the rendering of the items it keeps, or empty when the repository's name and language alone do not fit; of the draft it keeps prefixes, losing a stated convention only when no path is left and a preference only when neither is; a draft that fits is kept whole. Mining fails only with the normalizer's own error, so without a normalizer there is always a preamble.\<close>

theorem preamble_within_cap:
  fixes codec events
  defines "mined \<equiv> mine_draft_deterministic codec events"
  shows "case (case normalizer of None \<Rightarrow> Ok mined | Some norm_fn \<Rightarrow> norm_fn mined) of
      Err e \<Rightarrow> mine_preamble codec events normalizer = Err e
    | Ok draft \<Rightarrow> \<exists>p. mine_preamble codec events normalizer = Ok p \<and>
        length (pr_text p) \<le> 4 * preamble_hard_token_cap \<and>
        (pr_text p = render_preamble_text (pr_preferences p) (pr_facts p) \<or>
         (pr_text p = [] \<and> pr_preferences p = [] \<and> pf_salient_paths (pr_facts p) = [] \<and> pf_stated_conventions (pr_facts p) = [] \<and>
          4 * preamble_hard_token_cap < length (render_preamble_text [] (pr_facts p)))) \<and>
        trimmed (pd_preferences draft) (pd_facts draft) p \<and>
        (length (render_preamble_text (pd_preferences draft) (pd_facts draft)) \<le> 4 * preamble_hard_token_cap \<longrightarrow>
           pr_preferences p = pd_preferences draft \<and> pr_facts p = pd_facts draft)"
proof -
  have cap: "approximate_token_count t \<le> preamble_hard_token_cap \<longleftrightarrow> length t \<le> 4 * preamble_hard_token_cap" for t
    by (auto simp: approximate_token_count_def preamble_hard_token_cap_def)
  define res where "res = (case normalizer of None \<Rightarrow> Ok mined | Some norm_fn \<Rightarrow> norm_fn mined)"
  have run: "mine_preamble codec events normalizer = rbind res (\<lambda>draft. Ok (enforce_cap (pd_preferences draft) (pd_facts draft)))"
    by (cases normalizer) (simp_all add: mine_preamble_def res_def mined_def enforce_token_cap_and_build_def)
  show ?thesis
  proof (cases res)
    case (Inl e)
    then show ?thesis using run by (simp add: res_def)
  next
    case (Inr draft)
    let ?p = "enforce_cap (pd_preferences draft) (pd_facts draft)"
    have "mine_preamble codec events normalizer = Ok ?p" using run Inr by simp
    then show ?thesis
      using Inr enforce_cap_bounded [of "pd_preferences draft" "pd_facts draft"]
        enforce_cap_trimmed [of "pd_preferences draft" "pd_facts draft"] enforce_cap_text [of "pd_preferences draft" "pd_facts draft"]
        enforce_cap_fits [of "pd_preferences draft" "pd_facts draft"]
      unfolding res_def [symmetric] by (auto simp: cap not_le)
  qed
qed

definition wish :: "session_event list" where
  "wish = [UserMessage 0 ''Always test.'']"

lemma wish_draft: "mine_draft_deterministic plain_json wish =
   \<lparr>pd_preferences = [\<lparr>dp_raw_statement = ''Always test.'', dp_generality = PrefGeneral\<rparr>],
    pd_facts = \<lparr>pf_repo_name = None, pf_primary_language = None, pf_salient_paths = [], pf_stated_conventions = []\<rparr>\<rparr>"
  by (code_simp)

theorem preamble_within_cap_witness:
  "\<exists>p. mine_preamble plain_json wish None = Ok p \<and> length (pr_text p) \<le> 2048 \<and> length (pr_preferences p) = 1"
proof -
  have "length (render_preamble_text (pd_preferences (mine_draft_deterministic plain_json wish))
      (pd_facts (mine_draft_deterministic plain_json wish))) \<le> 4 * preamble_hard_token_cap"
    unfolding wish_draft by code_simp
  with preamble_within_cap [where codec = plain_json and events = wish and normalizer = None] show ?thesis
    by (auto simp: wish_draft preamble_hard_token_cap_def)
qed

text \<open>On a tie the language voted for last wins, not the earliest.\<close>

theorem plurality_tie_goes_to_last: "plurality_vote [''Rust'', ''Python'', ''Rust'', ''Python''] = Some ''Python''"
  by (simp add: plurality_vote_def)

end
