(* ===== verification/Draft_Writer.thy ===== *)
theory Draft_Writer
  imports Preamble
begin

text \<open>
  The pending draft writer (\<open>session-extractor/src/writer.rs\<close>): scope roots and the write guard, slugs
  and the rendered draft, the write plans of a batch, and the commit protocol of temporary files,
  backups and renames with its rollback.  The disk is a map from paths to contents and a set of
  directories; the \<open>n\<close>-th operation on it fails when the fault plan says so, a failing write leaving a
  partial file.  Path resolution, the YAML serializer, the date format, the clock and the batch nonce
  are parameters.
\<close>

section \<open>The disk\<close>

record disk =
  dk_files :: "path \<rightharpoonup> string"
  dk_dirs :: "path set"
  dk_ops :: nat

type_synonym faults = "nat \<Rightarrow> (string \<times> string option) option"

definition tick :: "disk \<Rightarrow> disk" where
  "tick d = d\<lparr>dk_ops := Suc (dk_ops d)\<rparr>"

definition create_dir_all :: "faults \<Rightarrow> path \<Rightarrow> disk \<Rightarrow> (string, unit) result \<times> disk" where
  "create_dir_all faults p d =
     (case faults (dk_ops d) of
        Some (m, _) \<Rightarrow> (Err m, tick d)
      | None \<Rightarrow> if list_ex (\<lambda>q. dk_files d q \<noteq> None) (prefixes p) then (Err ''File exists (os error 17)'', tick d)
                else (Ok (), tick (d\<lparr>dk_dirs := dk_dirs d \<union> set (prefixes p)\<rparr>)))"

definition write_file :: "faults \<Rightarrow> path \<Rightarrow> string \<Rightarrow> disk \<Rightarrow> (string, unit) result \<times> disk" where
  "write_file faults p content d =
     (case faults (dk_ops d) of
        Some (m, None) \<Rightarrow> (Err m, tick d)
      | Some (m, Some part) \<Rightarrow> (Err m, tick (d\<lparr>dk_files := (dk_files d)(p \<mapsto> part)\<rparr>))
      | None \<Rightarrow> (Ok (), tick (d\<lparr>dk_files := (dk_files d)(p \<mapsto> content)\<rparr>)))"

definition rename_file :: "faults \<Rightarrow> path \<Rightarrow> path \<Rightarrow> disk \<Rightarrow> (string, unit) result \<times> disk" where
  "rename_file faults p q d =
     (case faults (dk_ops d) of
        Some (m, _) \<Rightarrow> (Err m, tick d)
      | None \<Rightarrow> (case dk_files d p of
            None \<Rightarrow> (Err ''No such file or directory (os error 2)'', tick d)
          | Some content \<Rightarrow> (Ok (), tick (d\<lparr>dk_files := (dk_files d)(p := None, q \<mapsto> content)\<rparr>))))"

definition remove_file :: "faults \<Rightarrow> path \<Rightarrow> disk \<Rightarrow> disk" where
  "remove_file faults p d =
     (if faults (dk_ops d) = None then tick (d\<lparr>dk_files := (dk_files d)(p := None)\<rparr>) else tick d)"

definition path_exists :: "path \<Rightarrow> disk \<Rightarrow> bool" where
  "path_exists p d \<longleftrightarrow> dk_files d p \<noteq> None \<or> p \<in> dk_dirs d"

fun cleanup_paths :: "faults \<Rightarrow> path list \<Rightarrow> disk \<Rightarrow> disk" where
  "cleanup_paths faults [] d = d"
| "cleanup_paths faults (p # ps) d = cleanup_paths faults ps (if path_exists p d then remove_file faults p d else d)"

text \<open>Backups are moved back in reverse order; the outcome is ignored.\<close>

definition rollback_backup_moves :: "faults \<Rightarrow> (path \<times> path) list \<Rightarrow> disk \<Rightarrow> disk" where
  "rollback_backup_moves faults moves d = fold (\<lambda>(backup, pending) d. snd (rename_file faults backup pending d)) (rev moves) d"

section \<open>Roots and the write guard\<close>

fun try_map :: "('a \<Rightarrow> ('e, 'b) result) \<Rightarrow> 'a list \<Rightarrow> ('e, 'b list) result" where
  "try_map f [] = Ok []"
| "try_map f (x # xs) = rbind (f x) (\<lambda>y. rbind (try_map f xs) (\<lambda>ys. Ok (y # ys)))"

definition split_env_paths :: "string \<Rightarrow> string list" where
  "split_env_paths raw = filter (\<lambda>e. e \<noteq> []) (map trim (split_on (\<lambda>c. c = CHR '':'' \<or> c = CHR '','') raw))"

text \<open>\<open>label\<close> is how the messages call the root.\<close>

definition resolve_root :: "file_system \<Rightarrow> string \<Rightarrow> string \<Rightarrow> (writer_error, path) result" where
  "resolve_root fs label entry =
     (if \<not> path_is_absolute (path_parse entry) then Err (InvalidRepoPath (label @ '' '' @ ticked entry @ '' must be absolute''))
      else case fs_canonicalize fs (path_parse entry) of
          Ok r \<Rightarrow> Ok r
        | Err e \<Rightarrow> Err (InvalidRepoPath (label @ '' '' @ ticked entry @ '' is invalid: '' @ e)))"

definition resolve_write_allowed_roots :: "environment \<Rightarrow> file_system \<Rightarrow> (writer_error, path list) result" where
  "resolve_write_allowed_roots env fs =
     (case or_else (env ''SKILL_GLOBAL_WRITE_ROOTS'') (env ''SKILL_GLOBAL_ALLOWED_ROOTS'') of
        None \<Rightarrow> Err (InvalidRepoPath ''neither SKILL_GLOBAL_WRITE_ROOTS nor SKILL_GLOBAL_ALLOWED_ROOTS is set'')
      | Some raw \<Rightarrow>
          if split_env_paths raw = [] then Err (InvalidRepoPath ''SKILL_GLOBAL_WRITE_ROOTS must include at least one root path'')
          else try_map (resolve_root fs ''write-allowed root'') (split_env_paths raw))"

definition allowed_roots_from_environment :: "environment \<Rightarrow> file_system \<Rightarrow> (writer_error, path list) result" where
  "allowed_roots_from_environment env fs =
     (case env ''SKILL_GLOBAL_ALLOWED_ROOTS'' of
        None \<Rightarrow> Err (InvalidRepoPath ''SKILL_GLOBAL_ALLOWED_ROOTS is not set'')
      | Some raw \<Rightarrow>
          if split_env_paths raw = [] then Err (InvalidRepoPath ''SKILL_GLOBAL_ALLOWED_ROOTS must include at least one root path'')
          else try_map (resolve_root fs ''allowed root'') (split_env_paths raw))"

type_synonym write_target_guard = "path list"

definition check_scope_root :: "file_system \<Rightarrow> write_target_guard \<Rightarrow> path \<Rightarrow> (writer_error, unit) result" where
  "check_scope_root fs guard scope_root =
     (if guard = [] then Ok ()
      else case fs_canonicalize fs scope_root of
          Err e \<Rightarrow> Err (WriteDenied (''cannot canonicalize output root '' @ ticked (path_display scope_root) @ '': '' @ e))
        | Ok canonical \<Rightarrow>
            if list_ex (\<lambda>r. prefix r canonical) guard then Ok ()
            else Err (WriteDenied (''write denied: scope root '' @ ticked (path_display canonical) @
              '' is outside write-allowed output roots; check SKILL_GLOBAL_WRITE_ROOTS configuration'')))"

record pending_draft_writer =
  pw_global_scope_paths :: "path list"
  pw_write_guard :: write_target_guard

definition writer_from_environment :: "environment \<Rightarrow> file_system \<Rightarrow> (writer_error, pending_draft_writer) result" where
  "writer_from_environment env fs =
     (let configured = (case env ''SKILL_GLOBAL_PATHS'' of Some s \<Rightarrow> s | None \<Rightarrow> []);
          entries = filter (\<lambda>e. e \<noteq> []) (map trim (split_on (\<lambda>c. c = CHR '':'') configured))
      in if entries = [] then Err (MissingConfig (''SKILL_GLOBAL_PATHS is not set or is empty; '' @
             ''the writer refuses to start without an explicit, bounded scope root '' @ [CHR 0xE2, CHR 0x80, CHR 0x94] @
             '' set SKILL_GLOBAL_PATHS to at least one directory path''))
         else rbind (resolve_write_allowed_roots env fs) (\<lambda>guard.
           Ok \<lparr>pw_global_scope_paths = map path_parse entries, pw_write_guard = guard\<rparr>))"

definition resolve_repo_scope_root :: "environment \<Rightarrow> file_system \<Rightarrow> string \<Rightarrow> (writer_error, path) result" where
  "resolve_repo_scope_root env fs repo_path =
     (case fs_canonicalize fs (path_parse repo_path) of
        Err e \<Rightarrow> Err (InvalidRepoPath (''repo_path '' @ ticked repo_path @ '' could not be canonicalized: '' @ e))
      | Ok canonical \<Rightarrow>
          if \<not> fs_is_dir fs canonical
          then Err (InvalidRepoPath (''repo_path '' @ ticked (path_display canonical) @ '' must resolve to a directory''))
          else rbind (allowed_roots_from_environment env fs) (\<lambda>roots.
            if list_ex (\<lambda>r. prefix r canonical) roots then Ok canonical
            else Err (InvalidRepoPath (''repo_path '' @ ticked (path_display canonical) @ '' resolves outside SKILL_GLOBAL_ALLOWED_ROOTS''))))"

definition resolve_scope_root ::
  "environment \<Rightarrow> file_system \<Rightarrow> pending_draft_writer \<Rightarrow> extract_session_request \<Rightarrow> (writer_error, path) result" where
  "resolve_scope_root env fs writer request =
     (case Option.bind (esq_repo_path request) nonempty_trimmed of
        Some repo_path \<Rightarrow> resolve_repo_scope_root env fs repo_path
      | None \<Rightarrow> (case pw_global_scope_paths writer of
            p # _ \<Rightarrow> Ok p
          | [] \<Rightarrow> Err (ScopeResolution ''no scope root available for pending drafts'')))"

definition validate_scope_root ::
  "environment \<Rightarrow> file_system \<Rightarrow> pending_draft_writer \<Rightarrow> extract_session_request \<Rightarrow> (writer_error, unit) result" where
  "validate_scope_root env fs writer request = rbind (resolve_scope_root env fs writer request) (\<lambda>_. Ok ())"

section \<open>The draft of a candidate\<close>

definition slugify_skill_name :: "string \<Rightarrow> string" where
  "slugify_skill_name name =
     (let slug = join ''-'' (filter (\<lambda>w. w \<noteq> []) (split_on (\<lambda>c. c = CHR ''-'')
                   (map (\<lambda>c. if is_alnum c then c else CHR ''-'') (ascii_lower name))))
      in if slug = [] then ''session-extracted-skill'' else slug)"

definition normalize_generality :: "string option \<Rightarrow> string" where
  "normalize_generality raw =
     (if raw = Some ''project'' then ''project'' else if raw = Some ''general'' then ''general'' else ''uncertain'')"

text \<open>An absent rationale is the empty string, which the serializer skips.\<close>

record draft_frontmatter =
  df_name :: string
  df_description :: string
  df_tags :: "string list"
  df_origin :: string
  df_source_session_id :: string
  df_source_provider :: string
  df_created_at :: string
  df_warning_at :: string
  df_expires_at :: string
  df_generality :: string
  df_generality_rationale :: string

record render_env =
  re_now :: "nat \<Rightarrow> int"
  re_rfc3339 :: "int \<Rightarrow> string"
  re_yaml :: "draft_frontmatter \<Rightarrow> (string, string) result"

definition serialize_frontmatter :: "render_env \<Rightarrow> draft_frontmatter \<Rightarrow> (writer_error, string) result" where
  "serialize_frontmatter renv fm =
     (case re_yaml renv fm of
        Err e \<Rightarrow> Err (FrontmatterSerialization e)
      | Ok s \<Rightarrow> Ok (if prefix (''---'' @ newline) s then drop 4 s else s))"

definition append_section :: "string \<Rightarrow> string list \<Rightarrow> string" where
  "append_section heading lines =
     (if lines = [] then []
      else ''## '' @ heading @ newline @ concat (map (\<lambda>l. ''- '' @ l @ newline) lines) @ newline)"

definition render_pending_markdown ::
  "render_env \<Rightarrow> nat \<Rightarrow> extracted_skill_candidate \<Rightarrow> string \<Rightarrow> string \<Rightarrow> (writer_error, string) result" where
  "render_pending_markdown renv i candidate source_session_id provider_name =
     (let created_at = re_now renv i;
          fm = \<lparr>df_name = ec_name candidate, df_description = ec_description candidate, df_tags = ec_tags candidate,
                df_origin = ''session_extraction'', df_source_session_id = source_session_id,
                df_source_provider = provider_name, df_created_at = re_rfc3339 renv created_at,
                df_warning_at = re_rfc3339 renv (pending_default_warning_at created_at),
                df_expires_at = re_rfc3339 renv (pending_default_expires_at created_at),
                df_generality = normalize_generality (ec_generality candidate),
                df_generality_rationale = (case ec_generality_rationale candidate of Some r \<Rightarrow> r | None \<Rightarrow> [])\<rparr>
      in rbind (serialize_frontmatter renv fm) (\<lambda>yaml.
           Ok (''---'' @ newline @ yaml @ (if suffix newline yaml then [] else newline) @ ''---'' @ newline @ newline @
               ''# '' @ ec_name candidate @ newline @ newline @ ec_description candidate @ newline @ newline @
               append_section ''Procedures'' (ec_procedures candidate) @
               append_section ''Conventions'' (ec_conventions candidate) @
               append_section ''Assets'' (ec_assets candidate))))"

section \<open>Write plans\<close>

record write_plan =
  wl_pending_path :: path
  wl_temp_path :: path
  wl_backup_path :: path
  wl_target_preexisted :: bool
  wl_markdown :: string

definition scratch_name :: "string \<Rightarrow> nat \<Rightarrow> string \<Rightarrow> string" where
  "scratch_name nonce i ext = ''.'' @ pending_skill_file @ ''.'' @ nonce @ ''.'' @ nat_str i @ ext"

text \<open>\<open>seen\<close> are the pending paths of the candidates before.\<close>

definition plan_candidate ::
  "render_env \<Rightarrow> disk \<Rightarrow> path \<Rightarrow> string \<Rightarrow> string \<Rightarrow> string \<Rightarrow> path set \<Rightarrow> nat \<Rightarrow> extracted_skill_candidate \<Rightarrow>
     (writer_error, write_plan) result" where
  "plan_candidate renv d pending_root sid provider_name nonce seen i candidate =
     (let dir = pending_root @ [slugify_skill_name (ec_name candidate)];
          pending = dir @ [pending_skill_file]; tombstone = dir @ [rejected_skill_file]
      in if is_rejected_tombstone (\<lambda>p. dk_files d p \<noteq> None) tombstone
           then Err (RejectedTombstonePresent (path_display tombstone))
         else if pending \<in> seen
           then Err (BatchValidation (''duplicate pending path resolved for candidate '' @ ticked (ec_name candidate) @
                  '' at '' @ ticked (path_display pending)))
         else rbind (render_pending_markdown renv i candidate sid provider_name) (\<lambda>markdown.
           Ok \<lparr>wl_pending_path = pending, wl_temp_path = dir @ [scratch_name nonce i ''.tmp''],
               wl_backup_path = dir @ [scratch_name nonce i ''.bak''],
               wl_target_preexisted = path_exists pending d, wl_markdown = markdown\<rparr>))"

fun plan_candidates ::
  "render_env \<Rightarrow> disk \<Rightarrow> path \<Rightarrow> string \<Rightarrow> string \<Rightarrow> string \<Rightarrow> path set \<Rightarrow> nat \<Rightarrow> extracted_skill_candidate list \<Rightarrow>
     (writer_error, write_plan list) result" where
  "plan_candidates renv d root_dir sid provider_name nonce seen i [] = Ok []"
| "plan_candidates renv d root_dir sid provider_name nonce seen i (c # cs) =
     rbind (plan_candidate renv d root_dir sid provider_name nonce seen i c) (\<lambda>plan.
       rbind (plan_candidates renv d root_dir sid provider_name nonce (insert (wl_pending_path plan) seen) (Suc i) cs)
         (\<lambda>plans. Ok (plan # plans)))"

definition build_write_plans ::
  "render_env \<Rightarrow> disk \<Rightarrow> path \<Rightarrow> extraction_result \<Rightarrow> string \<Rightarrow> string \<Rightarrow> (writer_error, write_plan list) result" where
  "build_write_plans renv d pending_root res provider_name nonce =
     plan_candidates renv d pending_root (as_str (er_source_session_id res)) provider_name nonce {} 0 (er_candidates res)"

section \<open>The commit protocol\<close>

definition write_failure :: "path \<Rightarrow> string \<Rightarrow> writer_error" where
  "write_failure p m = WriteFailure (path_display p) m"

fun create_proposal_dirs :: "faults \<Rightarrow> write_plan list \<Rightarrow> disk \<Rightarrow> (writer_error, unit) result \<times> disk" where
  "create_proposal_dirs faults [] d = (Ok (), d)"
| "create_proposal_dirs faults (p # ps) d =
     (case create_dir_all faults (butlast (wl_pending_path p)) d of
        (Err m, d') \<Rightarrow> (Err (write_failure (butlast (wl_pending_path p)) m), d')
      | (Ok _, d') \<Rightarrow> create_proposal_dirs faults ps d')"

fun write_temps :: "faults \<Rightarrow> write_plan list \<Rightarrow> disk \<Rightarrow> (writer_error, unit) result \<times> disk" where
  "write_temps faults [] d = (Ok (), d)"
| "write_temps faults (p # ps) d =
     (case write_file faults (wl_temp_path p) (wl_markdown p) d of
        (Err m, d') \<Rightarrow> (Err (write_failure (wl_temp_path p) m), d')
      | (Ok _, d') \<Rightarrow> write_temps faults ps d')"

text \<open>\<open>moved\<close> are the backups made so far; \<open>temps\<close> all temporary paths of the batch.\<close>

fun move_backups ::
  "faults \<Rightarrow> path list \<Rightarrow> (path \<times> path) list \<Rightarrow> write_plan list \<Rightarrow> disk \<Rightarrow>
     (writer_error, (path \<times> path) list) result \<times> disk" where
  "move_backups faults temps moved [] d = (Ok moved, d)"
| "move_backups faults temps moved (p # ps) d =
     (case rename_file faults (wl_pending_path p) (wl_backup_path p) d of
        (Err m, d') \<Rightarrow> (Err (write_failure (wl_pending_path p) m),
                       rollback_backup_moves faults moved (cleanup_paths faults temps d'))
      | (Ok _, d') \<Rightarrow> move_backups faults temps (moved @ [(wl_backup_path p, wl_pending_path p)]) ps d')"

fun commit_plans ::
  "faults \<Rightarrow> path list \<Rightarrow> (path \<times> path) list \<Rightarrow> path list \<Rightarrow> write_plan list \<Rightarrow> disk \<Rightarrow>
     (writer_error, path list) result \<times> disk" where
  "commit_plans faults temps moved committed [] d = (Ok committed, d)"
| "commit_plans faults temps moved committed (p # ps) d =
     (case rename_file faults (wl_temp_path p) (wl_pending_path p) d of
        (Err m, d') \<Rightarrow> (Err (write_failure (wl_pending_path p) m),
          rollback_backup_moves faults moved (cleanup_paths faults committed (cleanup_paths faults temps d')))
      | (Ok _, d') \<Rightarrow> commit_plans faults temps moved (committed @ [wl_pending_path p]) ps d')"

definition commit_batch :: "faults \<Rightarrow> write_plan list \<Rightarrow> disk \<Rightarrow> (writer_error, path list) result \<times> disk" where
  "commit_batch faults plans d =
     (let temps = map wl_temp_path plans in
      case create_proposal_dirs faults plans d of
        (Err e, d1) \<Rightarrow> (Err e, d1)
      | (Ok _, d1) \<Rightarrow>
        (case write_temps faults plans d1 of
           (Err e, d2) \<Rightarrow> (Err e, cleanup_paths faults temps d2)
         | (Ok _, d2) \<Rightarrow>
           (case move_backups faults temps [] (filter wl_target_preexisted plans) d2 of
              (Err e, d3) \<Rightarrow> (Err e, d3)
            | (Ok moved, d3) \<Rightarrow>
              (case commit_plans faults temps moved [] plans d3 of
                 (Err e, d4) \<Rightarrow> (Err e, d4)
               | (Ok committed, d4) \<Rightarrow> (Ok committed, cleanup_paths faults (map wl_backup_path plans) d4)))))"

record writer_env =
  we_env :: environment
  we_fs :: file_system
  we_render :: render_env
  we_nonce :: string
  we_faults :: faults

definition write_pending_drafts ::
  "writer_env \<Rightarrow> pending_draft_writer \<Rightarrow> extraction_result \<Rightarrow> extract_session_request \<Rightarrow> string \<Rightarrow> disk \<Rightarrow>
     (writer_error, path list) result \<times> disk" where
  "write_pending_drafts wenv writer res request provider_name d =
     (case resolve_scope_root (we_env wenv) (we_fs wenv) writer request of
        Err e \<Rightarrow> (Err e, d)
      | Ok scope_root \<Rightarrow>
        (case check_scope_root (we_fs wenv) (pw_write_guard writer) scope_root of
           Err e \<Rightarrow> (Err e, d)
         | Ok _ \<Rightarrow>
           (let pending_root = scope_root @ [''.skills''] in
            case create_dir_all (we_faults wenv) pending_root d of
              (Err m, d0) \<Rightarrow> (Err (write_failure pending_root m), d0)
            | (Ok _, d0) \<Rightarrow>
              (case build_write_plans (we_render wenv) d0 pending_root res provider_name (we_nonce wenv) of
                 Err e \<Rightarrow> (Err e, d0)
               | Ok plans \<Rightarrow> if plans = [] then (Ok [], d0) else commit_batch (we_faults wenv) plans d0))))"

section \<open>Recovery\<close>

text \<open>At most one operation fails.\<close>

definition single_fault :: "faults \<Rightarrow> bool" where
  "single_fault faults \<longleftrightarrow> (\<forall>m n. faults m \<noteq> None \<longrightarrow> faults n \<noteq> None \<longrightarrow> m = n)"

definition quiet :: "faults \<Rightarrow> disk \<Rightarrow> bool" where
  "quiet faults d \<longleftrightarrow> (\<forall>n \<ge> dk_ops d. faults n = None)"

definition faulted :: "faults \<Rightarrow> disk \<Rightarrow> bool" where
  "faulted faults d \<longleftrightarrow> (\<exists>n < dk_ops d. faults n \<noteq> None)"

lemma faulted_quiet: "\<lbrakk>single_fault faults; faulted faults d\<rbrakk> \<Longrightarrow> quiet faults d"
  unfolding single_fault_def faulted_def quiet_def by (metis leD)

lemma tick_simps [simp]: "dk_files (tick d) = dk_files d" "dk_dirs (tick d) = dk_dirs d" "dk_ops (tick d) = Suc (dk_ops d)"
  by (simp_all add: tick_def)

lemma quiet_tick [simp]: "quiet faults d \<Longrightarrow> quiet faults (tick (d\<lparr>dk_files := f\<rparr>))"
  by (simp add: quiet_def)

lemma cleanup_quiet:
  "quiet faults d \<Longrightarrow> quiet faults (cleanup_paths faults ps d) \<and>
     dk_files (cleanup_paths faults ps d) = (\<lambda>q. if q \<in> set ps then None else dk_files d q)"
proof (induction ps arbitrary: d)
  case (Cons p ps)
  let ?d = "if path_exists p d then remove_file faults p d else d"
  have "faults (dk_ops d) = None" using Cons.prems by (simp add: quiet_def)
  then have q: "quiet faults ?d" and F: "dk_files ?d = (dk_files d)(p := None)"
    using Cons.prems by (auto simp: remove_file_def path_exists_def quiet_def)
  show ?case unfolding cleanup_paths.simps using Cons.IH [OF q] unfolding F by (simp add: fun_eq_iff)
qed simp

lemma rename_quiet:
  "\<lbrakk>quiet faults d; dk_files d p = Some c\<rbrakk> \<Longrightarrow>
     rename_file faults p q d = (Ok (), tick (d\<lparr>dk_files := (dk_files d)(p := None, q \<mapsto> c)\<rparr>))"
  by (simp add: rename_file_def quiet_def)

lemma rollback_fold_quiet:
  "\<lbrakk>quiet faults d; distinct (map fst ms @ map snd ms); \<forall>(b, p) \<in> set ms. dk_files d b \<noteq> None\<rbrakk> \<Longrightarrow>
     dk_files (fold (\<lambda>(b, p) d. snd (rename_file faults b p d)) ms d) q =
       (case map_of (map prod.swap ms) q of Some b \<Rightarrow> dk_files d b
        | None \<Rightarrow> if q \<in> fst ` set ms then None else dk_files d q)"
proof (induction ms arbitrary: d)
  case (Cons m ms)
  obtain b p where m: "m = (b, p)" by fastforce
  from Cons.prems m obtain c where c: "dk_files d b = Some c" by auto
  let ?d = "tick (d\<lparr>dk_files := (dk_files d)(b := None, p \<mapsto> c)\<rparr>)"
  have fresh: "b \<notin> fst ` set ms" "b \<notin> snd ` set ms" "p \<notin> fst ` set ms" "p \<notin> snd ` set ms" "b \<noteq> p"
    using Cons.prems(2) m by auto
  have "dk_files ?d b' \<noteq> None" if "(b', p') \<in> set ms" for b' p'
  proof -
    have "b' \<in> fst ` set ms" using that by (rule image_eqI [rotated]) simp
    with fresh have "b' \<noteq> b" by blast
    moreover have "dk_files d b' \<noteq> None" using Cons.prems(3) that by auto
    ultimately show ?thesis by simp
  qed
  then have "\<forall>(b', p') \<in> set ms. dk_files ?d b' \<noteq> None" by blast
  then have IH: "dk_files (fold (\<lambda>(b, p) d. snd (rename_file faults b p d)) ms ?d) q =
      (case map_of (map prod.swap ms) q of Some b \<Rightarrow> dk_files ?d b
        | None \<Rightarrow> if q \<in> fst ` set ms then None else dk_files ?d q)"
    using Cons.prems(2) by (intro Cons.IH quiet_tick [OF Cons.prems(1)]) simp_all
  have no_p: "map_of (map prod.swap ms) p = None" using fresh(4) by (simp add: map_of_eq_None_iff image_image)
  have keep: "dk_files ?d b' = dk_files d b'" if "map_of (map prod.swap ms) q = Some b'" for b'
  proof -
    have "b' \<in> fst ` set ms" using map_of_SomeD [OF that] by force
    with fresh show ?thesis by auto
  qed
  have step: "fold (\<lambda>(b, p) d. snd (rename_file faults b p d)) (m # ms) d =
      fold (\<lambda>(b, p) d. snd (rename_file faults b p d)) ms ?d"
    using rename_quiet [OF Cons.prems(1) c] m by simp
  show ?case
  proof (cases "map_of (map prod.swap ms) q")
    case (Some b')
    with keep have "dk_files ?d b' = dk_files d b'" by blast
    moreover have "q \<noteq> p" using Some no_p by auto
    ultimately show ?thesis unfolding step IH using Some m by simp
  next
    case None
    then show ?thesis unfolding step IH using m c fresh by simp
  qed
qed simp

text \<open>
  \<open>damaged\<close>: what the disk may look like when a batch fails after the plans \<open>temps\<close> were written,
  \<open>moved\<close> backups made and \<open>committed\<close> drafts put in place.
\<close>

definition damaged :: "(path \<rightharpoonup> string) \<Rightarrow> path list \<Rightarrow> (path \<times> path) list \<Rightarrow> path list \<Rightarrow> (path \<rightharpoonup> string) \<Rightarrow> bool" where
  "damaged F0 temps moved committed F \<longleftrightarrow>
     (\<forall>(b, p) \<in> set moved. F b = F0 p \<and> F0 p \<noteq> None \<and> F0 b = None) \<and>
     (\<forall>t \<in> set temps. F0 t = None) \<and>
     (\<forall>c \<in> set committed. c \<in> snd ` set moved \<or> F0 c = None) \<and>
     (\<forall>q. q \<notin> set temps \<and> q \<notin> set committed \<and> q \<notin> fst ` set moved \<and> q \<notin> snd ` set moved \<longrightarrow> F q = F0 q) \<and>
     distinct (map fst moved @ map snd moved) \<and>
     set temps \<inter> (fst ` set moved \<union> snd ` set moved) = {} \<and> set committed \<inter> fst ` set moved = {}"

lemma recover:
  assumes quiet: "quiet faults d" and dam: "damaged F0 temps moved committed (dk_files d)"
  shows "dk_files (rollback_backup_moves faults moved (cleanup_paths faults committed (cleanup_paths faults temps d))) = F0"
proof
  fix q
  let ?d1 = "cleanup_paths faults temps d"
  let ?d2 = "cleanup_paths faults committed ?d1"
  note c1 = cleanup_quiet [OF quiet, of temps]
  note c2 = cleanup_quiet [OF conjunct1 [OF c1], of committed]
  have F: "dk_files ?d2 = (\<lambda>q. if q \<in> set committed \<or> q \<in> set temps then None else dk_files d q)"
    using c1 c2 by (auto simp: fun_eq_iff)
  have b: "dk_files ?d2 b = F0 p \<and> F0 p \<noteq> None \<and> F0 b = None" if "(b, p) \<in> set moved" for b p
  proof -
    have "b \<in> fst ` set moved" using that by force
    then have "b \<notin> set committed" "b \<notin> set temps" using dam by (auto simp: damaged_def)
    moreover have "dk_files d b = F0 p \<and> F0 p \<noteq> None \<and> F0 b = None" using dam that by (auto simp: damaged_def)
    ultimately show ?thesis by (simp add: F)
  qed
  have dist: "distinct (map fst (rev moved) @ map snd (rev moved))"
    using dam unfolding damaged_def by (simp add: rev_map [symmetric])
  have "\<forall>(b, p) \<in> set (rev moved). dk_files ?d2 b \<noteq> None" using b by fastforce
  from rollback_fold_quiet [OF conjunct1 [OF c2] dist this, of q]
  have "dk_files (rollback_backup_moves faults moved ?d2) q =
      (case map_of (map prod.swap (rev moved)) q of Some b \<Rightarrow> dk_files ?d2 b
        | None \<Rightarrow> if q \<in> fst ` set moved then None else dk_files ?d2 q)"
    by (simp add: rollback_backup_moves_def)
  also have "\<dots> = F0 q"
  proof (cases "map_of (map prod.swap (rev moved)) q")
    case (Some bk)
    then have "(bk, q) \<in> set moved" using map_of_SomeD [OF Some] by force
    with Some b show ?thesis by simp
  next
    case None
    then have q: "q \<notin> snd ` set moved" by (force simp: map_of_eq_None_iff)
    show ?thesis
    proof (cases "q \<in> fst ` set moved")
      case True
      with None b show ?thesis by force
    next
      case False
      with q dam show ?thesis unfolding F using None by (auto simp: damaged_def)
    qed
  qed
  finally show "dk_files (rollback_backup_moves faults moved ?d2) q = F0 q" .
qed

section \<open>The phases of a batch\<close>

definition plans_ok :: "write_plan list \<Rightarrow> (path \<rightharpoonup> string) \<Rightarrow> bool" where
  "plans_ok plans F0 \<longleftrightarrow>
     distinct (map wl_temp_path plans @ map wl_backup_path plans @ map wl_pending_path plans) \<and>
     (\<forall>p \<in> set plans. F0 (wl_temp_path p) = None \<and> F0 (wl_backup_path p) = None \<and>
       (wl_target_preexisted p \<longleftrightarrow> F0 (wl_pending_path p) \<noteq> None))"

lemma create_proposal_dirs_files: "create_proposal_dirs faults ps d = (r, d') \<Longrightarrow> dk_files d' = dk_files d"
  by (induction faults ps d rule: create_proposal_dirs.induct)
    (auto simp: create_dir_all_def split: option.splits sum.splits prod.splits if_splits)

lemma write_temps_phase:
  "write_temps faults ps d = (r, d') \<Longrightarrow>
     (\<forall>q. q \<notin> set (map wl_temp_path ps) \<longrightarrow> dk_files d' q = dk_files d q) \<and>
     (case r of Err e \<Rightarrow> faulted faults d'
      | Ok _ \<Rightarrow> distinct (map wl_temp_path ps) \<longrightarrow> (\<forall>p \<in> set ps. dk_files d' (wl_temp_path p) = Some (wl_markdown p)))"
proof (induction ps arbitrary: d)
  case (Cons p ps)
  show ?case
  proof (cases "faults (dk_ops d)")
    case None
    let ?d = "tick (d\<lparr>dk_files := (dk_files d)(wl_temp_path p \<mapsto> wl_markdown p)\<rparr>)"
    from None Cons.prems have "write_temps faults ps ?d = (r, d')" by (simp add: write_file_def)
    from Cons.IH [OF this] show ?thesis by (cases r) auto
  next
    case (Some f)
    then have "\<exists>d1. (d' = tick d1 \<and> dk_ops d1 = dk_ops d) \<and> (\<forall>q. q \<noteq> wl_temp_path p \<longrightarrow> dk_files d1 q = dk_files d q) \<and>
        (\<exists>e. r = Err e)"
      using Cons.prems by (cases f) (auto simp: write_file_def split: option.split_asm)
    moreover have "faulted faults (tick d1)" if "dk_ops d1 = dk_ops d" for d1
      using Some that unfolding faulted_def by (intro exI [of _ "dk_ops d"]) simp
    ultimately show ?thesis by auto
  qed
qed (auto split: sum.splits)

lemma rename_present:
  assumes "dk_files d p = Some c"
  obtains (ok) "rename_file faults p q d = (Ok (), tick (d\<lparr>dk_files := (dk_files d)(p := None, q \<mapsto> c)\<rparr>))"
    | (err) m where "rename_file faults p q d = (Err m, tick d)" "faulted faults (tick d)"
  using assms by (cases "faults (dk_ops d)") (auto simp: rename_file_def faulted_def)

abbreviation moves_of :: "write_plan list \<Rightarrow> (path \<times> path) list" where
  "moves_of ps \<equiv> map (\<lambda>p. (wl_backup_path p, wl_pending_path p)) ps"

lemma move_backups_phase:
  assumes "single_fault faults"
  shows "\<lbrakk>move_backups faults temps moved ps d = (r, d'); damaged F0 temps moved [] (dk_files d);
      distinct (map wl_backup_path ps @ map wl_pending_path ps);
      \<forall>p \<in> set ps. wl_backup_path p \<notin> set temps \<union> fst ` set moved \<union> snd ` set moved \<and>
        wl_pending_path p \<notin> set temps \<union> fst ` set moved \<union> snd ` set moved \<and>
        F0 (wl_backup_path p) = None \<and> F0 (wl_pending_path p) \<noteq> None\<rbrakk> \<Longrightarrow>
    case r of Err e \<Rightarrow> dk_files d' = F0
    | Ok moved' \<Rightarrow> moved' = moved @ moves_of ps \<and> damaged F0 temps moved' [] (dk_files d') \<and>
        (\<forall>t \<in> set temps. dk_files d' t = dk_files d t)"
proof (induction ps arbitrary: moved d)
  case (Cons p ps)
  let ?b = "wl_backup_path p" and ?q = "wl_pending_path p"
  have fresh: "?b \<notin> set temps" "?q \<notin> set temps" "?b \<notin> fst ` set moved" "?b \<notin> snd ` set moved"
    "?q \<notin> fst ` set moved" "?q \<notin> snd ` set moved" "?b \<noteq> ?q" "F0 ?b = None" using Cons.prems(3,4) by auto
  have "F0 ?q \<noteq> None" using Cons.prems(4) by simp
  moreover have "dk_files d ?q = F0 ?q" using Cons.prems(2) fresh by (simp add: damaged_def)
  ultimately obtain c where c: "dk_files d ?q = Some c" "F0 ?q = Some c" by auto
  consider (ok) "rename_file faults ?q ?b d = (Ok (), tick (d\<lparr>dk_files := (dk_files d)(?q := None, ?b \<mapsto> c)\<rparr>))"
    | (err) m where "rename_file faults ?q ?b d = (Err m, tick d)" "faulted faults (tick d)"
    using rename_present [OF c(1), of faults ?b] by blast
  then show ?case
  proof cases
    case ok
    let ?d = "tick (d\<lparr>dk_files := (dk_files d)(?q := None, ?b \<mapsto> c)\<rparr>)"
    from Cons.prems(1) ok have "move_backups faults temps (moved @ [(?b, ?q)]) ps ?d = (r, d')" by simp
    moreover have "damaged F0 temps (moved @ [(?b, ?q)]) [] (dk_files ?d)"
    proof -
      have "(dk_files ?d) b' = F0 p' \<and> F0 p' \<noteq> None \<and> F0 b' = None" if "(b', p') \<in> set moved" for b' p'
      proof -
        have "b' \<in> fst ` set moved" using that by (rule image_eqI [rotated]) simp
        then have "b' \<noteq> ?b" "b' \<noteq> ?q" using fresh(3,5) by metis+
        moreover have "dk_files d b' = F0 p' \<and> F0 p' \<noteq> None \<and> F0 b' = None" using Cons.prems(2) that by (auto simp: damaged_def)
        ultimately show ?thesis by simp
      qed
      then show ?thesis using Cons.prems(2) fresh c unfolding damaged_def by auto
    qed
    moreover have "\<forall>p' \<in> set ps. wl_backup_path p' \<notin> set temps \<union> fst ` set (moved @ [(?b, ?q)]) \<union> snd ` set (moved @ [(?b, ?q)]) \<and>
        wl_pending_path p' \<notin> set temps \<union> fst ` set (moved @ [(?b, ?q)]) \<union> snd ` set (moved @ [(?b, ?q)]) \<and>
        F0 (wl_backup_path p') = None \<and> F0 (wl_pending_path p') \<noteq> None"
    proof
      fix p' assume p': "p' \<in> set ps"
      have "?b \<notin> wl_backup_path ` set ps" "?b \<notin> wl_pending_path ` set ps" "?q \<notin> wl_backup_path ` set ps"
        "?q \<notin> wl_pending_path ` set ps" using Cons.prems(3) by auto
      then have "wl_backup_path p' \<noteq> ?b" "wl_pending_path p' \<noteq> ?b" "wl_backup_path p' \<noteq> ?q" "wl_pending_path p' \<noteq> ?q"
        using p' by (metis imageI)+
      with Cons.prems(4) p' show "wl_backup_path p' \<notin> set temps \<union> fst ` set (moved @ [(?b, ?q)]) \<union> snd ` set (moved @ [(?b, ?q)]) \<and>
        wl_pending_path p' \<notin> set temps \<union> fst ` set (moved @ [(?b, ?q)]) \<union> snd ` set (moved @ [(?b, ?q)]) \<and>
        F0 (wl_backup_path p') = None \<and> F0 (wl_pending_path p') \<noteq> None" by simp
    qed
    moreover have "distinct (map wl_backup_path ps @ map wl_pending_path ps)" using Cons.prems(3) by simp
    ultimately have IH: "case r of Err e \<Rightarrow> dk_files d' = F0
      | Ok moved' \<Rightarrow> moved' = (moved @ [(?b, ?q)]) @ moves_of ps \<and> damaged F0 temps moved' [] (dk_files d') \<and>
        (\<forall>t \<in> set temps. dk_files d' t = dk_files ?d t)" using Cons.IH by blast
    have "dk_files ?d t = dk_files d t" if "t \<in> set temps" for t using that fresh by auto
    with IH show ?thesis by (cases r) auto
  next
    case (err m)
    then have "r = Err (write_failure ?q m)" "d' = rollback_backup_moves faults moved (cleanup_paths faults temps (tick d))"
      using Cons.prems(1) by auto
    moreover have "damaged F0 temps moved [] (dk_files (tick d))" using Cons.prems(2) by simp
    ultimately show ?thesis using recover [OF faulted_quiet [OF assms err(2)]] by fastforce
  qed
qed (auto split: sum.splits)

lemma commit_phase:
  assumes "single_fault faults" and "\<forall>t \<in> set temps. F0 t = None"
  shows "\<lbrakk>commit_plans faults temps moved committed ps d = (r, d'); damaged F0 temps moved committed (dk_files d);
      distinct (map wl_temp_path ps @ map wl_pending_path ps);
      \<forall>p \<in> set ps. dk_files d (wl_temp_path p) = Some (wl_markdown p) \<and> wl_temp_path p \<in> set temps \<and>
        wl_pending_path p \<notin> set temps \<union> fst ` set moved \<and>
        (wl_pending_path p \<in> snd ` set moved \<or> F0 (wl_pending_path p) = None)\<rbrakk> \<Longrightarrow>
    case r of Err e \<Rightarrow> dk_files d' = F0
    | Ok committed' \<Rightarrow> committed' = committed @ map wl_pending_path ps \<and>
        (\<forall>p \<in> set ps. dk_files d' (wl_temp_path p) = None \<and> dk_files d' (wl_pending_path p) = Some (wl_markdown p)) \<and>
        (\<forall>q. q \<notin> wl_temp_path ` set ps \<and> q \<notin> wl_pending_path ` set ps \<longrightarrow> dk_files d' q = dk_files d q)"
proof (induction ps arbitrary: committed d)
  case (Cons p ps)
  let ?t = "wl_temp_path p" and ?q = "wl_pending_path p"
  have p: "dk_files d ?t = Some (wl_markdown p)" "?t \<in> set temps" "?q \<notin> set temps" "?q \<notin> fst ` set moved"
    "?q \<in> snd ` set moved \<or> F0 ?q = None" "?t \<noteq> ?q" using Cons.prems(3,4) by auto
  consider (ok) "rename_file faults ?t ?q d = (Ok (), tick (d\<lparr>dk_files := (dk_files d)(?t := None, ?q \<mapsto> wl_markdown p)\<rparr>))"
    | (err) m where "rename_file faults ?t ?q d = (Err m, tick d)" "faulted faults (tick d)"
    using rename_present [OF p(1), of faults ?q] by blast
  then show ?case
  proof cases
    case ok
    let ?d = "tick (d\<lparr>dk_files := (dk_files d)(?t := None, ?q \<mapsto> wl_markdown p)\<rparr>)"
    from Cons.prems(1) ok have "commit_plans faults temps moved (committed @ [?q]) ps ?d = (r, d')" by simp
    moreover have "damaged F0 temps moved (committed @ [?q]) (dk_files ?d)"
    proof -
      have dam: "damaged F0 temps moved committed (dk_files d)" by (rule Cons.prems(2))
      have "(dk_files ?d) b' = F0 p' \<and> F0 p' \<noteq> None \<and> F0 b' = None" if "(b', p') \<in> set moved" for b' p'
      proof -
        have "b' \<in> fst ` set moved" using that by (rule image_eqI [rotated]) simp
        then have "b' \<noteq> ?q" "b' \<noteq> ?t" using p(2,4) dam unfolding damaged_def by (metis, blast)
        moreover have "dk_files d b' = F0 p' \<and> F0 p' \<noteq> None \<and> F0 b' = None" using dam that by (auto simp: damaged_def)
        ultimately show ?thesis by simp
      qed
      then show ?thesis using dam p unfolding damaged_def by auto
    qed
    moreover have "distinct (map wl_temp_path ps @ map wl_pending_path ps)" using Cons.prems(3) by simp
    moreover have "\<forall>p' \<in> set ps. dk_files ?d (wl_temp_path p') = Some (wl_markdown p') \<and> wl_temp_path p' \<in> set temps \<and>
        wl_pending_path p' \<notin> set temps \<union> fst ` set moved \<and>
        (wl_pending_path p' \<in> snd ` set moved \<or> F0 (wl_pending_path p') = None)"
    proof
      fix p' assume p': "p' \<in> set ps"
      then have in_temps: "wl_temp_path p' \<in> set temps" using Cons.prems(4) by simp
      have "?t \<notin> wl_temp_path ` set ps" using Cons.prems(3) by simp
      then have "wl_temp_path p' \<noteq> ?t" "wl_temp_path p' \<noteq> ?q" using p' p(3) in_temps by (metis imageI, metis)
      with Cons.prems(4) p' show "dk_files ?d (wl_temp_path p') = Some (wl_markdown p') \<and> wl_temp_path p' \<in> set temps \<and>
        wl_pending_path p' \<notin> set temps \<union> fst ` set moved \<and>
        (wl_pending_path p' \<in> snd ` set moved \<or> F0 (wl_pending_path p') = None)" by simp
    qed
    ultimately have IH: "case r of Err e \<Rightarrow> dk_files d' = F0
      | Ok committed' \<Rightarrow> committed' = (committed @ [?q]) @ map wl_pending_path ps \<and>
        (\<forall>p \<in> set ps. dk_files d' (wl_temp_path p) = None \<and> dk_files d' (wl_pending_path p) = Some (wl_markdown p)) \<and>
        (\<forall>q. q \<notin> wl_temp_path ` set ps \<and> q \<notin> wl_pending_path ` set ps \<longrightarrow> dk_files d' q = dk_files ?d q)"
      by (rule Cons.IH)
    have out: "?t \<notin> wl_temp_path ` set ps" "?q \<notin> wl_pending_path ` set ps" "?t \<notin> wl_pending_path ` set ps"
      "?q \<notin> wl_temp_path ` set ps" using Cons.prems(3) by auto
    show ?thesis
    proof (cases r)
      case (Inr committed')
      with IH have "dk_files d' ?t = dk_files ?d ?t" "dk_files d' ?q = dk_files ?d ?q" using out by auto
      with IH Inr p(6) show ?thesis by simp
    qed (use IH in simp)
  next
    case (err m)
    then have "r = Err (write_failure ?q m)"
      "d' = rollback_backup_moves faults moved (cleanup_paths faults committed (cleanup_paths faults temps (tick d)))"
      using Cons.prems(1) by auto
    moreover have "damaged F0 temps moved committed (dk_files (tick d))" using Cons.prems(2) by simp
    ultimately show ?thesis using recover [OF faulted_quiet [OF assms(1) err(2)]] by fastforce
  qed
qed (auto split: sum.splits)

lemma cleanup_frame: "q \<notin> set ps \<Longrightarrow> dk_files (cleanup_paths faults ps d) q = dk_files d q"
  by (induction faults ps d rule: cleanup_paths.induct) (auto simp: remove_file_def)

lemma plans_ok_split:
  assumes "plans_ok plans F0"
  defines "pre \<equiv> filter wl_target_preexisted plans"
  shows "distinct (map wl_temp_path plans @ map wl_pending_path plans)"
    and "distinct (map wl_backup_path pre @ map wl_pending_path pre)"
    and "\<forall>p \<in> set plans. wl_backup_path p \<notin> wl_temp_path ` set plans \<and> wl_pending_path p \<notin> wl_temp_path ` set plans \<and>
      wl_pending_path p \<notin> wl_backup_path ` set plans \<and> F0 (wl_temp_path p) = None \<and> F0 (wl_backup_path p) = None \<and>
      (wl_target_preexisted p \<longleftrightarrow> F0 (wl_pending_path p) \<noteq> None)"
proof -
  show "distinct (map wl_temp_path plans @ map wl_pending_path plans)" using assms by (auto simp: plans_ok_def)
  show "distinct (map wl_backup_path pre @ map wl_pending_path pre)"
    using assms by (auto simp: plans_ok_def distinct_map_filter)
  show "\<forall>p \<in> set plans. wl_backup_path p \<notin> wl_temp_path ` set plans \<and> wl_pending_path p \<notin> wl_temp_path ` set plans \<and>
      wl_pending_path p \<notin> wl_backup_path ` set plans \<and> F0 (wl_temp_path p) = None \<and> F0 (wl_backup_path p) = None \<and>
      (wl_target_preexisted p \<longleftrightarrow> F0 (wl_pending_path p) \<noteq> None)"
    using assms by (auto simp: plans_ok_def)
qed

text \<open>The drafts of a batch are in place and nothing else changed, the backups apart.\<close>

definition placed :: "write_plan list \<Rightarrow> (path \<rightharpoonup> string) \<Rightarrow> (path \<rightharpoonup> string) \<Rightarrow> bool" where
  "placed plans F0 F \<longleftrightarrow> (\<forall>p \<in> set plans. F (wl_pending_path p) = Some (wl_markdown p)) \<and>
     (\<forall>q. q \<notin> wl_pending_path ` set plans \<and> q \<notin> wl_backup_path ` set plans \<longrightarrow> F q = F0 q)"

text \<open>What \<open>commit\_plans\<close> needs and what it leaves, over the state in which the backups were made.\<close>

lemma commit_ready:
  assumes ok: "plans_ok plans F0" and moved: "moved = moves_of (filter wl_target_preexisted plans)"
    and temps: "\<forall>p \<in> set plans. F (wl_temp_path p) = Some (wl_markdown p)"
  shows "\<forall>p \<in> set plans. F (wl_temp_path p) = Some (wl_markdown p) \<and> wl_temp_path p \<in> set (map wl_temp_path plans) \<and>
    wl_pending_path p \<notin> set (map wl_temp_path plans) \<union> fst ` set moved \<and>
    (wl_pending_path p \<in> snd ` set moved \<or> F0 (wl_pending_path p) = None)"
proof
  fix p assume p: "p \<in> set plans"
  have "wl_pending_path p \<in> snd ` set moved" if "wl_target_preexisted p" using p that by (force simp: moved)
  moreover have "fst ` set moved \<subseteq> wl_backup_path ` set plans" by (auto simp: moved)
  then have "wl_pending_path p \<notin> fst ` set moved" using plans_ok_split(3) [OF ok] p by blast
  ultimately show "F (wl_temp_path p) = Some (wl_markdown p) \<and> wl_temp_path p \<in> set (map wl_temp_path plans) \<and>
    wl_pending_path p \<notin> set (map wl_temp_path plans) \<union> fst ` set moved \<and>
    (wl_pending_path p \<in> snd ` set moved \<or> F0 (wl_pending_path p) = None)"
    using p plans_ok_split(3) [OF ok] temps by (cases "F0 (wl_pending_path p)") auto
qed

lemma placed_after_commit:
  assumes ok: "plans_ok plans F0" and dam: "damaged F0 (map wl_temp_path plans) (moves_of (filter wl_target_preexisted plans)) [] F"
    and comm: "\<forall>p \<in> set plans. dk_files d (wl_temp_path p) = None \<and> dk_files d (wl_pending_path p) = Some (wl_markdown p)"
    and same: "\<forall>q. q \<notin> wl_temp_path ` set plans \<and> q \<notin> wl_pending_path ` set plans \<longrightarrow> dk_files d q = F q"
  shows "placed plans F0 (dk_files (cleanup_paths faults (map wl_backup_path plans) d))"
  unfolding placed_def
proof (intro conjI ballI allI impI)
  note split = plans_ok_split(3) [OF ok]
  fix p assume "p \<in> set plans"
  with comm split show "dk_files (cleanup_paths faults (map wl_backup_path plans) d) (wl_pending_path p) = Some (wl_markdown p)"
    by (simp add: cleanup_frame)
next
  note split = plans_ok_split(3) [OF ok]
  fix q assume q: "q \<notin> wl_pending_path ` set plans \<and> q \<notin> wl_backup_path ` set plans"
  then have "dk_files (cleanup_paths faults (map wl_backup_path plans) d) q = dk_files d q" by (simp add: cleanup_frame)
  also have "\<dots> = F0 q"
  proof (cases "q \<in> wl_temp_path ` set plans")
    case True
    with comm split show ?thesis by auto
  next
    case False
    with q same have "dk_files d q = F q" by simp
    moreover have "F q = F0 q" using dam False q unfolding damaged_def by auto
    ultimately show ?thesis by simp
  qed
  finally show "dk_files (cleanup_paths faults (map wl_backup_path plans) d) q = F0 q" .
qed

lemma commit_batch_atomic:
  assumes single: "single_fault faults" and ok: "plans_ok plans (dk_files d)" and run: "commit_batch faults plans d = (r, d')"
  shows "case r of Err e \<Rightarrow> dk_files d' = dk_files d
    | Ok committed \<Rightarrow> committed = map wl_pending_path plans \<and> placed plans (dk_files d) (dk_files d') \<and>
        ((\<forall>n. faults n = None) \<longrightarrow> (\<forall>p \<in> set plans. dk_files d' (wl_backup_path p) = None))"
proof -
  let ?F0 = "dk_files d" and ?temps = "map wl_temp_path plans" and ?pre = "filter wl_target_preexisted plans"
  note split = plans_ok_split [OF ok]
  have fresh: "\<forall>t \<in> set ?temps. ?F0 t = None" using split(3) by simp
  obtain r1 d1 where c: "create_proposal_dirs faults plans d = (r1, d1)" by fastforce
  have F1: "dk_files d1 = ?F0" by (rule create_proposal_dirs_files [OF c])
  show ?thesis
  proof (cases r1)
    case (Inl e)
    with run c have "r = Err e" "d' = d1" by (auto simp: commit_batch_def Let_def)
    with F1 show ?thesis by simp
  next
    case r1: (Inr u)
    obtain r2 d2 where w: "write_temps faults plans d1 = (r2, d2)" by fastforce
    note W = write_temps_phase [OF w]
    have dam: "damaged ?F0 ?temps [] [] (dk_files d2)" using W fresh F1 by (auto simp: damaged_def)
    show ?thesis
    proof (cases r2)
      case (Inl e)
      with run c r1 w have "r = Err e" "d' = cleanup_paths faults ?temps d2" by (auto simp: commit_batch_def Let_def)
      moreover have "dk_files (cleanup_paths faults ?temps d2) = ?F0"
        using recover [OF faulted_quiet [OF single] dam] W Inl by (simp add: rollback_backup_moves_def)
      ultimately show ?thesis by simp
    next
      case r2: (Inr u)
      have temps: "\<forall>p \<in> set plans. dk_files d2 (wl_temp_path p) = Some (wl_markdown p)" using W r2 split(1) by simp
      obtain r3 d3 where m: "move_backups faults ?temps [] ?pre d2 = (r3, d3)" by fastforce
      have "\<forall>p \<in> set ?pre. wl_backup_path p \<notin> set ?temps \<union> fst ` set [] \<union> snd ` set [] \<and>
          wl_pending_path p \<notin> set ?temps \<union> fst ` set [] \<union> snd ` set [] \<and>
          ?F0 (wl_backup_path p) = None \<and> ?F0 (wl_pending_path p) \<noteq> None" using split(3) by auto
      note M = move_backups_phase [OF single m dam split(2) this]
      show ?thesis
      proof (cases r3)
        case (Inl e)
        with run c r1 w r2 m have "r = Err e" "d' = d3" by (auto simp: commit_batch_def Let_def)
        with M Inl show ?thesis by simp
      next
        case r3: (Inr moved)
        from M have moved: "moved = moves_of ?pre" "damaged ?F0 ?temps moved [] (dk_files d3)"
          "\<forall>t \<in> set ?temps. dk_files d3 t = dk_files d2 t" unfolding r3 sum.case by blast+
        obtain r4 d4 where k: "commit_plans faults ?temps moved [] plans d3 = (r4, d4)" by fastforce
        have "\<forall>p \<in> set plans. dk_files d3 (wl_temp_path p) = Some (wl_markdown p)" using temps moved(3) by simp
        note ready = commit_ready [OF ok moved(1) this]
        note K = commit_phase [OF single fresh k moved(2) split(1) ready]
        show ?thesis
        proof (cases r4)
          case (Inl e)
          with run c r1 w r2 m r3 k have "r = Err e" "d' = d4" by (auto simp: commit_batch_def Let_def)
          with K Inl show ?thesis by simp
        next
          case r4: (Inr committed)
          let ?baks = "map wl_backup_path plans"
          from run c r1 w r2 m r3 k r4 have r: "r = Ok committed" "d' = cleanup_paths faults ?baks d4"
            by (auto simp: commit_batch_def Let_def)
          have K': "committed = map wl_pending_path plans"
            "\<forall>p \<in> set plans. dk_files d4 (wl_temp_path p) = None \<and> dk_files d4 (wl_pending_path p) = Some (wl_markdown p)"
            "\<forall>q. q \<notin> wl_temp_path ` set plans \<and> q \<notin> wl_pending_path ` set plans \<longrightarrow> dk_files d4 q = dk_files d3 q"
            using K r4 by simp_all
          have "placed plans ?F0 (dk_files d')"
            unfolding r(2) using moved(2) unfolding moved(1) by (rule placed_after_commit [OF ok _ K'(2,3)])
          moreover have "dk_files d' (wl_backup_path p) = None" if "\<forall>n. faults n = None" "p \<in> set plans" for p
            using cleanup_quiet [of faults d4 ?baks] that by (simp add: r(2) quiet_def)
          ultimately show ?thesis using r(1) K'(1) by simp
        qed
      qed
    qed
  qed
qed

section \<open>Plans\<close>

definition draft_path :: "path \<Rightarrow> extracted_skill_candidate \<Rightarrow> path" where
  "draft_path pending_root c = pending_root @ [slugify_skill_name (ec_name c), pending_skill_file]"

definition tombstoned :: "disk \<Rightarrow> path \<Rightarrow> extracted_skill_candidate \<Rightarrow> bool" where
  "tombstoned d pending_root c \<longleftrightarrow> dk_files d (pending_root @ [slugify_skill_name (ec_name c), rejected_skill_file]) \<noteq> None"

lemma is_rejected_tombstone_file:
  "is_rejected_tombstone f (dir @ [rejected_skill_file]) = f (dir @ [rejected_skill_file])"
  by (simp add: is_rejected_tombstone_def has_lifecycle_file_name_def file_name_def rejected_skill_file_def)

definition plan_of ::
  "render_env \<Rightarrow> disk \<Rightarrow> path \<Rightarrow> string \<Rightarrow> string \<Rightarrow> string \<Rightarrow> nat \<Rightarrow> extracted_skill_candidate \<Rightarrow> write_plan \<Rightarrow> bool" where
  "plan_of renv d root_dir sid provider_name nonce i c plan \<longleftrightarrow>
     wl_pending_path plan = draft_path root_dir c \<and>
     wl_temp_path plan = root_dir @ [slugify_skill_name (ec_name c), scratch_name nonce i ''.tmp''] \<and>
     wl_backup_path plan = root_dir @ [slugify_skill_name (ec_name c), scratch_name nonce i ''.bak''] \<and>
     wl_target_preexisted plan = path_exists (draft_path root_dir c) d \<and>
     render_pending_markdown renv i c sid provider_name = Ok (wl_markdown plan)"

lemma plan_candidate_Ok:
  "plan_candidate renv d root_dir sid provider_name nonce seen i c = Ok plan \<longleftrightarrow>
     \<not> tombstoned d root_dir c \<and> draft_path root_dir c \<notin> seen \<and> plan_of renv d root_dir sid provider_name nonce i c plan"
  using is_rejected_tombstone_file [of "\<lambda>p. dk_files d p \<noteq> None" "root_dir @ [slugify_skill_name (ec_name c)]"]
  by (auto simp: plan_candidate_def Let_def rbind_Inr_iff tombstoned_def plan_of_def draft_path_def)

lemma plan_candidates_Ok:
  "plan_candidates renv d root_dir sid provider_name nonce seen i cs = Ok plans \<Longrightarrow>
     list_all (\<lambda>c. \<not> tombstoned d root_dir c) cs \<and> distinct (map (draft_path root_dir) cs) \<and>
     set (map (draft_path root_dir) cs) \<inter> seen = {} \<and> length plans = length cs \<and>
     (\<forall>k < length cs. plan_of renv d root_dir sid provider_name nonce (i + k) (cs ! k) (plans ! k))"
proof (induction cs arbitrary: seen i plans)
  case (Cons c cs)
  from Cons.prems obtain plan plans' where p: "plan_candidate renv d root_dir sid provider_name nonce seen i c = Ok plan"
    and ps: "plan_candidates renv d root_dir sid provider_name nonce (insert (wl_pending_path plan) seen) (Suc i) cs = Ok plans'"
    and plans: "plans = plan # plans'" by (auto simp: rbind_Inr_iff)
  note P = p [unfolded plan_candidate_Ok]
  have "wl_pending_path plan = draft_path root_dir c" using P by (simp add: plan_of_def)
  with Cons.IH [OF ps] P show ?case by (auto simp: plans nth_Cons split: nat.split)
qed simp

lemma scratch_name_inj: "scratch_name nonce i ''.tmp'' \<noteq> scratch_name nonce i ''.bak''"
  by (simp add: scratch_name_def)

lemma scratch_not_pending: "scratch_name nonce i ext \<noteq> pending_skill_file"
  by (simp add: scratch_name_def pending_skill_file_def)

text \<open>The nonce is new to the disk, and no directory is named like a draft.\<close>

definition nonce_fresh :: "disk \<Rightarrow> string \<Rightarrow> bool" where
  "nonce_fresh d nonce \<longleftrightarrow> (\<forall>dir i ext. dk_files d (dir @ [scratch_name nonce i ext]) = None) \<and>
     (\<forall>p \<in> dk_dirs d. p \<noteq> [] \<longrightarrow> last p \<noteq> pending_skill_file)"

lemma path_snoc2: "r @ [a, b] = (r @ [a]) @ [b]"
  by simp

lemma plans_ok_of_plans:
  assumes plans: "plan_candidates renv d root_dir sid provider_name nonce {} 0 cs = Ok plans" and fresh: "nonce_fresh d nonce"
  shows "plans_ok plans (dk_files d)" and "map wl_pending_path plans = map (draft_path root_dir) cs"
proof -
  note P = plan_candidates_Ok [OF plans]
  then have len: "length plans = length cs"
    and pl: "\<And>k. k < length cs \<Longrightarrow> plan_of renv d root_dir sid provider_name nonce k (cs ! k) (plans ! k)" by simp_all
  let ?slug = "\<lambda>k. slugify_skill_name (ec_name (cs ! k))"
  have slugs: "?slug j = ?slug k \<longleftrightarrow> j = k" if "j < length cs" "k < length cs" for j k
    using P that by (auto simp: distinct_conv_nth draft_path_def)
  have t: "wl_temp_path (plans ! k) = root_dir @ [?slug k, scratch_name nonce k ''.tmp'']"
    and b: "wl_backup_path (plans ! k) = root_dir @ [?slug k, scratch_name nonce k ''.bak'']"
    and q: "wl_pending_path (plans ! k) = root_dir @ [?slug k, pending_skill_file]"
    and e: "wl_target_preexisted (plans ! k) = path_exists (root_dir @ [?slug k, pending_skill_file]) d"
    if "k < length cs" for k
    using pl [OF that] by (auto simp: plan_of_def draft_path_def)
  have "distinct (map wl_temp_path plans)" "distinct (map wl_backup_path plans)" "distinct (map wl_pending_path plans)"
    using slugs by (auto simp: distinct_conv_nth len t b q)
  moreover have "wl_temp_path ` set plans \<inter> wl_backup_path ` set plans = {}"
    "wl_temp_path ` set plans \<inter> wl_pending_path ` set plans = {}"
    "wl_backup_path ` set plans \<inter> wl_pending_path ` set plans = {}"
    using slugs scratch_name_inj scratch_not_pending
    by (auto simp: in_set_conv_nth len t b q)
  moreover have "dk_files d (wl_temp_path p) = None \<and> dk_files d (wl_backup_path p) = None \<and>
      (wl_target_preexisted p \<longleftrightarrow> dk_files d (wl_pending_path p) \<noteq> None)" if p: "p \<in> set plans" for p
  proof -
    obtain k where k: "k < length cs" "p = plans ! k" using p len by (auto simp: in_set_conv_nth)
    have "root_dir @ [?slug k, pending_skill_file] \<notin> dk_dirs d" using fresh by (force simp: nonce_fresh_def)
    moreover have "dk_files d (root_dir @ [?slug k, scratch_name nonce k ext]) = None" for ext
      using fresh by (simp only: path_snoc2 nonce_fresh_def)
    ultimately show ?thesis by (simp add: k t b q e path_exists_def)
  qed
  ultimately show "plans_ok plans (dk_files d)" by (auto simp: plans_ok_def)
  show "map wl_pending_path plans = map (draft_path root_dir) cs"
    by (rule nth_equalityI) (simp_all add: len q draft_path_def)
qed

section \<open>Properties\<close>

lemma create_dir_all_result:
  "create_dir_all faults p d = (r, d') \<Longrightarrow> dk_files d' = dk_files d \<and> dk_dirs d' \<subseteq> dk_dirs d \<union> set (prefixes p)"
  by (auto simp: create_dir_all_def split: option.splits if_splits)

lemma write_pending_drafts_cases:
  assumes "write_pending_drafts wenv writer res request provider_name d = (r, d')"
  obtains (early) e where "r = Err e" "dk_files d' = dk_files d"
    | (planned) scope_root d0 plans where "resolve_scope_root (we_env wenv) (we_fs wenv) writer request = Ok scope_root"
      "dk_files d0 = dk_files d" "dk_dirs d0 \<subseteq> dk_dirs d \<union> set (prefixes (scope_root @ [''.skills'']))"
      "plan_candidates (we_render wenv) d0 (scope_root @ [''.skills'']) (as_str (er_source_session_id res)) provider_name
         (we_nonce wenv) {} 0 (er_candidates res) = Ok plans"
      "(r, d') = (if plans = [] then (Ok [], d0) else commit_batch (we_faults wenv) plans d0)"
  using assms create_dir_all_result [of "we_faults wenv" _ d]
  by (fastforce simp: write_pending_drafts_def Let_def build_write_plans_def split: sum.split_asm prod.split_asm)

lemma write_pending_drafts_result:
  assumes run: "write_pending_drafts wenv writer res request provider_name d = (r, d')"
    and single: "single_fault (we_faults wenv)" and fresh: "nonce_fresh d (we_nonce wenv)"
    and root_dir: "\<forall>root_dir. resolve_scope_root (we_env wenv) (we_fs wenv) writer request = Ok root_dir \<longrightarrow>
      pending_skill_file \<notin> set root_dir"
  shows "case r of Err e \<Rightarrow> dk_files d' = dk_files d
    | Ok paths \<Rightarrow> \<exists>root_dir. resolve_scope_root (we_env wenv) (we_fs wenv) writer request = Ok root_dir \<and>
        paths = map (draft_path (root_dir @ [''.skills''])) (er_candidates res) \<and> distinct paths \<and>
        (\<forall>k < length paths. \<exists>text. render_pending_markdown (we_render wenv) k (er_candidates res ! k)
            (as_str (er_source_session_id res)) provider_name = Ok text \<and> dk_files d' (paths ! k) = Some text) \<and>
        (\<forall>q. q \<notin> set paths \<and> (\<forall>i. q = [] \<or> last q \<noteq> scratch_name (we_nonce wenv) i ''.bak'') \<longrightarrow>
          dk_files d' q = dk_files d q)"
  using run
proof (cases rule: write_pending_drafts_cases)
  case (early e)
  then show ?thesis by simp
next
  case (planned scope_root d0 plans)
  let ?root = "scope_root @ [''.skills'']"
  have "pending_skill_file \<notin> set ?root" using root_dir planned(1) by (simp add: pending_skill_file_def)
  then have "\<forall>p \<in> set (prefixes ?root). p \<noteq> [] \<longrightarrow> last p \<noteq> pending_skill_file"
    by (auto simp: in_set_prefixes) (metis last_in_set set_mono_prefix subsetD)
  then have fresh0: "nonce_fresh d0 (we_nonce wenv)" using fresh planned(2,3) by (auto simp: nonce_fresh_def)
  note ok = plans_ok_of_plans [OF planned(4) fresh0]
  note P = plan_candidates_Ok [OF planned(4)]
  have res: "case r of Err e \<Rightarrow> dk_files d' = dk_files d0
    | Ok committed \<Rightarrow> committed = map wl_pending_path plans \<and> placed plans (dk_files d0) (dk_files d')"
  proof (cases "plans = []")
    case True
    with planned(5) show ?thesis by (simp add: placed_def)
  next
    case False
    with planned(5) have "commit_batch (we_faults wenv) plans d0 = (r, d')" by simp
    from commit_batch_atomic [OF single ok(1) this] show ?thesis by (cases r) auto
  qed
  show ?thesis
  proof (cases r)
    case (Inr paths)
    with res ok(2) have paths: "paths = map (draft_path ?root) (er_candidates res)" "paths = map wl_pending_path plans"
      and pl: "placed plans (dk_files d0) (dk_files d')" by auto
    have "\<exists>text. render_pending_markdown (we_render wenv) k (er_candidates res ! k)
            (as_str (er_source_session_id res)) provider_name = Ok text \<and> dk_files d' (paths ! k) = Some text"
      if k: "k < length paths" for k
    proof -
      have kl: "k < length (er_candidates res)" "k < length plans" using k paths by (simp, metis length_map)
      then have plan: "plan_of (we_render wenv) d0 ?root (as_str (er_source_session_id res)) provider_name
          (we_nonce wenv) k (er_candidates res ! k) (plans ! k)" using P by simp
      have "dk_files d' (wl_pending_path (plans ! k)) = Some (wl_markdown (plans ! k))"
        using pl kl(2) by (simp add: placed_def)
      with plan kl(2) show ?thesis unfolding paths(2) by (simp add: plan_of_def)
    qed
    moreover have "dk_files d' q = dk_files d q"
      if "q \<notin> set paths" "\<forall>i. q = [] \<or> last q \<noteq> scratch_name (we_nonce wenv) i ''.bak''" for q
    proof -
      have "q \<notin> wl_backup_path ` set plans" using that(2) P by (fastforce simp: in_set_conv_nth plan_of_def)
      with pl that(1) planned(2) show ?thesis by (auto simp: placed_def paths(2))
    qed
    moreover have "distinct paths" using P paths(1) by simp
    ultimately show ?thesis using Inr planned(1) paths(1) by auto
  qed (use res planned(2) in simp)
qed

text \<open>C7: A batch of drafts is written all or not at all, also when one operation on the disk fails half-way (its write possibly leaving a partial file): an error leaves every file as it was, and a success has put each candidate's rendered draft at its own path and changed no other file except possibly a leftover backup of the batch.\<close>

theorem write_pending_drafts_atomic:
  assumes run: "write_pending_drafts wenv writer res request provider_name d = (r, d')"
    and single: "single_fault (we_faults wenv)" and fresh: "nonce_fresh d (we_nonce wenv)"
    and root_dir: "\<forall>root_dir. resolve_scope_root (we_env wenv) (we_fs wenv) writer request = Ok root_dir \<longrightarrow>
      pending_skill_file \<notin> set root_dir"
  shows "case r of Err e \<Rightarrow> dk_files d' = dk_files d
    | Ok paths \<Rightarrow> \<exists>root_dir. resolve_scope_root (we_env wenv) (we_fs wenv) writer request = Ok root_dir \<and>
        paths = map (draft_path (root_dir @ [''.skills''])) (er_candidates res) \<and> distinct paths \<and>
        (\<forall>k < length paths. \<exists>text. render_pending_markdown (we_render wenv) k (er_candidates res ! k)
            (as_str (er_source_session_id res)) provider_name = Ok text \<and> dk_files d' (paths ! k) = Some text) \<and>
        (\<forall>q. q \<notin> set paths \<and> (\<forall>i. q = [] \<or> last q \<noteq> scratch_name (we_nonce wenv) i ''.bak'') \<longrightarrow>
          dk_files d' q = dk_files d q)"
  by (rule write_pending_drafts_result [OF run single fresh root_dir])

definition sample_found :: "string \<Rightarrow> extracted_skill_candidate" where
  "sample_found name = \<lparr>ec_name = name, ec_description = ''d'', ec_tags = [], ec_procedures = [''p''],
     ec_conventions = [], ec_assets = [], ec_confidence = Fin 1, ec_generality = None, ec_generality_rationale = None\<rparr>"

definition sample_writer_env :: writer_env where
  "sample_writer_env = \<lparr>we_env = (\<lambda>_. None), we_fs = \<lparr>fs_canonicalize = Ok, fs_is_dir = (\<lambda>_. True), fs_read_to_string = (\<lambda>_. Err [])\<rparr>,
     we_render = \<lparr>re_now = (\<lambda>_. 0), re_rfc3339 = (\<lambda>_. ''t''), re_yaml = (\<lambda>fm. Ok ''name: x'')\<rparr>,
     we_nonce = ''n'', we_faults = (\<lambda>_. None)\<rparr>"

definition sample_writer :: pending_draft_writer where
  "sample_writer = \<lparr>pw_global_scope_paths = [[''/'', ''g'']], pw_write_guard = []\<rparr>"

definition sample_extraction :: extract_session_request where
  "sample_extraction = \<lparr>esq_transcript_ref = ''t'', esq_transcript_inline = None, esq_session_id = ''s'', esq_repo_path = None\<rparr>"

definition sample_result :: "string list \<Rightarrow> extraction_result" where
  "sample_result names = \<lparr>er_source_session_id = DomainId ''s'', er_candidates = map sample_found names, er_provider = ''ollama''\<rparr>"

definition empty_disk :: disk where
  "empty_disk = \<lparr>dk_files = (\<lambda>_. None), dk_dirs = {}, dk_ops = 0\<rparr>"

lemma sample_scope: "resolve_scope_root (we_env sample_writer_env) (we_fs sample_writer_env) sample_writer sample_extraction = Ok [''/'', ''g'']"
  by (simp add: resolve_scope_root_def sample_writer_def sample_extraction_def)

lemma sample_fresh: "nonce_fresh empty_disk (we_nonce sample_writer_env)" "single_fault (we_faults sample_writer_env)"
  by (simp_all add: nonce_fresh_def empty_disk_def single_fault_def sample_writer_env_def)

lemma empty_disk_path [simp]: "dk_files empty_disk p = None" "p \<notin> dk_dirs empty_disk"
  by (simp_all add: empty_disk_def)

lemma sample_slug: "slugify_skill_name ''a'' = ''a''"
  by code_simp

lemma sample_write:
  "fst (write_pending_drafts sample_writer_env sample_writer (sample_result [''a'']) sample_extraction ''ollama'' empty_disk) =
     Ok [[''/'', ''g'', ''.skills'', ''a'', ''SKILL.md.pending'']]"
  by code_simp

theorem write_pending_drafts_atomic_witness:
  "\<exists>d'. write_pending_drafts sample_writer_env sample_writer (sample_result [''a'']) sample_extraction ''ollama'' empty_disk =
      (Ok [[''/'', ''g'', ''.skills'', ''a'', ''SKILL.md.pending'']], d') \<and>
    dk_files d' [''/'', ''g'', ''.skills'', ''a'', ''SKILL.md.pending''] \<noteq> None"
proof -
  obtain r d' where run: "write_pending_drafts sample_writer_env sample_writer (sample_result [''a'']) sample_extraction
      ''ollama'' empty_disk = (r, d')" by fastforce
  with sample_write have r: "r = Ok [[''/'', ''g'', ''.skills'', ''a'', ''SKILL.md.pending'']]" by simp
  have root_dir: "\<forall>root_dir. resolve_scope_root (we_env sample_writer_env) (we_fs sample_writer_env) sample_writer sample_extraction =
      Ok root_dir \<longrightarrow> pending_skill_file \<notin> set root_dir" by (simp add: sample_scope pending_skill_file_def)
  from write_pending_drafts_atomic [OF run sample_fresh(2,1) root_dir] run r show ?thesis by (intro exI [of _ d']) auto
qed

text \<open>One candidate can lose a whole batch: if a candidate's slug was rejected before, or two candidates share a slug, no candidate is written, whatever the others are; every file stays as it was.\<close>

theorem one_candidate_blocks_batch:
  assumes "resolve_scope_root (we_env wenv) (we_fs wenv) writer request = Ok root_dir"
    and "(\<exists>c \<in> set (er_candidates res). dk_files d (root_dir @ [''.skills'', slugify_skill_name (ec_name c), rejected_skill_file]) \<noteq> None) \<or>
      \<not> distinct (map (\<lambda>c. slugify_skill_name (ec_name c)) (er_candidates res))"
  shows "\<exists>e d'. write_pending_drafts wenv writer res request provider_name d = (Err e, d') \<and> dk_files d' = dk_files d"
proof -
  obtain r d' where run: "write_pending_drafts wenv writer res request provider_name d = (r, d')" by fastforce
  then show ?thesis
  proof (cases rule: write_pending_drafts_cases)
    case (early e)
    with run show ?thesis by simp
  next
    case (planned scope_root d0 plans)
    from plan_candidates_Ok [OF planned(4)] planned(1,2) assms have False
      by (auto simp: tombstoned_def list_all_iff draft_path_def distinct_map inj_on_def)
    then show ?thesis ..
  qed
qed

lemma split_on_words: "w \<in> set (split_on P s) \<Longrightarrow> set w \<subseteq> {c \<in> set s. \<not> P c}"
proof (induction s arbitrary: w)
  case (Cons c s)
  then show ?case by (fastforce split: if_splits list.splits)
qed simp

lemma set_join: "set (join sep ws) \<subseteq> set sep \<union> \<Union> (set ` set ws)"
  by (induction sep ws rule: join.induct) auto

lemma join_ends: "\<lbrakk>ws \<noteq> []; \<forall>w \<in> set ws. w \<noteq> []\<rbrakk> \<Longrightarrow> join sep ws \<noteq> [] \<and> hd (join sep ws) = hd (hd ws) \<and> last (join sep ws) = last (last ws)"
  by (induction sep ws rule: join.induct) auto

lemma lower_char_alnum: "is_alnum (lower_char c) \<Longrightarrow> lower_char (lower_char c) = lower_char c"
  by (auto simp: lower_char_def)

text \<open>A slug is a plain directory name: not empty, of lower case letters, digits and hyphens only, and neither beginning nor ending with a hyphen, so the path of a draft never leaves the directory of its scope.\<close>

theorem slug_is_plain:
  "slugify_skill_name name \<noteq> [] \<and>
   (\<forall>c \<in> set (slugify_skill_name name). c = CHR ''-'' \<or> (is_alnum c \<and> lower_char c = c)) \<and>
   hd (slugify_skill_name name) \<noteq> CHR ''-'' \<and> last (slugify_skill_name name) \<noteq> CHR ''-''"
proof -
  let ?s = "map (\<lambda>c. if is_alnum c then c else CHR ''-'') (ascii_lower name)"
  let ?ws = "filter (\<lambda>w. w \<noteq> []) (split_on (\<lambda>c. c = CHR ''-'') ?s)"
  have chars: "\<forall>c \<in> set ?s. c = CHR ''-'' \<or> (is_alnum c \<and> lower_char c = c)"
    by (auto simp: ascii_lower_def lower_char_alnum)
  have words: "\<forall>w \<in> set ?ws. w \<noteq> [] \<and> set w \<subseteq> {c \<in> set ?s. c \<noteq> CHR ''-''}"
    using split_on_words [of _ "\<lambda>c. c = CHR ''-''" ?s] by auto
  show ?thesis
  proof (cases "?ws = []")
    case True
    then have slug: "slugify_skill_name name = ''session-extracted-skill''"
      unfolding slugify_skill_name_def Let_def by simp
    have "\<forall>c \<in> set ''session-extracted-skill''. c = CHR ''-'' \<or> (is_alnum c \<and> lower_char c = c)" by code_simp
    then show ?thesis unfolding slug by simp
  next
    case False
    then have ends: "join ''-'' ?ws \<noteq> []" "hd (join ''-'' ?ws) = hd (hd ?ws)" "last (join ''-'' ?ws) = last (last ?ws)"
      using join_ends [of ?ws "''-''"] words by blast+
    have slug: "slugify_skill_name name = join ''-'' ?ws" unfolding slugify_skill_name_def Let_def using ends(1) by simp
    have "hd ?ws \<in> set ?ws" "last ?ws \<in> set ?ws" using False by (rule hd_in_set, rule last_in_set)
    with words have w: "hd ?ws \<noteq> []" "last ?ws \<noteq> []" "CHR ''-'' \<notin> set (hd ?ws)" "CHR ''-'' \<notin> set (last ?ws)" by blast+
    have "hd (hd ?ws) \<noteq> CHR ''-''" using hd_in_set [OF w(1)] w(3) by metis
    moreover have "last (last ?ws) \<noteq> CHR ''-''" using last_in_set [OF w(2)] w(4) by metis
    moreover have "\<forall>c \<in> set (join ''-'' ?ws). c = CHR ''-'' \<or> (is_alnum c \<and> lower_char c = c)"
    proof
      fix c assume "c \<in> set (join ''-'' ?ws)"
      then have "c = CHR ''-'' \<or> (\<exists>w \<in> set ?ws. c \<in> set w)" using set_join [of "''-''" ?ws] by auto
      with words chars show "c = CHR ''-'' \<or> (is_alnum c \<and> lower_char c = c)" by blast
    qed
    ultimately show ?thesis unfolding slug using ends by simp
  qed
qed

end
