(* ===== verification/Orchestrator.thy ===== *)
theory Orchestrator
  imports Draft_Writer Segmentation
begin

text \<open>
  The map and reduce pipeline of one session (\<open>session-extractor/src/orchestrator.rs\<close>) with the shared
  cosine similarity (\<open>infrastructure/src/similarity.rs\<close>).  Language models, embedder and verifier are
  parameters, asked per window and per attempt, since they need not answer the same twice; so are the
  order in which the window tasks finish and which of them panic.  An \<open>Err None\<close> is an index panic.
\<close>

section \<open>Similarity (similarity.rs)\<close>

definition checked_cosine_similarity :: "f32 list \<Rightarrow> f32 list \<Rightarrow> (cosine_similarity_error, f32) result" where
  "checked_cosine_similarity l r =
     (if length l \<noteq> length r then Err (CosDimensionMismatch (length l) (length r))
      else let dot = foldl (\<lambda>a (x, y). fadd a (fmul x y)) (Fin 0) (zip l r);
               l_norm = foldl (\<lambda>a x. fadd a (fmul x x)) (Fin 0) l;
               r_norm = foldl (\<lambda>a y. fadd a (fmul y y)) (Fin 0) r
           in if feq l_norm (Fin 0) \<or> feq r_norm (Fin 0) then Err CosZeroMagnitude
              else Ok (fdiv dot (fmul (fsqrt l_norm) (fsqrt r_norm))))"

section \<open>Configuration, audit and report\<close>

definition reduce_similarity_threshold :: f32 where
  "reduce_similarity_threshold = lit 0.82"

definition prose_window_empty_retry_limit :: nat where
  "prose_window_empty_retry_limit = 2"

definition prose_window_substantive_content_chars :: nat where
  "prose_window_substantive_content_chars = 100"

record orchestration_config =
  oc_segmentation :: segmentation_config
  oc_map_concurrency :: nat
  oc_reduce_similarity_threshold :: f32

definition orchestration_config_default :: orchestration_config where
  "orchestration_config_default = \<lparr>oc_segmentation = segmentation_config_new 8192 3, oc_map_concurrency = 4,
     oc_reduce_similarity_threshold = reduce_similarity_threshold\<rparr>"

datatype reduce_action = Merged string | Kept string

record reduce_audit_entry =
  ra_kept_candidate_name :: string
  ra_other_candidate_name :: string
  ra_cosine_similarity :: f32
  ra_action :: reduce_action

record orchestration_report =
  or_total_episodes :: nat
  or_kept_episode_count :: nat
  or_gated_episode_count :: nat
  or_pre_reduce_candidate_count :: nat
  or_post_reduce_candidate_count :: nat
  or_synthesis_added_count :: nat
  or_final_candidate_count :: nat
  or_reduce_audit :: "reduce_audit_entry list"
  or_draft_paths :: "path list"

record equivalence_decision =
  eq_equivalent :: bool
  eq_rationale :: string

section \<open>One window\<close>

type_synonym prose_extractor = "session_transcript \<Rightarrow> nat \<Rightarrow> (extraction_error, extraction_result) result"

datatype prose_window_outcome =
    Candidates "extracted_skill_candidate list"
  | EmptyOrMalformed string
  | HardError orchestration_error

definition classify_prose_attempt ::
  "(orchestration_error, extracted_skill_candidate list) result \<Rightarrow> nat \<Rightarrow> prose_window_outcome" where
  "classify_prose_attempt res chars =
     (case res of
        Ok cs \<Rightarrow> if cs \<noteq> [] then Candidates cs
                 else if prose_window_substantive_content_chars \<le> chars
                   then EmptyOrMalformed ''model returned zero candidates''
                 else Candidates cs
      | Err (EpisodeExtraction (ExtUnexpected m)) \<Rightarrow>
          if prose_window_substantive_content_chars \<le> chars
          then EmptyOrMalformed (''model returned malformed JSON: '' @ m)
          else HardError (EpisodeExtraction (ExtUnexpected m))
      | Err e \<Rightarrow> HardError e)"

definition window_content_chars :: "session_event list \<Rightarrow> nat" where
  "window_content_chars events = sum_list (map (\<lambda>e. length (te_content e)) (List.map_filter as_transcript_entry events))"

definition window_transcript :: "domain_id \<Rightarrow> string \<Rightarrow> session_event list \<Rightarrow> session_transcript" where
  "window_transcript session_id preamble_text events =
     (let t = events_to_transcript session_id events in
      if preamble_text = [] then t
      else t\<lparr>st_entries := \<lparr>te_speaker = ''system'', te_content = ''[Session context]'' @ newline @ preamble_text\<rparr> #
             st_entries t\<rparr>)"

definition prose_attempt :: "prose_extractor \<Rightarrow> session_transcript \<Rightarrow> nat \<Rightarrow> nat \<Rightarrow> prose_window_outcome" where
  "prose_attempt prose transcript chars k =
     classify_prose_attempt (map_sum EpisodeExtraction er_candidates (prose transcript k)) chars"

text \<open>Attempts \<open>k\<close> up to the limit: the result and the number of calls made.\<close>

function prose_attempts ::
  "prose_extractor \<Rightarrow> session_transcript \<Rightarrow> nat \<Rightarrow> nat \<Rightarrow>
     (orchestration_error, extracted_skill_candidate list) result \<times> nat" where
  "prose_attempts prose transcript chars k =
     (case prose_attempt prose transcript chars k of
        Candidates cs \<Rightarrow> (Ok cs, Suc k)
      | HardError e \<Rightarrow> (Err e, Suc k)
      | EmptyOrMalformed _ \<Rightarrow>
          if k < prose_window_empty_retry_limit then prose_attempts prose transcript chars (Suc k)
          else (Ok [], Suc k))"
  by pat_completeness auto
termination by (relation "measure (\<lambda>(_, _, _, k). prose_window_empty_retry_limit - k)") auto

declare prose_attempts.simps [simp del]

definition extract_prose_window ::
  "session_event list \<Rightarrow> domain_id \<Rightarrow> string \<Rightarrow> prose_extractor \<Rightarrow>
     (orchestration_error, extracted_skill_candidate list) result \<times> nat" where
  "extract_prose_window events session_id preamble_text prose =
     prose_attempts prose (window_transcript session_id preamble_text events) (window_content_chars events) 0"

definition map_one_window ::
  "json_codec \<Rightarrow> session_event list \<Rightarrow> domain_id \<Rightarrow> string \<Rightarrow> labeler \<Rightarrow> prose_extractor \<Rightarrow>
     (orchestration_error, extracted_skill_candidate list) result" where
  "map_one_window codec events session_id preamble_text labeler prose =
     (if events = [] then Ok []
      else rbind (fst (extract_prose_window events session_id preamble_text prose)) (\<lambda>candidates.
        rbind (map_sum SkeletonLabelErr id (map_episode codec labeler events)) (\<lambda>res.
          Ok (case res of SkeletonOutcome c \<Rightarrow> candidates @ [c] | ProseFallback _ \<Rightarrow> candidates))))"

section \<open>Reduce\<close>

definition candidate_semantic_text :: "extracted_skill_candidate \<Rightarrow> string" where
  "candidate_semantic_text c = ec_name c @ newline @ ec_description c @ newline @ join newline (ec_procedures c)"

type_synonym embedder = "string list \<Rightarrow> (embedding_error, f32 list list) result"
type_synonym verifier = "string \<Rightarrow> string \<Rightarrow> (string, equivalence_decision) result"
type_synonym reduce_state = "nat set \<times> reduce_audit_entry list"

definition reduce_pair ::
  "extracted_skill_candidate list \<Rightarrow> f32 list list \<Rightarrow> verifier \<Rightarrow> f32 \<Rightarrow> nat \<Rightarrow> nat \<Rightarrow> reduce_state \<Rightarrow>
     (orchestration_error option, reduce_state) result" where
  "reduce_pair candidates embeddings verifier threshold i j st =
     (if j \<in> fst st then Ok st
      else case (nth_opt embeddings i, nth_opt embeddings j) of
        (Some a, Some b) \<Rightarrow>
          (case checked_cosine_similarity a b of
             Err CosZeroMagnitude \<Rightarrow> Ok st
           | Err e \<Rightarrow> Err (Some (CosineSimilarity e))
           | Ok similarity \<Rightarrow>
               if flt similarity threshold then Ok st
               else (case verifier (candidate_semantic_text (candidates ! i)) (candidate_semantic_text (candidates ! j)) of
                   Err m \<Rightarrow> Err (Some (EquivalenceVerification m))
                 | Ok decision \<Rightarrow>
                     (let entry = (\<lambda>action. \<lparr>ra_kept_candidate_name = ec_name (candidates ! i),
                          ra_other_candidate_name = ec_name (candidates ! j), ra_cosine_similarity = similarity,
                          ra_action = action\<rparr>)
                      in Ok (if eq_equivalent decision
                             then (insert j (fst st), snd st @ [entry (Merged (eq_rationale decision))])
                             else (fst st, snd st @ [entry (Kept (eq_rationale decision))])))))
      | _ \<Rightarrow> Err None)"

fun fold_result :: "('a \<Rightarrow> 's \<Rightarrow> ('e, 's) result) \<Rightarrow> 'a list \<Rightarrow> 's \<Rightarrow> ('e, 's) result" where
  "fold_result f [] st = Ok st"
| "fold_result f (x # xs) st = rbind (f x st) (fold_result f xs)"

definition reduce_row ::
  "extracted_skill_candidate list \<Rightarrow> f32 list list \<Rightarrow> verifier \<Rightarrow> f32 \<Rightarrow> nat \<Rightarrow> reduce_state \<Rightarrow>
     (orchestration_error option, reduce_state) result" where
  "reduce_row candidates embeddings verifier threshold i st =
     (if i \<in> fst st then Ok st
      else fold_result (reduce_pair candidates embeddings verifier threshold i) [Suc i..<length candidates] st)"

definition reduce_candidates ::
  "extracted_skill_candidate list \<Rightarrow> embedder \<Rightarrow> verifier \<Rightarrow> f32 \<Rightarrow>
     (orchestration_error option, extracted_skill_candidate list \<times> reduce_audit_entry list) result" where
  "reduce_candidates candidates embed_batch verifier threshold =
     (if candidates = [] then Ok ([], [])
      else rbind (map_sum (Some \<circ> OrcEmbedding) id (embed_batch (map candidate_semantic_text candidates))) (\<lambda>embeddings.
        rbind (fold_result (reduce_row candidates embeddings verifier threshold) [0..<length candidates] ({}, [])) (\<lambda>st.
          Ok (nths candidates (- fst st), snd st))))"

section \<open>The pipeline\<close>

text \<open>Collecting into the hash map keeps the last event of each source line.\<close>

definition event_by_index :: "session_event list \<Rightarrow> nat \<Rightarrow> session_event option" where
  "event_by_index events = map_of (rev (map (\<lambda>e. (event_index e, e)) events))"

definition window_events :: "session_event list \<Rightarrow> episode \<Rightarrow> session_event list" where
  "window_events events w = List.map_filter (event_by_index events) (ep_event_indices w)"

type_synonym synthesis_pass = "extracted_skill_candidate list \<Rightarrow> string \<Rightarrow> (synthesis_error, extracted_skill_candidate list) result"

record orchestration_env =
  on_codec :: json_codec
  on_normalizer :: "normalizer option"
  on_labeler :: "nat \<Rightarrow> labeler"
  on_prose :: "nat \<Rightarrow> prose_extractor"
  on_panic :: "nat \<Rightarrow> string option"
  on_join_order :: "nat \<Rightarrow> nat list"
  on_embed :: embedder
  on_verifier :: verifier
  on_synthesis :: synthesis_pass

text \<open>The task of window \<open>i\<close>: its candidates or the recorded error text.\<close>

definition window_task ::
  "orchestration_env \<Rightarrow> session_event list \<Rightarrow> domain_id \<Rightarrow> string \<Rightarrow> episode list \<Rightarrow> nat \<Rightarrow>
     (string, extracted_skill_candidate list) result" where
  "window_task oenv events session_id preamble_text windows i =
     (case on_panic oenv i of
        Some m \<Rightarrow> Err (''window task panicked: '' @ m)
      | None \<Rightarrow> map_sum orchestration_error_str id
          (map_one_window (on_codec oenv) (window_events events (windows ! i)) session_id preamble_text
            (on_labeler oenv i) (on_prose oenv i)))"

definition map_windows ::
  "orchestration_env \<Rightarrow> session_event list \<Rightarrow> domain_id \<Rightarrow> string \<Rightarrow> episode list \<Rightarrow>
     (orchestration_error, extracted_skill_candidate list) result" where
  "map_windows oenv events session_id preamble_text windows =
     (let results = map (window_task oenv events session_id preamble_text windows) (on_join_order oenv (length windows)) in
      if oks results = [] \<and> errs results \<noteq> [] then Err (AllWindowsFailed (length windows) (errs results))
      else Ok (concat (oks results)))"

definition run_orchestration ::
  "orchestration_env \<Rightarrow> orchestration_config \<Rightarrow> writer_env \<Rightarrow> pending_draft_writer \<Rightarrow> domain_id \<Rightarrow> session_event list \<Rightarrow>
     extract_session_request \<Rightarrow> string \<Rightarrow> disk \<Rightarrow>
     (orchestration_error option, orchestration_report) result \<times> disk" where
  "run_orchestration oenv config wenv writer session_id events request provider_name d =
     (if events = [] then (Err (Some EmptySession), d)
      else case mine_preamble (on_codec oenv) events (on_normalizer oenv) of
        Err e \<Rightarrow> (Err (Some (PreambleNormalization e)), d)
      | Ok preamble \<Rightarrow>
        (let windows = segment_session events (oc_segmentation config) in
         case map_windows oenv events session_id (pr_text preamble) windows of
           Err e \<Rightarrow> (Err (Some e), d)
         | Ok mapped \<Rightarrow>
           (let pre_reduce = mapped @ preference_skill_candidates preamble in
            case reduce_candidates pre_reduce (on_embed oenv) (on_verifier oenv) (oc_reduce_similarity_threshold config) of
              Err e \<Rightarrow> (Err e, d)
            | Ok (deduped, audit) \<Rightarrow>
              (let added = (case on_synthesis oenv deduped (pr_text preamble) of Ok cs \<Rightarrow> cs | Err _ \<Rightarrow> []);
                   final = deduped @ added;
                   res = \<lparr>er_source_session_id = session_id, er_candidates = final, er_provider = provider_name\<rparr>
               in case write_pending_drafts wenv writer res request provider_name d of
                    (Err e, d') \<Rightarrow> (Err (Some (DraftWrite e)), d')
                  | (Ok draft_paths, d') \<Rightarrow>
                      (Ok \<lparr>or_total_episodes = length windows, or_kept_episode_count = length windows,
                           or_gated_episode_count = 0, or_pre_reduce_candidate_count = length pre_reduce,
                           or_post_reduce_candidate_count = length deduped, or_synthesis_added_count = length added,
                           or_final_candidate_count = length final, or_reduce_audit = audit,
                           or_draft_paths = draft_paths\<rparr>, d')))))"

section \<open>Prose attempts\<close>

lemma prose_attempts_calls:
  "\<lbrakk>prose_attempts prose t chars k = (r, n); k \<le> prose_window_empty_retry_limit\<rbrakk> \<Longrightarrow>
     k < n \<and> n \<le> Suc prose_window_empty_retry_limit \<and>
     (\<forall>j. k \<le> j \<longrightarrow> j < n - 1 \<longrightarrow> (\<exists>reason. prose_attempt prose t chars j = EmptyOrMalformed reason)) \<and>
     (case prose_attempt prose t chars (n - 1) of
        Candidates cs \<Rightarrow> r = Ok cs | HardError e \<Rightarrow> r = Err e
      | EmptyOrMalformed _ \<Rightarrow> r = Ok [] \<and> n = Suc prose_window_empty_retry_limit)"
proof (induction prose t chars k rule: prose_attempts.induct)
  case (1 prose t chars k)
  show ?case
  proof (cases "prose_attempt prose t chars k")
    case (EmptyOrMalformed reason)
    show ?thesis
    proof (cases "k < prose_window_empty_retry_limit")
      case True
      with EmptyOrMalformed "1.prems"(1) have "prose_attempts prose t chars (Suc k) = (r, n)"
        by (simp add: prose_attempts.simps [of prose t chars k])
      moreover have "Suc k \<le> prose_window_empty_retry_limit" using True by simp
      ultimately have IH: "Suc k < n \<and> n \<le> Suc prose_window_empty_retry_limit \<and>
         (\<forall>j. Suc k \<le> j \<longrightarrow> j < n - 1 \<longrightarrow> (\<exists>reason. prose_attempt prose t chars j = EmptyOrMalformed reason)) \<and>
         (case prose_attempt prose t chars (n - 1) of
            Candidates cs \<Rightarrow> r = Ok cs | HardError e \<Rightarrow> r = Err e
          | EmptyOrMalformed _ \<Rightarrow> r = Ok [] \<and> n = Suc prose_window_empty_retry_limit)"
        by (rule "1.IH" [OF EmptyOrMalformed True])
      have "j = k \<or> Suc k \<le> j" if "k \<le> j" for j using that by auto
      with IH EmptyOrMalformed show ?thesis by (intro conjI) (simp_all, blast)
    next
      case False
      with EmptyOrMalformed have "prose_attempts prose t chars k = (Ok [], Suc k)"
        by (simp add: prose_attempts.simps [of prose t chars k])
      with 1(2,3) False EmptyOrMalformed show ?thesis by auto
    qed
  qed (use 1 in \<open>auto simp add: prose_attempts.simps [of prose t chars k]\<close>)
qed

text \<open>A window is asked at most three times: each retry follows an unusable answer of a substantive window, the first usable or hard answer decides, and only three unusable answers are given up as no candidates.\<close>

theorem prose_window_retries:
  assumes "extract_prose_window events session_id preamble_text prose = (r, n)"
  defines "attempt \<equiv> prose_attempt prose (window_transcript session_id preamble_text events) (window_content_chars events)"
  shows "0 < n \<and> n \<le> 3 \<and> (\<forall>j < n - 1. \<exists>reason. attempt j = EmptyOrMalformed reason) \<and>
    (case attempt (n - 1) of Candidates cs \<Rightarrow> r = Ok cs | HardError e \<Rightarrow> r = Err e | EmptyOrMalformed _ \<Rightarrow> r = Ok [] \<and> n = 3)"
  using prose_attempts_calls [OF assms(1) [unfolded extract_prose_window_def]]
  by (auto simp: attempt_def prose_window_empty_retry_limit_def split: prose_window_outcome.splits)

lemma prose_malformed:
  assumes "\<forall>k. \<exists>m. prose t k = Err (ExtUnexpected m)"
  shows "prose_window_substantive_content_chars \<le> chars \<Longrightarrow> fst (prose_attempts prose t chars k) = Ok []"
    and "chars < prose_window_substantive_content_chars \<Longrightarrow> \<exists>e. fst (prose_attempts prose t chars k) = Err e"
proof -
  show "fst (prose_attempts prose t chars k) = Ok []" if "prose_window_substantive_content_chars \<le> chars"
    using assms that
  proof (induction prose t chars k rule: prose_attempts.induct)
    case (1 prose t chars k)
    obtain m where "prose t k = Err (ExtUnexpected m)" using 1(2) by blast
    then have a: "prose_attempt prose t chars k = EmptyOrMalformed (''model returned malformed JSON: '' @ m)"
      using 1(3) by (simp add: prose_attempt_def classify_prose_attempt_def)
    show ?case using 1(1) [OF a _ 1(2,3)] a by (simp add: prose_attempts.simps [of prose t chars k])
  qed
  show "\<exists>e. fst (prose_attempts prose t chars k) = Err e" if "chars < prose_window_substantive_content_chars"
  proof -
    obtain m where "prose t k = Err (ExtUnexpected m)" using assms by blast
    then have "prose_attempt prose t chars k = HardError (EpisodeExtraction (ExtUnexpected m))"
      using that by (simp add: prose_attempt_def classify_prose_attempt_def)
    then show ?thesis by (simp add: prose_attempts.simps [of prose t chars k])
  qed
qed

text \<open>A provider that only ever answers garbage is a success: when every answer for every window is malformed, the windows are substantive and hold no tool arc, and no task panics, the map step reports no error and no candidates, while for windows of less than a hundred bytes it fails.\<close>

theorem malformed_run_succeeds_empty:
  assumes bad: "\<forall>i t k. \<exists>m. on_prose oenv i t k = Err (ExtUnexpected m)"
    and arc: "\<forall>w \<in> set windows. mine_skeleton (on_codec oenv) (window_events events w) = None \<and> window_events events w \<noteq> []"
    and run: "\<forall>i. on_panic oenv i = None" "set (on_join_order oenv (length windows)) = {0..<length windows}" "windows \<noteq> []"
  shows "((\<forall>w \<in> set windows. prose_window_substantive_content_chars \<le> window_content_chars (window_events events w)) \<longrightarrow>
      map_windows oenv events session_id preamble_text windows = Ok []) \<and>
    ((\<forall>w \<in> set windows. window_content_chars (window_events events w) < prose_window_substantive_content_chars) \<longrightarrow>
      (\<exists>es. map_windows oenv events session_id preamble_text windows = Err (AllWindowsFailed (length windows) es)))"
proof -
  let ?task = "window_task oenv events session_id preamble_text windows"
  let ?order = "on_join_order oenv (length windows)"
  have ep: "map_episode (on_codec oenv) l (window_events events w) =
      Ok (ProseFallback ''no actionable tool arc found in episode events'')" if "w \<in> set windows" for l w
    using arc that by (simp add: map_episode_def)
  have ok: "?task i = Ok []" if i: "i < length windows"
    and big: "prose_window_substantive_content_chars \<le> window_content_chars (window_events events (windows ! i))" for i
    using prose_malformed(1) [OF _ big] bad ep nth_mem [OF i] arc run(1)
    by (simp add: window_task_def map_one_window_def extract_prose_window_def)
  have err: "\<exists>e. ?task i = Err e" if i: "i < length windows"
    and small: "window_content_chars (window_events events (windows ! i)) < prose_window_substantive_content_chars" for i
  proof -
    obtain e where "fst (prose_attempts (on_prose oenv i)
        (window_transcript session_id preamble_text (window_events events (windows ! i)))
        (window_content_chars (window_events events (windows ! i))) 0) = Err e"
      using prose_malformed(2) [OF _ small] bad by blast
    then show ?thesis using nth_mem [OF i] arc run(1)
      by (simp add: window_task_def map_one_window_def extract_prose_window_def)
  qed
  have order: "?order \<noteq> []" "\<forall>i \<in> set ?order. i < length windows" using run(2,3) by auto
  show ?thesis
  proof (intro conjI impI)
    assume "\<forall>w \<in> set windows. prose_window_substantive_content_chars \<le> window_content_chars (window_events events w)"
    then have tasks: "\<forall>i \<in> set ?order. ?task i = Ok []" using ok order(2) by simp
    then have m: "map ?task ?order = map (\<lambda>_. Ok []) ?order" by simp
    have o: "oks (map (\<lambda>_. Ok ([] :: extracted_skill_candidate list)) xs) = map (\<lambda>_. []) xs" for xs :: "nat list"
      by (induction xs) auto
    show "map_windows oenv events session_id preamble_text windows = Ok []"
      unfolding map_windows_def Let_def m o using order(1) by simp
  next
    assume "\<forall>w \<in> set windows. window_content_chars (window_events events w) < prose_window_substantive_content_chars"
    then have tasks: "\<forall>i \<in> set ?order. \<exists>e. ?task i = Err e" using err order(2) by simp
    then have "oks (map ?task ?order) = []" by (simp add: oks_Nil_iff)
    moreover have "errs (map ?task ?order) \<noteq> []"
    proof
      assume "errs (map ?task ?order) = []"
      then have "set (errs (map ?task ?order)) = {}" by simp
      with tasks order(1) show False by (fastforce simp: set_errs neq_Nil_conv)
    qed
    ultimately show "\<exists>es. map_windows oenv events session_id preamble_text windows = Err (AllWindowsFailed (length windows) es)"
      by (simp add: map_windows_def Let_def)
  qed
qed

section \<open>What reaches the map step\<close>

lemma map_of_rev_last:
  "map_of (rev (map (\<lambda>e. (f e, e)) es)) i = (if filter (\<lambda>e. f e = i) es = [] then None else Some (last (filter (\<lambda>e. f e = i) es)))"
  by (induction es rule: rev_induct) auto

lemma event_by_index_last:
  "event_by_index events i =
     (let line = [e \<leftarrow> events. event_index e = i] in if line = [] then None else Some (last line))"
  by (simp add: event_by_index_def map_of_rev_last Let_def)

text \<open>Only the last event of each transcript line reaches the map step: a window built from parsed events holds no file edit at all, since each is followed by its tool call on the same line, and of an assistant line with text and a tool call only the call.\<close>

theorem window_keeps_last_event_of_line:
  assumes "e \<in> set (window_events (pe_events (parse_session_events codec payload)) w)"
  shows "\<not> is_file_edit e \<and> (\<exists>i < length (str_lines payload).
    let line = fst (line_events codec i (str_lines payload ! i)) in line \<noteq> [] \<and> e = last line)"
proof -
  obtain i where "event_by_index (pe_events (parse_session_events codec payload)) i = Some e"
    using assms by (auto simp: window_events_def map_filter_Some_set)
  then have i: "i < length (str_lines payload)" "fst (line_events codec i (str_lines payload ! i)) \<noteq> []"
    "e = last (fst (line_events codec i (str_lines payload ! i)))"
    by (auto simp: event_by_index_last events_of_line Let_def split: if_splits)
  moreover have "\<not> is_file_edit e"
    using i line_events_ok [of i codec "str_lines payload ! i"] by (simp add: line_ok_def edit_closed_def)
  ultimately show ?thesis by (auto simp: Let_def)
qed

section \<open>Reduce keeps account\<close>

definition merged_into :: "extracted_skill_candidate list \<Rightarrow> nat \<Rightarrow> nat \<Rightarrow> reduce_audit_entry list \<Rightarrow> bool" where
  "merged_into cs k j audit \<longleftrightarrow> (\<exists>similarity rationale. \<lparr>ra_kept_candidate_name = ec_name (cs ! k),
     ra_other_candidate_name = ec_name (cs ! j), ra_cosine_similarity = similarity, ra_action = Merged rationale\<rparr> \<in> set audit)"

text \<open>The verifier was asked about a near pair and called it different.\<close>

definition judged_apart :: "extracted_skill_candidate list \<Rightarrow> f32 list list \<Rightarrow> verifier \<Rightarrow> f32 \<Rightarrow> nat \<Rightarrow> nat \<Rightarrow> bool" where
  "judged_apart cs embs verifier threshold i j \<longleftrightarrow>
     (\<forall>similarity. checked_cosine_similarity (embs ! i) (embs ! j) = Ok similarity \<longrightarrow> \<not> flt similarity threshold \<longrightarrow>
       (\<exists>decision. verifier (candidate_semantic_text (cs ! i)) (candidate_semantic_text (cs ! j)) = Ok decision \<and>
         \<not> eq_equivalent decision))"

definition reduce_inv ::
  "extracted_skill_candidate list \<Rightarrow> f32 list list \<Rightarrow> verifier \<Rightarrow> f32 \<Rightarrow> nat \<Rightarrow> (nat \<times> nat) set \<Rightarrow> reduce_state \<Rightarrow> bool" where
  "reduce_inv cs embs verifier threshold r seen st \<longleftrightarrow>
     (\<forall>j \<in> fst st. j < length cs \<and> (\<exists>k < j. k < r \<and> k \<notin> fst st \<and> merged_into cs k j (snd st))) \<and>
     (\<forall>(i, j) \<in> seen. i \<notin> fst st \<longrightarrow> j \<notin> fst st \<longrightarrow> judged_apart cs embs verifier threshold i j)"

lemma merged_into_append: "merged_into cs k j audit \<Longrightarrow> merged_into cs k j (audit @ xs)"
  by (auto simp: merged_into_def)

lemma reduce_pair_inv:
  assumes run: "reduce_pair cs embs verifier threshold i j st = Ok st'"
    and inv: "reduce_inv cs embs verifier threshold (Suc i) seen st" and i: "i \<notin> fst st" and ij: "i < j" "j < length cs"
  shows "reduce_inv cs embs verifier threshold (Suc i) (insert (i, j) seen) st' \<and> i \<notin> fst st' \<and> fst st \<subseteq> fst st'"
proof -
  consider (same) "st' = st" "j \<in> fst st \<or> judged_apart cs embs verifier threshold i j"
    | (merge) sim rat where "st' = (insert j (fst st), snd st @ [\<lparr>ra_kept_candidate_name = ec_name (cs ! i),
        ra_other_candidate_name = ec_name (cs ! j), ra_cosine_similarity = sim, ra_action = Merged rat\<rparr>])"
    | (keep) entry where "st' = (fst st, snd st @ [entry])" "judged_apart cs embs verifier threshold i j"
    using run by (auto simp: reduce_pair_def nth_opt_def judged_apart_def Let_def
        split: if_split_asm sum.split_asm cosine_similarity_error.split_asm option.split_asm)
  then show ?thesis
  proof cases
    case same
    with inv i show ?thesis by (auto simp: reduce_inv_def)
  next
    case merge
    have "\<exists>k < m. k < Suc i \<and> k \<notin> fst st' \<and> merged_into cs k m (snd st')" if m: "m \<in> fst st'" for m
    proof (cases "m = j")
      case True
      then show ?thesis using i ij merge by (intro exI [of _ i]) (auto simp: merged_into_def)
    next
      case False
      with m merge have "m \<in> fst st" by simp
      then obtain k where "k < m" "k < Suc i" "k \<notin> fst st" "merged_into cs k m (snd st)"
        using inv by (auto simp: reduce_inv_def)
      then show ?thesis using ij(1) merge merged_into_append by (intro exI [of _ k]) auto
    qed
    then show ?thesis using inv i ij merge by (auto simp: reduce_inv_def)
  next
    case keep
    have "\<exists>k < m. k < Suc i \<and> k \<notin> fst st \<and> merged_into cs k m (snd st @ [entry])" if "m \<in> fst st" for m
      using inv that merged_into_append unfolding reduce_inv_def by meson
    with keep inv i show ?thesis by (auto simp: reduce_inv_def)
  qed
qed

lemma reduce_row_fold_inv:
  "\<lbrakk>fold_result (reduce_pair cs embs verifier threshold i) js st = Ok st';
    reduce_inv cs embs verifier threshold (Suc i) seen st; i \<notin> fst st; \<forall>j \<in> set js. i < j \<and> j < length cs\<rbrakk> \<Longrightarrow>
   reduce_inv cs embs verifier threshold (Suc i) ({i} \<times> set js \<union> seen) st'"
proof (induction js arbitrary: st seen)
  case (Cons j js)
  then obtain st1 where p: "reduce_pair cs embs verifier threshold i j st = Ok st1"
    and f: "fold_result (reduce_pair cs embs verifier threshold i) js st1 = Ok st'" by (auto simp: rbind_Inr_iff)
  have "reduce_inv cs embs verifier threshold (Suc i) (insert (i, j) seen) st1 \<and> i \<notin> fst st1"
    using reduce_pair_inv [OF p Cons.prems(2,3)] Cons.prems(4) by simp
  moreover have "\<forall>j \<in> set js. i < j \<and> j < length cs" using Cons.prems(4) by simp
  ultimately have "reduce_inv cs embs verifier threshold (Suc i) ({i} \<times> set js \<union> insert (i, j) seen) st'"
    using Cons.IH [OF f] by blast
  moreover have "{i} \<times> set (j # js) \<union> seen = {i} \<times> set js \<union> insert (i, j) seen" by auto
  ultimately show ?case by simp
qed simp

lemma reduce_rows_inv:
  "\<lbrakk>fold_result (reduce_row cs embs verifier threshold) [r..<length cs] st = Ok st';
    reduce_inv cs embs verifier threshold r {(i, j). i < r \<and> i < j \<and> j < length cs} st; r \<le> length cs\<rbrakk> \<Longrightarrow>
   reduce_inv cs embs verifier threshold (length cs) {(i, j). i < j \<and> j < length cs} st'"
proof (induction "length cs - r" arbitrary: r st)
  case 0
  then have "r = length cs" "st' = st" by simp_all
  moreover have "{(i, j). i < length cs \<and> i < j \<and> j < length cs} = {(i, j). i < j \<and> j < length cs}" by auto
  ultimately show ?case using 0 by simp
next
  case (Suc n)
  then have r: "[r..<length cs] = r # [Suc r..<length cs]" by (simp add: upt_conv_Cons)
  then obtain st1 where row: "reduce_row cs embs verifier threshold r st = Ok st1"
    and f: "fold_result (reduce_row cs embs verifier threshold) [Suc r..<length cs] st1 = Ok st'"
    using Suc.prems(1) by (auto simp: rbind_Inr_iff)
  have inv: "reduce_inv cs embs verifier threshold (Suc r) {(i, j). i < r \<and> i < j \<and> j < length cs} st"
    using Suc.prems(2) less_SucI unfolding reduce_inv_def by blast
  have "reduce_inv cs embs verifier threshold (Suc r) ({r} \<times> set [Suc r..<length cs] \<union> {(i, j). i < r \<and> i < j \<and> j < length cs}) st1"
  proof (cases "r \<in> fst st")
    case True
    with row inv show ?thesis by (auto simp: reduce_row_def reduce_inv_def)
  next
    case False
    with row show ?thesis by (intro reduce_row_fold_inv [OF _ inv]) (auto simp: reduce_row_def)
  qed
  moreover have "{r} \<times> set [Suc r..<length cs] \<union> {(i, j). i < r \<and> i < j \<and> j < length cs} =
      {(i, j). i < Suc r \<and> i < j \<and> j < length cs}" by (auto simp: less_Suc_eq)
  ultimately show ?case using Suc.hyps(1) [OF _ f] Suc.hyps(2) by simp
qed

text \<open>C18: The reduce step loses nothing silently: what it returns are the candidates not absorbed, in order; each absorbed candidate has a merge entry into an earlier one that itself survives; the first candidate always survives; and of two survivors close enough to be compared the verifier said they differ.\<close>

theorem reduce_accounts_for_all:
  assumes "reduce_candidates cs embed_batch verifier threshold = Ok (deduped, audit)"
  shows "\<exists>removed. removed \<subseteq> {0<..<length cs} \<and> deduped = nths cs (- removed) \<and>
    (\<forall>j \<in> removed. \<exists>k < j. k \<notin> removed \<and> merged_into cs k j audit) \<and>
    (\<forall>embs i j. embed_batch (map candidate_semantic_text cs) = Ok embs \<longrightarrow> i < j \<longrightarrow> j < length cs \<longrightarrow> i \<notin> removed \<longrightarrow> j \<notin> removed \<longrightarrow>
      judged_apart cs embs verifier threshold i j)"
proof (cases "cs = []")
  case True
  with assms show ?thesis by (intro exI [of _ "{}"]) (auto simp: reduce_candidates_def)
next
  case False
  with assms obtain embs st where emb: "embed_batch (map candidate_semantic_text cs) = Ok embs"
    and f: "fold_result (reduce_row cs embs verifier threshold) [0..<length cs] ({}, []) = Ok st"
    and r: "deduped = nths cs (- fst st)" "audit = snd st"
    by (cases "embed_batch (map candidate_semantic_text cs)") (auto simp: reduce_candidates_def rbind_Inr_iff)
  have "reduce_inv cs embs verifier threshold (length cs) {(i, j). i < j \<and> j < length cs} st"
    by (rule reduce_rows_inv [OF f]) (auto simp: reduce_inv_def)
  then have inv: "\<And>j. j \<in> fst st \<Longrightarrow> j < length cs \<and> (\<exists>k < j. k \<notin> fst st \<and> merged_into cs k j audit)"
    "\<And>i j. i < j \<Longrightarrow> j < length cs \<Longrightarrow> i \<notin> fst st \<Longrightarrow> j \<notin> fst st \<Longrightarrow> judged_apart cs embs verifier threshold i j"
    unfolding reduce_inv_def r(2) by blast+
  show ?thesis
  proof (intro exI [of _ "fst st"] conjI allI impI)
    show "fst st \<subseteq> {0<..<length cs}" using inv(1) by fastforce
    show "deduped = nths cs (- fst st)" by (rule r(1))
    show "\<forall>j \<in> fst st. \<exists>k < j. k \<notin> fst st \<and> merged_into cs k j audit" using inv(1) by blast
  next
    fix embs' i j assume "embed_batch (map candidate_semantic_text cs) = Ok embs'" "i < j" "j < length cs" "i \<notin> fst st" "j \<notin> fst st"
    with inv(2) emb show "judged_apart cs embs' verifier threshold i j" by simp
  qed
qed

text \<open>Skeleton mining is not only additive: when a window holds an arc and the labeler fails, the candidates the prose extractor had found in it are lost with the window.\<close>

theorem labeler_failure_discards_prose:
  assumes "fst (extract_prose_window events session_id preamble_text prose) = Ok cs" and "events \<noteq> []"
    and "mine_skeleton codec events = Some skeleton" and "labeler skeleton = Err e"
  shows "map_one_window codec events session_id preamble_text labeler prose = Err (SkeletonLabelErr e)"
  using assms by (simp add: map_one_window_def map_episode_def)

section \<open>The run\<close>

lemma commit_plans_paths:
  "commit_plans faults temps moved committed ps d = (Ok committed', d') \<Longrightarrow> committed' = committed @ map wl_pending_path ps"
proof (induction ps arbitrary: committed d)
  case (Cons p ps)
  then obtain d1 where "commit_plans faults temps moved (committed @ [wl_pending_path p]) ps d1 = (Ok committed', d')"
    by (auto split: prod.split_asm sum.split_asm)
  from Cons.IH [OF this] show ?case by simp
qed simp

lemma write_pending_drafts_length:
  assumes "write_pending_drafts wenv writer res request provider_name d = (Ok paths, d')"
  shows "length paths = length (er_candidates res)"
  using assms
proof (cases rule: write_pending_drafts_cases)
  case (planned scope_root d0 plans)
  have len: "length plans = length (er_candidates res)" using plan_candidates_Ok [OF planned(4)] by simp
  show ?thesis
  proof (cases "plans = []")
    case False
    with planned(5) have "commit_batch (we_faults wenv) plans d0 = (Ok paths, d')" by simp
    then have "paths = map wl_pending_path plans"
      by (auto simp: commit_batch_def Let_def dest: commit_plans_paths split: prod.split_asm sum.split_asm)
    with len show ?thesis by simp
  qed (use planned(5) len in simp)
qed simp

lemma mset_concat_oks:
  "mset (concat (oks (map f xs))) = sum_mset (image_mset (\<lambda>x. case f x of Ok cs \<Rightarrow> mset cs | Err _ \<Rightarrow> {#}) (mset xs))"
  by (induction xs) (auto split: sum.splits)

lemma length_nths_le: "length (nths xs A) \<le> length xs"
proof -
  have "card {i. i < length xs \<and> i \<in> A} \<le> card {..<length xs}" by (intro card_mono) auto
  then show ?thesis by (simp add: length_nths)
qed

lemma reduce_candidates_le:
  "reduce_candidates cs embed_batch verifier threshold = Ok (deduped, audit) \<Longrightarrow> length deduped \<le> length cs"
  by (auto simp: reduce_candidates_def rbind_Inr_iff length_nths_le split: if_split_asm)

lemma segment_session_nonempty: "events \<noteq> [] \<Longrightarrow> segment_session events config \<noteq> []"
  by (simp add: segment_session_def windows_from_unfold)

lemma run_orchestration_OkE:
  assumes run: "run_orchestration oenv config wenv writer session_id events request provider_name d = (Ok report, d')"
  obtains (accounted) preamble mapped deduped audit added paths where
    "events \<noteq> []" "mine_preamble (on_codec oenv) events (on_normalizer oenv) = Ok preamble"
    "map_windows oenv events session_id (pr_text preamble) (segment_session events (oc_segmentation config)) = Ok mapped"
    "reduce_candidates (mapped @ preference_skill_candidates preamble) (on_embed oenv) (on_verifier oenv)
       (oc_reduce_similarity_threshold config) = Ok (deduped, audit)"
    "write_pending_drafts wenv writer \<lparr>er_source_session_id = session_id, er_candidates = deduped @ added,
       er_provider = provider_name\<rparr> request provider_name d = (Ok paths, d')"
    "report = \<lparr>or_total_episodes = length (segment_session events (oc_segmentation config)),
       or_kept_episode_count = length (segment_session events (oc_segmentation config)),
       or_gated_episode_count = 0, or_pre_reduce_candidate_count = length (mapped @ preference_skill_candidates preamble),
       or_post_reduce_candidate_count = length deduped, or_synthesis_added_count = length added,
       or_final_candidate_count = length (deduped @ added), or_reduce_audit = audit, or_draft_paths = paths\<rparr>"
    "added = (case on_synthesis oenv deduped (pr_text preamble) of Ok cs \<Rightarrow> cs | Err _ \<Rightarrow> [])"
proof -
  note run' = run [unfolded run_orchestration_def Let_def]
  from run have ne: "events \<noteq> []" by (auto simp: run_orchestration_def)
  from run' ne obtain preamble where p: "mine_preamble (on_codec oenv) events (on_normalizer oenv) = Ok preamble"
    by (cases "mine_preamble (on_codec oenv) events (on_normalizer oenv)") auto
  from run' ne p obtain mapped where
    m: "map_windows oenv events session_id (pr_text preamble) (segment_session events (oc_segmentation config)) = Ok mapped"
    by (cases "map_windows oenv events session_id (pr_text preamble) (segment_session events (oc_segmentation config))") auto
  from run' ne p m obtain deduped audit where r: "reduce_candidates (mapped @ preference_skill_candidates preamble)
      (on_embed oenv) (on_verifier oenv) (oc_reduce_similarity_threshold config) = Ok (deduped, audit)"
    by (cases "reduce_candidates (mapped @ preference_skill_candidates preamble) (on_embed oenv) (on_verifier oenv)
      (oc_reduce_similarity_threshold config)") auto
  let ?added = "case on_synthesis oenv deduped (pr_text preamble) of Ok cs \<Rightarrow> cs | Err _ \<Rightarrow> []"
  let ?w = "write_pending_drafts wenv writer \<lparr>er_source_session_id = session_id, er_candidates = deduped @ ?added,
       er_provider = provider_name\<rparr> request provider_name d"
  obtain wr d2 where w: "?w = (wr, d2)" by (cases ?w)
  from run' ne p m r w obtain paths where wr: "wr = Ok paths" by (cases wr) simp_all
  from run' ne p m r w wr show thesis by (intro accounted [OF ne p m r, of ?added paths]) simp_all
qed

text \<open>C16: A run that succeeds accounts for every window and candidate: some window was mapped; what enters the reduce step are, whatever failed beside them and in whatever order the tasks finished, exactly the candidates of all windows whose task did not fail, followed by those of the preamble's preferences; what it keeps and what the synthesis adds, nothing when the synthesis fails, is what the drafts are written of, one per candidate; and every count of the report is that of its list.\<close>

theorem run_orchestration_accounts:
  fixes oenv events session_id config
  defines "windows \<equiv> segment_session events (oc_segmentation config)"
  assumes run: "run_orchestration oenv config wenv writer session_id events request provider_name d = (Ok report, d')"
    and order: "mset (on_join_order oenv (length windows)) = mset [0..<length windows]"
  shows "\<exists>preamble mapped deduped added. mine_preamble (on_codec oenv) events (on_normalizer oenv) = Ok preamble \<and>
    (let task = window_task oenv events session_id (pr_text preamble) windows in
     (\<exists>i < length windows. \<exists>cs. task i = Ok cs) \<and>
     mset mapped = (\<Sum>i < length windows. case task i of Ok cs \<Rightarrow> mset cs | Err _ \<Rightarrow> {#})) \<and>
    reduce_candidates (mapped @ map preference_to_skill_candidate (pr_preferences preamble)) (on_embed oenv) (on_verifier oenv)
      (oc_reduce_similarity_threshold config) = Ok (deduped, or_reduce_audit report) \<and>
    added = (case on_synthesis oenv deduped (pr_text preamble) of Ok cs \<Rightarrow> cs | Err _ \<Rightarrow> []) \<and>
    write_pending_drafts wenv writer \<lparr>er_source_session_id = session_id, er_candidates = deduped @ added,
      er_provider = provider_name\<rparr> request provider_name d = (Ok (or_draft_paths report), d') \<and>
    or_total_episodes report = length windows \<and> or_kept_episode_count report = length windows \<and> or_gated_episode_count report = 0 \<and>
    or_pre_reduce_candidate_count report = length mapped + length (pr_preferences preamble) \<and>
    or_post_reduce_candidate_count report = length deduped \<and> length deduped \<le> length mapped + length (pr_preferences preamble) \<and>
    or_synthesis_added_count report = length added \<and> or_final_candidate_count report = length deduped + length added \<and>
    length (or_draft_paths report) = length deduped + length added"
  using run
proof (cases rule: run_orchestration_OkE)
  case (accounted preamble mapped deduped audit added paths)
  note ne = accounted(1) and p = accounted(2) and m = accounted(3) [folded windows_def] and r = accounted(4)
    and w = accounted(5) and report = accounted(6) [folded windows_def] and added = accounted(7)
  let ?task = "window_task oenv events session_id (pr_text preamble) windows"
  let ?order = "on_join_order oenv (length windows)"
  have set: "set ?order = {..<length windows}" using mset_eq_setD [OF order] by (simp add: lessThan_atLeast0)
  have wne: "windows \<noteq> []" unfolding windows_def using ne by (rule segment_session_nonempty)
  have mapped: "mapped = concat (oks (map ?task ?order))" and some: "oks (map ?task ?order) \<noteq> [] \<or> errs (map ?task ?order) = []"
    using m by (auto simp: map_windows_def Let_def split: if_split_asm)
  have "0 \<in> set ?order" unfolding set using wne by simp
  then have "?order \<noteq> []" by force
  then have "length (oks (map ?task ?order)) + length (errs (map ?task ?order)) \<noteq> 0"
    unfolding length_oks_errs by simp
  then have "oks (map ?task ?order) \<noteq> []" using some by force
  then obtain r where "r \<in> set (map ?task ?order)" and notErr: "\<not> (\<exists>e. r = Err e)" unfolding oks_Nil_iff by blast
  then obtain i where i: "i \<in> set ?order" and ri: "r = ?task i" by auto
  from notErr obtain cs where "?task i = Ok cs" unfolding ri by (cases "?task i") auto
  with i have one: "\<exists>i < length windows. \<exists>cs. ?task i = Ok cs" using set by auto
  have all: "mset mapped = (\<Sum>i < length windows. case ?task i of Ok cs \<Rightarrow> mset cs | Err _ \<Rightarrow> {#})"
    unfolding mapped mset_concat_oks order by (simp add: lessThan_atLeast0 sum_unfold_sum_mset)
  show ?thesis
    using p one all r w added reduce_candidates_le [OF r] write_pending_drafts_length [OF w]
    by (intro exI [of _ preamble] exI [of _ mapped] exI [of _ deduped] exI [of _ added])
       (simp add: report preference_skill_candidates_def)
qed

section \<open>Sample runs\<close>


definition one_window :: episode where
  "one_window = \<lparr>ep_event_indices = [0], ep_arc_id = None\<rparr>"

definition usual_embed :: embedder where
  "usual_embed texts = Ok (map (\<lambda>_. [Fin 1]) texts)"

definition same_verifier :: verifier where
  "same_verifier a b = Ok \<lparr>eq_equivalent = True, eq_rationale = ''same''\<rparr>"

definition sample_orchestration :: "prose_extractor \<Rightarrow> orchestration_env" where
  "sample_orchestration prose = \<lparr>on_codec = plain_json, on_normalizer = None, on_labeler = (\<lambda>_ _. Err (LabelerFailed ''down'')),
     on_prose = (\<lambda>_. prose), on_panic = (\<lambda>_. None), on_join_order = (\<lambda>n. [0..<n]), on_embed = usual_embed,
     on_verifier = same_verifier, on_synthesis = (\<lambda>_ _. Ok [])\<rparr>"

definition one_prose :: prose_extractor where
  "one_prose t k = Ok (sample_result [''a''])"

definition greeting :: "session_event list" where
  "greeting = [UserMessage 0 ''hi'']"

lemma reduce_same:
  "reduce_candidates [sample_found ''a'', sample_found ''b''] usual_embed same_verifier (Fin 0) =
     Ok ([sample_found ''a''], [\<lparr>ra_kept_candidate_name = ''a'', ra_other_candidate_name = ''b'',
       ra_cosine_similarity = Fin 1, ra_action = Merged ''same''\<rparr>])"
  by code_simp

theorem reduce_accounts_for_all_witness:
  "\<exists>removed. [sample_found ''a''] = nths [sample_found ''a'', sample_found ''b''] (- removed)"
  using reduce_accounts_for_all [OF reduce_same] by blast


lemma sample_orchestration_run:
  "map_sum id or_draft_paths (fst (run_orchestration (sample_orchestration one_prose) orchestration_config_default sample_writer_env
     sample_writer (DomainId ''s'') greeting sample_extraction ''ollama'' empty_disk)) =
   Ok [[''/'', ''g'', ''.skills'', ''a'', ''SKILL.md.pending'']]"
  by code_simp

theorem run_orchestration_accounts_witness:
  "\<exists>report d'. run_orchestration (sample_orchestration one_prose) orchestration_config_default sample_writer_env sample_writer
     (DomainId ''s'') greeting sample_extraction ''ollama'' empty_disk = (Ok report, d') \<and>
   or_draft_paths report = [[''/'', ''g'', ''.skills'', ''a'', ''SKILL.md.pending'']] \<and> or_final_candidate_count report = 1"
proof -
  let ?run = "run_orchestration (sample_orchestration one_prose) orchestration_config_default sample_writer_env sample_writer
     (DomainId ''s'') greeting sample_extraction ''ollama'' empty_disk"
  obtain r d' where run: "?run = (r, d')" by (cases ?run)
  with sample_orchestration_run obtain report where r: "r = Ok report" "or_draft_paths report = [[''/'', ''g'', ''.skills'', ''a'', ''SKILL.md.pending'']]"
    by (cases r) auto
  have "on_join_order (sample_orchestration one_prose) n = [0..<n]" for n by (simp add: sample_orchestration_def)
  with run_orchestration_accounts [OF run [unfolded r(1)]] have "length (or_draft_paths report) = or_final_candidate_count report"
    by (auto simp: Let_def)
  with run r show ?thesis by auto
qed

definition garbage :: prose_extractor where
  "garbage t k = Err (ExtUnexpected ''not json'')"

definition long_message :: "session_event list" where
  "long_message = [UserMessage 0 (replicate 100 CHR ''x'')]"

lemma garbage_run: "extract_prose_window long_message (DomainId ''s'') [] garbage = (Ok [], 3)"
  by code_simp

theorem prose_window_retries_witness:
  "\<forall>j < 2. \<exists>reason. prose_attempt garbage (window_transcript (DomainId ''s'') [] long_message) (window_content_chars long_message) j =
     EmptyOrMalformed reason"
  using prose_window_retries [OF garbage_run] by simp

theorem malformed_run_succeeds_empty_witness:
  "map_windows (sample_orchestration garbage) long_message (DomainId ''s'') [] [one_window] = Ok []"
proof -
  have w: "window_events long_message one_window = long_message"
    by (simp add: window_events_def event_by_index_def one_window_def long_message_def map_filter_simps)
  have "mine_skeleton (on_codec (sample_orchestration garbage)) long_message = None" "long_message \<noteq> []" by code_simp+
  moreover have "prose_window_substantive_content_chars \<le> window_content_chars long_message" by code_simp
  moreover have "\<forall>i t k. \<exists>m. on_prose (sample_orchestration garbage) i t k = Err (ExtUnexpected m)" "\<forall>i. on_panic (sample_orchestration garbage) i = None"
    "set (on_join_order (sample_orchestration garbage) (length [one_window])) = {0..<length [one_window]}"
    by (auto simp: sample_orchestration_def garbage_def)
  ultimately show ?thesis
    using malformed_run_succeeds_empty [where oenv = "sample_orchestration garbage" and windows = "[one_window]" and events = long_message] w by simp
qed

lemma failing_prose: "extract_prose_window failing_run (DomainId ''s'') [] one_prose = (Ok [sample_found ''a''], 1)"
  by code_simp

theorem labeler_failure_discards_prose_witness:
  "map_one_window plain_json failing_run (DomainId ''s'') [] (\<lambda>_. Err (LabelerFailed ''down'')) one_prose =
     Err (SkeletonLabelErr (LabelerFailed ''down''))"
  by (rule labeler_failure_discards_prose [OF _ _ failing_run_skeleton, where cs = "[sample_found ''a'']"])
    (simp add: failing_prose, simp add: failing_run_def, simp)

end
