(* ===== verification/Session_Extractor.thy ===== *)
theory Session_Extractor
  imports Orchestrator Worker_Pool Transcript_Queue
begin

text \<open>
  The session extractor (\<open>session-extractor/src/lib.rs\<close>): one job on either run path, its lifecycle
  events, the blocking call of the queue drain and the entry point that hands jobs to the worker pool.
  The state is the disk, the events recorded in the process and those the bus accepted.  The seams, the
  provider, the bus, fresh identifiers and the clock are given per job; the outcome \<open>None\<close> is a panic
  of the job.  The last section runs the drain of the maintenance worker on this extractor.
\<close>

section \<open>The extractor and its state\<close>

text \<open>\<open>EventEnvelope\<close> has the fields of the outbox event it converts to.\<close>

type_synonym event_envelope = outbox_event

record session_extractor =
  sx_provider :: extraction_provider
  sx_run_path :: extraction_run_path
  sx_routing_decision :: routing_decision
  sx_transcript_loader :: transcript_loader
  sx_draft_writer :: pending_draft_writer
  sx_retry_policy :: retry_policy

record job_env =
  je_job_id :: string
  je_seams :: orchestration_env
  je_extract :: "session_transcript \<Rightarrow> nat \<Rightarrow> (extraction_error, extraction_result) result"
  je_writer :: writer_env
  je_publish :: "event_envelope \<Rightarrow> (string, unit) result"
  je_stamp :: "nat \<Rightarrow> uuid \<times> uuid \<times> int"

record extractor_state =
  xs_disk :: disk
  xs_events :: "event_envelope list"
  xs_published :: "event_envelope list"

definition event_envelope_new :: "uuid \<times> uuid \<times> int \<Rightarrow> string \<Rightarrow> string \<Rightarrow> json \<Rightarrow> event_envelope" where
  "event_envelope_new stamp ty key payload =
     (case stamp of (event_id, correlation_id, now) \<Rightarrow>
        \<lparr>oe_event_id = event_id, oe_event_type = ty, oe_correlation_id = correlation_id, oe_idempotency_key = key,
         oe_schema_version = 1, oe_timestamp = now, oe_payload = payload\<rparr>)"

definition publish_lifecycle_event ::
  "job_env \<Rightarrow> event_envelope \<Rightarrow> extractor_state \<Rightarrow> (session_extraction_error, unit) result \<times> extractor_state" where
  "publish_lifecycle_event env envelope st =
     (let pushed = st\<lparr>xs_events := xs_events st @ [envelope]\<rparr> in
      case je_publish env envelope of
        Err m \<Rightarrow> (Err (SexEventPublication m), pushed)
      | Ok _ \<Rightarrow> (Ok (), pushed\<lparr>xs_published := xs_published st @ [envelope]\<rparr>))"

text \<open>An event whose publication error is only logged.\<close>

definition publish_logged :: "job_env \<Rightarrow> string \<Rightarrow> string \<Rightarrow> json \<Rightarrow> extractor_state \<Rightarrow> extractor_state" where
  "publish_logged env ty key payload st =
     snd (publish_lifecycle_event env (event_envelope_new (je_stamp env (length (xs_events st))) ty key payload) st)"

definition scope_relative_draft_paths :: "path list \<Rightarrow> string list" where
  "scope_relative_draft_paths = map relative_draft_path"

definition terminal_payload :: "session_extractor \<Rightarrow> string \<Rightarrow> extraction_outcome \<Rightarrow> json" where
  "terminal_payload sx job_id res =
     (case res of
        Completed draft_paths source_session_id \<Rightarrow> JObj
          [(''job_id'', JStr job_id), (''provider'', JStr (provider_str (sx_provider sx))),
           (''source_session_id'', JStr source_session_id), (''draft_count'', JNum (of_nat (length draft_paths))),
           (''draft_paths'', JArr (map JStr (scope_relative_draft_paths draft_paths)))]
      | Failed e \<Rightarrow> JObj
          [(''job_id'', JStr job_id), (''provider'', JStr (provider_str (sx_provider sx))),
           (''reason_code'', JStr (session_error_reason e)), (''error'', JStr (session_error_str e))])"

definition terminal_type :: "extraction_outcome \<Rightarrow> string" where
  "terminal_type res = (case res of Completed _ _ \<Rightarrow> ''extraction.completed'' | Failed _ \<Rightarrow> ''extraction.failed'')"

definition publish_terminal_event ::
  "session_extractor \<Rightarrow> job_env \<Rightarrow> string \<Rightarrow> extraction_outcome \<Rightarrow> extractor_state \<Rightarrow> extractor_state" where
  "publish_terminal_event sx env job_id res =
     publish_logged env (terminal_type res) (terminal_type res @ '':'' @ job_id) (terminal_payload sx job_id res)"

definition publish_timeout_event :: "session_extractor \<Rightarrow> job_env \<Rightarrow> string \<Rightarrow> extractor_state \<Rightarrow> extractor_state" where
  "publish_timeout_event sx env job_id =
     publish_logged env ''extraction.failed'' (''extraction.failed:'' @ job_id)
       (JObj [(''job_id'', JStr job_id), (''provider'', JStr (provider_str (sx_provider sx))),
              (''error'', JStr ''extraction timed out'')])"

definition publish_ceiling_exhausted_event ::
  "session_extractor \<Rightarrow> job_env \<Rightarrow> string \<Rightarrow> extractor_state \<Rightarrow> extractor_state" where
  "publish_ceiling_exhausted_event sx env job_id =
     publish_logged env ''extraction.failed'' (''extraction.failed:'' @ job_id)
       (JObj [(''job_id'', JStr job_id), (''provider'', JStr (provider_str (sx_provider sx))),
              (''reason_code'', JStr exhausted_reason),
              (''error'', JStr ''extraction timed out: all retry attempts exhausted'')])"

section \<open>One job\<close>

definition job_orchestration_config :: "session_extractor \<Rightarrow> orchestration_config" where
  "job_orchestration_config sx =
     orchestration_config_default\<lparr>oc_segmentation := segmentation_config_new (rd_token_budget (sx_routing_decision sx)) 3\<rparr>"

definition execute_job_orchestrated ::
  "session_extractor \<Rightarrow> job_env \<Rightarrow> extract_session_request \<Rightarrow> disk \<Rightarrow> extraction_outcome option \<times> disk" where
  "execute_job_orchestrated sx env request d =
     (case load_raw (we_fs (je_writer env)) (sx_transcript_loader sx) (esq_transcript_ref request)
             (esq_transcript_inline request) of
        Err e \<Rightarrow> (Some (Failed (SexTranscript e)), d)
      | Ok raw_payload \<Rightarrow>
        (let events = pe_events (parse_session_events (on_codec (je_seams env)) raw_payload) in
         case domain_id_parse (esq_session_id request) of
           Err e \<Rightarrow> (Some (Failed (SexTranscript (TrInvalidPayload
                     (''invalid session_id for orchestration: '' @ domain_error_str e)))), d)
         | Ok session_id \<Rightarrow>
           (case run_orchestration (je_seams env) (job_orchestration_config sx) (je_writer env) (sx_draft_writer sx)
                   session_id events request (provider_str (sx_provider sx)) d of
              (Err None, d') \<Rightarrow> (None, d')
            | (Err (Some e), d') \<Rightarrow> (Some (Failed (SexOrchestration e)), d')
            | (Ok report, d') \<Rightarrow> (Some (Completed (or_draft_paths report) (as_str session_id)), d'))))"

definition extract_with_retry ::
  "session_extractor \<Rightarrow> job_env \<Rightarrow> session_transcript \<Rightarrow> (session_extraction_error, extraction_result) result" where
  "extract_with_retry sx env transcript =
     map_sum SexExtraction id (fst (retry_with_backoff (sx_retry_policy sx) (je_extract env transcript)))"

definition execute_job_single_shot ::
  "session_extractor \<Rightarrow> job_env \<Rightarrow> extract_session_request \<Rightarrow> disk \<Rightarrow> extraction_outcome option \<times> disk" where
  "execute_job_single_shot sx env request d =
     (case load (we_fs (je_writer env)) (on_codec (je_seams env)) (sx_transcript_loader sx) (esq_session_id request)
             (esq_transcript_ref request) (esq_transcript_inline request) of
        Err e \<Rightarrow> (Some (Failed (SexTranscript e)), d)
      | Ok transcript \<Rightarrow>
        (case extract_with_retry sx env transcript of
           Err e \<Rightarrow> (Some (Failed e), d)
         | Ok res \<Rightarrow>
           (case write_pending_drafts (je_writer env) (sx_draft_writer sx) res request (provider_str (sx_provider sx)) d of
              (Err e, d') \<Rightarrow> (Some (Failed (SexWriter e)), d')
            | (Ok draft_paths, d') \<Rightarrow> (Some (Completed draft_paths (as_str (er_source_session_id res))), d'))))"

definition execute_job ::
  "session_extractor \<Rightarrow> job_env \<Rightarrow> extract_session_request \<Rightarrow> disk \<Rightarrow> extraction_outcome option \<times> disk" where
  "execute_job sx env request d =
     (case sx_run_path sx of
        Orchestrated \<Rightarrow> execute_job_orchestrated sx env request d
      | SingleShot \<Rightarrow> execute_job_single_shot sx env request d)"

text \<open>The checks both entry points make before a job exists: the reason code of the refusal.\<close>

definition validate_request ::
  "session_extractor \<Rightarrow> job_env \<Rightarrow> extract_session_request \<Rightarrow> (string, unit) result" where
  "validate_request sx env request =
     (case (esq_transcript_inline request,
            validate_ref (we_fs (je_writer env)) (sx_transcript_loader sx) (esq_transcript_ref request)) of
        (None, Err e) \<Rightarrow> Err (transcript_error_reason e)
      | _ \<Rightarrow> map_sum writer_error_reason id
               (validate_scope_root (we_env (je_writer env)) (we_fs (je_writer env)) (sx_draft_writer sx) request))"

definition extract_blocking ::
  "session_extractor \<Rightarrow> job_env \<Rightarrow> extract_session_request \<Rightarrow> extractor_state \<Rightarrow>
     (string, path list) result option \<times> extractor_state" where
  "extract_blocking sx env request st =
     (case validate_request sx env request of
        Err reason \<Rightarrow> (Some (Err reason), st)
      | Ok _ \<Rightarrow>
        (let (res, d) = execute_job sx env request (xs_disk st); st' = st\<lparr>xs_disk := d\<rparr> in
         case res of
           None \<Rightarrow> (None, st')
         | Some (Completed draft_paths session) \<Rightarrow>
             (Some (Ok draft_paths), publish_terminal_event sx env (je_job_id env) (Completed draft_paths session) st')
         | Some (Failed e) \<Rightarrow>
             (Some (Err (session_error_reason e @ '': '' @ session_error_str e)),
              publish_terminal_event sx env (je_job_id env) (Failed e) st')))"

section \<open>Handing a job to the pool\<close>

definition failed_response :: "string \<Rightarrow> extract_session_response" where
  "failed_response reason = \<lparr>esr_status = ''failed'', esr_reason_code = Some reason, esr_job_id = None, esr_provider = None\<rparr>"

definition requested_event :: "session_extractor \<Rightarrow> job_env \<Rightarrow> extract_session_request \<Rightarrow> extractor_state \<Rightarrow> event_envelope" where
  "requested_event sx env request st =
     event_envelope_new (je_stamp env (length (xs_events st))) ''skill.extraction_requested''
       (''skill.extraction_requested:'' @ je_job_id env)
       (JObj [(''job_id'', JStr (je_job_id env)), (''provider'', JStr (provider_str (sx_provider sx))),
              (''session_id'', JStr (esq_session_id request)), (''transcript_ref'', JStr (esq_transcript_ref request))])"

definition enqueue_job ::
  "session_extractor \<Rightarrow> job_env \<Rightarrow> pool_config \<Rightarrow> extract_session_request \<Rightarrow> extractor_state \<Rightarrow> pool \<Rightarrow>
     extract_session_response \<times> extractor_state \<times> pool" where
  "enqueue_job sx env config request st p =
     (case validate_request sx env request of
        Err reason \<Rightarrow> (failed_response reason, st, p)
      | Ok _ \<Rightarrow>
        (case publish_lifecycle_event env (requested_event sx env request st) st of
           (Err e, st') \<Rightarrow> (failed_response (session_error_reason e), st', p)
         | (Ok _, st') \<Rightarrow>
           (case submit config (sx_provider sx) (je_job_id env) request p of
              (Ok _, p') \<Rightarrow> (\<lparr>esr_status = ''processing'', esr_reason_code = None, esr_job_id = Some (je_job_id env),
                             esr_provider = Some (provider_str (sx_provider sx))\<rparr>, st', p')
            | (Err rejection, p') \<Rightarrow> (rejection, st', p'))))"

section \<open>The drain on this extractor\<close>

definition drain_request :: "transcript_queue_record \<Rightarrow> extract_session_request" where
  "drain_request rec = \<lparr>esq_transcript_ref = [], esq_transcript_inline = Some (tqr_content rec),
     esq_session_id = tqr_session_id rec, esq_repo_path = tqr_repo_path rec\<rparr>"

fun drain_extracting ::
  "session_extractor \<Rightarrow> (uuid \<Rightarrow> job_env) \<Rightarrow> (uuid \<Rightarrow> transcript_db) \<Rightarrow> transcript_queue_record list \<Rightarrow> drain_report \<Rightarrow>
     transcript_table \<Rightarrow> extractor_state \<Rightarrow>
     (transcript_queue_error, drain_report) result option \<times> transcript_table \<times> extractor_state" where
  "drain_extracting sx jobs dbs [] report tbl st = (Some (Ok report), tbl, st)"
| "drain_extracting sx jobs dbs (rec # recs) report tbl st =
     (case extract_blocking sx (jobs (tqr_id rec)) (drain_request rec) st of
        (None, st') \<Rightarrow> (None, tbl, st')
      | (Some (Ok _), st') \<Rightarrow>
          (case mark_processed (dbs (tqr_id rec)) (tqr_id rec) tbl of
             (Err e, tbl') \<Rightarrow> (Some (Err e), tbl', st')
           | (Ok _, tbl') \<Rightarrow>
               drain_extracting sx jobs dbs recs (report\<lparr>dr_processed := dr_processed report + 1\<rparr>) tbl' st')
      | (Some (Err reason), st') \<Rightarrow>
          (case mark_failed (dbs (tqr_id rec)) (tqr_id rec) reason max_transcript_drain_attempts tbl of
             (Err e, tbl') \<Rightarrow> (Some (Err e), tbl', st')
           | (Ok _, tbl') \<Rightarrow>
               drain_extracting sx jobs dbs recs (report\<lparr>dr_failed := dr_failed report + 1\<rparr>) tbl' st'))"

section \<open>What a job leaves on the disk\<close>

lemma run_orchestration_disk:
  assumes "run_orchestration oenv config wenv writer session_id events request provider_name d = (r, d')"
  obtains (before_write) e where "r = Err e" "d' = d"
    | (written) res wr where "write_pending_drafts wenv writer res request provider_name d = (wr, d')"
      "case wr of Err e \<Rightarrow> r = Err (Some (DraftWrite e)) | Ok paths \<Rightarrow> \<exists>report. r = Ok report \<and> or_draft_paths report = paths"
proof -
  note run = assms [unfolded run_orchestration_def Let_def]
  show thesis
  proof (cases "events = []")
    case False
    note run1 = run [unfolded if_not_P [OF False]]
    show thesis
    proof (cases "mine_preamble (on_codec oenv) events (on_normalizer oenv)")
      case p: (Inr preamble)
      let ?windows = "segment_session events (oc_segmentation config)"
      let ?m = "map_windows oenv events session_id (pr_text preamble) ?windows"
      show thesis
      proof (cases ?m)
        case m: (Inr mapped)
        let ?r = "reduce_candidates (mapped @ preference_skill_candidates preamble) (on_embed oenv) (on_verifier oenv)
          (oc_reduce_similarity_threshold config)"
        show thesis
        proof (cases ?r)
          case rr: (Inr da)
          obtain deduped audit where da: "da = (deduped, audit)" by (cases da)
          let ?added = "case on_synthesis oenv deduped (pr_text preamble) of Ok cs \<Rightarrow> cs | Err _ \<Rightarrow> []"
          let ?res = "\<lparr>er_source_session_id = session_id, er_candidates = deduped @ ?added, er_provider = provider_name\<rparr>"
          obtain wr d2 where w: "write_pending_drafts wenv writer ?res request provider_name d = (wr, d2)"
            by (cases "write_pending_drafts wenv writer ?res request provider_name d")
          have "d' = d2" using run1 p m rr da w by (cases wr) simp_all
          moreover have "case wr of Err e \<Rightarrow> r = Err (Some (DraftWrite e)) | Ok paths \<Rightarrow> \<exists>report. r = Ok report \<and> or_draft_paths report = paths"
            using run1 p m rr da w by (cases wr) auto
          ultimately show thesis using written [of ?res wr] w by simp
        qed (use run1 p m before_write in auto)
      qed (use run1 p before_write in auto)
    qed (use run1 before_write in auto)
  qed (use run before_write in auto)
qed

definition job_completed :: "extraction_outcome option \<Rightarrow> path list option" where
  "job_completed res = (case res of Some (Completed paths _) \<Rightarrow> Some paths | _ \<Rightarrow> None)"

lemma execute_job_disk:
  assumes "execute_job sx env request d = (res, d')"
  obtains (before_write) "job_completed res = None" "d' = d"
    | (written) xr wr where
      "write_pending_drafts (je_writer env) (sx_draft_writer sx) xr request (provider_str (sx_provider sx)) d = (wr, d')"
      "case wr of Err e \<Rightarrow> job_completed res = None | Ok paths \<Rightarrow> job_completed res = Some paths"
proof (cases "sx_run_path sx")
  case Orchestrated
  with assms have run: "execute_job_orchestrated sx env request d = (res, d')" by (simp add: execute_job_def)
  show thesis
  proof (cases "load_raw (we_fs (je_writer env)) (sx_transcript_loader sx) (esq_transcript_ref request) (esq_transcript_inline request)")
    case l: (Inr raw)
    show thesis
    proof (cases "domain_id_parse (esq_session_id request)")
      case s: (Inr session_id)
      let ?r = "run_orchestration (je_seams env) (job_orchestration_config sx) (je_writer env) (sx_draft_writer sx)
        session_id (pe_events (parse_session_events (on_codec (je_seams env)) raw)) request (provider_str (sx_provider sx)) d"
      obtain r d2 where r: "?r = (r, d2)" by (cases ?r)
      with run l s have out: "d' = d2" "res = (case r of Err None \<Rightarrow> None | Err (Some e) \<Rightarrow> Some (Failed (SexOrchestration e))
          | Ok report \<Rightarrow> Some (Completed (or_draft_paths report) (as_str session_id)))"
        by (auto simp: execute_job_orchestrated_def Let_def split: sum.splits option.splits)
      from r show thesis
      proof (cases rule: run_orchestration_disk)
        case (before_write e)
        then show thesis using out that(1) by (cases e) (simp_all add: job_completed_def)
      next
        case (written xr wr)
        then show thesis using out that(2) by (cases wr) (auto simp: job_completed_def)
      qed
    next
      case Inl
      with run l have "job_completed res = None" "d' = d" by (auto simp: execute_job_orchestrated_def job_completed_def)
      then show thesis by (rule that(1))
    qed
  next
    case Inl
    with run have "job_completed res = None" "d' = d" by (auto simp: execute_job_orchestrated_def job_completed_def)
    then show thesis by (rule that(1))
  qed
next
  case SingleShot
  with assms have run: "execute_job_single_shot sx env request d = (res, d')" by (simp add: execute_job_def)
  then show thesis using that
    by (auto simp: execute_job_single_shot_def job_completed_def split: sum.split_asm prod.split_asm)
qed

section \<open>Properties\<close>

lemma publish_logged_state [simp]:
  "xs_disk (publish_logged env ty key payload st) = xs_disk st"
  "xs_events (publish_logged env ty key payload st) = xs_events st @
     [event_envelope_new (je_stamp env (length (xs_events st))) ty key payload]"
  by (auto simp: publish_logged_def publish_lifecycle_event_def Let_def split: sum.splits)

lemma event_envelope_new_sel [simp]:
  "oe_event_type (event_envelope_new s ty key payload) = ty"
  "oe_idempotency_key (event_envelope_new s ty key payload) = key"
  "oe_payload (event_envelope_new s ty key payload) = payload"
  by (simp_all add: event_envelope_new_def split: prod.splits)

definition ends_with_event :: "extractor_state \<Rightarrow> extractor_state \<Rightarrow> string \<Rightarrow> string \<Rightarrow> (json \<Rightarrow> bool) \<Rightarrow> bool" where
  "ends_with_event st st' ty job_id P \<longleftrightarrow> (\<exists>e. xs_events st' = xs_events st @ [e] \<and> oe_event_type e = ty \<and>
     oe_idempotency_key e = ty @ '':'' @ job_id \<and> P (oe_payload e))"

lemma extract_blocking_cases:
  assumes "extract_blocking sx env request st = (Some r, st')"
  obtains (refused) reason where "validate_request sx env request = Err reason" "r = Err reason" "st' = st"
    | (completed) paths session d where "execute_job sx env request (xs_disk st) = (Some (Completed paths session), d)"
      "r = Ok paths" "st' = publish_terminal_event sx env (je_job_id env) (Completed paths session) (st\<lparr>xs_disk := d\<rparr>)"
    | (failed) e d where "execute_job sx env request (xs_disk st) = (Some (Failed e), d)"
      "r = Err (session_error_reason e @ '': '' @ session_error_str e)"
      "st' = publish_terminal_event sx env (je_job_id env) (Failed e) (st\<lparr>xs_disk := d\<rparr>)"
proof (cases "validate_request sx env request")
  case (Inl reason)
  with assms refused show thesis by (simp add: extract_blocking_def)
next
  case v: (Inr u)
  obtain res d where x: "execute_job sx env request (xs_disk st) = (res, d)"
    by (cases "execute_job sx env request (xs_disk st)")
  note run = assms [unfolded extract_blocking_def v x Let_def, simplified]
  from run obtain out where out: "res = Some out" by (cases res) auto
  show thesis
  proof (cases out)
    case (Completed paths session)
    with run x out show thesis by (intro completed [of paths session d]) simp_all
  next
    case (Failed e)
    with run x out show thesis by (intro failed [of e d]) simp_all
  qed
qed

lemma write_pending_drafts_files:
  assumes "write_pending_drafts wenv writer res request provider_name d = (Ok paths, d')"
    "single_fault (we_faults wenv)" "nonce_fresh d (we_nonce wenv)"
    "\<forall>root_dir. resolve_scope_root (we_env wenv) (we_fs wenv) writer request = Ok root_dir \<longrightarrow> pending_skill_file \<notin> set root_dir"
  shows "\<forall>p \<in> set paths. dk_files d' p \<noteq> None"
proof
  fix p assume "p \<in> set paths"
  then obtain k where k: "k < length paths" "p = paths ! k" by (auto simp: in_set_conv_nth)
  from write_pending_drafts_result [OF assms, unfolded sum.case] show "dk_files d' p \<noteq> None"
  proof (elim exE conjE)
    assume "\<forall>k < length paths. \<exists>text. render_pending_markdown (we_render wenv) k (er_candidates res ! k)
      (as_str (er_source_session_id res)) provider_name = Ok text \<and> dk_files d' (paths ! k) = Some text"
    with k show ?thesis by blast
  qed
qed

lemma write_pending_drafts_error_files:
  assumes "write_pending_drafts wenv writer res request provider_name d = (Err e, d')"
    "single_fault (we_faults wenv)" "nonce_fresh d (we_nonce wenv)"
    "\<forall>root_dir. resolve_scope_root (we_env wenv) (we_fs wenv) writer request = Ok root_dir \<longrightarrow> pending_skill_file \<notin> set root_dir"
  shows "dk_files d' = dk_files d"
  using write_pending_drafts_result [OF assms] by simp

text \<open>C17: The answer the queue drain acts on is truthful, when at most one disk operation of the batch fails, the temporary and backup names of the batch's nonce are not taken, and the scope root has no component named like a pending file: when a job answers with draft paths every one of them is a file on the disk and the process recorded one completed event with their number; when it answers an error every file is as it was before the job, restored where the batch had touched it, and nothing or one failed event was recorded.\<close>

theorem extract_blocking_truthful:
  assumes run: "extract_blocking sx env request st = (Some r, st')"
    and single: "single_fault (we_faults (je_writer env))" and fresh: "nonce_fresh (xs_disk st) (we_nonce (je_writer env))"
    and root_dir: "\<forall>root_dir. resolve_scope_root (we_env (je_writer env)) (we_fs (je_writer env)) (sx_draft_writer sx) request =
      Ok root_dir \<longrightarrow> pending_skill_file \<notin> set root_dir"
  shows "case r of
      Ok paths \<Rightarrow> (\<forall>p \<in> set paths. dk_files (xs_disk st') p \<noteq> None) \<and>
        ends_with_event st st' ''extraction.completed'' (je_job_id env)
          (\<lambda>payload. json_get payload ''draft_count'' = Some (JNum (of_nat (length paths))))
    | Err reason \<Rightarrow> dk_files (xs_disk st') = dk_files (xs_disk st) \<and>
        (st' = st \<or> ends_with_event st st' ''extraction.failed'' (je_job_id env) (\<lambda>payload. True))"
  using run
proof (cases rule: extract_blocking_cases)
  case (completed paths session d)
  from completed(1) show ?thesis
  proof (cases rule: execute_job_disk)
    case (written xr wr)
    then have wr: "wr = Ok paths" by (cases wr) (simp_all add: job_completed_def)
    have "\<forall>p \<in> set paths. dk_files d p \<noteq> None"
      using write_pending_drafts_files [OF written(1) [unfolded wr] single fresh root_dir] .
    with completed(2,3) show ?thesis
      by (simp add: publish_terminal_event_def ends_with_event_def terminal_type_def terminal_payload_def)
  qed (simp add: job_completed_def)
next
  case (failed e d)
  from failed(1) have "dk_files d = dk_files (xs_disk st)"
  proof (cases rule: execute_job_disk)
    case (written xr wr)
    then obtain e' where "wr = Err e'" by (cases wr) (simp_all add: job_completed_def)
    with written(1) show ?thesis using write_pending_drafts_error_files single fresh root_dir by blast
  qed simp
  with failed(2,3) show ?thesis by (simp add: publish_terminal_event_def ends_with_event_def terminal_type_def)
qed simp

text \<open>The answers of the extractor to the claimed records, in their order.\<close>

fun extraction_answers ::
  "session_extractor \<Rightarrow> (uuid \<Rightarrow> job_env) \<Rightarrow> transcript_queue_record list \<Rightarrow> extractor_state \<Rightarrow> uuid \<Rightarrow> (string, string list) result" where
  "extraction_answers sx jobs [] st = (\<lambda>_. Err [])"
| "extraction_answers sx jobs (rec # recs) st =
     (case extract_blocking sx (jobs (tqr_id rec)) (drain_request rec) st of
        (Some answer, st') \<Rightarrow> (extraction_answers sx jobs recs st')(tqr_id rec := map_sum id (map path_display) answer)
      | (None, st') \<Rightarrow> (\<lambda>_. Err []))"

definition answered_rows :: "(uuid \<Rightarrow> (string, string list) result) \<Rightarrow> (uuid \<Rightarrow> transcript_db) \<Rightarrow> uuid \<Rightarrow> drain_row_env" where
  "answered_rows answers dbs i = \<lparr>dre_extract = answers i, dre_db = dbs i\<rparr>"

lemma answered_rows_sel [simp]:
  "dre_extract (answered_rows answers dbs i) = answers i" "dre_db (answered_rows answers dbs i) = dbs i"
  by (simp_all add: answered_rows_def)

lemma drain_rows_cong:
  "(\<And>c. c \<in> set recs \<Longrightarrow> envs (tqr_id c) = envs' (tqr_id c)) \<Longrightarrow> drain_rows envs recs report tbl = drain_rows envs' recs report tbl"
  by (induction recs arbitrary: report tbl) (auto simp: Let_def split: sum.splits prod.splits)

lemma drain_rows_skip:
  "tqr_id c \<notin> tqr_id ` set recs \<Longrightarrow>
   drain_rows (answered_rows (\<lambda>i. if i = tqr_id c then a else answers i) dbs) recs report tbl =
   drain_rows (answered_rows answers dbs) recs report tbl"
  by (rule drain_rows_cong) (auto simp: answered_rows_def image_iff)

lemma drain_extracting_rows:
  "\<lbrakk>drain_extracting sx jobs dbs recs report tbl st = (Some r, tbl', st'); distinct (map tqr_id recs)\<rbrakk> \<Longrightarrow>
   drain_rows (answered_rows (extraction_answers sx jobs recs st) dbs) recs report tbl = (r, tbl')"
proof (induction recs arbitrary: report tbl st)
  case (Cons c recs)
  obtain answer st1 where x: "extract_blocking sx (jobs (tqr_id c)) (drain_request c) st = (answer, st1)"
    by (cases "extract_blocking sx (jobs (tqr_id c)) (drain_request c) st")
  with Cons.prems(1) obtain a where a: "answer = Some a" by (cases answer) auto
  from Cons.prems(2) have skip: "tqr_id c \<notin> tqr_id ` set recs" "distinct (map tqr_id recs)" by auto
  show ?case
  proof (cases a)
    case (Inl reason)
    obtain m tbl1 where "mark_failed (dbs (tqr_id c)) (tqr_id c) reason max_transcript_drain_attempts tbl = (m, tbl1)"
      by (cases "mark_failed (dbs (tqr_id c)) (tqr_id c) reason max_transcript_drain_attempts tbl")
    with Cons x a Inl skip show ?thesis by (cases m) (auto simp: Let_def fun_upd_def drain_rows_skip)
  next
    case (Inr paths)
    obtain m tbl1 where "mark_processed (dbs (tqr_id c)) (tqr_id c) tbl = (m, tbl1)"
      by (cases "mark_processed (dbs (tqr_id c)) (tqr_id c) tbl")
    with Cons x a Inr skip show ?thesis by (cases m) (auto simp: Let_def fun_upd_def drain_rows_skip)
  qed
qed simp

definition drain_once_extracting ::
  "session_extractor \<Rightarrow> (uuid \<Rightarrow> job_env) \<Rightarrow> transcript_db \<Rightarrow> (uuid \<Rightarrow> transcript_db) \<Rightarrow> int \<Rightarrow> transcript_table \<Rightarrow> extractor_state \<Rightarrow>
     (transcript_queue_error, drain_report) result option \<times> transcript_table \<times> extractor_state" where
  "drain_once_extracting sx jobs claim dbs batch_limit tbl st =
     (case claim_pending claim batch_limit tbl of
        (Err e, tbl') \<Rightarrow> (Some (Err e), tbl', st)
      | (Ok recs, tbl') \<Rightarrow>
          drain_extracting sx jobs dbs recs \<lparr>dr_claimed = length recs, dr_processed = 0, dr_failed = 0\<rparr> tbl' st)"

text \<open>The worker's drain run on the extractor, when it returns a report, does to the queue exactly what one sweep of the abstract queue does: each claimed transcript is processed if the extractor answered with drafts and failed or pending again with its reason otherwise, and no other row changes.\<close>

lemma extracting_drain_refines_sweep:
  assumes reach: "transcript_reachable h tbl"
    and run: "drain_once_extracting sx jobs claim dbs b tbl st = (Some (Ok report), tbl', st')"
    and rows: "\<forall>rs. mset (tdb_returning claim rs) = mset rs"
  shows "\<exists>recs tbl1. claim_pending claim b tbl = (Ok recs, tbl1) \<and>
    tbl' = sweep_spec b \<lparr>den_claim = claim, den_rows = answered_rows (extraction_answers sx jobs recs st) dbs\<rparr> tbl"
proof -
  have ids: "distinct (map tw_id tbl)" by (rule transcript_inv_ids [OF transcript_reachable_inv [OF reach]])
  from run obtain recs tbl1 where c: "claim_pending claim b tbl = (Ok recs, tbl1)"
    and d: "drain_extracting sx jobs dbs recs \<lparr>dr_claimed = length recs, dr_processed = 0, dr_failed = 0\<rparr> tbl1 st =
      (Some (Ok report), tbl', st')"
    by (auto simp: drain_once_extracting_def split: prod.split_asm sum.split_asm)
  let ?env = "\<lparr>den_claim = claim, den_rows = answered_rows (extraction_answers sx jobs recs st) dbs\<rparr>"
  have "drain_once b ?env tbl = (Ok report, tbl')"
    using c drain_extracting_rows [OF d claim_records(1) [OF c ids rows]] by (simp add: drain_once_def)
  from drain_once_sweep(1) [OF this ids] rows c show ?thesis by auto
qed

text \<open>A draft is acknowledged without its event: when the bus refuses every event, a job that wrote its drafts still answers success, so the queue row is processed although no completed event was published.\<close>

theorem completion_acked_without_event:
  assumes "extract_blocking sx env request st = (Some (Ok paths), st')"
    and "\<forall>e. \<exists>m. je_publish env e = Err m"
  shows "xs_published st' = xs_published st"
proof -
  obtain m where m: "\<And>e. je_publish env e = Err (m e)" using assms(2) by metis
  from assms(1) show ?thesis
    by (cases rule: extract_blocking_cases)
      (simp_all add: publish_terminal_event_def publish_logged_def publish_lifecycle_event_def m Let_def)
qed

section \<open>Entry and event payload\<close>

text \<open>Asking for a job has three outcomes: accepted (the requested event is recorded and the job waits last in the queue), refused without any effect on the queue, or rejected by a full queue; in the last case the requested event was already published, for a job that will never have a terminal event.\<close>

theorem enqueue_outcomes:
  assumes "enqueue_job sx env config request st p = (response, st', p')"
  shows "(esr_status response = ''processing'' \<and> esr_job_id response = Some (je_job_id env) \<and>
      (\<exists>job. wp_queue p' = wp_queue p @ [job] \<and> xj_job_id job = je_job_id env \<and> xj_request job = request) \<and>
      xs_published st' = xs_published st @ [requested_event sx env request st]) \<or>
    (esr_status response = ''failed'' \<and> p' = p \<and> xs_published st' = xs_published st) \<or>
    (esr_status response = ''rejected'' \<and> p' = p \<and> max (wpc_queue_depth config) 1 \<le> length (wp_queue p) \<and>
      xs_published st' = xs_published st @ [requested_event sx env request st])"
proof (cases "validate_request sx env request")
  case (Inl reason)
  with assms show ?thesis by (auto simp: enqueue_job_def failed_response_def)
next
  case v: (Inr u)
  show ?thesis
  proof (cases "je_publish env (requested_event sx env request st)")
    case (Inl m)
    with assms v show ?thesis by (auto simp: enqueue_job_def failed_response_def publish_lifecycle_event_def Let_def)
  next
    case (Inr u')
    with assms v show ?thesis
      by (auto simp: enqueue_job_def publish_lifecycle_event_def Let_def submit_def try_send_def split: if_split_asm)
  qed
qed

text \<open>The published paths do not show where the scope root is: for a root outside any .skills directory the completed event names each draft by its slug alone.\<close>

theorem completed_event_hides_root:
  assumes "''.skills'' \<notin> set root_dir"
  shows "relative_draft_path (draft_path (root_dir @ [''.skills'']) c) =
    ''.skills/'' @ slugify_skill_name (ec_name c) @ ''/'' @ pending_skill_file"
proof -
  have "dropWhile (\<lambda>x. x \<noteq> ''.skills'') (draft_path (root_dir @ [''.skills'']) c) =
      [''.skills'', slugify_skill_name (ec_name c), pending_skill_file]"
    using assms by (subst draft_path_def, subst append_assoc, subst dropWhile_append2) auto
  then show ?thesis by (simp add: relative_draft_path_def path_display_def path_is_absolute_def)
qed

theorem completed_event_hides_root_witness:
  "relative_draft_path [''/'', ''g'', ''.skills'', ''a'', ''SKILL.md.pending''] = ''.skills/a/SKILL.md.pending''"
  using completed_event_hides_root [of "[''/'', ''g'']" "sample_found ''a''"]
  by (simp add: draft_path_def sample_found_def sample_slug pending_skill_file_def)

section \<open>Sample jobs\<close>

definition sample_extractor :: session_extractor where
  "sample_extractor = \<lparr>sx_provider = Ollama, sx_run_path = Orchestrated,
     sx_routing_decision = \<lparr>rd_tier = TierLocal, rd_provider = Ollama, rd_token_budget = 8192, rd_dual_pass = False\<rparr>,
     sx_transcript_loader = \<lparr>tl_transcript_root = [''/'', ''t'']\<rparr>, sx_draft_writer = sample_writer,
     sx_retry_policy = retry_policy_default\<rparr>"

definition sample_job_env :: "(string, unit) result \<Rightarrow> job_env" where
  "sample_job_env bus = \<lparr>je_job_id = ''j'', je_seams = sample_orchestration one_prose, je_extract = one_prose,
     je_writer = sample_writer_env, je_publish = (\<lambda>_. bus), je_stamp = (\<lambda>_. (''e'', ''c'', 0))\<rparr>"

definition sample_inline :: extract_session_request where
  "sample_inline = \<lparr>esq_transcript_ref = [], esq_transcript_inline = Some ''x'', esq_session_id = ''s'', esq_repo_path = None\<rparr>"

definition idle_state :: extractor_state where
  "idle_state = \<lparr>xs_disk = empty_disk, xs_events = [], xs_published = []\<rparr>"

lemma sample_load: "load_raw fs loader [] (Some ''x'') = Ok ''x''"
  by (simp add: load_raw_def max_inline_bytes_def)

lemma sample_events: "pe_events (parse_session_events plain_json ''x'') = [UserMessage 0 ''[unparseable line 1]'']"
  by code_simp

lemma sample_drafted:
  "map_sum id or_draft_paths (fst (run_orchestration (sample_orchestration one_prose)
     (orchestration_config_default\<lparr>oc_segmentation := segmentation_config_new 8192 3\<rparr>) sample_writer_env sample_writer
     (DomainId ''s'') [UserMessage 0 ''[unparseable line 1]''] sample_inline ''ollama'' empty_disk)) =
   Ok [[''/'', ''g'', ''.skills'', ''a'', ''SKILL.md.pending'']]"
  by code_simp

lemma sample_job:
  "fst (execute_job sample_extractor (sample_job_env bus) sample_inline empty_disk) =
     Some (Completed [[''/'', ''g'', ''.skills'', ''a'', ''SKILL.md.pending'']] ''s'')"
proof -
  let ?r = "run_orchestration (sample_orchestration one_prose)
     (orchestration_config_default\<lparr>oc_segmentation := segmentation_config_new 8192 3\<rparr>) sample_writer_env sample_writer
     (DomainId ''s'') [UserMessage 0 ''[unparseable line 1]''] sample_inline ''ollama'' empty_disk"
  obtain r d where r: "?r = (r, d)" by (cases ?r)
  with sample_drafted obtain report where "r = Ok report" "or_draft_paths report = [[''/'', ''g'', ''.skills'', ''a'', ''SKILL.md.pending'']]"
    by (cases r) auto
  moreover have "domain_id_parse ''s'' = Ok (DomainId ''s'')"
    by (simp add: domain_id_parse_def trim_s_x is_ws_def)
  moreover have "on_codec (sample_orchestration one_prose) = plain_json" by (simp add: sample_orchestration_def)
  ultimately show ?thesis using r
    by (simp add: execute_job_def execute_job_orchestrated_def sample_extractor_def sample_job_env_def sample_inline_def
        sample_load sample_events job_orchestration_config_def Let_def)
qed

lemma sample_valid: "validate_request sample_extractor (sample_job_env bus) sample_inline = Ok ()"
  by (simp add: validate_request_def sample_inline_def sample_extractor_def sample_job_env_def validate_scope_root_def
      resolve_scope_root_def sample_writer_def split: sum.split)

lemma sample_sel:
  "je_publish (sample_job_env bus) = (\<lambda>_. bus)" "je_job_id (sample_job_env bus) = ''j''" "sx_provider sample_extractor = Ollama"
  by (simp_all add: sample_job_env_def sample_extractor_def)

lemma sample_answer:
  "\<exists>st'. extract_blocking sample_extractor (sample_job_env bus) sample_inline idle_state =
     (Some (Ok [[''/'', ''g'', ''.skills'', ''a'', ''SKILL.md.pending'']]), st')"
proof -
  obtain r d where "execute_job sample_extractor (sample_job_env bus) sample_inline empty_disk = (r, d)"
    by (cases "execute_job sample_extractor (sample_job_env bus) sample_inline empty_disk")
  with sample_job [of bus] show ?thesis by (simp add: extract_blocking_def sample_valid idle_state_def)
qed

theorem extract_blocking_truthful_witness:
  "\<exists>st'. extract_blocking sample_extractor (sample_job_env (Ok ())) sample_inline idle_state =
     (Some (Ok [[''/'', ''g'', ''.skills'', ''a'', ''SKILL.md.pending'']]), st') \<and>
   dk_files (xs_disk st') [''/'', ''g'', ''.skills'', ''a'', ''SKILL.md.pending''] \<noteq> None \<and> length (xs_events st') = 1"
proof -
  obtain st' where run: "extract_blocking sample_extractor (sample_job_env (Ok ())) sample_inline idle_state =
     (Some (Ok [[''/'', ''g'', ''.skills'', ''a'', ''SKILL.md.pending'']]), st')" using sample_answer by blast
  have w: "je_writer (sample_job_env (Ok ())) = sample_writer_env" "xs_disk idle_state = empty_disk" "xs_events idle_state = []"
    by (simp_all add: sample_job_env_def idle_state_def)
  have "\<forall>root_dir. resolve_scope_root (we_env sample_writer_env) (we_fs sample_writer_env)
      (sx_draft_writer sample_extractor) sample_inline = Ok root_dir \<longrightarrow> pending_skill_file \<notin> set root_dir"
    by (simp add: sample_extractor_def sample_inline_def sample_writer_def resolve_scope_root_def pending_skill_file_def)
  with extract_blocking_truthful [OF run, unfolded w, OF sample_fresh(2,1)] run show ?thesis
    by (intro exI [of _ st']) (auto simp: ends_with_event_def w)
qed

theorem completion_acked_without_event_witness:
  "\<exists>st'. extract_blocking sample_extractor (sample_job_env (Err ''down'')) sample_inline idle_state =
     (Some (Ok [[''/'', ''g'', ''.skills'', ''a'', ''SKILL.md.pending'']]), st') \<and> xs_published st' = []"
proof -
  obtain st' where run: "extract_blocking sample_extractor (sample_job_env (Err ''down'')) sample_inline idle_state =
     (Some (Ok [[''/'', ''g'', ''.skills'', ''a'', ''SKILL.md.pending'']]), st')" using sample_answer by blast
  have "\<forall>e. \<exists>m. je_publish (sample_job_env (Err ''down'')) e = Err m" by (simp add: sample_job_env_def)
  from completion_acked_without_event [OF run this] run show ?thesis by (simp add: idle_state_def)
qed

theorem enqueue_outcomes_witness:
  "fst (enqueue_job sample_extractor (sample_job_env (Ok ())) small_pool sample_inline idle_state (pool_new small_pool)) =
     \<lparr>esr_status = ''processing'', esr_reason_code = None, esr_job_id = Some ''j'', esr_provider = Some ''ollama''\<rparr> \<and>
   (\<exists>job. wp_queue (snd (snd (enqueue_job sample_extractor (sample_job_env (Ok ())) small_pool sample_inline idle_state
      (pool_new small_pool)))) = [job])"
proof -
  let ?e = "enqueue_job sample_extractor (sample_job_env (Ok ())) small_pool sample_inline idle_state (pool_new small_pool)"
  have f: "fst ?e = \<lparr>esr_status = ''processing'', esr_reason_code = None, esr_job_id = Some ''j'', esr_provider = Some ''ollama''\<rparr>"
    using sample_sel by (simp add: enqueue_job_def sample_valid publish_lifecycle_event_def Let_def submit_def try_send_def pool_new_def)
  obtain r st' p' where e: "?e = (r, st', p')" by (cases ?e)
  have "wp_queue (pool_new small_pool) = []" by (simp add: pool_new_def)
  with enqueue_outcomes [OF e] f show ?thesis by (auto simp: e)
qed

end
