(* ===== verification/Merge_Pass.thy ===== *)
theory Merge_Pass
  imports Orchestrator
begin

text \<open>
  Merge proposals (\<open>maintenance/src/merge.rs\<close>): the body-inclusive text of a skill, the search for
  cross-scope duplicates, and the proposal writer with its path confinement and no-overwrite rule.  The
  disk and its fault plan are those of the draft writer; path resolution, the embedder, the equivalence
  verifier, the YAML serializer and the audit sink are parameters.
\<close>

section \<open>Skills, configuration and errors\<close>

record skill_snapshot =
  sn_id :: string
  sn_name :: string
  sn_description :: string
  sn_scope :: scope_type
  sn_source_path :: path
  sn_tags :: "string list"
  sn_subunits :: "string list"
  sn_embedding :: "f32 list"

definition semantic_text :: "skill_snapshot \<Rightarrow> string" where
  "semantic_text s = sn_name s @ newline @ sn_description s @ newline @ join newline (sn_subunits s)"

record merge_candidate =
  mc_left_skill_id :: string
  mc_right_skill_id :: string
  mc_cosine_similarity :: f32

record merge_proposal =
  mp_pending_path :: path
  mp_canonical_scope :: scope_type
  mp_merged_from_scopes :: "scope_type list"
  mp_merged_from_paths :: "path list"

record merge_config =
  mg_merge_candidate_threshold :: f32
  mg_pending_directory_name :: string

definition merge_config_default :: merge_config where
  "merge_config_default = \<lparr>mg_merge_candidate_threshold = lit 0.58, mg_pending_directory_name = ''.skills''\<rparr>"

datatype merge_error =
    MgEmbeddingDimensionMismatch nat nat
  | MgZeroMagnitudeEmbedding
  | MgCandidateEmbedding string
  | MgSemanticVerification string
  | MgSkillNotFound string
  | MgOutputRootResolution
  | MgInvalidPendingDirectoryName string
  | MgInvalidScopeRoot string string
  | MgWritePathOutsideScopeRoot string string
  | MgFrontmatterSerialization string
  | MgWriteFailure string string
  | MgAuditEmissionFailure string

fun merge_error_reason :: "merge_error \<Rightarrow> string" where
  "merge_error_reason (MgEmbeddingDimensionMismatch _ _) = ''merge_embedding_dimension_mismatch''"
| "merge_error_reason MgZeroMagnitudeEmbedding = ''merge_zero_magnitude_embedding''"
| "merge_error_reason (MgCandidateEmbedding _) = ''merge_candidate_embedding_failed''"
| "merge_error_reason (MgSemanticVerification _) = ''merge_semantic_verification_failed''"
| "merge_error_reason (MgSkillNotFound _) = ''merge_skill_not_found''"
| "merge_error_reason MgOutputRootResolution = ''merge_output_root_resolution_failed''"
| "merge_error_reason (MgInvalidPendingDirectoryName _) = ''merge_invalid_pending_directory_name''"
| "merge_error_reason (MgInvalidScopeRoot _ _) = ''merge_invalid_scope_root''"
| "merge_error_reason (MgWritePathOutsideScopeRoot _ _) = ''merge_write_path_outside_scope_root''"
| "merge_error_reason (MgFrontmatterSerialization _) = ''merge_frontmatter_serialization_failed''"
| "merge_error_reason (MgWriteFailure _ _) = ''merge_pending_write_failed''"
| "merge_error_reason (MgAuditEmissionFailure _) = ''merge_audit_emission_failed''"

fun merge_error_str :: "merge_error \<Rightarrow> string" where
  "merge_error_str (MgEmbeddingDimensionMismatch l r) =
     ''embedding dimension mismatch: left='' @ nat_str l @ '', right='' @ nat_str r"
| "merge_error_str MgZeroMagnitudeEmbedding = ''cannot compare zero-magnitude embedding vectors''"
| "merge_error_str (MgCandidateEmbedding m) = ''candidate embedding failed: '' @ m"
| "merge_error_str (MgSemanticVerification m) = ''semantic verification failed: '' @ m"
| "merge_error_str (MgSkillNotFound m) = ''skill lookup failed for '' @ ticked m"
| "merge_error_str MgOutputRootResolution = ''cannot resolve output root for merged proposal''"
| "merge_error_str (MgInvalidPendingDirectoryName m) = ''invalid pending directory name '' @ ticked m"
| "merge_error_str (MgInvalidScopeRoot p m) = ''scope root '' @ ticked p @ '' is invalid: '' @ m"
| "merge_error_str (MgWritePathOutsideScopeRoot p r) = ''write path '' @ ticked p @ '' resolves outside scope root '' @ ticked r"
| "merge_error_str (MgFrontmatterSerialization m) = ''failed to serialize merge proposal frontmatter: '' @ m"
| "merge_error_str (MgWriteFailure p m) = ''failed writing merge proposal '' @ ticked p @ '': '' @ m"
| "merge_error_str (MgAuditEmissionFailure m) = ''failed emitting merge proposal audit event: '' @ m"

section \<open>Audit events (audit.rs)\<close>

record merge_audit_event =
  ma_correlation_id :: string
  ma_happened_at :: int
  ma_proposal_path :: path
  ma_canonical_scope :: scope_type
  ma_merged_from_skill_ids :: "string list"
  ma_merged_from_scopes :: "scope_type list"
  ma_merged_from_paths :: "path list"
  ma_similarity :: f32

record retirement_audit_event =
  rta_correlation_id :: string
  rta_happened_at :: int
  rta_skill_id :: string
  rta_source_path :: path
  rta_proposal_path :: path
  rta_usage_score_per_month :: f32

datatype audit_event = MergeProposalWritten merge_audit_event | RetirementProposalWritten retirement_audit_event

type_synonym audit_sink = "audit_event \<Rightarrow> (string, unit) result"

definition audit_error_str :: "string \<Rightarrow> string" where
  "audit_error_str m = ''maintenance audit sink emit failed: '' @ m"

section \<open>Paths and files\<close>

definition path_parent :: "path \<Rightarrow> path option" where
  "path_parent p = (if p = [] \<or> p = [''/''] then None else Some (butlast p))"

definition canonicalize_scope_root :: "file_system \<Rightarrow> path \<Rightarrow> (merge_error, path) result" where
  "canonicalize_scope_root fs scope_root =
     (if \<not> path_is_absolute scope_root
      then Err (MgInvalidScopeRoot (path_display scope_root) ''scope root must be absolute'')
      else case fs_canonicalize fs scope_root of
          Err m \<Rightarrow> Err (MgInvalidScopeRoot (path_display scope_root) m)
        | Ok canonical \<Rightarrow>
            if \<not> fs_is_dir fs canonical
            then Err (MgInvalidScopeRoot (path_display canonical) ''scope root must resolve to a directory'')
            else Ok canonical)"

text \<open>A leading dot component is dropped by \<open>path\_parse\<close> but is not a normal component.\<close>

definition validate_pending_directory_name :: "string \<Rightarrow> (merge_error, path) result" where
  "validate_pending_directory_name name =
     (let components = path_parse name in
      if components = [] \<or> hd (split_on (\<lambda>c. c = CHR ''/'') name) = ''.'' \<or> length components \<noteq> 1 \<or>
         hd components = ''/'' \<or> hd components = ''..''
      then Err (MgInvalidPendingDirectoryName name) else Ok components)"

definition ensure_within_scope_root :: "path \<Rightarrow> path \<Rightarrow> (merge_error, unit) result" where
  "ensure_within_scope_root candidate canonical_root =
     (if prefix canonical_root candidate then Ok ()
      else Err (MgWritePathOutsideScopeRoot (path_display candidate) (path_display canonical_root)))"

text \<open>\<open>create_new\<close>, then the body: a failing write leaves part of it.\<close>

definition create_new_file :: "faults \<Rightarrow> path \<Rightarrow> string \<Rightarrow> disk \<Rightarrow> (string, unit) result \<times> disk" where
  "create_new_file faults p content d =
     (case faults (dk_ops d) of
        Some (m, _) \<Rightarrow> (Err m, tick d)
      | None \<Rightarrow>
          if path_exists p d then (Err ''File exists (os error 17)'', tick d)
          else write_file faults p content (tick (d\<lparr>dk_files := (dk_files d)(p \<mapsto> [])\<rparr>)))"

definition slug_or :: "string \<Rightarrow> string \<Rightarrow> string" where
  "slug_or dflt raw =
     (let slug = join ''-'' (filter (\<lambda>w. w \<noteq> []) (split_on (\<lambda>c. c = CHR ''-'')
                   (map (\<lambda>c. if is_alnum c then c else CHR ''-'') (ascii_lower raw))))
      in if slug = [] then dflt else slug)"

section \<open>Finding candidates\<close>

definition max_tokens_per_subunit :: nat where "max_tokens_per_subunit = 100"
definition max_total_digest_tokens :: nat where "max_total_digest_tokens = 1500"

definition split_whitespace :: "string \<Rightarrow> string list" where
  "split_whitespace s = filter (\<lambda>w. w \<noteq> []) (split_on is_ws s)"

fun digest_parts :: "nat \<Rightarrow> string list \<Rightarrow> string list" where
  "digest_parts used [] = []"
| "digest_parts used (subunit # subunits) =
     (let capped = take max_tokens_per_subunit (split_whitespace subunit); n = length capped in
      if max_total_digest_tokens < used + n
      then (let remaining = max_total_digest_tokens - used in
            if remaining = 0 then [] else [join '' '' (take remaining capped)])
      else join '' '' capped # digest_parts (used + n) subunits)"

definition body_inclusive_merge_text :: "skill_snapshot \<Rightarrow> string" where
  "body_inclusive_merge_text s =
     sn_name s @ '' '' @ sn_description s @ '' '' @ join '' '' (sn_tags s) @ newline @
     join newline (digest_parts 0 (sn_subunits s))"

record merge_frontmatter =
  mf_name :: string
  mf_description :: string
  mf_tags :: "string list"
  mf_origin :: string
  mf_canonical_scope :: string
  mf_merged_from_scopes :: "string list"
  mf_merged_from :: "string list"
  mf_similarity :: f32
  mf_created_at :: string
  mf_warning_at :: string
  mf_expires_at :: string

record merge_env =
  me_fs :: file_system
  me_faults :: faults
  me_embed :: "string \<Rightarrow> (embedding_error, f32 list) result"
  me_equivalent :: "skill_snapshot \<Rightarrow> skill_snapshot \<Rightarrow> (merge_error, bool) result"
  me_yaml :: "merge_frontmatter \<Rightarrow> (string, string) result"
  me_rfc3339 :: "int \<Rightarrow> string"
  me_audit :: audit_sink

definition merge_cosine_similarity :: "f32 list \<Rightarrow> f32 list \<Rightarrow> (merge_error, f32) result" where
  "merge_cosine_similarity l r =
     (case checked_cosine_similarity l r of
        Ok s \<Rightarrow> Ok s
      | Err (CosDimensionMismatch a b) \<Rightarrow> Err (MgEmbeddingDimensionMismatch a b)
      | Err CosZeroMagnitude \<Rightarrow> Err MgZeroMagnitudeEmbedding)"

text \<open>The vectors by skill identifier; of two skills with one identifier the later vector is kept.\<close>

fun merge_vectors ::
  "merge_env \<Rightarrow> skill_snapshot list \<Rightarrow> (string \<rightharpoonup> f32 list) \<Rightarrow> (merge_error, string \<rightharpoonup> f32 list) result" where
  "merge_vectors env [] m = Ok m"
| "merge_vectors env (s # ss) m =
     (case me_embed env (body_inclusive_merge_text s) of
        Err e \<Rightarrow> Err (MgCandidateEmbedding (embedding_error_str e))
      | Ok v \<Rightarrow> merge_vectors env ss (m(sn_id s \<mapsto> v)))"

definition judge_pair ::
  "merge_env \<Rightarrow> merge_config \<Rightarrow> (string \<rightharpoonup> f32 list) \<Rightarrow> skill_snapshot \<times> skill_snapshot \<Rightarrow>
     (merge_error, merge_candidate list) result" where
  "judge_pair env config vectors pair =
     (case pair of (l, r) \<Rightarrow>
        if \<not> sn_id l < sn_id r \<or> sn_scope l = sn_scope r then Ok []
        else rbind (merge_cosine_similarity (the (vectors (sn_id l))) (the (vectors (sn_id r)))) (\<lambda>similarity.
          if flt similarity (mg_merge_candidate_threshold config) then Ok []
          else rbind (me_equivalent env l r) (\<lambda>equivalent.
            Ok (if equivalent then [\<lparr>mc_left_skill_id = sn_id l, mc_right_skill_id = sn_id r,
                  mc_cosine_similarity = similarity\<rparr>] else []))))"

definition find_candidates ::
  "merge_env \<Rightarrow> merge_config \<Rightarrow> skill_snapshot list \<Rightarrow> (merge_error, merge_candidate list) result" where
  "find_candidates env config skills =
     rbind (merge_vectors env skills Map.empty) (\<lambda>vectors.
       rbind (try_map (judge_pair env config vectors) (List.product skills skills)) (\<lambda>found. Ok (concat found)))"

section \<open>Writing proposals\<close>

datatype scope_selection_policy = PreferProjectThenGlobal

fun resolve_scope_policy :: "scope_selection_policy \<Rightarrow> scope_type list \<Rightarrow> scope_type" where
  "resolve_scope_policy PreferProjectThenGlobal scopes = (if List.member scopes Project then Project else Global)"

definition output_root_for_scope ::
  "scope_type \<Rightarrow> skill_snapshot \<Rightarrow> skill_snapshot \<Rightarrow> (merge_error, path) result" where
  "output_root_for_scope canonical_scope l r =
     (case find (\<lambda>s. sn_scope s = canonical_scope) [l, r] of
        None \<Rightarrow> Err MgOutputRootResolution
      | Some s \<Rightarrow> (case path_parent (sn_source_path s) of
            None \<Rightarrow> Err MgOutputRootResolution | Some p \<Rightarrow> Ok p))"

definition sorted_unique_scopes :: "scope_type list \<Rightarrow> scope_type list" where
  "sorted_unique_scopes scopes = filter (\<lambda>s. List.member scopes s) [Project, Global, Team]"

definition proposal_directory_name :: "skill_snapshot \<Rightarrow> skill_snapshot \<Rightarrow> string" where
  "proposal_directory_name l r =
     slug_or ''merged-skill'' (sn_name l @ ''-'' @ sn_name r) @ ''--'' @ slug_or ''merged-skill'' (sn_id l) @ ''--'' @
     slug_or ''merged-skill'' (sn_id r)"

definition merge_frontmatter_yaml :: "merge_env \<Rightarrow> merge_frontmatter \<Rightarrow> (merge_error, string) result" where
  "merge_frontmatter_yaml env fm =
     (case me_yaml env fm of
        Err e \<Rightarrow> Err (MgFrontmatterSerialization e)
      | Ok s \<Rightarrow> Ok (if prefix (''---'' @ newline) s then drop 4 s else s))"

definition render_merge_markdown ::
  "merge_env \<Rightarrow> skill_snapshot \<Rightarrow> skill_snapshot \<Rightarrow> scope_type \<Rightarrow> f32 \<Rightarrow> int \<Rightarrow> (merge_error, string) result" where
  "render_merge_markdown env l r canonical_scope similarity now =
     (let name = sn_name l @ '' + '' @ sn_name r;
          description = sn_description l @ newline @ sn_description r;
          fm = \<lparr>mf_name = name, mf_description = description,
                mf_tags = sorted_list_of_set (set (sn_tags l @ sn_tags r)), mf_origin = ''merge_proposal'',
                mf_canonical_scope = scope_type_str canonical_scope,
                mf_merged_from_scopes = map scope_type_str (sorted_unique_scopes [sn_scope l, sn_scope r]),
                mf_merged_from = [path_display (sn_source_path l), path_display (sn_source_path r)],
                mf_similarity = similarity, mf_created_at = me_rfc3339 env now,
                mf_warning_at = me_rfc3339 env (pending_default_warning_at now),
                mf_expires_at = me_rfc3339 env (pending_default_expires_at now)\<rparr>
      in rbind (merge_frontmatter_yaml env fm) (\<lambda>yaml.
           Ok (''---'' @ newline @ yaml @ (if suffix newline yaml then [] else newline) @ ''---'' @ newline @ newline @
               ''# '' @ name @ newline @ newline @ description @ newline @ newline @ ''## Procedures'' @ newline @
               concat (map (\<lambda>u. ''- '' @ u @ newline) (sn_subunits l @ sn_subunits r)))))"

definition merge_write_failure :: "path \<Rightarrow> string \<Rightarrow> merge_error" where
  "merge_write_failure p m = MgWriteFailure (path_display p) m"

definition emit_merge_proposal_audit ::
  "merge_env \<Rightarrow> skill_snapshot \<Rightarrow> skill_snapshot \<Rightarrow> f32 \<Rightarrow> int \<Rightarrow> merge_proposal \<Rightarrow> (merge_error, unit) result" where
  "emit_merge_proposal_audit env l r similarity now proposal =
     (let ids = sort [sn_id l, sn_id r] in
      case me_audit env (MergeProposalWritten
             \<lparr>ma_correlation_id = ''maintenance.merge_proposal:'' @ ids ! 0 @ '':'' @ ids ! 1, ma_happened_at = now,
              ma_proposal_path = mp_pending_path proposal, ma_canonical_scope = mp_canonical_scope proposal,
              ma_merged_from_skill_ids = ids, ma_merged_from_scopes = mp_merged_from_scopes proposal,
              ma_merged_from_paths = mp_merged_from_paths proposal, ma_similarity = similarity\<rparr>) of
        Err m \<Rightarrow> Err (MgAuditEmissionFailure (audit_error_str m))
      | Ok _ \<Rightarrow> Ok ())"

text \<open>The steps of \<open>write\_proposal\<close> up to the file: the resolved target, then the two directories.\<close>

definition proposal_target ::
  "merge_env \<Rightarrow> merge_config \<Rightarrow> skill_snapshot \<Rightarrow> skill_snapshot \<Rightarrow> (merge_error, path \<times> path) result" where
  "proposal_target env config l r =
     rbind (output_root_for_scope (resolve_scope_policy PreferProjectThenGlobal [sn_scope l, sn_scope r]) l r) (\<lambda>target.
     rbind (canonicalize_scope_root (me_fs env) target) (\<lambda>scope_root.
     rbind (validate_pending_directory_name (mg_pending_directory_name config)) (\<lambda>name.
     Ok (scope_root, scope_root @ name))))"

definition proposal_root_dir ::
  "merge_env \<Rightarrow> path \<Rightarrow> path \<Rightarrow> string \<Rightarrow> disk \<Rightarrow> (merge_error, path) result \<times> disk" where
  "proposal_root_dir env scope_root pending_root name d =
     (case create_dir_all (me_faults env) pending_root d of
        (Err m, d) \<Rightarrow> (Err (merge_write_failure pending_root m), d)
      | (Ok _, d) \<Rightarrow>
          (case fs_canonicalize (me_fs env) pending_root of
             Err m \<Rightarrow> (Err (merge_write_failure pending_root m), d)
           | Ok canonical \<Rightarrow>
               (case ensure_within_scope_root canonical scope_root of
                  Err e \<Rightarrow> (Err e, d)
                | Ok _ \<Rightarrow>
                    (case create_dir_all (me_faults env) (canonical @ [name]) d of
                       (Err m, d) \<Rightarrow> (Err (merge_write_failure (canonical @ [name]) m), d)
                     | (Ok _, d) \<Rightarrow> (Ok (canonical @ [name]), d)))))"

definition write_merge_proposal ::
  "merge_env \<Rightarrow> merge_config \<Rightarrow> skill_snapshot \<Rightarrow> skill_snapshot \<Rightarrow> f32 \<Rightarrow> int \<Rightarrow> disk \<Rightarrow>
     (merge_error, merge_proposal) result \<times> disk" where
  "write_merge_proposal env config l r similarity now d =
     (let scope = resolve_scope_policy PreferProjectThenGlobal [sn_scope l, sn_scope r] in
      case proposal_target env config l r of
        Err e \<Rightarrow> (Err e, d)
      | Ok (scope_root, pending_root) \<Rightarrow>
          (case proposal_root_dir env scope_root pending_root (proposal_directory_name l r) d of
             (Err e, d) \<Rightarrow> (Err e, d)
           | (Ok proposal_root, d) \<Rightarrow>
               (let pending_path = proposal_root @ [pending_skill_file] in
                case render_merge_markdown env l r scope similarity now of
                  Err e \<Rightarrow> (Err e, d)
                | Ok body \<Rightarrow>
                    (case create_new_file (me_faults env) pending_path body d of
                       (Err m, d) \<Rightarrow> (Err (merge_write_failure pending_path m), d)
                     | (Ok _, d) \<Rightarrow>
                         (let proposal = \<lparr>mp_pending_path = pending_path, mp_canonical_scope = scope,
                                mp_merged_from_scopes = sorted_unique_scopes [sn_scope l, sn_scope r],
                                mp_merged_from_paths = [sn_source_path l, sn_source_path r]\<rparr>
                          in (rbind (emit_merge_proposal_audit env l r similarity now proposal) (\<lambda>_. Ok proposal), d))))))"

text \<open>\<open>propose\<close>: of two skills with one identifier the later one is looked up.\<close>

definition skill_by_id :: "skill_snapshot list \<Rightarrow> string \<Rightarrow> skill_snapshot option" where
  "skill_by_id skills k = find (\<lambda>s. sn_id s = k) (rev skills)"

fun write_merge_proposals ::
  "merge_env \<Rightarrow> merge_config \<Rightarrow> skill_snapshot list \<Rightarrow> int \<Rightarrow> merge_candidate list \<Rightarrow> disk \<Rightarrow>
     (merge_error, merge_proposal list) result \<times> disk" where
  "write_merge_proposals env config skills now [] d = (Ok [], d)"
| "write_merge_proposals env config skills now (c # cs) d =
     (case skill_by_id skills (mc_left_skill_id c) of
        None \<Rightarrow> (Err (MgSkillNotFound (mc_left_skill_id c)), d)
      | Some l \<Rightarrow> (case skill_by_id skills (mc_right_skill_id c) of
            None \<Rightarrow> (Err (MgSkillNotFound (mc_right_skill_id c)), d)
          | Some r \<Rightarrow>
              (case write_merge_proposal env config l r (mc_cosine_similarity c) now d of
                 (Err e, d) \<Rightarrow> (Err e, d)
               | (Ok p, d) \<Rightarrow>
                   (case write_merge_proposals env config skills now cs d of
                      (Err e, d) \<Rightarrow> (Err e, d)
                    | (Ok ps, d) \<Rightarrow> (Ok (p # ps), d)))))"

definition propose_merges ::
  "merge_env \<Rightarrow> merge_config \<Rightarrow> skill_snapshot list \<Rightarrow> int \<Rightarrow> disk \<Rightarrow> (merge_error, merge_proposal list) result \<times> disk" where
  "propose_merges env config skills now d =
     (case find_candidates env config skills of
        Err e \<Rightarrow> (Err e, d)
      | Ok candidates \<Rightarrow> write_merge_proposals env config skills now candidates d)"

section \<open>What the candidate search finds\<close>

lemma try_map_Ok_iff: "try_map f xs = Ok ys \<longleftrightarrow> list_all2 (\<lambda>x y. f x = Ok y) xs ys"
proof (induction xs arbitrary: ys)
  case Nil
  then show ?case by auto
next
  case (Cons x xs)
  then show ?case by (cases ys) (auto simp: rbind_Inr_iff)
qed

lemma list_all2_concat_mem:
  "list_all2 (\<lambda>x y. f x = Ok y) xs ys \<Longrightarrow> c \<in> set (concat ys) \<longleftrightarrow> (\<exists>x \<in> set xs. \<exists>y. f x = Ok y \<and> c \<in> set y)"
  by (induction rule: list_all2_induct) auto

lemma judge_pair_mem:
  "(\<exists>cs. judge_pair env config vs (l, r) = Ok cs \<and> c \<in> set cs) \<longleftrightarrow>
     sn_id l < sn_id r \<and> sn_scope l \<noteq> sn_scope r \<and> mc_left_skill_id c = sn_id l \<and> mc_right_skill_id c = sn_id r \<and>
     merge_cosine_similarity (the (vs (sn_id l))) (the (vs (sn_id r))) = Ok (mc_cosine_similarity c) \<and>
     \<not> flt (mc_cosine_similarity c) (mg_merge_candidate_threshold config) \<and> me_equivalent env l r = Ok True"
proof (rule iffI, goal_cases)
  case 1
  then show ?case by (auto simp: judge_pair_def rbind_Inr_iff split: if_splits)
next
  case 2
  then have "judge_pair env config vs (l, r) = Ok [c]" by (simp add: judge_pair_def)
  then show ?case by auto
qed

text \<open>The vector a pair is judged by: the last skill with that identifier.\<close>

definition vector_for :: "merge_env \<Rightarrow> skill_snapshot list \<Rightarrow> string \<Rightarrow> f32 list" where
  "vector_for env skills k =
     (case skill_by_id skills k of None \<Rightarrow> []
      | Some s \<Rightarrow> (case me_embed env (body_inclusive_merge_text s) of Err _ \<Rightarrow> [] | Ok v \<Rightarrow> v))"

lemma find_append: "find P (xs @ ys) = (case find P xs of None \<Rightarrow> find P ys | Some x \<Rightarrow> Some x)"
  by (induction xs) auto

lemma merge_vectors_last:
  "merge_vectors env ss m = Ok vs \<Longrightarrow>
     vs k = (case skill_by_id ss k of None \<Rightarrow> m k | Some s \<Rightarrow> Some (vector_for env ss k))"
proof (induction env ss m rule: merge_vectors.induct)
  case (1 env m)
  then show ?case by (simp add: skill_by_id_def)
next
  case (2 env s ss m)
  obtain v0 where v0: "me_embed env (body_inclusive_merge_text s) = Ok v0"
    and rest: "merge_vectors env ss (m(sn_id s \<mapsto> v0)) = Ok vs"
    using 2(2) by (cases "me_embed env (body_inclusive_merge_text s)") auto
  show ?case
    using 2(1) [OF v0 rest] v0 by (auto simp: skill_by_id_def find_append vector_for_def split: option.split)
qed

lemma find_SomeD: "find P xs = Some x \<Longrightarrow> x \<in> set xs \<and> P x"
  by (induction xs) (auto split: if_splits)

lemma skill_by_id_Some: "s \<in> set skills \<Longrightarrow> \<exists>t \<in> set skills. skill_by_id skills (sn_id s) = Some t \<and> sn_id t = sn_id s"
  by (cases "find (\<lambda>t. sn_id t = sn_id s) (rev skills)")
     (auto simp: skill_by_id_def find_None_iff dest: find_SomeD)

lemma find_candidates_Ok:
  assumes "find_candidates env config skills = Ok cs"
  obtains vs found where "merge_vectors env skills Map.empty = Ok vs"
    "list_all2 (\<lambda>p y. judge_pair env config vs p = Ok y) (List.product skills skills) found" "cs = concat found"
  using assms by (auto simp: find_candidates_def rbind_Inr_iff try_map_Ok_iff)

text \<open>C29: a pair of skills is a candidate exactly when they lie in different scopes, the identifiers are in order, the cosine of their body-inclusive vectors is not below the threshold and the verifier calls them equivalent.\<close>

theorem find_candidates_exact:
  assumes "find_candidates env config skills = Ok cs"
  shows "c \<in> set cs \<longleftrightarrow>
    (\<exists>l r. l \<in> set skills \<and> r \<in> set skills \<and> sn_id l < sn_id r \<and> sn_scope l \<noteq> sn_scope r \<and>
       mc_left_skill_id c = sn_id l \<and> mc_right_skill_id c = sn_id r \<and>
       merge_cosine_similarity (vector_for env skills (sn_id l)) (vector_for env skills (sn_id r)) = Ok (mc_cosine_similarity c) \<and>
       \<not> flt (mc_cosine_similarity c) (mg_merge_candidate_threshold config) \<and> me_equivalent env l r = Ok True)"
proof -
  obtain vs found where vs: "merge_vectors env skills Map.empty = Ok vs"
    and found: "list_all2 (\<lambda>p y. judge_pair env config vs p = Ok y) (List.product skills skills) found" "cs = concat found"
    by (rule find_candidates_Ok [OF assms])
  have vec: "the (vs (sn_id s)) = vector_for env skills (sn_id s)" if "s \<in> set skills" for s
    using merge_vectors_last [OF vs, of "sn_id s"] skill_by_id_Some [OF that] by auto
  have "c \<in> set cs \<longleftrightarrow> (\<exists>l \<in> set skills. \<exists>r \<in> set skills. \<exists>y. judge_pair env config vs (l, r) = Ok y \<and> c \<in> set y)"
    unfolding found(2) list_all2_concat_mem [OF found(1)] by auto
  also have "\<dots> \<longleftrightarrow> (\<exists>l \<in> set skills. \<exists>r \<in> set skills.
       sn_id l < sn_id r \<and> sn_scope l \<noteq> sn_scope r \<and> mc_left_skill_id c = sn_id l \<and> mc_right_skill_id c = sn_id r \<and>
       merge_cosine_similarity (vector_for env skills (sn_id l)) (vector_for env skills (sn_id r)) = Ok (mc_cosine_similarity c) \<and>
       \<not> flt (mc_cosine_similarity c) (mg_merge_candidate_threshold config) \<and> me_equivalent env l r = Ok True)"
    by (simp only: judge_pair_mem vec cong: bex_cong)
  finally show ?thesis by blast
qed

section \<open>What the writer may touch\<close>

lemma create_new_frame:
  "create_new_file faults p content d = (r, d') \<Longrightarrow>
     dk_files d \<subseteq>\<^sub>m dk_files d' \<and> (\<forall>q. q \<noteq> p \<longrightarrow> dk_files d' q = dk_files d q) \<and>
     (r = Ok () \<longrightarrow> \<not> path_exists p d \<and> dk_files d' p = Some content)"
  by (auto simp: create_new_file_def write_file_def path_exists_def map_le_def split: option.splits if_splits)

lemma proposal_root_dir_cases:
  assumes "proposal_root_dir env scope_root pending_root name d = (r, d')"
  shows "dk_files d' = dk_files d \<and>
    (\<forall>p. r = Ok p \<longrightarrow> (\<exists>canonical. fs_canonicalize (me_fs env) pending_root = Ok canonical \<and>
        prefix scope_root canonical \<and> p = canonical @ [name]))"
proof -
  obtain w d0 where w: "create_dir_all (me_faults env) pending_root d = (w, d0)" by fastforce
  have d0: "dk_files d0 = dk_files d" using create_dir_all_result [OF w] by simp
  show ?thesis
  proof (cases w)
    case (Inl e)
    with assms w d0 show ?thesis by (auto simp: proposal_root_dir_def)
  next
    case (Inr u)
    show ?thesis
    proof (cases "fs_canonicalize (me_fs env) pending_root")
      case (Inl e)
      with Inr assms w d0 show ?thesis by (auto simp: proposal_root_dir_def)
    next
      case (Inr canonical)
      obtain x d1 where x: "create_dir_all (me_faults env) (canonical @ [name]) d0 = (x, d1)" by fastforce
      have "dk_files d1 = dk_files d0" using create_dir_all_result [OF x] by simp
      with \<open>w = Ok u\<close> Inr assms w d0 x show ?thesis
        by (cases "prefix scope_root canonical"; cases x) (auto simp: proposal_root_dir_def ensure_within_scope_root_def)
    qed
  qed
qed

text \<open>A file below the canonical scope root of the pair's target, in the pending directory.\<close>

definition merge_target_path :: "merge_env \<Rightarrow> merge_config \<Rightarrow> skill_snapshot \<Rightarrow> skill_snapshot \<Rightarrow> path \<Rightarrow> bool" where
  "merge_target_path env config l r q \<longleftrightarrow>
     (case proposal_target env config l r of
        Err _ \<Rightarrow> False
      | Ok (scope_root, pending_root) \<Rightarrow>
          (case fs_canonicalize (me_fs env) pending_root of
             Err _ \<Rightarrow> False
           | Ok canonical \<Rightarrow> prefix scope_root canonical \<and>
               q = canonical @ [proposal_directory_name l r, pending_skill_file]))"

lemma write_merge_proposal_frame:
  assumes run: "write_merge_proposal env config l r similarity now d = (res, d')"
  shows "dk_files d \<subseteq>\<^sub>m dk_files d' \<and>
    (\<forall>q. dk_files d' q \<noteq> dk_files d q \<longrightarrow> merge_target_path env config l r q) \<and>
    (\<forall>p. res = Ok p \<longrightarrow> dk_files d (mp_pending_path p) = None \<and> dk_files d' (mp_pending_path p) \<noteq> None \<and>
       merge_target_path env config l r (mp_pending_path p))"
proof (cases "proposal_target env config l r")
  case (Inl e)
  with run show ?thesis by (auto simp: write_merge_proposal_def)
next
  case (Inr roots)
  obtain scope_root pending_root where roots: "roots = (scope_root, pending_root)" by fastforce
  obtain w d0 where w: "proposal_root_dir env scope_root pending_root (proposal_directory_name l r) d = (w, d0)" by fastforce
  note dir = proposal_root_dir_cases [OF w]
  show ?thesis
  proof (cases w)
    case (Inl e)
    with run roots \<open>proposal_target env config l r = Ok roots\<close> w dir show ?thesis
      by (auto simp: write_merge_proposal_def)
  next
    case (Inr proposal_root)
    let ?path = "proposal_root @ [pending_skill_file]"
    have path: "merge_target_path env config l r ?path"
      using dir Inr roots \<open>proposal_target env config l r = Ok roots\<close> by (auto simp: merge_target_path_def)
    let ?body = "render_merge_markdown env l r (resolve_scope_policy PreferProjectThenGlobal [sn_scope l, sn_scope r]) similarity now"
    show ?thesis
    proof (cases ?body)
      case (Inl e)
      with run roots \<open>proposal_target env config l r = Ok roots\<close> w \<open>w = Ok proposal_root\<close> dir show ?thesis
        by (auto simp: write_merge_proposal_def)
    next
      case (Inr body)
      obtain x d1 where x: "create_new_file (me_faults env) ?path body d0 = (x, d1)" by fastforce
      have d1: "d1 = d'" and res: "\<And>p. res = Ok p \<Longrightarrow> x = Ok () \<and> mp_pending_path p = ?path"
        using run roots \<open>proposal_target env config l r = Ok roots\<close> w \<open>w = Ok proposal_root\<close> Inr x
        by (cases x; auto simp: write_merge_proposal_def Let_def rbind_Inr_iff)+
      note new = create_new_frame [OF x]
      have "dk_files d \<subseteq>\<^sub>m dk_files d'" "x = Ok () \<longrightarrow> dk_files d ?path = None \<and> dk_files d' ?path \<noteq> None"
        using new d1 dir by (auto simp: path_exists_def)
      moreover have "merge_target_path env config l r q" if "dk_files d' q \<noteq> dk_files d q" for q
        using new d1 dir path that by (cases "q = ?path") auto
      ultimately show ?thesis using res path by auto
    qed
  qed
qed

lemma map_le_domD: "\<lbrakk>m \<subseteq>\<^sub>m m'; m q \<noteq> None\<rbrakk> \<Longrightarrow> m' q = m q"
  by (auto simp: map_le_def dom_def)

lemma write_merge_proposals_frame:
  "write_merge_proposals env config skills now cs d = (res, d') \<Longrightarrow>
     dk_files d \<subseteq>\<^sub>m dk_files d' \<and>
     (\<forall>q. dk_files d' q \<noteq> dk_files d q \<longrightarrow>
        (\<exists>l \<in> set skills. \<exists>r \<in> set skills. merge_target_path env config l r q)) \<and>
     (\<forall>ps. res = Ok ps \<longrightarrow> (\<forall>p \<in> set ps. dk_files d' (mp_pending_path p) \<noteq> None))"
proof (induction cs arbitrary: d res d')
  case (Cons c cs)
  show ?case
  proof (cases "skill_by_id skills (mc_left_skill_id c)")
    case None
    with Cons.prems show ?thesis by auto
  next
    case (Some l)
    note left = this
    show ?thesis
    proof (cases "skill_by_id skills (mc_right_skill_id c)")
      case None
      with left Cons.prems show ?thesis by auto
    next
      case (Some r)
      have mem: "l \<in> set skills" "r \<in> set skills"
        using left Some by (auto simp: skill_by_id_def dest: find_SomeD)
      obtain w d0 where w: "write_merge_proposal env config l r (mc_cosine_similarity c) now d = (w, d0)" by fastforce
      note one = write_merge_proposal_frame [OF w]
      obtain ws d1 where ws: "write_merge_proposals env config skills now cs d0 = (ws, d1)" by fastforce
      note rest = Cons.IH [OF ws]
      show ?thesis
      proof (cases w)
        case (Inl e)
        with Cons.prems left Some w one mem show ?thesis by auto
      next
        case (Inr p)
        then have "d' = d1" and res: "\<And>ps. res = Ok ps \<Longrightarrow> \<exists>ps'. ws = Ok ps' \<and> ps = p # ps'"
          using Cons.prems left Some w ws by (cases ws; auto)+
        moreover have "dk_files d \<subseteq>\<^sub>m dk_files d1" using one rest map_le_trans by blast
        moreover have "\<exists>l \<in> set skills. \<exists>r \<in> set skills. merge_target_path env config l r q"
          if "dk_files d1 q \<noteq> dk_files d q" for q
          using that one rest mem by metis
        moreover have "\<forall>q \<in> set ps. dk_files d1 (mp_pending_path q) \<noteq> None" if "res = Ok ps" for ps
          using res [OF that] one rest Inr map_le_domD [of "dk_files d0" "dk_files d1"] by auto
        ultimately show ?thesis by blast
      qed
    qed
  qed
qed simp

text \<open>whatever operation of the disk fails, and whether or not the pass succeeds, no existing file is changed or removed, and every file that appears lies below the canonical scope root of a pair of the skills.\<close>

theorem propose_merges_never_overwrites:
  assumes "propose_merges env config skills now d = (res, d')"
  shows "dk_files d \<subseteq>\<^sub>m dk_files d' \<and>
     (\<forall>q. dk_files d' q \<noteq> dk_files d q \<longrightarrow>
        (\<exists>l \<in> set skills. \<exists>r \<in> set skills. merge_target_path env config l r q))"
proof (cases "find_candidates env config skills")
  case (Inl e)
  with assms show ?thesis by (simp add: propose_merges_def)
next
  case (Inr cs)
  with assms show ?thesis using write_merge_proposals_frame by (fastforce simp: propose_merges_def)
qed

text \<open>The second pass over an unreviewed proposal.\<close>

lemma write_merge_proposal_again:
  assumes "\<And>q. merge_target_path env config l r q \<Longrightarrow> dk_files d q \<noteq> None"
  shows "\<exists>e. fst (write_merge_proposal env config l r similarity now d) = Err e"
proof (cases "write_merge_proposal env config l r similarity now d")
  case (Pair res d')
  show ?thesis
  proof (cases res)
    case (Inr p)
    with write_merge_proposal_frame [OF Pair] assms [of "mp_pending_path p"] show ?thesis by auto
  qed (simp add: Pair)
qed

lemma merge_target_unique:
  "\<lbrakk>merge_target_path env config l r q; merge_target_path env config l r q'\<rbrakk> \<Longrightarrow> q = q'"
  by (cases "proposal_target env config l r"; cases "fs_canonicalize (me_fs env) (snd (projr (proposal_target env config l r)))")
     (auto simp: merge_target_path_def)

lemma write_merge_proposals_first:
  assumes "write_merge_proposals env config skills now cs d = (Ok ps, d')" and "ps \<noteq> []"
  obtains c cs' l r where "cs = c # cs'" "skill_by_id skills (mc_left_skill_id c) = Some l"
    "skill_by_id skills (mc_right_skill_id c) = Some r"
    "\<And>q. merge_target_path env config l r q \<Longrightarrow> dk_files d' q \<noteq> None"
proof (cases cs)
  case Nil
  with assms show ?thesis by simp
next
  case (Cons c cs')
  obtain l where l: "skill_by_id skills (mc_left_skill_id c) = Some l"
    using assms Cons by (cases "skill_by_id skills (mc_left_skill_id c)") auto
  obtain r where r: "skill_by_id skills (mc_right_skill_id c) = Some r"
    using assms Cons l by (cases "skill_by_id skills (mc_right_skill_id c)") auto
  obtain p d0 where p: "write_merge_proposal env config l r (mc_cosine_similarity c) now d = (Ok p, d0)"
    using assms Cons l r
    by (cases "write_merge_proposal env config l r (mc_cosine_similarity c) now d"; cases "fst (write_merge_proposal env config l r (mc_cosine_similarity c) now d)") auto
  obtain w d1 where w: "write_merge_proposals env config skills now cs' d0 = (w, d1)" by fastforce
  have "d1 = d'" using assms Cons l r p w by (cases w) auto
  have "dk_files d' q \<noteq> None" if "merge_target_path env config l r q" for q
  proof -
    have "q = mp_pending_path p" and "dk_files d0 (mp_pending_path p) \<noteq> None"
      using write_merge_proposal_frame [OF p] merge_target_unique [OF that] by auto
    with write_merge_proposals_frame [OF w] \<open>d1 = d'\<close> map_le_domD [of "dk_files d0" "dk_files d'" q] show ?thesis by auto
  qed
  with Cons l r show ?thesis by (rule that)
qed

text \<open>after a pass that wrote a proposal, every further pass over the same skills fails at that proposal until its file is gone, whatever the later time and whatever the disk does.\<close>

theorem second_merge_pass_fails:
  assumes first: "propose_merges env config skills now d = (Ok ps, d')" and wrote: "ps \<noteq> []"
  shows "\<exists>e. fst (propose_merges (env\<lparr>me_faults := faults\<rparr>) config skills later d') = Err e"
proof -
  obtain cs where cs: "find_candidates env config skills = Ok cs"
    and writes: "write_merge_proposals env config skills now cs d = (Ok ps, d')"
    using first by (cases "find_candidates env config skills") (auto simp: propose_merges_def)
  let ?env = "env\<lparr>me_faults := faults\<rparr>"
  have vs: "merge_vectors ?env ss m = merge_vectors env ss m" for ss m
  proof (induction ss arbitrary: m)
    case (Cons s ss)
    show ?case
      by (cases "me_embed env (body_inclusive_merge_text s)") (simp_all add: Cons.IH fun_upd_def)
  qed simp
  have "judge_pair ?env = judge_pair env" by (intro ext) (simp add: judge_pair_def cong: if_cong split: prod.split)
  then have again: "find_candidates ?env config skills = Ok cs"
    using cs by (simp add: find_candidates_def vs)
  have "proposal_target ?env = proposal_target env" by (intro ext) (simp add: proposal_target_def)
  then have target: "merge_target_path ?env = merge_target_path env"
    by (intro ext) (simp add: merge_target_path_def cong: sum.case_cong prod.case_cong)
  show ?thesis
  proof (rule write_merge_proposals_first [OF writes wrote])
    fix c cs' l r
    assume c: "cs = c # cs'" "skill_by_id skills (mc_left_skill_id c) = Some l"
      "skill_by_id skills (mc_right_skill_id c) = Some r"
      and "\<And>q. merge_target_path env config l r q \<Longrightarrow> dk_files d' q \<noteq> None"
    then have "\<exists>e. fst (write_merge_proposal ?env config l r (mc_cosine_similarity c) later d') = Err e"
      by (intro write_merge_proposal_again) (simp add: target)
    with again c show ?thesis by (auto simp: propose_merges_def split: prod.splits)
  qed
qed

section \<open>The digest\<close>

lemma split_on_append_sep: "P c \<Longrightarrow> split_on P (xs @ c # ys) = split_on P xs @ split_on P ys"
proof (induction xs)
  case (Cons x xs)
  have "split_on P xs \<noteq> []" by (cases xs) (auto split: list.split)
  with Cons show ?case by (auto split: list.split)
qed simp

lemma split_on_clean: "(\<And>c. c \<in> set w \<Longrightarrow> \<not> P c) \<Longrightarrow> split_on P w = [w]"
  by (induction w) auto

lemma split_whitespace_append: "is_ws c \<Longrightarrow> split_whitespace (xs @ c # ys) = split_whitespace xs @ split_whitespace ys"
  by (simp add: split_whitespace_def split_on_append_sep)

lemma split_whitespace_Nil [simp]: "split_whitespace [] = []"
  by (simp add: split_whitespace_def)

lemma split_whitespace_join:
  "is_ws c \<Longrightarrow> split_whitespace (join [c] ws) = concat (map split_whitespace ws)"
  by (induction "[c]" ws rule: join.induct) (simp_all add: split_whitespace_append)

lemma split_whitespace_words: "w \<in> set (split_whitespace s) \<Longrightarrow> split_whitespace w = [w]"
proof -
  assume w: "w \<in> set (split_whitespace s)"
  then have "split_on is_ws w = [w]"
    using split_on_words [of w is_ws s] by (intro split_on_clean) (auto simp: split_whitespace_def)
  with w show ?thesis by (simp add: split_whitespace_def)
qed

lemma split_whitespace_rejoin:
  "set ws \<subseteq> set (split_whitespace s) \<Longrightarrow> split_whitespace (join '' '' ws) = ws"
proof -
  assume sub: "set ws \<subseteq> set (split_whitespace s)"
  have "concat (map split_whitespace ws) = ws"
    using sub by (induction ws) (auto simp: split_whitespace_words)
  then show ?thesis by (simp add: split_whitespace_join is_ws_def)
qed

lemma digest_parts_bound:
  "used \<le> max_total_digest_tokens \<Longrightarrow>
     used + length (concat (map split_whitespace (digest_parts used subunits))) \<le> max_total_digest_tokens"
proof (induction used subunits rule: digest_parts.induct)
  case (2 used subunit subunits)
  let ?capped = "take max_tokens_per_subunit (split_whitespace subunit)"
  have words: "split_whitespace (join '' '' (take k ?capped)) = take k ?capped" for k
    by (rule split_whitespace_rejoin [of _ subunit]) (meson in_set_takeD subsetI)
  from words [of max_tokens_per_subunit] have all: "split_whitespace (join '' '' ?capped) = ?capped" by simp
  show ?case
  proof (cases "max_total_digest_tokens < used + length ?capped")
    case True
    then have "max_total_digest_tokens - used \<le> length ?capped" by linarith
    then show ?thesis using 2(2) True words [of "max_total_digest_tokens - used"] by (simp add: Let_def)
  next
    case False
    with 2(1) [OF refl refl False] all show ?thesis by (simp add: Let_def)
  qed
qed simp

text \<open>whatever the skill holds, the digest that follows the header line of the embedded text has at most 1500 whitespace-separated tokens.\<close>

theorem merge_digest_bounded:
  "length (split_whitespace (join newline (digest_parts 0 (sn_subunits s)))) \<le> 1500"
  using digest_parts_bound [of 0 "sn_subunits s"]
  by (simp add: split_whitespace_join newline_def is_ws_def max_total_digest_tokens_def)

section \<open>A run\<close>

definition sample_snapshot :: "string \<Rightarrow> scope_type \<Rightarrow> skill_snapshot" where
  "sample_snapshot k scope = \<lparr>sn_id = k, sn_name = k, sn_description = ''d'', sn_scope = scope,
     sn_source_path = [''/'', k, ''SKILL.md''], sn_tags = [], sn_subunits = [''s''], sn_embedding = []\<rparr>"

definition sample_merge_env :: merge_env where
  "sample_merge_env = \<lparr>me_fs = \<lparr>fs_canonicalize = Ok, fs_is_dir = (\<lambda>_. True), fs_read_to_string = (\<lambda>_. Err [])\<rparr>,
     me_faults = (\<lambda>_. None), me_embed = (\<lambda>_. Ok [Fin 1]), me_equivalent = (\<lambda>_ _. Ok True),
     me_yaml = (\<lambda>fm. Ok ''name: x''), me_rfc3339 = (\<lambda>_. ''t''), me_audit = (\<lambda>_. Ok ())\<rparr>"

definition sample_skills :: "skill_snapshot list" where
  "sample_skills = [sample_snapshot ''a'' Project, sample_snapshot ''b'' Global]"

lemma sample_candidates:
  "find_candidates sample_merge_env merge_config_default sample_skills =
     Ok [\<lparr>mc_left_skill_id = ''a'', mc_right_skill_id = ''b'', mc_cosine_similarity = Fin 1\<rparr>]"
  by code_simp

theorem find_candidates_exact_witness:
  "\<exists>l r. l \<in> set sample_skills \<and> r \<in> set sample_skills \<and> sn_id l = ''a'' \<and> sn_id r = ''b'' \<and>
     me_equivalent sample_merge_env l r = Ok True"
proof -
  let ?c = "\<lparr>mc_left_skill_id = ''a'', mc_right_skill_id = ''b'', mc_cosine_similarity = Fin 1\<rparr>"
  from find_candidates_exact [OF sample_candidates, of ?c] obtain l r where
    "l \<in> set sample_skills" "r \<in> set sample_skills" "mc_left_skill_id ?c = sn_id l" "mc_right_skill_id ?c = sn_id r"
    "me_equivalent sample_merge_env l r = Ok True" by auto
  then show ?thesis by (intro exI [of _ l] exI [of _ r]) simp
qed

end
