(* ===== verification/Retire_Pass.thy ===== *)
theory Retire_Pass
  imports Merge_Pass
begin

text \<open>
  Retirement proposals (\<open>maintenance/src/retire.rs\<close> and the retirement runner of \<open>runtime.rs\<close>): the
  recency-weighted usage score in single precision, the cold-start guard, and the marker written beside an
  active skill file.  The skills of the pass, the usage query and the audit sink are parameters.
\<close>

section \<open>Samples, configuration and errors\<close>

record usage_sample =
  ug_skill_id :: string
  ug_used_at :: int
  ug_usage_count :: nat

record retirement_proposal =
  rp_skill_id :: string
  rp_retired_path :: path
  rp_usage_score_per_month :: f32

record retirement_config =
  rg_score_threshold_per_month :: f32
  rg_scoring_window_days :: int

definition retirement_config_default :: retirement_config where
  "retirement_config_default = \<lparr>rg_score_threshold_per_month = lit 1, rg_scoring_window_days = 90\<rparr>"

datatype retirement_error =
    InvalidActiveSkillPath string
  | RetiredPathOutsideSkillRoot string string
  | RetiredMarkerWriteFailure string string
  | RetirementAuditEmissionFailure string

fun retirement_error_reason :: "retirement_error \<Rightarrow> string" where
  "retirement_error_reason (InvalidActiveSkillPath _) = ''retire_invalid_active_skill_path''"
| "retirement_error_reason (RetiredPathOutsideSkillRoot _ _) = ''retire_path_outside_skill_root''"
| "retirement_error_reason (RetiredMarkerWriteFailure _ _) = ''retire_marker_write_failed''"
| "retirement_error_reason (RetirementAuditEmissionFailure _) = ''retire_audit_emission_failed''"

fun retirement_error_str :: "retirement_error \<Rightarrow> string" where
  "retirement_error_str (InvalidActiveSkillPath p) = ''skill '' @ ticked p @ '' is not an active skill file and cannot be retired''"
| "retirement_error_str (RetiredPathOutsideSkillRoot p r) = ''retired path '' @ ticked p @ '' resolves outside active skill root '' @ ticked r"
| "retirement_error_str (RetiredMarkerWriteFailure p m) = ''failed creating retired marker '' @ ticked p @ '': '' @ m"
| "retirement_error_str (RetirementAuditEmissionFailure m) = ''failed emitting retirement proposal audit event: '' @ m"

section \<open>The usage score\<close>

text \<open>The entry of the index: absent when no sample names the skill.\<close>

definition usage_samples_for :: "usage_sample list \<Rightarrow> string \<Rightarrow> usage_sample list option" where
  "usage_samples_for samples k =
     (let own = filter (\<lambda>s. ug_skill_id s = k) samples in if own = [] then None else Some own)"

definition f32_of_int :: "int \<Rightarrow> f32" where
  "f32_of_int n = rnd False (of_int n)"

definition recency_weighted :: "int \<Rightarrow> int \<Rightarrow> usage_sample \<Rightarrow> f32" where
  "recency_weighted now window_days s =
     (let age_days = f32_of_int (if now < ug_used_at s then 0 else (now - ug_used_at s) div 86400);
          weight = fsub (lit 1) (fdiv age_days (f32_of_int window_days))
      in fmul (f32_of_nat (ug_usage_count s)) (fmax weight (lit 0)))"

definition calculate_usage_score_per_month :: "usage_sample list \<Rightarrow> int \<Rightarrow> int \<Rightarrow> f32" where
  "calculate_usage_score_per_month samples now window_days =
     (let window_start = now - window_days * 86400;
          weighted = fsum (map (recency_weighted now window_days) (filter (\<lambda>s. window_start \<le> ug_used_at s) samples));
          months = fmax (fdiv (f32_of_int window_days) (lit 30)) (lit 1)
      in fdiv weighted months)"

section \<open>The marker\<close>

record retire_env =
  rv_fs :: file_system
  rv_faults :: faults
  rv_rfc3339 :: "int \<Rightarrow> string"
  rv_audit :: audit_sink

definition canonical_active_skill_root :: "file_system \<Rightarrow> path \<Rightarrow> (retirement_error, path) result" where
  "canonical_active_skill_root fs active_path =
     (case path_parent active_path of
        None \<Rightarrow> Err (InvalidActiveSkillPath (path_display active_path))
      | Some parent \<Rightarrow>
          if \<not> path_is_absolute parent
          then Err (InvalidActiveSkillPath (path_display active_path @ '' (parent must be absolute)''))
          else (case fs_canonicalize fs parent of
              Err m \<Rightarrow> Err (InvalidActiveSkillPath (path_display active_path @ '' (cannot canonicalize parent: '' @ m @ '')''))
            | Ok canonical \<Rightarrow>
                if \<not> fs_is_dir fs canonical
                then Err (InvalidActiveSkillPath (path_display active_path @ '' (parent must resolve to directory)''))
                else Ok canonical))"

definition ensure_within_skill_root :: "path \<Rightarrow> path \<Rightarrow> (retirement_error, unit) result" where
  "ensure_within_skill_root candidate skill_root =
     (if prefix skill_root candidate then Ok ()
      else Err (RetiredPathOutsideSkillRoot (path_display candidate) (path_display skill_root)))"

definition retired_path_for_active_skill ::
  "file_system \<Rightarrow> disk \<Rightarrow> path \<Rightarrow> (retirement_error, path) result" where
  "retired_path_for_active_skill fs d active_path =
     (case file_name active_path of
        None \<Rightarrow> Err (InvalidActiveSkillPath (path_display active_path))
      | Some name \<Rightarrow>
          if ascii_lower name \<noteq> ascii_lower ''SKILL.md''
          then Err (InvalidActiveSkillPath (path_display active_path))
          else rbind (canonical_active_skill_root fs active_path) (\<lambda>skill_root.
            (let retired_path = skill_root @ [retired_skill_file] in
             if path_exists retired_path d
             then (case fs_canonicalize fs retired_path of
                 Err m \<Rightarrow> Err (RetiredMarkerWriteFailure (path_display retired_path) m)
               | Ok canonical \<Rightarrow> rbind (ensure_within_skill_root canonical skill_root) (\<lambda>_. Ok retired_path))
             else Ok retired_path)))"

definition render_retired_marker :: "retire_env \<Rightarrow> string \<Rightarrow> f32 \<Rightarrow> int \<Rightarrow> string" where
  "render_retired_marker env skill_id score now =
     ''---'' @ newline @ ''origin: retirement_proposal'' @ newline @ ''skill_id: '' @ skill_id @ newline @
     ''usage_score_per_month: '' @ fmt_fixed 3 score @ newline @ ''proposed_at: '' @ rv_rfc3339 env now @ newline @
     ''status: proposed'' @ newline @ ''---'' @ newline"

text \<open>\<open>flush\<close> is one more operation that can fail.\<close>

definition flush_file :: "faults \<Rightarrow> disk \<Rightarrow> (string, unit) result \<times> disk" where
  "flush_file faults d = (case faults (dk_ops d) of Some (m, _) \<Rightarrow> (Err m, tick d) | None \<Rightarrow> (Ok (), tick d))"

definition emit_retirement_proposal_audit ::
  "retire_env \<Rightarrow> skill_snapshot \<Rightarrow> int \<Rightarrow> retirement_proposal \<Rightarrow> (retirement_error, unit) result" where
  "emit_retirement_proposal_audit env s now p =
     (case rv_audit env (RetirementProposalWritten
            \<lparr>rta_correlation_id = ''maintenance.retirement_proposal:'' @ sn_id s, rta_happened_at = now,
             rta_skill_id = rp_skill_id p, rta_source_path = sn_source_path s, rta_proposal_path = rp_retired_path p,
             rta_usage_score_per_month = rp_usage_score_per_month p\<rparr>) of
        Err m \<Rightarrow> Err (RetirementAuditEmissionFailure (audit_error_str m))
      | Ok _ \<Rightarrow> Ok ())"

definition write_retired_marker ::
  "retire_env \<Rightarrow> skill_snapshot \<Rightarrow> f32 \<Rightarrow> int \<Rightarrow> disk \<Rightarrow> (retirement_error, retirement_proposal) result \<times> disk" where
  "write_retired_marker env s score now d =
     (case retired_path_for_active_skill (rv_fs env) d (sn_source_path s) of
        Err e \<Rightarrow> (Err e, d)
      | Ok retired_path \<Rightarrow>
          (case create_new_file (rv_faults env) retired_path (render_retired_marker env (sn_id s) score now) d of
             (Err m, d) \<Rightarrow> (Err (RetiredMarkerWriteFailure (path_display retired_path) m), d)
           | (Ok _, d) \<Rightarrow>
               (case flush_file (rv_faults env) d of
                  (Err m, d) \<Rightarrow> (Err (RetiredMarkerWriteFailure (path_display retired_path) m), d)
                | (Ok _, d) \<Rightarrow>
                    (let p = \<lparr>rp_skill_id = sn_id s, rp_retired_path = retired_path, rp_usage_score_per_month = score\<rparr>
                     in (rbind (emit_retirement_proposal_audit env s now p) (\<lambda>_. Ok p), d)))))"

text \<open>\<open>stale config samples now s\<close>: the score when the skill has a sample and scores below the threshold.\<close>

definition stale :: "retirement_config \<Rightarrow> usage_sample list \<Rightarrow> int \<Rightarrow> skill_snapshot \<Rightarrow> f32 option" where
  "stale config samples now s =
     (case usage_samples_for samples (sn_id s) of
        None \<Rightarrow> None
      | Some own \<Rightarrow>
          (let score = calculate_usage_score_per_month own now (rg_scoring_window_days config) in
           if fle (rg_score_threshold_per_month config) score then None else Some score))"

fun propose_retirements ::
  "retire_env \<Rightarrow> retirement_config \<Rightarrow> usage_sample list \<Rightarrow> int \<Rightarrow> skill_snapshot list \<Rightarrow> disk \<Rightarrow>
     (retirement_error, retirement_proposal list) result \<times> disk" where
  "propose_retirements env config samples now [] d = (Ok [], d)"
| "propose_retirements env config samples now (s # ss) d =
     (case stale config samples now s of
        None \<Rightarrow> propose_retirements env config samples now ss d
      | Some score \<Rightarrow>
          (case write_retired_marker env s score now d of
             (Err e, d) \<Rightarrow> (Err e, d)
           | (Ok p, d) \<Rightarrow>
               (case propose_retirements env config samples now ss d of
                  (Err e, d) \<Rightarrow> (Err e, d)
                | (Ok ps, d) \<Rightarrow> (Ok (p # ps), d))))"

section \<open>The runner (runtime.rs)\<close>

record skill_usage_summary =
  us_skill_id :: string
  us_total_count :: nat
  us_windowed_count :: nat
  us_last_used_at :: "int option"

definition usage_sample_of :: "int \<Rightarrow> skill_usage_summary \<Rightarrow> usage_sample option" where
  "usage_sample_of now u =
     (if us_total_count u = 0 then None
      else Some \<lparr>ug_skill_id = us_skill_id u,
                 ug_used_at = (case us_last_used_at u of Some t \<Rightarrow> t | None \<Rightarrow> now), ug_usage_count = us_windowed_count u\<rparr>)"

type_synonym usage_store = "string list \<Rightarrow> int \<Rightarrow> (string, skill_usage_summary list) result"

definition retirement_samples ::
  "usage_store option \<Rightarrow> retirement_config \<Rightarrow> int \<Rightarrow> skill_snapshot list \<Rightarrow> (string, usage_sample list) result" where
  "retirement_samples store config now skills =
     (case store of
        None \<Rightarrow> Ok []
      | Some recent_usage \<Rightarrow>
          (case recent_usage (map sn_id skills) (rg_scoring_window_days config) of
             Err m \<Rightarrow> Err (''usage query failed: '' @ m)
           | Ok summaries \<Rightarrow> Ok (List.map_filter (usage_sample_of now) summaries)))"

definition run_retirement_pass ::
  "retire_env \<Rightarrow> retirement_config \<Rightarrow> usage_store option \<Rightarrow> (string, skill_snapshot list) result \<Rightarrow> int \<Rightarrow> disk \<Rightarrow>
     (string, retirement_proposal list) result \<times> disk" where
  "run_retirement_pass env config store loaded now d =
     (case loaded of
        Err m \<Rightarrow> (Err m, d)
      | Ok skills \<Rightarrow>
          if skills = [] then (Ok [], d)
          else (case retirement_samples store config now skills of
              Err m \<Rightarrow> (Err m, d)
            | Ok samples \<Rightarrow>
                (case propose_retirements env config samples now skills d of
                   (Err e, d) \<Rightarrow> (Err (retirement_error_str e), d)
                 | (Ok ps, d) \<Rightarrow> (Ok ps, d))))"

section \<open>What a pass proposes and touches\<close>

definition retired_target :: "retire_env \<Rightarrow> skill_snapshot \<Rightarrow> path \<Rightarrow> bool" where
  "retired_target env s q \<longleftrightarrow>
     (case canonical_active_skill_root (rv_fs env) (sn_source_path s) of
        Err _ \<Rightarrow> False | Ok skill_root \<Rightarrow> q = skill_root @ [retired_skill_file])"

lemma retired_path_target:
  "retired_path_for_active_skill (rv_fs env) d (sn_source_path s) = Ok q \<Longrightarrow> retired_target env s q"
  by (cases "file_name (sn_source_path s)"; cases "canonical_active_skill_root (rv_fs env) (sn_source_path s)")
     (auto simp: retired_path_for_active_skill_def retired_target_def Let_def rbind_Inr_iff split: if_splits sum.splits)

lemma flush_frame [simp]: "flush_file faults d = (r, d') \<Longrightarrow> dk_files d' = dk_files d"
  by (auto simp: flush_file_def split: option.splits)

lemma write_retired_marker_frame:
  assumes "write_retired_marker env s score now d = (r, d')"
  shows "dk_files d \<subseteq>\<^sub>m dk_files d' \<and> (\<forall>q. dk_files d' q \<noteq> dk_files d q \<longrightarrow> retired_target env s q) \<and>
    (\<forall>p. r = Ok p \<longrightarrow> rp_skill_id p = sn_id s \<and> rp_usage_score_per_month p = score \<and>
       dk_files d' (rp_retired_path p) = Some (render_retired_marker env (sn_id s) score now))"
proof (cases "retired_path_for_active_skill (rv_fs env) d (sn_source_path s)")
  case (Inl e)
  with assms show ?thesis by (auto simp: write_retired_marker_def)
next
  case (Inr path)
  note target = retired_path_target [OF Inr]
  let ?body = "render_retired_marker env (sn_id s) score now"
  obtain w d0 where w: "create_new_file (rv_faults env) path ?body d = (w, d0)" by fastforce
  obtain x d1 where x: "flush_file (rv_faults env) d0 = (x, d1)" by fastforce
  have new: "dk_files d \<subseteq>\<^sub>m dk_files d0" "\<And>q. dk_files d0 q \<noteq> dk_files d q \<Longrightarrow> retired_target env s q"
    "w = Ok () \<Longrightarrow> dk_files d0 path = Some ?body"
    using create_new_frame [OF w] target by auto
  show ?thesis
  proof (cases w)
    case (Inl m)
    with assms Inr w new show ?thesis by (auto simp: write_retired_marker_def)
  next
    case (Inr u)
    then show ?thesis
      using assms \<open>retired_path_for_active_skill _ _ _ = _\<close> w x new flush_frame [OF x]
      by (cases x) (auto simp: write_retired_marker_def Let_def rbind_Inr_iff)
  qed
qed

lemma propose_retirements_frame:
  "propose_retirements env config samples now skills d = (res, d') \<Longrightarrow>
     dk_files d \<subseteq>\<^sub>m dk_files d' \<and>
     (\<forall>q. dk_files d' q \<noteq> dk_files d q \<longrightarrow>
        (\<exists>s \<in> set skills. stale config samples now s \<noteq> None \<and> retired_target env s q)) \<and>
     (\<forall>ps. res = Ok ps \<longrightarrow> map (\<lambda>p. (rp_skill_id p, rp_usage_score_per_month p)) ps =
        List.map_filter (\<lambda>s. map_option (Pair (sn_id s)) (stale config samples now s)) skills)"
proof (induction skills arbitrary: d res d')
  case Nil
  then show ?case by (auto simp: List.map_filter_def)
next
  case (Cons s ss)
  show ?case
  proof (cases "stale config samples now s")
    case None
    with Cons.prems have "propose_retirements env config samples now ss d = (res, d')" by simp
    from Cons.IH [OF this] None show ?thesis by (auto simp: List.map_filter_def)
  next
    case (Some score)
    obtain w d0 where w: "write_retired_marker env s score now d = (w, d0)" by fastforce
    note one = write_retired_marker_frame [OF w]
    obtain ws d1 where ws: "propose_retirements env config samples now ss d0 = (ws, d1)" by fastforce
    note rest = Cons.IH [OF ws]
    show ?thesis
    proof (cases w)
      case (Inl e)
      with Cons.prems Some w one show ?thesis by auto
    next
      case (Inr p)
      then have d1: "d1 = d'" and res: "\<And>ps. res = Ok ps \<Longrightarrow> \<exists>ps'. ws = Ok ps' \<and> ps = p # ps'"
        using Cons.prems Some w ws by (cases ws; auto)+
      moreover have "dk_files d \<subseteq>\<^sub>m dk_files d1" using one rest map_le_trans by blast
      moreover have "\<exists>s' \<in> set (s # ss). stale config samples now s' \<noteq> None \<and> retired_target env s' q"
        if "dk_files d1 q \<noteq> dk_files d q" for q
      proof (cases "dk_files d1 q = dk_files d0 q")
        case True
        with that one Some show ?thesis by auto
      next
        case False
        with rest show ?thesis by auto
      qed
      moreover have "map (\<lambda>p. (rp_skill_id p, rp_usage_score_per_month p)) ps =
          List.map_filter (\<lambda>s. map_option (Pair (sn_id s)) (stale config samples now s)) (s # ss)" if "res = Ok ps" for ps
        using res [OF that] one rest Inr Some by (auto simp: List.map_filter_def)
      ultimately show ?thesis by blast
    qed
  qed
qed

text \<open>a successful pass proposes exactly the skills, in order, that have a usage sample and whose score is not at least the threshold, each with its score.\<close>

theorem retirement_proposals_exact:
  assumes "propose_retirements env config samples now skills d = (Ok ps, d')"
  shows "map (\<lambda>p. (rp_skill_id p, rp_usage_score_per_month p)) ps =
     List.map_filter (\<lambda>s. map_option (Pair (sn_id s)) (stale config samples now s)) skills"
  using propose_retirements_frame [OF assms] by simp

lemma stale_used:
  assumes "stale config (List.map_filter (usage_sample_of now) summaries) now s \<noteq> None"
  shows "\<exists>u \<in> set summaries. us_skill_id u = sn_id s \<and> us_total_count u \<noteq> 0"
proof -
  from assms have "filter (\<lambda>x. ug_skill_id x = sn_id s) (List.map_filter (usage_sample_of now) summaries) \<noteq> []"
    by (auto simp: stale_def usage_samples_for_def Let_def)
  then show ?thesis
    by (fastforce simp: filter_empty_conv List.map_filter_def usage_sample_of_def split: if_splits)
qed

text \<open>whatever fails, the runner changes no existing file, and every file that appears is the marker of a skill of the pass that has been used at least once.\<close>

theorem retirement_spares_unused:
  assumes run: "run_retirement_pass env config (Some store) (Ok skills) now d = (res, d')"
    and usage: "store (map sn_id skills) (rg_scoring_window_days config) = Ok summaries"
  shows "dk_files d \<subseteq>\<^sub>m dk_files d' \<and>
    (\<forall>q. dk_files d' q \<noteq> dk_files d q \<longrightarrow> (\<exists>s \<in> set skills. retired_target env s q \<and>
       (\<exists>u \<in> set summaries. us_skill_id u = sn_id s \<and> us_total_count u \<noteq> 0)))"
proof (cases "skills = []")
  case True
  with run show ?thesis by (simp add: run_retirement_pass_def)
next
  case False
  let ?samples = "List.map_filter (usage_sample_of now) summaries"
  obtain r d1 where r: "propose_retirements env config ?samples now skills d = (r, d1)" by fastforce
  have "d' = d1" using run usage False r by (cases r) (auto simp: run_retirement_pass_def retirement_samples_def)
  with propose_retirements_frame [OF r] stale_used [of config now summaries] show ?thesis by blast
qed

lemma score_now:
  "ug_used_at u = now \<Longrightarrow> calculate_usage_score_per_month [u] now 90 =
     fdiv (fadd NegZero (fmul (f32_of_nat (ug_usage_count u)) (fmax (fsub (lit 1) (fdiv (f32_of_int 0) (f32_of_int 90))) (lit 0))))
       (fmax (fdiv (f32_of_int 90) (lit 30)) (lit 1))"
  by (simp add: calculate_usage_score_per_month_def recency_weighted_def fsum_def)

lemma few_uses_score:
  "\<not> fle (lit 1) (fdiv (fadd NegZero (fmul (f32_of_nat 1) (fmax (fsub (lit 1) (fdiv (f32_of_int 0) (f32_of_int 90))) (lit 0))))
       (fmax (fdiv (f32_of_int 90) (lit 30)) (lit 1)))"
  "\<not> fle (lit 1) (fdiv (fadd NegZero (fmul (f32_of_nat 2) (fmax (fsub (lit 1) (fdiv (f32_of_int 0) (f32_of_int 90))) (lit 0))))
       (fmax (fdiv (f32_of_int 90) (lit 30)) (lit 1)))"
  by code_simp+

text \<open>with the default configuration a skill used for the first time is proposed at once: one or two uses at the very instant of the pass score below one per month over the 90-day window.\<close>

theorem first_use_is_retired:
  assumes sample: "usage_samples_for samples (sn_id s) = Some [u]" and now: "ug_used_at u = now"
    and few: "ug_usage_count u = 1 \<or> ug_usage_count u = 2"
  shows "stale retirement_config_default samples now s \<noteq> None"
  using few_uses_score few by (auto simp: stale_def sample retirement_config_default_def score_now [OF now] Let_def)

section \<open>A run\<close>

definition sample_retire_env :: retire_env where
  "sample_retire_env = \<lparr>rv_fs = \<lparr>fs_canonicalize = Ok, fs_is_dir = (\<lambda>_. True), fs_read_to_string = (\<lambda>_. Err [])\<rparr>,
     rv_faults = (\<lambda>_. None), rv_rfc3339 = (\<lambda>_. ''t''), rv_audit = (\<lambda>_. Ok ())\<rparr>"

definition sample_usage :: "skill_usage_summary list" where
  "sample_usage = [\<lparr>us_skill_id = ''a'', us_total_count = 1, us_windowed_count = 1, us_last_used_at = Some 0\<rparr>,
     \<lparr>us_skill_id = ''b'', us_total_count = 0, us_windowed_count = 0, us_last_used_at = None\<rparr>]"

theorem retirement_spares_unused_witness:
  "\<exists>res d'. run_retirement_pass sample_retire_env retirement_config_default (Some (\<lambda>_ _. Ok sample_usage)) (Ok sample_skills) 0
      empty_disk = (res, d') \<and> dk_files d' [''/'', ''b'', ''SKILL.md.retired''] = None"
proof -
  obtain res d' where run: "run_retirement_pass sample_retire_env retirement_config_default (Some (\<lambda>_ _. Ok sample_usage))
      (Ok sample_skills) 0 empty_disk = (res, d')" by fastforce
  have "\<not> retired_target sample_retire_env (sample_snapshot ''a'' Project) [''/'', ''b'', ''SKILL.md.retired'']"
    by code_simp
  with retirement_spares_unused [OF run refl]
  have "dk_files d' [''/'', ''b'', ''SKILL.md.retired''] = dk_files empty_disk [''/'', ''b'', ''SKILL.md.retired'']"
    by (force simp: sample_skills_def sample_usage_def sample_snapshot_def)
  with run show ?thesis by simp
qed

theorem first_use_is_retired_witness:
  "stale retirement_config_default [\<lparr>ug_skill_id = ''a'', ug_used_at = 5, ug_usage_count = 1\<rparr>] 5 (sample_snapshot ''a'' Project) \<noteq> None"
  by (rule first_use_is_retired [of _ _ "\<lparr>ug_skill_id = ''a'', ug_used_at = 5, ug_usage_count = 1\<rparr>"])
     (simp_all add: usage_samples_for_def sample_snapshot_def)

end
