(* ===== verification/Recurrence_Clusters.thy ===== *)
theory Recurrence_Clusters
  imports Retire_Pass
begin

text \<open>
  The clustering of recurring project skills (\<open>build\_recurrence\_clusters\<close> of \<open>maintenance/src/promote.rs\<close>):
  a parent array with path halving, a union per accepted pair, and the collection of the members by
  representative.  \<open>None\<close> stands for a run that never returns or indexes out of range; the theorems show that
  it does not occur and that the clusters are the connected components of the accepted pairs.
\<close>

section \<open>The parent array\<close>

partial_function (option) find_root :: "nat list \<Rightarrow> nat \<Rightarrow> (nat \<times> nat list) option" where
  "find_root parent x =
     (if length parent \<le> x \<or> length parent \<le> parent ! x then None
      else if parent ! x = x then Some (x, parent)
      else (let parent' = parent[x := parent ! (parent ! x)] in find_root parent' (parent' ! x)))"

declare find_root.simps [code]

definition union_roots :: "nat \<Rightarrow> nat \<Rightarrow> nat list \<Rightarrow> nat list option" where
  "union_roots i j parent =
     (case find_root parent i of
        None \<Rightarrow> None
      | Some (root_i, parent) \<Rightarrow>
          (case find_root parent j of
             None \<Rightarrow> None
           | Some (root_j, parent) \<Rightarrow> Some (if root_i \<noteq> root_j then parent[root_i := root_j] else parent)))"

definition index_pairs :: "nat \<Rightarrow> (nat \<times> nat) list" where
  "index_pairs n = concat (map (\<lambda>i. map (Pair i) [Suc i..<n]) [0..<n])"

fun union_pairs ::
  "(nat \<Rightarrow> nat \<Rightarrow> (string, bool) result) \<Rightarrow> (nat \<times> nat) list \<Rightarrow> nat list \<Rightarrow> (string, nat list) result option" where
  "union_pairs judge [] parent = Some (Ok parent)"
| "union_pairs judge ((i, j) # ijs) parent =
     (case judge i j of
        Err e \<Rightarrow> Some (Err e)
      | Ok accepted \<Rightarrow>
          if accepted
          then (case union_roots i j parent of None \<Rightarrow> None | Some parent \<Rightarrow> union_pairs judge ijs parent)
          else union_pairs judge ijs parent)"

fun collect_roots :: "nat list \<Rightarrow> nat list \<Rightarrow> nat list option" where
  "collect_roots [] parent = Some []"
| "collect_roots (i # ixs) parent =
     (case find_root parent i of
        None \<Rightarrow> None
      | Some (r, parent) \<Rightarrow> (case collect_roots ixs parent of None \<Rightarrow> None | Some rs \<Rightarrow> Some (r # rs)))"

text \<open>\<open>order\<close> is the iteration order of the hash map of representatives.\<close>

definition clusters_of ::
  "(nat list \<Rightarrow> nat list) \<Rightarrow> (nat \<Rightarrow> nat \<Rightarrow> (string, bool) result) \<Rightarrow> nat \<Rightarrow> (string, nat list list) result option" where
  "clusters_of order judge n =
     (case union_pairs judge (index_pairs n) [0..<n] of
        None \<Rightarrow> None
      | Some (Err e) \<Rightarrow> Some (Err e)
      | Some (Ok parent) \<Rightarrow>
          (case collect_roots [0..<n] parent of
             None \<Rightarrow> None
           | Some roots \<Rightarrow> Some (Ok (map (\<lambda>r. filter (\<lambda>i. roots ! i = r) [0..<n]) (order (remdups roots))))))"

section \<open>Chains to a representative\<close>

inductive leads :: "nat list \<Rightarrow> nat \<Rightarrow> nat \<Rightarrow> nat \<Rightarrow> bool" for p where
  stop: "\<lbrakk>x < length p; p ! x = x\<rbrakk> \<Longrightarrow> leads p 0 x x"
| step: "\<lbrakk>x < length p; p ! x \<noteq> x; leads p n (p ! x) r\<rbrakk> \<Longrightarrow> leads p (Suc n) x r"

inductive_cases leads_stepE: "leads p n x r"

lemma leads_less: "leads p n x r \<Longrightarrow> x < length p"
  by (cases rule: leads.cases) auto

lemma leads_root: "leads p n x r \<Longrightarrow> r < length p \<and> p ! r = r"
  by (induction rule: leads.induct) auto

lemma leads_unique: "leads p n x r \<Longrightarrow> leads p m x s \<Longrightarrow> r = s \<and> n = m"
proof (induction arbitrary: m s rule: leads.induct)
  case (stop x)
  then show ?case by (auto elim: leads_stepE)
next
  case (step x n r)
  from step.prems step.hyps obtain k where "m = Suc k" "leads p k (p ! x) s" by (auto elim: leads_stepE)
  with step.IH show ?case by auto
qed

lemma leads_no_swap: "leads p n x r \<Longrightarrow> p ! (p ! x) = x \<Longrightarrow> p ! x = x"
  by (induction rule: leads.induct) auto

definition forest :: "nat list \<Rightarrow> bool" where
  "forest p \<longleftrightarrow> (\<forall>x < length p. \<exists>n r. leads p n x r)"

text \<open>Path halving keeps every representative and shortens no chain's end.\<close>

lemma leads_halve:
  assumes x: "x < length p" "p ! x \<noteq> x" "leads p k x s"
  shows "leads p n y r \<Longrightarrow> \<exists>m \<le> n. leads (p[x := p ! (p ! x)]) m y r"
proof (induction rule: leads.induct)
  case (stop y)
  with x have "y \<noteq> x" by auto
  with stop have "leads (p[x := p ! (p ! x)]) 0 y y" by (intro leads.stop) simp_all
  then show ?case by blast
next
  case (step y n r)
  let ?p = "p[x := p ! (p ! x)]" and ?z = "p ! x"
  from step.IH obtain m where m: "m \<le> n" "leads ?p m (p ! y) r" by auto
  show ?case
  proof (cases "y = x")
    case False
    with m step.hyps have "leads ?p (Suc m) y r" by (intro leads.step) auto
    with m show ?thesis by (intro exI [of _ "Suc m"]) simp
  next
    case True
    have z: "?p ! ?z = p ! ?z" using x by (simp add: nth_list_update_neq)
    have new: "?p ! x = p ! ?z" using x by simp
    have away: "p ! ?z \<noteq> x" using leads_no_swap [OF x(3)] x(2) by auto
    show ?thesis
    proof (cases "p ! ?z = ?z")
      case fix_z: True
      with m True new x have "leads ?p (Suc m) x r" by (intro leads.step) auto
      with m True show ?thesis by (intro exI [of _ "Suc m"]) simp
    next
      case False
      from m True have "leads ?p m ?z r" by simp
      with z False obtain m' where m': "m = Suc m'" "leads ?p m' (p ! ?z) r" by (auto elim: leads_stepE)
      with new away x have "leads ?p (Suc m') x r" by (intro leads.step) auto
      with m m' True show ?thesis by (intro exI [of _ "Suc m'"]) simp
    qed
  qed
qed

lemma forest_halve:
  assumes "forest p" and "x < length p" and "p ! x \<noteq> x"
  shows "forest (p[x := p ! (p ! x)])"
proof -
  obtain k s where "leads p k x s" using assms by (auto simp: forest_def)
  with assms show ?thesis unfolding forest_def by (metis leads_halve length_list_update)
qed

text \<open>\<open>find\<close> returns the representative, whatever the chain, and changes none.\<close>

lemma find_root_result:
  "forest p \<Longrightarrow> leads p n x r \<Longrightarrow>
     \<exists>p'. find_root p x = Some (r, p') \<and> forest p' \<and> length p' = length p \<and>
       (\<forall>y s. (\<exists>m. leads p' m y s) \<longleftrightarrow> (\<exists>m. leads p m y s))"
proof (induction n arbitrary: p x rule: less_induct)
  case (less n)
  show ?case
  proof (cases n)
    case 0
    with less.prems have "x < length p" "p ! x = x" "r = x" by (auto elim: leads_stepE)
    with less.prems show ?thesis by (simp add: find_root.simps)
  next
    case (Suc k)
    with less.prems have x: "x < length p" "p ! x \<noteq> x" "leads p k (p ! x) r" by (auto elim: leads_stepE)
    let ?p = "p[x := p ! (p ! x)]"
    have halve: "leads p m y s \<Longrightarrow> \<exists>m' \<le> m. leads ?p m' y s" for m y s
      by (rule leads_halve [OF x(1,2) less.prems(2)])
    have next_chain: "\<exists>m \<le> k. leads ?p m (p ! (p ! x)) r"
    proof (cases "p ! (p ! x) = p ! x")
      case True
      with halve [OF x(3)] show ?thesis by simp
    next
      case False
      with x(3) obtain k' where "k = Suc k'" "leads p k' (p ! (p ! x)) r" by (auto elim: leads_stepE)
      with halve show ?thesis by (meson le_SucI)
    qed
    then obtain m where "m \<le> k" "leads ?p m (p ! (p ! x)) r" by blast
    with x Suc have m: "m < n" "leads ?p m (?p ! x) r" by simp_all
    from less.IH [OF m(1) forest_halve [OF less.prems(1) x(1,2)] m(2)] obtain p' where p':
      "find_root ?p (?p ! x) = Some (r, p')" "forest p'" "length p' = length p"
      "\<forall>y s. (\<exists>m. leads p' m y s) \<longleftrightarrow> (\<exists>m. leads ?p m y s)" by auto
    have same: "(\<exists>m. leads ?p m y s) \<longleftrightarrow> (\<exists>m. leads p m y s)" for y s
    proof
      assume "\<exists>m. leads ?p m y s"
      then obtain m where m: "leads ?p m y s" by blast
      from leads_less [OF m] less.prems(1) obtain m' s' where s': "leads p m' y s'" by (auto simp: forest_def)
      from halve [OF s'] m leads_unique have "s = s'" by blast
      with s' show "\<exists>m. leads p m y s" by blast
    qed (use halve in blast)
    have "p ! x < length p" using leads_less [OF x(3)] .
    with x p'(1) have "find_root p x = Some (r, p')" by (simp add: find_root.simps [of p x] Let_def)
    with p' same show ?thesis by auto
  qed
qed

text \<open>The representative of an element of a forest.\<close>

definition rep :: "nat list \<Rightarrow> nat \<Rightarrow> nat" where
  "rep p x = (THE r. \<exists>n. leads p n x r)"

lemma rep_eq: "leads p n x r \<Longrightarrow> rep p x = r"
  unfolding rep_def by (rule the_equality) (auto dest: leads_unique)

lemma forest_rep:
  assumes "forest p" and "x < length p"
  shows "\<exists>n. leads p n x (rep p x)"
  using assms rep_eq by (fastforce simp: forest_def)

lemma find_root_rep:
  assumes "forest p" and "x < length p"
  shows "\<exists>p'. find_root p x = Some (rep p x, p') \<and> forest p' \<and> length p' = length p \<and> (\<forall>y < length p. rep p' y = rep p y)"
proof -
  obtain n where n: "leads p n x (rep p x)" using forest_rep [OF assms] by blast
  from find_root_result [OF assms(1) n] obtain p' where p': "find_root p x = Some (rep p x, p')" "forest p'"
    "length p' = length p" "\<forall>y s. (\<exists>m. leads p' m y s) \<longleftrightarrow> (\<exists>m. leads p m y s)" by blast
  have "rep p' y = rep p y" for y unfolding rep_def using p'(4) by simp
  with p' show ?thesis by blast
qed

lemma leads_link:
  assumes ri: "ri < length p" "p ! ri = ri" and rj: "rj < length p" "p ! rj = rj" and neq: "ri \<noteq> rj"
  shows "leads p n y r \<Longrightarrow> \<exists>m. leads (p[ri := rj]) m y (if r = ri then rj else r)"
proof (induction rule: leads.induct)
  case (stop y)
  have rj': "leads (p[ri := rj]) 0 rj rj" using rj neq by (intro leads.stop) simp_all
  show ?case
  proof (cases "y = ri")
    case True
    with rj' ri neq have "leads (p[ri := rj]) (Suc 0) y rj" by (intro leads.step) simp_all
    with True show ?thesis by auto
  next
    case False
    with stop have "leads (p[ri := rj]) 0 y y" by (intro leads.stop) simp_all
    with False show ?thesis by auto
  qed
next
  case (step y n r)
  then obtain m where "leads (p[ri := rj]) m (p ! y) (if r = ri then rj else r)" by blast
  moreover have "y \<noteq> ri" using step.hyps ri by auto
  ultimately have "leads (p[ri := rj]) (Suc m) y (if r = ri then rj else r)"
    using step.hyps by (intro leads.step) simp_all
  then show ?case by blast
qed

lemma union_roots_result:
  assumes "forest p" and "i < length p" and "j < length p"
  shows "\<exists>p'. union_roots i j p = Some p' \<and> forest p' \<and> length p' = length p \<and>
    (\<forall>y < length p. rep p' y = (if rep p y = rep p i then rep p j else rep p y))"
proof -
  obtain p1 where p1: "find_root p i = Some (rep p i, p1)" "forest p1" "length p1 = length p"
    "\<forall>y < length p. rep p1 y = rep p y" using find_root_rep [OF assms(1,2)] by blast
  then obtain p2 where p2: "find_root p1 j = Some (rep p j, p2)" "forest p2" "length p2 = length p"
    "\<forall>y < length p. rep p2 y = rep p y" using find_root_rep [OF p1(2), of j] assms(3) by fastforce
  show ?thesis
  proof (cases "rep p i = rep p j")
    case True
    then have "union_roots i j p = Some p2" using p1 p2 by (simp add: union_roots_def)
    then show ?thesis using p2 True by simp
  next
    case False
    have root: "rep p x < length p2 \<and> p2 ! rep p x = rep p x" if "x < length p" for x
      using forest_rep [OF p2(2), of x] that p2 by (auto dest: leads_root)
    let ?p = "p2[rep p i := rep p j]"
    have new: "\<exists>m. leads ?p m y (if rep p y = rep p i then rep p j else rep p y)" if y: "y < length p" for y
    proof -
      obtain n where "leads p2 n y (rep p y)" using forest_rep [OF p2(2), of y] y p2 by auto
      from leads_link [OF _ _ _ _ False this] root assms show ?thesis by auto
    qed
    have "union_roots i j p = Some ?p" using p1 p2 False by (simp add: union_roots_def)
    moreover have "forest ?p" using new p2 by (fastforce simp: forest_def)
    moreover have "rep ?p y = (if rep p y = rep p i then rep p j else rep p y)" if "y < length p" for y
      using new [OF that] rep_eq by blast
    ultimately show ?thesis using p2(3) by (intro exI [of _ ?p]) simp
  qed
qed

section \<open>Components\<close>

text \<open>\<open>linked E\<close>: joined by a path of accepted pairs, in either direction.\<close>

definition linked :: "(nat \<times> nat) set \<Rightarrow> (nat \<times> nat) set" where
  "linked E = (E \<union> E\<inverse>)\<^sup>*"

lemma linked_refl [simp]: "(x, x) \<in> linked E"
  by (simp add: linked_def)

lemma linked_sym: "(x, y) \<in> linked E \<Longrightarrow> (y, x) \<in> linked E"
proof -
  have "sym (E \<union> E\<inverse>)" by (auto simp: sym_def)
  then show "(x, y) \<in> linked E \<Longrightarrow> (y, x) \<in> linked E" unfolding linked_def by (metis sym_rtrancl symE)
qed

lemma linked_trans: "(x, y) \<in> linked E \<Longrightarrow> (y, z) \<in> linked E \<Longrightarrow> (x, z) \<in> linked E"
  unfolding linked_def by (rule rtrancl_trans)

lemma linked_mono: "E \<subseteq> F \<Longrightarrow> (x, y) \<in> linked E \<Longrightarrow> (x, y) \<in> linked F"
  unfolding linked_def using rtrancl_mono [of "E \<union> E\<inverse>" "F \<union> F\<inverse>"] by blast

lemma linked_edge: "(x, y) \<in> E \<Longrightarrow> (x, y) \<in> linked E"
  unfolding linked_def by blast

lemma linked_empty: "(x, y) \<in> linked {} \<longleftrightarrow> x = y"
  by (simp add: linked_def)

lemma linked_insert:
  "(x, y) \<in> linked (insert (i, j) E) \<longleftrightarrow>
     (x, y) \<in> linked E \<or> ((x, i) \<in> linked E \<and> (j, y) \<in> linked E) \<or> ((x, j) \<in> linked E \<and> (i, y) \<in> linked E)"
  (is "?L \<longleftrightarrow> ?R x y")
proof
  assume ?L
  then show "?R x y"
    unfolding linked_def [of "insert (i, j) E"]
  proof (induction rule: rtrancl_induct)
    case (step y z)
    have "(y, z) \<in> linked E \<or> (y = i \<and> z = j) \<or> (y = j \<and> z = i)"
      using step.hyps linked_edge [of _ _ E] linked_sym [of _ _ E] by auto
    with step.IH show ?case using linked_trans [of _ _ E] linked_sym [of _ _ E] linked_refl [of _ E] by metis
  qed simp
next
  let ?F = "insert (i, j) E"
  have lift: "(u, v) \<in> linked E \<Longrightarrow> (u, v) \<in> linked ?F" for u v by (rule linked_mono) auto
  have "(i, j) \<in> linked ?F" "(j, i) \<in> linked ?F" using linked_edge [of i j ?F] linked_sym by auto
  moreover assume "?R x y"
  ultimately show ?L using lift linked_trans by metis
qed

definition represents :: "nat list \<Rightarrow> (nat \<times> nat) set \<Rightarrow> bool" where
  "represents p E \<longleftrightarrow> forest p \<and> (\<forall>y < length p. \<forall>z < length p. rep p y = rep p z \<longleftrightarrow> (y, z) \<in> linked E)"

lemma represents_union:
  assumes p: "represents p E" and i: "i < length p" and j: "j < length p"
  shows "\<exists>p'. union_roots i j p = Some p' \<and> length p' = length p \<and> represents p' (insert (i, j) E)"
proof -
  have forest: "forest p" and same: "\<And>y z. y < length p \<Longrightarrow> z < length p \<Longrightarrow> rep p y = rep p z \<longleftrightarrow> (y, z) \<in> linked E"
    using p by (auto simp: represents_def)
  obtain p' where p': "union_roots i j p = Some p'" "forest p'" "length p' = length p"
    "\<And>y. y < length p \<Longrightarrow> rep p' y = (if rep p y = rep p i then rep p j else rep p y)"
    using union_roots_result [OF forest i j] by blast
  have "rep p' y = rep p' z \<longleftrightarrow> (y, z) \<in> linked (insert (i, j) E)" if "y < length p" "z < length p" for y z
  proof -
    have "rep p' y = rep p' z \<longleftrightarrow> rep p y = rep p z \<or> (rep p y = rep p i \<and> rep p j = rep p z) \<or>
        (rep p y = rep p j \<and> rep p i = rep p z)"
      unfolding p'(4) [OF that(1)] p'(4) [OF that(2)] by presburger
    then show ?thesis by (simp add: linked_insert same that i j)
  qed
  with p' show ?thesis by (auto simp: represents_def)
qed

definition accepted_pairs :: "(nat \<Rightarrow> nat \<Rightarrow> (string, bool) result) \<Rightarrow> (nat \<times> nat) list \<Rightarrow> (nat \<times> nat) set" where
  "accepted_pairs judge ijs = {(i, j). (i, j) \<in> set ijs \<and> judge i j = Ok True}"

lemma union_pairs_result:
  "\<lbrakk>represents p E; \<forall>(i, j) \<in> set ijs. i < length p \<and> j < length p\<rbrakk> \<Longrightarrow>
     (\<exists>e i j. union_pairs judge ijs p = Some (Err e) \<and> (i, j) \<in> set ijs \<and> judge i j = Err e) \<or>
     (\<exists>p'. union_pairs judge ijs p = Some (Ok p') \<and> length p' = length p \<and>
        represents p' (E \<union> accepted_pairs judge ijs) \<and> (\<forall>(i, j) \<in> set ijs. \<exists>b. judge i j = Ok b))"
proof (induction ijs arbitrary: p E)
  case Nil
  then show ?case by (simp add: accepted_pairs_def)
next
  case (Cons ij ijs)
  obtain i j where ij: "ij = (i, j)" by fastforce
  have less: "i < length p" "j < length p" using Cons.prems(2) ij by auto
  show ?case
  proof (cases "judge i j")
    case (Inl e)
    then show ?thesis using ij by auto
  next
    case (Inr b)
    show ?thesis
    proof (cases b)
      case True
      obtain p' where p': "union_roots i j p = Some p'" "length p' = length p" "represents p' (insert (i, j) E)"
        using represents_union [OF Cons.prems(1) less] by blast
      have set_eq: "insert (i, j) E \<union> accepted_pairs judge ijs = E \<union> accepted_pairs judge (ij # ijs)"
        using ij Inr True by (auto simp: accepted_pairs_def)
      have run: "union_pairs judge (ij # ijs) p = union_pairs judge ijs p'" using ij Inr True p' by simp
      have "\<forall>(i, j) \<in> set ijs. i < length p' \<and> j < length p'" using Cons.prems(2) p'(2) by auto
      from Cons.IH [OF p'(3) this] show ?thesis
      proof (elim disjE exE conjE, goal_cases)
        case (1 e k l)
        then show ?thesis using run by auto
      next
        case (2 q)
        then show ?thesis using run set_eq p'(2) ij Inr by (intro disjI2 exI [of _ q]) auto
      qed
    next
      case False
      have set_eq: "accepted_pairs judge (ij # ijs) = accepted_pairs judge ijs"
        using ij Inr False by (auto simp: accepted_pairs_def)
      have run: "union_pairs judge (ij # ijs) p = union_pairs judge ijs p" using ij Inr False by simp
      have "\<forall>(i, j) \<in> set ijs. i < length p \<and> j < length p" using Cons.prems(2) by auto
      from Cons.IH [OF Cons.prems(1) this] show ?thesis
      proof (elim disjE exE conjE, goal_cases)
        case (1 e k l)
        then show ?thesis using run by auto
      next
        case (2 q)
        then show ?thesis using run set_eq ij Inr by (intro disjI2 exI [of _ q]) auto
      qed
    qed
  qed
qed

lemma collect_roots_result:
  "\<lbrakk>forest p; \<And>i. i \<in> set ixs \<Longrightarrow> i < length p\<rbrakk> \<Longrightarrow> collect_roots ixs p = Some (map (rep p) ixs)"
proof (induction ixs arbitrary: p)
  case (Cons i ixs)
  obtain p' where p': "find_root p i = Some (rep p i, p')" "forest p'" "length p' = length p"
    "\<forall>y < length p. rep p' y = rep p y" using find_root_rep [OF Cons.prems(1), of i] Cons.prems(2) by auto
  have "map (rep p') ixs = map (rep p) ixs" using p' Cons.prems(2) by auto
  with Cons.IH [OF p'(2)] Cons.prems(2) p' show ?case by simp
qed simp

section \<open>The clusters\<close>

lemma set_index_pairs: "(i, j) \<in> set (index_pairs n) \<longleftrightarrow> i < j \<and> j < n"
  by (force simp: index_pairs_def)

lemma represents_initial: "represents [0..<n] {}"
proof -
  have "leads [0..<n] 0 x x" if "x < n" for x using that by (intro leads.stop) simp_all
  then show ?thesis by (auto simp: represents_def forest_def linked_empty dest: rep_eq) (metis rep_eq)
qed

text \<open>Every iteration order of the map of representatives.\<close>

definition enumerates :: "(nat list \<Rightarrow> nat list) \<Rightarrow> bool" where
  "enumerates order \<longleftrightarrow> (\<forall>rs. set (order rs) = set rs \<and> (distinct rs \<longrightarrow> distinct (order rs)))"

lemma clusters_of_cases:
  assumes "enumerates order"
  shows "(\<exists>e i j. clusters_of order judge n = Some (Err e) \<and> i < j \<and> j < n \<and> judge i j = Err e) \<or>
    (\<exists>p. clusters_of order judge n = Some (Ok (map (\<lambda>r. filter (\<lambda>i. rep p i = r) [0..<n]) (order (remdups (map (rep p) [0..<n]))))) \<and>
       length p = n \<and> represents p (accepted_pairs judge (index_pairs n)))"
proof -
  have "\<forall>(i, j) \<in> set (index_pairs n). i < length [0..<n] \<and> j < length [0..<n]" by (auto simp: set_index_pairs)
  from union_pairs_result [OF represents_initial this, of judge] show ?thesis
  proof (elim disjE exE conjE, goal_cases)
    case (1 e i j)
    then show ?thesis by (auto simp: clusters_of_def set_index_pairs)
  next
    case (2 p)
    then have p: "forest p" "length p = n" by (simp_all add: represents_def)
    have roots: "collect_roots [0..<n] p = Some (map (rep p) [0..<n])"
      by (rule collect_roots_result [OF p(1)]) (simp add: p)
    have "filter (\<lambda>i. map (rep p) [0..<n] ! i = r) [0..<n] = filter (\<lambda>i. rep p i = r) [0..<n]" for r
      by (rule filter_cong) auto
    with 2 roots show ?thesis by (auto simp: clusters_of_def)
  qed
qed

text \<open>C35: the clustering always returns, in every iteration order of the map: the error of a pair the verifier failed on, or clusters, in which two skills share a cluster exactly when a path of accepted pairs joins them.\<close>

theorem clusters_are_components:
  assumes "enumerates order"
  shows "(\<exists>e i j. clusters_of order judge n = Some (Err e) \<and> i < j \<and> j < n \<and> judge i j = Err e) \<or>
    (\<exists>cs. clusters_of order judge n = Some (Ok cs) \<and>
       (\<forall>i < n. \<forall>j < n. (\<exists>c \<in> set cs. i \<in> set c \<and> j \<in> set c) \<longleftrightarrow>
          (i, j) \<in> linked {(k, l). k < l \<and> l < n \<and> judge k l = Ok True}))"
  using clusters_of_cases [OF assms, of judge n]
proof (elim disjE exE conjE, goal_cases)
  case (2 p)
  let ?E = "{(k, l). k < l \<and> l < n \<and> judge k l = Ok True}"
  let ?cs = "map (\<lambda>r. filter (\<lambda>i. rep p i = r) [0..<n]) (order (remdups (map (rep p) [0..<n])))"
  have "accepted_pairs judge (index_pairs n) = ?E" by (auto simp: accepted_pairs_def set_index_pairs)
  with 2 have same: "rep p i = rep p j \<longleftrightarrow> (i, j) \<in> linked ?E" if "i < n" "j < n" for i j
    using that by (auto simp: represents_def)
  have "set (order (remdups (map (rep p) [0..<n]))) = rep p ` {..<n}"
    using assms by (auto simp: enumerates_def)
  then have "(\<exists>c \<in> set ?cs. i \<in> set c \<and> j \<in> set c) \<longleftrightarrow> rep p i = rep p j" if "i < n" "j < n" for i j
    using that by auto
  with same have "\<forall>i < n. \<forall>j < n. (\<exists>c \<in> set ?cs. i \<in> set c \<and> j \<in> set c) \<longleftrightarrow> (i, j) \<in> linked ?E" by simp
  with 2 show ?thesis by blast
qed blast

lemma concat_classes:
  "\<lbrakk>distinct rs; \<And>i. i \<in> set xs \<Longrightarrow> f i \<in> set rs\<rbrakk> \<Longrightarrow> mset (concat (map (\<lambda>r. filter (\<lambda>i. f i = r) xs) rs)) = mset xs"
proof (induction rs arbitrary: xs)
  case (Cons r rs)
  let ?rest = "filter (\<lambda>i. f i \<noteq> r) xs"
  have same: "map (\<lambda>s. filter (\<lambda>i. f i = s) xs) rs = map (\<lambda>s. filter (\<lambda>i. f i = s) ?rest) rs"
  proof (rule map_cong [OF refl])
    fix s assume "s \<in> set rs"
    with Cons.prems(1) have "s \<noteq> r" by auto
    then show "filter (\<lambda>i. f i = s) xs = filter (\<lambda>i. f i = s) ?rest"
      unfolding filter_filter by (intro filter_cong) auto
  qed
  have rest: "mset (concat (map (\<lambda>s. filter (\<lambda>i. f i = s) ?rest) rs)) = mset ?rest"
    using Cons.prems by (intro Cons.IH) auto
  have "mset (concat (map (\<lambda>r. filter (\<lambda>i. f i = r) xs) (r # rs))) = mset (filter (\<lambda>i. f i = r) xs) + mset ?rest"
    unfolding list.map(2) concat.simps(2) same mset_append rest ..
  also have "\<dots> = mset xs" unfolding mset_filter by (rule multiset_partition [symmetric])
  finally show ?case .
next
  case Nil
  then have "xs = []" by (cases xs) auto
  then show ?case by simp
qed

text \<open>the clusters are a partition: every skill lies in exactly one, and none is empty.\<close>

theorem clusters_partition:
  assumes "enumerates order" and "clusters_of order judge n = Some (Ok cs)"
  shows "mset (concat cs) = mset [0..<n] \<and> [] \<notin> set cs"
  using clusters_of_cases [OF assms(1), of judge n]
proof (elim disjE exE conjE, goal_cases)
  case (1 e i j)
  with assms show ?thesis by simp
next
  case (2 p)
  let ?rs = "order (remdups (map (rep p) [0..<n]))"
  have rs: "set ?rs = rep p ` {..<n}" "distinct ?rs" using assms(1) by (auto simp: enumerates_def)
  have cs: "cs = map (\<lambda>r. filter (\<lambda>i. rep p i = r) [0..<n]) ?rs" using 2 assms(2) by simp
  have "mset (concat cs) = mset [0..<n]" unfolding cs by (rule concat_classes [OF rs(2)]) (simp add: rs(1))
  moreover have "filter (\<lambda>i. rep p i = r) [0..<n] \<noteq> []" if "r \<in> set ?rs" for r
    using that rs(1) by (auto simp: filter_empty_conv)
  then have "[] \<notin> set cs" unfolding cs by fastforce
  ultimately show ?thesis by simp
qed

section \<open>A run\<close>

definition sample_judge :: "nat \<Rightarrow> nat \<Rightarrow> (string, bool) result" where
  "sample_judge i j = Ok (j = Suc i)"

theorem clusters_are_components_witness:
  "\<exists>cs. clusters_of id sample_judge 3 = Some (Ok cs) \<and> list_ex (\<lambda>c. 0 \<in> set c \<and> 2 \<in> set c) cs"
proof -
  let ?E = "{(k, l). k < l \<and> l < 3 \<and> sample_judge k l = Ok True}"
  have "(0, 1) \<in> linked ?E" "(1, 2) \<in> linked ?E" by (auto intro!: linked_edge simp: sample_judge_def)
  then have link: "(0, 2) \<in> linked ?E" by (rule linked_trans)
  from clusters_are_components [of id sample_judge 3] obtain cs where cs: "clusters_of id sample_judge 3 = Some (Ok cs)"
    "\<forall>i < 3. \<forall>j < 3. (\<exists>c \<in> set cs. i \<in> set c \<and> j \<in> set c) \<longleftrightarrow> (i, j) \<in> linked ?E"
    by (auto simp: enumerates_def sample_judge_def)
  from cs(2) have "(\<exists>c \<in> set cs. 0 \<in> set c \<and> 2 \<in> set c) \<longleftrightarrow> (0, 2) \<in> linked ?E" by simp
  with link have "\<exists>c \<in> set cs. 0 \<in> set c \<and> 2 \<in> set c" by simp
  then show ?thesis unfolding list_ex_iff by (intro exI [of _ cs]) (use cs(1) in auto)
qed

lemma sample_clusters: "clusters_of id sample_judge 3 = Some (Ok [[0, 1, 2]])"
  by code_simp

theorem clusters_partition_witness:
  "clusters_of id sample_judge 3 = Some (Ok [[0, 1, 2]]) \<and> mset (concat [[0, 1, 2 :: nat]]) = mset [0..<3]"
  using clusters_partition [of id sample_judge 3, OF _ sample_clusters] sample_clusters
  by (simp add: enumerates_def)

end
