(* ===== verification/Promote_Pass.thy ===== *)
theory Promote_Pass
  imports Recurrence_Clusters
begin

text \<open>
  Promotion and demotion proposals (\<open>maintenance/src/promote.rs\<close>): the identifier veto, the proposal writer
  anchored at the global scope root, the intrinsic and the recurrence path, and the demotion scan.  The rows
  come from \<open>promotion\_recurrence.rs\<close> and \<open>scope\_demotion.rs\<close> of the infrastructure crate.  The database, the
  embedder, the two verifiers, the YAML serializer and the iteration order of hash maps are parameters.
\<close>

section \<open>Errors, rows and proposals\<close>

datatype cron_error =
    InvalidInterval string
  | ClockReversal
  | MergePass string
  | RetirementPass string
  | PromotionPass string

fun cron_error_reason :: "cron_error \<Rightarrow> string" where
  "cron_error_reason (InvalidInterval _) = ''maintenance_invalid_interval''"
| "cron_error_reason ClockReversal = ''maintenance_clock_reversal''"
| "cron_error_reason (MergePass _) = ''maintenance_merge_pass_failed''"
| "cron_error_reason (RetirementPass _) = ''maintenance_retirement_pass_failed''"
| "cron_error_reason (PromotionPass _) = ''maintenance_promotion_pass_failed''"

datatype promotion_error =
    InvalidGlobalScopeRoot string
  | ScopeRootInvalid merge_error
  | PromotionFrontmatter string
  | PromotionWriteFailure string string

fun promotion_error_reason :: "promotion_error \<Rightarrow> string" where
  "promotion_error_reason (InvalidGlobalScopeRoot _) = ''promotion_invalid_global_scope_root''"
| "promotion_error_reason (ScopeRootInvalid _) = ''promotion_scope_root_invalid''"
| "promotion_error_reason (PromotionFrontmatter _) = ''promotion_frontmatter_serialization_failed''"
| "promotion_error_reason (PromotionWriteFailure _ _) = ''promotion_pending_write_failed''"

fun promotion_error_str :: "promotion_error \<Rightarrow> string" where
  "promotion_error_str (InvalidGlobalScopeRoot m) = ''invalid global scope root: '' @ m"
| "promotion_error_str (ScopeRootInvalid e) = ''global scope root problem: '' @ merge_error_str e"
| "promotion_error_str (PromotionFrontmatter m) = ''failed serializing promotion frontmatter: '' @ m"
| "promotion_error_str (PromotionWriteFailure p m) = ''failed writing promotion proposal '' @ ticked p @ '': '' @ m"

text \<open>Rows of the \<open>skills\<close> table, project and global alike.\<close>

record skill_row =
  kr_id :: string
  kr_name :: string
  kr_description :: string
  kr_tags :: "string list"
  kr_source_paths :: "string list"

definition row_semantic_text :: "skill_row \<Rightarrow> string" where
  "row_semantic_text r = kr_name r @ newline @ kr_description r"

text \<open>
  \<open>Path::ancestors\<close> without the path itself.  Doubled separators inside a stored path are normalised here;
  the paths the graph builder stores have none.
\<close>

function proper_ancestors :: "path \<Rightarrow> path list" where
  "proper_ancestors p = (case path_parent p of None \<Rightarrow> [] | Some q \<Rightarrow> q # proper_ancestors q)"
  by pat_completeness auto
termination
  by (relation "measure length") (auto simp: path_parent_def split: if_splits)

declare proper_ancestors.simps [simp del]

definition is_project_root_dir :: "path \<Rightarrow> bool" where
  "is_project_root_dir ancestor =
     (let last_component = (case file_name ancestor of Some n \<Rightarrow> n | None \<Rightarrow> []) in
      last_component \<noteq> [] \<and> \<not> contains_str (ascii_lower last_component) ''skill'' \<and> hd last_component \<noteq> CHR ''.'')"

definition project_root_key :: "skill_row \<Rightarrow> string option" where
  "project_root_key r =
     (case kr_source_paths r of
        [] \<Rightarrow> None
      | first # _ \<Rightarrow>
          (let p = path_parse first in
           case find is_project_root_dir (drop 1 (proper_ancestors p)) of
             Some ancestor \<Rightarrow> Some (path_display ancestor)
           | None \<Rightarrow> (case path_parent p of None \<Rightarrow> None | Some q \<Rightarrow> map_option path_display (path_parent q))))"

datatype promotion_evidence = Intrinsic | Recurrence nat

record promotion_proposal =
  pp_pending_path :: path
  pp_skill_ids :: "string list"
  pp_from_scopes :: "scope_type list"
  pp_to_scope :: scope_type
  pp_evidence :: promotion_evidence
  pp_source_paths :: "path list"

record demotion_proposal =
  dp_pending_path :: path
  dp_skill_id :: string
  dp_from_scope :: scope_type
  dp_to_scope :: scope_type
  dp_offending_identifiers :: "string list"

definition promotion_to_scope :: scope_type where "promotion_to_scope = Global"

section \<open>The identifier check\<close>

definition skill_text_contains_project_local_identifier :: "string \<Rightarrow> string list \<Rightarrow> bool" where
  "skill_text_contains_project_local_identifier text tokens =
     list_ex (\<lambda>token. token \<noteq> [] \<and> contains_str text token) tokens"

definition collect_project_local_identifiers :: "string \<Rightarrow> string list \<Rightarrow> string list" where
  "collect_project_local_identifiers text tokens =
     remdups_adj (sort (filter (\<lambda>token. token \<noteq> [] \<and> contains_str text token) tokens))"

section \<open>Rendering\<close>

record promotion_frontmatter =
  pf_name :: string
  pf_description :: string
  pf_tags :: "string list"
  pf_origin :: string
  pf_to_scope :: string
  pf_from_scope :: string
  pf_from_path :: string
  pf_evidence :: string
  pf_created_at :: string
  pf_warning_at :: string
  pf_expires_at :: string

record demotion_frontmatter =
  ef_name :: string
  ef_description :: string
  ef_origin :: string
  ef_from_scope :: string
  ef_to_scope :: string
  ef_from_path :: string
  ef_offending_identifiers :: "string list"
  ef_created_at :: string
  ef_warning_at :: string
  ef_expires_at :: string

record promote_env =
  pn_fs :: file_system
  pn_faults :: faults
  pn_rfc3339 :: "int \<Rightarrow> string"
  pn_promotion_yaml :: "promotion_frontmatter \<Rightarrow> (string, string) result"
  pn_demotion_yaml :: "demotion_frontmatter \<Rightarrow> (string, string) result"
  pn_generality :: "string \<Rightarrow> (string, bool) result"

definition framed_yaml :: "(string, string) result \<Rightarrow> (promotion_error, string) result" where
  "framed_yaml yaml =
     (case yaml of
        Err e \<Rightarrow> Err (PromotionFrontmatter e)
      | Ok s \<Rightarrow>
          (let y = if prefix (''---'' @ newline) s then drop 4 s else s in
           Ok (''---'' @ newline @ y @ (if suffix newline y then [] else newline) @ ''---'' @ newline @ newline)))"

definition render_promotion_markdown ::
  "promote_env \<Rightarrow> skill_snapshot \<Rightarrow> promotion_evidence \<Rightarrow> int \<Rightarrow> (promotion_error, string) result" where
  "render_promotion_markdown env s evidence now =
     (let fm = \<lparr>pf_name = sn_name s, pf_description = sn_description s, pf_tags = sort (sn_tags s),
                pf_origin = ''promotion_proposal'', pf_to_scope = ''global'', pf_from_scope = scope_type_str (sn_scope s),
                pf_from_path = path_display (sn_source_path s),
                pf_evidence = (case evidence of Intrinsic \<Rightarrow> ''intrinsic'' | Recurrence _ \<Rightarrow> ''recurrence''),
                pf_created_at = pn_rfc3339 env now, pf_warning_at = pn_rfc3339 env (pending_default_warning_at now),
                pf_expires_at = pn_rfc3339 env (pending_default_expires_at now)\<rparr>
      in rbind (framed_yaml (pn_promotion_yaml env fm)) (\<lambda>yaml.
           Ok (yaml @ ''# '' @ sn_name s @ newline @ newline @ sn_description s @ newline @ newline @
             (if sn_subunits s = [] then []
              else ''## Procedures'' @ newline @ concat (map (\<lambda>u. ''- '' @ u @ newline) (sn_subunits s))))))"

definition render_demotion_markdown ::
  "promote_env \<Rightarrow> skill_row \<Rightarrow> string list \<Rightarrow> int \<Rightarrow> (promotion_error, string) result" where
  "render_demotion_markdown env r offending now =
     (let fm = \<lparr>ef_name = kr_name r, ef_description = kr_description r, ef_origin = ''demotion_proposal'',
                ef_from_scope = ''global'', ef_to_scope = ''project'',
                ef_from_path = (case kr_source_paths r of [] \<Rightarrow> [] | p # _ \<Rightarrow> p), ef_offending_identifiers = offending,
                ef_created_at = pn_rfc3339 env now, ef_warning_at = pn_rfc3339 env (pending_default_warning_at now),
                ef_expires_at = pn_rfc3339 env (pending_default_expires_at now)\<rparr>
      in rbind (framed_yaml (pn_demotion_yaml env fm)) (\<lambda>yaml.
           Ok (yaml @ ''# '' @ kr_name r @ newline @ newline @ kr_description r @ newline @ newline @
             ''## Demotion Evidence'' @ newline @ newline @
             ''This global skill references the following project-local identifiers, which indicate it is mis-scoped:'' @
             newline @ newline @ concat (map (\<lambda>u. ''- '' @ ticked u @ newline) offending))))"

section \<open>The proposal writer\<close>

record promotion_writer =
  pv_global_scope_root :: path
  pv_pending_directory_name :: string

definition promotion_directory_name :: "string \<Rightarrow> string" where
  "promotion_directory_name skill_id = ''promote--'' @ slug_or ''promoted-skill'' skill_id"

definition demotion_directory_name :: "string \<Rightarrow> string" where
  "demotion_directory_name skill_id = ''demote--'' @ slug_or ''promoted-skill'' skill_id"

definition promotion_write_failure :: "path \<Rightarrow> string \<Rightarrow> promotion_error" where
  "promotion_write_failure p m = PromotionWriteFailure (path_display p) m"

text \<open>A directory created, resolved and checked against the scope root.\<close>

definition confined_dir ::
  "promote_env \<Rightarrow> path \<Rightarrow> path \<Rightarrow> disk \<Rightarrow> (promotion_error, path) result \<times> disk" where
  "confined_dir env scope_root dir d =
     (case create_dir_all (pn_faults env) dir d of
        (Err m, d) \<Rightarrow> (Err (promotion_write_failure dir m), d)
      | (Ok _, d) \<Rightarrow>
          (case fs_canonicalize (pn_fs env) dir of
             Err m \<Rightarrow> (Err (promotion_write_failure dir m), d)
           | Ok canonical \<Rightarrow>
               (case ensure_within_scope_root canonical scope_root of
                  Err e \<Rightarrow> (Err (ScopeRootInvalid e), d)
                | Ok _ \<Rightarrow> (Ok canonical, d))))"

text \<open>
  The steps \<open>write\_proposal\<close> and \<open>write\_demotion\_proposal\<close> share: both directories, the body, the new file.
\<close>

definition write_artifact ::
  "promote_env \<Rightarrow> promotion_writer \<Rightarrow> string \<Rightarrow> (promotion_error, string) result \<Rightarrow> disk \<Rightarrow>
     (promotion_error, path) result \<times> disk" where
  "write_artifact env writer directory body d =
     (case canonicalize_scope_root (pn_fs env) (pv_global_scope_root writer) of
        Err e \<Rightarrow> (Err (ScopeRootInvalid e), d)
      | Ok scope_root \<Rightarrow>
     (case validate_pending_directory_name (pv_pending_directory_name writer) of
        Err e \<Rightarrow> (Err (ScopeRootInvalid e), d)
      | Ok name \<Rightarrow>
     (case confined_dir env scope_root (scope_root @ name) d of
        (Err e, d) \<Rightarrow> (Err e, d)
      | (Ok pending_root, d) \<Rightarrow>
     (case confined_dir env scope_root (pending_root @ [directory]) d of
        (Err e, d) \<Rightarrow> (Err e, d)
      | (Ok proposal_dir, d) \<Rightarrow>
     (case body of
        Err e \<Rightarrow> (Err e, d)
      | Ok text \<Rightarrow>
     (case create_new_file (pn_faults env) (proposal_dir @ [pending_skill_file]) text d of
        (Err m, d) \<Rightarrow> (Err (promotion_write_failure (proposal_dir @ [pending_skill_file]) m), d)
      | (Ok _, d) \<Rightarrow> (Ok (proposal_dir @ [pending_skill_file]), d)))))))"

definition write_promotion_proposal ::
  "promote_env \<Rightarrow> promotion_writer \<Rightarrow> skill_snapshot \<Rightarrow> promotion_evidence \<Rightarrow> int \<Rightarrow> disk \<Rightarrow>
     (promotion_error, promotion_proposal) result \<times> disk" where
  "write_promotion_proposal env writer s evidence now d =
     (case write_artifact env writer (promotion_directory_name (sn_id s)) (render_promotion_markdown env s evidence now) d of
        (Err e, d) \<Rightarrow> (Err e, d)
      | (Ok p, d) \<Rightarrow> (Ok \<lparr>pp_pending_path = p, pp_skill_ids = [sn_id s], pp_from_scopes = [sn_scope s],
            pp_to_scope = promotion_to_scope, pp_evidence = evidence, pp_source_paths = [sn_source_path s]\<rparr>, d))"

definition write_demotion_proposal ::
  "promote_env \<Rightarrow> promotion_writer \<Rightarrow> skill_row \<Rightarrow> string list \<Rightarrow> int \<Rightarrow> disk \<Rightarrow>
     (promotion_error, demotion_proposal) result \<times> disk" where
  "write_demotion_proposal env writer r offending now d =
     (case write_artifact env writer (demotion_directory_name (kr_id r)) (render_demotion_markdown env r offending now) d of
        (Err e, d) \<Rightarrow> (Err e, d)
      | (Ok p, d) \<Rightarrow> (Ok \<lparr>dp_pending_path = p, dp_skill_id = kr_id r, dp_from_scope = Global, dp_to_scope = Project,
            dp_offending_identifiers = offending\<rparr>, d))"

section \<open>The live runner\<close>

record recurrence_config =
  rx_min_distinct_roots :: nat
  rx_similarity_threshold :: f32

definition recurrence_config_default :: recurrence_config where
  "recurrence_config_default = \<lparr>rx_min_distinct_roots = 2, rx_similarity_threshold = lit 0.85\<rparr>"

definition recurrence_config_from_env :: "environment \<Rightarrow> recurrence_config" where
  "recurrence_config_from_env env =
     recurrence_config_default\<lparr>rx_min_distinct_roots :=
       (case env ''PROMOTION_RECURRENCE_THRESHOLD'' of
          None \<Rightarrow> 2
        | Some raw \<Rightarrow> (case parse_unsigned 64 (trim raw) of
              None \<Rightarrow> 2 | Some n \<Rightarrow> if 2 \<le> n then n else 2))\<rparr>"

text \<open>The three parts the recurrence path needs; \<open>None\<close> when one of them is not configured.\<close>

record recurrence_parts =
  rq_rows :: "(string, skill_row list) result"
  rq_embed :: "string \<Rightarrow> (embedding_error, f32 list) result"
  rq_equivalent :: "string \<Rightarrow> string \<Rightarrow> (string, bool) result"
  rq_map_order :: "nat list \<Rightarrow> nat list"

record promotion_runner =
  pr_skill_snapshots :: "skill_snapshot list"
  pr_project_identifier_tokens :: "string list"
  pr_writer :: promotion_writer
  pr_recurrence :: "recurrence_parts option"
  pr_recurrence_config :: recurrence_config
  pr_global_rows :: "(string, skill_row list) result option"

text \<open>
  The proposal loops: a step answers \<open>Ok None\<close> for \<open>continue\<close>, \<open>Ok (Some p)\<close> for \<open>push\<close> and \<open>Err\<close> for \<open>?\<close>.
\<close>

fun propose_each ::
  "('a \<Rightarrow> disk \<Rightarrow> ('e, 'p option) result \<times> disk) \<Rightarrow> 'a list \<Rightarrow> disk \<Rightarrow> ('e, 'p list) result \<times> disk" where
  "propose_each step [] d = (Ok [], d)"
| "propose_each step (x # xs) d =
     (case step x d of
        (Err e, d) \<Rightarrow> (Err e, d)
      | (Ok None, d) \<Rightarrow> propose_each step xs d
      | (Ok (Some p), d) \<Rightarrow>
          (case propose_each step xs d of (Err e, d) \<Rightarrow> (Err e, d) | (Ok ps, d) \<Rightarrow> (Ok (p # ps), d)))"

definition intrinsic_step ::
  "promote_env \<Rightarrow> promotion_writer \<Rightarrow> string list \<Rightarrow> int \<Rightarrow> skill_snapshot \<Rightarrow> disk \<Rightarrow>
     (cron_error, promotion_proposal option) result \<times> disk" where
  "intrinsic_step env writer tokens now s d =
     (if skill_text_contains_project_local_identifier (semantic_text s) tokens then (Ok None, d)
      else case pn_generality env (semantic_text s) of
          Err m \<Rightarrow> (Err (PromotionPass (''generality verifier failed for skill '' @ ticked (sn_id s) @ '': '' @ m)), d)
        | Ok general \<Rightarrow>
            if \<not> general then (Ok None, d)
            else (case write_promotion_proposal env writer s Intrinsic now d of
                (Err e, d) \<Rightarrow> (Err (PromotionPass (promotion_error_str e)), d)
              | (Ok p, d) \<Rightarrow> (Ok (Some p), d)))"

definition run_intrinsic_pass ::
  "promote_env \<Rightarrow> promotion_runner \<Rightarrow> int \<Rightarrow> disk \<Rightarrow> (cron_error, promotion_proposal list) result \<times> disk" where
  "run_intrinsic_pass env runner now d =
     propose_each (intrinsic_step env (pr_writer runner) (pr_project_identifier_tokens runner) now)
       (filter (\<lambda>s. sn_scope s = Project) (pr_skill_snapshots runner)) d"

definition cosine_similarity_recurrence :: "f32 list \<Rightarrow> f32 list \<Rightarrow> f32" where
  "cosine_similarity_recurrence l r =
     (if length l \<noteq> length r then lit 0
      else (let dot = foldl (\<lambda>acc (x, y). fadd acc (fmul x y)) (lit 0) (zip l r);
                l_norm = foldl (\<lambda>acc (x, y). fadd acc (fmul x x)) (lit 0) (zip l r);
                r_norm = foldl (\<lambda>acc (x, y). fadd acc (fmul y y)) (lit 0) (zip l r)
            in if feq l_norm (lit 0) \<or> feq r_norm (lit 0) then lit 0
               else fdiv dot (fmul (fsqrt l_norm) (fsqrt r_norm))))"

definition recurrence_judge ::
  "recurrence_parts \<Rightarrow> f32 \<Rightarrow> (skill_row \<times> f32 list) list \<Rightarrow> nat \<Rightarrow> nat \<Rightarrow> (string, bool) result" where
  "recurrence_judge parts threshold embedded i j =
     (let (row_i, emb_i) = embedded ! i; (row_j, emb_j) = embedded ! j in
      if flt (cosine_similarity_recurrence emb_i emb_j) threshold then Ok False
      else case rq_equivalent parts (row_semantic_text row_i) (row_semantic_text row_j) of
          Err m \<Rightarrow> Err (''equivalence verifier failed for skills '' @ ticked (kr_id row_i) @ '' and '' @
                         ticked (kr_id row_j) @ '': '' @ m)
        | Ok equivalent \<Rightarrow> Ok equivalent)"

definition build_recurrence_clusters ::
  "recurrence_parts \<Rightarrow> f32 \<Rightarrow> (skill_row \<times> f32 list) list \<Rightarrow> (string, skill_row list list) result option" where
  "build_recurrence_clusters parts threshold embedded =
     map_option (map_sum id (map (map (\<lambda>i. fst (embedded ! i)))))
       (clusters_of (rq_map_order parts) (recurrence_judge parts threshold embedded) (length embedded))"

definition row_root_keys :: "skill_row list \<Rightarrow> string list" where
  "row_root_keys rows = remdups (List.map_filter project_root_key rows)"

fun embed_rows ::
  "(string \<Rightarrow> (embedding_error, f32 list) result) \<Rightarrow> skill_row list \<Rightarrow> (cron_error, (skill_row \<times> f32 list) list) result" where
  "embed_rows embedder [] = Ok []"
| "embed_rows embedder (r # rs) =
     (case embedder (row_semantic_text r) of
        Err e \<Rightarrow> Err (PromotionPass (''recurrence pass: embedding failed for skill '' @ ticked (kr_id r) @
                 '' [reason_code=promotion_recurrence_embedding_error]: '' @ embedding_error_str e))
      | Ok v \<Rightarrow> rbind (embed_rows embedder rs) (\<lambda>es. Ok ((r, v) # es)))"

definition project_skill_row_to_snapshot :: "skill_row \<Rightarrow> skill_snapshot" where
  "project_skill_row_to_snapshot r =
     \<lparr>sn_id = kr_id r, sn_name = kr_name r, sn_description = kr_description r, sn_scope = Project,
      sn_source_path = (case kr_source_paths r of [] \<Rightarrow> [''SKILL.md''] | p # _ \<Rightarrow> path_parse p),
      sn_tags = kr_tags r, sn_subunits = [], sn_embedding = []\<rparr>"

definition recurrence_step ::
  "promote_env \<Rightarrow> promotion_writer \<Rightarrow> nat \<Rightarrow> int \<Rightarrow> skill_row list \<Rightarrow> disk \<Rightarrow>
     (cron_error, promotion_proposal option) result \<times> disk" where
  "recurrence_step env writer threshold now cluster d =
     (let roots = length (row_root_keys cluster) in
      if roots < threshold then (Ok None, d)
      else (case write_promotion_proposal env writer (project_skill_row_to_snapshot (hd cluster)) (Recurrence roots) now d of
          (Err e, d) \<Rightarrow> (Err (PromotionPass (promotion_error_str e)), d)
        | (Ok p, d) \<Rightarrow> (Ok (Some p), d)))"

text \<open>\<open>None\<close>: the clustering does not return.\<close>

definition run_recurrence_pass ::
  "promote_env \<Rightarrow> promotion_runner \<Rightarrow> int \<Rightarrow> disk \<Rightarrow> ((cron_error, promotion_proposal list) result \<times> disk) option" where
  "run_recurrence_pass env runner now d =
     (let threshold = rx_min_distinct_roots (pr_recurrence_config runner) in
      case pr_recurrence runner of
        None \<Rightarrow> Some (Ok [], d)
      | Some parts \<Rightarrow>
     (case rq_rows parts of
        Err m \<Rightarrow> Some (Err (PromotionPass (''recurrence pass: PG store query failed [reason_code=promotion_recurrence_db_error]: '' @ m)), d)
      | Ok rows \<Rightarrow>
          if length (row_root_keys rows) < threshold then Some (Ok [], d)
          else
     (case embed_rows (rq_embed parts) rows of
        Err e \<Rightarrow> Some (Err e, d)
      | Ok embedded \<Rightarrow>
     (case build_recurrence_clusters parts (rx_similarity_threshold (pr_recurrence_config runner)) embedded of
        None \<Rightarrow> None
      | Some (Err m) \<Rightarrow> Some (Err (PromotionPass
          (''recurrence pass: clustering failed [reason_code=promotion_recurrence_cluster_error]: '' @ m)), d)
      | Some (Ok clusters) \<Rightarrow> Some (propose_each (recurrence_step env (pr_writer runner) threshold now) clusters d)))))"

definition run_promotion_pass ::
  "promote_env \<Rightarrow> promotion_runner \<Rightarrow> int \<Rightarrow> disk \<Rightarrow> ((cron_error, promotion_proposal list) result \<times> disk) option" where
  "run_promotion_pass env runner now d =
     (case run_intrinsic_pass env runner now d of
        (Err e, d) \<Rightarrow> Some (Err e, d)
      | (Ok intrinsic, d) \<Rightarrow>
          (case run_recurrence_pass env runner now d of
             None \<Rightarrow> None
           | Some (Err e, d) \<Rightarrow> Some (Err e, d)
           | Some (Ok recurrence, d) \<Rightarrow> Some (Ok (intrinsic @ recurrence), d)))"

definition demotion_step ::
  "promote_env \<Rightarrow> promotion_writer \<Rightarrow> string list \<Rightarrow> int \<Rightarrow> skill_row \<Rightarrow> disk \<Rightarrow>
     (cron_error, demotion_proposal option) result \<times> disk" where
  "demotion_step env writer tokens now r d =
     (let offending = collect_project_local_identifiers (row_semantic_text r) tokens in
      if offending = [] then (Ok None, d)
      else (case write_demotion_proposal env writer r offending now d of
          (Err e, d) \<Rightarrow> (Err (PromotionPass (''demotion pass: failed writing proposal for skill '' @ ticked (kr_id r) @
                           '' [reason_code=scope_demotion_write_failed]: '' @ promotion_error_str e)), d)
        | (Ok p, d) \<Rightarrow> (Ok (Some p), d)))"

definition scan_demotions ::
  "promote_env \<Rightarrow> promotion_runner \<Rightarrow> int \<Rightarrow> disk \<Rightarrow> (cron_error, demotion_proposal list) result \<times> disk" where
  "scan_demotions env runner now d =
     (case pr_global_rows runner of
        None \<Rightarrow> (Ok [], d)
      | Some rows \<Rightarrow>
          if pr_project_identifier_tokens runner = [] then (Ok [], d)
          else (case rows of
              Err m \<Rightarrow> (Err (PromotionPass (''demotion pass: PG store query failed [reason_code=scope_demotion_db_error]: '' @ m)), d)
            | Ok skills \<Rightarrow> propose_each (demotion_step env (pr_writer runner) (pr_project_identifier_tokens runner) now) skills d))"

section \<open>The tokens and the global root (runtime.rs)\<close>

definition is_global_root :: "path \<Rightarrow> bool" where
  "is_global_root p = contains_str (path_display p) ''global''"

definition skip_components :: "string list" where
  "skip_components = [''home'', ''root'', ''tmp'', ''var'', ''usr'', ''opt'', ''etc'', ''srv'', ''data'', ''workspace'',
     ''work'', ''projects'', ''repos'', ''src'', ''code'']"

definition build_project_identifier_tokens :: "path list \<Rightarrow> string list" where
  "build_project_identifier_tokens scope_roots =
     concat (map (filter (\<lambda>name. name \<noteq> ''/'' \<and> name \<noteq> ''..'' \<and> 2 < length name \<and>
                    \<not> List.member skip_components (ascii_lower name)))
       (filter (\<lambda>p. \<not> is_global_root p) scope_roots))"

section \<open>What the writer may touch\<close>

lemma confined_dir_cases:
  assumes "confined_dir env scope_root dir d = (r, d')"
  shows "dk_files d' = dk_files d \<and> (\<forall>p. r = Ok p \<longrightarrow> fs_canonicalize (pn_fs env) dir = Ok p \<and> prefix scope_root p)"
proof -
  obtain w d0 where w: "create_dir_all (pn_faults env) dir d = (w, d0)" by fastforce
  then have "dk_files d0 = dk_files d" using create_dir_all_result by blast
  with assms w show ?thesis
    by (cases w; cases "fs_canonicalize (pn_fs env) dir"; cases "prefix scope_root (projr (fs_canonicalize (pn_fs env) dir))")
       (auto simp: confined_dir_def ensure_within_scope_root_def)
qed

text \<open>The one file a proposal directory stands for, below the canonical global root.\<close>

definition artifact_target :: "promote_env \<Rightarrow> promotion_writer \<Rightarrow> string \<Rightarrow> path option" where
  "artifact_target env writer directory =
     (case canonicalize_scope_root (pn_fs env) (pv_global_scope_root writer) of
        Err _ \<Rightarrow> None
      | Ok scope_root \<Rightarrow>
     (case validate_pending_directory_name (pv_pending_directory_name writer) of
        Err _ \<Rightarrow> None
      | Ok name \<Rightarrow>
     (case fs_canonicalize (pn_fs env) (scope_root @ name) of
        Err _ \<Rightarrow> None
      | Ok pending_root \<Rightarrow>
     (case fs_canonicalize (pn_fs env) (pending_root @ [directory]) of
        Err _ \<Rightarrow> None
      | Ok proposal_dir \<Rightarrow> if prefix scope_root proposal_dir then Some (proposal_dir @ [pending_skill_file]) else None))))"

lemma artifact_target_confined:
  assumes "artifact_target env writer directory = Some q"
  shows "\<exists>scope_root. canonicalize_scope_root (pn_fs env) (pv_global_scope_root writer) = Ok scope_root \<and> prefix scope_root q"
  using assms by (auto simp: artifact_target_def split: sum.split_asm if_splits)

lemma write_artifact_frame:
  assumes run: "write_artifact env writer directory body d = (r, d')"
  shows "dk_files d \<subseteq>\<^sub>m dk_files d' \<and>
    (\<forall>q. dk_files d' q \<noteq> dk_files d q \<longrightarrow> artifact_target env writer directory = Some q) \<and>
    (\<forall>p. r = Ok p \<longrightarrow> artifact_target env writer directory = Some p \<and> dk_files d p = None \<and> dk_files d' p \<noteq> None)"
proof (cases "canonicalize_scope_root (pn_fs env) (pv_global_scope_root writer)")
  case (Inl e)
  with run show ?thesis by (auto simp: write_artifact_def)
next
  case (Inr scope_root)
  note root = this
  show ?thesis
  proof (cases "validate_pending_directory_name (pv_pending_directory_name writer)")
    case (Inl e)
    with run root show ?thesis by (auto simp: write_artifact_def)
  next
    case (Inr name)
    note name = this
    obtain w d0 where w: "confined_dir env scope_root (scope_root @ name) d = (w, d0)" by fastforce
    note c0 = confined_dir_cases [OF w]
    show ?thesis
    proof (cases w)
      case (Inl e)
      with run root name w c0 show ?thesis by (auto simp: write_artifact_def)
    next
      case (Inr pending_root)
      note pending = this
      obtain x d1 where x: "confined_dir env scope_root (pending_root @ [directory]) d0 = (x, d1)" by fastforce
      note c1 = confined_dir_cases [OF x]
      show ?thesis
      proof (cases x)
        case (Inl e)
        with run root name w pending x c0 c1 show ?thesis by (auto simp: write_artifact_def)
      next
        case (Inr proposal_dir)
        let ?path = "proposal_dir @ [pending_skill_file]"
        have target: "artifact_target env writer directory = Some ?path"
          using root name c0 c1 pending Inr by (simp add: artifact_target_def)
        show ?thesis
        proof (cases body)
          case (Inl e)
          with run root name w pending x \<open>x = Ok proposal_dir\<close> c0 c1 show ?thesis by (auto simp: write_artifact_def)
        next
          case (Inr contents)
          obtain y d2 where y: "create_new_file (pn_faults env) ?path contents d1 = (y, d2)" by fastforce
          note new = create_new_frame [OF y]
          have "d' = d2" "\<And>p. r = Ok p \<Longrightarrow> y = Ok () \<and> p = ?path"
            using run root name w pending x \<open>x = Ok proposal_dir\<close> Inr y by (cases y; auto simp: write_artifact_def)+
          moreover have "dk_files d \<subseteq>\<^sub>m dk_files d2" "y = Ok () \<longrightarrow> dk_files d ?path = None \<and> dk_files d2 ?path \<noteq> None"
            using new c0 c1 by (auto simp: path_exists_def)
          moreover have "q = ?path" if "dk_files d2 q \<noteq> dk_files d q" for q
            using new c0 c1 that by (cases "q = ?path") auto
          ultimately show ?thesis using target by auto
        qed
      qed
    qed
  qed
qed

lemma write_promotion_frame:
  assumes "write_promotion_proposal env writer s evidence now d = (r, d')"
  shows "dk_files d \<subseteq>\<^sub>m dk_files d' \<and>
    (\<forall>q. dk_files d' q \<noteq> dk_files d q \<longrightarrow> artifact_target env writer (promotion_directory_name (sn_id s)) = Some q) \<and>
    (\<forall>p. r = Ok p \<longrightarrow> pp_skill_ids p = [sn_id s] \<and> pp_evidence p = evidence \<and>
       artifact_target env writer (promotion_directory_name (sn_id s)) = Some (pp_pending_path p) \<and>
       dk_files d (pp_pending_path p) = None \<and> dk_files d' (pp_pending_path p) \<noteq> None)"
proof -
  obtain w d0 where w: "write_artifact env writer (promotion_directory_name (sn_id s)) (render_promotion_markdown env s evidence now) d = (w, d0)"
    by fastforce
  show ?thesis
  proof (cases w)
    case (Inl e)
    with assms w write_artifact_frame [OF w] show ?thesis by (auto simp: write_promotion_proposal_def)
  next
    case (Inr p)
    then have "d' = d0" "r = Ok \<lparr>pp_pending_path = p, pp_skill_ids = [sn_id s], pp_from_scopes = [sn_scope s],
            pp_to_scope = promotion_to_scope, pp_evidence = evidence, pp_source_paths = [sn_source_path s]\<rparr>"
      using assms w by (simp_all add: write_promotion_proposal_def)
    with write_artifact_frame [OF w] Inr show ?thesis by auto
  qed
qed

lemma write_demotion_frame:
  assumes "write_demotion_proposal env writer row offending now d = (r, d')"
  shows "dk_files d \<subseteq>\<^sub>m dk_files d' \<and>
    (\<forall>q. dk_files d' q \<noteq> dk_files d q \<longrightarrow> artifact_target env writer (demotion_directory_name (kr_id row)) = Some q) \<and>
    (\<forall>p. r = Ok p \<longrightarrow> dp_skill_id p = kr_id row \<and> dp_offending_identifiers p = offending)"
proof -
  obtain w d0 where w: "write_artifact env writer (demotion_directory_name (kr_id row)) (render_demotion_markdown env row offending now) d = (w, d0)"
    by fastforce
  with write_artifact_frame [OF w] assms show ?thesis by (cases w) (auto simp: write_demotion_proposal_def)
qed

section \<open>The identifier check\<close>

lemma contains_identifier_iff:
  "skill_text_contains_project_local_identifier text tokens \<longleftrightarrow> (\<exists>t \<in> set tokens. t \<noteq> [] \<and> contains_str text t)"
  by (simp add: skill_text_contains_project_local_identifier_def list_ex_iff)

lemma distinct_remdups_adj_sorted: "sorted xs \<Longrightarrow> distinct (remdups_adj (xs :: 'a :: linorder list))"
  by (induction xs rule: remdups_adj.induct) (auto simp: order_antisym)

lemma collected_identifiers:
  "sorted (collect_project_local_identifiers text tokens) \<and> distinct (collect_project_local_identifiers text tokens) \<and>
   set (collect_project_local_identifiers text tokens) = {t \<in> set tokens. t \<noteq> [] \<and> contains_str text t} \<and>
   (collect_project_local_identifiers text tokens = [] \<longleftrightarrow> \<not> skill_text_contains_project_local_identifier text tokens)"
proof -
  let ?c = "collect_project_local_identifiers text tokens"
  have c: "sorted ?c" "distinct ?c" "set ?c = {t \<in> set tokens. t \<noteq> [] \<and> contains_str text t}"
    by (auto simp: collect_project_local_identifiers_def distinct_remdups_adj_sorted sorted_remdups_adj)
  have "?c = [] \<longleftrightarrow> set ?c = {}" by simp
  with c show ?thesis by (auto simp: contains_identifier_iff)
qed

text \<open>the cited identifiers are the non-empty tokens the text contains, sorted and without repetition; the list is empty exactly when the veto of the promotion path does not fire.\<close>

theorem collected_identifiers_exact:
  "sorted (collect_project_local_identifiers text tokens) \<and> distinct (collect_project_local_identifiers text tokens) \<and>
   set (collect_project_local_identifiers text tokens) = {t \<in> set tokens. t \<noteq> [] \<and> contains_str text t} \<and>
   (collect_project_local_identifiers text tokens = [] \<longleftrightarrow> \<not> skill_text_contains_project_local_identifier text tokens)"
  by (rule collected_identifiers)

section \<open>The proposal loops\<close>

text \<open>
  \<open>T x q\<close>: a step on \<open>x\<close> may create \<open>q\<close>; \<open>f p\<close> is what a proposal records and \<open>g x\<close> what \<open>x\<close> must yield.
\<close>

lemma propose_each_frame:
  assumes step: "\<And>x d r d'. step x d = (r, d') \<Longrightarrow> dk_files d \<subseteq>\<^sub>m dk_files d' \<and>
      (\<forall>q. dk_files d' q \<noteq> dk_files d q \<longrightarrow> T x q) \<and> (\<forall>p. r = Ok p \<longrightarrow> map_option f p = g x)"
  shows "propose_each step xs d = (res, d') \<Longrightarrow>
     dk_files d \<subseteq>\<^sub>m dk_files d' \<and> (\<forall>q. dk_files d' q \<noteq> dk_files d q \<longrightarrow> (\<exists>x \<in> set xs. T x q)) \<and>
     (\<forall>ps. res = Ok ps \<longrightarrow> map f ps = List.map_filter g xs)"
proof (induction xs arbitrary: d res d')
  case Nil
  then show ?case by (auto simp: List.map_filter_def)
next
  case (Cons x xs)
  obtain w d0 where w: "step x d = (w, d0)" by fastforce
  note one = step [OF w]
  obtain ws d1 where ws: "propose_each step xs d0 = (ws, d1)" by fastforce
  note rest = Cons.IH [OF ws]
  have both: "dk_files d \<subseteq>\<^sub>m dk_files d1" "\<And>q. dk_files d1 q \<noteq> dk_files d q \<Longrightarrow> \<exists>y \<in> set (x # xs). T y q"
  proof -
    show "dk_files d \<subseteq>\<^sub>m dk_files d1" using one rest map_le_trans by blast
    show "\<exists>y \<in> set (x # xs). T y q" if "dk_files d1 q \<noteq> dk_files d q" for q
      using that one rest by (cases "dk_files d1 q = dk_files d0 q") auto
  qed
  show ?case
  proof (cases w)
    case (Inl e)
    with Cons.prems w one show ?thesis by auto
  next
    case (Inr o')
    show ?thesis
    proof (cases o')
      case None
      with Cons.prems w Inr ws have "res = ws" "d' = d1" by simp_all
      moreover have "g x = None" using one Inr None by auto
      ultimately show ?thesis using both rest by (auto simp: List.map_filter_def)
    next
      case (Some p)
      with Cons.prems w Inr ws have d1: "d' = d1" and res: "\<And>ps. res = Ok ps \<Longrightarrow> \<exists>ps'. ws = Ok ps' \<and> ps = p # ps'"
        by (cases ws; auto)+
      have "g x = Some (f p)" using one Inr Some by auto
      then have "map f ps = List.map_filter g (x # xs)" if "res = Ok ps" for ps
        using res [OF that] rest by (auto simp: List.map_filter_def)
      with both d1 show ?thesis by blast
    qed
  qed
qed

text \<open>No step removes or changes a file.\<close>

definition growing :: "('a \<Rightarrow> disk \<Rightarrow> 'r \<times> disk) \<Rightarrow> bool" where
  "growing step \<longleftrightarrow> (\<forall>x d r d'. step x d = (r, d') \<longrightarrow> dk_files d \<subseteq>\<^sub>m dk_files d')"

lemma growingD: "growing step \<Longrightarrow> step x d = (r, d') \<Longrightarrow> dk_files d \<subseteq>\<^sub>m dk_files d'"
  by (auto simp: growing_def)

lemma propose_each_fails:
  assumes grow: "growing step"
    and fail: "\<And>d. dk_files d0 \<subseteq>\<^sub>m dk_files d \<Longrightarrow> \<exists>e. fst (step x d) = Err e"
  shows "x \<in> set xs \<Longrightarrow> dk_files d0 \<subseteq>\<^sub>m dk_files d \<Longrightarrow> \<exists>e. fst (propose_each step xs d) = Err e"
proof (induction xs arbitrary: d)
  case (Cons y ys)
  obtain w d1 where w: "step y d = (w, d1)" by fastforce
  have d1: "dk_files d0 \<subseteq>\<^sub>m dk_files d1" using growingD [OF grow w] Cons.prems(2) map_le_trans by blast
  show ?case
  proof (cases "y = x")
    case True
    with fail [OF Cons.prems(2)] w show ?thesis by auto
  next
    case False
    with Cons.IH [OF _ d1] Cons.prems(1) obtain e d2 where "propose_each step ys d1 = (Err e, d2)"
      by (metis list.set_intros(1) prod.collapse set_ConsD)
    with w show ?thesis by (cases w) (auto split: option.split)
  qed
qed simp

lemma intrinsic_step_frame:
  assumes "intrinsic_step env writer tokens now s d = (r, d')"
  shows "dk_files d \<subseteq>\<^sub>m dk_files d' \<and>
    (\<forall>q. dk_files d' q \<noteq> dk_files d q \<longrightarrow>
       \<not> skill_text_contains_project_local_identifier (semantic_text s) tokens \<and>
       pn_generality env (semantic_text s) = Ok True \<and>
       artifact_target env writer (promotion_directory_name (sn_id s)) = Some q) \<and>
    (\<forall>p. r = Ok p \<longrightarrow> map_option (\<lambda>p. (pp_skill_ids p, pp_evidence p)) p =
       (if skill_text_contains_project_local_identifier (semantic_text s) tokens \<or>
           pn_generality env (semantic_text s) \<noteq> Ok True then None else Some ([sn_id s], Intrinsic)))"
proof -
  obtain w d0 where w: "write_promotion_proposal env writer s Intrinsic now d = (w, d0)" by fastforce
  from assms w write_promotion_frame [OF w] show ?thesis
    by (cases "pn_generality env (semantic_text s)"; cases "projr (pn_generality env (semantic_text s))";
        cases "skill_text_contains_project_local_identifier (semantic_text s) tokens"; cases w)
       (auto simp: intrinsic_step_def)
qed

lemma recurrence_step_frame:
  assumes "recurrence_step env writer threshold now cluster d = (r, d')"
  shows "dk_files d \<subseteq>\<^sub>m dk_files d' \<and>
    (\<forall>q. dk_files d' q \<noteq> dk_files d q \<longrightarrow> threshold \<le> length (row_root_keys cluster) \<and>
       artifact_target env writer (promotion_directory_name (kr_id (hd cluster))) = Some q) \<and>
    (\<forall>p. r = Ok p \<longrightarrow> map_option (\<lambda>p. (pp_skill_ids p, pp_evidence p)) p =
       (if length (row_root_keys cluster) < threshold then None
        else Some ([kr_id (hd cluster)], Recurrence (length (row_root_keys cluster)))))"
proof -
  obtain w d0 where w: "write_promotion_proposal env writer (project_skill_row_to_snapshot (hd cluster))
      (Recurrence (length (row_root_keys cluster))) now d = (w, d0)" by fastforce
  have "sn_id (project_skill_row_to_snapshot (hd cluster)) = kr_id (hd cluster)"
    by (simp add: project_skill_row_to_snapshot_def)
  with assms w write_promotion_frame [OF w] show ?thesis
    by (cases "length (row_root_keys cluster) < threshold"; cases w) (auto simp: recurrence_step_def Let_def)
qed

lemma demotion_step_frame:
  assumes "demotion_step env writer tokens now row d = (r, d')"
  shows "dk_files d \<subseteq>\<^sub>m dk_files d' \<and>
    (\<forall>q. dk_files d' q \<noteq> dk_files d q \<longrightarrow> artifact_target env writer (demotion_directory_name (kr_id row)) = Some q) \<and>
    (\<forall>p. r = Ok p \<longrightarrow> map_option (\<lambda>p. (dp_skill_id p, dp_offending_identifiers p)) p =
       (let offending = collect_project_local_identifiers (row_semantic_text row) tokens in
        if offending = [] then None else Some (kr_id row, offending)))"
proof -
  let ?o = "collect_project_local_identifiers (row_semantic_text row) tokens"
  obtain w d0 where w: "write_demotion_proposal env writer row ?o now d = (w, d0)" by fastforce
  from assms w write_demotion_frame [OF w] show ?thesis
    by (cases "?o = []"; cases w) (auto simp: demotion_step_def Let_def)
qed

section \<open>What a pass proposes\<close>

definition intrinsically_general :: "promote_env \<Rightarrow> promotion_runner \<Rightarrow> skill_snapshot \<Rightarrow> bool" where
  "intrinsically_general env runner s \<longleftrightarrow>
     sn_scope s = Project \<and> pn_generality env (semantic_text s) = Ok True \<and>
     \<not> skill_text_contains_project_local_identifier (semantic_text s) (pr_project_identifier_tokens runner)"

lemma map_filter_Some: "List.map_filter (\<lambda>x. if P x then None else Some (h x)) xs = map h (filter (\<lambda>x. \<not> P x) xs)"
  by (induction xs) (auto simp: List.map_filter_def)

lemma intrinsic_loop:
  "propose_each (intrinsic_step env writer tokens now) xs d = (res, d') \<Longrightarrow>
     dk_files d \<subseteq>\<^sub>m dk_files d' \<and> (\<forall>q. dk_files d' q \<noteq> dk_files d q \<longrightarrow> (\<exists>x \<in> set xs. \<not> skill_text_contains_project_local_identifier (semantic_text x) tokens \<and>
        pn_generality env (semantic_text x) = Ok True \<and>
        artifact_target env writer (promotion_directory_name (sn_id x)) = Some q)) \<and>
     (\<forall>ps. res = Ok ps \<longrightarrow> map (\<lambda>p. (pp_skill_ids p, pp_evidence p)) ps = List.map_filter (\<lambda>x. 
        if skill_text_contains_project_local_identifier (semantic_text x) tokens \<or> pn_generality env (semantic_text x) \<noteq> Ok True
        then None else Some ([sn_id x], Intrinsic)) xs)"
  by (rule propose_each_frame, rule intrinsic_step_frame)

lemma recurrence_loop:
  "propose_each (recurrence_step env writer threshold now) xs d = (res, d') \<Longrightarrow>
     dk_files d \<subseteq>\<^sub>m dk_files d' \<and> (\<forall>q. dk_files d' q \<noteq> dk_files d q \<longrightarrow> (\<exists>x \<in> set xs. threshold \<le> length (row_root_keys x) \<and>
        artifact_target env writer (promotion_directory_name (kr_id (hd x))) = Some q)) \<and>
     (\<forall>ps. res = Ok ps \<longrightarrow> map (\<lambda>p. (pp_skill_ids p, pp_evidence p)) ps = List.map_filter (\<lambda>x. 
        if length (row_root_keys x) < threshold then None
        else Some ([kr_id (hd x)], Recurrence (length (row_root_keys x)))) xs)"
  by (rule propose_each_frame, rule recurrence_step_frame)

lemma demotion_loop:
  "propose_each (demotion_step env writer tokens now) xs d = (res, d') \<Longrightarrow>
     dk_files d \<subseteq>\<^sub>m dk_files d' \<and> (\<forall>q. dk_files d' q \<noteq> dk_files d q \<longrightarrow> (\<exists>x \<in> set xs. artifact_target env writer (demotion_directory_name (kr_id x)) = Some q)) \<and>
     (\<forall>ps. res = Ok ps \<longrightarrow> map (\<lambda>p. (dp_skill_id p, dp_offending_identifiers p)) ps = List.map_filter (\<lambda>x. 
        let offending = collect_project_local_identifiers (row_semantic_text x) tokens in
        if offending = [] then None else Some (kr_id x, offending)) xs)"
  by (rule propose_each_frame, rule demotion_step_frame)

lemma intrinsic_pass_frame:
  assumes "run_intrinsic_pass env runner now d = (res, d')"
  shows "dk_files d \<subseteq>\<^sub>m dk_files d' \<and>
    (\<forall>q. dk_files d' q \<noteq> dk_files d q \<longrightarrow> (\<exists>s \<in> set (pr_skill_snapshots runner). intrinsically_general env runner s \<and>
       artifact_target env (pr_writer runner) (promotion_directory_name (sn_id s)) = Some q)) \<and>
    (\<forall>ps. res = Ok ps \<longrightarrow> map (\<lambda>p. (pp_skill_ids p, pp_evidence p)) ps =
       map (\<lambda>s. ([sn_id s], Intrinsic)) (filter (intrinsically_general env runner) (pr_skill_snapshots runner)))"
proof -
  have select: "filter (\<lambda>s. \<not> (skill_text_contains_project_local_identifier (semantic_text s) (pr_project_identifier_tokens runner) \<or>
        pn_generality env (semantic_text s) \<noteq> Ok True)) (filter (\<lambda>s. sn_scope s = Project) ss) =
      filter (intrinsically_general env runner) ss" for ss
    unfolding filter_filter by (rule filter_cong) (auto simp: intrinsically_general_def)
  from intrinsic_loop [OF assms [unfolded run_intrinsic_pass_def]] show ?thesis
    unfolding map_filter_Some select by (fastforce simp: intrinsically_general_def)
qed

text \<open>a successful intrinsic pass proposes exactly the project skills, in order, that mention no token of the project and that the verifier calls general.\<close>

theorem intrinsic_promotes_exactly:
  assumes "run_intrinsic_pass env runner now d = (Ok ps, d')"
  shows "map (\<lambda>p. (pp_skill_ids p, pp_evidence p)) ps =
     map (\<lambda>s. ([sn_id s], Intrinsic)) (filter (intrinsically_general env runner) (pr_skill_snapshots runner))"
  using intrinsic_pass_frame [OF assms] by simp

text \<open>The configured recurrence pass once the rows are embedded.\<close>

definition recurrence_inputs ::
  "promotion_runner \<Rightarrow> recurrence_parts \<Rightarrow> skill_row list \<Rightarrow> (skill_row \<times> f32 list) list \<Rightarrow> bool" where
  "recurrence_inputs runner parts rows embedded \<longleftrightarrow>
     pr_recurrence runner = Some parts \<and> rq_rows parts = Ok rows \<and> embed_rows (rq_embed parts) rows = Ok embedded \<and>
     rx_min_distinct_roots (pr_recurrence_config runner) \<le> length (row_root_keys rows)"

lemma recurrence_pass_cases:
  assumes "run_recurrence_pass env runner now d = Some (res, d')"
  obtains (early) "d' = d" "\<forall>ps. res = Ok ps \<longrightarrow> ps = []"
    | (run) parts rows embedded clusters where "recurrence_inputs runner parts rows embedded"
      "build_recurrence_clusters parts (rx_similarity_threshold (pr_recurrence_config runner)) embedded = Some (Ok clusters)"
      "propose_each (recurrence_step env (pr_writer runner) (rx_min_distinct_roots (pr_recurrence_config runner)) now) clusters d =
         (res, d')"
proof (cases "pr_recurrence runner")
  case None
  with assms early show thesis by (auto simp: run_recurrence_pass_def)
next
  case (Some parts)
  note parts = this
  show thesis
  proof (cases "rq_rows parts")
    case (Inl e)
    with assms parts early show thesis by (auto simp: run_recurrence_pass_def)
  next
    case (Inr rows)
    note rows = this
    show thesis
    proof (cases "length (row_root_keys rows) < rx_min_distinct_roots (pr_recurrence_config runner)")
      case True
      with assms parts rows early show thesis by (auto simp: run_recurrence_pass_def)
    next
      case False
      note enough = this
      show thesis
      proof (cases "embed_rows (rq_embed parts) rows")
        case (Inl e)
        with assms parts rows enough early show thesis by (auto simp: run_recurrence_pass_def)
      next
        case (Inr embedded)
        have inputs: "recurrence_inputs runner parts rows embedded"
          using parts rows enough Inr by (simp add: recurrence_inputs_def)
        let ?built = "build_recurrence_clusters parts (rx_similarity_threshold (pr_recurrence_config runner)) embedded"
        show thesis
        proof (cases "\<exists>clusters. ?built = Some (Ok clusters)")
          case True
          with assms parts rows enough Inr inputs run show thesis by (auto simp: run_recurrence_pass_def)
        next
          case False
          then have "?built = None \<or> (\<exists>m. ?built = Some (Err m))" by (metis not_None_eq sum.exhaust)
          with assms parts rows enough Inr early show thesis by (auto simp: run_recurrence_pass_def)
        qed
      qed
    qed
  qed
qed

lemma recurrence_pass_frame:
  assumes "run_recurrence_pass env runner now d = Some (res, d')"
  shows "dk_files d \<subseteq>\<^sub>m dk_files d' \<and>
    (\<forall>q. dk_files d' q \<noteq> dk_files d q \<longrightarrow> (\<exists>dir. artifact_target env (pr_writer runner) dir = Some q))"
  using assms
proof (cases rule: recurrence_pass_cases)
  case (run parts rows embedded clusters)
  from recurrence_loop [OF run(3)] show ?thesis by blast
qed simp

text \<open>C33: whatever fails, a promotion pass changes no existing file and creates files only below the canonical global scope root.\<close>

theorem promotion_confined:
  assumes "run_promotion_pass env runner now d = Some (res, d')"
  shows "dk_files d \<subseteq>\<^sub>m dk_files d' \<and>
    (\<forall>q. dk_files d' q \<noteq> dk_files d q \<longrightarrow> (\<exists>scope_root.
       canonicalize_scope_root (pn_fs env) (pv_global_scope_root (pr_writer runner)) = Ok scope_root \<and> prefix scope_root q))"
proof -
  obtain w d0 where w: "run_intrinsic_pass env runner now d = (w, d0)" by fastforce
  note one = intrinsic_pass_frame [OF w]
  have "dk_files d \<subseteq>\<^sub>m dk_files d' \<and> (\<forall>q. dk_files d' q \<noteq> dk_files d q \<longrightarrow> (\<exists>dir. artifact_target env (pr_writer runner) dir = Some q))"
  proof (cases w)
    case (Inl e)
    with assms w one show ?thesis by (auto simp: run_promotion_pass_def)
  next
    case (Inr ips)
    then obtain r where r: "run_recurrence_pass env runner now d0 = Some (r, d')"
      using assms w by (auto simp: run_promotion_pass_def split: option.split_asm sum.split_asm prod.split_asm)
    note two = recurrence_pass_frame [OF r]
    have "\<exists>dir. artifact_target env (pr_writer runner) dir = Some q" if "dk_files d' q \<noteq> dk_files d q" for q
      using that one two by (cases "dk_files d' q = dk_files d0 q") auto
    moreover have "dk_files d \<subseteq>\<^sub>m dk_files d'" using one two map_le_trans by blast
    ultimately show ?thesis by blast
  qed
  with artifact_target_confined show ?thesis by blast
qed

section \<open>Recurrence evidence\<close>

text \<open>The skills joined to the \<open>i\<close>-th row by accepted pairs, in row order.\<close>

definition accepted_links :: "recurrence_parts \<Rightarrow> f32 \<Rightarrow> (skill_row \<times> f32 list) list \<Rightarrow> (nat \<times> nat) set" where
  "accepted_links parts threshold embedded =
     {(k, l). k < l \<and> l < length embedded \<and> recurrence_judge parts threshold embedded k l = Ok True}"

definition recurring_group ::
  "recurrence_parts \<Rightarrow> f32 \<Rightarrow> (skill_row \<times> f32 list) list \<Rightarrow> nat \<Rightarrow> skill_row list" where
  "recurring_group parts threshold embedded i =
     map (\<lambda>j. fst (embedded ! j))
       (filter (\<lambda>j. (i, j) \<in> linked (accepted_links parts threshold embedded)) [0..<length embedded])"

lemma clusters_are_classes:
  assumes "enumerates order" and "clusters_of order judge n = Some (Ok cs)"
  shows "set cs = (\<lambda>i. filter (\<lambda>j. (i, j) \<in> linked {(k, l). k < l \<and> l < n \<and> judge k l = Ok True}) [0..<n]) ` {..<n}"
  using clusters_of_cases [OF assms(1), of judge n]
proof (elim disjE exE conjE, goal_cases)
  case (1 e i j)
  with assms show ?thesis by simp
next
  case (2 p)
  let ?E = "{(k, l). k < l \<and> l < n \<and> judge k l = Ok True}"
  have "accepted_pairs judge (index_pairs n) = ?E" by (auto simp: accepted_pairs_def set_index_pairs)
  with 2 have same: "rep p i = rep p j \<longleftrightarrow> (i, j) \<in> linked ?E" if "i < n" "j < n" for i j
    using that by (auto simp: represents_def)
  have "set (order (remdups (map (rep p) [0..<n]))) = rep p ` {..<n}"
    using assms(1) by (auto simp: enumerates_def)
  then have "set cs = (\<lambda>r. filter (\<lambda>j. rep p j = r) [0..<n]) ` rep p ` {..<n}" using 2 assms(2) by auto
  also have "\<dots> = (\<lambda>i. filter (\<lambda>j. rep p j = rep p i) [0..<n]) ` {..<n}" by (simp only: image_image)
  also have "\<dots> = (\<lambda>i. filter (\<lambda>j. (i, j) \<in> linked ?E) [0..<n]) ` {..<n}"
  proof (rule image_cong [OF refl])
    fix i assume "i \<in> {..<n}"
    then have "rep p j = rep p i \<longleftrightarrow> (i, j) \<in> linked ?E" if "j < n" for j using same [of i j] that by auto
    then show "filter (\<lambda>j. rep p j = rep p i) [0..<n] = filter (\<lambda>j. (i, j) \<in> linked ?E) [0..<n]"
      by (intro filter_cong) simp_all
  qed
  finally show ?thesis .
qed

lemma built_clusters:
  assumes "enumerates (rq_map_order parts)" and "build_recurrence_clusters parts threshold embedded = Some (Ok clusters)"
  shows "set clusters = recurring_group parts threshold embedded ` {..<length embedded}"
proof -
  obtain cs where cs: "clusters_of (rq_map_order parts) (recurrence_judge parts threshold embedded) (length embedded) = Some (Ok cs)"
    "clusters = map (map (\<lambda>i. fst (embedded ! i))) cs"
  proof -
    obtain z where z: "clusters_of (rq_map_order parts) (recurrence_judge parts threshold embedded) (length embedded) = Some z"
      "map_sum id (map (map (\<lambda>i. fst (embedded ! i)))) z = Ok clusters"
      using assms(2) by (auto simp: build_recurrence_clusters_def)
    then show thesis using that by (cases z) simp_all
  qed
  from clusters_are_classes [OF assms(1) cs(1)] show ?thesis
    unfolding cs(2) by (simp add: image_image recurring_group_def accepted_links_def)
qed

text \<open>C32: a successful recurrence pass has a proposal with evidence \<open>n\<close> for a skill exactly when the skill is the
  first of a group of recurring skills, joined by accepted pairs, that spans \<open>n\<close> distinct project roots, at
  least the threshold; the iteration order of the hash map changes only the order of the proposals.
\<close>

theorem recurrence_evidence_exact:
  assumes run: "run_recurrence_pass env runner now d = Some (Ok ps, d')"
    and inputs: "recurrence_inputs runner parts rows embedded" and order: "enumerates (rq_map_order parts)"
  shows "(\<exists>p \<in> set ps. pp_skill_ids p = [k] \<and> pp_evidence p = Recurrence n) \<longleftrightarrow>
    (\<exists>i < length embedded.
       let group = recurring_group parts (rx_similarity_threshold (pr_recurrence_config runner)) embedded i in
       k = kr_id (hd group) \<and> n = length (row_root_keys group) \<and> rx_min_distinct_roots (pr_recurrence_config runner) \<le> n)"
proof -
  let ?t = "rx_min_distinct_roots (pr_recurrence_config runner)"
  let ?group = "recurring_group parts (rx_similarity_threshold (pr_recurrence_config runner)) embedded"
  obtain clusters where built: "build_recurrence_clusters parts (rx_similarity_threshold (pr_recurrence_config runner)) embedded = Some (Ok clusters)"
    and loop: "propose_each (recurrence_step env (pr_writer runner) ?t now) clusters d = (Ok ps, d')"
    using run inputs
    by (auto simp: run_recurrence_pass_def recurrence_inputs_def Let_def split: option.split_asm sum.split_asm)
  have "map (\<lambda>p. (pp_skill_ids p, pp_evidence p)) ps =
      map (\<lambda>c. ([kr_id (hd c)], Recurrence (length (row_root_keys c)))) (filter (\<lambda>c. \<not> length (row_root_keys c) < ?t) clusters)"
    using recurrence_loop [OF loop] unfolding map_filter_Some by blast
  then have "set (map (\<lambda>p. (pp_skill_ids p, pp_evidence p)) ps) =
      set (map (\<lambda>c. ([kr_id (hd c)], Recurrence (length (row_root_keys c)))) (filter (\<lambda>c. \<not> length (row_root_keys c) < ?t) clusters))"
    by simp
  then have "([k], Recurrence n) \<in> (\<lambda>p. (pp_skill_ids p, pp_evidence p)) ` set ps \<longleftrightarrow>
      (\<exists>c \<in> set clusters. k = kr_id (hd c) \<and> n = length (row_root_keys c) \<and> ?t \<le> n)"
    by (auto simp: image_iff)
  also have "\<dots> \<longleftrightarrow> (\<exists>i < length embedded. k = kr_id (hd (?group i)) \<and> n = length (row_root_keys (?group i)) \<and> ?t \<le> n)"
    unfolding built_clusters [OF order built] by auto
  finally have "([k], Recurrence n) \<in> (\<lambda>p. (pp_skill_ids p, pp_evidence p)) ` set ps \<longleftrightarrow>
      (\<exists>i < length embedded. k = kr_id (hd (?group i)) \<and> n = length (row_root_keys (?group i)) \<and> ?t \<le> n)" .
  moreover have "([k], Recurrence n) \<in> (\<lambda>p. (pp_skill_ids p, pp_evidence p)) ` set ps \<longleftrightarrow>
      (\<exists>p \<in> set ps. pp_skill_ids p = [k] \<and> pp_evidence p = Recurrence n)" by force
  ultimately show ?thesis unfolding Let_def by simp
qed

text \<open>a successful demotion scan flags exactly the global skills that mention a token of the project, each with the tokens it mentions.\<close>

theorem demotion_flags_exactly:
  assumes "scan_demotions env runner now d = (Ok ps, d')" and "pr_global_rows runner = Some (Ok rows)"
  shows "map (\<lambda>p. (dp_skill_id p, dp_offending_identifiers p)) ps =
    map (\<lambda>r. (kr_id r, collect_project_local_identifiers (row_semantic_text r) (pr_project_identifier_tokens runner)))
      (filter (\<lambda>r. skill_text_contains_project_local_identifier (row_semantic_text r) (pr_project_identifier_tokens runner)) rows)"
proof (cases "pr_project_identifier_tokens runner = []")
  case True
  with assms show ?thesis by (simp add: scan_demotions_def skill_text_contains_project_local_identifier_def)
next
  case False
  let ?tokens = "pr_project_identifier_tokens runner"
  have empty: "collect_project_local_identifiers t ?tokens = [] \<longleftrightarrow> \<not> skill_text_contains_project_local_identifier t ?tokens" for t
    using collected_identifiers [of t ?tokens] by blast
  from assms False have "propose_each (demotion_step env (pr_writer runner) ?tokens now) rows d = (Ok ps, d')"
    by (simp add: scan_demotions_def)
  from demotion_loop [OF this] show ?thesis by (simp add: Let_def map_filter_Some empty)
qed

section \<open>A pass over its own proposals\<close>

lemma write_promotion_again:
  assumes "artifact_target env writer (promotion_directory_name (sn_id s)) = Some q" and "dk_files d q \<noteq> None"
  shows "\<exists>e. fst (write_promotion_proposal env writer s evidence now d) = Err e"
proof (cases "write_promotion_proposal env writer s evidence now d")
  case (Pair r d')
  show ?thesis
  proof (cases r)
    case (Inr p)
    with write_promotion_frame [OF Pair] assms show ?thesis by auto
  qed (simp add: Pair)
qed

lemma artifact_target_faults [simp]: "artifact_target (env\<lparr>pn_faults := faults\<rparr>) = artifact_target env"
  by (intro ext) (simp add: artifact_target_def cong: sum.case_cong)

lemma write_promotion_blocks:
  assumes "write_promotion_proposal env writer s evidence now d = (Ok p, d')" and "dk_files d' \<subseteq>\<^sub>m dk_files d''"
    and "sn_id t = sn_id s"
  shows "\<exists>e. fst (write_promotion_proposal (env\<lparr>pn_faults := faults\<rparr>) writer t evidence' later d'') = Err e"
proof (rule write_promotion_again [where q = "pp_pending_path p"])
  from write_promotion_frame [OF assms(1)] assms(2,3) show
    "artifact_target (env\<lparr>pn_faults := faults\<rparr>) writer (promotion_directory_name (sn_id t)) = Some (pp_pending_path p)"
    "dk_files d'' (pp_pending_path p) \<noteq> None"
    by (simp, metis map_le_domD option.distinct(1))
qed

lemma intrinsic_step_proposes:
  "intrinsic_step env writer tokens now s d = (Ok (Some p), d') \<Longrightarrow>
     write_promotion_proposal env writer s Intrinsic now d = (Ok p, d') \<and>
     \<not> skill_text_contains_project_local_identifier (semantic_text s) tokens \<and> pn_generality env (semantic_text s) = Ok True"
  by (auto simp: intrinsic_step_def split: if_splits sum.split_asm prod.split_asm)

lemma recurrence_step_proposes:
  "recurrence_step env writer threshold now c d = (Ok (Some p), d') \<Longrightarrow>
     write_promotion_proposal env writer (project_skill_row_to_snapshot (hd c)) (Recurrence (length (row_root_keys c))) now d = (Ok p, d') \<and>
     threshold \<le> length (row_root_keys c)"
  by (auto simp: recurrence_step_def Let_def split: if_splits sum.split_asm prod.split_asm)

lemma write_error_stops:
  "fst (write_promotion_proposal env writer s evidence now d) = Err e \<Longrightarrow>
     \<exists>d'. write_promotion_proposal env writer s evidence now d = (Err e, d')"
  by (cases "write_promotion_proposal env writer s evidence now d") simp

lemma intrinsic_step_blocked:
  assumes "\<not> skill_text_contains_project_local_identifier (semantic_text s) tokens" and "pn_generality env (semantic_text s) = Ok True"
    and "\<exists>e. fst (write_promotion_proposal env writer s Intrinsic now d) = Err e"
  shows "\<exists>e. fst (intrinsic_step env writer tokens now s d) = Err e"
  using assms write_error_stops by (fastforce simp: intrinsic_step_def)

lemma recurrence_step_blocked:
  assumes "threshold \<le> length (row_root_keys c)"
    and "\<exists>e. fst (write_promotion_proposal env writer (project_skill_row_to_snapshot (hd c)) (Recurrence (length (row_root_keys c))) now d) = Err e"
  shows "\<exists>e. fst (recurrence_step env writer threshold now c d) = Err e"
  using assms write_error_stops by (fastforce simp: recurrence_step_def Let_def)

lemma propose_each_grow:
  assumes grow: "growing step"
  shows "propose_each step xs d = (res, d') \<Longrightarrow> dk_files d \<subseteq>\<^sub>m dk_files d'"
proof (induction xs arbitrary: d res d')
  case (Cons x xs)
  obtain w d0 where w: "step x d = (w, d0)" by fastforce
  obtain ws d1 where ws: "propose_each step xs d0 = (ws, d1)" by fastforce
  have "d' = d0 \<or> d' = d1"
    using Cons.prems w ws by (auto split: sum.split_asm option.split_asm)
  with growingD [OF grow w] Cons.IH [OF ws] show ?case using map_le_trans by blast
qed simp

lemma propose_each_first:
  assumes grow: "growing step"
  shows "propose_each step xs d = (Ok ps, d') \<Longrightarrow> ps \<noteq> [] \<Longrightarrow>
     \<exists>x \<in> set xs. \<exists>p d0 d1. step x d0 = (Ok (Some p), d1) \<and> dk_files d1 \<subseteq>\<^sub>m dk_files d'"
proof (induction xs arbitrary: d ps)
  case (Cons x xs)
  obtain w d0 where w: "step x d = (w, d0)" by fastforce
  obtain ws d1 where ws: "propose_each step xs d0 = (ws, d1)" by fastforce
  show ?case
  proof (cases "\<exists>p. w = Ok (Some p)")
    case True
    then obtain p where p: "w = Ok (Some p)" by blast
    with Cons.prems w ws have "d1 = d'" by (cases ws) auto
    with propose_each_grow [OF grow ws] p w have "step x d = (Ok (Some p), d0) \<and> dk_files d0 \<subseteq>\<^sub>m dk_files d'" by simp
    then show ?thesis by (meson list.set_intros(1))
  next
    case False
    with Cons.prems w have "propose_each step xs d0 = (Ok ps, d')" by (auto split: sum.split_asm option.split_asm)
    from Cons.IH [OF this Cons.prems(2)] show ?thesis by auto
  qed
qed simp

lemma intrinsic_step_grow: "growing (intrinsic_step env writer tokens now)"
  unfolding growing_def using intrinsic_step_frame by blast

lemma recurrence_step_grow: "growing (recurrence_step env writer threshold now)"
  unfolding growing_def using recurrence_step_frame by blast

lemma intrinsic_pass_blocked:
  assumes first: "run_intrinsic_pass env runner now d = (Ok ps, d')" and wrote: "ps \<noteq> []" and "dk_files d' \<subseteq>\<^sub>m dk_files d2"
  shows "\<exists>e. fst (run_intrinsic_pass (env\<lparr>pn_faults := faults\<rparr>) runner later d2) = Err e"
proof -
  let ?tokens = "pr_project_identifier_tokens runner" and ?ss = "filter (\<lambda>s. sn_scope s = Project) (pr_skill_snapshots runner)"
  obtain s p d0 d1 where s: "s \<in> set ?ss" "intrinsic_step env (pr_writer runner) ?tokens now s d0 = (Ok (Some p), d1)"
    "dk_files d1 \<subseteq>\<^sub>m dk_files d'"
    using propose_each_first [OF intrinsic_step_grow first [unfolded run_intrinsic_pass_def] wrote] by blast
  note made = intrinsic_step_proposes [OF s(2)]
  have fail: "\<exists>e. fst (intrinsic_step (env\<lparr>pn_faults := faults\<rparr>) (pr_writer runner) ?tokens later s d3) = Err e"
    if "dk_files d' \<subseteq>\<^sub>m dk_files d3" for d3
    using made write_promotion_blocks [OF conjunct1 [OF made] map_le_trans [OF s(3) that] refl]
    by (intro intrinsic_step_blocked) simp_all
  show ?thesis unfolding run_intrinsic_pass_def
    by (rule propose_each_fails [where ?d0.0 = d', OF intrinsic_step_grow _ s(1) assms(3)]) (rule fail)
qed

text \<open>The same runner with another iteration order of the map.\<close>

definition reordered :: "(nat list \<Rightarrow> nat list) \<Rightarrow> promotion_runner \<Rightarrow> promotion_runner" where
  "reordered order runner =
     runner\<lparr>pr_recurrence := map_option (\<lambda>parts. parts\<lparr>rq_map_order := order\<rparr>) (pr_recurrence runner)\<rparr>"

lemma build_reordered:
  assumes "enumerates (rq_map_order parts)" and "enumerates order"
    and "build_recurrence_clusters parts threshold embedded = Some (Ok clusters)"
  shows "\<exists>clusters'. build_recurrence_clusters (parts\<lparr>rq_map_order := order\<rparr>) threshold embedded = Some (Ok clusters') \<and>
    set clusters' = set clusters"
proof -
  have judge: "recurrence_judge (parts\<lparr>rq_map_order := order\<rparr>) = recurrence_judge parts"
    by (intro ext) (simp add: recurrence_judge_def cong: if_cong)
  obtain p roots where "union_pairs (recurrence_judge parts threshold embedded) (index_pairs (length embedded)) [0..<length embedded] = Some (Ok p)"
    "collect_roots [0..<length embedded] p = Some roots"
    using assms(3) by (auto simp: build_recurrence_clusters_def clusters_of_def split: option.split_asm sum.split_asm)
  then obtain clusters' where built: "build_recurrence_clusters (parts\<lparr>rq_map_order := order\<rparr>) threshold embedded = Some (Ok clusters')"
    by (simp add: build_recurrence_clusters_def clusters_of_def judge)
  have "set clusters' = recurring_group (parts\<lparr>rq_map_order := order\<rparr>) threshold embedded ` {..<length embedded}"
    by (rule built_clusters [OF _ built]) (simp add: assms)
  also have "\<dots> = set clusters"
    unfolding built_clusters [OF assms(1,3)] by (simp add: recurring_group_def accepted_links_def judge)
  finally show ?thesis using built by blast
qed

lemma run_recurrence_inputs:
  assumes "recurrence_inputs runner parts rows embedded"
    and "build_recurrence_clusters parts (rx_similarity_threshold (pr_recurrence_config runner)) embedded = Some (Ok clusters)"
  shows "run_recurrence_pass env runner now d =
    Some (propose_each (recurrence_step env (pr_writer runner) (rx_min_distinct_roots (pr_recurrence_config runner)) now) clusters d)"
  using assms by (simp add: run_recurrence_pass_def recurrence_inputs_def)

lemma recurrence_pass_blocked:
  assumes first: "run_recurrence_pass env runner now d = Some (Ok ps, d')" and wrote: "ps \<noteq> []"
    and orders: "\<forall>parts. pr_recurrence runner = Some parts \<longrightarrow> enumerates (rq_map_order parts)" "enumerates order"
    and keep: "dk_files d' \<subseteq>\<^sub>m dk_files d2"
  shows "\<exists>e d3. run_recurrence_pass (env\<lparr>pn_faults := faults\<rparr>) (reordered order runner) later d2 = Some (Err e, d3)"
  using first
proof (cases rule: recurrence_pass_cases)
  case early
  with wrote show ?thesis by simp
next
  case (run parts rows embedded clusters)
  let ?t = "rx_min_distinct_roots (pr_recurrence_config runner)" and ?env = "env\<lparr>pn_faults := faults\<rparr>"
  have parts: "pr_recurrence runner = Some parts" using run(1) by (simp add: recurrence_inputs_def)
  with orders obtain clusters' where built: "build_recurrence_clusters (parts\<lparr>rq_map_order := order\<rparr>)
      (rx_similarity_threshold (pr_recurrence_config runner)) embedded = Some (Ok clusters')" "set clusters' = set clusters"
    using build_reordered [OF _ _ run(2)] by blast
  obtain c p d0 d1 where c: "c \<in> set clusters'" "recurrence_step env (pr_writer runner) ?t now c d0 = (Ok (Some p), d1)"
    "dk_files d1 \<subseteq>\<^sub>m dk_files d'"
    using propose_each_first [OF recurrence_step_grow run(3) wrote] built(2) by blast
  note made = recurrence_step_proposes [OF c(2)]
  have fail: "\<exists>e. fst (recurrence_step ?env (pr_writer runner) ?t later c d3) = Err e" if "dk_files d' \<subseteq>\<^sub>m dk_files d3" for d3
    using made write_promotion_blocks [OF conjunct1 [OF made] map_le_trans [OF c(3) that] refl]
    by (intro recurrence_step_blocked) simp_all
  have "\<exists>e. fst (propose_each (recurrence_step ?env (pr_writer runner) ?t later) clusters' d2) = Err e"
    by (rule propose_each_fails [where ?d0.0 = d', OF recurrence_step_grow _ c(1) keep]) (rule fail)
  moreover have "recurrence_inputs (reordered order runner) (parts\<lparr>rq_map_order := order\<rparr>) rows embedded"
    using run(1) parts by (simp add: recurrence_inputs_def reordered_def)
  from run_recurrence_inputs [OF this, of clusters' ?env later d2] built(1)
  have "run_recurrence_pass ?env (reordered order runner) later d2 =
      Some (propose_each (recurrence_step ?env (pr_writer runner) ?t later) clusters' d2)"
    by (simp add: reordered_def)
  ultimately show ?thesis by (metis prod.collapse)
qed

lemma reordered_intrinsic [simp]: "run_intrinsic_pass env (reordered order runner) = run_intrinsic_pass env runner"
  by (intro ext) (simp add: run_intrinsic_pass_def reordered_def)

lemma second_promotion_result:
  assumes first: "run_promotion_pass env runner now d = Some (Ok ps, d')" and wrote: "ps \<noteq> []"
    and orders: "\<forall>parts. pr_recurrence runner = Some parts \<longrightarrow> enumerates (rq_map_order parts)" "enumerates order"
    and keep: "dk_files d' \<subseteq>\<^sub>m dk_files d2"
  shows "\<exists>e d3. run_promotion_pass (env\<lparr>pn_faults := faults\<rparr>) (reordered order runner) later d2 = Some (Err e, d3)"
proof -
  let ?env = "env\<lparr>pn_faults := faults\<rparr>"
  obtain ips d0 where ips: "run_intrinsic_pass env runner now d = (Ok ips, d0)"
    using first by (cases "run_intrinsic_pass env runner now d"; cases "fst (run_intrinsic_pass env runner now d)")
      (auto simp: run_promotion_pass_def)
  obtain rps where rps: "run_recurrence_pass env runner now d0 = Some (Ok rps, d')" "ps = ips @ rps"
    using first ips by (auto simp: run_promotion_pass_def split: option.split_asm sum.split_asm prod.split_asm)
  have grown: "dk_files d0 \<subseteq>\<^sub>m dk_files d'" using recurrence_pass_frame [OF rps(1)] by blast
  obtain w d3 where w: "run_intrinsic_pass ?env runner later d2 = (w, d3)" by fastforce
  have d3: "dk_files d2 \<subseteq>\<^sub>m dk_files d3" using intrinsic_pass_frame [OF w] by blast
  show ?thesis
  proof (cases w)
    case (Inl e)
    with w show ?thesis by (simp add: run_promotion_pass_def)
  next
    case (Inr ips')
    with intrinsic_pass_blocked [OF ips _ map_le_trans [OF grown keep], of faults later] w have "ips = []" by auto
    with wrote rps have "rps \<noteq> []" by simp
    then obtain e d4 where "run_recurrence_pass ?env (reordered order runner) later d3 = Some (Err e, d4)"
      using recurrence_pass_blocked [OF rps(1) _ orders map_le_trans [OF keep d3]] by blast
    with w Inr show ?thesis by (simp add: run_promotion_pass_def)
  qed
qed

text \<open>a promotion pass that proposed anything makes every later pass over the same skills fail as long as no proposal has been removed, whatever the time, the disk and the iteration order of the map.\<close>

theorem second_promotion_pass_fails:
  assumes first: "run_promotion_pass env runner now d = Some (Ok ps, d')" and wrote: "ps \<noteq> []"
    and orders: "\<forall>parts. pr_recurrence runner = Some parts \<longrightarrow> enumerates (rq_map_order parts)" "enumerates order"
    and keep: "dk_files d' \<subseteq>\<^sub>m dk_files d2"
  shows "\<exists>e d3. run_promotion_pass (env\<lparr>pn_faults := faults\<rparr>) (reordered order runner) later d2 = Some (Err e, d3)"
  using assms by (rule second_promotion_result)

text \<open>one skill that qualifies on both paths fails the pass: when the intrinsic path proposes a skill and a recurring group that spans enough roots starts with it, the pass ends in an error after writing the first proposal.\<close>

theorem both_paths_collide:
  assumes intrinsic: "run_intrinsic_pass env runner now d = (Ok ips, d0)" and s: "s \<in> set (pr_skill_snapshots runner)"
      "intrinsically_general env runner s"
    and inputs: "recurrence_inputs runner parts rows embedded"
    and built: "build_recurrence_clusters parts (rx_similarity_threshold (pr_recurrence_config runner)) embedded = Some (Ok clusters)"
    and group: "c \<in> set clusters" "kr_id (hd c) = sn_id s"
      "rx_min_distinct_roots (pr_recurrence_config runner) \<le> length (row_root_keys c)"
  shows "\<exists>e d'. run_promotion_pass env runner now d = Some (Err e, d')"
proof -
  let ?tokens = "pr_project_identifier_tokens runner" and ?ss = "filter (\<lambda>s. sn_scope s = Project) (pr_skill_snapshots runner)"
  let ?t = "rx_min_distinct_roots (pr_recurrence_config runner)"
  have present: "\<exists>q. artifact_target env (pr_writer runner) (promotion_directory_name (sn_id s)) = Some q \<and> dk_files d0 q \<noteq> None"
    if "propose_each (intrinsic_step env (pr_writer runner) ?tokens now) xs d = (Ok ps, d0)" "s \<in> set xs" for xs ps d
    using that
  proof (induction xs arbitrary: d ps)
    case (Cons x xs)
    obtain w d1 where w: "intrinsic_step env (pr_writer runner) ?tokens now x d = (w, d1)" by fastforce
    obtain ws d2 where ws: "propose_each (intrinsic_step env (pr_writer runner) ?tokens now) xs d1 = (ws, d2)" by fastforce
    have ok: "d2 = d0" "\<exists>ps'. ws = Ok ps'" "\<exists>o'. w = Ok o'"
      using Cons.prems(1) w ws by (auto split: sum.split_asm option.split_asm)
    show ?case
    proof (cases "s = x")
      case False
      with Cons ok ws show ?thesis by auto
    next
      case True
      then obtain p where p: "w = Ok (Some p)"
        using intrinsic_step_frame [OF w] ok(3) s(2) by (auto simp: intrinsically_general_def)
      with w have "write_promotion_proposal env (pr_writer runner) s Intrinsic now d = (Ok p, d1)"
        using True intrinsic_step_proposes by auto
      from write_promotion_frame [OF this] have made:
        "artifact_target env (pr_writer runner) (promotion_directory_name (sn_id s)) = Some (pp_pending_path p)"
        "dk_files d1 (pp_pending_path p) \<noteq> None" by auto
      have "dk_files d0 (pp_pending_path p) \<noteq> None"
        using map_le_domD [OF propose_each_grow [OF intrinsic_step_grow ws] made(2)] made(2) ok(1) by simp
      with made(1) show ?thesis by blast
    qed
  qed simp
  have "s \<in> set ?ss" using s by (simp add: intrinsically_general_def)
  from present [OF intrinsic [unfolded run_intrinsic_pass_def] this] obtain q where
    q: "artifact_target env (pr_writer runner) (promotion_directory_name (sn_id s)) = Some q" "dk_files d0 q \<noteq> None" by blast
  have fail: "\<exists>e. fst (recurrence_step env (pr_writer runner) ?t now c d3) = Err e" if "dk_files d0 \<subseteq>\<^sub>m dk_files d3" for d3
  proof (rule recurrence_step_blocked [OF group(3)], rule write_promotion_again)
    show "artifact_target env (pr_writer runner) (promotion_directory_name (sn_id (project_skill_row_to_snapshot (hd c)))) = Some q"
      using q group(2) by (simp add: project_skill_row_to_snapshot_def)
    show "dk_files d3 q \<noteq> None" using q map_le_domD [OF that, of q] by simp
  qed
  have "\<exists>e. fst (propose_each (recurrence_step env (pr_writer runner) ?t now) clusters d0) = Err e"
    by (rule propose_each_fails [where ?d0.0 = d0, OF recurrence_step_grow _ group(1) map_le_refl]) (rule fail)
  then show ?thesis
    using intrinsic run_recurrence_inputs [OF inputs built, of env now d0]
    by (auto simp: run_promotion_pass_def split: prod.split)
qed

section \<open>A run\<close>

definition sample_promote_env :: promote_env where
  "sample_promote_env = \<lparr>pn_fs = \<lparr>fs_canonicalize = Ok, fs_is_dir = (\<lambda>_. True), fs_read_to_string = (\<lambda>_. Err [])\<rparr>,
     pn_faults = (\<lambda>_. None), pn_rfc3339 = (\<lambda>_. ''t''), pn_promotion_yaml = (\<lambda>fm. Ok ''name: x''),
     pn_demotion_yaml = (\<lambda>fm. Ok ''name: x''), pn_generality = (\<lambda>_. Ok True)\<rparr>"

definition sample_row :: "string \<Rightarrow> string \<Rightarrow> skill_row" where
  "sample_row k p = \<lparr>kr_id = k, kr_name = ''n'', kr_description = ''uses proj'', kr_tags = [], kr_source_paths = [p]\<rparr>"

definition sample_parts :: recurrence_parts where
  "sample_parts = \<lparr>rq_rows = Ok [sample_row ''a'' ''/p1/skills/a/SKILL.md'', sample_row ''b'' ''/p2/skills/b/SKILL.md''],
     rq_embed = (\<lambda>_. Ok [Fin 1]), rq_equivalent = (\<lambda>_ _. Ok True), rq_map_order = id\<rparr>"

definition sample_runner :: "recurrence_parts option \<Rightarrow> promotion_runner" where
  "sample_runner parts = \<lparr>pr_skill_snapshots = [sample_snapshot ''a'' Project], pr_project_identifier_tokens = [''proj''],
     pr_writer = \<lparr>pv_global_scope_root = [''/'', ''g''], pv_pending_directory_name = ''.skills''\<rparr>,
     pr_recurrence = parts, pr_recurrence_config = recurrence_config_default,
     pr_global_rows = Some (Ok [sample_row ''a'' ''/p1/skills/a/SKILL.md''])\<rparr>"

lemma sample_intrinsic:
  "map_sum id (map pp_pending_path) (fst (run_intrinsic_pass sample_promote_env (sample_runner None) 0 empty_disk)) =
     Ok [[''/'', ''g'', ''.skills'', ''promote--a'', ''SKILL.md.pending'']]"
  by code_simp

lemma sample_promotion:
  "\<exists>ps d'. run_promotion_pass sample_promote_env (sample_runner None) 0 empty_disk = Some (Ok ps, d') \<and> ps \<noteq> []"
proof -
  obtain res d' where run: "run_intrinsic_pass sample_promote_env (sample_runner None) 0 empty_disk = (res, d')" by fastforce
  with sample_intrinsic obtain ps where "res = Ok ps" "ps \<noteq> []" by (cases res) auto
  with run show ?thesis by (simp add: run_promotion_pass_def run_recurrence_pass_def sample_runner_def)
qed

theorem promotion_confined_witness:
  "\<exists>res d'. run_promotion_pass sample_promote_env (sample_runner None) 0 empty_disk = Some (res, d') \<and>
     dk_files empty_disk \<subseteq>\<^sub>m dk_files d'"
  using sample_promotion promotion_confined by blast

lemma sample_similarity: "\<not> flt (cosine_similarity_recurrence [Fin 1] [Fin 1]) (lit 0.85)"
  by code_simp

abbreviation sample_embedded :: "(skill_row \<times> f32 list) list" where
  "sample_embedded \<equiv> [(sample_row ''a'' ''/p1/skills/a/SKILL.md'', [Fin 1]), (sample_row ''b'' ''/p2/skills/b/SKILL.md'', [Fin 1])]"

lemma sample_accepts: "recurrence_judge sample_parts (lit 0.85) sample_embedded 0 (Suc 0) = Ok True"
  using sample_similarity by (simp add: recurrence_judge_def sample_parts_def)

lemma sample_keys: "row_root_keys [sample_row ''a'' ''/p1/skills/a/SKILL.md'', sample_row ''b'' ''/p2/skills/b/SKILL.md''] = [''/p1'', ''/p2'']"
  by code_simp

lemma sample_inputs: "recurrence_inputs (sample_runner (Some sample_parts)) sample_parts
    [sample_row ''a'' ''/p1/skills/a/SKILL.md'', sample_row ''b'' ''/p2/skills/b/SKILL.md''] sample_embedded"
  unfolding recurrence_inputs_def
  by (simp add: sample_runner_def sample_keys recurrence_config_default_def) (simp add: sample_parts_def)

lemma two_joined:
  assumes "judge 0 (Suc 0) = Ok True"
  shows "clusters_of id judge 2 = Some (Ok [[0, 1]])"
proof -
  have runs: "index_pairs 2 = [(0, Suc 0)]" "union_roots 0 (Suc 0) [0, Suc 0] = Some [Suc 0, Suc 0]"
    "collect_roots [0, Suc 0] [Suc 0, Suc 0] = Some [Suc 0, Suc 0]" "[0..<2] = [0, Suc 0]" by code_simp+
  show ?thesis
    unfolding clusters_of_def runs by (simp add: assms runs del: collect_roots.simps)
qed

lemma sample_built: "build_recurrence_clusters sample_parts (lit 0.85) sample_embedded =
    Some (Ok [[sample_row ''a'' ''/p1/skills/a/SKILL.md'', sample_row ''b'' ''/p2/skills/b/SKILL.md'']])"
proof -
  note two_joined [where judge = "recurrence_judge sample_parts (lit 0.85) sample_embedded", OF sample_accepts]
  then show ?thesis by (simp add: build_recurrence_clusters_def numeral_2_eq_2) (simp add: sample_parts_def)
qed

theorem recurrence_evidence_exact_witness:
  "\<exists>ps d' p. run_recurrence_pass sample_promote_env (sample_runner (Some sample_parts)) 0 empty_disk = Some (Ok ps, d') \<and>
     p \<in> set ps \<and> pp_skill_ids p = [''a''] \<and> pp_evidence p = Recurrence 2"
proof -
  let ?runner = "sample_runner (Some sample_parts)" and ?rows = "[sample_row ''a'' ''/p1/skills/a/SKILL.md'', sample_row ''b'' ''/p2/skills/b/SKILL.md'']"
  have built: "build_recurrence_clusters sample_parts (rx_similarity_threshold (pr_recurrence_config ?runner)) sample_embedded = Some (Ok [?rows])"
    using sample_built by (simp add: sample_runner_def recurrence_config_default_def)
  have pass: "run_recurrence_pass sample_promote_env ?runner 0 empty_disk =
      Some (propose_each (recurrence_step sample_promote_env (pr_writer ?runner) 2 0) [?rows] empty_disk)"
    using run_recurrence_inputs [OF sample_inputs built] by (simp add: sample_runner_def recurrence_config_default_def)
  have "map_sum id (map pp_skill_ids) (fst (propose_each (recurrence_step sample_promote_env (pr_writer ?runner) 2 0) [?rows] empty_disk)) =
      Ok [[''a'']]" by code_simp
  then obtain ps d' where run: "run_recurrence_pass sample_promote_env ?runner 0 empty_disk = Some (Ok ps, d')"
    unfolding pass
    by (cases "propose_each (recurrence_step sample_promote_env (pr_writer ?runner) 2 0) [?rows] empty_disk";
        cases "fst (propose_each (recurrence_step sample_promote_env (pr_writer ?runner) 2 0) [?rows] empty_disk)") auto
  have order: "enumerates (rq_map_order sample_parts)" by (simp add: enumerates_def sample_parts_def)
  have "set [?rows] = recurring_group sample_parts (rx_similarity_threshold (pr_recurrence_config ?runner)) sample_embedded ` {..<2}"
    using built_clusters [OF order built] by (simp add: numeral_2_eq_2)
  then have group: "recurring_group sample_parts (rx_similarity_threshold (pr_recurrence_config ?runner)) sample_embedded 0 = ?rows"
    by auto
  have "\<exists>p \<in> set ps. pp_skill_ids p = [''a''] \<and> pp_evidence p = Recurrence 2"
    unfolding recurrence_evidence_exact [OF run sample_inputs order]
    by (rule exI [of _ 0]) (unfold group, simp add: sample_keys, simp add: sample_row_def sample_runner_def recurrence_config_default_def)
  with run show ?thesis by blast
qed

end
