(* ===== verification/Skill_Extraction.thy ===== *)
theory Skill_Extraction
  imports Draft_Writer Transcripts
begin

text \<open>
  The graph builder's reading of a skill file (\<open>graph-builder/src/extraction\<close>): the frontmatter split, the
  structural rules over the body, the fallback on a provider, and the removal of repeated subunits.  The YAML
  reader and the fallback provider are parameters.
\<close>

section \<open>Subunits and frontmatter\<close>

record extracted_subunit =
  eu_kind :: subunit_type
  eu_title :: string
  eu_content :: string

record structural_extraction =
  xt_skill_name :: string
  xt_description :: string
  xt_tags :: "string list"
  xt_subunits :: "extracted_subunit list"

record skill_extraction =
  xk_skill_name :: string
  xk_description :: string
  xk_tags :: "string list"
  xk_subunits :: "extracted_subunit list"
  xk_used_ollama_fallback :: bool

record skill_frontmatter =
  kf_name :: "string option"
  kf_description :: "string option"
  kf_tags :: "string list option"
  kf_suggested_tags :: "string list option"

definition trimmed_nonempty :: "string list \<Rightarrow> string list" where
  "trimmed_nonempty ls = filter (\<lambda>l. l \<noteq> []) (map trim ls)"

definition resolved_tags :: "skill_frontmatter \<Rightarrow> string list" where
  "resolved_tags fm =
     (case kf_tags fm of
        Some tags \<Rightarrow> trimmed_nonempty tags
      | None \<Rightarrow> (case kf_suggested_tags fm of Some tags \<Rightarrow> trimmed_nonempty tags | None \<Rightarrow> []))"

text \<open>\<open>str::split\_once\<close>.\<close>

fun split_once :: "string \<Rightarrow> string \<Rightarrow> (string \<times> string) option" where
  "split_once pat [] = (if pat = [] then Some ([], []) else None)"
| "split_once pat (c # cs) =
     (if prefix pat (c # cs) then Some ([], drop (length pat) (c # cs))
      else map_option (\<lambda>(before, after). (c # before, after)) (split_once pat cs))"

definition split_frontmatter :: "string \<Rightarrow> string option \<times> string" where
  "split_frontmatter markdown =
     (if \<not> prefix (''---'' @ newline) markdown then (None, markdown)
      else case split_once (newline @ ''---'' @ newline) (drop 4 markdown) of
          None \<Rightarrow> (None, markdown)
        | Some (frontmatter, body) \<Rightarrow> (Some frontmatter, body))"

text \<open>\<open>Path::file\_stem\<close>: a dot at the front of the name starts no extension.\<close>

definition file_stem :: "path \<Rightarrow> string option" where
  "file_stem p =
     map_option (\<lambda>name.
       (let after = takeWhile (\<lambda>c. c \<noteq> CHR ''.'') (rev name); before = butlast (take (length name - length after) name)
        in if CHR ''.'' \<in> set name \<and> before \<noteq> [] then before else name)) (file_name p)"

section \<open>The structural rules (rules.rs)\<close>

fun subunit_kind_debug :: "subunit_type \<Rightarrow> string" where
  "subunit_kind_debug Procedure = ''Procedure''"
| "subunit_kind_debug Convention = ''Convention''"
| "subunit_kind_debug Asset = ''Asset''"
| "subunit_kind_debug Evidence = ''Evidence''"
| "subunit_kind_debug Summary = ''Summary''"

definition section_kind :: "string \<Rightarrow> subunit_type option" where
  "section_kind line =
     (let l = ascii_lower line in
      if l = ''## procedures'' then Some Procedure
      else if l = ''## conventions'' then Some Convention
      else if l = ''## assets'' then Some Asset
      else if l = ''## evidence'' then Some Evidence
      else if l = ''## summary'' then Some Summary
      else None)"

record rule_state = structural_extraction + rl_current_kind :: subunit_type

definition apply_line :: "rule_state \<Rightarrow> string \<Rightarrow> rule_state" where
  "apply_line st line =
     (let trimmed = trim line in
      if prefix ''# '' trimmed
      then (let title = trim (drop 2 trimmed) in if title = [] then st else st\<lparr>xt_skill_name := title\<rparr>)
      else if prefix ''tags:'' trimmed
      then st\<lparr>xt_tags := xt_tags st @ trimmed_nonempty (split_on (\<lambda>c. c = CHR '','') (drop 5 trimmed))\<rparr>
      else case section_kind trimmed of
          Some kind \<Rightarrow> st\<lparr>rl_current_kind := kind\<rparr>
        | None \<Rightarrow>
            (let st = (if xt_description st = [] \<and> trimmed \<noteq> [] \<and> \<not> prefix ''#'' trimmed
                       then st\<lparr>xt_description := trimmed\<rparr> else st)
             in if prefix ''- '' trimmed
                then st\<lparr>xt_subunits := xt_subunits st @
                       [\<lparr>eu_kind = rl_current_kind st, eu_title = subunit_kind_debug (rl_current_kind st) @ '' note'',
                         eu_content = trim (drop 2 trimmed)\<rparr>]\<rparr>
                else st))"

definition extract_structural_subunits ::
  "(string \<Rightarrow> (string, skill_frontmatter) result) \<Rightarrow> path \<Rightarrow> string \<Rightarrow> structural_extraction" where
  "extract_structural_subunits yaml p markdown =
     (let (frontmatter_src, body) = split_frontmatter markdown;
          frontmatter = Option.bind frontmatter_src (\<lambda>src. case yaml src of Ok fm \<Rightarrow> Some fm | Err _ \<Rightarrow> None);
          st = foldl apply_line
                 \<lparr>xt_skill_name = (case file_stem p of Some s \<Rightarrow> s | None \<Rightarrow> ''unnamed-skill''), xt_description = [],
                  xt_tags = [], xt_subunits = [], rl_current_kind = Summary\<rparr> (str_lines body);
          from_fm = (\<lambda>field inferred. case frontmatter of
                       None \<Rightarrow> inferred
                     | Some fm \<Rightarrow> (case Option.bind (field fm) nonempty_trimmed of Some v \<Rightarrow> v | None \<Rightarrow> inferred));
          description = from_fm kf_description (xt_description st);
          tags = (case frontmatter of
                    None \<Rightarrow> xt_tags st
                  | Some fm \<Rightarrow> if resolved_tags fm = [] then xt_tags st else resolved_tags fm)
      in \<lparr>xt_skill_name = from_fm kf_name (xt_skill_name st),
          xt_description = (if description = [] then ''No description provided'' else description),
          xt_tags = tags, xt_subunits = xt_subunits st\<rparr>)"

section \<open>Deduplication (dedup.rs)\<close>

definition dedup_key :: "extracted_subunit \<Rightarrow> string" where
  "dedup_key u = ascii_lower (subunit_kind_debug (eu_kind u)) @ '':'' @ ascii_lower (trim (eu_title u)) @ '':'' @
     ascii_lower (trim (eu_content u))"

fun retain_new :: "string set \<Rightarrow> extracted_subunit list \<Rightarrow> extracted_subunit list" where
  "retain_new seen [] = []"
| "retain_new seen (u # us) =
     (if dedup_key u \<in> seen then retain_new seen us else u # retain_new (insert (dedup_key u) seen) us)"

definition deduplicate_subunits :: "extracted_subunit list \<Rightarrow> extracted_subunit list" where
  "deduplicate_subunits us = retain_new {} us"

section \<open>The fallback (ollama\_fallback.rs)\<close>

definition first_extractable_line :: "string \<Rightarrow> string" where
  "first_extractable_line markdown =
     (case find (\<lambda>l. l \<noteq> [] \<and> \<not> prefix ''#'' l) (map trim (str_lines markdown)) of
        Some l \<Rightarrow> l | None \<Rightarrow> ''No extractable content'')"

definition candidate_subunits :: "subunit_type \<Rightarrow> string \<Rightarrow> string list \<Rightarrow> extracted_subunit list" where
  "candidate_subunits kind title_prefix source_lines =
     map (\<lambda>(i, content). \<lparr>eu_kind = kind, eu_title = title_prefix @ '' '' @ nat_str (i + 1), eu_content = content\<rparr>)
       (List.enumerate 0 (trimmed_nonempty source_lines))"

definition provider_candidates_to_subunits ::
  "string \<Rightarrow> extracted_skill_candidate list \<Rightarrow> (string, extracted_subunit list) result" where
  "provider_candidates_to_subunits markdown candidates =
     (case candidates of
        [] \<Rightarrow> Err ''Ollama fallback provider returned zero candidates''
      | candidate # _ \<Rightarrow>
          (let summary = (if trim (ec_description candidate) = [] then first_extractable_line markdown
                          else trim (ec_description candidate))
           in Ok (\<lparr>eu_kind = Summary, eu_title = ''Fallback summary'', eu_content = summary\<rparr> #
                candidate_subunits Procedure ''Fallback procedure'' (ec_procedures candidate) @
                candidate_subunits Convention ''Fallback convention'' (ec_conventions candidate) @
                candidate_subunits Asset ''Fallback asset'' (ec_assets candidate))))"

definition explicit_unavailable_subunits :: "string \<Rightarrow> string \<Rightarrow> extracted_subunit list" where
  "explicit_unavailable_subunits markdown error =
     [\<lparr>eu_kind = Summary, eu_title = ''Fallback summary'', eu_content = first_extractable_line markdown\<rparr>,
      \<lparr>eu_kind = Evidence, eu_title = ''Fallback provider unavailable'',
       eu_content = ''Ollama fallback unavailable: '' @ error\<rparr>]"

definition extract_with_ollama_fallback ::
  "(string \<Rightarrow> (string, extracted_skill_candidate list) result) \<Rightarrow> string \<Rightarrow> extracted_subunit list" where
  "extract_with_ollama_fallback provider markdown =
     (case rbind (provider markdown) (provider_candidates_to_subunits markdown) of
        Ok us \<Rightarrow> us | Err e \<Rightarrow> explicit_unavailable_subunits markdown e)"

section \<open>A whole skill (mod.rs)\<close>

definition finalize_extraction ::
  "structural_extraction \<Rightarrow> string \<Rightarrow> (string \<Rightarrow> extracted_subunit list) \<Rightarrow> skill_extraction" where
  "finalize_extraction structural markdown fallback_extractor =
     (let thin = length (xt_subunits structural) < 2
      in \<lparr>xk_skill_name = xt_skill_name structural, xk_description = xt_description structural,
          xk_tags = xt_tags structural,
          xk_subunits = deduplicate_subunits (xt_subunits structural @ (if thin then fallback_extractor markdown else [])),
          xk_used_ollama_fallback = thin\<rparr>)"

definition extract_skill ::
  "(string \<Rightarrow> (string, skill_frontmatter) result) \<Rightarrow> (string \<Rightarrow> (string, extracted_skill_candidate list) result) \<Rightarrow>
     path \<Rightarrow> string \<Rightarrow> skill_extraction" where
  "extract_skill yaml provider p markdown =
     finalize_extraction (extract_structural_subunits yaml p markdown) markdown (extract_with_ollama_fallback provider)"

section \<open>Well-formed extractions\<close>

lemma retain_new_keys: "set (map dedup_key (retain_new seen us)) = dedup_key ` set us - seen"
  by (induction seen us rule: retain_new.induct) auto

lemma distinct_retain_new: "distinct (map dedup_key (retain_new seen us))"
proof (induction seen us rule: retain_new.induct)
  case (2 seen u us)
  then show ?case using retain_new_keys [of "insert (dedup_key u) seen" us] by auto
qed simp

lemma retain_new_id: "distinct (map dedup_key us) \<Longrightarrow> dedup_key ` set us \<inter> seen = {} \<Longrightarrow> retain_new seen us = us"
  by (induction seen us rule: retain_new.induct) auto

lemma deduplicate_Nil_iff: "deduplicate_subunits us = [] \<longleftrightarrow> us = []"
  by (cases us) (simp_all add: deduplicate_subunits_def)

definition clean_tags :: "string list \<Rightarrow> bool" where
  "clean_tags tags = list_all (\<lambda>t. t \<noteq> [] \<and> trim t = t) tags"

lemma clean_trimmed [simp]: "clean_tags (trimmed_nonempty ls)"
  by (auto simp: clean_tags_def trimmed_nonempty_def list_all_iff)

lemma clean_append [simp]: "clean_tags (a @ b) \<longleftrightarrow> clean_tags a \<and> clean_tags b"
  by (simp add: clean_tags_def)

lemma clean_resolved [simp]: "clean_tags (resolved_tags fm)"
proof -
  have "clean_tags []" by (simp add: clean_tags_def)
  then show ?thesis by (simp add: resolved_tags_def split: option.split)
qed

lemma apply_line_tags: "clean_tags (xt_tags st) \<Longrightarrow> clean_tags (xt_tags (apply_line st line))"
  by (simp add: apply_line_def Let_def split: option.split)

lemma apply_lines_tags: "clean_tags (xt_tags st) \<Longrightarrow> clean_tags (xt_tags (foldl apply_line st ls))"
  by (induction ls arbitrary: st) (simp_all add: apply_line_tags)

lemma structural_facts:
  "xt_description (extract_structural_subunits yaml p markdown) \<noteq> []"
  "clean_tags (xt_tags (extract_structural_subunits yaml p markdown))"
proof -
  have "clean_tags []" by (simp add: clean_tags_def)
  then show "clean_tags (xt_tags (extract_structural_subunits yaml p markdown))"
    by (simp add: extract_structural_subunits_def Let_def apply_lines_tags split: option.split prod.split)
qed (simp add: extract_structural_subunits_def Let_def split: option.split prod.split)

lemma fallback_nonempty: "extract_with_ollama_fallback provider markdown \<noteq> []"
  by (cases "provider markdown")
     (auto simp: extract_with_ollama_fallback_def explicit_unavailable_subunits_def provider_candidates_to_subunits_def Let_def
      split: list.split)

text \<open>C37: whatever the file, its frontmatter and the fallback provider answer, the extraction is well formed: a description, clean tags, at least one subunit, and no two subunits that agree in kind, title and content up to case and surrounding blanks.\<close>

theorem extract_skill_well_formed:
  "xk_description (extract_skill yaml provider p markdown) \<noteq> [] \<and>
   clean_tags (xk_tags (extract_skill yaml provider p markdown)) \<and>
   xk_subunits (extract_skill yaml provider p markdown) \<noteq> [] \<and>
   distinct (map dedup_key (xk_subunits (extract_skill yaml provider p markdown)))"
proof -
  let ?x = "extract_structural_subunits yaml p markdown"
  let ?us = "xt_subunits ?x @ (if length (xt_subunits ?x) < 2 then extract_with_ollama_fallback provider markdown else [])"
  have "?us \<noteq> []" using fallback_nonempty [of provider markdown] by auto
  then have "deduplicate_subunits ?us \<noteq> []" by (simp only: deduplicate_Nil_iff not_False_eq_True)
  moreover have "distinct (map dedup_key (deduplicate_subunits ?us))" unfolding deduplicate_subunits_def by (rule distinct_retain_new)
  moreover have "xk_subunits (extract_skill yaml provider p markdown) = deduplicate_subunits ?us"
    "xk_description (extract_skill yaml provider p markdown) = xt_description ?x" "xk_tags (extract_skill yaml provider p markdown) = xt_tags ?x"
    by (simp_all only: extract_skill_def finalize_extraction_def Let_def skill_extraction.simps)
  ultimately show ?thesis using structural_facts [of yaml p markdown] by (simp only: simp_thms)
qed

section \<open>Reading back a written draft\<close>

text \<open>The trimmed lines of a text.\<close>

definition trimmed_lines :: "string \<Rightarrow> string list" where
  "trimmed_lines s = map trim (str_lines s)"

lemma trim_snoc_ws: "is_ws c \<Longrightarrow> trim (s @ [c]) = trim s"
proof -
  assume c: "is_ws c"
  show ?thesis
  proof (cases "dropWhile is_ws s = []")
    case True
    then have "dropWhile is_ws (s @ [c]) = []" using c by (auto simp: dropWhile_eq_Nil_conv)
    then show ?thesis by (simp only: trim_def trim_start_def True)
  next
    case False
    then have "dropWhile is_ws (s @ [c]) = dropWhile is_ws s @ [c]" by (auto simp: dropWhile_append dropWhile_eq_Nil_conv)
    with c show ?thesis by (simp only: trim_def trim_start_def trim_end_def rev_append rev.simps append.simps dropWhile.simps if_True)
  qed
qed

lemma apply_line_trim: "apply_line st (trim l) = apply_line st l"
  by (simp add: apply_line_def)

lemma apply_lines_trimmed: "foldl apply_line st (str_lines s) = foldl apply_line st (trimmed_lines s)"
proof -
  have "foldl apply_line st ls = foldl apply_line st (map trim ls)" for ls
    by (induction ls arbitrary: st) (simp_all add: apply_line_trim)
  then show ?thesis by (simp add: trimmed_lines_def)
qed

lemma split_on_append:
  "split_on P (d @ [c] @ s) = split_on P d @ split_on P s" if "P c"
proof (induction d)
  case Nil
  then show ?case using that by simp
next
  case (Cons x d)
  have "split_on P d \<noteq> []" by (cases d) (auto split: list.split)
  with Cons show ?case by (auto split: list.split)
qed

lemma split_on_ne: "split_on P s \<noteq> []"
  by (cases s) (auto split: list.split)

lemma trimmed_lines_append:
  "trimmed_lines (d @ newline @ s) = map trim (split_on (\<lambda>c. c = CHR 0x0A) d) @ trimmed_lines s"
proof -
  have strip: "trim (if l \<noteq> [] \<and> last l = CHR 0x0D then butlast l else l) = trim l" for l
  proof (cases "l \<noteq> [] \<and> last l = CHR 0x0D")
    case True
    then have "butlast l @ [CHR 0x0D] = l" by (metis append_butlast_last_id)
    with trim_snoc_ws [of "CHR 0x0D" "butlast l"] have "trim l = trim (butlast l)" by (simp add: is_ws_def)
    with True show ?thesis by simp
  qed auto
  have split: "split_on (\<lambda>c. c = CHR 0x0A) (d @ newline @ s) = split_on (\<lambda>c. c = CHR 0x0A) d @ split_on (\<lambda>c. c = CHR 0x0A) s"
    unfolding newline_def by (rule split_on_append) simp
  let ?nl = "\<lambda>c. c = CHR 0x0A" and ?strip = "\<lambda>l. if l \<noteq> [] \<and> last l = CHR 0x0D then butlast l else l"
  have last: "last (split_on ?nl d @ split_on ?nl s) = last (split_on ?nl s)"
    and butlast: "butlast (split_on ?nl d @ split_on ?nl s) = split_on ?nl d @ butlast (split_on ?nl s)"
    by (simp_all only: last_appendR [OF split_on_ne] butlast_append split_on_ne if_False)
  have "str_lines (d @ newline @ s) = map ?strip (split_on ?nl d) @ str_lines s"
    unfolding str_lines_def split Let_def last butlast
    by (simp only: map_append append_assoc)
  moreover have "map trim (map ?strip ls) = map trim ls" for ls by (induction ls) (simp_all only: list.map strip)
  ultimately show ?thesis unfolding trimmed_lines_def by (simp only: map_append)
qed

lemma split_on_none: "list_all (\<lambda>c. \<not> P c) l \<Longrightarrow> split_on P l = [l]"
  by (induction l) auto

lemma trimmed_single_line:
  "CHR 0x0A \<notin> set l \<Longrightarrow> trimmed_lines (l @ newline @ s) = trim l # trimmed_lines s"
  unfolding trimmed_lines_append by (subst split_on_none) (auto simp: list_all_iff)

section \<open>The round trip\<close>

text \<open>The metadata a draft is rendered with.\<close>

definition draft_metadata :: "render_env \<Rightarrow> nat \<Rightarrow> extracted_skill_candidate \<Rightarrow> string \<Rightarrow> string \<Rightarrow> draft_frontmatter" where
  "draft_metadata renv i c sid provider_name =
     \<lparr>df_name = ec_name c, df_description = ec_description c, df_tags = ec_tags c,
      df_origin = ''session_extraction'', df_source_session_id = sid, df_source_provider = provider_name,
      df_created_at = re_rfc3339 renv (re_now renv i),
      df_warning_at = re_rfc3339 renv (pending_default_warning_at (re_now renv i)),
      df_expires_at = re_rfc3339 renv (pending_default_expires_at (re_now renv i)),
      df_generality = normalize_generality (ec_generality c),
      df_generality_rationale = (case ec_generality_rationale c of Some r \<Rightarrow> r | None \<Rightarrow> [])\<rparr>"

definition frontmatter_text :: "string \<Rightarrow> string" where
  "frontmatter_text y = (if suffix newline y then butlast y else y)"

text \<open>The codec contract: the reader gives back the metadata, and no line of the serialized text closes it early.\<close>

definition yaml_carries ::
  "render_env \<Rightarrow> (string \<Rightarrow> (string, skill_frontmatter) result) \<Rightarrow> draft_frontmatter \<Rightarrow> bool" where
  "yaml_carries renv yaml fm \<longleftrightarrow>
     (\<exists>y read. serialize_frontmatter renv fm = Ok y \<and> yaml (frontmatter_text y) = Ok read \<and>
        kf_name read = Some (df_name fm) \<and> kf_description read = Some (df_description fm) \<and>
        kf_tags read = Some (df_tags fm) \<and>
        \<not> contains_str (frontmatter_text y @ newline @ ''---'') (newline @ ''---'' @ newline))"

definition plain_item :: "string \<Rightarrow> bool" where
  "plain_item l \<longleftrightarrow> l \<noteq> [] \<and> trim l = l \<and> CHR 0x0A \<notin> set l"

definition kind_note :: "subunit_type \<Rightarrow> string \<Rightarrow> extracted_subunit" where
  "kind_note kind content = \<lparr>eu_kind = kind, eu_title = subunit_kind_debug kind @ '' note'', eu_content = content\<rparr>"

definition candidate_notes :: "extracted_skill_candidate \<Rightarrow> extracted_subunit list" where
  "candidate_notes c = map (kind_note Procedure) (ec_procedures c) @ map (kind_note Convention) (ec_conventions c) @
     map (kind_note Asset) (ec_assets c)"

definition no_bullets :: "string \<Rightarrow> bool" where
  "no_bullets s = list_all (\<lambda>l. \<not> prefix ''- '' (trim l)) (split_on (\<lambda>c. c = CHR 0x0A) s)"

definition plain_candidate :: "extracted_skill_candidate \<Rightarrow> bool" where
  "plain_candidate c \<longleftrightarrow> plain_item (ec_name c) \<and> ec_description c \<noteq> [] \<and> trim (ec_description c) = ec_description c \<and>
     no_bullets (ec_description c) \<and> ec_tags c \<noteq> [] \<and> clean_tags (ec_tags c) \<and>
     list_all plain_item (ec_procedures c @ ec_conventions c @ ec_assets c) \<and>
     2 \<le> length (candidate_notes c) \<and> distinct (map dedup_key (candidate_notes c))"

lemma split_once_first:
  assumes "\<not> contains_str (y @ newline @ ''---'') (newline @ ''---'' @ newline)"
  shows "split_once (newline @ ''---'' @ newline) (y @ newline @ ''---'' @ newline @ body) = Some (y, body)"
  using assms
proof (induction y)
  case (Cons c y)
  have "\<not> prefix (newline @ ''---'' @ newline) ((c # y) @ newline @ ''---'')"
    using Cons.prems by (simp only: append_Cons contains_str.simps) simp
  then have "\<not> prefix (newline @ ''---'' @ newline) ((c # y) @ newline @ ''---'' @ newline @ body)"
    using prefix_length_prefix [of "newline @ ''---'' @ newline" "((c # y) @ newline @ ''---'') @ newline @ body" "(c # y) @ newline @ ''---''"]
    by (auto simp: newline_def)
  with Cons show ?case by (simp only: append_Cons contains_str.simps split_once.simps) simp
qed (simp add: newline_def)

lemma bullet_free_lines:
  "list_all (\<lambda>l. \<not> prefix ''- '' l) ls \<Longrightarrow> list_all (\<lambda>l. trim l = l) ls \<Longrightarrow>
   xt_subunits (foldl apply_line st ls) = xt_subunits st"
proof (induction ls arbitrary: st)
  case (Cons l ls)
  have "xt_subunits (apply_line st l) = xt_subunits st"
    using Cons.prems by (simp add: apply_line_def Let_def split: option.split)
  with Cons show ?case by simp
qed simp

lemma trim_marked:
  assumes "plain_item l" and c: "\<not> is_ws c"
  shows "trim ([c, CHR '' ''] @ l) = [c, CHR '' ''] @ l"
proof -
  have ne: "dropWhile is_ws (rev l) \<noteq> []" "trim_end l = l" "trim_start l = l"
  proof -
    have t: "trim l = l" and "l \<noteq> []" using assms by (simp_all add: plain_item_def)
    have len: "length (trim_end s) \<le> length s" for s using length_dropWhile_le [of is_ws "rev s"] by (simp add: trim_end_def)
    have "length (trim_start l) \<le> length l" by (simp add: trim_start_def length_dropWhile_le)
    with len [of "trim_start l"] t have "length (trim_start l) = length l" by (simp add: trim_def)
    then show start: "trim_start l = l" unfolding trim_start_def
      by (metis append_self_conv2 length_0_conv length_append add_cancel_left_left takeWhile_dropWhile_id)
    then show "trim_end l = l" using t by (simp add: trim_def)
    then show "dropWhile is_ws (rev l) \<noteq> []" using \<open>l \<noteq> []\<close> by (metis trim_end_def rev.simps(1))
  qed
  have "trim_start ([c, CHR '' ''] @ l) = [c, CHR '' ''] @ l" using c by (simp add: trim_start_def)
  moreover have "trim_end ([c, CHR '' ''] @ l) = [c, CHR '' ''] @ trim_end l"
    using ne(1) c by (simp add: trim_end_def dropWhile_append dropWhile_eq_Nil_conv)
  ultimately show ?thesis using ne(2) by (simp add: trim_def)
qed

lemma bullet_line:
  assumes "plain_item l"
  shows "xt_subunits (apply_line st (trim (''- '' @ l))) = xt_subunits st @ [kind_note (rl_current_kind st) l]"
    "rl_current_kind (apply_line st (trim (''- '' @ l))) = rl_current_kind st"
proof -
  have hd: "\<not> is_ws (CHR ''-'')" by (simp add: is_ws_def)
  have "trim (''- '' @ l) = ''- '' @ l" using trim_marked [OF assms hd] by simp
  moreover have "section_kind (''- '' @ l) = None" by (simp add: section_kind_def ascii_lower_def lower_char_def Let_def)
  moreover have "trim l = l" using assms by (simp add: plain_item_def)
  ultimately show "xt_subunits (apply_line st (trim (''- '' @ l))) = xt_subunits st @ [kind_note (rl_current_kind st) l]"
    "rl_current_kind (apply_line st (trim (''- '' @ l))) = rl_current_kind st"
    by (simp_all add: apply_line_def Let_def kind_note_def)
qed

lemma bullet_lines:
  "list_all plain_item ls \<Longrightarrow>
   xt_subunits (foldl apply_line st (map (\<lambda>l. trim (''- '' @ l)) ls)) = xt_subunits st @ map (kind_note (rl_current_kind st)) ls"
  by (induction ls arbitrary: st) (simp_all add: bullet_line del: append_Cons)

text \<open>The lines of a rendered section, from any state of the rules.\<close>

lemma trimmed_empty_line: "trimmed_lines (newline @ s) = [] # trimmed_lines s"
  using trimmed_single_line [of "[]" s] by simp

lemma trimmed_items:
  "list_all plain_item ls \<Longrightarrow>
   trimmed_lines (concat (map (\<lambda>l. ''- '' @ l @ newline) ls) @ s) = map (\<lambda>l. trim (''- '' @ l)) ls @ trimmed_lines s"
proof (induction ls)
  case (Cons l ls)
  then have "CHR 0x0A \<notin> set (''- '' @ l)" by (simp add: plain_item_def)
  from trimmed_single_line [OF this, of "concat (map (\<lambda>l. ''- '' @ l @ newline) ls) @ s"] Cons
  show ?case by simp
qed simp

lemma section_lines:
  assumes items: "list_all plain_item ls" and heading: "section_kind (trim (''## '' @ heading)) = Some kind" "CHR 0x0A \<notin> set heading"
    "\<not> prefix ''# '' (trim (''## '' @ heading))" "\<not> prefix ''tags:'' (trim (''## '' @ heading))"
  obtains st' where "foldl apply_line st (trimmed_lines (append_section heading ls @ s)) = foldl apply_line st' (trimmed_lines s)"
    "xt_subunits st' = xt_subunits st @ map (kind_note kind) ls"
proof (cases "ls = []")
  case True
  with that [of st] show ?thesis by (simp add: append_section_def)
next
  case False
  let ?st1 = "st\<lparr>rl_current_kind := kind\<rparr>"
  let ?st2 = "foldl apply_line ?st1 (map (\<lambda>l. trim (''- '' @ l)) ls)"
  have blank: "apply_line st0 [] = st0" for st0 :: rule_state
    by (simp add: apply_line_def section_kind_def ascii_lower_def Let_def trim_def trim_start_def trim_end_def)
  have "CHR 0x0A \<notin> set (''## '' @ heading)" using heading(2) by simp
  then have "trimmed_lines (append_section heading ls @ s) =
      trim (''## '' @ heading) # map (\<lambda>l. trim (''- '' @ l)) ls @ [] # trimmed_lines s"
    using trimmed_single_line [of "''## '' @ heading"] trimmed_items [OF items, of "newline @ s"] False
    by (simp add: append_section_def trimmed_empty_line)
  moreover have "apply_line st (trim (''## '' @ heading)) = ?st1"
    using heading(1,3,4) by (simp add: apply_line_def Let_def)
  ultimately have "foldl apply_line st (trimmed_lines (append_section heading ls @ s)) = foldl apply_line ?st2 (trimmed_lines s)"
    by (simp add: blank)
  moreover have "xt_subunits ?st2 = xt_subunits st @ map (kind_note kind) ls"
    using bullet_lines [OF items, of ?st1] by simp
  ultimately show ?thesis by (rule that)
qed

text \<open>C23: a draft the writer renders is read back by the graph builder: for a plain candidate the extraction has its name, description and tags, and exactly its procedures, conventions and assets as subunits, in order, without the fallback.\<close>

theorem draft_round_trip:
  assumes rendered: "render_pending_markdown renv i c sid provider_name = Ok markdown"
    and codec: "yaml_carries renv yaml (draft_metadata renv i c sid provider_name)" and plain: "plain_candidate c"
  shows "extract_skill yaml provider p markdown =
    \<lparr>xk_skill_name = ec_name c, xk_description = ec_description c, xk_tags = ec_tags c,
     xk_subunits = candidate_notes c, xk_used_ollama_fallback = False\<rparr>"
proof -
  obtain y read where y: "serialize_frontmatter renv (draft_metadata renv i c sid provider_name) = Ok y"
    "yaml (frontmatter_text y) = Ok read" "kf_name read = Some (ec_name c)" "kf_description read = Some (ec_description c)"
    "kf_tags read = Some (ec_tags c)"
    "\<not> contains_str (frontmatter_text y @ newline @ ''---'') (newline @ ''---'' @ newline)"
    using codec by (auto simp: yaml_carries_def draft_metadata_def)
  define sections where "sections = append_section ''Procedures'' (ec_procedures c) @
    append_section ''Conventions'' (ec_conventions c) @ append_section ''Assets'' (ec_assets c)"
  define body where "body = newline @ (''# '' @ ec_name c) @ newline @ newline @ ec_description c @ newline @ newline @ sections"
  have framed: "y @ (if suffix newline y then [] else newline) = frontmatter_text y @ newline"
    by (auto simp: frontmatter_text_def suffix_def newline_def)
  have framed: "y @ (if suffix newline y then [] else newline) @ r = frontmatter_text y @ newline @ r" for r
    by (metis framed append_assoc)
  have markdown: "markdown = ''---'' @ newline @ frontmatter_text y @ newline @ ''---'' @ newline @ body"
  proof -
    have "markdown = ''---'' @ newline @ y @ (if suffix newline y then [] else newline) @ ''---'' @ newline @ body"
      using rendered y(1) by (simp add: render_pending_markdown_def draft_metadata_def Let_def body_def sections_def)
    then show ?thesis by (simp only: framed)
  qed
  have split: "split_frontmatter markdown = (Some (frontmatter_text y), body)"
    unfolding split_frontmatter_def markdown using split_once_first [OF y(6), of body]
    by (simp add: newline_def)
  have name: "plain_item (ec_name c)" and desc: "no_bullets (ec_description c)"
    and items: "list_all plain_item (ec_procedures c)" "list_all plain_item (ec_conventions c)" "list_all plain_item (ec_assets c)"
    using plain by (simp_all add: plain_candidate_def)
  let ?nl = "\<lambda>c. c = CHR 0x0A"
  let ?head = "[] # trim (''# '' @ ec_name c) # [] # map trim (split_on ?nl (ec_description c)) @ [[]]"
  have lines: "trimmed_lines body = ?head @ trimmed_lines sections"
    using trimmed_single_line [of "''# '' @ ec_name c"] name
    by (simp add: body_def trimmed_empty_line trimmed_lines_append plain_item_def)
  have marked: "trim (''# '' @ ec_name c) = ''# '' @ ec_name c" using trim_marked [OF name, of "CHR ''#''"] by (simp add: is_ws_def)
  have head: "xt_subunits (foldl apply_line st ?head) = xt_subunits st" for st
  proof (rule bullet_free_lines)
    show "list_all (\<lambda>l. \<not> prefix ''- '' l) ?head" using desc unfolding marked by (simp add: no_bullets_def list_all_iff)
    show "list_all (\<lambda>l. trim l = l) ?head" unfolding marked using marked by (simp add: list_all_iff)
  qed
  let ?st0 = "\<lparr>xt_skill_name = (case file_stem p of Some s \<Rightarrow> s | None \<Rightarrow> ''unnamed-skill''), xt_description = [],
                  xt_tags = [], xt_subunits = [], rl_current_kind = Summary\<rparr>"
  obtain st1 where st1: "foldl apply_line (foldl apply_line ?st0 ?head) (trimmed_lines sections) = foldl apply_line st1
      (trimmed_lines (append_section ''Conventions'' (ec_conventions c) @ append_section ''Assets'' (ec_assets c)))"
    "xt_subunits st1 = map (kind_note Procedure) (ec_procedures c)"
    unfolding sections_def
    by (rule section_lines [OF items(1), of "''Procedures''" Procedure "foldl apply_line ?st0 ?head"]) (code_simp, code_simp, code_simp, code_simp, simp only: head, simp)
  obtain st2 where st2: "foldl apply_line st1 (trimmed_lines (append_section ''Conventions'' (ec_conventions c) @
      append_section ''Assets'' (ec_assets c))) = foldl apply_line st2 (trimmed_lines (append_section ''Assets'' (ec_assets c) @ []))"
    "xt_subunits st2 = xt_subunits st1 @ map (kind_note Convention) (ec_conventions c)"
    by (rule section_lines [OF items(2), of "''Conventions''" Convention st1]) (code_simp, code_simp, code_simp, code_simp, simp)
  obtain st3 where st3: "foldl apply_line st2 (trimmed_lines (append_section ''Assets'' (ec_assets c) @ [])) = foldl apply_line st3 (trimmed_lines [])"
    "xt_subunits st3 = xt_subunits st2 @ map (kind_note Asset) (ec_assets c)"
    by (rule section_lines [OF items(3), of "''Assets''" Asset st2 "[]"]) (code_simp, code_simp, code_simp, code_simp, blast)
  have "trimmed_lines [] = []" by code_simp
  with lines st1 st2 st3 have "xt_subunits (foldl apply_line ?st0 (trimmed_lines body)) = candidate_notes c"
    by (simp add: candidate_notes_def)
  then have subunits: "xt_subunits (foldl apply_line ?st0 (str_lines body)) = candidate_notes c"
    by (simp only: apply_lines_trimmed)
  have "trimmed_nonempty (ec_tags c) = ec_tags c"
  proof -
    have "map trim (ec_tags c) = ec_tags c" using plain by (simp add: plain_candidate_def clean_tags_def list_all_iff map_idI)
    then show ?thesis using plain by (simp add: trimmed_nonempty_def plain_candidate_def clean_tags_def list_all_iff filter_id_conv)
  qed
  then have tags: "resolved_tags read = ec_tags c" by (simp add: resolved_tags_def y(5))
  have fields: "Option.bind (kf_name read) nonempty_trimmed = Some (ec_name c)" "Option.bind (kf_description read) nonempty_trimmed = Some (ec_description c)"
    "ec_tags c \<noteq> []" "ec_description c \<noteq> []"
    using plain by (simp_all add: y(3,4) nonempty_trimmed_def plain_candidate_def plain_item_def)
  have "extract_structural_subunits yaml p markdown =
      \<lparr>xt_skill_name = ec_name c, xt_description = ec_description c, xt_tags = ec_tags c, xt_subunits = candidate_notes c\<rparr>"
    unfolding extract_structural_subunits_def split Let_def
    using y(2) tags fields subunits by simp
  moreover have "deduplicate_subunits (candidate_notes c) = candidate_notes c"
    using plain by (simp add: deduplicate_subunits_def retain_new_id plain_candidate_def)
  moreover have "\<not> length (candidate_notes c) < 2" using plain by (simp add: plain_candidate_def)
  ultimately show ?thesis by (simp add: extract_skill_def finalize_extraction_def Let_def)
qed

section \<open>A run\<close>

definition sample_draft :: extracted_skill_candidate where
  "sample_draft = \<lparr>ec_name = ''deploy'', ec_description = ''how to deploy'', ec_tags = [''ci''], ec_procedures = [''build'', ''push''],
     ec_conventions = [], ec_assets = [''Dockerfile''], ec_confidence = Fin 0, ec_generality = None, ec_generality_rationale = None\<rparr>"

definition sample_reader :: "string \<Rightarrow> (string, skill_frontmatter) result" where
  "sample_reader s = Ok \<lparr>kf_name = Some ''deploy'', kf_description = Some ''how to deploy'', kf_tags = Some [''ci''], kf_suggested_tags = None\<rparr>"

definition sample_renderer :: render_env where
  "sample_renderer = \<lparr>re_now = (\<lambda>_. 0), re_rfc3339 = (\<lambda>_. ''t''), re_yaml = (\<lambda>fm. Ok ''name: deploy'')\<rparr>"

lemma sample_codec: "yaml_carries sample_renderer sample_reader (draft_metadata sample_renderer 0 sample_draft ''s'' ''ollama'')"
  unfolding yaml_carries_def
  by (rule exI [of _ "''name: deploy''"], rule exI [of _ "\<lparr>kf_name = Some ''deploy'', kf_description = Some ''how to deploy'',
        kf_tags = Some [''ci''], kf_suggested_tags = None\<rparr>"])
     (simp add: serialize_frontmatter_def sample_renderer_def sample_reader_def sample_draft_def draft_metadata_def newline_def
        frontmatter_text_def suffix_def)

lemma sample_plain: "plain_candidate sample_draft"
  by code_simp

theorem draft_round_trip_witness:
  "\<exists>markdown. render_pending_markdown sample_renderer 0 sample_draft ''s'' ''ollama'' = Ok markdown \<and>
     xk_tags (extract_skill sample_reader (\<lambda>_. Err []) [''/'', ''SKILL.md''] markdown) = [''ci'']"
proof -
  obtain markdown where m: "render_pending_markdown sample_renderer 0 sample_draft ''s'' ''ollama'' = Ok markdown"
    by (simp add: render_pending_markdown_def serialize_frontmatter_def sample_renderer_def Let_def)
  from draft_round_trip [OF m sample_codec sample_plain] m show ?thesis by (simp add: sample_draft_def)
qed

end
