(* ===== verification/Skill_Watcher.thy ===== *)
theory Skill_Watcher
  imports Skill_Extraction Merge_Pass
begin

text \<open>
  The graph builder's view of the skill tree (\<open>graph-builder/src/watcher.rs\<close>, \<open>watcher\_recovery.rs\<close>): the
  snapshot of fingerprints, the difference of two snapshots with its rename detection, the polled watcher and the
  recovery that suppresses repeated changes.  A \<open>BTreeMap\<close> is its list of entries in key order; the iteration
  order of hash maps is a parameter, and so are the walk, the file contents and the hash.
\<close>

section \<open>Scopes, walks and fingerprints\<close>

record scope_root =
  rt_scope_id :: string
  rt_scope_type :: scope_type
  rt_root :: path

record walk_entry =
  wk_path :: path
  wk_is_dir :: bool
  wk_is_file :: bool

text \<open>A walk takes the predicate that prunes a subtree and the root.\<close>

type_synonym walker = "(walk_entry \<Rightarrow> bool) \<Rightarrow> path \<Rightarrow> (string, walk_entry) result list"

definition ignored_dir_names :: "string list" where
  "ignored_dir_names = [''.git'', ''target'', ''node_modules'', ''.github'', ''.claude'', ''.opencode'', ''.cursor'',
     ''.continue'', ''.aider'', ''.codeium'', ''.windsurf'', ''.gemini'', ''.amazonq'']"

definition is_ignored_walk_dir :: "walk_entry \<Rightarrow> bool" where
  "is_ignored_walk_dir e =
     (wk_is_dir e \<and> (case file_name (wk_path e) of None \<Rightarrow> False | Some n \<Rightarrow> List.member ignored_dir_names n))"

definition is_active_skill_file :: "path \<Rightarrow> bool" where
  "is_active_skill_file p = has_lifecycle_file_name p active_skill_file"

definition is_pending_file :: "path \<Rightarrow> bool" where
  "is_pending_file p = has_lifecycle_file_name p pending_skill_file"

definition is_retired_file :: "path \<Rightarrow> bool" where
  "is_retired_file p = has_lifecycle_file_name p retired_skill_file"

definition is_rejected_file :: "path \<Rightarrow> bool" where
  "is_rejected_file p = has_lifecycle_file_name p rejected_skill_file"

definition is_skill_file :: "path \<Rightarrow> bool" where
  "is_skill_file p = (is_active_skill_file p \<or> is_pending_file p \<or> is_retired_file p \<or> is_rejected_file p)"

record fingerprint =
  fp_content_hash :: string
  fp_modified_nanos :: nat

type_synonym skill_tree = "(path \<times> fingerprint) list"

datatype watcher_error = MissingScopeRoot string | WatchSetup string | WatchIo string

record tree_env =
  te_walk :: walker
  te_read :: "path \<Rightarrow> (string, string) result"
  te_modified :: "path \<Rightarrow> (string, nat) result"
  te_blake3 :: "string \<Rightarrow> string"

fun btree_insert :: "'k::linorder \<Rightarrow> 'v \<Rightarrow> ('k \<times> 'v) list \<Rightarrow> ('k \<times> 'v) list" where
  "btree_insert k v [] = [(k, v)]"
| "btree_insert k v ((l, w) # m) =
     (if k < l then (k, v) # (l, w) # m else if k = l then (k, v) # m else (l, w) # btree_insert k v m)"

fun snapshot_entries :: "tree_env \<Rightarrow> (string, walk_entry) result list \<Rightarrow> skill_tree \<Rightarrow> (watcher_error, skill_tree) result" where
  "snapshot_entries env [] m = Ok m"
| "snapshot_entries env (entry # entries) m =
     (case entry of
        Err e \<Rightarrow> Err (WatchIo e)
      | Ok e \<Rightarrow>
          if \<not> wk_is_file e \<or> \<not> is_skill_file (wk_path e) then snapshot_entries env entries m
          else (case te_read env (wk_path e) of
              Err e \<Rightarrow> Err (WatchIo e)
            | Ok content \<Rightarrow>
                (case te_modified env (wk_path e) of
                   Err e \<Rightarrow> Err (WatchIo e)
                 | Ok modified \<Rightarrow> snapshot_entries env entries (btree_insert (wk_path e)
                     \<lparr>fp_content_hash = te_blake3 env content, fp_modified_nanos = modified\<rparr> m))))"

fun build_snapshot_from :: "tree_env \<Rightarrow> scope_root list \<Rightarrow> skill_tree \<Rightarrow> (watcher_error, skill_tree) result" where
  "build_snapshot_from env [] m = Ok m"
| "build_snapshot_from env (s # ss) m =
     rbind (snapshot_entries env (te_walk env is_ignored_walk_dir (rt_root s)) m) (build_snapshot_from env ss)"

definition build_snapshot :: "tree_env \<Rightarrow> scope_root list \<Rightarrow> (watcher_error, skill_tree) result" where
  "build_snapshot env scopes = build_snapshot_from env scopes []"

section \<open>Changes\<close>

datatype skill_file_change_kind = Created | Modified | Deleted | ApprovedRename | RejectedRename | RetiredRename

datatype file_change_source = Direct | PendingApproval

record skill_file_change =
  ch_scope_id :: string
  ch_scope_type :: scope_type
  ch_file_path :: path
  ch_kind :: skill_file_change_kind
  ch_source :: file_change_source
  ch_content_hash :: string
  ch_idempotency_key :: string

text \<open>The index of the roots: of two scopes with one root the later is kept.\<close>

fun last_by_root :: "scope_root list \<Rightarrow> scope_root list" where
  "last_by_root [] = []"
| "last_by_root (s # ss) = (if rt_root s \<in> rt_root ` set ss then last_by_root ss else s # last_by_root ss)"

record map_orders =
  od_roots :: "scope_root list \<Rightarrow> scope_root list"
  od_hashes :: "string list \<Rightarrow> string list"

definition scope_for_path :: "scope_root list \<Rightarrow> path \<Rightarrow> (string \<times> scope_type) option" where
  "scope_for_path index p = map_option (\<lambda>s. (rt_scope_id s, rt_scope_type s)) (find (\<lambda>s. prefix (rt_root s) p) index)"

definition build_change ::
  "string \<times> scope_type \<Rightarrow> path \<Rightarrow> skill_file_change_kind \<Rightarrow> file_change_source \<Rightarrow> string \<Rightarrow> skill_file_change" where
  "build_change scope p kind source content_hash =
     \<lparr>ch_scope_id = fst scope, ch_scope_type = snd scope, ch_file_path = p, ch_kind = kind, ch_source = source,
      ch_content_hash = content_hash, ch_idempotency_key = path_display p @ '':'' @ content_hash\<rparr>"

definition emit_change ::
  "scope_root list \<Rightarrow> path \<Rightarrow> skill_file_change_kind \<Rightarrow> file_change_source \<Rightarrow> string \<Rightarrow> skill_file_change list" where
  "emit_change index p kind source content_hash =
     (case scope_for_path index p of None \<Rightarrow> [] | Some scope \<Rightarrow> [build_change scope p kind source content_hash])"

definition same_skill_directory :: "path \<Rightarrow> path \<Rightarrow> bool" where
  "same_skill_directory p q \<longleftrightarrow> path_parent p = path_parent q"

text \<open>The removed files by hash, as pairs in the order they were pushed.\<close>

type_synonym removed_paths = "(string \<times> path) list"

fun take_removed_path_for_directory :: "removed_paths \<Rightarrow> string \<Rightarrow> path \<Rightarrow> (path \<times> removed_paths) option" where
  "take_removed_path_for_directory [] content_hash target = None"
| "take_removed_path_for_directory ((h, p) # removed) content_hash target =
     (if h = content_hash \<and> same_skill_directory p target then Some (p, removed)
      else map_option (\<lambda>(q, rest). (q, (h, p) # rest)) (take_removed_path_for_directory removed content_hash target))"

record diff_state =
  ds_changes :: "skill_file_change list"
  ds_pending :: removed_paths
  ds_active :: removed_paths

definition note_removed :: "scope_root list \<Rightarrow> skill_tree \<Rightarrow> diff_state \<Rightarrow> path \<times> fingerprint \<Rightarrow> diff_state" where
  "note_removed index current st entry =
     (case entry of (p, old) \<Rightarrow>
        if map_of current p \<noteq> None then st
        else if is_pending_file p then st\<lparr>ds_pending := ds_pending st @ [(fp_content_hash old, p)]\<rparr>
        else if is_active_skill_file p then st\<lparr>ds_active := ds_active st @ [(fp_content_hash old, p)]\<rparr>
        else st\<lparr>ds_changes := ds_changes st @ emit_change index p Deleted Direct (fp_content_hash old)\<rparr>)"

definition take_if :: "bool \<Rightarrow> removed_paths \<Rightarrow> string \<Rightarrow> path \<Rightarrow> (path \<times> removed_paths) option" where
  "take_if applies removed content_hash target =
     (if applies then take_removed_path_for_directory removed content_hash target else None)"

definition note_current :: "scope_root list \<Rightarrow> skill_tree \<Rightarrow> diff_state \<Rightarrow> path \<times> fingerprint \<Rightarrow> diff_state" where
  "note_current index previous st entry =
     (case entry of (p, new) \<Rightarrow>
        let h = fp_content_hash new;
            source = (if is_pending_file p then PendingApproval else Direct);
            emit = (\<lambda>kind source st. st\<lparr>ds_changes := ds_changes st @ emit_change index p kind source h\<rparr>)
        in case map_of previous p of
             Some old \<Rightarrow> if fp_content_hash old \<noteq> h then emit Modified source st else st
           | None \<Rightarrow>
               (case take_if (is_active_skill_file p) (ds_pending st) h p of
                  Some (_, pending) \<Rightarrow> emit ApprovedRename PendingApproval (st\<lparr>ds_pending := pending\<rparr>)
                | None \<Rightarrow>
                    (case take_if (is_rejected_file p) (ds_pending st) h p of
                       Some (_, pending) \<Rightarrow> emit RejectedRename PendingApproval (st\<lparr>ds_pending := pending\<rparr>)
                     | None \<Rightarrow>
                         (case take_if (is_retired_file p) (ds_active st) h p of
                            Some (_, active) \<Rightarrow> emit RetiredRename Direct (st\<lparr>ds_active := active\<rparr>)
                          | None \<Rightarrow> emit Created source st))))"

definition remaining_deletions ::
  "(string list \<Rightarrow> string list) \<Rightarrow> scope_root list \<Rightarrow> file_change_source \<Rightarrow> removed_paths \<Rightarrow> skill_file_change list" where
  "remaining_deletions order index source removed =
     concat (map (\<lambda>h. concat (map (\<lambda>(g, p). if g = h then emit_change index p Deleted source h else []) removed))
       (order (remdups (map fst removed))))"

definition key_le :: "skill_file_change \<Rightarrow> skill_file_change \<Rightarrow> bool" where
  "key_le a b \<longleftrightarrow> ch_idempotency_key a \<le> ch_idempotency_key b"

definition diff_skill_snapshots ::
  "map_orders \<Rightarrow> scope_root list \<Rightarrow> skill_tree \<Rightarrow> skill_tree \<Rightarrow> skill_file_change list" where
  "diff_skill_snapshots orders scopes previous current =
     (let index = od_roots orders (last_by_root scopes);
          st = foldl (note_removed index current) \<lparr>ds_changes = [], ds_pending = [], ds_active = []\<rparr> previous;
          st = foldl (note_current index previous) st current
      in sort_by key_le
           (ds_changes st @ remaining_deletions (od_hashes orders) index PendingApproval (ds_pending st) @
            remaining_deletions (od_hashes orders) index Direct (ds_active st)))"

section \<open>The watcher\<close>

record skill_watcher =
  sw_scopes :: "scope_root list"
  sw_previous :: skill_tree
  sw_current :: skill_tree

record watch_env =
  wv_exists :: "path \<Rightarrow> bool"
  wv_read_dir :: "path \<Rightarrow> (string, (string, path \<times> bool) result list) result"
  wv_watch :: "path \<Rightarrow> bool \<Rightarrow> (string, unit) result"

text \<open>The watches set up: each root alone, then each child directory that is not build or version-control noise.\<close>

fun watch_children :: "watch_env \<Rightarrow> (string, path \<times> bool) result list \<Rightarrow> (watcher_error, unit) result" where
  "watch_children env [] = Ok ()"
| "watch_children env (entry # entries) =
     (case entry of
        Err e \<Rightarrow> Err (WatchSetup e)
      | Ok (p, is_dir) \<Rightarrow>
          if \<not> is_dir \<or> (case file_name p of None \<Rightarrow> False | Some n \<Rightarrow> List.member [''.git'', ''target'', ''node_modules''] n)
          then watch_children env entries
          else (case wv_watch env p True of Err e \<Rightarrow> Err (WatchSetup e) | Ok _ \<Rightarrow> watch_children env entries))"

fun watch_scopes :: "watch_env \<Rightarrow> scope_root list \<Rightarrow> (watcher_error, unit) result" where
  "watch_scopes env [] = Ok ()"
| "watch_scopes env (s # ss) =
     (if \<not> wv_exists env (rt_root s) then Err (MissingScopeRoot (path_display (rt_root s)))
      else case wv_watch env (rt_root s) False of
          Err e \<Rightarrow> Err (WatchSetup e)
        | Ok _ \<Rightarrow>
            (case wv_read_dir env (rt_root s) of
               Err e \<Rightarrow> Err (WatchSetup e)
             | Ok children \<Rightarrow> rbind (watch_children env children) (\<lambda>_. watch_scopes env ss)))"

definition skill_watcher_new :: "watch_env \<Rightarrow> (string, unit) result \<Rightarrow> scope_root list \<Rightarrow> (watcher_error, skill_watcher) result" where
  "skill_watcher_new env debouncer scopes =
     (case debouncer of
        Err e \<Rightarrow> Err (WatchSetup e)
      | Ok _ \<Rightarrow> rbind (watch_scopes env scopes) (\<lambda>_. Ok \<lparr>sw_scopes = scopes, sw_previous = [], sw_current = []\<rparr>))"

definition collect_file_changes ::
  "map_orders \<Rightarrow> tree_env \<Rightarrow> skill_watcher \<Rightarrow> (watcher_error, skill_file_change list) result \<times> skill_watcher" where
  "collect_file_changes orders env w =
     (case build_snapshot env (sw_scopes w) of
        Err e \<Rightarrow> (Err e, w)
      | Ok discovered \<Rightarrow> (Ok (diff_skill_snapshots orders (sw_scopes w) (sw_current w) discovered),
          w\<lparr>sw_previous := sw_current w, sw_current := discovered\<rparr>))"

section \<open>Recovery (watcher\_recovery.rs)\<close>

record watcher_recovery =
  wr_last_seen :: "string \<rightharpoonup> nat"
  wr_current_generation :: nat
  wr_max_generation_window :: nat

text \<open>The window is asserted to be positive: \<open>None\<close> is the panic.\<close>

definition with_generation_window :: "nat \<Rightarrow> watcher_recovery option" where
  "with_generation_window window =
     (if window = 0 then None
      else Some \<lparr>wr_last_seen = Map.empty, wr_current_generation = 0, wr_max_generation_window = window\<rparr>)"

definition max_u64 :: nat where "max_u64 = 18446744073709551615"

fun suppress_seen :: "nat \<Rightarrow> skill_file_change list \<Rightarrow> (string \<rightharpoonup> nat) \<Rightarrow> skill_file_change list \<times> (string \<rightharpoonup> nat)" where
  "suppress_seen generation [] seen = ([], seen)"
| "suppress_seen generation (c # cs) seen =
     (let (rest, seen') = suppress_seen generation cs (seen(ch_idempotency_key c \<mapsto> generation))
      in (if seen (ch_idempotency_key c) = None then c # rest else rest, seen'))"

definition evict_stale_generations :: "watcher_recovery \<Rightarrow> watcher_recovery" where
  "evict_stale_generations r =
     (let oldest = wr_current_generation r - (wr_max_generation_window r - 1)
      in r\<lparr>wr_last_seen := (\<lambda>k. case wr_last_seen r k of Some g \<Rightarrow> if oldest \<le> g then Some g else None | None \<Rightarrow> None)\<rparr>)"

definition reconcile_changes ::
  "map_orders \<Rightarrow> skill_tree \<Rightarrow> skill_tree \<Rightarrow> scope_root list \<Rightarrow> watcher_recovery \<Rightarrow> skill_file_change list \<times> watcher_recovery" where
  "reconcile_changes orders previous current scopes r =
     (let generation = min max_u64 (wr_current_generation r + 1);
          (reconciled, seen) = suppress_seen generation (diff_skill_snapshots orders scopes previous current) (wr_last_seen r)
      in (reconciled, evict_stale_generations (r\<lparr>wr_last_seen := seen, wr_current_generation := generation\<rparr>)))"

section \<open>What a difference reports\<close>

lemma take_removed_Some:
  "take_removed_path_for_directory removed h t = Some (q, rest) \<Longrightarrow>
   (h, q) \<in> set removed \<and> same_skill_directory q t \<and> set removed = insert (h, q) (set rest)"
proof (induction removed h t arbitrary: rest rule: take_removed_path_for_directory.induct)
  case (2 g p removed h t)
  then show ?case by (cases "g = h \<and> same_skill_directory p t") auto
qed simp

definition differs :: "skill_tree \<Rightarrow> skill_tree \<Rightarrow> path \<Rightarrow> bool" where
  "differs previous current p \<longleftrightarrow>
     map_option fp_content_hash (map_of previous p) \<noteq> map_option fp_content_hash (map_of current p)"

text \<open>A change reports a difference of its own path, with the new hash, or the old one of a deleted file.\<close>

definition sound_change :: "skill_tree \<Rightarrow> skill_tree \<Rightarrow> skill_file_change \<Rightarrow> bool" where
  "sound_change previous current c \<longleftrightarrow> differs previous current (ch_file_path c) \<and>
     Some (ch_content_hash c) = map_option fp_content_hash
       (case map_of current (ch_file_path c) of None \<Rightarrow> map_of previous (ch_file_path c) | Some new \<Rightarrow> Some new)"

definition sound_removed :: "skill_tree \<Rightarrow> skill_tree \<Rightarrow> removed_paths \<Rightarrow> bool" where
  "sound_removed previous current removed \<longleftrightarrow>
     (\<forall>(h, p) \<in> set removed. map_of current p = None \<and> map_option fp_content_hash (map_of previous p) = Some h)"

definition sound_state :: "skill_tree \<Rightarrow> skill_tree \<Rightarrow> diff_state \<Rightarrow> bool" where
  "sound_state previous current st \<longleftrightarrow> list_all (sound_change previous current) (ds_changes st) \<and>
     sound_removed previous current (ds_pending st) \<and> sound_removed previous current (ds_active st)"

lemma emit_change_facts:
  "c \<in> set (emit_change index p kind source h) \<Longrightarrow> ch_file_path c = p \<and> ch_content_hash c = h \<and> ch_kind c = kind"
  by (auto simp: emit_change_def build_change_def split: option.split_asm)

lemma emit_change_sound:
  assumes "differs previous current p"
    and "Some h = map_option fp_content_hash (case map_of current p of None \<Rightarrow> map_of previous p | Some new \<Rightarrow> Some new)"
  shows "list_all (sound_change previous current) (emit_change index p kind source h)"
  using assms emit_change_facts by (fastforce simp: list_all_iff sound_change_def)

lemma note_removed_sound:
  assumes "sound_state previous current st" and "map_of previous p = Some old"
  shows "sound_state previous current (note_removed index current st (p, old))"
  using assms emit_change_sound [of previous current p "fp_content_hash old"]
  by (auto simp: note_removed_def sound_state_def sound_removed_def differs_def)

lemma take_if_sound:
  assumes "take_if b removed h t = Some (q, rest)" and "sound_removed previous current removed"
  shows "sound_removed previous current rest"
  using assms take_removed_Some [of removed h t q rest] by (auto simp: take_if_def sound_removed_def split: if_splits)

lemma note_current_sound:
  assumes st: "sound_state previous current st" and new: "map_of current p = Some new"
  shows "sound_state previous current (note_current index previous st (p, new))"
proof (cases "map_of previous p")
  case None
  then have e: "list_all (sound_change previous current) (emit_change index p kind source (fp_content_hash new))" for kind source
    using new by (intro emit_change_sound) (simp_all add: differs_def)
  note [simp] = Let_def sound_state_def None note_current_def
  show ?thesis
  proof (cases "take_if (is_active_skill_file p) (ds_pending st) (fp_content_hash new) p")
    case t1: None
    show ?thesis
    proof (cases "take_if (is_rejected_file p) (ds_pending st) (fp_content_hash new) p")
      case t2: None
      show ?thesis
      proof (cases "take_if (is_retired_file p) (ds_active st) (fp_content_hash new) p")
        case t3: None
        with t1 t2 st e show ?thesis by simp
      next
        case (Some qr)
        obtain q r where qr: "qr = (q, r)" by (cases qr)
        with Some take_if_sound [of "is_retired_file p" "ds_active st"] st have "sound_removed previous current r" by auto
        with Some qr t1 t2 st e show ?thesis by simp
      qed
    next
      case (Some qr)
      obtain q r where qr: "qr = (q, r)" by (cases qr)
      with Some take_if_sound [of "is_rejected_file p" "ds_pending st"] st have "sound_removed previous current r" by auto
      with Some qr t1 st e show ?thesis by simp
    qed
  next
    case (Some qr)
    obtain q r where qr: "qr = (q, r)" by (cases qr)
    with Some take_if_sound [of "is_active_skill_file p" "ds_pending st"] st have "sound_removed previous current r" by auto
    with Some qr st e show ?thesis by simp
  qed
next
  case (Some old)
  show ?thesis
  proof (cases "fp_content_hash old = fp_content_hash new")
    case True
    with Some st show ?thesis by (simp add: note_current_def Let_def)
  next
    case False
    then have "list_all (sound_change previous current) (emit_change index p kind source (fp_content_hash new))" for kind source
      using new Some by (intro emit_change_sound) (simp_all add: differs_def)
    with False Some st show ?thesis by (simp add: note_current_def Let_def sound_state_def)
  qed
qed

lemma foldl_keeps:
  assumes "\<And>st x. P st \<Longrightarrow> x \<in> set xs \<Longrightarrow> P (f st x)" and "P st"
  shows "P (foldl f st xs)"
  using assms by (induction xs arbitrary: st) auto

lemma remaining_facts:
  assumes "\<And>hs. set (order hs) = set hs"
  shows "set (remaining_deletions order index source removed) = (\<Union>(h, p) \<in> set removed. set (emit_change index p Deleted source h))"
proof -
  have "set (remaining_deletions order index source removed) =
      (\<Union>h \<in> fst ` set removed. \<Union>gp \<in> set removed. if fst gp = h then set (emit_change index (snd gp) Deleted source h) else {})"
    by (simp add: remaining_deletions_def assms case_prod_unfold if_distrib)
  also have "\<dots> = (\<Union>gp \<in> set removed. set (emit_change index (snd gp) Deleted source (fst gp)))"
    by auto
  finally show ?thesis by (simp add: case_prod_unfold)
qed

definition fair_orders :: "map_orders \<Rightarrow> bool" where
  "fair_orders orders \<longleftrightarrow> (\<forall>xs. set (od_roots orders xs) = set xs) \<and> (\<forall>hs. set (od_hashes orders hs) = set hs)"

text \<open>The state after both passes over the snapshots.\<close>

definition diff_state_of :: "map_orders \<Rightarrow> scope_root list \<Rightarrow> skill_tree \<Rightarrow> skill_tree \<Rightarrow> diff_state" where
  "diff_state_of orders scopes previous current =
     (let index = od_roots orders (last_by_root scopes) in
      foldl (note_current index previous)
        (foldl (note_removed index current) \<lparr>ds_changes = [], ds_pending = [], ds_active = []\<rparr> previous) current)"

lemma diff_set:
  assumes "fair_orders orders"
  shows "set (diff_skill_snapshots orders scopes previous current) =
    (let st = diff_state_of orders scopes previous current; index = od_roots orders (last_by_root scopes) in
     set (ds_changes st) \<union> (\<Union>(h, p) \<in> set (ds_pending st). set (emit_change index p Deleted PendingApproval h)) \<union>
     (\<Union>(h, p) \<in> set (ds_active st). set (emit_change index p Deleted Direct h)))"
  using assms by (simp add: diff_skill_snapshots_def diff_state_of_def Let_def fair_orders_def remaining_facts Un_assoc)

lemma diff_state_sound:
  assumes "distinct (map fst previous)" and "distinct (map fst current)"
  shows "sound_state previous current (diff_state_of orders scopes previous current)"
  unfolding diff_state_of_def Let_def
proof (rule foldl_keeps)
  show "sound_state previous current (foldl (note_removed index current) \<lparr>ds_changes = [], ds_pending = [], ds_active = []\<rparr> previous)" for index
  proof (rule foldl_keeps)
    fix st x
    assume "sound_state previous current st" "x \<in> set previous"
    then show "sound_state previous current (note_removed index current st x)"
      using note_removed_sound assms(1) by (cases x) auto
  qed (simp add: sound_state_def sound_removed_def)
next
  fix st x
  assume "sound_state previous current st" "x \<in> set current"
  then show "sound_state previous current (note_current index previous st x)" for index
    using note_current_sound assms(2) by (cases x) auto
qed

lemma diff_sound:
  assumes orders: "fair_orders orders" and keys: "distinct (map fst previous)" "distinct (map fst current)"
    and c: "c \<in> set (diff_skill_snapshots orders scopes previous current)"
  shows "sound_change previous current c"
proof -
  let ?st = "diff_state_of orders scopes previous current"
  have st: "sound_state previous current ?st" by (rule diff_state_sound [OF keys])
  from c consider "c \<in> set (ds_changes ?st)"
    | h p src where "(h, p) \<in> set (ds_pending ?st) \<union> set (ds_active ?st)"
        "c \<in> set (emit_change (od_roots orders (last_by_root scopes)) p Deleted src h)"
    unfolding diff_set [OF orders] Let_def by blast
  then show ?thesis
  proof cases
    case 1
    with st show ?thesis by (simp add: sound_state_def list_all_iff)
  next
    case 2
    then have "map_of current p = None \<and> map_option fp_content_hash (map_of previous p) = Some h"
      using st by (auto simp: sound_state_def sound_removed_def)
    with emit_change_facts [OF 2(2)] show ?thesis by (auto simp: sound_change_def differs_def)
  qed
qed

lemma diff_same:
  assumes "fair_orders orders" and "distinct (map fst tree)"
  shows "diff_skill_snapshots orders scopes tree tree = []"
proof -
  have "\<not> sound_change tree tree c" for c by (simp add: sound_change_def differs_def)
  with diff_sound [OF assms(1) assms(2) assms(2)] show ?thesis
    using list.set_intros(1) by (metis list.exhaust)
qed

section \<open>No change is lost\<close>

text \<open>
  A removed file is accounted for by a change of its own, by a rename within its directory that kept its content,
  or by an entry still to be reported.
\<close>

definition renames :: "skill_file_change \<Rightarrow> path \<Rightarrow> string \<Rightarrow> bool" where
  "renames c p h \<longleftrightarrow> ch_kind c \<in> {ApprovedRename, RejectedRename, RetiredRename} \<and>
     same_skill_directory p (ch_file_path c) \<and> ch_content_hash c = h"

definition reported :: "skill_file_change list \<Rightarrow> path \<Rightarrow> string \<Rightarrow> bool" where
  "reported cs p h \<longleftrightarrow> (\<exists>c \<in> set cs. ch_file_path c = p \<or> renames c p h)"

definition accounted :: "diff_state \<Rightarrow> path \<Rightarrow> string \<Rightarrow> bool" where
  "accounted st p h \<longleftrightarrow> reported (ds_changes st) p h \<or> (h, p) \<in> set (ds_pending st) \<or> (h, p) \<in> set (ds_active st)"

definition covered :: "scope_root list \<Rightarrow> path \<Rightarrow> bool" where
  "covered scopes p \<longleftrightarrow> (\<exists>s \<in> set scopes. strict_prefix (rt_root s) p)"

lemma last_by_root_roots: "rt_root ` set (last_by_root scopes) = rt_root ` set scopes"
  by (induction scopes) auto

lemma covered_scope:
  assumes "fair_orders orders" and "covered scopes p" and "same_skill_directory p q"
  shows "scope_for_path (od_roots orders (last_by_root scopes)) q \<noteq> None"
proof -
  obtain s where s: "s \<in> set scopes" "strict_prefix (rt_root s) p" using assms(2) by (auto simp: covered_def)
  then obtain t where t: "t \<in> set (last_by_root scopes)" "rt_root t = rt_root s"
    using last_by_root_roots [of scopes] by (metis (no_types, lifting) image_iff)
  have "prefix (rt_root t) q"
  proof (cases "p = [''/'']")
    case True
    then have "rt_root t = []" using s(2) t(2) by (auto simp: strict_prefix_def prefix_Cons)
    then show ?thesis by simp
  next
    case False
    have "p \<noteq> []" using s(2) by (auto simp: strict_prefix_def)
    with False assms(3) have "q \<noteq> []" "butlast q = butlast p"
      by (auto simp: same_skill_directory_def path_parent_def split: if_splits)
    moreover have "prefix (rt_root s) (butlast p)"
      using s(2) \<open>p \<noteq> []\<close> by (metis append_butlast_last_id prefix_order.dual_order.strict_iff_not prefix_snoc)
    ultimately show ?thesis using t(2) by (metis append_butlast_last_id prefix_append)
  qed
  with t(1) assms(1) have "find (\<lambda>s. prefix (rt_root s) q) (od_roots orders (last_by_root scopes)) \<noteq> None"
    by (auto simp: find_None_iff fair_orders_def)
  then show ?thesis by (simp add: scope_for_path_def)
qed

lemma note_removed_accounts:
  assumes "map_of current p = None" and "scope_for_path index p \<noteq> None"
  shows "accounted (note_removed index current st (p, old)) p (fp_content_hash old)"
  using assms
  by (auto simp: note_removed_def accounted_def reported_def emit_change_def build_change_def)

lemma note_removed_grows: "accounted st p h \<Longrightarrow> accounted (note_removed index current st x) p h"
  by (cases x) (auto simp: note_removed_def accounted_def reported_def)

lemma take_if_keeps:
  assumes "take_if b removed g t = Some (q, rest)" and "(h, p) \<in> set removed"
  shows "(h, p) \<in> set rest \<or> (h = g \<and> same_skill_directory p t)"
  using assms take_removed_Some [of removed g t q rest] by (auto simp: take_if_def split: if_splits)

lemma emit_rename:
  assumes "scope_for_path index q \<noteq> None" and "kind \<in> {ApprovedRename, RejectedRename, RetiredRename}"
    and "same_skill_directory p q"
  shows "reported (cs @ emit_change index q kind source h) p h"
  using assms by (auto simp: reported_def emit_change_def build_change_def renames_def)

lemma reported_append: "reported cs p h \<Longrightarrow> reported (cs @ ds) p h"
  by (auto simp: reported_def)

lemma note_current_grows:
  assumes acc: "accounted st p h" and scoped: "\<And>q. same_skill_directory p q \<Longrightarrow> scope_for_path index q \<noteq> None"
  shows "accounted (note_current index previous st (q, new)) p h"
proof (cases "reported (ds_changes st) p h")
  case True
  then show ?thesis
    by (auto simp: accounted_def note_current_def Let_def reported_append split: option.split prod.split)
next
  case False
  let ?g = "fp_content_hash new"
  have inl: "(h, p) \<in> set (ds_pending st) \<or> (h, p) \<in> set (ds_active st)" using acc False by (simp add: accounted_def)
  have lost: "reported (ds_changes st @ emit_change index q kind source ?g) p h"
    if "h = ?g \<and> same_skill_directory p q" "kind \<in> {ApprovedRename, RejectedRename, RetiredRename}" for kind source
  proof -
    have "scope_for_path index q \<noteq> None" using that scoped by blast
    from emit_rename [OF this that(2)] that(1) show ?thesis by blast
  qed
  note [simp] = note_current_def Let_def accounted_def
  show ?thesis
  proof (cases "map_of previous q")
    case None
    note prev = None
    show ?thesis
    proof (cases "take_if (is_active_skill_file q) (ds_pending st) ?g q")
      case t1: None
      show ?thesis
      proof (cases "take_if (is_rejected_file q) (ds_pending st) ?g q")
        case t2: None
        show ?thesis
        proof (cases "take_if (is_retired_file q) (ds_active st) ?g q")
          case t3: None
          with prev t1 t2 inl show ?thesis by simp
        next
          case (Some xr)
          obtain x r where "xr = (x, r)" by (cases xr)
          with prev t1 t2 Some inl lost [of RetiredRename Direct] take_if_keeps [of "is_retired_file q" "ds_active st" ?g q x r h p]
          show ?thesis by auto
        qed
      next
        case (Some xr)
        obtain x r where "xr = (x, r)" by (cases xr)
        with prev t1 Some inl lost [of RejectedRename PendingApproval] take_if_keeps [of "is_rejected_file q" "ds_pending st" ?g q x r h p]
        show ?thesis by auto
      qed
    next
      case (Some xr)
      obtain x r where "xr = (x, r)" by (cases xr)
      with prev Some inl lost [of ApprovedRename PendingApproval] take_if_keeps [of "is_active_skill_file q" "ds_pending st" ?g q x r h p]
      show ?thesis by auto
    qed
  next
    case (Some old)
    with inl show ?thesis by simp
  qed
qed

lemma note_current_changes: "set (ds_changes st) \<subseteq> set (ds_changes (note_current index previous st x))"
  by (cases x) (auto simp: note_current_def Let_def split: option.split prod.split)

lemma note_current_reports:
  assumes "scope_for_path index p \<noteq> None"
    and "map_option fp_content_hash (map_of previous p) \<noteq> Some (fp_content_hash new)"
  shows "p \<in> ch_file_path ` set (ds_changes (note_current index previous st (p, new)))"
  using assms
  by (auto simp: note_current_def Let_def emit_change_def build_change_def image_Un split: option.split prod.split)

lemma foldl_reaches:
  assumes "x \<in> set xs" and "\<And>st. P (f st x)" and "\<And>st y. P st \<Longrightarrow> P (f st y)"
  shows "P (foldl f st xs)"
proof -
  have step: "P st \<Longrightarrow> P (foldl f st ys)" for st ys using assms(3) by (induction ys arbitrary: st) auto
  obtain ys zs where "xs = ys @ x # zs" using assms(1) by (meson split_list)
  then show ?thesis using step assms(2) by simp
qed

text \<open>C9: the difference of two snapshots reports exactly what happened: every change names a file whose content differs, with its new hash (or the old one when it is gone), and every covered file that differs is reported itself or was renamed within its directory with its content kept.\<close>

theorem diff_exact:
  assumes orders: "fair_orders orders" and keys: "distinct (map fst previous)" "distinct (map fst current)"
  shows "list_all (sound_change previous current) (diff_skill_snapshots orders scopes previous current) \<and>
    (covered scopes p \<and> differs previous current p \<longrightarrow>
       (\<exists>c. c \<in> set (diff_skill_snapshots orders scopes previous current) \<and> (ch_file_path c = p \<or> (map_of current p = None \<and>
          (\<exists>old. map_of previous p = Some old \<and> renames c p (fp_content_hash old))))))"
proof (intro conjI impI)
  show "list_all (sound_change previous current) (diff_skill_snapshots orders scopes previous current)"
    using diff_sound [OF orders keys] by (auto simp: list_all_iff)
next
  let ?changes = "diff_skill_snapshots orders scopes previous current"
  assume p: "covered scopes p \<and> differs previous current p"
  define index where "index = od_roots orders (last_by_root scopes)"
  define st1 where "st1 = foldl (note_removed index current) \<lparr>ds_changes = [], ds_pending = [], ds_active = []\<rparr> previous"
  define st where "st = foldl (note_current index previous) st1 current"
  have st: "diff_state_of orders scopes previous current = st"
    by (simp add: st_def st1_def index_def diff_state_of_def Let_def)
  note changes = diff_set [OF orders, of scopes previous current, unfolded Let_def st index_def [symmetric]]
  have scoped: "scope_for_path index q \<noteq> None" if "same_skill_directory p q" for q
    using covered_scope [OF orders _ that, of scopes] p by (simp add: index_def)
  then have scope: "scope_for_path index p \<noteq> None" by (simp add: same_skill_directory_def)
  show "\<exists>c. c \<in> set ?changes \<and> (ch_file_path c = p \<or> (map_of current p = None \<and>
      (\<exists>old. map_of previous p = Some old \<and> renames c p (fp_content_hash old))))"
  proof (cases "map_of current p")
    case (Some new)
    have "p \<in> ch_file_path ` set (ds_changes st)"
      unfolding st_def
    proof (rule foldl_reaches [where x = "(p, new)"])
      show "(p, new) \<in> set current" using Some by (rule map_of_SomeD)
      show "p \<in> ch_file_path ` set (ds_changes (note_current index previous st' (p, new)))" for st'
        using p Some by (intro note_current_reports scope) (simp add: differs_def)
      show "p \<in> ch_file_path ` set (ds_changes (note_current index previous st' y))"
        if "p \<in> ch_file_path ` set (ds_changes st')" for st' y
        using that note_current_changes [of st' index previous y] by blast
    qed
    then show ?thesis unfolding changes by blast
  next
    case None
    then obtain old where old: "map_of previous p = Some old" using p by (auto simp: differs_def)
    have "accounted st1 p (fp_content_hash old)"
      unfolding st1_def
    proof (rule foldl_reaches [where x = "(p, old)"])
      show "(p, old) \<in> set previous" using old by (rule map_of_SomeD)
    qed (use None scope note_removed_accounts note_removed_grows in auto)
    then have "accounted st p (fp_content_hash old)"
      unfolding st_def
    proof (rule foldl_keeps [where P = "\<lambda>st. accounted st p (fp_content_hash old)", rotated])
      show "accounted (note_current index previous st' x) p (fp_content_hash old)"
        if "accounted st' p (fp_content_hash old)" for st' x
        using note_current_grows [OF that scoped, of previous "fst x" "snd x"] by simp
    qed
    then consider c where "c \<in> set (ds_changes st)" "ch_file_path c = p \<or> renames c p (fp_content_hash old)"
      | src where "set (emit_change index p Deleted src (fp_content_hash old)) \<subseteq> set ?changes"
      unfolding accounted_def reported_def changes by blast
    then show ?thesis
    proof cases
      case 1
      then show ?thesis using None old unfolding changes by blast
    next
      case 2
      obtain scope' where "scope_for_path index p = Some scope'" using scope by auto
      with 2 show ?thesis by (intro exI [of _ "build_change scope' p Deleted src (fp_content_hash old)"])
        (auto simp: emit_change_def build_change_def)
    qed
  qed
qed

section \<open>Recovery reports a key once\<close>

lemma suppress_seen_exact:
  "suppress_seen g cs seen = (rs, seen') \<Longrightarrow>
   distinct (map ch_idempotency_key rs) \<and> set rs \<subseteq> set cs \<and>
   ch_idempotency_key ` set rs = ch_idempotency_key ` set cs - dom seen \<and>
   seen' = (\<lambda>k. if k \<in> ch_idempotency_key ` set cs then Some g else seen k)"
proof (induction g cs seen arbitrary: rs seen' rule: suppress_seen.induct)
  case (2 g c cs seen)
  obtain rest s where r: "suppress_seen g cs (seen(ch_idempotency_key c \<mapsto> g)) = (rest, s)" by fastforce
  from 2(1) [OF r] have IH: "distinct (map ch_idempotency_key rest)" "set rest \<subseteq> set cs"
    "ch_idempotency_key ` set rest = ch_idempotency_key ` set cs - insert (ch_idempotency_key c) (dom seen)"
    "s = (\<lambda>k. if k \<in> ch_idempotency_key ` set cs then Some g else (seen(ch_idempotency_key c \<mapsto> g)) k)"
    by (simp_all only: dom_fun_upd option.distinct if_False)
  show ?case
  proof (cases "seen (ch_idempotency_key c)")
    case None
    then have rs: "rs = c # rest" "seen' = s" using 2(2) r by auto
    have "ch_idempotency_key c \<notin> ch_idempotency_key ` set rest" using IH(3) by auto
    with rs IH None show ?thesis by (auto simp: fun_eq_iff)
  next
    case (Some g0)
    then have rs: "rs = rest" "seen' = s" using 2(2) r by auto
    from Some have "ch_idempotency_key c \<in> dom seen" by blast
    with rs IH show ?thesis by (auto simp: fun_eq_iff insert_absorb)
  qed
qed auto

text \<open>recovery reports each change key once: what a reconciliation returns are the differences whose key is not remembered, no key twice; afterwards every key of the difference is remembered, and no key older than the window.\<close>

theorem recovery_reports_once:
  assumes "reconcile_changes orders previous current scopes r = (reconciled, r')"
    and "wr_max_generation_window r > 0"
  shows "distinct (map ch_idempotency_key reconciled) \<and>
    set (map ch_idempotency_key reconciled) =
      set (map ch_idempotency_key (diff_skill_snapshots orders scopes previous current)) - dom (wr_last_seen r) \<and>
    set (map ch_idempotency_key (diff_skill_snapshots orders scopes previous current)) \<subseteq> dom (wr_last_seen r') \<and>
    (\<exists>oldest. oldest = wr_current_generation r' - (wr_max_generation_window r' - 1) \<and>
       ran (wr_last_seen r') \<subseteq> {oldest..})"
proof -
  let ?d = "diff_skill_snapshots orders scopes previous current" and ?g = "min max_u64 (wr_current_generation r + 1)"
  obtain rs seen where s: "suppress_seen ?g ?d (wr_last_seen r) = (rs, seen)" by fastforce
  then have r: "reconciled = rs" "r' = evict_stale_generations (r\<lparr>wr_last_seen := seen, wr_current_generation := ?g\<rparr>)"
    using assms(1) by (simp_all add: reconcile_changes_def Let_def)
  from suppress_seen_exact [OF s] r assms(2) show ?thesis
    by (auto simp: evict_stale_generations_def Let_def ran_def dom_def image_iff split: option.splits if_splits)
qed

section \<open>A run\<close>

definition sample_orders :: map_orders where "sample_orders = \<lparr>od_roots = id, od_hashes = id\<rparr>"

definition sample_scope_roots :: "scope_root list" where
  "sample_scope_roots = [\<lparr>rt_scope_id = ''project'', rt_scope_type = Project, rt_root = [''/'', ''r'']\<rparr>]"

definition sample_tree :: "string \<Rightarrow> skill_tree" where
  "sample_tree name = [([''/'', ''r'', ''a'', name], \<lparr>fp_content_hash = ''h'', fp_modified_nanos = 0\<rparr>)]"

lemma sample_fair: "fair_orders sample_orders"
  by (simp add: fair_orders_def sample_orders_def)

lemma sample_rename:
  "map ch_kind (diff_skill_snapshots sample_orders sample_scope_roots (sample_tree pending_skill_file) (sample_tree active_skill_file)) = [ApprovedRename]"
  by code_simp

theorem diff_exact_witness:
  "\<exists>c. c \<in> set (diff_skill_snapshots sample_orders sample_scope_roots (sample_tree pending_skill_file) (sample_tree active_skill_file)) \<and>
     ch_kind c = ApprovedRename"
proof -
  let ?p = "[''/'', ''r'', ''a'', pending_skill_file]"
  have "covered sample_scope_roots ?p \<and> differs (sample_tree pending_skill_file) (sample_tree active_skill_file) ?p"
    by (simp add: covered_def sample_scope_roots_def differs_def sample_tree_def pending_skill_file_def active_skill_file_def)
  with diff_exact [OF sample_fair, of "sample_tree pending_skill_file" "sample_tree active_skill_file" sample_scope_roots ?p]
  obtain c where c: "c \<in> set (diff_skill_snapshots sample_orders sample_scope_roots (sample_tree pending_skill_file) (sample_tree active_skill_file))"
    by (auto simp: sample_tree_def)
  then have "ch_kind c \<in> set (map ch_kind (diff_skill_snapshots sample_orders sample_scope_roots (sample_tree pending_skill_file) (sample_tree active_skill_file)))"
    by simp
  with c show ?thesis unfolding sample_rename by auto
qed

theorem recovery_reports_once_witness:
  "\<exists>r'. reconcile_changes sample_orders [] (sample_tree active_skill_file) sample_scope_roots
       \<lparr>wr_last_seen = Map.empty, wr_current_generation = 0, wr_max_generation_window = 64\<rparr> = r' \<and>
     distinct (map ch_idempotency_key (fst r'))"
  using recovery_reports_once [of sample_orders "[]" "sample_tree active_skill_file" sample_scope_roots
      "\<lparr>wr_last_seen = Map.empty, wr_current_generation = 0, wr_max_generation_window = 64\<rparr>", OF surjective_pairing] by simp

end
