(* ===== verification/Graph_Build.thy ===== *)
theory Graph_Build
  imports Skill_Watcher
begin

text \<open>
  The build of the skill graph's skills (\<open>graph-builder/src/graph/build.rs\<close>): the active skill files of the scope
  roots are read and extracted, their summaries embedded in one batch, and the skills ordered by identifier.  The
  files are those of the shared disk; the walk, the path hash, the YAML reader, the fallback provider and the
  embedder are parameters.
\<close>

section \<open>Skills\<close>

record built_skill =
  bk_id :: string
  bk_scope_id :: string
  bk_scope_type :: scope_type
  bk_source_path :: path
  bk_name :: string
  bk_description :: string
  bk_tags :: "string list"
  bk_subunits :: "extracted_subunit list"
  bk_embedding :: "f32 list"

datatype graph_build_error = GbReadFailure string string | GbEmbedding string

fun graph_build_error_str :: "graph_build_error \<Rightarrow> string" where
  "graph_build_error_str (GbReadFailure p m) = ''cannot read skill file '' @ ticked p @ '': '' @ m"
| "graph_build_error_str (GbEmbedding m) = ''embedding failed: '' @ m"

record build_env =
  be_walk :: "disk \<Rightarrow> walker"
  be_read_error :: "path \<Rightarrow> string"
  be_path_hash :: "string \<Rightarrow> string"
  be_yaml :: "string \<Rightarrow> (string, skill_frontmatter) result"
  be_provider :: "string \<Rightarrow> (string, extracted_skill_candidate list) result"
  be_embed_batch :: "string list \<Rightarrow> (embedding_error, f32 list list) result"

definition retired_marker_path :: "path \<Rightarrow> path" where
  "retired_marker_path p = butlast p @ [''SKILL.md.retired'']"

definition has_retired_marker :: "disk \<Rightarrow> path \<Rightarrow> bool" where
  "has_retired_marker d p = path_exists (retired_marker_path p) d"

definition embedding_text :: "skill_extraction \<Rightarrow> string" where
  "embedding_text x = xk_skill_name x @ '' '' @ xk_description x @ '' '' @ join '' '' (xk_tags x)"

definition built_from :: "build_env \<Rightarrow> scope_root \<Rightarrow> path \<Rightarrow> skill_extraction \<Rightarrow> built_skill" where
  "built_from env scope p x =
     \<lparr>bk_id = be_path_hash env (path_display p), bk_scope_id = rt_scope_id scope, bk_scope_type = rt_scope_type scope,
      bk_source_path = p, bk_name = xk_skill_name x, bk_description = xk_description x, bk_tags = xk_tags x,
      bk_subunits = xk_subunits x, bk_embedding = []\<rparr>"

section \<open>Collecting\<close>

fun collect_skills ::
  "build_env \<Rightarrow> disk \<Rightarrow> scope_root \<Rightarrow> (string, walk_entry) result list \<Rightarrow> (graph_build_error, (built_skill \<times> string) list) result" where
  "collect_skills env d scope [] = Ok []"
| "collect_skills env d scope (entry # entries) =
     (case entry of
        Err e \<Rightarrow> Err (GbReadFailure (path_display (rt_root scope)) e)
      | Ok e \<Rightarrow>
          (let p = wk_path e in
           if \<not> wk_is_file e \<or> \<not> is_active_skill_file p \<or> has_retired_marker d p then collect_skills env d scope entries
           else case dk_files d p of
               None \<Rightarrow> Err (GbReadFailure (path_display p) (be_read_error env p))
             | Some content \<Rightarrow>
                 (let x = extract_skill (be_yaml env) (be_provider env) p content in
                  rbind (collect_skills env d scope entries) (\<lambda>rest. Ok ((built_from env scope p x, embedding_text x) # rest)))))"

fun collect_scopes ::
  "build_env \<Rightarrow> disk \<Rightarrow> scope_root list \<Rightarrow> (graph_build_error, (built_skill \<times> string) list) result" where
  "collect_scopes env d [] = Ok []"
| "collect_scopes env d (s # ss) =
     rbind (collect_skills env d s (be_walk env d is_ignored_walk_dir (rt_root s))) (\<lambda>found.
     rbind (collect_scopes env d ss) (\<lambda>rest. Ok (found @ rest)))"

definition id_le :: "built_skill \<Rightarrow> built_skill \<Rightarrow> bool" where
  "id_le a b \<longleftrightarrow> bk_id a \<le> bk_id b"

definition build_skills_from_scope_roots ::
  "build_env \<Rightarrow> scope_root list \<Rightarrow> disk \<Rightarrow> (graph_build_error, built_skill list) result" where
  "build_skills_from_scope_roots env scope_roots d =
     rbind (collect_scopes env d scope_roots) (\<lambda>found.
       if found = [] then Ok []
       else case be_embed_batch env (map snd found) of
           Err e \<Rightarrow> Err (GbEmbedding (embedding_error_str e))
         | Ok embeddings \<Rightarrow>
             if length embeddings \<noteq> length found
             then Err (GbEmbedding (''embedding count mismatch: expected '' @ nat_str (length found) @ '', got '' @
                    nat_str (length embeddings)))
             else Ok (sort_by id_le (map (\<lambda>((s, _), e). s\<lparr>bk_embedding := e\<rparr>) (zip found embeddings))))"

section \<open>What is built\<close>

interpretation by_id: total_preorder id_le
  by unfold_locales (auto simp: id_le_def)

text \<open>A skill is read when it is an active file without a retired marker beside it.\<close>

definition readable :: "disk \<Rightarrow> walk_entry \<Rightarrow> bool" where
  "readable d e \<longleftrightarrow> wk_is_file e \<and> is_active_skill_file (wk_path e) \<and> \<not> has_retired_marker d (wk_path e)"

definition walked_skills :: "build_env \<Rightarrow> disk \<Rightarrow> scope_root list \<Rightarrow> (scope_root \<times> path) list" where
  "walked_skills env d scope_roots =
     concat (map (\<lambda>s. map (\<lambda>e. (s, wk_path e)) (filter (readable d)
       (List.map_filter (\<lambda>r. case r of Ok e \<Rightarrow> Some e | Err _ \<Rightarrow> None) (be_walk env d is_ignored_walk_dir (rt_root s))))) scope_roots)"

definition extracted_at :: "build_env \<Rightarrow> disk \<Rightarrow> path \<Rightarrow> skill_extraction" where
  "extracted_at env d p = extract_skill (be_yaml env) (be_provider env) p (the (dk_files d p))"

lemma collect_skills_exact:
  "collect_skills env d scope entries = Ok found \<Longrightarrow>
   found = map (\<lambda>e. (built_from env scope (wk_path e) (extracted_at env d (wk_path e)), embedding_text (extracted_at env d (wk_path e))))
     (filter (readable d) (List.map_filter (\<lambda>r. case r of Ok e \<Rightarrow> Some e | Err _ \<Rightarrow> None) entries)) \<and>
   list_all (\<lambda>e. dk_files d (wk_path e) \<noteq> None)
     (filter (readable d) (List.map_filter (\<lambda>r. case r of Ok e \<Rightarrow> Some e | Err _ \<Rightarrow> None) entries))"
proof (induction entries arbitrary: found)
  case (Cons entry entries)
  then obtain e where e: "entry = Ok e" by (cases entry) auto
  show ?case
  proof (cases "readable d e")
    case True
    then obtain content rest where "dk_files d (wk_path e) = Some content" "collect_skills env d scope entries = Ok rest"
      "found = (built_from env scope (wk_path e) (extract_skill (be_yaml env) (be_provider env) (wk_path e) content),
        embedding_text (extract_skill (be_yaml env) (be_provider env) (wk_path e) content)) # rest"
      using Cons.prems e
      by (auto simp: readable_def Let_def rbind_Inr_iff split: option.split_asm)
    with Cons.IH [of rest] True e show ?thesis by (simp add: List.map_filter_def extracted_at_def)
  next
    case False
    with Cons e show ?thesis by (auto simp: readable_def List.map_filter_def Let_def)
  qed
qed (simp add: List.map_filter_def)

lemma collect_scopes_exact:
  "collect_scopes env d scope_roots = Ok found \<Longrightarrow>
   found = map (\<lambda>(s, p). (built_from env s p (extracted_at env d p), embedding_text (extracted_at env d p)))
     (walked_skills env d scope_roots)"
proof (induction scope_roots arbitrary: found)
  case (Cons s ss)
  then obtain f r where f: "collect_skills env d s (be_walk env d is_ignored_walk_dir (rt_root s)) = Ok f"
    and r: "collect_scopes env d ss = Ok r" and found: "found = f @ r"
    by (auto simp: rbind_Inr_iff)
  from collect_skills_exact [OF f] Cons.IH [OF r] found show ?case
    by (simp add: walked_skills_def o_def)
qed (simp add: walked_skills_def)

text \<open>C22: a build that succeeds has, in the order of their identifiers, exactly one skill per active file the walks of the scope roots yield that has no retired marker beside it, extracted from its content and with the vector the embedder gave for its summary.\<close>

theorem build_exact:
  assumes "build_skills_from_scope_roots env scope_roots d = Ok skills" and "walked_skills env d scope_roots \<noteq> []"
  shows "sorted (map bk_id skills) \<and>
    (\<exists>embeddings. be_embed_batch env (map (\<lambda>(s, p). embedding_text (extracted_at env d p)) (walked_skills env d scope_roots)) = Ok embeddings \<and>
       length embeddings = length (walked_skills env d scope_roots) \<and>
       mset skills = mset (map (\<lambda>((s, p), e). (built_from env s p (extracted_at env d p))\<lparr>bk_embedding := e\<rparr>)
         (zip (walked_skills env d scope_roots) embeddings)))"
proof -
  obtain found where f: "collect_scopes env d scope_roots = Ok found"
    using assms(1) by (auto simp: build_skills_from_scope_roots_def rbind_Inr_iff)
  note found = collect_scopes_exact [OF f]
  with assms(2) have ne: "found \<noteq> []" by auto
  have texts: "map snd found = map (\<lambda>(s, p). embedding_text (extracted_at env d p)) (walked_skills env d scope_roots)"
    unfolding found by auto
  obtain embeddings where e: "be_embed_batch env (map snd found) = Ok embeddings" "length embeddings = length found"
    "skills = sort_by id_le (map (\<lambda>((s, _), e). s\<lparr>bk_embedding := e\<rparr>) (zip found embeddings))"
    using assms(1) f ne
    by (auto simp: build_skills_from_scope_roots_def split: sum.split_asm if_splits)
  have "map (\<lambda>((s, _), e). s\<lparr>bk_embedding := e\<rparr>) (zip found embeddings) =
      map (\<lambda>((s, p), e). (built_from env s p (extracted_at env d p))\<lparr>bk_embedding := e\<rparr>) (zip (walked_skills env d scope_roots) embeddings)"
    unfolding found by (simp add: zip_map1 case_prod_unfold o_def)
  with e(3) have "mset skills = mset (map (\<lambda>((s, p), e). (built_from env s p (extracted_at env d p))\<lparr>bk_embedding := e\<rparr>)
      (zip (walked_skills env d scope_roots) embeddings))" by simp
  moreover have "sorted (map bk_id skills)"
  proof -
    have "id_le = (\<lambda>x y. bk_id x \<le> bk_id y)" by (intro ext) (simp add: id_le_def)
    with by_id.sorted_sort_by show ?thesis by (simp only: sorted_map e(3))
  qed
  moreover have "length embeddings = length (walked_skills env d scope_roots)" using e(2) found by simp
  ultimately show ?thesis using e(1) unfolding texts by blast
qed

lemma built_paths:
  assumes "build_skills_from_scope_roots env scope_roots d = Ok skills" and "s \<in> set skills"
  shows "bk_source_path s \<in> snd ` set (walked_skills env d scope_roots) \<and> \<not> has_retired_marker d (bk_source_path s)"
proof -
  obtain found where f: "collect_scopes env d scope_roots = Ok found"
    using assms(1) by (auto simp: build_skills_from_scope_roots_def rbind_Inr_iff)
  have "bk_source_path s \<in> bk_source_path ` fst ` set found"
  proof -
    from assms f obtain embeddings where "s \<in> set (map (\<lambda>((s, _), e). s\<lparr>bk_embedding := e\<rparr>) (zip found embeddings))"
      by (auto simp: build_skills_from_scope_roots_def split: sum.split_asm if_splits)
    then obtain x t e where "((x, t), e) \<in> set (zip found embeddings)" "s = x\<lparr>bk_embedding := e\<rparr>" by auto
    then show ?thesis by (auto dest!: set_zip_leftD intro!: image_eqI [of _ _ "(x, t)"] image_eqI [of _ bk_source_path x])
  qed
  then obtain r p where "(r, p) \<in> set (walked_skills env d scope_roots)" "bk_source_path s = p"
    unfolding collect_scopes_exact [OF f] by (auto simp: built_from_def)
  then show ?thesis by (force simp: walked_skills_def readable_def)
qed

section \<open>A run\<close>

definition sample_build_env :: build_env where
  "sample_build_env = \<lparr>be_walk = (\<lambda>_ _ r. [Ok \<lparr>wk_path = r, wk_is_dir = True, wk_is_file = False\<rparr>,
       Ok \<lparr>wk_path = r @ [''a'', ''SKILL.md''], wk_is_dir = False, wk_is_file = True\<rparr>]),
     be_read_error = (\<lambda>_. []), be_path_hash = id, be_yaml = (\<lambda>_. Err []), be_provider = (\<lambda>_. Err []),
     be_embed_batch = (\<lambda>texts. Ok (map (\<lambda>_. [lit 1]) texts))\<rparr>"

definition sample_corpus :: disk where
  "sample_corpus = \<lparr>dk_files = [[''/'', ''r'', ''a'', ''SKILL.md''] \<mapsto> ''# Deploy''], dk_dirs = {}, dk_ops = 0\<rparr>"

lemma sample_walked:
  "map snd (walked_skills sample_build_env sample_corpus sample_scope_roots) = [[''/'', ''r'', ''a'', ''SKILL.md'']]"
  by (simp add: walked_skills_def sample_build_env_def sample_corpus_def sample_scope_roots_def readable_def List.map_filter_def
      is_active_skill_file_def has_lifecycle_file_name_def file_name_def active_skill_file_def has_retired_marker_def
      retired_marker_path_def path_exists_def)

lemma sample_build: "\<exists>skills. build_skills_from_scope_roots sample_build_env sample_scope_roots sample_corpus = Ok skills \<and> length skills = 1"
  by (simp add: build_skills_from_scope_roots_def sample_build_env_def sample_corpus_def sample_scope_roots_def
      is_active_skill_file_def has_lifecycle_file_name_def file_name_def active_skill_file_def has_retired_marker_def
      retired_marker_path_def path_exists_def Let_def)

theorem build_exact_witness:
  "\<exists>skills. build_skills_from_scope_roots sample_build_env sample_scope_roots sample_corpus = Ok skills \<and> sorted (map bk_id skills) \<and>
     length skills = 1"
proof -
  obtain skills where s: "build_skills_from_scope_roots sample_build_env sample_scope_roots sample_corpus = Ok skills" "length skills = 1"
    using sample_build by blast
  have "walked_skills sample_build_env sample_corpus sample_scope_roots \<noteq> []" using sample_walked by auto
  from build_exact [OF s(1) this] s show ?thesis by blast
qed

end
