(* ===== verification/Maintenance_Runtime.thy ===== *)
theory Maintenance_Runtime
  imports Promote_Pass Session_Extractor Graph_Build
begin

text \<open>
  The maintenance worker (\<open>maintenance/src/cron.rs\<close>, \<open>runtime.rs\<close>, \<open>merge\_verifier.rs\<close>): its configuration,
  the loading of skill snapshots, the merge pass behind the token-overlap filter, the cron tick over the four
  passes, and the loop that ticks and drains the transcript queue.  The passes are an interface: a locale states
  that they keep an order on the world, and it is interpreted on the live passes with "no file is changed".
  Time arithmetic is assumed to stay in the range of the calendar.
\<close>

section \<open>Configuration\<close>

datatype maintenance_runtime_error =
    InvalidConfiguration string
  | CronFailure cron_error
  | LoggingFailure string

fun maintenance_runtime_error_reason :: "maintenance_runtime_error \<Rightarrow> string" where
  "maintenance_runtime_error_reason (InvalidConfiguration _) = ''maintenance_runtime_invalid_configuration''"
| "maintenance_runtime_error_reason (CronFailure e) = cron_error_reason e"
| "maintenance_runtime_error_reason (LoggingFailure _) = ''maintenance_runtime_logging_failed''"

definition parse_positive_seconds :: "string \<Rightarrow> string \<Rightarrow> (maintenance_runtime_error, nat) result" where
  "parse_positive_seconds name raw =
     (case parse_unsigned 64 raw of
        None \<Rightarrow> Err (InvalidConfiguration (name @ '' must be a positive integer, got '' @ ticked raw @ '': '' @ parse_int_error raw))
      | Some parsed \<Rightarrow>
          if parsed = 0 then Err (InvalidConfiguration (name @ '' must be greater than zero'')) else Ok parsed)"

definition parse_boolean_switch :: "string \<Rightarrow> string \<Rightarrow> (maintenance_runtime_error, bool) result" where
  "parse_boolean_switch name raw =
     (let v = ascii_lower (trim raw) in
      if v = ''1'' \<or> v = ''true'' \<or> v = ''yes'' then Ok True
      else if v = ''0'' \<or> v = ''false'' \<or> v = ''no'' then Ok False
      else Err (InvalidConfiguration (name @ '' must be one of [1,true,yes,0,false,no], got '' @ ticked raw)))"

record maintenance_worker_config =
  mw_cron_interval :: nat
  mw_run_once :: bool

definition default_cron_interval_secs :: nat where "default_cron_interval_secs = 60"

definition worker_config_from_environment :: "environment \<Rightarrow> (maintenance_runtime_error, maintenance_worker_config) result" where
  "worker_config_from_environment env =
     rbind (case env ''MAINTENANCE_CRON_INTERVAL_SECS'' of
              Some raw \<Rightarrow> parse_positive_seconds ''MAINTENANCE_CRON_INTERVAL_SECS'' raw
            | None \<Rightarrow> Ok default_cron_interval_secs) (\<lambda>interval_seconds.
     rbind (case env ''MAINTENANCE_RUN_ONCE'' of
              Some raw \<Rightarrow> parse_boolean_switch ''MAINTENANCE_RUN_ONCE'' raw
            | None \<Rightarrow> Ok False) (\<lambda>run_once.
     Ok \<lparr>mw_cron_interval = interval_seconds, mw_run_once = run_once\<rparr>))"

text \<open>The routing of the two verifiers; \<open>init\<close> builds the provider client.\<close>

datatype verifier_choice = OllamaVerifier (ov_endpoint: string) (ov_model: string) | ClaudeVerifier (cl_api_key: string) (cl_base_url: "string option")

definition trim_end_slashes :: "string \<Rightarrow> string" where
  "trim_end_slashes s = rev (dropWhile (\<lambda>c. c = CHR ''/'') (rev s))"

definition required_env :: "environment \<Rightarrow> string \<Rightarrow> (string, string) result" where
  "required_env env name = (case env name of None \<Rightarrow> Err (name @ '' must be set'') | Some v \<Rightarrow> Ok v)"

definition map_err :: "('e \<Rightarrow> 'f) \<Rightarrow> ('e, 'a) result \<Rightarrow> ('f, 'a) result" where
  "map_err f r = (case r of Err e \<Rightarrow> Err (f e) | Ok a \<Rightarrow> Ok a)"

definition route_verifier ::
  "string \<Rightarrow> string \<Rightarrow> string \<Rightarrow> string \<Rightarrow> string \<Rightarrow> environment \<Rightarrow> (verifier_choice \<Rightarrow> (string, 'v) result) \<Rightarrow> (string, 'v) result" where
  "route_verifier provider_env model_env label ollama_name claude_name env init =
     (let provider = ascii_lower (trim (case env provider_env of Some v \<Rightarrow> v | None \<Rightarrow> [])) in
      if provider = [] \<or> provider = ''ollama''
      then rbind (map_err (\<lambda>e. label @ '' (Ollama): '' @ e) (required_env env ''OLLAMA_URL'')) (\<lambda>base_url.
             map_err (\<lambda>e. ollama_name @ '' init failed: '' @ e)
               (init (OllamaVerifier (trim_end_slashes base_url @ ''/api/generate'')
                        (case env model_env of Some m \<Rightarrow> m | None \<Rightarrow> ''gemma4:12b''))))
      else if provider = ''claude''
      then rbind (map_err (\<lambda>e. label @ '' (Claude): '' @ e) (required_env env ''ANTHROPIC_API_KEY'')) (\<lambda>api_key.
             map_err (\<lambda>e. claude_name @ '' init failed: '' @ e)
               (init (ClaudeVerifier api_key
                        (case env ''ANTHROPIC_BASE_URL'' of
                           None \<Rightarrow> None | Some u \<Rightarrow> if trim u = [] then None else Some u))))
      else Err (provider_env @ '' must be one of [ollama, claude], got '' @ ticked provider))"

definition build_merge_verifier :: "environment \<Rightarrow> (verifier_choice \<Rightarrow> (string, 'v) result) \<Rightarrow> (string, 'v) result" where
  "build_merge_verifier =
     route_verifier ''MERGE_VERIFIER_PROVIDER'' ''MERGE_VERIFIER_MODEL'' ''merge verifier'' ''OllamaMergeVerifier'' ''ClaudeMergeVerifier''"

definition build_generality_verifier :: "environment \<Rightarrow> (verifier_choice \<Rightarrow> (string, 'v) result) \<Rightarrow> (string, 'v) result" where
  "build_generality_verifier =
     route_verifier ''GENERALITY_VERIFIER_PROVIDER'' ''GENERALITY_VERIFIER_MODEL'' ''generality verifier''
       ''OllamaGeneralityVerifier'' ''ClaudeGeneralityVerifier''"

definition build_scope_roots :: "environment \<Rightarrow> file_system \<Rightarrow> path option \<Rightarrow> path list" where
  "build_scope_roots env fs cwd =
     (let dir = (\<lambda>name. case env name of None \<Rightarrow> [] | Some p \<Rightarrow> if fs_is_dir fs (path_parse p) then [path_parse p] else []);
          roots = dir ''GRAPH_BUILDER_PROJECT_ROOT'' @ dir ''GRAPH_BUILDER_GLOBAL_ROOT''
      in if roots = [] then (case cwd of None \<Rightarrow> [] | Some p \<Rightarrow> [p]) else roots)"

text \<open>The write probe of the global roots.\<close>

definition remove_file_checked :: "faults \<Rightarrow> path \<Rightarrow> disk \<Rightarrow> (string, unit) result \<times> disk" where
  "remove_file_checked faults p d =
     (case faults (dk_ops d) of
        Some (m, _) \<Rightarrow> (Err m, tick d)
      | None \<Rightarrow>
          if dk_files d p = None then (Err ''No such file or directory (os error 2)'', tick d)
          else (Ok (), tick (d\<lparr>dk_files := (dk_files d)(p := None)\<rparr>)))"

definition message_dash :: string where "message_dash = [CHR 0xE2, CHR 0x80, CHR 0x94]"

definition quoted_root :: "path \<Rightarrow> string" where
  "quoted_root p = ''global skill root '' @ [CHR 0x27] @ path_display p @ [CHR 0x27]"

fun probe_global_write_roots :: "faults \<Rightarrow> path list \<Rightarrow> disk \<Rightarrow> (string, unit) result \<times> disk" where
  "probe_global_write_roots faults [] d = (Ok (), d)"
| "probe_global_write_roots faults (r # rs) d =
     (if \<not> is_global_root r then probe_global_write_roots faults rs d
      else (case create_dir_all faults r d of
          (Err e, d) \<Rightarrow> (Err (quoted_root r @ '' could not be created: '' @ e @ '' '' @ message_dash @
             '' set SKILL_GLOBAL_HOST_PATH to a writable machine-wide directory (e.g. ${HOME}/.claude/skills) and ensure it exists on the host''), d)
        | (Ok _, d) \<Rightarrow>
            (case write_file faults (r @ [''.maintenance_write_probe'']) (''write probe'' @ newline) d of
               (Err e, d) \<Rightarrow> (Err (quoted_root r @ '' is not writable: '' @ e @ '' '' @ message_dash @
                  '' check that the host directory mounted at this path exists and is writable, or override SKILL_GLOBAL_HOST_PATH in .env''), d)
             | (Ok _, d) \<Rightarrow>
                 (case remove_file_checked faults (r @ [''.maintenance_write_probe'']) d of
                    (Err e, d) \<Rightarrow> (Err (quoted_root r @ '': write probe succeeded but cleanup failed: '' @ e), d)
                  | (Ok _, d) \<Rightarrow> probe_global_write_roots faults rs d))))"

section \<open>Skill snapshots\<close>

definition snapshot_scopes :: "path list \<Rightarrow> scope_root list" where
  "snapshot_scopes scope_roots =
     map (\<lambda>(i, p). \<lparr>rt_scope_id = ''scope-'' @ nat_str i, rt_scope_type = (if is_global_root p then Global else Project), rt_root = p\<rparr>)
       (enumerate 0 scope_roots)"

text \<open>\<open>build\<close> is the graph builder's scan of the scope roots, \<open>stable\_id\<close> the identifier it stores a skill under.\<close>

definition load_skill_snapshots ::
  "(scope_root list \<Rightarrow> disk \<Rightarrow> (string, built_skill list) result) \<Rightarrow> (string \<Rightarrow> string) \<Rightarrow> path list \<Rightarrow> disk \<Rightarrow>
     (string, skill_snapshot list) result" where
  "load_skill_snapshots build stable_id scope_roots d =
     (if scope_roots = [] then Ok []
      else rbind (build (snapshot_scopes scope_roots) d) (\<lambda>built.
        Ok (map (\<lambda>b. \<lparr>sn_id = stable_id (bk_id b), sn_name = bk_name b, sn_description = bk_description b,
              sn_scope = bk_scope_type b, sn_source_path = bk_source_path b, sn_tags = bk_tags b,
              sn_subunits = map eu_content (bk_subunits b), sn_embedding = bk_embedding b\<rparr>) built)))"

section \<open>The merge verifier (merge\_verifier.rs)\<close>

definition token_overlap_prefilter_threshold :: f32 where "token_overlap_prefilter_threshold = lit 0.05"

definition jaccard_token_overlap :: "string \<Rightarrow> string \<Rightarrow> f32 option" where
  "jaccard_token_overlap left_text right_text =
     (let l = set (split_whitespace left_text); r = set (split_whitespace right_text) in
      if trim left_text = [] \<or> trim right_text = [] then None
      else if l = {} \<or> r = {} then None
      else Some (fdiv (f32_of_nat (card (l \<inter> r))) (f32_of_nat (card (l \<union> r)))))"

definition are_equivalent ::
  "(string \<Rightarrow> string \<Rightarrow> (string, bool) result) \<Rightarrow> skill_snapshot \<Rightarrow> skill_snapshot \<Rightarrow> (merge_error, bool) result" where
  "are_equivalent llm l r =
     (case jaccard_token_overlap (semantic_text l) (semantic_text r) of
        None \<Rightarrow> Ok False
      | Some overlap \<Rightarrow>
          if flt overlap token_overlap_prefilter_threshold then Ok False
          else map_err (\<lambda>e. MgSemanticVerification (''LLM equivalence provider failed for pair ('' @ sn_id l @ '', '' @ sn_id r @ ''): '' @ e))
                 (llm (semantic_text l) (semantic_text r)))"

section \<open>The cron (cron.rs)\<close>

record maintenance_cron =
  mt_interval :: nat
  mt_last_run_at :: "int option"

definition cron_new :: "nat \<Rightarrow> (cron_error, maintenance_cron) result" where
  "cron_new interval =
     (if interval = 0 then Err (InvalidInterval ''maintenance interval must be greater than zero'')
      else Ok \<lparr>mt_interval = interval, mt_last_run_at = None\<rparr>)"

record maintenance_pass_outcome =
  mo_started_at :: int
  mo_completed_at :: int
  mo_merge_proposals :: "merge_proposal list"
  mo_retirement_proposals :: "retirement_proposal list"
  mo_promotion_proposals :: "promotion_proposal list"
  mo_demotion_proposals :: "demotion_proposal list"

datatype cron_decision = SkippedNotDue int int | Executed maintenance_pass_outcome

text \<open>The runners as functions of the time and the world; \<open>None\<close>: the pass does not return.\<close>

record 'w passes =
  ps_merge :: "int \<Rightarrow> 'w \<Rightarrow> ((cron_error, merge_proposal list) result \<times> 'w) option"
  ps_retirement :: "int \<Rightarrow> 'w \<Rightarrow> ((cron_error, retirement_proposal list) result \<times> 'w) option"
  ps_promotion :: "int \<Rightarrow> 'w \<Rightarrow> ((cron_error, promotion_proposal list) result \<times> 'w) option"
  ps_demotion :: "int \<Rightarrow> 'w \<Rightarrow> ((cron_error, demotion_proposal list) result \<times> 'w) option"

text \<open>A pass awaited with \<open>?\<close>.\<close>

definition await_pass ::
  "((cron_error, 'a) result \<times> 'w) option \<Rightarrow> ('a \<Rightarrow> 'w \<Rightarrow> ((cron_error, 'b) result \<times> 'w) option) \<Rightarrow> ((cron_error, 'b) result \<times> 'w) option" where
  "await_pass m f = (case m of None \<Rightarrow> None | Some (Err e, w) \<Rightarrow> Some (Err e, w) | Some (Ok a, w) \<Rightarrow> f a w)"

definition run_passes :: "'w passes \<Rightarrow> int \<Rightarrow> int \<Rightarrow> 'w \<Rightarrow> ((cron_error, maintenance_pass_outcome) result \<times> 'w) option" where
  "run_passes ps now completed w =
     await_pass (ps_merge ps now w) (\<lambda>merges w.
     await_pass (ps_retirement ps now w) (\<lambda>retirements w.
     await_pass (ps_promotion ps now w) (\<lambda>promotions w.
     await_pass (ps_demotion ps now w) (\<lambda>demotions w.
       Some (Ok \<lparr>mo_started_at = now, mo_completed_at = completed, mo_merge_proposals = merges,
         mo_retirement_proposals = retirements, mo_promotion_proposals = promotions,
         mo_demotion_proposals = demotions\<rparr>, w)))))"

text \<open>\<open>chrono::Duration::from_std\<close> refuses more than \<open>i64::MAX\<close> milliseconds.\<close>

definition max_chrono_seconds :: nat where "max_chrono_seconds = 9223372036854775"

definition cron_skip :: "maintenance_cron \<Rightarrow> int \<Rightarrow> (cron_error, cron_decision) result option" where
  "cron_skip cron now =
     (case mt_last_run_at cron of
        None \<Rightarrow> None
      | Some last_run_at \<Rightarrow>
          if now < last_run_at then Some (Err ClockReversal)
          else (let elapsed = nat (now - last_run_at) in
            if elapsed < mt_interval cron
            then (let remaining = mt_interval cron - elapsed in
              if max_chrono_seconds < remaining
              then Some (Err (InvalidInterval
                (''cannot convert remaining interval into chrono duration: Source duration value is out of range for the target type'')))
              else Some (Ok (SkippedNotDue now (now + int remaining))))
            else None))"

definition cron_tick ::
  "'w passes \<Rightarrow> int \<Rightarrow> int \<Rightarrow> maintenance_cron \<Rightarrow> 'w \<Rightarrow> ((cron_error, cron_decision) result \<times> maintenance_cron \<times> 'w) option" where
  "cron_tick ps now completed cron w =
     (case cron_skip cron now of
        Some r \<Rightarrow> Some (r, cron, w)
      | None \<Rightarrow>
          (case run_passes ps now completed w of
             None \<Rightarrow> None
           | Some (Err e, w) \<Rightarrow> Some (Err e, cron, w)
           | Some (Ok outcome, w) \<Rightarrow> Some (Ok (Executed outcome), cron\<lparr>mt_last_run_at := Some now\<rparr>, w)))"

section \<open>The worker loop\<close>

definition run_one_tick ::
  "'w passes \<Rightarrow> int \<Rightarrow> int \<Rightarrow> maintenance_cron \<Rightarrow> 'w \<Rightarrow>
     ((maintenance_runtime_error, unit) result \<times> maintenance_cron \<times> 'w) option" where
  "run_one_tick ps now completed cron w =
     map_option (\<lambda>(r, cron, w). (map_err CronFailure (map_sum id (\<lambda>_. ()) r), cron, w)) (cron_tick ps now completed cron w)"

text \<open>
  The loop over the wake-ups of the ticker: each is the clock before and after the passes.  \<open>drain k\<close> is the
  \<open>k\<close>-th sweep of the transcript queue, whose own result is only logged.  The result is the error the worker
  returned, if it has, and the number of sweeps that followed a tick.
\<close>

fun worker_loop ::
  "'w passes \<Rightarrow> (nat \<Rightarrow> 'w \<Rightarrow> 'w option) \<Rightarrow> nat \<Rightarrow> (int \<times> int) list \<Rightarrow> maintenance_cron \<Rightarrow> 'w \<Rightarrow>
     (maintenance_runtime_error option \<times> nat \<times> 'w) option" where
  "worker_loop ps drain k [] cron w = Some (None, 0, w)"
| "worker_loop ps drain k ((now, completed) # wakes) cron w =
     (case run_one_tick ps now completed cron w of
        None \<Rightarrow> None
      | Some (Err e, cron, w) \<Rightarrow> Some (Some e, 0, w)
      | Some (Ok _, cron, w) \<Rightarrow>
          (case drain k w of
             None \<Rightarrow> None
           | Some w \<Rightarrow>
               (case worker_loop ps drain (Suc k) wakes cron w of
                  None \<Rightarrow> None | Some (outcome, drains, w) \<Rightarrow> Some (outcome, Suc drains, w))))"

definition run_maintenance_worker ::
  "maintenance_worker_config \<Rightarrow> 'w passes \<Rightarrow> (nat \<Rightarrow> 'w \<Rightarrow> 'w option) \<Rightarrow> (int \<times> int) list \<Rightarrow> maintenance_cron \<Rightarrow> 'w \<Rightarrow>
     (maintenance_runtime_error option \<times> nat \<times> 'w) option" where
  "run_maintenance_worker config ps drain wakes cron w =
     (case drain 0 w of
        None \<Rightarrow> None
      | Some w \<Rightarrow>
          if mw_run_once config
          then (case wakes of
              [] \<Rightarrow> Some (None, 0, w)
            | (now, completed) # _ \<Rightarrow>
                map_option (\<lambda>(r, _, w). (case r of Err e \<Rightarrow> Some e | Ok _ \<Rightarrow> None, 0, w)) (run_one_tick ps now completed cron w))
          else worker_loop ps drain 1 wakes cron w)"

section \<open>The live runners\<close>

text \<open>The world: the transcript table, and the extractor's state with the shared disk.\<close>

type_synonym worker_world = "transcript_table \<times> extractor_state"

definition world_disk :: "worker_world \<Rightarrow> disk" where "world_disk w = xs_disk (snd w)"

definition on_disk ::
  "(cron_error, 'a) result \<times> disk \<Rightarrow> worker_world \<Rightarrow> (cron_error, 'a) result \<times> worker_world" where
  "on_disk rd w = (fst rd, fst w, (snd w)\<lparr>xs_disk := snd rd\<rparr>)"

record live_worker =
  lw_load :: "disk \<Rightarrow> (string, skill_snapshot list) result"
  lw_merge :: merge_env
  lw_verifier :: "(string, string \<Rightarrow> string \<Rightarrow> (string, bool) result) result"
  lw_retire :: retire_env
  lw_retirement_config :: retirement_config
  lw_usage :: "usage_store option"
  lw_promote :: promote_env
  lw_runner :: promotion_runner

definition run_merge_pass :: "live_worker \<Rightarrow> int \<Rightarrow> disk \<Rightarrow> (cron_error, merge_proposal list) result \<times> disk" where
  "run_merge_pass lw now d =
     (case lw_load lw d of
        Err m \<Rightarrow> (Err (MergePass m), d)
      | Ok skills \<Rightarrow>
          if length skills < 2 then (Ok [], d)
          else (case lw_verifier lw of
              Err m \<Rightarrow> (Err (MergePass m), d)
            | Ok llm \<Rightarrow>
                (case propose_merges ((lw_merge lw)\<lparr>me_equivalent := are_equivalent llm\<rparr>) merge_config_default skills now d of
                   (r, d) \<Rightarrow> (map_err (\<lambda>e. MergePass (merge_error_str e)) r, d))))"

definition live_passes :: "live_worker \<Rightarrow> worker_world passes" where
  "live_passes lw =
     \<lparr>ps_merge = (\<lambda>now w. Some (on_disk (run_merge_pass lw now (world_disk w)) w)),
      ps_retirement = (\<lambda>now w.
        (case run_retirement_pass (lw_retire lw) (lw_retirement_config lw) (lw_usage lw) (lw_load lw (world_disk w)) now (world_disk w) of
           (r, d) \<Rightarrow> Some (on_disk (map_err RetirementPass r, d) w))),
      ps_promotion = (\<lambda>now w. map_option (\<lambda>rd. on_disk rd w) (run_promotion_pass (lw_promote lw) (lw_runner lw) now (world_disk w))),
      ps_demotion = (\<lambda>now w. Some (on_disk (scan_demotions (lw_promote lw) (lw_runner lw) now (world_disk w)) w))\<rparr>"

definition drain_transcripts ::
  "(session_extractor \<times> (uuid \<Rightarrow> job_env) \<times> transcript_db \<times> (uuid \<Rightarrow> transcript_db) \<times> int) option \<Rightarrow> worker_world \<Rightarrow> worker_world option" where
  "drain_transcripts transcript_drain w =
     (case transcript_drain of
        None \<Rightarrow> Some w
      | Some (sx, jobs, claim, dbs, batch_limit) \<Rightarrow>
          (case drain_once_extracting sx jobs claim dbs batch_limit (fst w) (snd w) of
             (None, _) \<Rightarrow> None
           | (Some _, tbl, st) \<Rightarrow> Some (tbl, st)))"

section \<open>What a tick keeps\<close>

text \<open>The contract of the runners: every pass keeps a reflexive and transitive order on the world.\<close>

locale keeping_passes =
  fixes ps :: "'w passes" and keep :: "'w \<Rightarrow> 'w \<Rightarrow> bool"
  assumes keep_refl: "keep w w"
    and keep_trans: "keep u v \<Longrightarrow> keep v w \<Longrightarrow> keep u w"
    and merge_keeps: "ps_merge ps now w = Some (rm, w') \<Longrightarrow> keep w w'"
    and retirement_keeps: "ps_retirement ps now w = Some (rr, w') \<Longrightarrow> keep w w'"
    and promotion_keeps: "ps_promotion ps now w = Some (rp, w') \<Longrightarrow> keep w w'"
    and demotion_keeps: "ps_demotion ps now w = Some (rd, w') \<Longrightarrow> keep w w'"
begin

lemma await_keeps:
  assumes "await_pass m f = Some (r, w')" and "\<And>x v. m = Some (x, v) \<Longrightarrow> keep w v"
    and "\<And>a v. m = Some (Ok a, v) \<Longrightarrow> f a v = Some (r, w') \<Longrightarrow> keep v w'"
  shows "keep w w'"
proof (cases m)
  case (Some xv)
  then show ?thesis
    using assms keep_trans by (cases xv; cases "fst xv") (auto simp: await_pass_def)
qed (use assms in \<open>simp add: await_pass_def\<close>)

lemma run_passes_keeps: "run_passes ps now completed w = Some (r, w') \<Longrightarrow> keep w w'"
  unfolding run_passes_def
  by (erule await_keeps, erule merge_keeps, erule await_keeps, erule retirement_keeps, erule await_keeps,
      erule promotion_keeps, erule await_keeps, erule demotion_keeps) (simp add: keep_refl)

lemma tick_keeps: "cron_tick ps now completed cron w = Some (r, cron', w') \<Longrightarrow> keep w w'"
  using run_passes_keeps keep_refl
  by (auto simp: cron_tick_def split: option.split_asm sum.split_asm prod.split_asm)

end

lemma merge_pass_grows: "run_merge_pass lw now d = (r, d') \<Longrightarrow> dk_files d \<subseteq>\<^sub>m dk_files d'"
  using write_merge_proposals_frame
  by (fastforce simp: run_merge_pass_def propose_merges_def split: sum.split_asm prod.split_asm if_splits)

lemma retirement_pass_grows:
  "run_retirement_pass env config store loaded now d = (r, d') \<Longrightarrow> dk_files d \<subseteq>\<^sub>m dk_files d'"
  using propose_retirements_frame
  by (fastforce simp: run_retirement_pass_def split: sum.split_asm prod.split_asm if_splits)

lemma promotion_pass_grows:
  assumes "run_promotion_pass env runner now d = Some (r, d')"
  shows "dk_files d \<subseteq>\<^sub>m dk_files d'"
proof -
  obtain w d0 where w: "run_intrinsic_pass env runner now d = (w, d0)" by fastforce
  note one = intrinsic_pass_frame [OF w]
  show ?thesis
  proof (cases w)
    case (Inl e)
    with assms w one show ?thesis by (simp add: run_promotion_pass_def)
  next
    case (Inr ips)
    then obtain r' where "run_recurrence_pass env runner now d0 = Some (r', d')"
      using assms w by (auto simp: run_promotion_pass_def split: option.split_asm sum.split_asm prod.split_asm)
    from recurrence_pass_frame [OF this] one show ?thesis using map_le_trans by blast
  qed
qed

lemma demotion_scan_grows: "scan_demotions env runner now d = (r, d') \<Longrightarrow> dk_files d \<subseteq>\<^sub>m dk_files d'"
  using demotion_loop by (fastforce simp: scan_demotions_def split: option.split_asm sum.split_asm if_splits)

definition files_kept :: "worker_world \<Rightarrow> worker_world \<Rightarrow> bool" where
  "files_kept v w \<longleftrightarrow> dk_files (world_disk v) \<subseteq>\<^sub>m dk_files (world_disk w)"

lemma world_disk_on_disk [simp]: "world_disk (snd (on_disk rd w)) = snd rd" "world_disk (fst w, (snd w)\<lparr>xs_disk := d\<rparr>) = d"
  by (simp_all add: world_disk_def on_disk_def)

interpretation live: keeping_passes "live_passes lw" files_kept for lw
proof (unfold_locales, goal_cases)
  case (1 w)
  show ?case by (simp add: files_kept_def)
next
  case (2 u v w)
  then show ?case by (auto simp: files_kept_def intro: map_le_trans)
next
  case (3 now w rm w')
  then show ?case
    using merge_pass_grows [of lw now "world_disk w"]
    by (cases "run_merge_pass lw now (world_disk w)") (auto simp: live_passes_def files_kept_def on_disk_def)
next
  case (4 now w rr w')
  then show ?case
    using retirement_pass_grows
    by (fastforce simp: live_passes_def files_kept_def on_disk_def split: prod.split_asm)
next
  case (5 now w rp w')
  then show ?case
    using promotion_pass_grows by (fastforce simp: live_passes_def files_kept_def on_disk_def)
next
  case (6 now w rd w')
  then show ?case
    using demotion_scan_grows [of "lw_promote lw" "lw_runner lw" now "world_disk w"]
    by (cases "scan_demotions (lw_promote lw) (lw_runner lw) now (world_disk w)") (auto simp: live_passes_def files_kept_def on_disk_def)
qed

text \<open>C34: a tick of the live worker, whatever its outcome, changes and removes no file that exists: the passes only propose.\<close>

theorem live_tick_only_adds_files:
  assumes "cron_tick (live_passes lw) now completed cron w = Some (r, cron', w')"
  shows "dk_files (world_disk w) \<subseteq>\<^sub>m dk_files (world_disk w')"
  using live.tick_keeps [OF assms] by (simp add: files_kept_def)

section \<open>When a tick runs\<close>

text \<open>a tick runs the passes exactly when no run is recorded or the interval has passed; a tick that does not run them changes nothing, and the time of the last run moves only when all four passes succeeded.\<close>

theorem cron_tick_due:
  assumes "cron_tick ps now completed cron w = Some (r, cron', w')"
  shows "if mt_last_run_at cron = None \<or> (\<exists>t. mt_last_run_at cron = Some t \<and> t + int (mt_interval cron) \<le> now)
    then (\<exists>o'. run_passes ps now completed w = Some (Ok o', w') \<and> r = Ok (Executed o') \<and> cron' = cron\<lparr>mt_last_run_at := Some now\<rparr>) \<or>
         (\<exists>e. run_passes ps now completed w = Some (Err e, w') \<and> r = Err e \<and> cron' = cron)
    else cron' = cron \<and> w' = w \<and> (\<forall>o'. r \<noteq> Ok (Executed o'))"
proof -
  let ?due = "mt_last_run_at cron = None \<or> (\<exists>t. mt_last_run_at cron = Some t \<and> t + int (mt_interval cron) \<le> now)"
  have due: "cron_skip cron now = None \<longleftrightarrow> ?due"
    by (auto simp: cron_skip_def Let_def split: option.split)
  have skip: "cron_skip cron now = Some q \<Longrightarrow> q \<noteq> Ok (Executed o')" for q o'
    by (auto simp: cron_skip_def Let_def split: option.split_asm if_splits)
  show ?thesis
  proof (cases "cron_skip cron now")
    case None
    with assms due show ?thesis
      by (cases "run_passes ps now completed w"; cases "fst (the (run_passes ps now completed w))") (auto simp: cron_tick_def)
  next
    case (Some q)
    with assms due skip show ?thesis by (auto simp: cron_tick_def)
  qed
qed

lemma worker_loop_result:
  "worker_loop ps drain k wakes cron w = Some (outcome, drains, w') \<Longrightarrow>
     (case outcome of None \<Rightarrow> drains = length wakes | Some _ \<Rightarrow> drains < length wakes)"
proof (induction ps drain k wakes cron w arbitrary: drains w' rule: worker_loop.induct)
  case (2 ps drain k now completed wakes cron w)
  obtain r cron1 w1 where tick: "run_one_tick ps now completed cron w = Some (r, cron1, w1)"
    using 2(2) by (cases "run_one_tick ps now completed cron w") auto
  show ?case
  proof (cases r)
    case (Inl e)
    with 2(2) tick show ?thesis by auto
  next
    case (Inr u)
    with 2(2) tick obtain w2 where w2: "drain k w1 = Some w2" by (cases "drain k w1") auto
    with 2(2) tick Inr obtain n where n: "worker_loop ps drain (Suc k) wakes cron1 w2 = Some (outcome, n, w')" "drains = Suc n"
      by (auto split: option.split_asm)
    from 2(1) [OF tick refl Inr refl w2 n(1)] n(2) show ?thesis by (simp split: option.splits)
  qed
qed simp

text \<open>the first failing tick ends the worker, and the transcripts queued since are not drained: a running worker has swept the queue after every tick, a stopped one fewer times than it woke.\<close>

theorem worker_stops_undrained:
  assumes "worker_loop ps drain k wakes cron w = Some (outcome, drains, w')"
  shows "case outcome of None \<Rightarrow> drains = length wakes | Some _ \<Rightarrow> drains < length wakes"
  using assms by (rule worker_loop_result)

section \<open>A worker that has proposed a promotion\<close>

lemma run_passes_promotion:
  assumes "run_passes (live_passes lw) now completed w = Some (Ok outcome, w')"
  obtains w1 d where "files_kept w w1"
    "run_promotion_pass (lw_promote lw) (lw_runner lw) now (world_disk w1) = Some (Ok (mo_promotion_proposals outcome), d)"
    "dk_files d \<subseteq>\<^sub>m dk_files (world_disk w')"
proof -
  from assms obtain ms u where ms: "ps_merge (live_passes lw) now w = Some (Ok ms, u)"
    and "await_pass (ps_retirement (live_passes lw) now u) (\<lambda>retirements w.
      await_pass (ps_promotion (live_passes lw) now w) (\<lambda>promotions w.
      await_pass (ps_demotion (live_passes lw) now w) (\<lambda>demotions w.
       Some (Ok \<lparr>mo_started_at = now, mo_completed_at = completed, mo_merge_proposals = ms,
         mo_retirement_proposals = retirements, mo_promotion_proposals = promotions,
         mo_demotion_proposals = demotions\<rparr>, w)))) = Some (Ok outcome, w')"
    by (auto simp: run_passes_def await_pass_def [of "ps_merge _ _ _"] split: option.split_asm sum.split_asm prod.split_asm)
  then obtain rs w1 where rs: "ps_retirement (live_passes lw) now u = Some (Ok rs, w1)"
    and "await_pass (ps_promotion (live_passes lw) now w1) (\<lambda>promotions w.
      await_pass (ps_demotion (live_passes lw) now w) (\<lambda>demotions w.
       Some (Ok \<lparr>mo_started_at = now, mo_completed_at = completed, mo_merge_proposals = ms,
         mo_retirement_proposals = rs, mo_promotion_proposals = promotions,
         mo_demotion_proposals = demotions\<rparr>, w))) = Some (Ok outcome, w')"
    by (auto simp: await_pass_def [of "ps_retirement _ _ _"] split: option.split_asm sum.split_asm prod.split_asm)
  then obtain ps w2 where ps: "ps_promotion (live_passes lw) now w1 = Some (Ok ps, w2)"
    and "await_pass (ps_demotion (live_passes lw) now w2) (\<lambda>demotions w.
       Some (Ok \<lparr>mo_started_at = now, mo_completed_at = completed, mo_merge_proposals = ms,
         mo_retirement_proposals = rs, mo_promotion_proposals = ps,
         mo_demotion_proposals = demotions\<rparr>, w)) = Some (Ok outcome, w')"
    by (auto simp: await_pass_def [of "ps_promotion _ _ _"] split: option.split_asm sum.split_asm prod.split_asm)
  then obtain ds where ds: "ps_demotion (live_passes lw) now w2 = Some (Ok ds, w')" and "mo_promotion_proposals outcome = ps"
    by (auto simp: await_pass_def split: option.split_asm sum.split_asm prod.split_asm)
  from ps obtain d where d: "run_promotion_pass (lw_promote lw) (lw_runner lw) now (world_disk w1) = Some (Ok ps, d)" "world_disk w2 = d"
    by (auto simp: live_passes_def on_disk_def world_disk_def)
  have "files_kept w w1" using live.merge_keeps [OF ms] live.retirement_keeps [OF rs] live.keep_trans by blast
  moreover have "dk_files d \<subseteq>\<^sub>m dk_files (world_disk w')" using live.demotion_keeps [OF ds] d by (simp add: files_kept_def)
  ultimately show thesis using that d \<open>mo_promotion_proposals outcome = ps\<close> by blast
qed

text \<open>A tick whose promotion pass cannot succeed.\<close>

lemma run_passes_blocked:
  assumes "\<And>d. dk_files (world_disk w) \<subseteq>\<^sub>m dk_files d \<Longrightarrow> \<exists>e d'. run_promotion_pass (lw_promote lw) (lw_runner lw) now d = Some (Err e, d')"
  shows "\<exists>e w'. run_passes (live_passes lw) now completed w = Some (Err e, w')"
proof -
  obtain rm u where rm: "ps_merge (live_passes lw) now w = Some (rm, u)" by (simp add: live_passes_def on_disk_def)
  show ?thesis
  proof (cases rm)
    case (Inl e)
    with rm show ?thesis by (simp add: run_passes_def await_pass_def)
  next
    case (Inr ms)
    obtain rr v where rr: "ps_retirement (live_passes lw) now u = Some (rr, v)"
      by (cases "run_retirement_pass (lw_retire lw) (lw_retirement_config lw) (lw_usage lw) (lw_load lw (world_disk u)) now (world_disk u)")
         (simp add: live_passes_def on_disk_def)
    show ?thesis
    proof (cases rr)
      case (Inl e)
      with rm Inr rr show ?thesis by (simp add: run_passes_def await_pass_def)
    next
      case (Inr rs)
      have "files_kept w v" using live.merge_keeps [OF rm] live.retirement_keeps [OF rr] live.keep_trans by blast
      then obtain e d' where "run_promotion_pass (lw_promote lw) (lw_runner lw) now (world_disk v) = Some (Err e, d')"
        using assms [of "world_disk v"] by (auto simp: files_kept_def)
      then have "ps_promotion (live_passes lw) now v = Some (Err e, (fst v, (snd v)\<lparr>xs_disk := d'\<rparr>))"
        by (simp add: live_passes_def on_disk_def)
      with rm \<open>rm = Ok ms\<close> rr Inr show ?thesis by (simp add: run_passes_def await_pass_def)
    qed
  qed
qed

text \<open>once a tick of the live worker has proposed a promotion, the next due tick fails as long as the proposal is unreviewed, so the worker stops: its promotion runner keeps the skills it read at boot.\<close>

theorem promotion_stops_the_worker:
  assumes first: "cron_tick (live_passes lw) now completed cron w = Some (Ok (Executed outcome), cron1, w1)"
    and wrote: "mo_promotion_proposals outcome \<noteq> []"
    and orders: "\<forall>parts. pr_recurrence (lw_runner lw) = Some parts \<longrightarrow> enumerates (rq_map_order parts)" "enumerates order"
    and kept: "dk_files (world_disk w1) \<subseteq>\<^sub>m dk_files (world_disk w2)"
    and due: "now + int (mt_interval cron) \<le> later"
  shows "\<exists>e w3. worker_loop (live_passes (lw\<lparr>lw_runner := reordered order (lw_runner lw)\<rparr>)) drain k ((later, completed2) # wakes) cron1 w2 =
    Some (Some (CronFailure e), 0, w3)"
proof -
  let ?lw = "lw\<lparr>lw_runner := reordered order (lw_runner lw)\<rparr>"
  have "cron_skip cron now = None" and run: "run_passes (live_passes lw) now completed w = Some (Ok outcome, w1)"
    and cron1: "cron1 = cron\<lparr>mt_last_run_at := Some now\<rparr>"
    using first by (auto simp: cron_tick_def cron_skip_def Let_def split: option.split_asm sum.split_asm prod.split_asm if_splits)
  obtain v d where d: "run_promotion_pass (lw_promote lw) (lw_runner lw) now (world_disk v) = Some (Ok (mo_promotion_proposals outcome), d)"
    "dk_files d \<subseteq>\<^sub>m dk_files (world_disk w1)"
    by (rule run_passes_promotion [OF run])
  have "\<exists>e d'. run_promotion_pass (lw_promote ?lw) (lw_runner ?lw) later d2 = Some (Err e, d')"
    if "dk_files (world_disk w2) \<subseteq>\<^sub>m dk_files d2" for d2
  proof -
    have "dk_files d \<subseteq>\<^sub>m dk_files d2" using d(2) kept that map_le_trans by blast
    from second_promotion_result [OF d(1) wrote orders this, of "pn_faults (lw_promote lw)" later] show ?thesis by simp
  qed
  then obtain e w3 where "run_passes (live_passes ?lw) later completed2 w2 = Some (Err e, w3)"
    using run_passes_blocked [of w2 ?lw later completed2] by blast
  moreover have "cron_skip cron1 later = None" using due by (simp add: cron1 cron_skip_def Let_def)
  ultimately have "cron_tick (live_passes ?lw) later completed2 cron1 w2 = Some (Err e, cron1, w3)"
    by (simp add: cron_tick_def)
  then show ?thesis by (simp add: run_one_tick_def map_err_def)
qed

section \<open>A run\<close>

definition sample_live :: live_worker where
  "sample_live = \<lparr>lw_load = (\<lambda>_. Ok []), lw_merge = sample_merge_env, lw_verifier = Ok (\<lambda>_ _. Ok True),
     lw_retire = sample_retire_env, lw_retirement_config = retirement_config_default, lw_usage = None,
     lw_promote = sample_promote_env, lw_runner = (sample_runner None)\<lparr>pr_global_rows := None\<rparr>\<rparr>"

definition sample_world :: worker_world where
  "sample_world = ([], \<lparr>xs_disk = empty_disk, xs_events = [], xs_published = []\<rparr>)"

definition sample_cron :: maintenance_cron where
  "sample_cron = \<lparr>mt_interval = 60, mt_last_run_at = None\<rparr>"

lemma sample_live_promotion:
  "\<exists>ps d'. run_promotion_pass sample_promote_env ((sample_runner None)\<lparr>pr_global_rows := None\<rparr>) 0 empty_disk = Some (Ok ps, d') \<and> ps \<noteq> []"
proof -
  have "run_promotion_pass sample_promote_env ((sample_runner None)\<lparr>pr_global_rows := None\<rparr>) =
      run_promotion_pass sample_promote_env (sample_runner None)"
  proof -
    have "run_intrinsic_pass env (runner\<lparr>pr_global_rows := rows\<rparr>) = run_intrinsic_pass env runner"
      "run_recurrence_pass env (runner\<lparr>pr_global_rows := rows\<rparr>) = run_recurrence_pass env runner" for env runner rows
      by (intro ext, simp add: run_intrinsic_pass_def run_recurrence_pass_def Let_def cong: option.case_cong sum.case_cong if_cong)+
    then show ?thesis by (intro ext) (simp only: run_promotion_pass_def)
  qed
  with sample_promotion show ?thesis by simp
qed

lemma sample_live_tick:
  "\<exists>outcome w1. cron_tick (live_passes sample_live) 0 1 sample_cron sample_world =
     Some (Ok (Executed outcome), sample_cron\<lparr>mt_last_run_at := Some 0\<rparr>, w1) \<and> mo_promotion_proposals outcome \<noteq> []"
proof -
  obtain ps d' where ps: "run_promotion_pass sample_promote_env ((sample_runner None)\<lparr>pr_global_rows := None\<rparr>) 0 empty_disk = Some (Ok ps, d')"
    "ps \<noteq> []" using sample_live_promotion by blast
  then show ?thesis
    by (simp add: cron_tick_def cron_skip_def sample_cron_def run_passes_def await_pass_def live_passes_def sample_live_def
        on_disk_def run_merge_pass_def run_retirement_pass_def scan_demotions_def world_disk_def sample_world_def map_err_def)
qed

theorem live_tick_only_adds_files_witness:
  "\<exists>r cron' w'. cron_tick (live_passes sample_live) 0 1 sample_cron sample_world = Some (r, cron', w') \<and>
     dk_files (world_disk sample_world) \<subseteq>\<^sub>m dk_files (world_disk w')"
  using sample_live_tick live_tick_only_adds_files by blast

theorem cron_tick_due_witness:
  "\<exists>r w'. cron_tick (live_passes sample_live) 30 31 (sample_cron\<lparr>mt_last_run_at := Some 0\<rparr>) sample_world =
     Some (r, sample_cron\<lparr>mt_last_run_at := Some 0\<rparr>, w') \<and> w' = sample_world"
proof -
  have "cron_tick (live_passes sample_live) 30 31 (sample_cron\<lparr>mt_last_run_at := Some 0\<rparr>) sample_world =
      Some (Ok (SkippedNotDue 30 60), sample_cron\<lparr>mt_last_run_at := Some 0\<rparr>, sample_world)"
    by (simp add: cron_tick_def cron_skip_def sample_cron_def max_chrono_seconds_def)
  from cron_tick_due [OF this] this show ?thesis by (auto simp: sample_cron_def)
qed

theorem worker_stops_undrained_witness:
  "\<exists>drains w'. worker_loop (live_passes sample_live) (\<lambda>_ w. Some w) 1 [(0, 1)] sample_cron sample_world = Some (None, drains, w') \<and>
     drains = 1"
proof -
  obtain outcome w1 where "cron_tick (live_passes sample_live) 0 1 sample_cron sample_world =
      Some (Ok (Executed outcome), sample_cron\<lparr>mt_last_run_at := Some 0\<rparr>, w1)" using sample_live_tick by blast
  then have run: "worker_loop (live_passes sample_live) (\<lambda>_ w. Some w) 1 [(0, 1)] sample_cron sample_world = Some (None, Suc 0, w1)"
    by (simp add: run_one_tick_def map_err_def)
  from worker_stops_undrained [OF run] run show ?thesis by simp
qed

theorem promotion_stops_the_worker_witness:
  "\<exists>w1 e w3. worker_loop (live_passes (sample_live\<lparr>lw_runner := reordered rev (lw_runner sample_live)\<rparr>)) (\<lambda>_ w. Some w) 2 [(60, 61)]
     (sample_cron\<lparr>mt_last_run_at := Some 0\<rparr>) w1 = Some (Some (CronFailure e), 0, w3)"
proof -
  obtain outcome w1 where tick: "cron_tick (live_passes sample_live) 0 1 sample_cron sample_world =
      Some (Ok (Executed outcome), sample_cron\<lparr>mt_last_run_at := Some 0\<rparr>, w1)" "mo_promotion_proposals outcome \<noteq> []"
    using sample_live_tick by blast
  have "\<forall>parts. pr_recurrence (lw_runner sample_live) = Some parts \<longrightarrow> enumerates (rq_map_order parts)"
    by (simp add: sample_live_def sample_runner_def)
  from promotion_stops_the_worker [OF tick this, of rev w1 60 "\<lambda>_ w. Some w" 2 61 "[]"]
  show ?thesis by (intro exI [of _ w1]) (simp add: enumerates_def sample_cron_def)
qed

end
