(* ===== verification/Cleanup_Scan.thy ===== *)
theory Cleanup_Scan
  imports Maintenance_Runtime Skill_Extraction
begin

text \<open>
  The lifecycle scan of pending proposals and rejected tombstones (\<open>maintenance/src/cleanup.rs\<close>): the roots it
  resolves, the lifecycle it reads from a file's frontmatter, the warning scan, the re-proposal block and the
  pruning of expired tombstones.  The directory walk, the modification times, the YAML reader and the timestamp
  parser are parameters; the files are those of the shared disk.
\<close>

section \<open>Reports and errors\<close>

record pending_warning =
  pg_pending_path :: path
  pg_age_days :: int

record malformed_pending_file =
  mp_path :: path
  mp_parse_error :: string

record pending_scan_report =
  ps_warnings :: "pending_warning list"
  ps_malformed :: "malformed_pending_file list"

record reproposal_block_info =
  rb_tombstone_path :: path
  rb_age_days :: int

datatype cleanup_error =
    InvalidWarningThreshold string
  | InvalidScanRoot string
  | TraversalFailure string
  | MetadataReadFailure string string
  | FrontmatterParseFailure string string
  | InvalidTombstoneRetention string
  | TombstonePruneFailure string string

fun cleanup_error_reason :: "cleanup_error \<Rightarrow> string" where
  "cleanup_error_reason (InvalidWarningThreshold _) = ''cleanup_invalid_warning_threshold''"
| "cleanup_error_reason (InvalidScanRoot _) = ''cleanup_invalid_scan_root''"
| "cleanup_error_reason (TraversalFailure _) = ''cleanup_traversal_failed''"
| "cleanup_error_reason (MetadataReadFailure _ _) = ''cleanup_metadata_read_failed''"
| "cleanup_error_reason (FrontmatterParseFailure _ _) = ''cleanup_frontmatter_parse_failed''"
| "cleanup_error_reason (InvalidTombstoneRetention _) = ''cleanup_invalid_tombstone_retention''"
| "cleanup_error_reason (TombstonePruneFailure _ _) = ''cleanup_tombstone_prune_failed''"

section \<open>Lifecycles\<close>

record pending_frontmatter =
  pz_created_at :: "string option"
  pz_warning_at :: "string option"
  pz_expires_at :: "string option"
  pz_warning_logged_at :: "string option"

record pending_lifecycle =
  pl_created_at :: int
  pl_warning_at :: int
  pl_expires_at :: int
  pl_warning_logged_at :: "int option"

datatype frontmatter_parse_mode = Strict | Lenient

record cleanup_env =
  cu_fs :: file_system
  cu_walk :: "path \<Rightarrow> (string, path \<times> bool) result list"
  cu_modified :: "path \<Rightarrow> (string, int) result"
  cu_yaml :: "string \<Rightarrow> (string, pending_frontmatter) result"
  cu_rfc3339 :: "string \<Rightarrow> int option"
  cu_faults :: faults

definition parse_timestamp :: "cleanup_env \<Rightarrow> string option \<Rightarrow> int option" where
  "parse_timestamp env raw = Option.bind raw (cu_rfc3339 env)"

definition read_file :: "disk \<Rightarrow> path \<Rightarrow> (string, string) result" where
  "read_file d p = (case dk_files d p of None \<Rightarrow> Err ''No such file or directory (os error 2)'' | Some s \<Rightarrow> Ok s)"

definition parse_frontmatter ::
  "cleanup_env \<Rightarrow> disk \<Rightarrow> path \<Rightarrow> frontmatter_parse_mode \<Rightarrow> (cleanup_error, pending_frontmatter option) result" where
  "parse_frontmatter env d p mode =
     (case read_file d p of
        Err m \<Rightarrow> Err (MetadataReadFailure (path_display p) m)
      | Ok contents \<Rightarrow>
          if \<not> prefix (''---'' @ newline) contents then Ok None
          else (case split_once (newline @ ''---'' @ newline) (drop 4 contents) of
              None \<Rightarrow> Ok None
            | Some (body, _) \<Rightarrow>
                (case cu_yaml env body of
                   Ok fm \<Rightarrow> Ok (Some fm)
                 | Err m \<Rightarrow> if mode = Lenient then Ok None else Err (FrontmatterParseFailure (path_display p) m))))"

definition stamp_or :: "'a option \<Rightarrow> 'a \<Rightarrow> 'a" where
  "stamp_or a b = (case a of Some x \<Rightarrow> x | None \<Rightarrow> b)"

definition read_lifecycle ::
  "cleanup_env \<Rightarrow> int \<Rightarrow> disk \<Rightarrow> path \<Rightarrow> int \<Rightarrow> frontmatter_parse_mode \<Rightarrow> (cleanup_error, pending_lifecycle) result" where
  "read_lifecycle env warning_after_days d p now mode =
     (if dk_files d p = None then Err (MetadataReadFailure (path_display p) ''No such file or directory (os error 2)'')
      else case cu_modified env p of
        Err m \<Rightarrow> Err (MetadataReadFailure (path_display p) m)
      | Ok modified_at \<Rightarrow>
          rbind (parse_frontmatter env d p mode) (\<lambda>frontmatter.
            (let stamp = (\<lambda>field. Option.bind frontmatter (\<lambda>fm. parse_timestamp env (field fm)));
                 created_at = stamp_or (stamp pz_created_at) modified_at;
                 effective = (if now < created_at then modified_at else created_at)
             in Ok \<lparr>pl_created_at = effective,
                    pl_warning_at = stamp_or (stamp pz_warning_at) (effective + warning_after_days * 86400),
                    pl_expires_at = stamp_or (stamp pz_expires_at) (pending_default_expires_at effective),
                    pl_warning_logged_at = stamp pz_warning_logged_at\<rparr>)))"

text \<open>\<open>num\_days\<close> truncates towards zero.\<close>

definition num_days :: "int \<Rightarrow> int" where
  "num_days s = (if s < 0 then - ((- s) div 86400) else s div 86400)"

section \<open>Roots\<close>

definition resolve_scan_root :: "file_system \<Rightarrow> path \<Rightarrow> (cleanup_error, path) result" where
  "resolve_scan_root fs requested =
     (if \<not> path_is_absolute requested
      then Err (InvalidScanRoot (''scan root '' @ ticked (path_display requested) @ '' must be absolute''))
      else case fs_canonicalize fs requested of
        Err m \<Rightarrow> Err (InvalidScanRoot (''scan root '' @ ticked (path_display requested) @ '' cannot be canonicalized: '' @ m))
      | Ok canonical \<Rightarrow>
          if \<not> fs_is_dir fs canonical
          then Err (InvalidScanRoot (''scan root '' @ ticked (path_display canonical) @ '' must resolve to a directory''))
          else if (case file_name canonical of Some n \<Rightarrow> ascii_lower n = ''.skills'' | None \<Rightarrow> False) then Ok canonical
          else if \<not> fs_is_dir fs (canonical @ [''.skills''])
          then Err (InvalidScanRoot (''scan root '' @ ticked (path_display canonical) @ '' must be a '' @ ticked ''.skills'' @
                     '' directory or contain one''))
          else (case fs_canonicalize fs (canonical @ [''.skills'']) of
              Err m \<Rightarrow> Err (InvalidScanRoot (''proposal root '' @ ticked (path_display (canonical @ [''.skills''])) @
                          '' cannot be canonicalized: '' @ m))
            | Ok proposal_root \<Rightarrow>
                if \<not> prefix canonical proposal_root
                then Err (InvalidScanRoot (''proposal root '' @ ticked (path_display proposal_root) @
                       '' resolves outside requested root '' @ ticked (path_display canonical)))
                else Ok proposal_root))"

text \<open>The \<open>BTreeSet\<close> of the resolved roots, as a sorted list.\<close>

definition resolve_scan_roots :: "file_system \<Rightarrow> path list \<Rightarrow> (cleanup_error, path list) result" where
  "resolve_scan_roots fs requested =
     rbind (try_map (resolve_scan_root fs) requested) (\<lambda>roots. Ok (remdups_adj (sort roots)))"

section \<open>The scanner\<close>

definition scanner_new :: "int \<Rightarrow> (cleanup_error, int) result" where
  "scanner_new warning_after_days =
     (if warning_after_days \<le> 0
      then Err (InvalidWarningThreshold ''warning threshold must be greater than zero'') else Ok warning_after_days)"

text \<open>The loop over the entries of a walk, with the first traversal error ending it.\<close>

fun walk_files :: "(string, path \<times> bool) result list \<Rightarrow> (path \<Rightarrow> 's \<Rightarrow> (cleanup_error, unit) result \<times> 's) \<Rightarrow> 's \<Rightarrow>
    (cleanup_error, unit) result \<times> 's" where
  "walk_files [] visit s = (Ok (), s)"
| "walk_files (entry # entries) visit s =
     (case entry of
        Err m \<Rightarrow> (Err (TraversalFailure m), s)
      | Ok (p, is_file) \<Rightarrow>
          if \<not> is_file then walk_files entries visit s
          else (case visit p s of (Err e, s) \<Rightarrow> (Err e, s) | (Ok _, s) \<Rightarrow> walk_files entries visit s))"

definition visit_pending ::
  "cleanup_env \<Rightarrow> int \<Rightarrow> disk \<Rightarrow> int \<Rightarrow> path \<Rightarrow> pending_scan_report \<Rightarrow> (cleanup_error, unit) result \<times> pending_scan_report" where
  "visit_pending env warning_after_days d now p report =
     (if \<not> has_lifecycle_file_name p pending_skill_file then (Ok (), report)
      else case read_lifecycle env warning_after_days d p now Strict of
        Err (FrontmatterParseFailure _ parse_error) \<Rightarrow>
          (Ok (), report\<lparr>ps_malformed := ps_malformed report @ [\<lparr>mp_path = p, mp_parse_error = parse_error\<rparr>]\<rparr>)
      | Err e \<Rightarrow> (Err e, report)
      | Ok lifecycle \<Rightarrow>
          if pl_warning_logged_at lifecycle \<noteq> None then (Ok (), report)
          else if pl_warning_at lifecycle \<le> now
          then (Ok (), report\<lparr>ps_warnings := ps_warnings report @
                 [\<lparr>pg_pending_path = p, pg_age_days = num_days (now - pl_created_at lifecycle)\<rparr>]\<rparr>)
          else (Ok (), report))"

fun scan_roots :: "(path \<Rightarrow> (string, path \<times> bool) result list) \<Rightarrow> (path \<Rightarrow> 's \<Rightarrow> (cleanup_error, unit) result \<times> 's) \<Rightarrow>
    path list \<Rightarrow> 's \<Rightarrow> (cleanup_error, unit) result \<times> 's" where
  "scan_roots walk visit [] s = (Ok (), s)"
| "scan_roots walk visit (r # rs) s =
     (case walk_files (walk r) visit s of (Err e, s) \<Rightarrow> (Err e, s) | (Ok _, s) \<Rightarrow> scan_roots walk visit rs s)"

definition scan_with_diagnostics ::
  "cleanup_env \<Rightarrow> int \<Rightarrow> disk \<Rightarrow> path list \<Rightarrow> int \<Rightarrow> (cleanup_error, pending_scan_report) result" where
  "scan_with_diagnostics env warning_after_days d root_paths now =
     rbind (resolve_scan_roots (cu_fs env) root_paths) (\<lambda>roots.
       (case scan_roots (cu_walk env) (visit_pending env warning_after_days d now) roots
               \<lparr>ps_warnings = [], ps_malformed = []\<rparr> of
          (Err e, _) \<Rightarrow> Err e
        | (Ok _, report) \<Rightarrow> Ok \<lparr>ps_warnings = sort_by (\<lambda>a b. pg_pending_path a \<le> pg_pending_path b) (ps_warnings report),
            ps_malformed = sort_by (\<lambda>a b. mp_path a \<le> mp_path b) (ps_malformed report)\<rparr>))"

definition pending_scan ::
  "cleanup_env \<Rightarrow> int \<Rightarrow> disk \<Rightarrow> path list \<Rightarrow> int \<Rightarrow> (cleanup_error, pending_warning list) result" where
  "pending_scan env warning_after_days d root_paths now =
     rbind (scan_with_diagnostics env warning_after_days d root_paths now) (\<lambda>report. Ok (ps_warnings report))"

section \<open>Tombstones\<close>

definition tombstone_at :: "disk \<Rightarrow> path \<Rightarrow> bool" where
  "tombstone_at d p = is_rejected_tombstone (\<lambda>q. dk_files d q \<noteq> None) p"

definition tombstone_age :: "cleanup_env \<Rightarrow> int \<Rightarrow> disk \<Rightarrow> path \<Rightarrow> int \<Rightarrow> (cleanup_error, int) result" where
  "tombstone_age env warning_after_days d p now =
     rbind (read_lifecycle env warning_after_days d p now Lenient) (\<lambda>lifecycle. Ok (num_days (now - pl_created_at lifecycle)))"

fun first_block ::
  "cleanup_env \<Rightarrow> int \<Rightarrow> disk \<Rightarrow> string \<Rightarrow> int \<Rightarrow> int \<Rightarrow> path list \<Rightarrow> (cleanup_error, reproposal_block_info option) result" where
  "first_block env warning_after_days d slug now retention [] = Ok None"
| "first_block env warning_after_days d slug now retention (r # rs) =
     (let p = r @ [slug, rejected_skill_file] in
      if \<not> tombstone_at d p then first_block env warning_after_days d slug now retention rs
      else rbind (tombstone_age env warning_after_days d p now) (\<lambda>age.
        if age < retention then Ok (Some \<lparr>rb_tombstone_path = p, rb_age_days = age\<rparr>)
        else first_block env warning_after_days d slug now retention rs))"

definition check_retention :: "int \<Rightarrow> (cleanup_error, unit) result" where
  "check_retention retention =
     (if retention \<le> 0 then Err (InvalidTombstoneRetention ''tombstone retention must be greater than zero'') else Ok ())"

definition reproposal_block ::
  "cleanup_env \<Rightarrow> int \<Rightarrow> disk \<Rightarrow> path list \<Rightarrow> string \<Rightarrow> int \<Rightarrow> int \<Rightarrow> (cleanup_error, reproposal_block_info option) result" where
  "reproposal_block env warning_after_days d root_paths slug now retention =
     rbind (check_retention retention) (\<lambda>_.
     rbind (resolve_scan_roots (cu_fs env) root_paths) (\<lambda>roots.
       first_block env warning_after_days d slug now retention roots))"

definition visit_tombstone ::
  "cleanup_env \<Rightarrow> int \<Rightarrow> int \<Rightarrow> int \<Rightarrow> path \<Rightarrow> path list \<times> disk \<Rightarrow> (cleanup_error, unit) result \<times> (path list \<times> disk)" where
  "visit_tombstone env warning_after_days now retention p s =
     (case s of (pruned, d) \<Rightarrow>
        if \<not> tombstone_at d p then (Ok (), (pruned, d))
        else case tombstone_age env warning_after_days d p now of
            Err e \<Rightarrow> (Err e, (pruned, d))
          | Ok age \<Rightarrow>
              if retention \<le> age
              then (case remove_file_checked (cu_faults env) p d of
                  (Err m, d) \<Rightarrow> (Err (TombstonePruneFailure (path_display p) m), (pruned, d))
                | (Ok _, d) \<Rightarrow> (Ok (), (pruned @ [p], d)))
              else (Ok (), (pruned, d)))"

definition prune_expired_tombstones ::
  "cleanup_env \<Rightarrow> int \<Rightarrow> disk \<Rightarrow> path list \<Rightarrow> int \<Rightarrow> int \<Rightarrow> (cleanup_error, path list) result \<times> disk" where
  "prune_expired_tombstones env warning_after_days d root_paths now retention =
     (case rbind (check_retention retention) (\<lambda>_. resolve_scan_roots (cu_fs env) root_paths) of
        Err e \<Rightarrow> (Err e, d)
      | Ok roots \<Rightarrow>
          (case scan_roots (cu_walk env) (visit_tombstone env warning_after_days now retention) roots ([], d) of
             (Err e, (_, d)) \<Rightarrow> (Err e, d)
           | (Ok _, (pruned, d)) \<Rightarrow> (Ok (sort pruned), d)))"

section \<open>The walk as one list\<close>

lemma walk_files_append:
  "walk_files (es @ fs) visit s =
     (case walk_files es visit s of (Err e, s) \<Rightarrow> (Err e, s) | (Ok _, s) \<Rightarrow> walk_files fs visit s)"
  by (induction es visit s rule: walk_files.induct) (auto split: sum.split prod.split)

lemma scan_roots_walk: "scan_roots walk visit rs s = walk_files (concat (map walk rs)) visit s"
  by (induction rs arbitrary: s) (auto simp: walk_files_append split: sum.split prod.split)

text \<open>The regular files of a walk.\<close>

definition listed :: "(string, path \<times> bool) result list \<Rightarrow> path list" where
  "listed entries = List.map_filter (\<lambda>e. case e of Err _ \<Rightarrow> None | Ok (p, is_file) \<Rightarrow> if is_file then Some p else None) entries"

lemma listed_simps [simp]:
  "listed [] = []"
  "listed (Err m # es) = listed es"
  "listed (Ok (p, True) # es) = p # listed es"
  "listed (Ok (p, False) # es) = listed es"
  by (simp_all add: listed_def)

lemma walk_files_induct [case_names Nil File Skip Fail]:
  assumes "\<And>s. P [] s" and "\<And>p es s. (\<And>t. P es t) \<Longrightarrow> P (Ok (p, True) # es) s"
    and "\<And>p es s. P es s \<Longrightarrow> P (Ok (p, False) # es) s" and "\<And>m es s. P (Err m # es) s"
  shows "P es s"
proof (induction es arbitrary: s)
  case (Cons e es)
  show ?case
  proof (cases e)
    case (Inr q)
    then obtain p b where "e = Ok (p, b)" by (cases q) auto
    then show ?thesis using assms(2,3) Cons by (cases b) auto
  qed (use assms(4) in simp)
qed (rule assms(1))

text \<open>A reflexive and transitive relation kept by every visit is kept by the walk.\<close>

lemma walk_files_keeps:
  assumes "\<And>p s r s'. visit p s = (r, s') \<Longrightarrow> keep s s'" and "\<And>s. keep s s"
    and "\<And>u v w. keep u v \<Longrightarrow> keep v w \<Longrightarrow> keep u w"
  shows "walk_files es visit s = (r, s') \<Longrightarrow> keep s s'"
proof (induction es s rule: walk_files_induct)
  case (File p es s)
  obtain x t where t: "visit p s = (x, t)" by fastforce
  show ?case
  proof (cases x)
    case (Inl e)
    with File t assms(1) [OF t] show ?thesis by auto
  next
    case (Inr u)
    with File t have "walk_files es visit t = (r, s')" by simp
    from assms(3) [OF assms(1) [OF t] File.IH [OF this]] show ?thesis .
  qed
qed (use assms(2) in auto)

section \<open>Pruning\<close>

lemma read_lifecycle_local:
  "dk_files d p = dk_files d' p \<Longrightarrow> read_lifecycle env k d p now mode = read_lifecycle env k d' p now mode"
  by (simp add: read_lifecycle_def parse_frontmatter_def read_file_def cong: sum.case_cong if_cong)

lemma tombstone_local:
  assumes "dk_files d p = dk_files d' p"
  shows "tombstone_at d p = tombstone_at d' p" "tombstone_age env k d p now = tombstone_age env k d' p now"
  using read_lifecycle_local [OF assms] assms by (simp_all add: tombstone_at_def is_rejected_tombstone_def tombstone_age_def)

definition expired :: "cleanup_env \<Rightarrow> int \<Rightarrow> int \<Rightarrow> int \<Rightarrow> disk \<Rightarrow> path \<Rightarrow> bool" where
  "expired env warning_after_days now retention d p \<longleftrightarrow>
     tombstone_at d p \<and> (\<exists>age. tombstone_age env warning_after_days d p now = Ok age \<and> retention \<le> age)"

lemma expired_local:
  assumes "dk_files d p = dk_files d' p"
  shows "expired env k now retention d p = expired env k now retention d' p"
  by (simp only: expired_def tombstone_local [OF assms])

lemma not_expired_absent: "dk_files d p = None \<Longrightarrow> \<not> expired env k now retention d p"
  by (simp add: expired_def tombstone_at_def is_rejected_tombstone_def)

text \<open>One visit removes its path exactly when it is an expired tombstone and the removal succeeds.\<close>

lemma visit_tombstone_cases:
  assumes "visit_tombstone env k now retention p (ps, d) = (r, ps', d')"
  shows "(expired env k now retention d p \<and> ps' = ps @ [p] \<and> dk_files d' = (dk_files d)(p := None) \<and> r = Ok ()) \<or>
    (dk_files d' = dk_files d \<and> ps' = ps \<and> (r = Ok () \<longrightarrow> \<not> expired env k now retention d p))"
  using assms
  by (auto simp: visit_tombstone_def expired_def remove_file_checked_def tick_def
      split: if_splits sum.split_asm option.split_asm prod.split_asm)

definition only_expired_removed :: "cleanup_env \<Rightarrow> int \<Rightarrow> int \<Rightarrow> int \<Rightarrow> disk \<Rightarrow> disk \<Rightarrow> bool" where
  "only_expired_removed env warning_after_days now retention d d' \<longleftrightarrow>
     (\<forall>p. dk_files d' p = dk_files d p \<or> dk_files d' p = None \<and> expired env warning_after_days now retention d p)"

lemma only_expired_trans:
  assumes "only_expired_removed env k now retention u v" and "only_expired_removed env k now retention v w"
  shows "only_expired_removed env k now retention u w"
  unfolding only_expired_removed_def
proof
  fix p
  show "dk_files w p = dk_files u p \<or> dk_files w p = None \<and> expired env k now retention u p"
    using assms expired_local [of u p v env k now retention] not_expired_absent [of v p env k now retention]
    unfolding only_expired_removed_def by metis
qed

lemma prune_only_expired:
  assumes "prune_expired_tombstones env k d roots now retention = (r, d')"
  shows "only_expired_removed env k now retention d d'"
proof -
  have refl: "only_expired_removed env k now retention u u" for u by (simp add: only_expired_removed_def)
  have "only_expired_removed env k now retention (snd s) (snd s')"
    if "walk_files es (visit_tombstone env k now retention) s = (x, s')" for es s x s'
  proof (rule walk_files_keeps [where keep = "\<lambda>s s'. only_expired_removed env k now retention (snd s) (snd s')", OF _ _ _ that])
    fix p u y v
    assume "visit_tombstone env k now retention p u = (y, v)"
    from visit_tombstone_cases [of env k now retention p "fst u" "snd u" y "fst v" "snd v"] this
    show "only_expired_removed env k now retention (snd u) (snd v)" by (auto simp: only_expired_removed_def split: if_splits)
  qed (auto intro: refl only_expired_trans)
  from this [of _ "([], d)"] refl assms show ?thesis
    by (auto simp: prune_expired_tombstones_def scan_roots_walk split: sum.split_asm prod.split_asm)
qed

text \<open>An expired tombstone blocks nothing, so its removal changes no answer.\<close>

lemma first_block_pruned:
  assumes "only_expired_removed env k now retention d d'"
  shows "first_block env k d' slug now retention rs = first_block env k d slug now retention rs"
proof (induction rs)
  case (Cons r rs)
  let ?p = "r @ [slug, rejected_skill_file]"
  from assms consider "dk_files d' ?p = dk_files d ?p" | "dk_files d' ?p = None" "expired env k now retention d ?p"
    unfolding only_expired_removed_def by metis
  then show ?case
  proof cases
    case 1
    with tombstone_local [OF 1] Cons show ?thesis by (simp add: Let_def cong: if_cong)
  next
    case 2
    then have "\<not> tombstone_at d' ?p" by (simp add: tombstone_at_def is_rejected_tombstone_def)
    with 2 Cons show ?thesis by (auto simp: Let_def expired_def)
  qed
qed simp

text \<open>C30: pruning, whether it completes or fails on the way, changes no re-proposal answer asked at the pruning's own instant and with its own retention: for every slug and every list of roots the block reported afterwards, or the error, is the one reported before.\<close>

theorem pruning_keeps_blocks:
  "reproposal_block env k (snd (prune_expired_tombstones env k d roots now retention)) any_roots slug now retention =
   reproposal_block env k d any_roots slug now retention"
  using first_block_pruned [OF prune_only_expired [of env k d roots now retention, OF surjective_pairing]]
  by (simp add: reproposal_block_def)

text \<open>What a pruning that completes has removed.\<close>

lemma walk_prunes_exactly:
  assumes "walk_files es (visit_tombstone env k now retention) (ps, d) = (Ok (), (qs, d'))"
  shows "\<exists>new. qs = ps @ new \<and> distinct new \<and> set new = {p \<in> set (listed es). expired env k now retention d p} \<and>
    dk_files d' = (\<lambda>p. if p \<in> set new then None else dk_files d p)"
  using assms
proof (induction es "(ps, d)" arbitrary: ps d rule: walk_files_induct)
  case (Nil ps d)
  then show ?case by auto
next
  case (File p es ps d)
  obtain r ps1 d1 where v: "visit_tombstone env k now retention p (ps, d) = (r, ps1, d1)" by (metis surj_pair)
  then have r: "r = Ok ()" and rest: "walk_files es (visit_tombstone env k now retention) (ps1, d1) = (Ok (), (qs, d'))"
    using File.prems by (auto split: sum.split_asm)
  from File.hyps rest obtain new where new: "qs = ps1 @ new" "distinct new"
    "set new = {q \<in> set (listed es). expired env k now retention d1 q}"
    "dk_files d' = (\<lambda>q. if q \<in> set new then None else dk_files d1 q)" by blast
  from visit_tombstone_cases [OF v] r consider
    "expired env k now retention d p" "ps1 = ps @ [p]" "dk_files d1 = (dk_files d)(p := None)"
    | "dk_files d1 = dk_files d" "ps1 = ps" "\<not> expired env k now retention d p" by auto
  then show ?case
  proof cases
    case 1
    have same: "expired env k now retention d1 q = (q \<noteq> p \<and> expired env k now retention d q)" for q
      using 1(3) not_expired_absent [of d1 p] expired_local [of d1 q d] by (cases "q = p") auto
    have set: "set new = {q \<in> set (listed es). q \<noteq> p \<and> expired env k now retention d q}" using new(3) same by simp
    have "dk_files d' = (\<lambda>q. if q \<in> set (p # new) then None else dk_files d q)"
      using new(4) 1(3) by (simp add: fun_eq_iff)
    moreover have "qs = ps @ (p # new)" "distinct (p # new)" using new(1,2) set 1(2) by simp_all
    moreover have "set (p # new) = {q \<in> set (listed (Ok (p, True) # es)). expired env k now retention d q}" using set 1(1) by auto
    ultimately show ?thesis by blast
  next
    case 2
    have "expired env k now retention d1 q = expired env k now retention d q" for q
      using 2(1) by (intro expired_local) simp
    with new 2 show ?thesis by (intro exI [of _ new]) auto
  qed
next
  case (Skip p es ps d)
  then show ?case by simp
next
  case (Fail m es ps d)
  then show ?case by simp
qed

text \<open>a pruning that completes has removed exactly the expired tombstones among the regular files of the walked roots, each reported once, in order; every other file keeps its content.\<close>

theorem prune_exact:
  assumes "prune_expired_tombstones env k d roots now retention = (Ok pruned, d')"
    and "resolve_scan_roots (cu_fs env) roots = Ok resolved"
  shows "sorted pruned \<and> distinct pruned \<and>
    set pruned = {p. p \<in> set (listed (concat (map (cu_walk env) resolved))) \<and> expired env k now retention d p} \<and>
    dk_files d' = (\<lambda>p. if p \<in> set pruned then None else dk_files d p)"
proof -
  obtain qs where walk: "walk_files (concat (map (cu_walk env) resolved)) (visit_tombstone env k now retention) ([], d) = (Ok (), (qs, d'))"
    and pruned: "pruned = sort qs"
    using assms by (auto simp: prune_expired_tombstones_def check_retention_def scan_roots_walk split: sum.split_asm prod.split_asm if_splits)
  from walk_prunes_exactly [OF walk] pruned show ?thesis by auto
qed

section \<open>Scanning\<close>

definition warning_of :: "cleanup_env \<Rightarrow> int \<Rightarrow> disk \<Rightarrow> int \<Rightarrow> path \<Rightarrow> pending_warning option" where
  "warning_of env warning_after_days d now p =
     (if \<not> has_lifecycle_file_name p pending_skill_file then None
      else case read_lifecycle env warning_after_days d p now Strict of
        Err _ \<Rightarrow> None
      | Ok lifecycle \<Rightarrow>
          if pl_warning_logged_at lifecycle = None \<and> pl_warning_at lifecycle \<le> now
          then Some \<lparr>pg_pending_path = p, pg_age_days = num_days (now - pl_created_at lifecycle)\<rparr> else None)"

interpretation by_path: total_preorder "\<lambda>a b. pg_pending_path a \<le> pg_pending_path b"
  by unfold_locales auto

lemma visit_pending_warnings:
  "visit_pending env k d now p report = (Ok (), report') \<Longrightarrow>
   ps_warnings report' = ps_warnings report @ List.map_filter (warning_of env k d now) [p]"
  by (auto simp: visit_pending_def warning_of_def List.map_filter_def split: if_splits sum.split_asm cleanup_error.split_asm)

lemma walk_warnings:
  "walk_files es (visit_pending env k d now) report = (Ok (), report') \<Longrightarrow>
   ps_warnings report' = ps_warnings report @ List.map_filter (warning_of env k d now) (listed es)"
proof (induction es report rule: walk_files_induct)
  case (File p es report)
  obtain r mid where v: "visit_pending env k d now p report = (r, mid)" by fastforce
  then have r: "r = Ok ()" and rest: "walk_files es (visit_pending env k d now) mid = (Ok (), report')"
    using File.prems by (auto split: sum.split_asm)
  from File.IH [OF rest] visit_pending_warnings [of env k d now p report mid] v r
  show ?case by (simp add: List.map_filter_def)
qed (simp_all add: List.map_filter_def)

text \<open>a scan that completes reports exactly the pending proposals among the walked files whose warning time has come and whose frontmatter does not say that a warning was logged, once each, ordered by path; the scan changes nothing.\<close>

theorem scan_exact:
  assumes "pending_scan env k d roots now = Ok warnings" and "resolve_scan_roots (cu_fs env) roots = Ok resolved"
  shows "sorted (map pg_pending_path warnings) \<and>
    mset warnings = mset (List.map_filter (warning_of env k d now) (listed (concat (map (cu_walk env) resolved))))"
proof -
  obtain report where walk: "walk_files (concat (map (cu_walk env) resolved)) (visit_pending env k d now) \<lparr>ps_warnings = [], ps_malformed = []\<rparr> = (Ok (), report)"
    and warnings: "warnings = sort_by (\<lambda>a b. pg_pending_path a \<le> pg_pending_path b) (ps_warnings report)"
    using assms by (auto simp: pending_scan_def scan_with_diagnostics_def scan_roots_walk split: sum.split_asm prod.split_asm)
  from walk_warnings [OF walk] warnings by_path.sorted_sort_by [of "ps_warnings report"]
  show ?thesis by (simp add: sorted_map)
qed


end
