(* ===== verification/Communities.thy ===== *)
theory Communities
  imports Graph_Build
begin

text \<open>
  The communities of the skill graph (\<open>graph-builder/src/graph/communities.rs\<close>): one layer of density clusters
  per scope, named by their most distinctive terms, and one layer of first tags.  The clusterer is a parameter that
  labels the vectors of a scope; so is the weight of a term, the double the code computes from its count in the
  cluster, its document frequency and the size of the corpus.  Hash iteration orders are parameters.  Terms are
  split at characters that are not ASCII alphanumeric.
\<close>

section \<open>Assignments\<close>

datatype community_source = Hdbscan | Tag

fun community_source_str :: "community_source \<Rightarrow> string" where
  "community_source_str Hdbscan = ''hdbscan''"
| "community_source_str Tag = ''tag''"

record community_assignment =
  cy_community_name :: string
  cy_skill_ids :: "string list"
  cy_scope :: scope_type
  cy_source :: community_source

text \<open>The labels of one scope's vectors, for the least size of a cluster; \<open>-1\<close> is noise.\<close>

record community_env =
  cn_hdbscan :: "nat \<Rightarrow> f32 list list \<Rightarrow> (string, int list) result"
  cn_weight :: "nat \<Rightarrow> nat \<Rightarrow> nat \<Rightarrow> real"
  cn_key_order :: "(scope_type \<times> string) list \<Rightarrow> (scope_type \<times> string) list"

section \<open>Terms\<close>

definition stopwords :: "string list" where
  "stopwords = [''the'', ''and'', ''for'', ''are'', ''but'', ''not'', ''you'', ''all'', ''any'', ''can'', ''had'', ''has'', ''her'',
     ''was'', ''one'', ''our'', ''out'', ''use'', ''uses'', ''used'', ''using'', ''with'', ''this'', ''that'', ''from'', ''into'',
     ''your'', ''them'', ''they'', ''then'', ''than'', ''when'', ''what'', ''which'', ''while'', ''will'', ''would'', ''should'',
     ''could'', ''have'', ''how'', ''its'', ''via'', ''per'', ''etc'', ''such'', ''also'', ''each'', ''more'', ''most'', ''some'',
     ''only'', ''over'', ''under'', ''between'', ''about'', ''after'', ''before'', ''during'']"

definition is_stopword :: "string \<Rightarrow> bool" where
  "is_stopword term = List.member stopwords term"

definition is_digit_char :: "char \<Rightarrow> bool" where
  "is_digit_char c \<longleftrightarrow> 48 \<le> (of_char c :: nat) \<and> (of_char c :: nat) \<le> 57"

definition tokenize_terms :: "string \<Rightarrow> string list" where
  "tokenize_terms s =
     filter (\<lambda>w. \<not> is_stopword w) (filter (\<lambda>w. \<not> list_all is_digit_char w)
       (map ascii_lower (filter (\<lambda>w. 3 \<le> length w) (split_on (\<lambda>c. \<not> is_alnum c) s))))"

definition skill_terms :: "built_skill \<Rightarrow> string list" where
  "skill_terms s = concat (map (\<lambda>u. tokenize_terms (eu_title u) @ tokenize_terms (eu_content u)) (bk_subunits s))"

text \<open>The corpus: how many skills have a term, and how many skills there are.\<close>

record corpus_idf =
  cq_doc_freq :: "string \<Rightarrow> nat"
  cq_size :: nat

definition corpus_document_frequencies :: "built_skill list \<Rightarrow> string \<Rightarrow> nat" where
  "corpus_document_frequencies skills term = length (filter (\<lambda>s. term \<in> set (skill_terms s)) skills)"

definition term_le :: "string \<times> real \<Rightarrow> string \<times> real \<Rightarrow> bool" where
  "term_le a b \<longleftrightarrow> snd b < snd a \<or> (snd a = snd b \<and> fst a \<le> fst b)"

definition score_cluster_terms :: "community_env \<Rightarrow> built_skill list \<Rightarrow> corpus_idf \<Rightarrow> (string \<times> real) list" where
  "score_cluster_terms env members corpus =
     (let terms = concat (map skill_terms members) in
      sort_by term_le (map (\<lambda>t. (t, cn_weight env (length (filter ((=) t) terms)) (cq_doc_freq corpus t) (cq_size corpus)))
        (remdups terms)))"

section \<open>Labels\<close>

fun extend_label :: "string list \<Rightarrow> string \<Rightarrow> string list \<Rightarrow> string" where
  "extend_label used label [] = label"
| "extend_label used label (t # ts) =
     (if label @ ''-'' @ t \<in> set used then extend_label used label ts else label @ ''-'' @ t)"

definition int_str :: "int \<Rightarrow> string" where
  "int_str i = (if i < 0 then ''-'' @ nat_str (nat (- i)) else nat_str (nat i))"

definition derive_cluster_label ::
  "community_env \<Rightarrow> built_skill list \<Rightarrow> string \<Rightarrow> int \<Rightarrow> corpus_idf \<Rightarrow> string list \<Rightarrow> string \<times> string list" where
  "derive_cluster_label env members scope_prefix cluster_label corpus used =
     (let terms = map fst (score_cluster_terms env members corpus);
          label = scope_prefix @ ''-cluster-'' @ (if terms = [] then int_str cluster_label else join ''-'' (take 2 terms));
          label = (if label \<in> set used then extend_label used label (drop 2 terms) else label);
          label = (if label \<in> set used \<and> members \<noteq> [] then label @ ''-'' @ Min (set (map bk_id members)) else label)
      in (label, label # used))"

section \<open>The density layer\<close>

fun cluster_loop ::
  "community_env \<Rightarrow> built_skill list \<Rightarrow> int list \<Rightarrow> scope_type \<Rightarrow> corpus_idf \<Rightarrow> int list \<Rightarrow> string list \<Rightarrow>
     community_assignment list \<times> string list" where
  "cluster_loop env members labels scope corpus [] used = ([], used)"
| "cluster_loop env members labels scope corpus (label # rest) used =
     (if label = -1 then cluster_loop env members labels scope corpus rest used
      else (let own = map fst (filter (\<lambda>(_, l). l = label) (zip members labels));
                (community_name, used) = derive_cluster_label env own (scope_type_str scope) label corpus used;
                (found, used) = cluster_loop env members labels scope corpus rest used
            in (\<lparr>cy_community_name = community_name, cy_skill_ids = sort (map bk_id own), cy_scope = scope, cy_source = Hdbscan\<rparr> # found,
                used)))"

definition unclustered :: "scope_type \<Rightarrow> string list \<Rightarrow> community_assignment" where
  "unclustered scope ids =
     \<lparr>cy_community_name = scope_type_str scope @ ''-unclustered'', cy_skill_ids = sort ids, cy_scope = scope, cy_source = Hdbscan\<rparr>"

definition cluster_scope ::
  "community_env \<Rightarrow> nat \<Rightarrow> built_skill list \<Rightarrow> scope_type \<Rightarrow> corpus_idf \<Rightarrow> string list \<Rightarrow>
     (string, community_assignment list \<times> string list) result" where
  "cluster_scope env min_size members scope corpus used =
     (if length members < min_size then Ok ([unclustered scope (map bk_id members)], used)
      else case cn_hdbscan env min_size (map bk_embedding members) of
          Err e \<Rightarrow> Err (''HDBSCAN clustering failed for scope '' @ [CHR 0x27] @
                      (case scope of Project \<Rightarrow> ''Project'' | Global \<Rightarrow> ''Global'' | Team \<Rightarrow> ''Team'') @ [CHR 0x27] @ '': '' @ e)
        | Ok labels \<Rightarrow>
            (let (found, used) = cluster_loop env members labels scope corpus (sort (remdups labels)) used;
                 noise = map (bk_id \<circ> fst) (filter (\<lambda>(_, l). l = -1) (zip members labels))
             in Ok (found @ (if noise = [] then [] else [unclustered scope noise]), used)))"

fun cluster_scopes ::
  "community_env \<Rightarrow> nat \<Rightarrow> built_skill list \<Rightarrow> corpus_idf \<Rightarrow> scope_type list \<Rightarrow> string list \<Rightarrow>
     (string, community_assignment list) result" where
  "cluster_scopes env min_size skills corpus [] used = Ok []"
| "cluster_scopes env min_size skills corpus (scope # scopes) used =
     (let members = filter (\<lambda>s. bk_scope_type s = scope) skills in
      if members = [] then cluster_scopes env min_size skills corpus scopes used
      else rbind (cluster_scope env min_size members scope corpus used) (\<lambda>(found, used).
             rbind (cluster_scopes env min_size skills corpus scopes used) (\<lambda>rest. Ok (found @ rest))))"

text \<open>The scopes in the order of their names.\<close>

definition cluster_by_hdbscan ::
  "community_env \<Rightarrow> hdbscan_config \<Rightarrow> built_skill list \<Rightarrow> (string, community_assignment list) result" where
  "cluster_by_hdbscan env config skills =
     (case find (\<lambda>s. bk_embedding s = []) skills of
        Some s \<Rightarrow> Err (''HDBSCAN clustering requires embeddings but skill '' @ [CHR 0x27] @ bk_id s @ [CHR 0x27] @
          '' has an empty embedding vector '' @ [CHR 0xE2, CHR 0x80, CHR 0x94] @ '' ensure build_skills_from_scope_roots completes the embedding step before calling assign_communities'')
      | None \<Rightarrow> cluster_scopes env (hc_min_cluster_size config) skills
          \<lparr>cq_doc_freq = corpus_document_frequencies skills, cq_size = length skills\<rparr> [Global, Project, Team] [])"

section \<open>The tag layer\<close>

definition tag_key :: "built_skill \<Rightarrow> scope_type \<times> string" where
  "tag_key s = (bk_scope_type s, case bk_tags s of [] \<Rightarrow> ''untagged'' | t # _ \<Rightarrow> t)"

definition tag_community :: "built_skill list \<Rightarrow> scope_type \<times> string \<Rightarrow> community_assignment" where
  "tag_community skills key =
     \<lparr>cy_community_name = scope_type_str (fst key) @ ''-'' @ ascii_lower (snd key),
      cy_skill_ids = sort (map bk_id (filter (\<lambda>s. tag_key s = key) skills)), cy_scope = fst key, cy_source = Tag\<rparr>"

definition name_le :: "community_assignment \<Rightarrow> community_assignment \<Rightarrow> bool" where
  "name_le a b \<longleftrightarrow> cy_community_name a \<le> cy_community_name b"

definition cluster_by_first_tag :: "community_env \<Rightarrow> built_skill list \<Rightarrow> community_assignment list" where
  "cluster_by_first_tag env skills =
     sort_by name_le (map (tag_community skills) (cn_key_order env (remdups (map tag_key skills))))"

definition assignment_le :: "community_assignment \<Rightarrow> community_assignment \<Rightarrow> bool" where
  "assignment_le a b \<longleftrightarrow> cy_community_name a < cy_community_name b \<or>
     (cy_community_name a = cy_community_name b \<and> community_source_str (cy_source a) \<le> community_source_str (cy_source b))"

definition assign_communities ::
  "community_env \<Rightarrow> hdbscan_config \<Rightarrow> built_skill list \<Rightarrow> (string, community_assignment list) result" where
  "assign_communities env config skills =
     rbind (cluster_by_hdbscan env config skills) (\<lambda>hdbscan.
       Ok (sort_by assignment_le (hdbscan @ cluster_by_first_tag env skills)))"


section \<open>Layers partition the skills\<close>

text \<open>What the clusterer and the hash map promise: one label per vector, every key once.\<close>

definition community_contract :: "community_env \<Rightarrow> bool" where
  "community_contract env \<longleftrightarrow>
     (\<forall>m vectors labels. cn_hdbscan env m vectors = Ok labels \<longrightarrow> length labels = length vectors) \<and>
     (\<forall>ks. mset (cn_key_order env ks) = mset ks)"

definition members_of :: "community_assignment list \<Rightarrow> string multiset" where
  "members_of cs = mset (concat (map cy_skill_ids cs))"

lemma members_of_simps [simp]:
  "members_of [] = {#}" "members_of (c # cs) = mset (cy_skill_ids c) + members_of cs"
  "members_of (cs @ ds) = members_of cs + members_of ds"
  by (simp_all add: members_of_def)

lemma members_of_perm: "mset cs = mset ds \<Longrightarrow> members_of cs = members_of ds"
proof -
  have "members_of cs = (\<Sum>c\<in>#mset cs. mset (cy_skill_ids c))" for cs by (induction cs) simp_all
  then show "mset cs = mset ds \<Longrightarrow> members_of cs = members_of ds" by simp
qed

lemma filter_mset_split:
  "(\<And>x. x \<in># M \<Longrightarrow> \<not> (P x \<and> Q x)) \<Longrightarrow> filter_mset (\<lambda>x. P x \<or> Q x) M = filter_mset P M + filter_mset Q M"
  by (induction M) auto

lemma image_mset_partition: "image_mset f (filter_mset (\<lambda>x. \<not> P x) M) + image_mset f (filter_mset P M) = image_mset f M"
  by (induction M) auto

text \<open>Grouping by distinct keys loses and repeats nothing.\<close>

lemma buckets_partition:
  "distinct ks \<Longrightarrow> mset (concat (map (\<lambda>k. map f (filter (\<lambda>x. g x = k) xs)) ks)) =
     image_mset f (filter_mset (\<lambda>x. g x \<in> set ks) (mset xs))"
proof (induction ks)
  case (Cons k ks)
  have "filter_mset (\<lambda>x. g x = k \<or> g x \<in> set ks) (mset xs) =
      filter_mset (\<lambda>x. g x = k) (mset xs) + filter_mset (\<lambda>x. g x \<in> set ks) (mset xs)"
    by (rule filter_mset_split) (use Cons.prems in auto)
  with Cons show ?case by (simp add: insert_iff)
qed simp

lemma cluster_loop_members:
  "members_of (fst (cluster_loop env members labels scope corpus ls used)) =
     mset (concat (map (\<lambda>l. map (bk_id \<circ> fst) (filter (\<lambda>x. snd x = l) (zip members labels))) (filter (\<lambda>l. l \<noteq> -1) ls)))"
proof (induction ls arbitrary: used)
  case (Cons l ls)
  then show ?case by (simp add: case_prod_unfold Let_def o_def)
qed simp

lemma cluster_scope_members:
  assumes c: "community_contract env" and run: "cluster_scope env m members scope corpus used = Ok (found, used')"
  shows "members_of found = image_mset bk_id (mset members)"
proof (cases "length members < m")
  case True
  with run show ?thesis by (auto simp: cluster_scope_def unclustered_def)
next
  case False
  with run obtain labels where labels: "cn_hdbscan env m (map bk_embedding members) = Ok labels"
    by (auto simp: cluster_scope_def split: sum.split_asm)
  let ?ls = "sort (remdups labels)" and ?pairs = "zip members labels"
  have len: "length labels = length members" using c labels by (auto simp: community_contract_def)
  obtain cl u where loop: "cluster_loop env members labels scope corpus ?ls used = (cl, u)" by fastforce
  let ?noise = "map (bk_id \<circ> fst) (filter (\<lambda>(_, l). l = -1) ?pairs)"
  from run False labels loop have "found = cl @ (if ?noise = [] then [] else [unclustered scope ?noise])"
    by (simp add: cluster_scope_def Let_def)
  then have "members_of found = members_of cl + mset ?noise"
    by (cases "?noise = []") (simp_all only: if_True if_False members_of_simps unclustered_def community_assignment.simps append_Nil2
        mset_sort mset.simps add_0_right simp_thms)
  also have "members_of cl = image_mset (bk_id \<circ> fst) (filter_mset (\<lambda>x. snd x \<in> set (filter (\<lambda>l. l \<noteq> -1) ?ls)) (mset ?pairs))"
  proof -
    have "members_of cl = mset (concat (map (\<lambda>l. map (bk_id \<circ> fst) (filter (\<lambda>x. snd x = l) ?pairs)) (filter (\<lambda>l. l \<noteq> -1) ?ls)))"
      using cluster_loop_members [of env members labels scope corpus ?ls used] loop by simp
    moreover have "distinct (filter (\<lambda>l. l \<noteq> -1) ?ls)" by simp
    ultimately show ?thesis by (simp only: buckets_partition)
  qed
  also have "filter_mset (\<lambda>x. snd x \<in> set (filter (\<lambda>l. l \<noteq> -1) ?ls)) (mset ?pairs) = filter_mset (\<lambda>x. snd x \<noteq> -1) (mset ?pairs)"
    by (rule filter_mset_cong [OF refl]) (auto dest: set_zip_rightD)
  also have "mset ?noise = image_mset (bk_id \<circ> fst) (filter_mset (\<lambda>x. snd x = -1) (mset ?pairs))"
    by (simp add: case_prod_unfold)
  also have "image_mset (bk_id \<circ> fst) (filter_mset (\<lambda>x. snd x \<noteq> -1) (mset ?pairs)) + \<dots> = image_mset (bk_id \<circ> fst) (mset ?pairs)"
    by (rule image_mset_partition)
  also have "\<dots> = image_mset bk_id (mset members)"
  proof -
    have "map (bk_id \<circ> fst) ?pairs = map bk_id members" using len by (simp flip: map_map)
    then show ?thesis by (simp flip: mset_map)
  qed
  finally show ?thesis .
qed

lemma cluster_scopes_members:
  "community_contract env \<Longrightarrow> cluster_scopes env m skills corpus scopes used = Ok cs \<Longrightarrow> distinct scopes \<Longrightarrow>
   members_of cs = image_mset bk_id (filter_mset (\<lambda>s. bk_scope_type s \<in> set scopes) (mset skills))"
proof (induction scopes arbitrary: used cs)
  case (Cons scope scopes)
  let ?members = "filter (\<lambda>s. bk_scope_type s = scope) skills"
  have split: "filter_mset (\<lambda>s. bk_scope_type s = scope \<or> bk_scope_type s \<in> set scopes) (mset skills) =
      mset ?members + filter_mset (\<lambda>s. bk_scope_type s \<in> set scopes) (mset skills)"
    using filter_mset_split [of "mset skills" "\<lambda>s. bk_scope_type s = scope" "\<lambda>s. bk_scope_type s \<in> set scopes"] Cons.prems(3)
    by auto
  show ?case
  proof (cases "?members = []")
    case True
    with Cons split show ?thesis by (simp add: insert_iff)
  next
    case False
    with Cons.prems(2) obtain found u rest where "cluster_scope env m ?members scope corpus used = Ok (found, u)"
      "cluster_scopes env m skills corpus scopes u = Ok rest" "cs = found @ rest"
      by (auto simp: Let_def rbind_Inr_iff)
    with Cons cluster_scope_members [OF Cons.prems(1)] split show ?thesis by (simp add: insert_iff)
  qed
qed simp

lemma hdbscan_members:
  assumes "community_contract env" and "cluster_by_hdbscan env config skills = Ok cs"
  shows "members_of cs = mset (map bk_id skills)"
proof -
  have all: "filter_mset (\<lambda>s. bk_scope_type s \<in> set [Global, Project, Team]) (mset skills) = mset skills"
  proof -
    have "\<forall>s. bk_scope_type s \<in> set [Global, Project, Team]"
    proof
      show "bk_scope_type s \<in> set [Global, Project, Team]" for s by (cases "bk_scope_type s") auto
    qed
    then show ?thesis by (metis (mono_tags, lifting) filter_True mset_filter)
  qed
  from assms(2) have run: "cluster_scopes env (hc_min_cluster_size config) skills
      \<lparr>cq_doc_freq = corpus_document_frequencies skills, cq_size = length skills\<rparr> [Global, Project, Team] [] = Ok cs"
    by (auto simp: cluster_by_hdbscan_def split: option.split_asm)
  have "distinct [Global, Project, Team]" by simp
  from cluster_scopes_members [OF assms(1) run this] show ?thesis unfolding all by simp
qed


interpretation by_name: total_preorder name_le
  by unfold_locales (auto simp: name_le_def)

interpretation by_assignment: total_preorder assignment_le
  by unfold_locales (auto simp: assignment_le_def)

lemma hdbscan_source: "cluster_by_hdbscan env config skills = Ok cs \<Longrightarrow> c \<in> set cs \<Longrightarrow> cy_source c = Hdbscan"
proof -
  have loop: "cy_source c = Hdbscan" if "c \<in> set (fst (cluster_loop env members labels scope corpus ls used))"
    for c members labels scope corpus ls used
    using that by (induction ls arbitrary: used) (auto simp: Let_def case_prod_unfold split: if_splits)
  have scope: "cy_source c = Hdbscan"
    if "cluster_scope env m members scope corpus used = Ok (found, u)" "c \<in> set found" for c m members scope corpus used found u
  proof (cases "length members < m")
    case True
    with that show ?thesis by (auto simp: cluster_scope_def unclustered_def)
  next
    case False
    with that obtain labels where "cn_hdbscan env m (map bk_embedding members) = Ok labels"
      by (auto simp: cluster_scope_def split: sum.split_asm)
    with that False loop [of c members labels scope corpus "sort (remdups labels)" used] show ?thesis
      by (cases "cluster_loop env members labels scope corpus (sort (remdups labels)) used")
        (auto simp: cluster_scope_def unclustered_def Let_def split: if_splits)
  qed
  have "cy_source c = Hdbscan" if "cluster_scopes env m skills corpus scopes used = Ok cs" "c \<in> set cs" for m corpus scopes used cs
    using that
  proof (induction scopes arbitrary: used cs)
    case (Cons x xs)
    then show ?case by (auto simp: Let_def rbind_Inr_iff dest: scope split: if_splits prod.split_asm)
  qed simp
  then show "cluster_by_hdbscan env config skills = Ok cs \<Longrightarrow> c \<in> set cs \<Longrightarrow> cy_source c = Hdbscan"
    by (auto simp: cluster_by_hdbscan_def simp del: cluster_scopes.simps split: option.split_asm)
qed

lemma tag_members:
  assumes "community_contract env"
  shows "members_of (cluster_by_first_tag env skills) = mset (map bk_id skills)"
proof -
  let ?ks = "cn_key_order env (remdups (map tag_key skills))"
  have perm: "mset ?ks = mset (remdups (map tag_key skills))" using assms by (auto simp: community_contract_def)
  then have ks: "distinct ?ks" "set ?ks = tag_key ` set skills"
    using mset_eq_imp_distinct_iff [OF perm] mset_eq_setD [OF perm] by auto
  have sorted: "members_of (map (tag_community skills) ks) =
      mset (concat (map (\<lambda>k. map bk_id (filter (\<lambda>s. tag_key s = k) skills)) ks))" for ks
    by (induction ks) (simp_all add: tag_community_def)
  have "members_of (cluster_by_first_tag env skills) = members_of (map (tag_community skills) ?ks)"
    unfolding cluster_by_first_tag_def by (rule members_of_perm) simp
  also have "\<dots> = image_mset bk_id (filter_mset (\<lambda>s. tag_key s \<in> set ?ks) (mset skills))"
    unfolding sorted by (rule buckets_partition [OF ks(1)])
  also have "filter_mset (\<lambda>s. tag_key s \<in> set ?ks) (mset skills) = mset skills"
    unfolding ks(2) by (simp add: filter_id_conv flip: mset_filter)
  finally show ?thesis by simp
qed

lemma tag_source: "c \<in> set (cluster_by_first_tag env skills) \<Longrightarrow> cy_source c = Tag"
  by (auto simp: cluster_by_first_tag_def tag_community_def)

text \<open>C21: every skill is in exactly one community of each layer: in the density layer and in the tag layer alike the members of the communities are the skills, none lost and none repeated.\<close>

theorem layers_partition_skills:
  assumes "community_contract env" and "assign_communities env config skills = Ok cs"
  shows "mset (concat (map cy_skill_ids (filter (\<lambda>c. cy_source c = layer) cs))) = mset (map bk_id skills)"
proof -
  obtain hd where h: "cluster_by_hdbscan env config skills = Ok hd" "cs = sort_by assignment_le (hd @ cluster_by_first_tag env skills)"
    using assms(2) by (auto simp: assign_communities_def rbind_Inr_iff)
  let ?own = "\<lambda>c. cy_source c = layer"
  have "members_of (filter ?own cs) = members_of (filter ?own (hd @ cluster_by_first_tag env skills))"
    by (rule members_of_perm) (simp add: h(2) mset_filter)
  also have "\<dots> = mset (map bk_id skills)"
  proof (cases layer)
    case Hdbscan
    have "filter ?own hd = hd" using hdbscan_source [OF h(1)] Hdbscan by (simp add: filter_id_conv)
    moreover have "filter ?own (cluster_by_first_tag env skills) = []"
      using tag_source [of _ env skills] Hdbscan by (auto simp: filter_empty_conv)
    ultimately show ?thesis using hdbscan_members [OF assms(1) h(1)] by simp
  next
    case Tag
    have "filter ?own hd = []" using hdbscan_source [OF h(1)] Tag by (auto simp: filter_empty_conv)
    moreover have "filter ?own (cluster_by_first_tag env skills) = cluster_by_first_tag env skills"
      using tag_source [of _ env skills] Tag by (simp add: filter_id_conv)
    ultimately show ?thesis using tag_members [OF assms(1)] by simp
  qed
  finally show ?thesis by (simp add: members_of_def)
qed

text \<open>Two first tags of a scope that differ in case only are two communities with one name.\<close>

lemma case_variants_collide:
  assumes c: "community_contract env" and run: "assign_communities env config skills = Ok cs"
    and s: "s \<in> set skills" "t \<in> set skills" "bk_scope_type s = bk_scope_type t"
      "snd (tag_key s) \<noteq> snd (tag_key t)" "ascii_lower (snd (tag_key s)) = ascii_lower (snd (tag_key t))"
  shows "\<not> distinct (map cy_community_name cs)"
proof -
  let ?ks = "cn_key_order env (remdups (map tag_key skills))"
  have perm: "mset ?ks = mset (remdups (map tag_key skills))" using c by (auto simp: community_contract_def)
  then have ks: "set ?ks = tag_key ` set skills" using mset_eq_setD [OF perm] by auto
  have scope: "fst (tag_key x) = bk_scope_type x" for x by (simp add: tag_key_def)
  have not: "\<not> distinct (map (cy_community_name \<circ> tag_community skills) ?ks)"
  proof
    assume "distinct (map (cy_community_name \<circ> tag_community skills) ?ks)"
    then have "inj_on (cy_community_name \<circ> tag_community skills) (set ?ks)" by (simp add: distinct_map)
    moreover have "(cy_community_name \<circ> tag_community skills) (tag_key s) = (cy_community_name \<circ> tag_community skills) (tag_key t)"
      using s by (simp add: tag_community_def scope)
    moreover have "tag_key s \<in> set ?ks" "tag_key t \<in> set ?ks" using s(1,2) ks by auto
    ultimately have "tag_key s = tag_key t" by (rule inj_onD)
    with s(4) show False by simp
  qed
  obtain hd where cs: "cs = sort_by assignment_le (hd @ cluster_by_first_tag env skills)"
    using run by (auto simp: assign_communities_def rbind_Inr_iff)
  have names: "mset (map cy_community_name cs) =
      mset (map cy_community_name hd) + mset (map (cy_community_name \<circ> tag_community skills) ?ks)"
    by (simp add: cs cluster_by_first_tag_def multiset.map_comp o_def)
  show ?thesis
  proof
    assume "distinct (map cy_community_name cs)"
    with names have "distinct (map cy_community_name hd @ map (cy_community_name \<circ> tag_community skills) ?ks)"
      by (metis mset_append mset_eq_imp_distinct_iff)
    with not show False by simp
  qed
qed

section \<open>A run\<close>

definition sample_communities :: community_env where
  "sample_communities = \<lparr>cn_hdbscan = (\<lambda>_ vs. Ok (map (\<lambda>_. -1) vs)), cn_weight = (\<lambda>n _ _. real n), cn_key_order = id\<rparr>"

definition sample_built :: "string \<Rightarrow> string \<Rightarrow> built_skill" where
  "sample_built i tag = \<lparr>bk_id = i, bk_scope_id = ''project'', bk_scope_type = Project, bk_source_path = [''/'', i], bk_name = i,
     bk_description = [], bk_tags = [tag], bk_subunits = [], bk_embedding = [lit 1]\<rparr>"

lemma sample_contract: "community_contract sample_communities"
  by (simp add: community_contract_def sample_communities_def)

lemma sample_assigned: "\<exists>cs. assign_communities sample_communities \<lparr>hc_min_cluster_size = 3\<rparr>
    [sample_built ''a'' ''Auth'', sample_built ''b'' ''auth''] = Ok cs"
  by (simp add: assign_communities_def cluster_by_hdbscan_def cluster_scope_def sample_built_def unclustered_def)

theorem layers_partition_skills_witness:
  "\<exists>cs. assign_communities sample_communities \<lparr>hc_min_cluster_size = 3\<rparr>
      [sample_built ''a'' ''Auth'', sample_built ''b'' ''auth''] = Ok cs \<and>
    mset (concat (map cy_skill_ids (filter (\<lambda>c. cy_source c = Tag) cs))) = {#''a'', ''b''#}"
proof -
  obtain cs where cs: "assign_communities sample_communities \<lparr>hc_min_cluster_size = 3\<rparr>
      [sample_built ''a'' ''Auth'', sample_built ''b'' ''auth''] = Ok cs"
    using sample_assigned by blast
  from layers_partition_skills [OF sample_contract cs, of Tag] cs show ?thesis by (auto simp: sample_built_def)
qed

end
