(* ===== verification/Graph_Store.thy ===== *)
theory Graph_Store
  imports Communities Outbox Retire_Pass
begin

text \<open>
  The skill graph in Postgres (\<open>infrastructure/src/persistence/rebuild.rs\<close>, \<open>usage.rs\<close> and the migrations under
  \<open>infrastructure/migrations\<close>): the tables with their keys, references and checks, the transaction that replaces the
  graph and bumps its version, the read projections, the rebuild locks, and the usage log that references the
  skills.  A transaction is the list of its statements; a statement fails when it violates a constraint or when the
  connection does.  The hash, the clock and orders the database leaves open are parameters.
\<close>

section \<open>Tables\<close>

record skill_table_row =
  kr_id :: uuid
  kr_name :: string
  kr_description :: string
  kr_scope :: string
  kr_status :: string
  kr_lifecycle :: string
  kr_tags :: "string list"
  kr_source_paths :: "string list"
  kr_merged_from_scopes :: "string list"
  kr_graph_version :: int

record subunit_row =
  nr_id :: uuid
  nr_kind :: string
  nr_title :: string
  nr_content :: string
  nr_lifecycle :: string

record skill_subunit_row =
  ks_skill_id :: uuid
  ks_subunit_id :: uuid
  ks_position :: int

record community_row =
  mr_id :: uuid
  mr_name :: string
  mr_description :: string
  mr_scope :: string
  mr_lifecycle :: string

record community_skill_row =
  ms_community_id :: uuid
  ms_skill_id :: uuid
  ms_source :: string

record usage_row =
  yr_id :: uuid
  yr_session_id :: string
  yr_skill_id :: "uuid option"
  yr_usage_count :: int
  yr_context_status :: string
  yr_relevance_score :: "f32 option"
  yr_used_at :: int

record session_log_row =
  ylr_id :: uuid
  ylr_session_id :: string
  ylr_scope :: string
  ylr_prompt_hash :: string
  ylr_latency_ms :: int
  ylr_status :: string

record rebuild_lock =
  kl_lock_name :: string
  kl_owner_id :: uuid
  kl_acquired_at :: int
  kl_expires_at :: int

text \<open>\<open>graph\_state\<close> has at most its singleton row: the version and when the graph was rebuilt.\<close>

record graph_db =
  gd_skills :: "skill_table_row list"
  gd_subunits :: "subunit_row list"
  gd_skill_subunits :: "skill_subunit_row list"
  gd_communities :: "community_row list"
  gd_community_skills :: "community_skill_row list"
  gd_usage :: "usage_row list"
  gd_session_logs :: "session_log_row list"
  gd_graph_state :: "(int \<times> int option) option"
  gd_locks :: "rebuild_lock list"

datatype rebuild_error = RbInvalidContract string | RbPersistence

section \<open>Statements and transactions\<close>

type_synonym statement = "graph_db \<Rightarrow> graph_db option"

text \<open>A commit is applied, refused, or applied without the client hearing of it.\<close>

datatype commit_outcome = Committed | Refused | Unheard

record tx_env =
  tx_begins :: bool
  tx_fails :: "nat \<Rightarrow> bool"
  tx_commit :: commit_outcome

fun run_statements :: "(nat \<Rightarrow> bool) \<Rightarrow> nat \<Rightarrow> statement list \<Rightarrow> graph_db \<Rightarrow> graph_db option" where
  "run_statements fails k [] db = Some db"
| "run_statements fails k (s # ss) db =
     (if fails k then None else Option.bind (s db) (run_statements fails (Suc k) ss))"

definition run_transaction :: "tx_env \<Rightarrow> statement list \<Rightarrow> graph_db \<Rightarrow> graph_db option \<times> graph_db" where
  "run_transaction tx ss db =
     (if \<not> tx_begins tx then (None, db)
      else case run_statements (tx_fails tx) 0 ss db of
          None \<Rightarrow> (None, db)
        | Some db' \<Rightarrow>
            (case tx_commit tx of Committed \<Rightarrow> (Some db', db') | Refused \<Rightarrow> (None, db) | Unheard \<Rightarrow> (None, db')))"

definition scope_values :: "string list" where "scope_values = [''project'', ''global'', ''team'']"

definition delete_community_skills :: statement where
  "delete_community_skills db = Some (db\<lparr>gd_community_skills := []\<rparr>)"

definition delete_skill_subunits :: statement where
  "delete_skill_subunits db = Some (db\<lparr>gd_skill_subunits := []\<rparr>)"

definition delete_communities :: statement where
  "delete_communities db = Some (db\<lparr>gd_communities := [], gd_community_skills := []\<rparr>)"

definition delete_subunits :: statement where
  "delete_subunits db = Some (db\<lparr>gd_subunits := [], gd_skill_subunits := []\<rparr>)"

text \<open>Deleting the skills cascades to the two join tables and sets the usage log's references to null.\<close>

definition delete_skills :: statement where
  "delete_skills db =
     Some (db\<lparr>gd_skills := [], gd_skill_subunits := [], gd_community_skills := [],
       gd_usage := map (\<lambda>u. u\<lparr>yr_skill_id := None\<rparr>) (gd_usage db)\<rparr>)"

definition insert_skill :: "skill_table_row \<Rightarrow> statement" where
  "insert_skill r db =
     (if kr_id r \<in> kr_id ` set (gd_skills db) \<or> kr_scope r \<notin> set scope_values then None
      else Some (db\<lparr>gd_skills := gd_skills db @ [r]\<rparr>))"

definition insert_subunit :: "subunit_row \<Rightarrow> statement" where
  "insert_subunit r db =
     (if nr_id r \<in> nr_id ` set (gd_subunits db) then None else Some (db\<lparr>gd_subunits := gd_subunits db @ [r]\<rparr>))"

definition insert_skill_subunit :: "skill_subunit_row \<Rightarrow> statement" where
  "insert_skill_subunit r db =
     (if (ks_skill_id r, ks_subunit_id r) \<in> (\<lambda>r. (ks_skill_id r, ks_subunit_id r)) ` set (gd_skill_subunits db)
        \<or> ks_skill_id r \<notin> kr_id ` set (gd_skills db) \<or> ks_subunit_id r \<notin> nr_id ` set (gd_subunits db) then None
      else Some (db\<lparr>gd_skill_subunits := gd_skill_subunits db @ [r]\<rparr>))"

definition insert_community :: "community_row \<Rightarrow> statement" where
  "insert_community r db =
     (if mr_id r \<in> mr_id ` set (gd_communities db) \<or> mr_scope r \<notin> set scope_values then None
      else Some (db\<lparr>gd_communities := gd_communities db @ [r]\<rparr>))"

definition insert_community_skill :: "community_skill_row \<Rightarrow> statement" where
  "insert_community_skill r db =
     (if r \<in> set (gd_community_skills db) \<or> ms_source r \<notin> {''hdbscan'', ''tag''}
        \<or> ms_community_id r \<notin> mr_id ` set (gd_communities db) \<or> ms_skill_id r \<notin> kr_id ` set (gd_skills db) then None
      else Some (db\<lparr>gd_community_skills := gd_community_skills db @ [r]\<rparr>))"

text \<open>The version is a \<open>BIGINT\<close>; a missing singleton row is an error of the fetch.\<close>

definition bump_state :: "int option \<Rightarrow> statement" where
  "bump_state rebuilt_at db =
     (case gd_graph_state db of
        None \<Rightarrow> None
      | Some (v, r) \<Rightarrow>
          if 2 ^ 63 \<le> v + 1 then None
          else Some (db\<lparr>gd_graph_state := Some (v + 1, case rebuilt_at of None \<Rightarrow> r | Some t \<Rightarrow> Some t)\<rparr>))"

definition state_version :: "graph_db \<Rightarrow> int" where
  "state_version db = (case gd_graph_state db of None \<Rightarrow> 0 | Some (v, _) \<Rightarrow> v)"

definition update_skill_versions :: statement where
  "update_skill_versions db =
     Some (db\<lparr>gd_skills := map (\<lambda>s. s\<lparr>kr_graph_version := state_version db\<rparr>) (gd_skills db)\<rparr>)"

section \<open>Stable identifiers\<close>

definition hex_digit :: "nat \<Rightarrow> char" where
  "hex_digit n = ''0123456789abcdef'' ! (n mod 16)"

definition hex_byte :: "nat \<Rightarrow> string" where
  "hex_byte b = [hex_digit (b div 16), hex_digit b]"

definition uuid_of_bytes :: "nat list \<Rightarrow> uuid" where
  "uuid_of_bytes bs =
     (let hex = (\<lambda>i n. concat (map hex_byte (take n (drop i bs)))) in
      join ''-'' [hex 0 4, hex 4 2, hex 6 2, hex 8 2, hex 10 6])"

definition stable_uuid :: "(string \<Rightarrow> nat list) \<Rightarrow> string \<Rightarrow> string \<Rightarrow> uuid" where
  "stable_uuid blake3 entity_kind stable_id =
     (let bytes = map (\<lambda>b. b mod 256) (take 16 (blake3 (entity_kind @ '':'' @ stable_id)));
          bytes = bytes[6 := bytes ! 6 mod 16 + 64];
          bytes = bytes[8 := bytes ! 8 mod 64 + 128]
      in uuid_of_bytes bytes)"

definition stable_skill_uuid :: "(string \<Rightarrow> nat list) \<Rightarrow> string \<Rightarrow> uuid" where
  "stable_skill_uuid blake3 stable_id = stable_uuid blake3 ''skill'' stable_id"

fun scope_to_db_value :: "scope_type \<Rightarrow> string" where
  "scope_to_db_value Project = ''project''"
| "scope_to_db_value Global = ''global''"
| "scope_to_db_value Team = ''team''"

definition scope_from_db_value :: "string \<Rightarrow> (rebuild_error, scope_type) result" where
  "scope_from_db_value value =
     (if value = ''project'' then Ok Project
      else if value = ''global'' then Ok Global
      else if value = ''team'' then Ok Team
      else Err (RbInvalidContract (''unknown scope value in persistence: '' @ value)))"

fun subunit_kind_to_db_value :: "subunit_type \<Rightarrow> string" where
  "subunit_kind_to_db_value Procedure = ''procedure''"
| "subunit_kind_to_db_value Convention = ''convention''"
| "subunit_kind_to_db_value Asset = ''asset''"
| "subunit_kind_to_db_value Evidence = ''evidence''"
| "subunit_kind_to_db_value Summary = ''summary''"

section \<open>Replacing the graph\<close>

record live_graph_subunit_record =
  lu_kind :: subunit_type
  lu_title :: string
  lu_content :: string

record live_graph_skill_record =
  lk_stable_id :: string
  lk_name :: string
  lk_description :: string
  lk_scope :: scope_type
  lk_tags :: "string list"
  lk_source_paths :: "string list"
  lk_subunits :: "live_graph_subunit_record list"

record live_graph_community_record =
  lc_stable_id :: string
  lc_name :: string
  lc_scope :: scope_type
  lc_member_skill_ids :: "string list"
  lc_source :: string

record live_graph_snapshot_mutation =
  gm_rebuilt_at :: int
  gm_skills :: "live_graph_skill_record list"
  gm_communities :: "live_graph_community_record list"

definition wrap_i32 :: "nat \<Rightarrow> int" where
  "wrap_i32 n = (int n + 2 ^ 31) mod 2 ^ 32 - 2 ^ 31"

definition skill_row_of :: "(string \<Rightarrow> nat list) \<Rightarrow> live_graph_skill_record \<Rightarrow> skill_table_row" where
  "skill_row_of blake3 s =
     \<lparr>kr_id = stable_uuid blake3 ''skill'' (lk_stable_id s), kr_name = lk_name s, kr_description = lk_description s,
      kr_scope = scope_to_db_value (lk_scope s), kr_status = ''ready'', kr_lifecycle = ''active'', kr_tags = lk_tags s,
      kr_source_paths = lk_source_paths s, kr_merged_from_scopes = [], kr_graph_version = 0\<rparr>"

definition subunit_row_of :: "(string \<Rightarrow> nat list) \<Rightarrow> string \<Rightarrow> nat \<times> live_graph_subunit_record \<Rightarrow> subunit_row" where
  "subunit_row_of blake3 stable_id pu =
     (case pu of (position, u) \<Rightarrow>
       \<lparr>nr_id = stable_uuid blake3 ''subunit'' (stable_id @ '':'' @ nat_str position @ '':'' @ lu_title u),
        nr_kind = subunit_kind_to_db_value (lu_kind u), nr_title = lu_title u, nr_content = lu_content u, nr_lifecycle = ''active''\<rparr>)"

definition skill_subunit_row_of :: "(string \<Rightarrow> nat list) \<Rightarrow> string \<Rightarrow> nat \<times> live_graph_subunit_record \<Rightarrow> skill_subunit_row" where
  "skill_subunit_row_of blake3 stable_id pu =
     \<lparr>ks_skill_id = stable_uuid blake3 ''skill'' stable_id, ks_subunit_id = nr_id (subunit_row_of blake3 stable_id pu),
      ks_position = wrap_i32 (fst pu)\<rparr>"

definition skill_statements :: "(string \<Rightarrow> nat list) \<Rightarrow> live_graph_skill_record \<Rightarrow> statement list" where
  "skill_statements blake3 s =
     insert_skill (skill_row_of blake3 s) #
     concat (map (\<lambda>pu. [insert_subunit (subunit_row_of blake3 (lk_stable_id s) pu),
                        insert_skill_subunit (skill_subunit_row_of blake3 (lk_stable_id s) pu)])
       (enumerate 0 (lk_subunits s)))"

definition community_row_of :: "(string \<Rightarrow> nat list) \<Rightarrow> live_graph_community_record \<Rightarrow> community_row" where
  "community_row_of blake3 c =
     \<lparr>mr_id = stable_uuid blake3 ''community'' (lc_stable_id c), mr_name = lc_name c,
      mr_description = ''Auto-generated community '' @ lc_name c, mr_scope = scope_to_db_value (lc_scope c), mr_lifecycle = ''active''\<rparr>"

definition community_skill_rows_of :: "(string \<Rightarrow> nat list) \<Rightarrow> live_graph_community_record \<Rightarrow> community_skill_row list" where
  "community_skill_rows_of blake3 c =
     map (\<lambda>m. \<lparr>ms_community_id = stable_uuid blake3 ''community'' (lc_stable_id c), ms_skill_id = stable_uuid blake3 ''skill'' m,
       ms_source = lc_source c\<rparr>) (lc_member_skill_ids c)"

definition community_statements :: "(string \<Rightarrow> nat list) \<Rightarrow> live_graph_community_record \<Rightarrow> statement list" where
  "community_statements blake3 c =
     insert_community (community_row_of blake3 c) # map insert_community_skill (community_skill_rows_of blake3 c)"

definition replace_statements :: "(string \<Rightarrow> nat list) \<Rightarrow> live_graph_snapshot_mutation \<Rightarrow> statement list" where
  "replace_statements blake3 mutation =
     [delete_community_skills, delete_skill_subunits, delete_communities, delete_subunits, delete_skills] @
     concat (map (skill_statements blake3) (gm_skills mutation)) @
     concat (map (community_statements blake3) (gm_communities mutation)) @
     [bump_state (Some (gm_rebuilt_at mutation)), update_skill_versions]"

definition replace_snapshot_and_bump_version ::
  "(string \<Rightarrow> nat list) \<Rightarrow> tx_env \<Rightarrow> live_graph_snapshot_mutation \<Rightarrow> graph_db \<Rightarrow> (rebuild_error, int) result \<times> graph_db" where
  "replace_snapshot_and_bump_version blake3 tx mutation db =
     (case run_transaction tx (replace_statements blake3 mutation) db of
        (None, db') \<Rightarrow> (Err RbPersistence, db')
      | (Some _, db') \<Rightarrow> (Ok (state_version db'), db'))"

text \<open>The version alone, in a statement of its own.\<close>

definition bump_graph_version :: "tx_env \<Rightarrow> graph_db \<Rightarrow> (rebuild_error, int) result \<times> graph_db" where
  "bump_graph_version tx db =
     (case run_transaction tx [bump_state None] db of
        (None, db') \<Rightarrow> (Err RbPersistence, db')
      | (Some _, db') \<Rightarrow> (Ok (state_version db'), db'))"

text \<open>The coordinator's read fails without the singleton row, the snapshot store's reads 0.\<close>

definition coordinator_graph_version :: "bool \<Rightarrow> graph_db \<Rightarrow> (rebuild_error, int) result" where
  "coordinator_graph_version up db =
     (if \<not> up \<or> gd_graph_state db = None then Err RbPersistence else Ok (state_version db))"

definition stored_graph_version :: "bool \<Rightarrow> graph_db \<Rightarrow> (rebuild_error, int) result" where
  "stored_graph_version up db = (if up then Ok (state_version db) else Err RbPersistence)"


section \<open>Read projections\<close>

record persisted_subunit_record =
  pu_subunit_id :: string
  pu_kind :: string
  pu_title :: string
  pu_content :: string

record persisted_skill_record =
  pk_skill_id :: string
  pk_name :: string
  pk_description :: string
  pk_scope :: string
  pk_tags :: "string list"
  pk_source_paths :: "string list"
  pk_community_ids :: "string list"
  pk_subunits :: "persisted_subunit_record list"

record persisted_community_record =
  py_community_id :: string
  py_name :: string
  py_scope :: scope_type
  py_member_skill_ids :: "string list"

text \<open>The join of the subunits in the order of skill and position; equal positions keep the table's order.\<close>

definition position_le :: "skill_subunit_row \<times> subunit_row \<Rightarrow> skill_subunit_row \<times> subunit_row \<Rightarrow> bool" where
  "position_le a b \<longleftrightarrow> ks_skill_id (fst a) < ks_skill_id (fst b) \<or>
     (ks_skill_id (fst a) = ks_skill_id (fst b) \<and> ks_position (fst a) \<le> ks_position (fst b))"

definition joined_subunits :: "graph_db \<Rightarrow> (skill_subunit_row \<times> subunit_row) list" where
  "joined_subunits db =
     concat (map (\<lambda>k. map (\<lambda>n. (k, n)) (filter (\<lambda>n. nr_id n = ks_subunit_id k) (gd_subunits db))) (gd_skill_subunits db))"

definition persisted_subunit :: "subunit_row \<Rightarrow> persisted_subunit_record" where
  "persisted_subunit n = \<lparr>pu_subunit_id = nr_id n, pu_kind = nr_kind n, pu_title = nr_title n, pu_content = nr_content n\<rparr>"

definition subunits_of_skill :: "graph_db \<Rightarrow> uuid \<Rightarrow> persisted_subunit_record list" where
  "subunits_of_skill db skill =
     map (persisted_subunit \<circ> snd) (filter (\<lambda>(k, _). ks_skill_id k = skill) (sort_by position_le (joined_subunits db)))"

text \<open>\<open>distinct\_order\<close> is the order of an aggregate over distinct values.\<close>

definition communities_of_skill :: "(string list \<Rightarrow> string list) \<Rightarrow> graph_db \<Rightarrow> uuid \<Rightarrow> string list" where
  "communities_of_skill distinct_order db skill =
     distinct_order (remdups (map ms_community_id (filter (\<lambda>m. ms_skill_id m = skill \<and> ms_community_id m \<in> mr_id ` set (gd_communities db))
       (gd_community_skills db))))"

definition skill_id_le :: "skill_table_row \<Rightarrow> skill_table_row \<Rightarrow> bool" where
  "skill_id_le a b \<longleftrightarrow> kr_id a \<le> kr_id b"

definition list_skills :: "(string list \<Rightarrow> string list) \<Rightarrow> bool \<Rightarrow> graph_db \<Rightarrow> (rebuild_error, persisted_skill_record list) result" where
  "list_skills distinct_order up db =
     (if \<not> up then Err RbPersistence
      else Ok (map (\<lambda>s. \<lparr>pk_skill_id = kr_id s, pk_name = kr_name s, pk_description = kr_description s, pk_scope = kr_scope s,
             pk_tags = kr_tags s, pk_source_paths = kr_source_paths s, pk_community_ids = communities_of_skill distinct_order db (kr_id s),
             pk_subunits = subunits_of_skill db (kr_id s)\<rparr>)
         (sort_by skill_id_le (filter (\<lambda>s. kr_lifecycle s = ''active'') (gd_skills db)))))"

fun persisted_communities :: "graph_db \<Rightarrow> community_row list \<Rightarrow> (rebuild_error, persisted_community_record list) result" where
  "persisted_communities db [] = Ok []"
| "persisted_communities db (c # cs) =
     rbind (scope_from_db_value (mr_scope c)) (\<lambda>scope.
     rbind (persisted_communities db cs) (\<lambda>rest.
       Ok (\<lparr>py_community_id = mr_id c, py_name = mr_name c, py_scope = scope,
            py_member_skill_ids = sort (map ms_skill_id (filter (\<lambda>m. ms_community_id m = mr_id c) (gd_community_skills db)))\<rparr> # rest)))"

definition list_communities :: "bool \<Rightarrow> graph_db \<Rightarrow> (rebuild_error, persisted_community_record list) result" where
  "list_communities up db =
     (if \<not> up then Err RbPersistence
      else persisted_communities db
        (sort_by (\<lambda>a b. mr_id a \<le> mr_id b) (filter (\<lambda>c. mr_lifecycle c = ''active'') (gd_communities db))))"

section \<open>Rebuild locks\<close>

text \<open>A lease is in milliseconds; \<open>now\<close> is the client's clock, \<open>server\_now\<close> the database's.\<close>

definition lease_end :: "int \<Rightarrow> nat \<Rightarrow> (rebuild_error, int) result" where
  "lease_end now lease_duration =
     (if 2 ^ 63 \<le> lease_duration then Err (RbInvalidContract ''Source duration value is out of range for the target type'')
      else Ok (now + int lease_duration))"

definition try_acquire_lock ::
  "bool \<Rightarrow> int \<Rightarrow> int \<Rightarrow> string \<Rightarrow> uuid \<Rightarrow> nat \<Rightarrow> graph_db \<Rightarrow> (rebuild_error, bool) result \<times> graph_db" where
  "try_acquire_lock up now server_now lock_name owner_id lease_duration db =
     (if trim lock_name = [] then (Err (RbInvalidContract ''lock_name must not be blank''), db)
      else case lease_end now lease_duration of
          Err e \<Rightarrow> (Err e, db)
        | Ok expires \<Rightarrow>
            if \<not> up then (Err RbPersistence, db)
            else (let lock = \<lparr>kl_lock_name = lock_name, kl_owner_id = owner_id, kl_acquired_at = server_now, kl_expires_at = expires\<rparr>;
                      hit = (\<lambda>l. kl_lock_name l = lock_name \<and> (kl_expires_at l \<le> server_now \<or> kl_owner_id l = owner_id))
                  in if lock_name \<notin> kl_lock_name ` set (gd_locks db) then (Ok True, db\<lparr>gd_locks := gd_locks db @ [lock]\<rparr>)
                     else (Ok (list_ex hit (gd_locks db)), db\<lparr>gd_locks := map (\<lambda>l. if hit l then lock else l) (gd_locks db)\<rparr>)))"

definition renew_lock ::
  "bool \<Rightarrow> int \<Rightarrow> string \<Rightarrow> uuid \<Rightarrow> nat \<Rightarrow> graph_db \<Rightarrow> (rebuild_error, bool) result \<times> graph_db" where
  "renew_lock up now lock_name owner_id lease_duration db =
     (case lease_end now lease_duration of
        Err e \<Rightarrow> (Err e, db)
      | Ok expires \<Rightarrow>
          if \<not> up then (Err RbPersistence, db)
          else (let own = (\<lambda>l. kl_lock_name l = lock_name \<and> kl_owner_id l = owner_id) in
            (Ok (list_ex own (gd_locks db)),
             db\<lparr>gd_locks := map (\<lambda>l. if own l then l\<lparr>kl_expires_at := expires\<rparr> else l) (gd_locks db)\<rparr>)))"

definition release_lock :: "bool \<Rightarrow> string \<Rightarrow> uuid \<Rightarrow> graph_db \<Rightarrow> (rebuild_error, unit) result \<times> graph_db" where
  "release_lock up lock_name owner_id db =
     (if \<not> up then (Err RbPersistence, db)
      else (Ok (), db\<lparr>gd_locks := filter (\<lambda>l. \<not> (kl_lock_name l = lock_name \<and> kl_owner_id l = owner_id)) (gd_locks db)\<rparr>))"

section \<open>The usage log (usage.rs)\<close>

record skill_selection_record =
  sl_skill_id :: string
  sl_relevance_score :: f32
  sl_context_status :: string

record session_usage_record =
  su_session_id :: string
  su_prompt_hash :: string
  su_scope :: string
  su_latency_ms :: int
  su_status :: string
  su_selected_skills :: "skill_selection_record list"

datatype usage_error = UsDatabase | UsInvalidContract string

text \<open>Identifiers are parsed by the UUID library, and new ones are supplied; \<open>NOW()\<close> is the transaction's.\<close>

record usage_env =
  ue_parse_uuid :: "string \<Rightarrow> uuid option"
  ue_log_id :: uuid
  ue_usage_id :: "nat \<Rightarrow> uuid"
  ue_now :: int

definition context_statuses :: "string list" where
  "context_statuses = [''ok'', ''no_match'', ''degraded'', ''duplicate_suppressed'']"

definition insert_session_log :: "session_log_row \<Rightarrow> statement" where
  "insert_session_log r db =
     (if ylr_id r \<in> ylr_id ` set (gd_session_logs db) \<or> ylr_scope r \<notin> set scope_values \<or> ylr_status r \<notin> set context_statuses then None
      else Some (db\<lparr>gd_session_logs := gd_session_logs db @ [r]\<rparr>))"

definition insert_usages :: "usage_row list \<Rightarrow> statement" where
  "insert_usages rs db =
     (if \<not> distinct (map yr_id rs @ map yr_id (gd_usage db)) \<or>
         list_ex (\<lambda>r. case yr_skill_id r of None \<Rightarrow> False | Some s \<Rightarrow> s \<notin> kr_id ` set (gd_skills db)) rs then None
      else Some (db\<lparr>gd_usage := gd_usage db @ rs\<rparr>))"

fun usage_rows :: "usage_env \<Rightarrow> string \<Rightarrow> nat \<Rightarrow> skill_selection_record list \<Rightarrow> (usage_error, usage_row list) result" where
  "usage_rows env session_id i [] = Ok []"
| "usage_rows env session_id i (s # ss) =
     (case ue_parse_uuid env (sl_skill_id s) of
        None \<Rightarrow> Err (UsInvalidContract (''skill_id '' @ [CHR 0x27] @ sl_skill_id s @ [CHR 0x27] @ '' is not a valid UUID''))
      | Some skill \<Rightarrow>
          if sl_context_status s \<notin> set context_statuses
          then Err (UsInvalidContract (''context_status must be one of ok/no_match/degraded/duplicate_suppressed; got '' @
                 [CHR 0x27] @ sl_context_status s @ [CHR 0x27]))
          else rbind (usage_rows env session_id (Suc i) ss) (\<lambda>rest.
            Ok (\<lparr>yr_id = ue_usage_id env i, yr_session_id = session_id, yr_skill_id = Some skill, yr_usage_count = 1,
                 yr_context_status = sl_context_status s, yr_relevance_score = Some (sl_relevance_score s), yr_used_at = ue_now env\<rparr> # rest)))"

definition write_session_usage ::
  "usage_env \<Rightarrow> tx_env \<Rightarrow> session_usage_record \<Rightarrow> graph_db \<Rightarrow> (usage_error, unit) result \<times> graph_db" where
  "write_session_usage env tx record db =
     (if su_scope record \<notin> set scope_values
      then (Err (UsInvalidContract (''scope must be '' @ [CHR 0x27] @ ''project'' @ [CHR 0x27] @ '', '' @ [CHR 0x27] @ ''global'' @ [CHR 0x27] @
              '', or '' @ [CHR 0x27] @ ''team'' @ [CHR 0x27] @ ''; got '' @ [CHR 0x27] @ su_scope record @ [CHR 0x27])), db)
      else (let log = insert_session_log \<lparr>ylr_id = ue_log_id env, ylr_session_id = su_session_id record, ylr_scope = su_scope record,
                  ylr_prompt_hash = su_prompt_hash record, ylr_latency_ms = su_latency_ms record, ylr_status = su_status record\<rparr>
            in case usage_rows env (su_session_id record) 0 (su_selected_skills record) of
                 Err e \<Rightarrow>
                   (if \<not> tx_begins tx \<or> run_statements (tx_fails tx) 0 [log] db = None then Err UsDatabase else Err e, db)
               | Ok rows \<Rightarrow>
                   (case run_transaction tx (log # (if rows = [] then [] else [insert_usages rows])) db of
                      (None, db') \<Rightarrow> (Err UsDatabase, db')
                    | (Some _, db') \<Rightarrow> (Ok (), db'))))"

text \<open>
  The aggregate over the log.  A requested identifier counts its rows once per time it is requested; ages are days
  of 86400 seconds, clocks are in microseconds.  \<open>decode\<close> is how the driver reads the age, which the database
  computes as a \<open>numeric\<close>; \<open>order\<close> is the order of the groups.
\<close>

record aged_usage_summary = skill_usage_summary +
  us_age_days :: "nat option"

record usage_read_env =
  ur_up :: bool
  ur_now :: int
  ur_parse_uuid :: "string \<Rightarrow> uuid option"
  ur_decode :: "rat \<Rightarrow> rat option"
  ur_order :: "uuid list \<Rightarrow> uuid list"

definition wrap_u32 :: "nat \<Rightarrow> nat" where "wrap_u32 n = n mod 2 ^ 32"

definition saturate_u32 :: "rat \<Rightarrow> nat" where "saturate_u32 q = min (2 ^ 32 - 1) (nat \<lfloor>max 0 q\<rfloor>)"

definition usage_summary :: "usage_read_env \<Rightarrow> uuid list \<Rightarrow> int \<Rightarrow> usage_row list \<Rightarrow> uuid \<Rightarrow> (usage_error, aged_usage_summary) result" where
  "usage_summary env requested window_days usage skill =
     (let own = filter (\<lambda>u. yr_skill_id u = Some skill) usage;
          times = count_list requested skill;
          summary = (\<lambda>age. \<lparr>us_skill_id = skill, us_total_count = wrap_u32 (times * length own),
            us_windowed_count = wrap_u32 (times * length (filter (\<lambda>u. ur_now env - window_days * 86400000000 \<le> yr_used_at u) own)),
            us_last_used_at = (if own = [] then None else Some (Max (set (map yr_used_at own)))), us_age_days = age\<rparr>)
      in if own = [] then Ok (summary None)
         else case ur_decode env (Fract (ur_now env - Max (set (map yr_used_at own))) 86400000000) of
             None \<Rightarrow> Err UsDatabase
           | Some days \<Rightarrow> Ok (summary (Some (saturate_u32 days))))"

fun all_ok :: "('e, 'a) result list \<Rightarrow> ('e, 'a list) result" where
  "all_ok [] = Ok []"
| "all_ok (r # rs) = rbind r (\<lambda>a. rbind (all_ok rs) (\<lambda>as. Ok (a # as)))"

definition recent_usage ::
  "usage_read_env \<Rightarrow> graph_db \<Rightarrow> string list \<Rightarrow> int \<Rightarrow> (usage_error, aged_usage_summary list) result" where
  "recent_usage env db skill_ids window_days =
     (if skill_ids = [] then Ok []
      else if list_ex (\<lambda>i. ur_parse_uuid env i = None) skill_ids
      then Err (UsInvalidContract ''one or more skill_ids are not valid UUIDs'')
      else if \<not> ur_up env then Err UsDatabase
      else (let requested = List.map_filter (ur_parse_uuid env) skill_ids in
            all_ok (map (usage_summary env requested window_days (gd_usage db)) (ur_order env (remdups requested)))))"


section \<open>Keys and references\<close>

text \<open>The primary keys, references and checks of the graph's five tables.\<close>

definition graph_ok :: "graph_db \<Rightarrow> bool" where
  "graph_ok db \<longleftrightarrow> distinct (map kr_id (gd_skills db)) \<and> distinct (map nr_id (gd_subunits db)) \<and>
     distinct (map mr_id (gd_communities db)) \<and>
     distinct (map (\<lambda>r. (ks_skill_id r, ks_subunit_id r)) (gd_skill_subunits db)) \<and> distinct (gd_community_skills db) \<and>
     list_all (\<lambda>r. ks_skill_id r \<in> kr_id ` set (gd_skills db) \<and> ks_subunit_id r \<in> nr_id ` set (gd_subunits db)) (gd_skill_subunits db) \<and>
     list_all (\<lambda>r. ms_community_id r \<in> mr_id ` set (gd_communities db) \<and> ms_skill_id r \<in> kr_id ` set (gd_skills db) \<and>
       ms_source r \<in> {''hdbscan'', ''tag''}) (gd_community_skills db) \<and>
     list_all (\<lambda>r. kr_scope r \<in> set scope_values) (gd_skills db) \<and> list_all (\<lambda>r. mr_scope r \<in> set scope_values) (gd_communities db)"

text \<open>With those of the usage log, the session log and the locks.\<close>

definition store_ok :: "graph_db \<Rightarrow> bool" where
  "store_ok db \<longleftrightarrow> graph_ok db \<and> distinct (map yr_id (gd_usage db)) \<and>
     list_all (\<lambda>u. set_option (yr_skill_id u) \<subseteq> kr_id ` set (gd_skills db)) (gd_usage db) \<and>
     distinct (map ylr_id (gd_session_logs db)) \<and> distinct (map kl_lock_name (gd_locks db))"

definition keeps :: "(graph_db \<Rightarrow> bool) \<Rightarrow> statement \<Rightarrow> bool" where
  "keeps I s \<longleftrightarrow> (\<forall>db db'. I db \<longrightarrow> s db = Some db' \<longrightarrow> I db')"

lemma run_keeps: "list_all (keeps I) ss \<Longrightarrow> I db \<Longrightarrow> run_statements fails k ss db = Some db' \<Longrightarrow> I db'"
proof (induction ss arbitrary: k db)
  case (Cons s ss)
  from Cons.prems(3) obtain db1 where "s db = Some db1" "run_statements fails (Suc k) ss db1 = Some db'"
    by (auto simp: bind_eq_Some_conv split: if_splits)
  with Cons show ?case by (auto simp: keeps_def)
qed simp

lemma run_statements_append:
  "run_statements fails k (ss @ ts) db = Option.bind (run_statements fails k ss db) (run_statements fails (k + length ss) ts)"
proof (induction ss arbitrary: k db)
  case (Cons s ss)
  then show ?case by (cases "s db") simp_all
qed simp

lemmas statement_defs = delete_community_skills_def delete_skill_subunits_def delete_communities_def delete_subunits_def
  delete_skills_def insert_skill_def insert_subunit_def insert_skill_subunit_def insert_community_def
  insert_community_skill_def bump_state_def update_skill_versions_def

lemma keeps_deletes:
  "keeps store_ok delete_community_skills" "keeps store_ok delete_skill_subunits" "keeps store_ok delete_communities"
  "keeps store_ok delete_subunits" "keeps store_ok delete_skills"
  by (auto simp: keeps_def store_ok_def graph_ok_def statement_defs list_all_iff o_def)

lemma keeps_inserts:
  "keeps graph_ok (insert_skill r)" "keeps graph_ok (insert_subunit n)" "keeps graph_ok (insert_skill_subunit k)"
  "keeps graph_ok (insert_community c)" "keeps graph_ok (insert_community_skill m)"
  by (auto simp: keeps_def graph_ok_def statement_defs list_all_iff split: if_splits)

text \<open>An insert into the graph leaves the logs and locks alone and no skill out.\<close>

definition extends :: "statement \<Rightarrow> bool" where
  "extends s \<longleftrightarrow> (\<forall>db db'. s db = Some db' \<longrightarrow> gd_usage db' = gd_usage db \<and> gd_session_logs db' = gd_session_logs db \<and>
     gd_locks db' = gd_locks db \<and> gd_graph_state db' = gd_graph_state db \<and> kr_id ` set (gd_skills db) \<subseteq> kr_id ` set (gd_skills db'))"

lemma extends_inserts:
  "extends (insert_skill r)" "extends (insert_subunit n)" "extends (insert_skill_subunit k)" "extends (insert_community c)"
  "extends (insert_community_skill m)"
  by (auto simp: extends_def statement_defs split: if_splits)

lemma keeps_store:
  assumes "keeps graph_ok s" and "extends s"
  shows "keeps store_ok s"
proof -
  have "store_ok db'" if ok: "store_ok db" and s: "s db = Some db'" for db db'
  proof -
    have "graph_ok db'" using assms(1) ok s unfolding keeps_def store_ok_def by blast
    moreover have "gd_usage db' = gd_usage db" "gd_session_logs db' = gd_session_logs db" "gd_locks db' = gd_locks db"
      "kr_id ` set (gd_skills db) \<subseteq> kr_id ` set (gd_skills db')"
      using assms(2) s by (simp_all add: extends_def)
    ultimately show ?thesis using ok unfolding store_ok_def list_all_iff by (simp only:) blast
  qed
  then show ?thesis by (simp add: keeps_def)
qed

lemma keeps_versions: "keeps store_ok (bump_state t)" "keeps store_ok update_skill_versions"
  by (auto simp: keeps_def store_ok_def graph_ok_def statement_defs list_all_iff o_def image_image split: option.splits if_splits prod.splits)

lemma graph_inserts:
  "list_all (keeps graph_ok) (concat (map (skill_statements b) skills) @ concat (map (community_statements b) cs))"
  "list_all extends (concat (map (skill_statements b) skills) @ concat (map (community_statements b) cs))"
  by (auto simp: list_all_iff skill_statements_def community_statements_def keeps_inserts extends_inserts)

lemma replace_keeps: "list_all (keeps store_ok) (replace_statements b m)"
proof -
  have "keeps store_ok s" if "s \<in> set (concat (map (skill_statements b) (gm_skills m)) @ concat (map (community_statements b) (gm_communities m)))" for s
    using graph_inserts [of b "gm_skills m" "gm_communities m"] that by (intro keeps_store) (auto simp: list_all_iff)
  then show ?thesis unfolding replace_statements_def by (auto simp: list_all_iff keeps_deletes keeps_versions)
qed

lemma transaction_keeps:
  assumes "list_all (keeps I) ss" and "I db" and "run_transaction tx ss db = (r, db')"
  shows "I db'"
  using assms run_keeps [OF assms(1,2), of "tx_fails tx" 0]
  by (auto simp: run_transaction_def split: if_splits option.splits commit_outcome.splits)

lemma transaction_atomic:
  "run_transaction tx ss db = (None, db') \<Longrightarrow> tx_commit tx \<noteq> Unheard \<Longrightarrow> db' = db"
  by (auto simp: run_transaction_def split: if_splits option.splits commit_outcome.splits)

lemma transaction_Some:
  "run_transaction tx ss db = (Some x, db') \<Longrightarrow> x = db' \<and> run_statements (tx_fails tx) 0 ss db = Some db'"
  by (auto simp: run_transaction_def split: if_splits option.splits commit_outcome.splits)

section \<open>What a rebuild stores\<close>

definition subunit_rows :: "(string \<Rightarrow> nat list) \<Rightarrow> live_graph_skill_record \<Rightarrow> subunit_row list" where
  "subunit_rows b s = map (subunit_row_of b (lk_stable_id s)) (enumerate 0 (lk_subunits s))"

definition skill_subunit_rows :: "(string \<Rightarrow> nat list) \<Rightarrow> live_graph_skill_record \<Rightarrow> skill_subunit_row list" where
  "skill_subunit_rows b s = map (skill_subunit_row_of b (lk_stable_id s)) (enumerate 0 (lk_subunits s))"

lemma run_subunits:
  "run_statements fails k (concat (map (\<lambda>pu. [insert_subunit (subunit_row_of b i pu), insert_skill_subunit (skill_subunit_row_of b i pu)]) pus)) db = Some db' \<Longrightarrow>
   db' = db\<lparr>gd_subunits := gd_subunits db @ map (subunit_row_of b i) pus,
     gd_skill_subunits := gd_skill_subunits db @ map (skill_subunit_row_of b i) pus\<rparr>"
proof (induction pus arbitrary: k db)
  case (Cons pu pus)
  from Cons.prems obtain db1 db2 where 1: "insert_subunit (subunit_row_of b i pu) db = Some db1"
    and 2: "insert_skill_subunit (skill_subunit_row_of b i pu) db1 = Some db2"
    and rest: "run_statements fails (Suc (Suc k)) (concat (map (\<lambda>pu. [insert_subunit (subunit_row_of b i pu),
      insert_skill_subunit (skill_subunit_row_of b i pu)]) pus)) db2 = Some db'"
    by (auto simp: bind_eq_Some_conv split: if_splits)
  from 1 2 have "db2 = db\<lparr>gd_subunits := gd_subunits db @ [subunit_row_of b i pu],
      gd_skill_subunits := gd_skill_subunits db @ [skill_subunit_row_of b i pu]\<rparr>"
    by (auto simp: insert_subunit_def insert_skill_subunit_def split: if_splits)
  with Cons.IH [OF rest] show ?case by simp
qed simp

lemma run_skills:
  "run_statements fails k (concat (map (skill_statements b) skills)) db = Some db' \<Longrightarrow>
   db' = db\<lparr>gd_skills := gd_skills db @ map (skill_row_of b) skills,
     gd_subunits := gd_subunits db @ concat (map (subunit_rows b) skills),
     gd_skill_subunits := gd_skill_subunits db @ concat (map (skill_subunit_rows b) skills)\<rparr>"
proof (induction skills arbitrary: k db)
  case (Cons s skills)
  let ?subs = "concat (map (\<lambda>pu. [insert_subunit (subunit_row_of b (lk_stable_id s) pu),
      insert_skill_subunit (skill_subunit_row_of b (lk_stable_id s) pu)]) (enumerate 0 (lk_subunits s)))"
  have split: "skill_statements b s = insert_skill (skill_row_of b s) # ?subs" by (simp add: skill_statements_def)
  from Cons.prems obtain db1 db2 j where 1: "insert_skill (skill_row_of b s) db = Some db1"
    and 2: "run_statements fails (Suc k) ?subs db1 = Some db2"
    and 3: "run_statements fails j (concat (map (skill_statements b) skills)) db2 = Some db'"
    by (auto simp: split run_statements_append bind_eq_Some_conv split: if_splits)
  from 1 have "db1 = db\<lparr>gd_skills := gd_skills db @ [skill_row_of b s]\<rparr>" by (auto simp: insert_skill_def split: if_splits)
  with run_subunits [OF 2] Cons.IH [OF 3] show ?case by (simp add: subunit_rows_def skill_subunit_rows_def)
qed simp

lemma run_members:
  "run_statements fails k (map insert_community_skill rs) db = Some db' \<Longrightarrow> db' = db\<lparr>gd_community_skills := gd_community_skills db @ rs\<rparr>"
proof (induction rs arbitrary: k db)
  case (Cons r rs)
  from Cons.prems obtain db1 where db1: "insert_community_skill r db = Some db1"
    and rest: "run_statements fails (Suc k) (map insert_community_skill rs) db1 = Some db'"
    by (auto simp: bind_eq_Some_conv split: if_splits)
  from db1 have "db1 = db\<lparr>gd_community_skills := gd_community_skills db @ [r]\<rparr>"
    by (auto simp: insert_community_skill_def split: if_splits)
  with Cons.IH [OF rest] show ?case by simp
qed simp

lemma run_communities:
  "run_statements fails k (concat (map (community_statements b) cs)) db = Some db' \<Longrightarrow>
   db' = db\<lparr>gd_communities := gd_communities db @ map (community_row_of b) cs,
     gd_community_skills := gd_community_skills db @ concat (map (community_skill_rows_of b) cs)\<rparr>"
proof (induction cs arbitrary: k db)
  case (Cons c cs)
  have split: "community_statements b c = insert_community (community_row_of b c) # map insert_community_skill (community_skill_rows_of b c)"
    by (simp add: community_statements_def)
  from Cons.prems obtain db1 db2 j where 1: "insert_community (community_row_of b c) db = Some db1"
    and 2: "run_statements fails (Suc k) (map insert_community_skill (community_skill_rows_of b c)) db1 = Some db2"
    and 3: "run_statements fails j (concat (map (community_statements b) cs)) db2 = Some db'"
    by (auto simp: split run_statements_append bind_eq_Some_conv split: if_splits)
  from 1 have "db1 = db\<lparr>gd_communities := gd_communities db @ [community_row_of b c]\<rparr>" by (auto simp: insert_community_def split: if_splits)
  with run_members [OF 2] Cons.IH [OF 3] show ?case by simp
qed simp

definition emptied :: "graph_db \<Rightarrow> graph_db" where
  "emptied db = db\<lparr>gd_skills := [], gd_subunits := [], gd_skill_subunits := [], gd_communities := [], gd_community_skills := [],
     gd_usage := map (\<lambda>u. u\<lparr>yr_skill_id := None\<rparr>) (gd_usage db)\<rparr>"

definition stored_graph :: "(string \<Rightarrow> nat list) \<Rightarrow> live_graph_snapshot_mutation \<Rightarrow> graph_db \<Rightarrow> graph_db" where
  "stored_graph b m db = (emptied db)\<lparr>gd_skills := map (skill_row_of b) (gm_skills m),
     gd_subunits := concat (map (subunit_rows b) (gm_skills m)), gd_skill_subunits := concat (map (skill_subunit_rows b) (gm_skills m)),
     gd_communities := map (community_row_of b) (gm_communities m),
     gd_community_skills := concat (map (community_skill_rows_of b) (gm_communities m))\<rparr>"

lemma replace_stores:
  assumes "replace_snapshot_and_bump_version b tx m db = (Ok v, db')"
  shows "graph_ok (stored_graph b m db) \<and> v = state_version db + 1 \<and> state_version db' = v \<and>
    db' = (stored_graph b m db)\<lparr>gd_skills := map (\<lambda>s. (skill_row_of b s)\<lparr>kr_graph_version := v\<rparr>) (gm_skills m),
      gd_graph_state := Some (v, Some (gm_rebuilt_at m))\<rparr>"
proof -
  let ?inserts = "concat (map (skill_statements b) (gm_skills m)) @ concat (map (community_statements b) (gm_communities m))"
  from assms obtain x where "run_transaction tx (replace_statements b m) db = (Some x, db')" and v: "v = state_version db'"
    by (auto simp: replace_snapshot_and_bump_version_def split: option.split_asm prod.split_asm)
  then have "run_statements (tx_fails tx) 0 (replace_statements b m) db = Some db'" by (simp add: transaction_Some)
  moreover have "replace_statements b m = [delete_community_skills, delete_skill_subunits, delete_communities, delete_subunits, delete_skills] @
      (?inserts @ [bump_state (Some (gm_rebuilt_at m)), update_skill_versions])" (is "_ = ?deletes @ (_ @ ?last)")
    by (simp add: replace_statements_def)
  ultimately obtain db0 db1 i j where 0: "run_statements (tx_fails tx) 0 ?deletes db = Some db0"
    and 1: "run_statements (tx_fails tx) i ?inserts db0 = Some db1" and 2: "run_statements (tx_fails tx) j ?last db1 = Some db'"
    by (simp only: run_statements_append bind_eq_Some_conv) blast
  from 0 have db0: "db0 = emptied db"
    by (auto simp: delete_community_skills_def delete_skill_subunits_def delete_communities_def delete_subunits_def
        delete_skills_def emptied_def split: if_splits)
  note 1 = 1 [unfolded db0]
  from 1 have db1: "db1 = stored_graph b m db"
    by (auto simp: run_statements_append bind_eq_Some_conv stored_graph_def emptied_def dest!: run_skills run_communities)
  have "graph_ok (emptied db)" by (simp add: graph_ok_def emptied_def)
  from run_keeps [OF graph_inserts(1) this 1] db1 have ok: "graph_ok (stored_graph b m db)" by simp
  have state: "gd_graph_state (stored_graph b m db) = gd_graph_state db" "gd_skills (stored_graph b m db) = map (skill_row_of b) (gm_skills m)"
    by (simp_all add: stored_graph_def emptied_def)
  from 2 obtain u r where "gd_graph_state db = Some (u, r)"
    "db' = (stored_graph b m db)\<lparr>gd_skills := map (\<lambda>s. s\<lparr>kr_graph_version := u + 1\<rparr>) (map (skill_row_of b) (gm_skills m)),
      gd_graph_state := Some (u + 1, Some (gm_rebuilt_at m))\<rparr>"
    unfolding db1
    by (auto simp: bump_state_def update_skill_versions_def state state_version_def bind_eq_Some_conv
        split: option.split_asm if_splits)
  with ok v show ?thesis by (simp add: state_version_def o_def)
qed


section \<open>Reading the graph back\<close>

lemma position_le_preorder: "total_preorder position_le"
  by unfold_locales (auto simp: position_le_def)

interpretation by_position: total_preorder position_le
  by (rule position_le_preorder)

interpretation by_skill_id: total_preorder skill_id_le
  by unfold_locales (auto simp: skill_id_le_def)

definition subunit_view :: "persisted_subunit_record \<Rightarrow> string \<times> string \<times> string" where
  "subunit_view u = (pu_kind u, pu_title u, pu_content u)"

text \<open>What a reader sees of a skill, and what was given to the rebuild.\<close>

definition skill_view :: "persisted_skill_record \<Rightarrow> string \<times> string \<times> string \<times> string \<times> string list \<times> string list \<times> (string \<times> string \<times> string) list" where
  "skill_view k = (pk_skill_id k, pk_name k, pk_description k, pk_scope k, pk_tags k, pk_source_paths k, map subunit_view (pk_subunits k))"

definition live_view :: "(string \<Rightarrow> nat list) \<Rightarrow> live_graph_skill_record \<Rightarrow>
    string \<times> string \<times> string \<times> string \<times> string list \<times> string list \<times> (string \<times> string \<times> string) list" where
  "live_view b s = (stable_skill_uuid b (lk_stable_id s), lk_name s, lk_description s, scope_to_db_value (lk_scope s), lk_tags s,
     lk_source_paths s, map (\<lambda>u. (subunit_kind_to_db_value (lu_kind u), lu_title u, lu_content u)) (lk_subunits s))"

lemma unique_row: "distinct (map f xs) \<Longrightarrow> x \<in> set xs \<Longrightarrow> filter (\<lambda>y. f y = f x) xs = [x]"
proof (induction xs)
  case (Cons y ys)
  show ?case
  proof (cases "f y = f x")
    case True
    with Cons.prems have "y = x" by (auto simp: image_iff)
    with Cons.prems show ?thesis by (force simp: filter_empty_conv image_iff)
  next
    case False
    with Cons show ?thesis by auto
  qed
qed simp

lemma filter_concat_own:
  assumes "\<And>x y. x \<in> set xs \<Longrightarrow> y \<in> set (f x) \<Longrightarrow> key y = own x" and "distinct (map own xs)" and "s \<in> set xs"
  shows "filter (\<lambda>y. key y = own s) (concat (map f xs)) = f s"
  using assms
proof (induction xs)
  case (Cons x xs)
  have x: "filter (\<lambda>y. key y = own s) (f x) = (if x = s then f x else [])"
  proof (cases "x = s")
    case True
    then show ?thesis using Cons.prems(1) [of x] by (simp add: filter_id_conv)
  next
    case False
    then have "own x \<noteq> own s" using Cons.prems(2,3) by (auto simp: image_iff)
    then show ?thesis using Cons.prems(1) [of x] False by (simp add: filter_empty_conv)
  qed
  show ?case
  proof (cases "s \<in> set xs")
    case True
    with Cons.prems have "x \<noteq> s" by auto
    with Cons True x show ?thesis by simp
  next
    case False
    have "filter (\<lambda>y. key y = own s) (concat (map f xs)) = []"
      using Cons.prems False by (auto simp: filter_empty_conv image_iff) metis
    moreover have "x = s" using Cons.prems(3) False by simp
    ultimately show ?thesis using x by simp
  qed
qed simp

lemma wrap_i32_small: "n < 2 ^ 31 \<Longrightarrow> wrap_i32 n = int n"
  by (simp add: wrap_i32_def)

lemma enumerate_positions_sorted:
  "i + length us < 2 ^ 31 \<Longrightarrow> sorted_wrt position_le (map (\<lambda>pu. (skill_subunit_row_of b sid pu, subunit_row_of b sid pu)) (enumerate i us))"
proof (induction us arbitrary: i)
  case (Cons u us)
  have "position_le (skill_subunit_row_of b sid (i, u), n) (skill_subunit_row_of b sid pu, m)" if "pu \<in> set (enumerate (Suc i) us)" for pu n m
  proof -
    obtain j x where "pu = (j, x)" by (cases pu)
    moreover from this have "i < j" "j < 2 ^ 31" using that Cons.prems by (simp_all add: in_set_enumerate_eq)
    ultimately show ?thesis using Cons.prems by (simp add: position_le_def skill_subunit_row_of_def wrap_i32_small)
  qed
  with Cons show ?case by auto
qed simp

lemma joined_stored:
  assumes "graph_ok db" and "gd_skill_subunits db = concat (map (skill_subunit_rows b) ss)"
    and "gd_subunits db = concat (map (subunit_rows b) ss)"
  shows "joined_subunits db = concat (map (\<lambda>s. map (\<lambda>pu. (skill_subunit_row_of b (lk_stable_id s) pu, subunit_row_of b (lk_stable_id s) pu))
    (enumerate 0 (lk_subunits s))) ss)"
proof -
  have row: "filter (\<lambda>n. nr_id n = ks_subunit_id k) (gd_subunits db) = [subunit_row_of b (lk_stable_id s) pu]"
    if "s \<in> set ss" "pu \<in> set (enumerate 0 (lk_subunits s))" "k = skill_subunit_row_of b (lk_stable_id s) pu" for s pu k
  proof -
    have "subunit_row_of b (lk_stable_id s) pu \<in> set (gd_subunits db)" unfolding assms(3) using that by (auto simp: subunit_rows_def)
    with assms(1) have "filter (\<lambda>n. nr_id n = nr_id (subunit_row_of b (lk_stable_id s) pu)) (gd_subunits db) = [subunit_row_of b (lk_stable_id s) pu]"
      by (intro unique_row) (simp_all add: graph_ok_def)
    then show ?thesis by (simp add: that(3) skill_subunit_row_of_def)
  qed
  have single: "concat (map (\<lambda>k. map (Pair k) (filter (\<lambda>n. nr_id n = ks_subunit_id k) (gd_subunits db))) (skill_subunit_rows b s)) =
      map (\<lambda>pu. (skill_subunit_row_of b (lk_stable_id s) pu, subunit_row_of b (lk_stable_id s) pu)) (enumerate 0 (lk_subunits s))"
    if "s \<in> set ss" for s
  proof -
    have "concat (map (\<lambda>k. map (Pair k) (filter (\<lambda>n. nr_id n = ks_subunit_id k) (gd_subunits db))) (map (skill_subunit_row_of b (lk_stable_id s)) pus)) =
        map (\<lambda>pu. (skill_subunit_row_of b (lk_stable_id s) pu, subunit_row_of b (lk_stable_id s) pu)) pus"
      if "set pus \<subseteq> set (enumerate 0 (lk_subunits s))" for pus
      using that row [OF \<open>s \<in> set ss\<close>] by (induction pus) auto
    then show ?thesis by (simp add: skill_subunit_rows_def)
  qed
  have "joined_subunits db = concat (map (\<lambda>s. concat (map (\<lambda>k. map (Pair k) (filter (\<lambda>n. nr_id n = ks_subunit_id k) (gd_subunits db))) (skill_subunit_rows b s))) ss)"
    unfolding joined_subunits_def assms(2) by (induction ss) simp_all
  also have "\<dots> = concat (map (\<lambda>s. map (\<lambda>pu. (skill_subunit_row_of b (lk_stable_id s) pu, subunit_row_of b (lk_stable_id s) pu)) (enumerate 0 (lk_subunits s))) ss)"
    using single by (metis (mono_tags, lifting) map_cong)
  finally show ?thesis .
qed


context total_preorder begin

lemma sort_by_sorted: "sorted_wrt le xs \<Longrightarrow> sort_by le xs = xs"
proof (induction xs)
  case (Cons x xs)
  then show ?case by (cases xs) auto
qed simp

lemma filter_insert_by: "sorted_wrt le xs \<Longrightarrow> filter P (insert_by le x xs) = (if P x then insert_by le x (filter P xs) else filter P xs)"
proof (induction xs)
  case (Cons y ys)
  have "insert_by le x (filter P ys) = x # filter P ys" if "le x y"
    using that Cons.prems le_trans by (cases "filter P ys") (auto dest!: filter_eq_ConsD)
  with Cons show ?case by auto
qed simp

lemma filter_sort_by: "filter P (sort_by le xs) = sort_by le (filter P xs)"
  by (induction xs) (simp_all add: filter_insert_by sorted_sort_by)

end

definition community_view :: "persisted_community_record \<Rightarrow> string \<times> string \<times> scope_type \<times> string list" where
  "community_view c = (py_community_id c, py_name c, py_scope c, py_member_skill_ids c)"

definition live_community_view :: "(string \<Rightarrow> nat list) \<Rightarrow> live_graph_community_record \<Rightarrow> string \<times> string \<times> scope_type \<times> string list" where
  "live_community_view b c = (stable_uuid b ''community'' (lc_stable_id c), lc_name c, lc_scope c,
     sort (map (stable_skill_uuid b) (lc_member_skill_ids c)))"

lemma scope_read_back [simp]: "scope_from_db_value (scope_to_db_value s) = Ok s"
  by (cases s) (simp_all add: scope_from_db_value_def)

lemma subunits_read_back:
  assumes ok: "graph_ok db" and rows: "gd_skill_subunits db = concat (map (skill_subunit_rows b) ss)"
    "gd_subunits db = concat (map (subunit_rows b) ss)"
    and ids: "distinct (map (stable_uuid b ''skill'' \<circ> lk_stable_id) ss)" and s: "s \<in> set ss" "length (lk_subunits s) < 2 ^ 31"
  shows "map subunit_view (subunits_of_skill db (stable_uuid b ''skill'' (lk_stable_id s))) =
    map (\<lambda>u. (subunit_kind_to_db_value (lu_kind u), lu_title u, lu_content u)) (lk_subunits s)"
proof -
  let ?pairs = "\<lambda>s. map (\<lambda>pu. (skill_subunit_row_of b (lk_stable_id s) pu, subunit_row_of b (lk_stable_id s) pu)) (enumerate 0 (lk_subunits s))"
  have "filter (\<lambda>x. ks_skill_id (fst x) = (stable_uuid b ''skill'' \<circ> lk_stable_id) s) (concat (map ?pairs ss)) = ?pairs s"
    by (rule filter_concat_own [OF _ ids s(1)]) (auto simp: skill_subunit_row_of_def)
  moreover have "sort_by position_le (?pairs s) = ?pairs s"
    using enumerate_positions_sorted [of 0 "lk_subunits s" b "lk_stable_id s"] s(2) by (intro by_position.sort_by_sorted) simp
  ultimately have "subunits_of_skill db (stable_uuid b ''skill'' (lk_stable_id s)) = map (persisted_subunit \<circ> snd) (?pairs s)"
    unfolding subunits_of_skill_def joined_stored [OF ok rows] by_position.filter_sort_by by (simp add: case_prod_unfold)
  also have "map subunit_view \<dots> = map ((\<lambda>u. (subunit_kind_to_db_value (lu_kind u), lu_title u, lu_content u)) \<circ> snd) (enumerate 0 (lk_subunits s))"
    by (simp add: subunit_view_def persisted_subunit_def subunit_row_of_def o_def case_prod_unfold)
  also have "\<dots> = map (\<lambda>u. (subunit_kind_to_db_value (lu_kind u), lu_title u, lu_content u)) (lk_subunits s)"
    by (simp only: map_map [symmetric] map_snd_enumerate)
  finally show ?thesis .
qed

lemma persisted_communities_exact:
  "list_all (\<lambda>c. \<exists>s. mr_scope c = scope_to_db_value s) cs \<Longrightarrow> \<exists>found. persisted_communities db cs = Ok found \<and>
     map (\<lambda>c. (py_community_id c, py_name c, scope_to_db_value (py_scope c), py_member_skill_ids c)) found =
     map (\<lambda>c. (mr_id c, mr_name c, mr_scope c, sort (map ms_skill_id (filter (\<lambda>m. ms_community_id m = mr_id c) (gd_community_skills db))))) cs"
  by (induction cs) auto

lemma scope_value_inj: "scope_to_db_value s = scope_to_db_value t \<Longrightarrow> s = t"
  by (cases s; cases t) auto

lemma image_mset_inj:
  assumes "inj f" and "image_mset f A = image_mset f B"
  shows "A = B"
proof -
  have "image_mset (inv f \<circ> f) A = image_mset (inv f \<circ> f) B"
    by (simp only: multiset.map_comp [symmetric] assms(2))
  then show ?thesis by (simp only: inv_o_cancel [OF assms(1)] multiset.map_id0 id_apply)
qed

lemma communities_read_back:
  assumes ids: "distinct (map (stable_uuid b ''community'' \<circ> lc_stable_id) comms)"
    and rows: "gd_communities db = map (community_row_of b) comms" "gd_community_skills db = concat (map (community_skill_rows_of b) comms)"
  shows "\<exists>cs. list_communities True db = Ok cs \<and> mset (map community_view cs) = mset (map (live_community_view b) comms)"
proof -
  let ?sorted = "sort_by (\<lambda>x y. mr_id x \<le> mr_id y) (map (community_row_of b) comms)"
  let ?row = "\<lambda>c. (mr_id c, mr_name c, mr_scope c, sort (map ms_skill_id (filter (\<lambda>m. ms_community_id m = mr_id c) (gd_community_skills db))))"
  let ?scoped = "\<lambda>(i, n, s, ms). (i, n, scope_to_db_value s, ms :: string list)"
  have active: "filter (\<lambda>c. mr_lifecycle c = ''active'') (gd_communities db) = map (community_row_of b) comms"
    by (simp add: rows filter_id_conv community_row_of_def)
  have "list_all (\<lambda>c. \<exists>s. mr_scope c = scope_to_db_value s) ?sorted" by (auto simp: list_all_iff community_row_of_def)
  from persisted_communities_exact [OF this, of db] obtain cs where cs: "list_communities True db = Ok cs"
    "map (\<lambda>c. (py_community_id c, py_name c, scope_to_db_value (py_scope c), py_member_skill_ids c)) cs = map ?row ?sorted"
    by (auto simp: list_communities_def active)
  have member: "?row (community_row_of b c) = ?scoped (live_community_view b c)" if "c \<in> set comms" for c
  proof -
    have "filter (\<lambda>m. ms_community_id m = (stable_uuid b ''community'' \<circ> lc_stable_id) c) (concat (map (community_skill_rows_of b) comms)) =
        community_skill_rows_of b c"
      by (rule filter_concat_own [OF _ ids that]) (auto simp: community_skill_rows_of_def)
    then show ?thesis
      by (simp add: rows community_row_of_def live_community_view_def community_skill_rows_of_def o_def stable_skill_uuid_def [abs_def])
  qed
  have "image_mset ?scoped (mset (map community_view cs)) = mset (map ?row ?sorted)"
    unfolding cs(2) [symmetric] by (simp add: multiset.map_comp o_def community_view_def)
  also have "\<dots> = mset (map (?row \<circ> community_row_of b) comms)" by (simp add: multiset.map_comp)
  also have "map (?row \<circ> community_row_of b) comms = map (?scoped \<circ> live_community_view b) comms"
    by (rule map_cong [OF refl]) (simp only: comp_apply member)
  also have "mset \<dots> = image_mset ?scoped (mset (map (live_community_view b) comms))" by (simp add: multiset.map_comp)
  finally have "image_mset ?scoped (mset (map community_view cs)) = image_mset ?scoped (mset (map (live_community_view b) comms))" .
  moreover have "inj ?scoped" by (auto intro!: injI dest: scope_value_inj)
  ultimately have "mset (map community_view cs) = mset (map (live_community_view b) comms)" by (rule image_mset_inj [rotated])
  with cs(1) show ?thesis by blast
qed

lemma skills_read_back:
  assumes ok: "graph_ok db" and rows: "gd_skills db = map (\<lambda>s. (skill_row_of b s)\<lparr>kr_graph_version := v\<rparr>) ss"
    "gd_skill_subunits db = concat (map (skill_subunit_rows b) ss)" "gd_subunits db = concat (map (subunit_rows b) ss)"
    and small: "list_all (\<lambda>s. length (lk_subunits s) < 2 ^ 31) ss"
  shows "\<exists>found. list_skills order True db = Ok found \<and> sorted (map pk_skill_id found) \<and> mset (map skill_view found) = mset (map (live_view b) ss)"
proof -
  let ?skill = "\<lambda>s. (skill_row_of b s)\<lparr>kr_graph_version := v\<rparr>"
  let ?found = "map (\<lambda>s. \<lparr>pk_skill_id = kr_id s, pk_name = kr_name s, pk_description = kr_description s, pk_scope = kr_scope s,
             pk_tags = kr_tags s, pk_source_paths = kr_source_paths s, pk_community_ids = communities_of_skill order db (kr_id s),
             pk_subunits = subunits_of_skill db (kr_id s)\<rparr>)"
  have active: "filter (\<lambda>s. kr_lifecycle s = ''active'') (gd_skills db) = map ?skill ss"
    by (simp add: rows filter_id_conv skill_row_of_def)
  have ids: "distinct (map (stable_uuid b ''skill'' \<circ> lk_stable_id) ss)"
    using ok by (simp add: graph_ok_def rows skill_row_of_def o_def)
  have "skill_view (hd (?found [?skill s])) = live_view b s" if "s \<in> set ss" for s
    using subunits_read_back [OF ok rows(2,3) ids that] small that
    by (simp add: skill_view_def live_view_def skill_row_of_def list_all_iff stable_skill_uuid_def)
  then have views: "map skill_view (?found (map ?skill ss)) = map (live_view b) ss" by simp
  have sorted: "sorted (map pk_skill_id (?found (sort_by skill_id_le (map ?skill ss))))"
  proof -
    have "skill_id_le = (\<lambda>x y. kr_id x \<le> kr_id y)" by (intro ext) (simp add: skill_id_le_def)
    with by_skill_id.sorted_sort_by [of "map ?skill ss"] show ?thesis by (simp add: sorted_map)
  qed
  have "mset (map skill_view (?found (sort_by skill_id_le (map ?skill ss)))) = mset (map skill_view (?found (map ?skill ss)))"
    by (simp only: mset_map mset_sort_by)
  also note views
  finally have "mset (map skill_view (?found (sort_by skill_id_le (map ?skill ss)))) = mset (map (live_view b) ss)" .
  with sorted show ?thesis unfolding list_skills_def active by (intro exI conjI) (simp_all only: not_True_eq_False if_False)
qed


section \<open>The rebuild\<close>

lemma stored_ids:
  assumes "graph_ok (stored_graph b m db)"
  shows "distinct (map lk_stable_id (gm_skills m))" "distinct (map (stable_uuid b ''community'' \<circ> lc_stable_id) (gm_communities m))"
proof -
  have "distinct (map (stable_uuid b ''skill'') (map lk_stable_id (gm_skills m)))"
    using assms by (simp add: graph_ok_def stored_graph_def skill_row_of_def o_def)
  then show "distinct (map lk_stable_id (gm_skills m))" by (simp only: distinct_map)
  show "distinct (map (stable_uuid b ''community'' \<circ> lc_stable_id) (gm_communities m))"
    using assms by (simp add: graph_ok_def stored_graph_def community_row_of_def o_def)
qed

lemma rebuilt_tables:
  assumes "replace_snapshot_and_bump_version blake3 tx mutation db = (Ok v, db')"
  shows "graph_ok db'" "gd_skills db' = map (\<lambda>s. (skill_row_of blake3 s)\<lparr>kr_graph_version := v\<rparr>) (gm_skills mutation)"
    "gd_skill_subunits db' = concat (map (skill_subunit_rows blake3) (gm_skills mutation))"
    "gd_subunits db' = concat (map (subunit_rows blake3) (gm_skills mutation))"
    "gd_communities db' = map (community_row_of blake3) (gm_communities mutation)"
    "gd_community_skills db' = concat (map (community_skill_rows_of blake3) (gm_communities mutation))"
proof -
  from replace_stores [OF assms] have db': "db' = (stored_graph blake3 mutation db)\<lparr>gd_skills :=
      map (\<lambda>s. (skill_row_of blake3 s)\<lparr>kr_graph_version := v\<rparr>) (gm_skills mutation), gd_graph_state := Some (v, Some (gm_rebuilt_at mutation))\<rparr>"
    and ok: "graph_ok (stored_graph blake3 mutation db)" by simp_all
  show "graph_ok db'" using ok by (simp add: db' graph_ok_def stored_graph_def emptied_def o_def image_image list_all_iff)
qed (use replace_stores [OF assms] in \<open>simp_all add: stored_graph_def\<close>)

lemma rebuilt_skills_listed:
  assumes "replace_snapshot_and_bump_version blake3 tx mutation db = (Ok v, db')"
    and "list_all (\<lambda>s. length (lk_subunits s) < 2 ^ 31) (gm_skills mutation)"
  shows "\<exists>skills. list_skills order True db' = Ok skills \<and> sorted (map pk_skill_id skills) \<and>
    mset (map skill_view skills) = mset (map (live_view blake3) (gm_skills mutation))"
  by (rule skills_read_back [OF rebuilt_tables(1-4) [OF assms(1)] assms(2)])

text \<open>C6: a rebuild that succeeds is read back exactly: afterwards the active skills are those of the mutation, under their stable identifiers, with their texts, tags, paths and subunits in order, the communities are its communities with their members, and the version has grown by one.\<close>

theorem rebuild_read_back:
  assumes "replace_snapshot_and_bump_version blake3 tx mutation db = (Ok v, db')"
    and "list_all (\<lambda>s. length (lk_subunits s) < 2 ^ 31) (gm_skills mutation)"
  shows "v = state_version db + 1 \<and> stored_graph_version True db' = Ok v \<and>
    (\<exists>skills. list_skills order True db' = Ok skills \<and> sorted (map pk_skill_id skills) \<and>
       mset (map skill_view skills) = mset (map (live_view blake3) (gm_skills mutation))) \<and>
    (\<exists>communities. list_communities True db' = Ok communities \<and>
       mset (map community_view communities) = mset (map (live_community_view blake3) (gm_communities mutation)))"
proof -
  have v: "v = state_version db + 1" "state_version db' = v" "graph_ok (stored_graph blake3 mutation db)"
    using replace_stores [OF assms(1)] by blast+
  have "stored_graph_version True db' = Ok v" unfolding stored_graph_version_def v(2) by simp
  with v(1) rebuilt_skills_listed [OF assms] communities_read_back [OF stored_ids(2) [OF v(3)] rebuilt_tables(5,6) [OF assms(1)]]
  show ?thesis by blast
qed

text \<open>C19: a rebuild is all or nothing: when it reports an error the tables are as they were unless the commit's answer was lost, and with two skills of one stable identifier, or two communities of one stable identifier (the builder takes a community's name for it), it never succeeds.\<close>

theorem rebuild_atomic:
  assumes "replace_snapshot_and_bump_version blake3 tx mutation db = (result, db')"
  shows "(result = Ok v \<longrightarrow> distinct (map lk_stable_id (gm_skills mutation)) \<and> distinct (map lc_stable_id (gm_communities mutation))) \<and>
    ((\<exists>e. result = Err e) \<and> tx_commit tx \<noteq> Unheard \<longrightarrow> db' = db)"
proof (intro conjI impI)
  assume "result = Ok v"
  with assms have "graph_ok (stored_graph blake3 mutation db)" using replace_stores by blast
  from stored_ids [OF this] show "distinct (map lk_stable_id (gm_skills mutation))" "distinct (map lc_stable_id (gm_communities mutation))"
    by (simp_all only: map_map [symmetric] distinct_map simp_thms)
next
  assume "(\<exists>e. result = Err e) \<and> tx_commit tx \<noteq> Unheard"
  with assms show "db' = db"
    by (auto simp: replace_snapshot_and_bump_version_def dest: transaction_atomic split: option.split_asm prod.split_asm)
qed

text \<open>C38: every rebuild forgets which skills were used: deleting the skills sets the references of the usage log to null, so after a successful rebuild the aggregate reports every skill, kept or not, as never used.\<close>

theorem rebuild_erases_usage:
  assumes "replace_snapshot_and_bump_version blake3 tx mutation db = (Ok v, db')"
    and "recent_usage env db' skill_ids window_days = Ok summaries"
  shows "length (gd_usage db') = length (gd_usage db) \<and>
    list_all (\<lambda>s. us_total_count s = 0 \<and> us_windowed_count s = 0 \<and> us_last_used_at s = None) summaries"
proof -
  have usage: "gd_usage db' = map (\<lambda>u. u\<lparr>yr_skill_id := None\<rparr>) (gd_usage db)"
    using replace_stores [OF assms(1)] by (simp add: stored_graph_def emptied_def)
  then have none: "filter (\<lambda>u. yr_skill_id u = Some s) (gd_usage db') = []" for s by (simp add: filter_empty_conv)
  have "all_ok rs = Ok xs \<Longrightarrow> map Ok xs = rs" for rs and xs :: "aged_usage_summary list"
    by (induction rs arbitrary: xs) (auto simp: rbind_Inr_iff)
  with assms(2) have "map Ok summaries = (if skill_ids = [] then [] else map (usage_summary env (List.map_filter (ur_parse_uuid env) skill_ids) window_days (gd_usage db'))
      (ur_order env (remdups (List.map_filter (ur_parse_uuid env) skill_ids))))"
    by (auto simp: recent_usage_def Let_def split: if_splits)
  then have "set (map Ok summaries) \<subseteq> range (usage_summary env (List.map_filter (ur_parse_uuid env) skill_ids) window_days (gd_usage db'))"
    by auto
  then have "\<exists>i. Ok s = usage_summary env (List.map_filter (ur_parse_uuid env) skill_ids) window_days (gd_usage db') i" if "s \<in> set summaries" for s
    using that by auto
  then have "us_total_count s = 0 \<and> us_windowed_count s = 0 \<and> us_last_used_at s = None" if "s \<in> set summaries" for s
    using that by (fastforce simp: usage_summary_def Let_def none wrap_u32_def)
  then show ?thesis using usage by (simp add: list_all_iff)
qed


section \<open>What every operation keeps\<close>

text \<open>The stores reachable by the operations of the coordinators.\<close>

inductive store_reachable :: "graph_db \<Rightarrow> bool" where
  migrated: "store_reachable \<lparr>gd_skills = [], gd_subunits = [], gd_skill_subunits = [], gd_communities = [], gd_community_skills = [],
      gd_usage = [], gd_session_logs = [], gd_graph_state = Some (0, None), gd_locks = []\<rparr>"
| rebuilt: "store_reachable db \<Longrightarrow> store_reachable (snd (replace_snapshot_and_bump_version b tx m db))"
| bumped: "store_reachable db \<Longrightarrow> store_reachable (snd (bump_graph_version tx db))"
| used: "store_reachable db \<Longrightarrow> store_reachable (snd (write_session_usage env tx record db))"
| acquired: "store_reachable db \<Longrightarrow> store_reachable (snd (try_acquire_lock up now server_now name owner lease db))"
| renewed: "store_reachable db \<Longrightarrow> store_reachable (snd (renew_lock up now name owner lease db))"
| released: "store_reachable db \<Longrightarrow> store_reachable (snd (release_lock up name owner db))"

lemma keeps_logs: "keeps store_ok (insert_session_log l)" "keeps store_ok (insert_usages rs)"
  by (auto simp: keeps_def store_ok_def graph_ok_def insert_session_log_def insert_usages_def list_all_iff list_ex_iff
      split: if_splits option.splits)

lemma transaction_result_keeps:
  "list_all (keeps I) ss \<Longrightarrow> I db \<Longrightarrow> I (snd (run_transaction tx ss db))"
  using transaction_keeps by (metis prod.collapse)

lemma snd_outcome: "snd (case p of (None, d) \<Rightarrow> (a, d) | (Some x, d) \<Rightarrow> (f x d, d)) = snd p"
  by (cases p) (simp split: option.split)

lemma write_usage_keeps: "store_ok db \<Longrightarrow> store_ok (snd (write_session_usage env tx record db))"
  by (auto simp: write_session_usage_def Let_def snd_outcome keeps_logs split: sum.split intro: transaction_result_keeps)

lemma store_ok_locks: "store_ok db \<Longrightarrow> distinct (map kl_lock_name ls) \<Longrightarrow> store_ok (db\<lparr>gd_locks := ls\<rparr>)"
  by (simp add: store_ok_def graph_ok_def)

lemma locks_keep:
  assumes "store_ok db"
  shows "store_ok (snd (try_acquire_lock up now server_now name owner lease db))"
    and "store_ok (snd (renew_lock up now name owner lease db))"
    and "store_ok (snd (release_lock up name owner db))"
proof -
  have names: "distinct (map kl_lock_name (gd_locks db))" using assms by (simp add: store_ok_def)
  have same: "map kl_lock_name (map (\<lambda>l. if P l then f l else l) ls) = map kl_lock_name ls"
    if "\<And>l. P l \<Longrightarrow> kl_lock_name (f l) = kl_lock_name l" for P f ls
    using that by simp
  show "store_ok (snd (try_acquire_lock up now server_now name owner lease db))"
  proof (cases "\<exists>expires. lease_end now lease = Ok expires \<and> trim name \<noteq> [] \<and> up")
    case True
    then obtain expires where e: "lease_end now lease = Ok expires" "trim name \<noteq> []" up by blast
    let ?lock = "\<lparr>kl_lock_name = name, kl_owner_id = owner, kl_acquired_at = server_now, kl_expires_at = expires\<rparr>"
    let ?hit = "\<lambda>l. kl_lock_name l = name \<and> (kl_expires_at l \<le> server_now \<or> kl_owner_id l = owner)"
    have "map kl_lock_name (map (\<lambda>l. if ?hit l then ?lock else l) (gd_locks db)) = map kl_lock_name (gd_locks db)"
      by (rule same) simp
    with names have "distinct (map kl_lock_name (map (\<lambda>l. if ?hit l then ?lock else l) (gd_locks db)))" by (simp only:)
    from store_ok_locks [OF assms this] e names assms show ?thesis
      by (cases "name \<in> kl_lock_name ` set (gd_locks db)")
        (simp_all add: try_acquire_lock_def Let_def store_ok_locks)
  next
    case False
    with assms show ?thesis by (auto simp: try_acquire_lock_def split: sum.split)
  qed
  have "distinct (map kl_lock_name (map (\<lambda>l. if kl_lock_name l = name \<and> kl_owner_id l = owner then l\<lparr>kl_expires_at := e\<rparr> else l) (gd_locks db)))" for e
    using names by (subst same) simp_all
  from store_ok_locks [OF assms this] assms show "store_ok (snd (renew_lock up now name owner lease db))"
    by (simp add: renew_lock_def Let_def split: sum.split)
  show "store_ok (snd (release_lock up name owner db))"
    using assms names by (simp add: release_lock_def store_ok_locks distinct_map_filter)
qed

lemma store_reachable_ok: "store_reachable db \<Longrightarrow> store_ok db"
proof (induction rule: store_reachable.induct)
  case (rebuilt db b tx m)
  then show ?case
    using transaction_result_keeps [OF replace_keeps rebuilt.IH]
    by (simp add: replace_snapshot_and_bump_version_def snd_outcome)
next
  case (bumped db tx)
  then show ?case
    using transaction_result_keeps [of store_ok "[bump_state None]" db tx]
    by (simp add: bump_graph_version_def snd_outcome keeps_versions)
next
  case migrated
  show ?case by (simp add: store_ok_def graph_ok_def)
qed (simp_all only: write_usage_keeps locks_keep)

section \<open>A run\<close>

definition sample_blake3 :: "string \<Rightarrow> nat list" where
  "sample_blake3 s = take 32 (map of_char s @ replicate 32 0)"

definition sample_mutation :: live_graph_snapshot_mutation where
  "sample_mutation = \<lparr>gm_rebuilt_at = 5, gm_skills = [\<lparr>lk_stable_id = ''a'', lk_name = ''Deploy'', lk_description = ''d'', lk_scope = Project,
     lk_tags = [''t''], lk_source_paths = [''/r/a/SKILL.md''], lk_subunits = [\<lparr>lu_kind = Procedure, lu_title = ''s'', lu_content = ''c''\<rparr>]\<rparr>],
     gm_communities = [\<lparr>lc_stable_id = ''project-t'', lc_name = ''project-t'', lc_scope = Project, lc_member_skill_ids = [''a''], lc_source = ''tag''\<rparr>]\<rparr>"

definition sample_tx :: tx_env where
  "sample_tx = \<lparr>tx_begins = True, tx_fails = (\<lambda>_. False), tx_commit = Committed\<rparr>"

definition sample_store :: graph_db where
  "sample_store = \<lparr>gd_skills = [\<lparr>kr_id = ''u'', kr_name = ''n'', kr_description = [], kr_scope = ''project'', kr_status = ''ready'',
      kr_lifecycle = ''active'', kr_tags = [], kr_source_paths = [], kr_merged_from_scopes = [], kr_graph_version = 3\<rparr>],
      gd_subunits = [], gd_skill_subunits = [], gd_communities = [], gd_community_skills = [],
      gd_usage = [\<lparr>yr_id = ''x'', yr_session_id = ''s'', yr_skill_id = Some ''u'', yr_usage_count = 1, yr_context_status = ''ok'',
        yr_relevance_score = None, yr_used_at = 4\<rparr>], gd_session_logs = [], gd_graph_state = Some (3, None), gd_locks = []\<rparr>"

lemma sample_rebuild: "\<exists>db'. replace_snapshot_and_bump_version sample_blake3 sample_tx sample_mutation sample_store = (Ok 4, db')"
proof -
  have "fst (replace_snapshot_and_bump_version sample_blake3 sample_tx sample_mutation sample_store) = Ok 4" by code_simp
  then show ?thesis by (metis prod.collapse)
qed

theorem rebuild_read_back_witness:
  "\<exists>db' skills. replace_snapshot_and_bump_version sample_blake3 sample_tx sample_mutation sample_store = (Ok 4, db') \<and>
     list_skills id True db' = Ok skills \<and> length skills = 1"
proof -
  obtain db' where db': "replace_snapshot_and_bump_version sample_blake3 sample_tx sample_mutation sample_store = (Ok 4, db')"
    using sample_rebuild by blast
  have "list_all (\<lambda>s. length (lk_subunits s) < 2 ^ 31) (gm_skills sample_mutation)" by (simp add: sample_mutation_def)
  from rebuild_read_back [OF db' this, of id] obtain skills where s: "list_skills id True db' = Ok skills"
    "mset (map skill_view skills) = mset (map (live_view sample_blake3) (gm_skills sample_mutation))" by blast
  from arg_cong [OF s(2), of size] have "length skills = 1" by (simp add: sample_mutation_def)
  with db' s(1) show ?thesis by blast
qed

theorem rebuild_atomic_witness:
  "replace_snapshot_and_bump_version sample_blake3 (sample_tx\<lparr>tx_fails := \<lambda>k. k = 6\<rparr>) sample_mutation sample_store =
     (Err RbPersistence, sample_store)"
proof -
  let ?run = "replace_snapshot_and_bump_version sample_blake3 (sample_tx\<lparr>tx_fails := \<lambda>k. k = 6\<rparr>) sample_mutation sample_store"
  have e: "fst ?run = Err RbPersistence" by code_simp
  then have "?run = (Err RbPersistence, snd ?run)" by (metis prod.collapse)
  from rebuild_atomic [OF this, of 0] have "snd ?run = sample_store" by (simp add: sample_tx_def)
  with e show ?thesis by (metis prod.collapse)
qed

definition sample_usage_read :: usage_read_env where
  "sample_usage_read = \<lparr>ur_up = True, ur_now = 10, ur_parse_uuid = Some, ur_decode = Some, ur_order = id\<rparr>"

theorem rebuild_erases_usage_witness:
  "\<exists>db' summaries. replace_snapshot_and_bump_version sample_blake3 sample_tx sample_mutation sample_store = (Ok 4, db') \<and>
     recent_usage sample_usage_read db' [''u''] 90 = Ok summaries \<and> map us_total_count summaries = [0]"
proof -
  obtain db' where db': "replace_snapshot_and_bump_version sample_blake3 sample_tx sample_mutation sample_store = (Ok 4, db')"
    using sample_rebuild by blast
  have "gd_usage db' = map (\<lambda>u. u\<lparr>yr_skill_id := None\<rparr>) (gd_usage sample_store)"
    using replace_stores [OF db'] by (simp add: stored_graph_def emptied_def)
  then obtain summaries where s: "recent_usage sample_usage_read db' [''u''] 90 = Ok summaries" "length summaries = 1"
    by (simp add: recent_usage_def sample_usage_read_def sample_store_def usage_summary_def List.map_filter_def)
  with rebuild_erases_usage [OF db' s(1)] db' show ?thesis by (cases summaries) auto
qed

end
