(* ===== verification/Event_Stream.thy ===== *)
theory Event_Stream
  imports Session_Extractor
begin

text \<open>
  The event stream (\<open>infrastructure/src/streaming/redis.rs\<close>): configuration, publishing with an approximate length
  cap, the consumer group with its pending entries, reading with the recovery from a lost group, and acknowledging.
  The stream of the server is a list of entries with growing identifiers; the JSON codec of an envelope, how much
  a capped append trims, and whether a call is answered are parameters.
\<close>

section \<open>Streams\<close>

datatype redis_stream_error =
    StreamInvalidConfiguration string
  | ConsumerGroupInitialization string string
  | UnexpectedAckCount nat int
  | StreamRedis "string option" string
  | StreamSerialization string

fun redis_stream_error_str :: "redis_stream_error \<Rightarrow> string" where
  "redis_stream_error_str (StreamInvalidConfiguration m) = ''invalid redis streams configuration: '' @ m"
| "redis_stream_error_str (ConsumerGroupInitialization c d) = ''consumer group initialization failed (code: '' @ c @ ''): '' @ d"
| "redis_stream_error_str (UnexpectedAckCount i n) = ''xack must acknowledge exactly one message for '' @ ticked (nat_str i) @ '', got '' @ (if n < 0 then ''-'' else []) @ nat_str (nat \<bar>n\<bar>)"
| "redis_stream_error_str (StreamRedis _ m) = ''redis streams operation failed: '' @ m"
| "redis_stream_error_str (StreamSerialization m) = ''event envelope serialization failed: '' @ m"

record redis_streams_config =
  rf_redis_url :: string
  rf_stream_key :: string
  rf_consumer_group :: string
  rf_consumer_name :: string
  rf_idempotency_ttl_secs :: nat
  rf_max_stream_len :: nat

definition redis_streams_config_default :: redis_streams_config where
  "redis_streams_config_default = \<lparr>rf_redis_url = ''redis://127.0.0.1/'', rf_stream_key = ''skill-layer-events'',
     rf_consumer_group = ''skill-layer'', rf_consumer_name = ''worker-1'', rf_idempotency_ttl_secs = 86400, rf_max_stream_len = 100000\<rparr>"

definition redis_streams_adapter_new ::
  "(string \<Rightarrow> (string, unit) result) \<Rightarrow> redis_streams_config \<Rightarrow> (redis_stream_error, redis_streams_config) result" where
  "redis_streams_adapter_new client_open config =
     (if trim (rf_redis_url config) = [] \<or> trim (rf_stream_key config) = [] \<or> trim (rf_consumer_group config) = [] \<or>
         trim (rf_consumer_name config) = []
      then Err (StreamInvalidConfiguration ''redis_url, stream_key, consumer_group, and consumer_name must not be blank'')
      else if rf_idempotency_ttl_secs config = 0 \<or> rf_max_stream_len config = 0
      then Err (StreamInvalidConfiguration ''idempotency_ttl_secs and max_stream_len must be greater than zero'')
      else case client_open (rf_redis_url config) of Err m \<Rightarrow> Err (StreamRedis None m) | Ok _ \<Rightarrow> Ok config)"

text \<open>
  An entry has its identifier and the envelope field, when it has one.  A group has the first identifier it has not
  delivered and the identifiers delivered to its consumer and not acknowledged.
\<close>

record event_stream =
  es_entries :: "(nat \<times> string option) list"
  es_next :: nat
  es_group :: "(nat \<times> nat list) option"
  es_processed :: "string \<rightharpoonup> int"

record stream_codec =
  sc_to_str :: "event_envelope \<Rightarrow> (string, string) result"
  sc_from_str :: "string \<Rightarrow> (string, event_envelope) result"

record stream_message =
  sg_stream_id :: nat
  sg_envelope :: event_envelope

text \<open>What becomes of a call: answered, not executed, or executed with the answer lost.\<close>

datatype redis_reply = Replied | Unreachable string | ReplyLost string

section \<open>Operations\<close>

definition xadd :: "nat \<Rightarrow> nat \<Rightarrow> string \<Rightarrow> event_stream \<Rightarrow> event_stream" where
  "xadd max_len dropped raw s =
     (let entries = es_entries s @ [(es_next s, Some raw)] in
      s\<lparr>es_entries := drop (min dropped (length entries - max_len)) entries, es_next := Suc (es_next s)\<rparr>)"

definition publish ::
  "redis_streams_config \<Rightarrow> stream_codec \<Rightarrow> redis_reply \<Rightarrow> nat \<Rightarrow> event_envelope \<Rightarrow> event_stream \<Rightarrow>
     (redis_stream_error, nat) result \<times> event_stream" where
  "publish config codec reply dropped envelope s =
     (case reply of
        Unreachable m \<Rightarrow> (Err (StreamRedis None m), s)
      | _ \<Rightarrow>
          (case sc_to_str codec envelope of
             Err m \<Rightarrow> (Err (StreamSerialization m), s)
           | Ok raw \<Rightarrow>
               (let s' = xadd (rf_max_stream_len config) dropped raw s in
                case reply of ReplyLost m \<Rightarrow> (Err (StreamRedis None m), s') | _ \<Rightarrow> (Ok (es_next s), s'))))"

definition ensure_consumer_group :: "redis_reply \<Rightarrow> event_stream \<Rightarrow> (redis_stream_error, unit) result \<times> event_stream" where
  "ensure_consumer_group reply s =
     (case reply of
        Unreachable m \<Rightarrow> (Err (StreamRedis None m), s)
      | ReplyLost m \<Rightarrow> (Err (ConsumerGroupInitialization ''UNKNOWN'' m), if es_group s = None then s\<lparr>es_group := Some (0, [])\<rparr> else s)
      | Replied \<Rightarrow> (Ok (), if es_group s = None then s\<lparr>es_group := Some (0, [])\<rparr> else s))"

fun parse_stream_reply :: "stream_codec \<Rightarrow> (nat \<times> string option) list \<Rightarrow> (redis_stream_error, stream_message list) result" where
  "parse_stream_reply codec [] = Ok []"
| "parse_stream_reply codec ((i, raw) # items) =
     (case raw of
        None \<Rightarrow> parse_stream_reply codec items
      | Some raw \<Rightarrow>
          (case sc_from_str codec raw of
             Err m \<Rightarrow> Err (StreamSerialization m)
           | Ok envelope \<Rightarrow>
               rbind (parse_stream_reply codec items) (\<lambda>rest. Ok (\<lparr>sg_stream_id = i, sg_envelope = envelope\<rparr> # rest))))"

text \<open>A pending entry that was trimmed from the stream comes back without fields.\<close>

definition pending_items :: "event_stream \<Rightarrow> nat list \<Rightarrow> (nat \<times> string option) list" where
  "pending_items s ids = map (\<lambda>i. (i, Option.bind (map_of (es_entries s) i) (\<lambda>raw. raw))) ids"

definition deliver_fresh :: "nat \<Rightarrow> event_stream \<Rightarrow> (nat \<times> string option) list \<times> event_stream" where
  "deliver_fresh batch s =
     (case es_group s of
        None \<Rightarrow> ([], s)
      | Some (next, pending) \<Rightarrow>
          (let fresh = take batch (filter (\<lambda>(i, _). next \<le> i) (es_entries s)) in
           (fresh, if fresh = [] then s else s\<lparr>es_group := Some (Suc (fst (last fresh)), pending @ map fst fresh)\<rparr>)))"

definition read_group_once ::
  "stream_codec \<Rightarrow> redis_reply \<times> redis_reply \<Rightarrow> nat \<Rightarrow> event_stream \<Rightarrow> (redis_stream_error, stream_message list) result \<times> event_stream" where
  "read_group_once codec replies batch s =
     (case fst replies of
        Unreachable m \<Rightarrow> (Err (StreamRedis None m), s)
      | ReplyLost m \<Rightarrow> (Err (StreamRedis None m), s)
      | Replied \<Rightarrow>
          (case es_group s of
             None \<Rightarrow> (Err (StreamRedis (Some ''NOGROUP'') ''No such key or consumer group''), s)
           | Some (_, pending) \<Rightarrow>
               (case parse_stream_reply codec (pending_items s (take batch pending)) of
                  Err e \<Rightarrow> (Err e, s)
                | Ok found \<Rightarrow>
                    if found \<noteq> [] then (Ok found, s)
                    else case snd replies of
                        Unreachable m \<Rightarrow> (Err (StreamRedis None m), s)
                      | ReplyLost m \<Rightarrow> (Err (StreamRedis None m), snd (deliver_fresh batch s))
                      | Replied \<Rightarrow> (parse_stream_reply codec (fst (deliver_fresh batch s)), snd (deliver_fresh batch s)))))"

text \<open>A missing group is created from the start of the stream and the read repeated once.\<close>

definition read_group ::
  "stream_codec \<Rightarrow> (redis_reply \<times> redis_reply) \<times> redis_reply \<times> (redis_reply \<times> redis_reply) \<Rightarrow> nat \<Rightarrow> event_stream \<Rightarrow>
     (redis_stream_error, stream_message list) result \<times> event_stream" where
  "read_group codec replies batch s =
     (case replies of (first, create, second) \<Rightarrow>
        (case read_group_once codec first batch s of
           (Err (StreamRedis code m), s) \<Rightarrow>
             if code = Some ''NOGROUP''
             then (case ensure_consumer_group create s of
                     (Err e, s) \<Rightarrow> (Err e, s)
                   | (Ok _, s) \<Rightarrow> read_group_once codec second batch s)
             else (Err (StreamRedis code m), s)
         | other \<Rightarrow> other))"

definition validate_ack_count :: "nat \<Rightarrow> int \<Rightarrow> (redis_stream_error, unit) result" where
  "validate_ack_count stream_id ack_count = (if ack_count = 1 then Ok () else Err (UnexpectedAckCount stream_id ack_count))"

definition xack :: "nat \<Rightarrow> event_stream \<Rightarrow> int \<times> event_stream" where
  "xack i s =
     (case es_group s of
        None \<Rightarrow> (0, s)
      | Some (next, pending) \<Rightarrow>
          (if i \<in> set pending then 1 else 0, s\<lparr>es_group := Some (next, filter (\<lambda>j. j \<noteq> i) pending)\<rparr>))"

definition ack :: "redis_reply \<Rightarrow> nat \<Rightarrow> event_stream \<Rightarrow> (redis_stream_error, unit) result \<times> event_stream" where
  "ack reply stream_id s =
     (case reply of
        Unreachable m \<Rightarrow> (Err (StreamRedis None m), s)
      | ReplyLost m \<Rightarrow> (Err (StreamRedis None m), snd (xack stream_id s))
      | Replied \<Rightarrow> (validate_ack_count stream_id (fst (xack stream_id s)), snd (xack stream_id s)))"

text \<open>Processed keys expire; clocks are in seconds.\<close>

definition mark_event_processed :: "redis_streams_config \<Rightarrow> redis_reply \<Rightarrow> int \<Rightarrow> string \<Rightarrow> event_stream \<Rightarrow> (redis_stream_error, unit) result \<times> event_stream" where
  "mark_event_processed config reply now idempotency_key s =
     (let marked = s\<lparr>es_processed := (es_processed s)(''processed:'' @ idempotency_key \<mapsto> now + int (rf_idempotency_ttl_secs config))\<rparr> in
      case reply of
        Unreachable m \<Rightarrow> (Err (StreamRedis None m), s)
      | ReplyLost m \<Rightarrow> (Err (StreamRedis None m), marked)
      | Replied \<Rightarrow> (Ok (), marked))"

definition already_processed :: "redis_reply \<Rightarrow> int \<Rightarrow> string \<Rightarrow> event_stream \<Rightarrow> (redis_stream_error, bool) result" where
  "already_processed reply now idempotency_key s =
     (case reply of
        Replied \<Rightarrow> Ok (case es_processed s (''processed:'' @ idempotency_key) of None \<Rightarrow> False | Some t \<Rightarrow> now < t)
      | Unreachable m \<Rightarrow> Err (StreamRedis None m)
      | ReplyLost m \<Rightarrow> Err (StreamRedis None m))"

section \<open>What a read delivers\<close>

lemma parse_stream_reply_ids:
  "parse_stream_reply codec items = Ok ms \<Longrightarrow> map sg_stream_id ms = map fst (filter (\<lambda>(_, raw). raw \<noteq> None) items)"
  by (induction items arbitrary: ms) (auto simp: rbind_Inr_iff split: option.split_asm sum.split_asm)

text \<open>An entry that does not parse fails the reply it is in.\<close>

lemma parse_poison:
  "(i, Some raw) \<in> set items \<Longrightarrow> sc_from_str codec raw = Err m \<Longrightarrow> \<exists>e. parse_stream_reply codec items = Err (StreamSerialization e)"
proof (induction items)
  case (Cons x items)
  obtain j r where x: "x = (j, r)" by (cases x)
  show ?case
  proof (cases "(i, Some raw) = x")
    case True
    with Cons.prems show ?thesis by auto
  next
    case False
    with Cons obtain e where "parse_stream_reply codec items = Err (StreamSerialization e)" by auto
    with x show ?thesis by (auto split: option.split sum.split)
  qed
qed simp

text \<open>one pending entry that does not parse blocks the consumer for good: while it is among the first pending entries every read fails with a serialization error and changes nothing, so neither the entries behind it nor new events are ever delivered.\<close>

theorem poison_blocks_reads:
  assumes "es_group s = Some (next, pending)" and "i \<in> set (take batch pending)"
    and "map_of (es_entries s) i = Some (Some raw)" and "sc_from_str codec raw = Err m"
  shows "\<exists>e. read_group codec replies batch s = (Err e, s)"
proof -
  have "(i, Some raw) \<in> set (pending_items s (take batch pending))"
    using assms(2,3) by (force simp: pending_items_def)
  from parse_poison [OF this assms(4)] obtain e where "parse_stream_reply codec (pending_items s (take batch pending)) = Err (StreamSerialization e)"
    by blast
  then have "\<exists>e'. read_group_once codec r batch s = (Err e', s) \<and> (case e' of StreamRedis code _ \<Rightarrow> code \<noteq> Some ''NOGROUP'' | _ \<Rightarrow> True)" for r
    using assms(1) by (cases "fst r") (simp_all add: read_group_once_def)
  note once = this
  obtain first create second where replies: "replies = (first, create, second)" by (cases replies)
  obtain e where e: "read_group_once codec first batch s = (Err e, s)"
    "case e of StreamRedis code _ \<Rightarrow> code \<noteq> Some ''NOGROUP'' | _ \<Rightarrow> True"
    using once by blast
  then show ?thesis by (cases e) (simp_all add: read_group_def replies)
qed

end
