(* ===== verification/Graph_Rebuild.thy ===== *)
theory Graph_Rebuild
  imports Graph_Store Event_Stream Outbox_Facts
begin

text \<open>
  The rebuild of the skill graph and the graph builder's loop (\<open>graph-builder/src/graph/rebuild.rs\<close>, \<open>main.rs\<close>): skills
  are built from the files, clustered, stored in one transaction, their vectors enqueued and drained, the version
  bumped and \<open>graph.rebuilt\<close> buffered; the loop collects changes, rebuilds, publishes the buffer and replays a version
  nobody heard of.  The outbox, the vector store, the graph tables and the stream are the state; clocks, fresh
  identifiers, the answers of the services and the text of a database error are parameters.
\<close>

section \<open>Errors and records\<close>

datatype graph_rebuild_error = GrBuild graph_build_error | GrDurableWrite string | GrEventPublication string

fun graph_rebuild_error_str :: "graph_rebuild_error \<Rightarrow> string" where
  "graph_rebuild_error_str (GrBuild e) = ''graph build failed: '' @ graph_build_error_str e"
| "graph_rebuild_error_str (GrDurableWrite m) = ''durable state write failed: '' @ m"
| "graph_rebuild_error_str (GrEventPublication m) = ''event publication failed: '' @ m"

fun outbox_error_str :: "string \<Rightarrow> outbox_error \<Rightarrow> string" where
  "outbox_error_str sqlx (InvalidContract m) = ''invalid outbox contract: '' @ m"
| "outbox_error_str sqlx (IdempotencyConflict k) = ''outbox idempotency conflict for key '' @ ticked k"
| "outbox_error_str sqlx (EventNotFound i) = ''outbox event '' @ ticked i @ '' was not found''"
| "outbox_error_str sqlx (IllegalTransition i expected actual) =
     ''outbox transition requires '' @ ticked expected @ '' state for '' @ ticked i @ '', got '' @ ticked actual"
| "outbox_error_str sqlx Persistence = ''outbox persistence error: '' @ sqlx"

fun outbox_relay_error_str :: "string \<Rightarrow> outbox_relay_error \<Rightarrow> string" where
  "outbox_relay_error_str sqlx (InvalidPayload m) = ''invalid vector payload contract: '' @ m"
| "outbox_relay_error_str sqlx (Coordinator e) = ''outbox coordinator failure: '' @ outbox_error_str sqlx e"
| "outbox_relay_error_str sqlx (VectorStore m) = ''vector store failure: '' @ m"

fun rebuild_error_str :: "string \<Rightarrow> rebuild_error \<Rightarrow> string" where
  "rebuild_error_str sqlx (RbInvalidContract m) = ''invalid rebuild contract: '' @ m"
| "rebuild_error_str sqlx RbPersistence = ''rebuild persistence error: '' @ sqlx"

record audit_record =
  ad_action :: string
  ad_entity_id :: string
  ad_metadata :: json

record durable_graph_mutation =
  dm_rebuilt_at :: int
  dm_skills :: "built_skill list"
  dm_communities :: "community_assignment list"
  dm_audits :: "audit_record list"

record graph_rebuild_outcome =
  go_graph_version :: int
  go_skills_count :: nat
  go_communities_count :: nat

text \<open>What the durable state works on, and what one rebuild meets.\<close>

record rebuild_world =
  gw_db :: graph_db
  gw_relay :: relay_state

record rebuild_env =
  gr_build :: build_env
  gr_communities :: community_env
  gr_blake3 :: "string \<Rightarrow> nat list"
  gr_sqlx :: string
  gr_now :: int
  gr_replace_tx :: tx_env
  gr_append_db :: "nat \<Rightarrow> db_env"
  gr_event :: "nat \<Rightarrow> uuid \<times> int"
  gr_correlation_id :: uuid
  gr_drain :: "nat \<Rightarrow> cycle_env"
  gr_bump_tx :: tx_env
  gr_stamp :: "uuid \<times> uuid \<times> int"

fun scope_debug :: "scope_type \<Rightarrow> string" where
  "scope_debug Project = ''Project''"
| "scope_debug Global = ''Global''"
| "scope_debug Team = ''Team''"

fun change_kind_debug :: "skill_file_change_kind \<Rightarrow> string" where
  "change_kind_debug Created = ''Created''"
| "change_kind_debug Modified = ''Modified''"
| "change_kind_debug Deleted = ''Deleted''"
| "change_kind_debug ApprovedRename = ''ApprovedRename''"
| "change_kind_debug RejectedRename = ''RejectedRename''"
| "change_kind_debug RetiredRename = ''RetiredRename''"

fun change_source_debug :: "file_change_source \<Rightarrow> string" where
  "change_source_debug Direct = ''Direct''"
| "change_source_debug PendingApproval = ''PendingApproval''"

text \<open>A float of JSON: what is not finite is null.\<close>

fun json_of_f32 :: "f32 \<Rightarrow> json" where
  "json_of_f32 (Fin q) = JNum q"
| "json_of_f32 NegZero = JNum 0"
| "json_of_f32 _ = JNull"

section \<open>Persisting\<close>

definition live_skill :: "built_skill \<Rightarrow> live_graph_skill_record" where
  "live_skill s =
     \<lparr>lk_stable_id = bk_id s, lk_name = bk_name s, lk_description = bk_description s, lk_scope = bk_scope_type s, lk_tags = bk_tags s,
      lk_source_paths = [path_display (bk_source_path s)],
      lk_subunits = map (\<lambda>u. \<lparr>lu_kind = eu_kind u, lu_title = eu_title u, lu_content = eu_content u\<rparr>) (bk_subunits s)\<rparr>"

definition live_community :: "community_assignment \<Rightarrow> live_graph_community_record" where
  "live_community c =
     \<lparr>lc_stable_id = cy_community_name c, lc_name = cy_community_name c, lc_scope = cy_scope c, lc_member_skill_ids = cy_skill_ids c,
      lc_source = community_source_str (cy_source c)\<rparr>"

definition vector_key :: "string \<Rightarrow> string" where
  "vector_key skill_id = ''graph.rebuild:vector:'' @ skill_id"

definition vector_event :: "rebuild_env \<Rightarrow> nat \<Rightarrow> built_skill \<Rightarrow> outbox_event" where
  "vector_event env i s =
     \<lparr>oe_event_id = fst (gr_event env i), oe_event_type = vector_upsert_event_type, oe_correlation_id = gr_correlation_id env,
      oe_idempotency_key = vector_key (bk_id s), oe_schema_version = 1, oe_timestamp = snd (gr_event env i),
      oe_payload = JObj [(''content_hash'', JStr (bk_id s)), (''vector'', JArr (map json_of_f32 (bk_embedding s))),
        (''payload'', JObj [(''skill_id'', JStr (bk_id s)), (''name'', JStr (bk_name s)),
          (''scope'', JStr (scope_debug (bk_scope_type s))), (''tags'', JArr (map JStr (bk_tags s)))])]\<rparr>"

fun append_vectors :: "rebuild_env \<Rightarrow> nat \<Rightarrow> built_skill list \<Rightarrow> outbox_table \<Rightarrow> (graph_rebuild_error, unit) result \<times> outbox_table" where
  "append_vectors env i [] tbl = (Ok (), tbl)"
| "append_vectors env i (s # ss) tbl =
     (case append_outbox_event_idempotent (gr_append_db env i) (vector_event env i s) tbl of
        (Err e, tbl) \<Rightarrow> (Err (GrDurableWrite (''outbox append for '' @ bk_id s @ '': '' @ outbox_error_str (gr_sqlx env) e)), tbl)
      | (Ok _, tbl) \<Rightarrow> append_vectors env (Suc i) ss tbl)"

definition live_mutation :: "durable_graph_mutation \<Rightarrow> live_graph_snapshot_mutation" where
  "live_mutation m =
     \<lparr>gm_rebuilt_at = dm_rebuilt_at m, gm_skills = map live_skill (dm_skills m), gm_communities = map live_community (dm_communities m)\<rparr>"

definition persist_graph_mutation ::
  "rebuild_env \<Rightarrow> durable_graph_mutation \<Rightarrow> rebuild_world \<Rightarrow> (graph_rebuild_error, unit) result \<times> rebuild_world" where
  "persist_graph_mutation env m w =
     (case replace_snapshot_and_bump_version (gr_blake3 env) (gr_replace_tx env) (live_mutation m) (gw_db w) of
        (Err e, db) \<Rightarrow> (Err (GrDurableWrite (rebuild_error_str (gr_sqlx env) e)), w\<lparr>gw_db := db\<rparr>)
      | (Ok _, db) \<Rightarrow>
          (case append_vectors env 0 (dm_skills m) (rls_table (gw_relay w)) of
             (r, tbl) \<Rightarrow> (r, w\<lparr>gw_db := db, gw_relay := (gw_relay w)\<lparr>rls_table := tbl\<rparr>\<rparr>)))"

definition mark_outbox_drained :: "rebuild_env \<Rightarrow> rebuild_world \<Rightarrow> (graph_rebuild_error, unit) result \<times> rebuild_world" where
  "mark_outbox_drained env w =
     (case outbox_relay_new 10 0 of
        Err e \<Rightarrow> (Err (GrDurableWrite (outbox_relay_error_str (gr_sqlx env) e)), w)
      | Ok relay \<Rightarrow>
          (case drain_correlation_outbox (gr_blake3 env) relay (gr_drain env) 0 (gr_correlation_id env) (gw_relay w) of
             (Err e, st) \<Rightarrow> (Err (GrDurableWrite (outbox_relay_error_str (gr_sqlx env) e)), w\<lparr>gw_relay := st\<rparr>)
           | (Ok _, st) \<Rightarrow> (Ok (), w\<lparr>gw_relay := st\<rparr>)))"

definition bump_version :: "rebuild_env \<Rightarrow> rebuild_world \<Rightarrow> (graph_rebuild_error, int) result \<times> rebuild_world" where
  "bump_version env w =
     (case bump_graph_version (gr_bump_tx env) (gw_db w) of
        (Err e, db) \<Rightarrow> (Err (GrDurableWrite (rebuild_error_str (gr_sqlx env) e)), w\<lparr>gw_db := db\<rparr>)
      | (Ok v, db) \<Rightarrow> (Ok v, w\<lparr>gw_db := db\<rparr>))"

section \<open>Rebuilding\<close>

definition audit_of :: "skill_file_change \<Rightarrow> audit_record" where
  "audit_of c =
     \<lparr>ad_action = ''graph.rebuild.file_change'', ad_entity_id = ch_idempotency_key c,
      ad_metadata = JObj [(''scope'', JStr (ch_scope_id c)), (''path'', JStr (path_display (ch_file_path c))),
        (''source'', JStr (change_source_debug (ch_source c))), (''change_type'', JStr (change_kind_debug (ch_kind c)))]\<rparr>"

definition int_json :: "int \<Rightarrow> json" where "int_json i = JNum (of_int i)"

definition rebuilt_event :: "uuid \<times> uuid \<times> int \<Rightarrow> int \<Rightarrow> (string \<times> json) list \<Rightarrow> event_envelope" where
  "rebuilt_event stamp version extra =
     event_envelope_new stamp ''graph.rebuilt'' (''graph.rebuilt:'' @ int_str version) (JObj ((''graph_version'', int_json version) # extra))"

definition rebuild_from_changes ::
  "rebuild_env \<Rightarrow> hdbscan_config \<Rightarrow> scope_root list \<Rightarrow> skill_file_change list \<Rightarrow> disk \<Rightarrow> rebuild_world \<times> event_envelope list \<Rightarrow>
     (graph_rebuild_error, graph_rebuild_outcome) result \<times> rebuild_world \<times> event_envelope list" where
  "rebuild_from_changes env config scope_roots file_changes d st =
     (case st of (w, published) \<Rightarrow>
        (case build_skills_from_scope_roots (gr_build env) scope_roots d of
           Err e \<Rightarrow> (Err (GrBuild e), w, published)
         | Ok skills \<Rightarrow>
             (case assign_communities (gr_communities env) config skills of
                Err m \<Rightarrow> (Err (GrDurableWrite m), w, published)
              | Ok communities \<Rightarrow>
                  (let mutation = \<lparr>dm_rebuilt_at = gr_now env, dm_skills = skills, dm_communities = communities,
                         dm_audits = map audit_of file_changes\<rparr>
                   in case persist_graph_mutation env mutation w of
                        (Err e, w) \<Rightarrow> (Err e, w, published)
                      | (Ok _, w) \<Rightarrow>
                          (case mark_outbox_drained env w of
                             (Err e, w) \<Rightarrow> (Err e, w, published)
                           | (Ok _, w) \<Rightarrow>
                               (case bump_version env w of
                                  (Err e, w) \<Rightarrow> (Err e, w, published)
                                | (Ok version, w) \<Rightarrow>
                                    (Ok \<lparr>go_graph_version = version, go_skills_count = length skills, go_communities_count = length communities\<rparr>, w,
                                     published @ [rebuilt_event (gr_stamp env) version
                                       [(''skills_count'', int_json (int (length skills))), (''communities_count'', int_json (int (length communities)))]])))))))"

section \<open>The loop (main.rs)\<close>

text \<open>The two scope roots, each from its variable or the working directory; \<open>cwd\<close> is empty when it cannot be read.\<close>

definition build_graph_scope_roots :: "environment \<Rightarrow> path \<Rightarrow> scope_root list" where
  "build_graph_scope_roots env cwd =
     [\<lparr>rt_scope_id = ''project'', rt_scope_type = Project,
       rt_root = (case env ''GRAPH_BUILDER_PROJECT_ROOT'' of Some p \<Rightarrow> path_parse p | None \<Rightarrow> path_parse (path_display cwd))\<rparr>,
      \<lparr>rt_scope_id = ''global'', rt_scope_type = Global,
       rt_root = (case env ''GRAPH_BUILDER_GLOBAL_ROOT'' of Some p \<Rightarrow> path_parse p | None \<Rightarrow> cwd @ [''docs''])\<rparr>]"

definition polling_interval_ms :: "environment \<Rightarrow> nat" where
  "polling_interval_ms env = (case Option.bind (env ''GRAPH_BUILDER_POLL_INTERVAL_MS'') (parse_unsigned 64) of Some ms \<Rightarrow> ms | None \<Rightarrow> 15000)"

definition published_version :: "event_envelope \<Rightarrow> int option" where
  "published_version e =
     (if oe_event_type e \<noteq> ''graph.rebuilt'' then None
      else case json_get (oe_payload e) ''graph_version'' of
          Some (JNum q) \<Rightarrow> if of_int \<lfloor>q\<rfloor> = q \<and> - (2 ^ 63) \<le> q \<and> q < 2 ^ 63 then Some \<lfloor>q\<rfloor> else None
        | _ \<Rightarrow> None)"

text \<open>The answer of the stream to the \<open>k\<close>th publication, with how much it trims.\<close>

record stream_env =
  sq_config :: redis_streams_config
  sq_codec :: stream_codec
  sq_reply :: "nat \<Rightarrow> redis_reply"
  sq_trim :: "nat \<Rightarrow> nat"

fun drain_events :: "stream_env \<Rightarrow> nat \<Rightarrow> event_envelope list \<Rightarrow> int option \<Rightarrow> event_stream \<Rightarrow> int option \<times> event_envelope list \<times> event_stream" where
  "drain_events env k [] best s = (best, [], s)"
| "drain_events env k (e # es) best s =
     (case publish (sq_config env) (sq_codec env) (sq_reply env k) (sq_trim env k) e s of
        (Err _, s) \<Rightarrow> (best, e # es, s)
      | (Ok _, s) \<Rightarrow>
          drain_events env (Suc k) es
            (case published_version e of
               None \<Rightarrow> best
             | Some v \<Rightarrow> Some (max (case best of None \<Rightarrow> 0 | Some b \<Rightarrow> b) v)) s)"

definition drain_published_events :: "stream_env \<Rightarrow> event_envelope list \<Rightarrow> event_stream \<Rightarrow> int option \<times> event_envelope list \<times> event_stream" where
  "drain_published_events env published s = drain_events env 0 published None s"

definition maybe_replay_graph_rebuilt ::
  "stream_env \<Rightarrow> bool \<Rightarrow> uuid \<times> uuid \<times> int \<Rightarrow> redis_reply \<Rightarrow> nat \<Rightarrow> graph_db \<Rightarrow> int \<Rightarrow> event_stream \<Rightarrow> int \<times> event_stream" where
  "maybe_replay_graph_rebuilt env up stamp reply dropped db last_published s =
     (case coordinator_graph_version up db of
        Err _ \<Rightarrow> (last_published, s)
      | Ok pg_version \<Rightarrow>
          if pg_version \<le> last_published then (last_published, s)
          else (case publish (sq_config env) (sq_codec env) reply dropped (rebuilt_event stamp pg_version [(''replayed'', JBool True)]) s of
              (Ok _, s) \<Rightarrow> (pg_version, s)
            | (Err _, s) \<Rightarrow> (last_published, s)))"

record builder_state =
  bs_watcher :: skill_watcher
  bs_recovery :: watcher_recovery
  bs_world :: rebuild_world
  bs_published :: "event_envelope list"
  bs_stream :: event_stream
  bs_last_published :: int

text \<open>What one pass of the loop meets.\<close>

record builder_env =
  bv_rebuild :: rebuild_env
  bv_config :: hdbscan_config
  bv_tree :: tree_env
  bv_orders :: map_orders
  bv_disk :: disk
  bv_db_up :: bool
  bv_stamp :: "uuid \<times> uuid \<times> int"
  bv_replay_reply :: redis_reply
  bv_replay_trim :: nat
  bv_stream :: stream_env

fun watcher_error_str :: "watcher_error \<Rightarrow> string" where
  "watcher_error_str (MissingScopeRoot p) = ''scope root does not exist: '' @ p"
| "watcher_error_str (WatchSetup m) = ''watcher setup failed: '' @ m"
| "watcher_error_str (WatchIo m) = ''watcher IO failure: '' @ m"

definition run_rebuild_cycle :: "builder_env \<Rightarrow> builder_state \<Rightarrow> (string, int option) result \<times> builder_state" where
  "run_rebuild_cycle env st =
     (case collect_file_changes (bv_orders env) (bv_tree env) (bs_watcher st) of
        (Err e, w) \<Rightarrow> (Err (watcher_error_str e), st\<lparr>bs_watcher := w\<rparr>)
      | (Ok first_scan, w) \<Rightarrow>
          (let (recovered, recovery) = reconcile_changes (bv_orders env) (sw_previous w) (sw_current w) (sw_scopes w) (bs_recovery st);
               all_changes = first_scan @ recovered;
               st = st\<lparr>bs_watcher := w, bs_recovery := recovery\<rparr>
           in if all_changes = [] then (Ok None, st)
              else (case rebuild_from_changes (bv_rebuild env) (bv_config env) (sw_scopes w) all_changes (bv_disk env) (bs_world st, bs_published st) of
                  (r, world, published) \<Rightarrow>
                    (case r of Err e \<Rightarrow> Err (graph_rebuild_error_str e) | Ok outcome \<Rightarrow> Ok (Some (go_graph_version outcome)),
                     st\<lparr>bs_world := world, bs_published := published\<rparr>))))"

definition builder_pass :: "builder_env \<Rightarrow> builder_state \<Rightarrow> builder_state" where
  "builder_pass env st =
     (let (last, stream) = maybe_replay_graph_rebuilt (bv_stream env) (bv_db_up env) (bv_stamp env) (bv_replay_reply env) (bv_replay_trim env)
            (gw_db (bs_world st)) (bs_last_published st) (bs_stream st);
          (_, st) = run_rebuild_cycle env (st\<lparr>bs_last_published := last, bs_stream := stream\<rparr>);
          (best, rest, stream) = drain_published_events (bv_stream env) (bs_published st) (bs_stream st)
      in st\<lparr>bs_published := rest, bs_stream := stream,
           bs_last_published := (case best of None \<Rightarrow> bs_last_published st | Some v \<Rightarrow> max (bs_last_published st) v)\<rparr>)"

text \<open>The orphaned rows of an earlier process are relayed once before the loop; an error is only logged.\<close>

definition startup_drain :: "(string \<Rightarrow> nat list) \<Rightarrow> (nat \<Rightarrow> cycle_env) \<Rightarrow> rebuild_world \<Rightarrow> (outbox_relay_error, nat) result \<times> rebuild_world" where
  "startup_drain blake3 envs w =
     (case outbox_relay_new 10 0 of
        Err e \<Rightarrow> (Err e, w)
      | Ok relay \<Rightarrow> (case relay_all_pending_to_completion blake3 relay envs (gw_relay w) of (r, st) \<Rightarrow> (r, w\<lparr>gw_relay := st\<rparr>)))"

end
