(* ===== verification/Rebuild_Facts.thy ===== *)
theory Rebuild_Facts
  imports Graph_Rebuild
begin

text \<open>
  What the graph builder guarantees and what it loses: a successful rebuild stores what it built and announces its
  version; a version in the database is announced by the end of the next pass and none is announced early; a skill
  whose vector was once enqueued keeps that vector; a failed rebuild is not repeated.
\<close>

section \<open>The outbox under a rebuild\<close>

lemma process_all_events: "map ob_event (rls_table (snd (process_claimed_records blake3 relay envs i recs report st))) = map ob_event (rls_table st)"
proof (induction recs arbitrary: i report st)
  case (Cons rec recs)
  then show ?case using relay_record_events [of blake3 relay "envs i" rec st] by (auto split: prod.split sum.split)
qed simp

lemma relay_once_events: "map ob_event (rls_table (snd (relay_once blake3 relay env c st))) = map ob_event (rls_table st)"
proof -
  have "map ob_event (snd (claim_pending_outbox db c n tbl)) = map ob_event tbl" for db n tbl
    by (auto simp: claim_pending_outbox_def Let_def claimed_row_def split: sum.split)
  then show ?thesis
    by (auto simp: relay_once_def process_all_events split: prod.split sum.split) (metis snd_conv)+
qed

lemma drain_events_kept: "map ob_event (rls_table (snd (drain_correlation_outbox blake3 relay envs k c st))) = map ob_event (rls_table st)"
proof (induction blake3 relay envs k c st rule: drain_correlation_outbox.induct)
  case (1 blake3 relay envs k c st)
  note step = drain_correlation_outbox.simps [of blake3 relay envs k c st]
  obtain r st1 where r: "relay_once blake3 relay (envs k) (Some c) st = (r, st1)" by fastforce
  then have kept: "map ob_event (rls_table st1) = map ob_event (rls_table st)" using relay_once_events [of blake3 relay "envs k" "Some c" st] by simp
  show ?case
  proof (cases "has_pending_for_correlation (cye_inspect (envs k)) c (rls_table st) = Ok True \<and> (\<exists>report. r = Ok report \<and> rr_claimed report \<noteq> 0)")
    case True
    then obtain report where t: "has_pending_for_correlation (cye_inspect (envs k)) c (rls_table st) = Ok True" "r = Ok report" "rr_claimed report \<noteq> 0"
      by blast
    from "1" [OF t(1) refl r [symmetric] t(2,3)] kept show ?thesis by (simp add: step t r)
  next
    case False
    then show ?thesis using kept by (auto simp: step r split: sum.split bool.split)
  qed
qed

lemma append_vectors_events:
  "\<exists>fresh. map ob_event (snd (append_vectors env i ss tbl)) = map ob_event tbl @ fresh \<and>
     (\<forall>e \<in> set fresh. oe_idempotency_key e \<notin> oe_idempotency_key ` ob_event ` set tbl)"
proof (induction env i ss tbl rule: append_vectors.induct)
  case (2 env i s ss tbl)
  obtain r t where a: "append_outbox_event_idempotent (gr_append_db env i) (vector_event env i s) tbl = (r, t)" by fastforce
  have t: "t = tbl \<or> (t = tbl @ [new_row (gr_append_db env i) (vector_event env i s)] \<and>
      oe_idempotency_key (vector_event env i s) \<notin> oe_idempotency_key ` ob_event ` set tbl)"
    using a by (auto simp: append_outbox_event_idempotent_def insert_outbox_event_idempotent_def image_image split: sum.splits if_splits)
  show ?case
  proof (cases r)
    case (Inl e)
    then show ?thesis using a t by (auto simp: new_row_def)
  next
    case (Inr b)
    from 2 [OF a [symmetric] Inr] obtain fresh where f: "map ob_event (snd (append_vectors env (Suc i) ss t)) = map ob_event t @ fresh"
      "\<forall>e \<in> set fresh. oe_idempotency_key e \<notin> oe_idempotency_key ` ob_event ` set t" by blast
    show ?thesis
    proof (cases "t = tbl")
      case True
      with f a Inr show ?thesis by auto
    next
      case False
      with t have "t = tbl @ [new_row (gr_append_db env i) (vector_event env i s)]"
        "oe_idempotency_key (vector_event env i s) \<notin> oe_idempotency_key ` ob_event ` set tbl" by auto
      with f a Inr show ?thesis by (intro exI [of _ "vector_event env i s # fresh"]) (auto simp: new_row_def)
    qed
  qed
qed auto

section \<open>A rebuild\<close>

lemma persist_cases:
  assumes "persist_graph_mutation env m w = (r, w')"
  shows "(\<exists>fresh. map ob_event (rls_table (gw_relay w')) = map ob_event (rls_table (gw_relay w)) @ fresh \<and>
      (\<forall>e \<in> set fresh. oe_idempotency_key e \<notin> oe_idempotency_key ` ob_event ` set (rls_table (gw_relay w)))) \<and>
    gw_db w' = snd (replace_snapshot_and_bump_version (gr_blake3 env) (gr_replace_tx env) (live_mutation m) (gw_db w))"
proof -
  obtain x db where x: "replace_snapshot_and_bump_version (gr_blake3 env) (gr_replace_tx env) (live_mutation m) (gw_db w) = (x, db)" by fastforce
  show ?thesis
  proof (cases x)
    case (Inl e)
    with assms x show ?thesis by (auto simp: persist_graph_mutation_def)
  next
    case (Inr v)
    obtain a tbl where a: "append_vectors env 0 (dm_skills m) (rls_table (gw_relay w)) = (a, tbl)" by fastforce
    with assms x Inr have "w' = w\<lparr>gw_db := db, gw_relay := (gw_relay w)\<lparr>rls_table := tbl\<rparr>\<rparr>" by (simp add: persist_graph_mutation_def)
    with x append_vectors_events [of env 0 "dm_skills m" "rls_table (gw_relay w)"] a show ?thesis by simp
  qed
qed

lemma drained_world: "gw_db (snd (mark_outbox_drained env w)) = gw_db w \<and>
    map ob_event (rls_table (gw_relay (snd (mark_outbox_drained env w)))) = map ob_event (rls_table (gw_relay w))"
  using drain_events_kept by (auto simp: mark_outbox_drained_def split: sum.split prod.split) (metis snd_conv)+

lemma bumped_world: "gw_relay (snd (bump_version env w)) = gw_relay w \<and> gw_db (snd (bump_version env w)) = snd (bump_graph_version (gr_bump_tx env) (gw_db w))"
  by (auto simp: bump_version_def split: sum.split prod.split)

text \<open>What a rebuild leaves of the outbox and of the database, whether it succeeds or not.\<close>

lemma rebuild_world_cases:
  assumes "rebuild_from_changes env config roots changes d (w, published) = (r, w', published')"
  shows "(\<exists>fresh. map ob_event (rls_table (gw_relay w')) = map ob_event (rls_table (gw_relay w)) @ fresh \<and>
      (\<forall>e \<in> set fresh. oe_idempotency_key e \<notin> oe_idempotency_key ` ob_event ` set (rls_table (gw_relay w)))) \<and>
    (gw_db w' = gw_db w \<or> (\<exists>m. gw_db w' = snd (replace_snapshot_and_bump_version (gr_blake3 env) (gr_replace_tx env) m (gw_db w))) \<or>
     (\<exists>m. gw_db w' = snd (bump_graph_version (gr_bump_tx env) (snd (replace_snapshot_and_bump_version (gr_blake3 env) (gr_replace_tx env) m (gw_db w))))))"
    (is "?events w' \<and> ?db w'")
proof (cases "\<exists>skills communities. build_skills_from_scope_roots (gr_build env) roots d = Ok skills \<and>
    assign_communities (gr_communities env) config skills = Ok communities")
  case False
  with assms have "w' = w" by (auto simp: rebuild_from_changes_def split: sum.split_asm)
  then show ?thesis by auto
next
  case True
  then obtain skills communities where s: "build_skills_from_scope_roots (gr_build env) roots d = Ok skills"
    "assign_communities (gr_communities env) config skills = Ok communities" by blast
  let ?m = "\<lparr>dm_rebuilt_at = gr_now env, dm_skills = skills, dm_communities = communities, dm_audits = map audit_of changes\<rparr>"
  obtain x1 w1 where 1: "persist_graph_mutation env ?m w = (x1, w1)" by fastforce
  obtain x2 w2 where 2: "mark_outbox_drained env w1 = (x2, w2)" by fastforce
  obtain x3 w3 where 3: "bump_version env w2 = (x3, w3)" by fastforce
  note p = persist_cases [OF 1] and d = drained_world [of env w1, unfolded 2 snd_conv] and b = bumped_world [of env w2, unfolded 3 snd_conv]
  have "w' = w1 \<or> w' = w2 \<or> w' = w3"
    using assms s 1 2 3 by (auto simp: rebuild_from_changes_def Let_def split: sum.split_asm)
  then show ?thesis using p d b by metis
qed

lemma rebuild_Ok:
  assumes "rebuild_from_changes env config roots changes d (w, published) = (Ok outcome, w', published')"
  shows "\<exists>skills communities v1 db1 tbl st1 db2. build_skills_from_scope_roots (gr_build env) roots d = Ok skills \<and>
    assign_communities (gr_communities env) config skills = Ok communities \<and>
    replace_snapshot_and_bump_version (gr_blake3 env) (gr_replace_tx env)
      \<lparr>gm_rebuilt_at = gr_now env, gm_skills = map live_skill skills, gm_communities = map live_community communities\<rparr> (gw_db w) = (Ok v1, db1) \<and>
    append_vectors env 0 skills (rls_table (gw_relay w)) = (Ok (), tbl) \<and>
    drain_correlation_outbox (gr_blake3 env) \<lparr>rly_claim_limit = 10, rly_retry_after_seconds = 0\<rparr> (gr_drain env) 0 (gr_correlation_id env)
      ((gw_relay w)\<lparr>rls_table := tbl\<rparr>) = (Ok (), st1) \<and>
    bump_graph_version (gr_bump_tx env) db1 = (Ok (go_graph_version outcome), db2) \<and>
    w' = w\<lparr>gw_db := db2, gw_relay := st1\<rparr> \<and> go_skills_count outcome = length skills \<and> go_communities_count outcome = length communities \<and>
    published' = published @ [rebuilt_event (gr_stamp env) (go_graph_version outcome)
       [(''skills_count'', int_json (int (length skills))), (''communities_count'', int_json (int (length communities)))]]"
proof -
  from assms obtain skills communities where s: "build_skills_from_scope_roots (gr_build env) roots d = Ok skills"
    "assign_communities (gr_communities env) config skills = Ok communities"
    by (auto simp: rebuild_from_changes_def split: sum.split_asm)
  let ?m = "\<lparr>dm_rebuilt_at = gr_now env, dm_skills = skills, dm_communities = communities, dm_audits = map audit_of changes\<rparr>"
  obtain x1 w1 where 1: "persist_graph_mutation env ?m w = (x1, w1)" by fastforce
  obtain x2 w2 where 2: "mark_outbox_drained env w1 = (x2, w2)" by fastforce
  obtain x3 w3 where 3: "bump_version env w2 = (x3, w3)" by fastforce
  from assms s 1 2 3 have x: "x1 = Ok ()" "x2 = Ok ()" "x3 = Ok (go_graph_version outcome)" "w' = w3"
    "go_skills_count outcome = length skills" "go_communities_count outcome = length communities"
    "published' = published @ [rebuilt_event (gr_stamp env) (go_graph_version outcome)
       [(''skills_count'', int_json (int (length skills))), (''communities_count'', int_json (int (length communities)))]]"
    by (auto simp: rebuild_from_changes_def Let_def split: sum.split_asm)
  obtain v1 db1 where r: "replace_snapshot_and_bump_version (gr_blake3 env) (gr_replace_tx env) (live_mutation ?m) (gw_db w) = (Ok v1, db1)"
    using 1 x(1) by (auto simp: persist_graph_mutation_def split: prod.split_asm sum.split_asm)
  obtain tbl where t: "append_vectors env 0 skills (rls_table (gw_relay w)) = (Ok (), tbl)"
    and w1: "w1 = w\<lparr>gw_db := db1, gw_relay := (gw_relay w)\<lparr>rls_table := tbl\<rparr>\<rparr>"
    using 1 x(1) r by (auto simp: persist_graph_mutation_def split: prod.split_asm)
  obtain st1 where st: "drain_correlation_outbox (gr_blake3 env) \<lparr>rly_claim_limit = 10, rly_retry_after_seconds = 0\<rparr> (gr_drain env) 0
      (gr_correlation_id env) (gw_relay w1) = (Ok (), st1)" "w2 = w1\<lparr>gw_relay := st1\<rparr>"
    using 2 x(2) by (auto simp: mark_outbox_drained_def outbox_relay_new_def split: prod.split_asm sum.split_asm)
  obtain db2 where b: "bump_graph_version (gr_bump_tx env) (gw_db w2) = (Ok (go_graph_version outcome), db2)" "w3 = w2\<lparr>gw_db := db2\<rparr>"
    using 3 x(3) by (auto simp: bump_version_def split: prod.split_asm sum.split_asm)
  have "live_mutation ?m = \<lparr>gm_rebuilt_at = gr_now env, gm_skills = map live_skill skills, gm_communities = map live_community communities\<rparr>"
    by (simp add: live_mutation_def)
  with s r t st b x(4-) w1 show ?thesis by (simp add: b)
qed

lemma bump_Ok:
  assumes "bump_graph_version tx db = (Ok v, db')"
  shows "v = state_version db + 1 \<and> state_version db' = v \<and> v < 2 ^ 63 \<and> (\<exists>r. db' = db\<lparr>gd_graph_state := Some (v, r)\<rparr>)"
proof -
  from assms obtain x where "run_transaction tx [bump_state None] db = (Some x, db')" and v: "v = state_version db'"
    by (auto simp: bump_graph_version_def split: option.split_asm prod.split_asm)
  then have "run_statements (tx_fails tx) 0 [bump_state None] db = Some db'" using transaction_Some by blast
  then show ?thesis
    using v by (auto simp: bump_state_def state_version_def bind_eq_Some_conv split: if_splits option.split_asm) blast
qed

text \<open>The events of the outbox under the key of a skill, and what an event must hold for the relay to store the skill's vector.\<close>

definition enqueued :: "string \<Rightarrow> rebuild_world \<Rightarrow> outbox_event list" where
  "enqueued skill_id w = filter (\<lambda>e. oe_idempotency_key e = vector_key skill_id) (map ob_event (rls_table (gw_relay w)))"

definition carries_vector :: "string \<Rightarrow> built_skill \<Rightarrow> outbox_event \<Rightarrow> bool" where
  "carries_vector correlation_id s e \<longleftrightarrow> oe_event_type e = vector_upsert_event_type \<and> oe_correlation_id e = correlation_id \<and>
     json_get (oe_payload e) ''content_hash'' = Some (JStr (bk_id s)) \<and>
     json_get (oe_payload e) ''vector'' = Some (JArr (map json_of_f32 (bk_embedding s))) \<and>
     (\<exists>meta. json_get (oe_payload e) ''payload'' = Some meta \<and> json_get meta ''skill_id'' = Some (JStr (bk_id s)) \<and>
        json_get meta ''name'' = Some (JStr (bk_name s)) \<and> json_get meta ''scope'' = Some (JStr (scope_debug (bk_scope_type s))) \<and>
        json_get meta ''tags'' = Some (JArr (map JStr (bk_tags s))))"

lemma vector_event_carries: "carries_vector (gr_correlation_id env) s (vector_event env i s)"
  by (simp add: carries_vector_def vector_event_def)

abbreviation keyed :: "string \<Rightarrow> outbox_table \<Rightarrow> outbox_event list" where
  "keyed k tbl \<equiv> filter (\<lambda>e. oe_idempotency_key e = k) (map ob_event tbl)"

lemma append_one_keyed:
  assumes "append_outbox_event_idempotent db e tbl = (Ok b, t)"
  shows "keyed k t = (if k = oe_idempotency_key e \<and> keyed k tbl = [] then [e] else keyed k tbl)"
proof -
  have "t = tbl \<and> oe_idempotency_key e \<in> oe_idempotency_key ` ob_event ` set tbl \<or>
      t = tbl @ [new_row db e] \<and> oe_idempotency_key e \<notin> oe_idempotency_key ` ob_event ` set tbl"
    using assms by (auto simp: append_outbox_event_idempotent_def insert_outbox_event_idempotent_def image_image split: sum.splits if_splits)
  moreover have "(oe_idempotency_key e \<in> oe_idempotency_key ` ob_event ` set tbl) = (keyed (oe_idempotency_key e) tbl \<noteq> [])"
    by (simp add: filter_empty_conv image_iff) metis
  ultimately show ?thesis by (elim disjE conjE) (auto simp: new_row_def)
qed

lemma append_vectors_keyed:
  "fst (append_vectors env i ss tbl) = Ok () \<Longrightarrow> distinct (map bk_id ss) \<Longrightarrow>
   (k \<notin> (\<lambda>s. vector_key (bk_id s)) ` set ss \<longrightarrow> keyed k (snd (append_vectors env i ss tbl)) = keyed k tbl) \<and>
   (\<forall>s \<in> set ss. k = vector_key (bk_id s) \<longrightarrow>
      (if keyed k tbl = [] then \<exists>j. keyed k (snd (append_vectors env i ss tbl)) = [vector_event env j s]
       else keyed k (snd (append_vectors env i ss tbl)) = keyed k tbl))"
proof (induction env i ss tbl rule: append_vectors.induct)
  case (2 env i s ss tbl)
  obtain r t where a: "append_outbox_event_idempotent (gr_append_db env i) (vector_event env i s) tbl = (r, t)" by fastforce
  with 2(2) obtain b where r: "r = Ok b" by (cases r) auto
  have run: "append_vectors env i (s # ss) tbl = append_vectors env (Suc i) ss t" using a r by simp
  note IH = 2(1) [OF a [symmetric] r] and one = append_one_keyed [OF a [unfolded r], of k]
  have key: "oe_idempotency_key (vector_event env i s) = vector_key (bk_id s)" by (simp add: vector_event_def)
  have d: "distinct (map bk_id ss)" "bk_id s \<notin> bk_id ` set ss" using 2(3) by auto
  have IH: "k \<notin> (\<lambda>s. vector_key (bk_id s)) ` set ss \<Longrightarrow> keyed k (snd (append_vectors env (Suc i) ss t)) = keyed k t"
    "\<And>u. u \<in> set ss \<Longrightarrow> k = vector_key (bk_id u) \<Longrightarrow> if keyed k t = [] then \<exists>j. keyed k (snd (append_vectors env (Suc i) ss t)) = [vector_event env j u]
       else keyed k (snd (append_vectors env (Suc i) ss t)) = keyed k t"
    using IH 2(2) d(1) unfolding run by blast+
  show ?case
  proof (cases "k = vector_key (bk_id s)")
    case True
    with d(2) have fresh: "k \<notin> (\<lambda>s. vector_key (bk_id s)) ` set ss" by (auto simp: vector_key_def)
    have "u = s" if "u \<in> set (s # ss)" "k = vector_key (bk_id u)" for u using that fresh by auto
    with IH(1) [OF fresh] one True show ?thesis unfolding run key by (cases "keyed k tbl = []") auto
  next
    case False
    with one have "keyed k t = keyed k tbl" unfolding key by simp
    with IH False show ?thesis unfolding run by auto
  qed
qed simp

text \<open>The transaction of a rebuild fails on two skills of one identifier and on two communities of one name.\<close>

lemma rebuild_distinct:
  assumes "rebuild_from_changes env config roots changes d (w, published) = (Ok outcome, w', published')"
  shows "\<exists>skills communities. build_skills_from_scope_roots (gr_build env) roots d = Ok skills \<and>
    assign_communities (gr_communities env) config skills = Ok communities \<and>
    distinct (map bk_id skills) \<and> distinct (map cy_community_name communities)"
proof -
  from rebuild_Ok [OF assms] obtain skills communities v1 db1 where s: "build_skills_from_scope_roots (gr_build env) roots d = Ok skills"
    "assign_communities (gr_communities env) config skills = Ok communities"
    and r: "replace_snapshot_and_bump_version (gr_blake3 env) (gr_replace_tx env)
      \<lparr>gm_rebuilt_at = gr_now env, gm_skills = map live_skill skills, gm_communities = map live_community communities\<rparr> (gw_db w) = (Ok v1, db1)"
    by auto
  from replace_stores [OF r] have "graph_ok (stored_graph (gr_blake3 env)
      \<lparr>gm_rebuilt_at = gr_now env, gm_skills = map live_skill skills, gm_communities = map live_community communities\<rparr> (gw_db w))" by blast
  from stored_ids [OF this] have "distinct (map lk_stable_id (map live_skill skills))"
    "distinct (map (stable_uuid (gr_blake3 env) ''community'') (map lc_stable_id (map live_community communities)))"
    by (simp_all add: comp_assoc)
  moreover have "map lk_stable_id (map live_skill skills) = map bk_id skills"
    "map lc_stable_id (map live_community communities) = map cy_community_name communities"
    by (simp_all add: live_skill_def live_community_def)
  ultimately have "distinct (map bk_id skills)" "distinct (map cy_community_name communities)"
    by (simp_all only: distinct_map)
  with s show ?thesis by blast
qed

text \<open>C3: a rebuild that succeeds has stored what it built: readers of the database see exactly the built skills, each skill the outbox knew no vector of has got exactly one event with its embedding and its metadata under the rebuild's correlation, each other skill's events are the ones it had, no row of its drain is pending, the version has grown by two, the version column of the skills by one, and one \<open>graph.rebuilt\<close> event with that version waits to be published.\<close>

theorem rebuild_stores_what_it_builds:
  assumes "rebuild_from_changes env config roots changes d (w, published) = (Ok outcome, w', published')"
    and "build_skills_from_scope_roots (gr_build env) roots d = Ok skills" and "list_all (\<lambda>s. length (bk_subunits s) < 2 ^ 31) skills"
  shows "go_graph_version outcome = state_version (gw_db w) + 2 \<and> state_version (gw_db w') = go_graph_version outcome \<and>
    list_all (\<lambda>r. kr_graph_version r = go_graph_version outcome - 1) (gd_skills (gw_db w')) \<and>
    (\<exists>stored. list_skills order True (gw_db w') = Ok stored \<and>
       mset (map skill_view stored) = mset (map (live_view (gr_blake3 env) \<circ> live_skill) skills)) \<and>
    list_all (\<lambda>s. if enqueued (bk_id s) w = [] then \<exists>e. enqueued (bk_id s) w' = [e] \<and> carries_vector (gr_correlation_id env) s e
      else enqueued (bk_id s) w' = enqueued (bk_id s) w) skills \<and>
    list_all (\<lambda>r. oe_correlation_id (ob_event r) \<noteq> gr_correlation_id env \<or> ob_status r \<in> {OPublished, OFailed}) (rls_table (gw_relay w')) \<and>
    (\<exists>e. published' = published @ [e] \<and> oe_event_type e = ''graph.rebuilt'' \<and>
       json_get (oe_payload e) ''graph_version'' = Some (int_json (go_graph_version outcome)))"
proof -
  from rebuild_Ok [OF assms(1)] assms(2) obtain communities v1 db1 tbl st1 db2 where
    r: "replace_snapshot_and_bump_version (gr_blake3 env) (gr_replace_tx env)
      \<lparr>gm_rebuilt_at = gr_now env, gm_skills = map live_skill skills, gm_communities = map live_community communities\<rparr> (gw_db w) = (Ok v1, db1)"
    and t: "append_vectors env 0 skills (rls_table (gw_relay w)) = (Ok (), tbl)"
    and st: "drain_correlation_outbox (gr_blake3 env) \<lparr>rly_claim_limit = 10, rly_retry_after_seconds = 0\<rparr> (gr_drain env) 0 (gr_correlation_id env)
      ((gw_relay w)\<lparr>rls_table := tbl\<rparr>) = (Ok (), st1)"
    and b: "bump_graph_version (gr_bump_tx env) db1 = (Ok (go_graph_version outcome), db2)"
    and w': "w' = w\<lparr>gw_db := db2, gw_relay := st1\<rparr>"
    and p: "published' = published @ [rebuilt_event (gr_stamp env) (go_graph_version outcome)
       [(''skills_count'', int_json (int (length skills))), (''communities_count'', int_json (int (length communities)))]]"
    by auto
  let ?m = "\<lparr>gm_rebuilt_at = gr_now env, gm_skills = map live_skill skills, gm_communities = map live_community communities\<rparr>"
  note stored = replace_stores [OF r]
  obtain g where bump: "go_graph_version outcome = state_version db1 + 1" "state_version db2 = go_graph_version outcome"
    "db2 = db1\<lparr>gd_graph_state := Some (go_graph_version outcome, g)\<rparr>"
    using bump_Ok [OF b] by blast
  have v1: "v1 = state_version (gw_db w) + 1" "state_version db1 = v1" using stored by blast+
  have small: "list_all (\<lambda>s. length (lk_subunits s) < 2 ^ 31) (gm_skills ?m)"
    using assms(3) by (simp add: list_all_iff live_skill_def)
  obtain rows where rows: "list_skills order True db1 = Ok rows" "mset (map skill_view rows) = mset (map (live_view (gr_blake3 env)) (gm_skills ?m))"
    using rebuilt_skills_listed [OF r small] by blast
  have read: "list_skills order True db2 = list_skills order True db1"
    by (simp add: bump(3) list_skills_def communities_of_skill_def subunits_of_skill_def joined_subunits_def)
  have skills: "gd_skills db2 = map (\<lambda>s. (skill_row_of (gr_blake3 env) s)\<lparr>kr_graph_version := v1\<rparr>) (gm_skills ?m)"
    using stored bump(3) by simp
  have kept: "map ob_event (rls_table st1) = map ob_event tbl"
    using drain_events_kept [of "gr_blake3 env" "\<lparr>rly_claim_limit = 10, rly_retry_after_seconds = 0\<rparr>" "gr_drain env" 0 "gr_correlation_id env"
        "(gw_relay w)\<lparr>rls_table := tbl\<rparr>"] st by simp
  have "distinct (map bk_id skills)" using rebuild_distinct [OF assms(1)] assms(2) by auto
  note keyed = append_vectors_keyed [OF _ this, of env 0 "rls_table (gw_relay w)", unfolded t fst_conv snd_conv, OF refl]
  have vectors: "if keyed (vector_key (bk_id s)) (rls_table (gw_relay w)) = [] then \<exists>j. keyed (vector_key (bk_id s)) tbl = [vector_event env j s]
      else keyed (vector_key (bk_id s)) tbl = keyed (vector_key (bk_id s)) (rls_table (gw_relay w))" if "s \<in> set skills" for s
    using keyed [of "vector_key (bk_id s)"] that by blast
  have enqueued: "list_all (\<lambda>s. if enqueued (bk_id s) w = [] then \<exists>e. enqueued (bk_id s) w' = [e] \<and> carries_vector (gr_correlation_id env) s e
      else enqueued (bk_id s) w' = enqueued (bk_id s) w) skills"
    unfolding list_all_iff
  proof
    fix s assume "s \<in> set skills"
    moreover have "enqueued (bk_id s) w' = keyed (vector_key (bk_id s)) tbl" "enqueued (bk_id s) w = keyed (vector_key (bk_id s)) (rls_table (gw_relay w))"
      by (simp_all add: enqueued_def w' kept)
    ultimately show "if enqueued (bk_id s) w = [] then \<exists>e. enqueued (bk_id s) w' = [e] \<and> carries_vector (gr_correlation_id env) s e
        else enqueued (bk_id s) w' = enqueued (bk_id s) w"
      using vectors [of s] vector_event_carries [of env s] by (auto split: if_splits)
  qed
  have settled: "list_all (\<lambda>r. oe_correlation_id (ob_event r) \<noteq> gr_correlation_id env \<or> ob_status r \<in> {OPublished, OFailed}) (rls_table st1)"
    using drain_Ok [OF st] by (auto simp: list_all_iff)
  have event: "\<exists>e. published' = published @ [e] \<and> oe_event_type e = ''graph.rebuilt'' \<and>
      json_get (oe_payload e) ''graph_version'' = Some (int_json (go_graph_version outcome))"
    using p by (simp add: rebuilt_event_def)
  have versions: "go_graph_version outcome = state_version (gw_db w) + 2" using bump(1) v1 by simp
  have columns: "list_all (\<lambda>r. kr_graph_version r = go_graph_version outcome - 1) (gd_skills db2)"
    unfolding skills using bump(1) v1 by (simp add: list_all_iff)
  show ?thesis
    using versions columns bump(2) rows read enqueued settled event by (simp add: w' o_def)
qed


section \<open>Vectors of changed skills\<close>

text \<open>C39: the vector of a skill is enqueued once and never again: when the outbox has an event for the skill's identifier, which depends on the path of its file only, any rebuild leaves the events of that skill as they are, whatever the file, its text and its new embedding have become.\<close>

theorem stale_vector_kept:
  assumes "rebuild_from_changes env config roots changes d (w, published) = (result, w', published')"
    and "enqueued skill_id w \<noteq> []"
  shows "enqueued skill_id w' = enqueued skill_id w"
proof -
  obtain fresh where f: "map ob_event (rls_table (gw_relay w')) = map ob_event (rls_table (gw_relay w)) @ fresh"
    "\<forall>e \<in> set fresh. oe_idempotency_key e \<notin> oe_idempotency_key ` ob_event ` set (rls_table (gw_relay w))"
    using rebuild_world_cases [OF assms(1)] by blast
  have "vector_key skill_id \<in> oe_idempotency_key ` ob_event ` set (rls_table (gw_relay w))"
    using assms(2) unfolding enqueued_def filter_empty_conv by (simp add: image_iff) metis
  with f(2) have "filter (\<lambda>e. oe_idempotency_key e = vector_key skill_id) fresh = []"
    by (auto simp: filter_empty_conv)
  with f(1) show ?thesis by (simp add: enqueued_def)
qed

section \<open>Failed rebuilds\<close>

text \<open>a failed rebuild is not repeated: the changes of a scan are taken as seen before the rebuild, so when the files stay as they are the next cycle finds nothing to do, whatever became of the rebuild of this one.\<close>

theorem failed_rebuild_not_retried:
  assumes "run_rebuild_cycle env st = (result, st')"
    and "build_snapshot (bv_tree env) (sw_scopes (bs_watcher st)) = Ok tree"
    and "build_snapshot (bv_tree env') (sw_scopes (bs_watcher st)) = Ok tree"
    and "fair_orders (bv_orders env')" and "distinct (map fst tree)"
  shows "fst (run_rebuild_cycle env' st') = Ok None \<and> bs_world (snd (run_rebuild_cycle env' st')) = bs_world st'"
proof -
  have same: "diff_skill_snapshots (bv_orders env') scopes tree tree = []" for scopes using assms(4,5) by (rule diff_same)
  have w: "sw_current (bs_watcher st') = tree \<and> sw_scopes (bs_watcher st') = sw_scopes (bs_watcher st)"
    using assms(1,2)
    by (auto simp: run_rebuild_cycle_def collect_file_changes_def Let_def split: prod.split_asm if_splits)
  let ?w = "(bs_watcher st')\<lparr>sw_previous := tree, sw_current := tree\<rparr>"
  have "collect_file_changes (bv_orders env') (bv_tree env') (bs_watcher st') = (Ok [], ?w)"
    using w assms(3) by (simp add: collect_file_changes_def same)
  moreover have "fst (reconcile_changes (bv_orders env') tree tree scopes r) = []" for scopes r
    by (simp add: reconcile_changes_def same Let_def)
  ultimately show ?thesis by (simp add: run_rebuild_cycle_def case_prod_unfold Let_def)
qed

section \<open>Announcing versions\<close>

lemma run_state_version:
  assumes "list_all (\<lambda>s. \<forall>db db'. s db = Some db' \<longrightarrow> state_version db \<le> state_version db') ss"
    and "run_statements fails k ss db = Some db'"
  shows "state_version db \<le> state_version db'"
  using assms
proof (induction ss arbitrary: k db)
  case (Cons s ss)
  from Cons.prems(2) obtain db1 where "s db = Some db1" "run_statements fails (Suc k) ss db1 = Some db'"
    by (auto simp: bind_eq_Some_conv split: if_splits)
  with Cons.IH [of "Suc k" db1] Cons.prems(1) show ?case by (auto intro: order_trans)
qed simp

lemma run_transaction_version:
  assumes "list_all (\<lambda>s. \<forall>db db'. s db = Some db' \<longrightarrow> state_version db \<le> state_version db') ss"
  shows "state_version db \<le> state_version (snd (run_transaction tx ss db))"
  using run_state_version [OF assms, of "tx_fails tx" 0 db]
  by (auto simp: run_transaction_def split: option.split commit_outcome.split)

lemma bump_state_version: "bump_state t db = Some db' \<Longrightarrow> state_version db \<le> state_version db'"
  by (auto simp: bump_state_def state_version_def split: option.split_asm if_splits)

lemma replace_version: "state_version db \<le> state_version (snd (replace_snapshot_and_bump_version b tx m db))"
proof -
  have "state_version db \<le> state_version db'" if "s \<in> set (replace_statements b m)" "s db = Some db'" for s db db'
  proof -
    let ?inserts = "concat (map (skill_statements b) (gm_skills m)) @ concat (map (community_statements b) (gm_communities m))"
    have parts: "s \<in> set ds \<or> s \<in> set ins \<or> s \<in> set es" if "s \<in> set (ds @ ins @ es)" for ds ins es using that by auto
    have "replace_statements b m = [delete_community_skills, delete_skill_subunits, delete_communities, delete_subunits, delete_skills] @
        ?inserts @ [bump_state (Some (gm_rebuilt_at m)), update_skill_versions]"
      by (simp add: replace_statements_def)
    with that(1) parts [of _ ?inserts] have "s \<in> set ?inserts \<or> s \<in> {delete_community_skills, delete_skill_subunits, delete_communities,
        delete_subunits, delete_skills, update_skill_versions} \<or> s = bump_state (Some (gm_rebuilt_at m))"
      by fastforce
    moreover have "extends s" if "s \<in> set ?inserts"
      using that graph_inserts(2) [of b "gm_skills m" "gm_communities m"] unfolding list_all_iff by (rule bspec [rotated])
    ultimately consider "extends s" | "s \<in> {delete_community_skills, delete_skill_subunits, delete_communities, delete_subunits,
        delete_skills, update_skill_versions}" | "s = bump_state (Some (gm_rebuilt_at m))"
      by blast
    then show ?thesis
    proof cases
      case 1
      then show ?thesis using that(2) by (auto simp: extends_def state_version_def)
    next
      case 2
      then show ?thesis using that(2) by (auto simp: statement_defs state_version_def)
    next
      case 3
      then show ?thesis using that(2) bump_state_version by blast
    qed
  qed
  then show ?thesis
    using run_transaction_version [of "replace_statements b m" db tx]
    by (simp add: replace_snapshot_and_bump_version_def snd_outcome list_all_iff)
qed

lemma bump_version_grows: "state_version db \<le> state_version (snd (bump_graph_version tx db))"
  using run_transaction_version [of "[bump_state None]" db tx] bump_state_version
  by (simp add: bump_graph_version_def snd_outcome)

lemma rebuild_version:
  assumes "rebuild_from_changes env config roots changes d (w, published) = (r, w', published')"
  shows "state_version (gw_db w) \<le> state_version (gw_db w')"
  using rebuild_world_cases [OF assms] replace_version bump_version_grows by (metis order_refl order_trans)

lemma published_version_event:
  "- (2 ^ 63) \<le> v \<Longrightarrow> v < 2 ^ 63 \<Longrightarrow> published_version (rebuilt_event stamp v extra) = Some v"
  by (simp add: published_version_def rebuilt_event_def int_json_def)







lemma pass_parts:
  assumes "builder_pass env st = st'"
  shows "\<exists>last stream r st1 best rest stream'. maybe_replay_graph_rebuilt (bv_stream env) (bv_db_up env) (bv_stamp env) (bv_replay_reply env)
      (bv_replay_trim env) (gw_db (bs_world st)) (bs_last_published st) (bs_stream st) = (last, stream) \<and>
    run_rebuild_cycle env (st\<lparr>bs_last_published := last, bs_stream := stream\<rparr>) = (r, st1) \<and>
    drain_published_events (bv_stream env) (bs_published st1) (bs_stream st1) = (best, rest, stream') \<and>
    st' = st1\<lparr>bs_published := rest, bs_stream := stream',
      bs_last_published := (case best of None \<Rightarrow> bs_last_published st1 | Some v \<Rightarrow> max (bs_last_published st1) v)\<rparr>"
  using assms by (auto simp: builder_pass_def Let_def split: prod.split_asm)

lemma cycle_frame:
  assumes "run_rebuild_cycle env st = (r, st')"
  shows "bs_stream st' = bs_stream st \<and> bs_last_published st' = bs_last_published st \<and>
    ((bs_world st' = bs_world st \<and> bs_published st' = bs_published st) \<or>
     (\<exists>e roots changes. rebuild_from_changes (bv_rebuild env) (bv_config env) roots changes (bv_disk env) (bs_world st, bs_published st) =
        (e, bs_world st', bs_published st')))"
  using assms by (auto simp: run_rebuild_cycle_def Let_def split: prod.split_asm sum.split_asm if_splits)

lemma rebuild_buffer:
  assumes "rebuild_from_changes env config roots changes d (w, published) = (r, w', published')"
  shows "published' = published \<or> (\<exists>extra. published' = published @ [rebuilt_event (gr_stamp env) (state_version (gw_db w')) extra])"
proof (cases r)
  case (Inl e)
  with assms show ?thesis by (auto simp: rebuild_from_changes_def Let_def split: sum.split_asm prod.split_asm)
next
  case (Inr outcome)
  from rebuild_Ok [OF assms [unfolded Inr]] bump_Ok show ?thesis by fastforce
qed


text \<open>The states of a process: a fresh loop over some database, then passes that meet anything.\<close>

inductive builder_reachable :: "builder_state \<Rightarrow> bool" where
  booted: "0 \<le> state_version (gw_db (bs_world st)) \<Longrightarrow> bs_published st = [] \<Longrightarrow> bs_last_published st = 0 \<Longrightarrow> builder_reachable st"
| passed: "builder_reachable st \<Longrightarrow> builder_reachable (builder_pass env st)"
| relayed: "builder_reachable st \<Longrightarrow> builder_reachable (st\<lparr>bs_world := snd (startup_drain b envs (bs_world st))\<rparr>)"

definition announced_ok :: "builder_state \<Rightarrow> bool" where
  "announced_ok st \<longleftrightarrow> 0 \<le> bs_last_published st \<and> bs_last_published st \<le> state_version (gw_db (bs_world st)) \<and>
     list_all (\<lambda>e. \<forall>v. published_version e = Some v \<longrightarrow> v \<le> state_version (gw_db (bs_world st))) (bs_published st)"

lemma drain_best:
  "drain_events env k es best s = (best', rest, s') \<Longrightarrow> (\<exists>sent. es = sent @ rest \<and>
     (\<forall>v. best' = Some v \<longrightarrow> v \<in> set_option best \<union> {0} \<union> List.set (List.map_filter published_version sent)))"
proof (induction env k es best s rule: drain_events.induct)
  case (2 env k e es best s)
  obtain r s1 where p: "publish (sq_config env) (sq_codec env) (sq_reply env k) (sq_trim env k) e s = (r, s1)" by fastforce
  show ?case
  proof (cases r)
    case (Inl x)
    with 2(2) p show ?thesis by (auto simp: List.map_filter_def)
  next
    case (Inr i)
    let ?best = "case published_version e of None \<Rightarrow> best | Some v \<Rightarrow> Some (max (case best of None \<Rightarrow> 0 | Some b \<Rightarrow> b) v)"
    from 2(2) p Inr have "drain_events env (Suc k) es ?best s1 = (best', rest, s')" by simp
    from 2(1) [OF p [symmetric] Inr this] obtain sent where s: "es = sent @ rest"
      "\<forall>v. best' = Some v \<longrightarrow> v \<in> set_option ?best \<union> {0} \<union> List.set (List.map_filter published_version sent)" by blast
    have "set_option ?best \<subseteq> set_option best \<union> {0} \<union> set_option (published_version e)"
      by (auto simp: max_def split: option.split_asm if_splits)
    moreover have "List.set (List.map_filter published_version (e # sent)) = set_option (published_version e) \<union> List.set (List.map_filter published_version sent)"
      by (auto simp: map_filter_simps split: option.split)
    ultimately have "v \<in> set_option best \<union> {0} \<union> List.set (List.map_filter published_version (e # sent))" if "best' = Some v" for v
      using s(2) that by blast
    with s(1) show ?thesis by (intro exI [of _ "e # sent"]) simp
  qed
qed (auto simp: List.map_filter_def)

lemma announced_pass:
  assumes "announced_ok st"
  shows "announced_ok (builder_pass env st)"
proof -
  from pass_parts [OF refl, of env st] obtain last stream r st1 best rest stream' where
    replay: "maybe_replay_graph_rebuilt (bv_stream env) (bv_db_up env) (bv_stamp env) (bv_replay_reply env)
      (bv_replay_trim env) (gw_db (bs_world st)) (bs_last_published st) (bs_stream st) = (last, stream)"
    and cycle: "run_rebuild_cycle env (st\<lparr>bs_last_published := last, bs_stream := stream\<rparr>) = (r, st1)"
    and drain: "drain_published_events (bv_stream env) (bs_published st1) (bs_stream st1) = (best, rest, stream')"
    and st': "builder_pass env st = st1\<lparr>bs_published := rest, bs_stream := stream',
      bs_last_published := (case best of None \<Rightarrow> bs_last_published st1 | Some v \<Rightarrow> max (bs_last_published st1) v)\<rparr>"
    by blast
  let ?v = "state_version (gw_db (bs_world st))" and ?v1 = "state_version (gw_db (bs_world st1))"
  have last: "0 \<le> last" "last \<le> ?v"
    using replay assms
    by (auto simp: maybe_replay_graph_rebuilt_def coordinator_graph_version_def announced_ok_def split: sum.split_asm if_splits prod.split_asm)
  have frame: "bs_last_published st1 = last" "?v \<le> ?v1"
    "\<forall>e \<in> set (bs_published st1). \<forall>v. published_version e = Some v \<longrightarrow> v \<le> ?v1"
  proof -
    show "bs_last_published st1 = last" using cycle_frame [OF cycle] by simp
    consider "bs_world st1 = bs_world st \<and> bs_published st1 = bs_published st"
      | e roots changes where "rebuild_from_changes (bv_rebuild env) (bv_config env) roots changes (bv_disk env) (bs_world st, bs_published st) =
          (e, bs_world st1, bs_published st1)"
      using cycle_frame [OF cycle] by auto
    then show "?v \<le> ?v1" by cases (use rebuild_version in auto)
    note mono = this
    have old: "\<forall>e \<in> set (bs_published st). \<forall>v. published_version e = Some v \<longrightarrow> v \<le> ?v1"
      using assms mono by (auto simp: announced_ok_def list_all_iff intro: order_trans)
    have new: "published_version (rebuilt_event stamp ?v1 extra) = Some v \<Longrightarrow> v \<le> ?v1" for stamp extra v
      by (auto simp: published_version_def rebuilt_event_def int_json_def split: if_splits)
    have "bs_published st1 = bs_published st \<or> (\<exists>e roots changes. rebuild_from_changes (bv_rebuild env) (bv_config env) roots changes
        (bv_disk env) (bs_world st, bs_published st) = (e, bs_world st1, bs_published st1))"
      using cycle_frame [OF cycle] by auto
    then consider "bs_published st1 = bs_published st" | stamp extra where "bs_published st1 = bs_published st @ [rebuilt_event stamp ?v1 extra]"
      using rebuild_buffer by blast
    then show "\<forall>e \<in> set (bs_published st1). \<forall>v. published_version e = Some v \<longrightarrow> v \<le> ?v1"
      by cases (use old new in auto)
  qed
  obtain sent where sent: "bs_published st1 = sent @ rest"
    "\<forall>v. best = Some v \<longrightarrow> v \<in> {0} \<union> List.set (List.map_filter published_version sent)"
    using drain_best [OF drain [unfolded drain_published_events_def]] by auto
  have "v \<le> ?v1" if "best = Some v" for v
    using sent that frame(3) last frame(2) by (fastforce simp: List.map_filter_def)
  then show ?thesis
    using last frame sent(1) by (auto simp: st' announced_ok_def list_all_iff max_def split: option.split)
qed


text \<open>C13: no version is announced before it exists: in every state the loop reaches, whatever the services answer, the version last announced and the versions of the buffered events are at most the version of the database.\<close>

theorem announced_versions_exist:
  assumes "builder_reachable st"
  shows "0 \<le> bs_last_published st \<and> bs_last_published st \<le> state_version (gw_db (bs_world st)) \<and>
    list_all (\<lambda>e. case published_version e of None \<Rightarrow> True | Some v \<Rightarrow> v \<le> state_version (gw_db (bs_world st))) (bs_published st)"
proof -
  from assms have "announced_ok st"
  proof induction
    case (relayed st b envs)
    have "gw_db (snd (startup_drain b envs (bs_world st))) = gw_db (bs_world st)"
      by (auto simp: startup_drain_def split: sum.split prod.split)
    with relayed show ?case by (simp add: announced_ok_def)
  next
    case (passed st env)
    show ?case by (rule announced_pass) (rule passed.IH)
  qed (simp add: announced_ok_def)
  then show ?thesis by (auto simp: announced_ok_def list_all_iff split: option.split)
qed

section \<open>Corpora that cannot be rebuilt\<close>

text \<open>two skills of one scope whose first tags differ in case only stop the graph: their tag communities get one name and so one identifier, and no rebuild of such a corpus ever succeeds, whatever the services answer.\<close>

theorem case_variant_tags_block_rebuild:
  assumes "community_contract (gr_communities env)" and "build_skills_from_scope_roots (gr_build env) roots d = Ok skills"
    and "s \<in> set skills" and "t \<in> set skills" and "bk_scope_type s = bk_scope_type t"
    and "snd (tag_key s) \<noteq> snd (tag_key t)" and "ascii_lower (snd (tag_key s)) = ascii_lower (snd (tag_key t))"
  shows "\<exists>e. fst (rebuild_from_changes env config roots changes d (w, published)) = Err e"
proof (cases "fst (rebuild_from_changes env config roots changes d (w, published))")
  case (Inr outcome)
  then obtain w' published' where "rebuild_from_changes env config roots changes d (w, published) = (Ok outcome, w', published')"
    by (metis prod.collapse)
  from rebuild_distinct [OF this] assms(2) obtain communities where
    "assign_communities (gr_communities env) config skills = Ok communities" "distinct (map cy_community_name communities)" by auto
  with case_variants_collide [OF assms(1) _ assms(3-7)] show ?thesis by blast
qed blast

text \<open>So does a file that two scope roots both reach, as the default global root does below the project root.\<close>

lemma overlapping_roots_block_rebuild:
  assumes "\<not> distinct (map snd (walked_skills (gr_build env) d roots))"
  shows "\<exists>e. fst (rebuild_from_changes env config roots changes d (w, published)) = Err e"
proof (cases "fst (rebuild_from_changes env config roots changes d (w, published))")
  case (Inr outcome)
  then obtain w' published' where "rebuild_from_changes env config roots changes d (w, published) = (Ok outcome, w', published')"
    by (metis prod.collapse)
  from rebuild_distinct [OF this] obtain skills where s: "build_skills_from_scope_roots (gr_build env) roots d = Ok skills"
    "distinct (map bk_id skills)" by auto
  obtain found where f: "collect_scopes (gr_build env) d roots = Ok found"
    using s(1) by (auto simp: build_skills_from_scope_roots_def rbind_Inr_iff)
  note found = collect_scopes_exact [OF f]
  with assms have "found \<noteq> []" by auto
  with s(1) f obtain embeddings where e: "length embeddings = length found"
    "skills = sort_by id_le (map (\<lambda>((s, _), e). s\<lparr>bk_embedding := e\<rparr>) (zip found embeddings))"
    by (auto simp: build_skills_from_scope_roots_def split: sum.split_asm if_splits)
  have "map bk_id (map (\<lambda>((s, _), e). s\<lparr>bk_embedding := e\<rparr>) (zip found embeddings)) = map (\<lambda>x. bk_id (fst (fst x))) (zip found embeddings)"
    by (simp add: case_prod_unfold)
  also have "\<dots> = map (bk_id \<circ> fst) (map fst (zip found embeddings))" by simp
  also have "map fst (zip found embeddings) = found" using e(1) by simp
  also have "map (bk_id \<circ> fst) found = map (be_path_hash (gr_build env) \<circ> path_display) (map snd (walked_skills (gr_build env) d roots))"
    unfolding found by (simp add: built_from_def case_prod_unfold)
  finally have ids: "map bk_id (map (\<lambda>((s, _), e). s\<lparr>bk_embedding := e\<rparr>) (zip found embeddings)) =
      map (be_path_hash (gr_build env) \<circ> path_display) (map snd (walked_skills (gr_build env) d roots))" .
  have "mset (map bk_id skills) = mset (map bk_id (map (\<lambda>((s, _), e). s\<lparr>bk_embedding := e\<rparr>) (zip found embeddings)))"
    unfolding e(2) by (simp only: mset_map mset_sort_by)
  with ids have "mset (map bk_id skills) = mset (map (be_path_hash (gr_build env) \<circ> path_display) (map snd (walked_skills (gr_build env) d roots)))"
    by (simp only:)
  with s(2) have "distinct (map (be_path_hash (gr_build env) \<circ> path_display) (map snd (walked_skills (gr_build env) d roots)))"
    using mset_eq_imp_distinct_iff by metis
  from iffD1 [OF distinct_map this] assms show ?thesis by blast
qed blast

section \<open>Runs\<close>

definition sample_rebuild_env :: rebuild_env where
  "sample_rebuild_env = \<lparr>gr_build = sample_build_env, gr_communities = sample_communities, gr_blake3 = sample_blake3, gr_sqlx = [],
     gr_now = 7, gr_replace_tx = sample_tx, gr_append_db = (\<lambda>_. sample_db), gr_event = (\<lambda>i. (nat_str i, 0)), gr_correlation_id = ''c'',
     gr_drain = (\<lambda>_. sample_cycle (Ok ())), gr_bump_tx = sample_tx, gr_stamp = (''e'', ''f'', 0)\<rparr>"

definition sample_rebuild_world :: rebuild_world where
  "sample_rebuild_world = \<lparr>gw_db = sample_store, gw_relay = \<lparr>rls_table = [\<lparr>ob_event = \<lparr>oe_event_id = ''e0'', oe_event_type = vector_upsert_event_type,
       oe_correlation_id = ''c0'', oe_idempotency_key = vector_key ''/r/a/SKILL.md'', oe_schema_version = 1, oe_timestamp = 0,
       oe_payload = JObj [(''content_hash'', JStr ''/r/a/SKILL.md''), (''vector'', JArr [JNum 2])]\<rparr>,
       ob_attempts = 0, ob_stream_id = None, ob_last_error = None, ob_available_at = 0, ob_status = OPublished, ob_published_at = Some 0\<rparr>],
     rls_store = Map.empty\<rparr>\<rparr>"

text \<open>A first rebuild of one file, over an empty outbox.\<close>

definition first_env :: rebuild_env where
  "first_env = sample_rebuild_env\<lparr>gr_build := sample_build_env\<lparr>be_embed_batch := \<lambda>texts. Ok (map (\<lambda>_. [Fin 1]) texts)\<rparr>,
     gr_blake3 := \<lambda>s. length s # replicate 31 0\<rparr>"

definition first_world :: rebuild_world where
  "first_world = \<lparr>gw_db = sample_store, gw_relay = \<lparr>rls_table = [], rls_store = Map.empty\<rparr>\<rparr>"

definition first_skill :: built_skill where
  "first_skill = \<lparr>bk_id = ''/r/a/SKILL.md'', bk_scope_id = ''project'', bk_scope_type = Project, bk_source_path = [''/'', ''r'', ''a'', ''SKILL.md''],
     bk_name = ''Deploy'', bk_description = ''No description provided'', bk_tags = [],
     bk_subunits = [\<lparr>eu_kind = Summary, eu_title = ''Fallback summary'', eu_content = ''No extractable content''\<rparr>,
       \<lparr>eu_kind = Evidence, eu_title = ''Fallback provider unavailable'', eu_content = ''Ollama fallback unavailable: ''\<rparr>],
     bk_embedding = [Fin 1]\<rparr>"

definition first_communities :: "community_assignment list" where
  "first_communities = [\<lparr>cy_community_name = ''project-unclustered'', cy_skill_ids = [''/r/a/SKILL.md''], cy_scope = Project, cy_source = Hdbscan\<rparr>,
     \<lparr>cy_community_name = ''project-untagged'', cy_skill_ids = [''/r/a/SKILL.md''], cy_scope = Project, cy_source = Tag\<rparr>]"

lemma first_built: "build_skills_from_scope_roots (gr_build first_env) sample_scope_roots sample_corpus = Ok [first_skill]"
  by code_simp

lemma first_assigned: "assign_communities (gr_communities first_env) \<lparr>hc_min_cluster_size = 3\<rparr> [first_skill] = Ok first_communities"
  by code_simp

lemma first_stored:
  "case replace_snapshot_and_bump_version (gr_blake3 first_env) (gr_replace_tx first_env)
     \<lparr>gm_rebuilt_at = 7, gm_skills = map live_skill [first_skill], gm_communities = map live_community first_communities\<rparr> sample_store of
     (Ok v, db) \<Rightarrow> v = 4 \<and> (case gd_graph_state db of None \<Rightarrow> False | Some (n, _) \<Rightarrow> n = 4) | _ \<Rightarrow> False"
  by code_simp

lemma first_appended: "append_vectors first_env 0 [first_skill] [] = (Ok (), [new_row sample_db (vector_event first_env 0 first_skill)])"
proof -
  have "trim vector_upsert_event_type \<noteq> [] \<and> trim (vector_key ''/r/a/SKILL.md'') \<noteq> []" by code_simp
  then have "validate_outbox_event (vector_event first_env 0 first_skill) = Ok 1"
    by (simp add: validate_outbox_event_def vector_event_def first_skill_def)
  then show ?thesis
    by (simp add: append_outbox_event_idempotent_def insert_outbox_event_idempotent_def first_env_def sample_rebuild_env_def new_row_def sample_db_def)
qed

lemma first_parsed: "case parse_vector_upsert_request (oe_payload (vector_event first_env 0 first_skill)) of
    Ok u \<Rightarrow> vu_content_hash u = ''/r/a/SKILL.md'' | Err _ \<Rightarrow> False"
  by code_simp

lemma one_claimed:
  assumes "parse_vector_upsert_request (oe_payload e) = Ok u" and "oe_correlation_id e = c" and "oe_event_type e = vector_upsert_event_type"
  shows "\<exists>store report. relay_once b \<lparr>rly_claim_limit = 10, rly_retry_after_seconds = 0\<rparr> (sample_cycle (Ok ())) (Some c)
      \<lparr>rls_table = [new_row sample_db e], rls_store = Map.empty\<rparr> =
    (Ok report, \<lparr>rls_table = [published_row sample_db (''qdrant:'' @ nat_str (qdrant_point_id b (vu_content_hash u))) (claimed_row (new_row sample_db e))], rls_store = store\<rparr>) \<and> rr_claimed report = 1"
  using assms trim_stream [of "nat_str (qdrant_point_id b (vu_content_hash u))"]
  by (auto simp: relay_once_def sample_cycle_def claim_pending_outbox_def
        validate_claim_limit_def sample_db_def claimable_def new_row_def relay_record_def
        outbox_record.truncate_def claimed_row_def Let_def
        mark_outbox_published_def update_processing_def in_processing_def)

lemma one_drained:
  assumes "parse_vector_upsert_request (oe_payload e) = Ok u" and "oe_correlation_id e = c" and "oe_event_type e = vector_upsert_event_type"
  shows "\<exists>st1. drain_correlation_outbox b \<lparr>rly_claim_limit = 10, rly_retry_after_seconds = 0\<rparr> (\<lambda>_. sample_cycle (Ok ())) 0 c
    \<lparr>rls_table = [new_row sample_db e], rls_store = Map.empty\<rparr> = (Ok (), st1)"
proof -
  have p: "has_pending_for_correlation (cye_inspect (sample_cycle (Ok ()))) c (rls_table \<lparr>rls_table = [new_row sample_db e], rls_store = Map.empty\<rparr>) = Inr True"
    using assms(2) by (simp add: has_pending_for_correlation_def sample_cycle_def sample_db_def new_row_def)
  from one_claimed [OF assms, of b] p show ?thesis
    by (auto simp: drain_correlation_outbox.simps [of _ _ _ 0] drain_correlation_outbox.simps [of _ _ _ "Suc 0"])
      (simp add: has_pending_for_correlation_def sample_cycle_def published_row_def, simp add: sample_db_def)
qed

lemma first_rebuild:
  "\<exists>outcome w' published'. rebuild_from_changes first_env \<lparr>hc_min_cluster_size = 3\<rparr> sample_scope_roots [] sample_corpus (first_world, []) =
     (Ok outcome, w', published')"
proof -
  obtain db g where db: "replace_snapshot_and_bump_version (gr_blake3 first_env) (gr_replace_tx first_env)
     \<lparr>gm_rebuilt_at = 7, gm_skills = map live_skill [first_skill], gm_communities = map live_community first_communities\<rparr> sample_store = (Ok 4, db)"
    "gd_graph_state db = Some (4, g)"
    using first_stored by (auto split: prod.split_asm sum.split_asm option.split_asm)
  obtain u where u: "parse_vector_upsert_request (oe_payload (vector_event first_env 0 first_skill)) = Ok u"
    using first_parsed by (auto split: sum.split_asm)
  have env: "gr_now first_env = 7" "gr_drain first_env = (\<lambda>_. sample_cycle (Ok ()))" "gr_correlation_id first_env = ''c''" "gr_bump_tx first_env = sample_tx"
    by (simp_all add: first_env_def sample_rebuild_env_def)
  obtain st1 where st1: "drain_correlation_outbox (gr_blake3 first_env) \<lparr>rly_claim_limit = 10, rly_retry_after_seconds = 0\<rparr> (\<lambda>_. sample_cycle (Ok ())) 0 ''c''
      \<lparr>rls_table = [new_row sample_db (vector_event first_env 0 first_skill)], rls_store = Map.empty\<rparr> = (Ok (), st1)"
    using one_drained [OF u, of "''c''" "gr_blake3 first_env"] by (auto simp: vector_event_def env)
  have persisted: "persist_graph_mutation first_env \<lparr>dm_rebuilt_at = 7, dm_skills = [first_skill], dm_communities = first_communities, dm_audits = []\<rparr> first_world =
      (Ok (), \<lparr>gw_db = db, gw_relay = \<lparr>rls_table = [new_row sample_db (vector_event first_env 0 first_skill)], rls_store = Map.empty\<rparr>\<rparr>)"
    using db(1) first_appended by (simp add: persist_graph_mutation_def live_mutation_def first_world_def del: append_vectors.simps)
  have "\<exists>db2. bump_graph_version sample_tx db = (Ok 5, db2)"
    using db(2) by (simp add: bump_graph_version_def run_transaction_def bump_state_def sample_tx_def state_version_def)
  then show ?thesis
    using first_built first_assigned persisted st1
    by (auto simp: rebuild_from_changes_def mark_outbox_drained_def outbox_relay_new_def bump_version_def env)
qed

theorem rebuild_stores_what_it_builds_witness:
  "\<exists>outcome w' published'. rebuild_from_changes first_env \<lparr>hc_min_cluster_size = 3\<rparr> sample_scope_roots [] sample_corpus (first_world, []) =
     (Ok outcome, w', published') \<and> go_graph_version outcome = 5 \<and> length published' = 1 \<and>
     (\<exists>e. enqueued ''/r/a/SKILL.md'' w' = [e] \<and> json_get (oe_payload e) ''vector'' = Some (JArr [JNum 1])) \<and>
     (\<exists>rows. list_skills id True (gw_db w') = Ok rows \<and> length rows = 1)"
proof -
  obtain outcome w' published' where r: "rebuild_from_changes first_env \<lparr>hc_min_cluster_size = 3\<rparr> sample_scope_roots [] sample_corpus
      (first_world, []) = (Ok outcome, w', published')" using first_rebuild by blast
  have small: "list_all (\<lambda>s. length (bk_subunits s) < 2 ^ 31) [first_skill]" by (simp add: first_skill_def)
  note stores = rebuild_stores_what_it_builds [OF r first_built small, of id]
  then obtain rows where rows: "list_skills id True (gw_db w') = Ok rows" "mset (map skill_view rows) = mset (map (live_view (gr_blake3 first_env) \<circ> live_skill) [first_skill])"
    by blast
  have "length rows = 1" using arg_cong [OF rows(2), of size] by simp
  moreover have "\<exists>e. enqueued ''/r/a/SKILL.md'' w' = [e] \<and> json_get (oe_payload e) ''vector'' = Some (JArr [JNum 1])"
    using stores by (simp add: first_skill_def first_world_def enqueued_def carries_vector_def) blast
  moreover have "go_graph_version outcome = 5" "length published' = 1"
    using stores by (auto simp: first_world_def sample_store_def state_version_def)
  ultimately show ?thesis using r rows(1) by blast
qed

theorem stale_vector_kept_witness:
  "enqueued ''/r/a/SKILL.md'' (fst (snd (rebuild_from_changes sample_rebuild_env \<lparr>hc_min_cluster_size = 3\<rparr> sample_scope_roots [] sample_corpus (sample_rebuild_world, [])))) =
     enqueued ''/r/a/SKILL.md'' sample_rebuild_world"
proof -
  let ?run = "rebuild_from_changes sample_rebuild_env \<lparr>hc_min_cluster_size = 3\<rparr> sample_scope_roots [] sample_corpus (sample_rebuild_world, [])"
  have "?run = (fst ?run, fst (snd ?run), snd (snd ?run))" by simp
  from stale_vector_kept [OF this, of "''/r/a/SKILL.md''"] show ?thesis by (simp add: enqueued_def sample_rebuild_world_def)
qed

definition sample_tree_env :: tree_env where
  "sample_tree_env = \<lparr>te_walk = (\<lambda>_ r. [Ok \<lparr>wk_path = r @ [''a'', ''SKILL.md''], wk_is_dir = False, wk_is_file = True\<rparr>]),
     te_read = (\<lambda>_. Ok ''# Deploy''), te_modified = (\<lambda>_. Ok 0), te_blake3 = id\<rparr>"

definition sample_codec :: stream_codec where
  "sample_codec = \<lparr>sc_to_str = (\<lambda>e. Ok (oe_idempotency_key e)), sc_from_str = (\<lambda>_. Err [])\<rparr>"

definition sample_builder_env :: builder_env where
  "sample_builder_env = \<lparr>bv_rebuild = sample_rebuild_env, bv_config = \<lparr>hc_min_cluster_size = 3\<rparr>, bv_tree = sample_tree_env,
     bv_orders = sample_orders, bv_disk = sample_corpus, bv_db_up = True, bv_stamp = (''e'', ''f'', 0), bv_replay_reply = Replied,
     bv_replay_trim = 0, bv_stream = \<lparr>sq_config = redis_streams_config_default, sq_codec = sample_codec, sq_reply = (\<lambda>_. Replied), sq_trim = (\<lambda>_. 0)\<rparr>\<rparr>"

definition sample_builder :: builder_state where
  "sample_builder = \<lparr>bs_watcher = \<lparr>sw_scopes = sample_scope_roots, sw_previous = [], sw_current = []\<rparr>,
     bs_recovery = \<lparr>wr_last_seen = Map.empty, wr_current_generation = 0, wr_max_generation_window = 64\<rparr>, bs_world = sample_rebuild_world,
     bs_published = [], bs_stream = \<lparr>es_entries = [], es_next = 0, es_group = None, es_processed = Map.empty\<rparr>, bs_last_published = 0\<rparr>"

lemma sample_snapshot: "build_snapshot (bv_tree sample_builder_env) (sw_scopes (bs_watcher sample_builder)) =
    Ok [([''/'', ''r'', ''a'', ''SKILL.md''], \<lparr>fp_content_hash = ''# Deploy'', fp_modified_nanos = 0\<rparr>)]"
  by (simp add: build_snapshot_def sample_builder_env_def sample_builder_def sample_scope_roots_def sample_tree_env_def is_skill_file_def
      is_active_skill_file_def has_lifecycle_file_name_def file_name_def active_skill_file_def)

theorem failed_rebuild_not_retried_witness:
  "fst (run_rebuild_cycle sample_builder_env (snd (run_rebuild_cycle
     (sample_builder_env\<lparr>bv_rebuild := sample_rebuild_env\<lparr>gr_replace_tx := sample_tx\<lparr>tx_begins := False\<rparr>\<rparr>\<rparr>) sample_builder))) = Ok None"
proof -
  let ?env = "sample_builder_env\<lparr>bv_rebuild := sample_rebuild_env\<lparr>gr_replace_tx := sample_tx\<lparr>tx_begins := False\<rparr>\<rparr>\<rparr>"
  have first: "build_snapshot (bv_tree ?env) (sw_scopes (bs_watcher sample_builder)) =
      Ok [([''/'', ''r'', ''a'', ''SKILL.md''], \<lparr>fp_content_hash = ''# Deploy'', fp_modified_nanos = 0\<rparr>)]"
    using sample_snapshot by simp
  have "fair_orders (bv_orders sample_builder_env)" using sample_fair by (simp add: sample_builder_env_def)
  from failed_rebuild_not_retried [OF surjective_pairing first sample_snapshot this] show ?thesis by simp
qed


theorem announced_versions_exist_witness:
  "bs_last_published (builder_pass sample_builder_env sample_builder) \<le>
     state_version (gw_db (bs_world (builder_pass sample_builder_env sample_builder)))"
proof -
  have "builder_reachable sample_builder"
    by (rule booted) (simp_all add: sample_builder_def sample_rebuild_world_def sample_store_def state_version_def)
  from announced_versions_exist [OF passed [OF this]] show ?thesis by blast
qed

text \<open>Two files whose tags are \<open>Auth\<close> and \<open>auth\<close>.\<close>

definition clashing_build :: build_env where
  "clashing_build = sample_build_env\<lparr>be_walk := \<lambda>_ _ r. [Ok \<lparr>wk_path = r @ [''a'', ''SKILL.md''], wk_is_dir = False, wk_is_file = True\<rparr>,
     Ok \<lparr>wk_path = r @ [''b'', ''SKILL.md''], wk_is_dir = False, wk_is_file = True\<rparr>], be_embed_batch := \<lambda>texts. Ok (map (\<lambda>_. [Fin 1]) texts)\<rparr>"

definition clashing_corpus :: disk where
  "clashing_corpus = \<lparr>dk_files = [[''/'', ''r'', ''a'', ''SKILL.md''] \<mapsto> ''tags:Auth'', [''/'', ''r'', ''b'', ''SKILL.md''] \<mapsto> ''tags:auth''],
     dk_dirs = {}, dk_ops = 0\<rparr>"

lemma clashing_built:
  "case build_skills_from_scope_roots clashing_build sample_scope_roots clashing_corpus of
     Ok [s, t] \<Rightarrow> bk_scope_type s = bk_scope_type t \<and> tag_key s = (Project, ''Auth'') \<and> tag_key t = (Project, ''auth'') | _ \<Rightarrow> False"
  by code_simp

theorem case_variant_tags_block_rebuild_witness:
  "\<exists>e. fst (rebuild_from_changes (sample_rebuild_env\<lparr>gr_build := clashing_build\<rparr>) \<lparr>hc_min_cluster_size = 3\<rparr> sample_scope_roots []
     clashing_corpus (sample_rebuild_world, [])) = Err e"
proof -
  let ?env = "sample_rebuild_env\<lparr>gr_build := clashing_build\<rparr>"
  obtain s t where b: "build_skills_from_scope_roots clashing_build sample_scope_roots clashing_corpus = Ok [s, t]"
    "bk_scope_type s = bk_scope_type t" "tag_key s = (Project, ''Auth'')" "tag_key t = (Project, ''auth'')"
    using clashing_built by (auto split: sum.split_asm list.split_asm)
  have c: "community_contract (gr_communities ?env)" using sample_contract by (simp add: sample_rebuild_env_def)
  have k: "build_skills_from_scope_roots (gr_build ?env) sample_scope_roots clashing_corpus = Ok [s, t]" using b(1) by simp
  have l: "ascii_lower ''Auth'' = ascii_lower ''auth''" by code_simp
  have d: "ascii_lower (snd (tag_key s)) = ascii_lower (snd (tag_key t))" "snd (tag_key s) \<noteq> snd (tag_key t)" "s \<in> set [s, t]" "t \<in> set [s, t]"
    by (simp_all add: b l)
  show ?thesis by (rule case_variant_tags_block_rebuild [OF c k, of s t]) (fact d | fact b)+
qed

end
