(* ===== verification/Spec2Isabelle.thy ===== *)
theory Spec2Isabelle
  imports Prelude F32 Domain_Model Circuit_Breaker Scoring Fusion Scope_Search Config_Env Retrieval
    Compiler_Model Session_Store Suppression Context_Cache Compile_Context Outbox Outbox_Facts
    Outbox_Reconciler Transcript_Queue Segmentation Extraction_Model Worker_Pool Transcripts Skeleton
    Preamble Draft_Writer Orchestrator Session_Extractor Merge_Pass Retire_Pass Recurrence_Clusters Promote_Pass Maintenance_Runtime Cleanup_Scan
    Skill_Extraction Skill_Watcher Graph_Build Communities Graph_Store Event_Stream Graph_Rebuild Rebuild_Facts
begin

text \<open>
  A model of the core of the dynamic agent skill layer.

  \<^bold>\<open>The program.\<close>  Skills are documents with an embedding and subunits.  A server compiles, for a prompt and a
  repository, the skills that apply into a markdown context (\<open>compile\_context\<close>).  The read path embeds
  the prompt behind a circuit breaker, searches the project and the global scope of an in-memory
  snapshot concurrently, fuses both rankings and renders the result; a session gets a context once
  per repository and graph version.  The write path stores vectors through a transactional outbox
  that a relay drains into the vector store and a reconciler compares with it; transcripts of
  sessions wait in a durable queue that a maintenance worker drains through the extractor, which writes
  pending drafts; its other passes propose merges, retirements and promotions as files to review.  The graph
  builder watches the skill files, and on a change reads, embeds and clusters them, replaces the skill graph
  in the database, drains the vectors and announces the new version on the event stream.

  \<^bold>\<open>Theories and code\<close> (under \<open>src/crates\<close>).
  \<^item> \<open>Prelude\<close>: results, ASCII strings, stable sorting, deduplication, the locale \<open>total\_preorder\<close>.
  \<^item> \<open>F32\<close>: binary32 numbers as NaN, infinities, negative zero or a rational, with rounding to nearest
    even after every operation, total order, and decimal formatting.
  \<^item> \<open>Domain\_Model\<close>: \<open>domain/src/{types,errors,config,lifecycle\_files,lifecycle\_policy}.rs\<close>.
  \<^item> \<open>Circuit\_Breaker\<close>: \<open>retrieval/src/circuit\_breaker.rs\<close> (its copy and the retries in
    \<open>infrastructure/src/resilience.rs\<close>); counters are 32-bit words, clocks enter per call.
  \<^item> \<open>Scoring\<close>, \<open>Fusion\<close>, \<open>Scope\_Search\<close>, \<open>Config\_Env\<close>, \<open>Retrieval\<close>: \<open>retrieval/src\<close>, one group per file;
    \<open>Retrieval\<close> holds the whole request path \<open>retrieve\<close> and \<open>swap\_graph\<close>.
  \<^item> \<open>Compiler\_Model\<close>: \<open>compiler/src\<close>.
  \<^item> \<open>Session\_Store\<close>, \<open>Suppression\<close>, \<open>Context\_Cache\<close>, \<open>Compile\_Context\<close>: \<open>mcp-server/src/{suppression\_state,
    context\_cache,tools/compile\_context}.rs\<close>.  Both stores interpret the locale \<open>session\_indexed\<close>; the tool
    is proved against the locale \<open>retriever\_contract\<close>, which the orchestrator interprets.
  \<^item> \<open>Outbox\<close>, \<open>Outbox\_Facts\<close>, \<open>Outbox\_Reconciler\<close>: \<open>infrastructure/src/persistence/{outbox,
    outbox\_reconciler}.rs\<close>; the loops end by the locale \<open>retry\_ledger\<close>.
  \<^item> \<open>Transcript\_Queue\<close>: \<open>infrastructure/src/persistence/transcript\_queue.rs\<close> and
    \<open>maintenance/src/transcript\_drain.rs\<close>, the second interpretation of \<open>retry\_ledger\<close>.
  \<^item> \<open>Extraction\_Model\<close>, \<open>Segmentation\<close>, \<open>Worker\_Pool\<close>, \<open>Transcripts\<close>, \<open>Skeleton\<close>, \<open>Preamble\<close>, \<open>Draft\_Writer\<close>,
    \<open>Orchestrator\<close>: \<open>session-extractor/src\<close>, one theory per file; \<open>Extraction\_Model\<close> holds the errors, the provider
    names and the routing decision, \<open>Orchestrator\<close> composes the others into \<open>run\_orchestration\<close>, and \<open>Session\_Extractor\<close> (\<open>lib.rs\<close>) a job
    from its request to its terminal event, on which it runs the drain of the transcript queue.
  \<^item> \<open>Merge\_Pass\<close>, \<open>Retire\_Pass\<close>, \<open>Recurrence\_Clusters\<close>, \<open>Promote\_Pass\<close>, \<open>Maintenance\_Runtime\<close>, \<open>Cleanup\_Scan\<close>:
    \<open>maintenance/src/{merge,audit,retire,promote,runtime,cron,merge\_verifier,cleanup}.rs\<close>; the passes act on the disk
    of \<open>Draft\_Writer\<close>, and the runtime's passes interpret the locale \<open>keeping\_passes\<close>.
  \<^item> \<open>Skill\_Extraction\<close>, \<open>Skill\_Watcher\<close>, \<open>Graph\_Build\<close>, \<open>Communities\<close>: \<open>graph-builder/src/{extraction,watcher.rs,
    watcher\_recovery.rs,graph/build.rs,graph/communities.rs}\<close>: from a skill file to a built skill, and from the built
    skills to their communities.
  \<^item> \<open>Graph\_Store\<close>: \<open>infrastructure/src/persistence/{rebuild,usage}.rs\<close> with the tables of the migrations; a
    transaction is the list of its statements, each of which may violate a constraint or fail.
  \<^item> \<open>Event\_Stream\<close>: \<open>infrastructure/src/streaming/redis.rs\<close>, the stream with its consumer group.
  \<^item> \<open>Graph\_Rebuild\<close>, \<open>Rebuild\_Facts\<close>: \<open>graph-builder/src/{graph/rebuild,main}.rs\<close>: the rebuild composed of all of the
    above and the outbox, the cycle and the pass of the builder's loop, and what is shown of them.

  \<^bold>\<open>Conventions.\<close>  A fallible operation returns \<open>Err e\<close> or \<open>Ok x\<close>.  State is passed explicitly.  What the
  sources do not contain is an argument: the embedding provider, the clock, the BLAKE3 digest, Redis,
  the JSON codec, the answers and the row order of Postgres, the vector store, the extractor, and the
  iteration order of a hash map (any permutation).  A SQL statement is one atomic function on the list
  of rows; rows with equal sort keys keep their order.  Strings are byte strings, and lower-casing and
  alphanumeric tests are the ASCII ones.  Retry delays stay below the range of the clock library.

  \<^bold>\<open>Loops.\<close>  Both loops of the outbox are total functions: a cycle that claims anything uses up
  attempts.  The SCAN loop of the session stores runs over the replies of the server and answers
  \<open>None\<close> when they end before the cursor returns to zero.

  \<^bold>\<open>What is shown.\<close>  The ranking lemmas give top-k correctness of every truncated sort; the fusion
  lemmas that the imperative hash map computes the sum of contributions and that the selection is
  greedy; the retrieval lemmas that results are in scope, above the relevance floor and degrade
  loudly; the store lemmas that eviction and suppression are exact; the outbox lemmas that the rows
  are a sound state machine, that published events have their vector and that draining ends and
  settles; the queue lemmas deduplication, bounded retries, and what an interrupted drain leaves; the
  extractor lemmas that windows cover the session in order, that every accepted job is answered exactly
  once whatever the workers interleave, that mined steps occur in the transcript, that a batch of drafts
  is written whole or not at all under any single fault, and that the reduce step accounts for every
  candidate; the maintenance lemmas that the candidates, clusters and evidence are exact, that artefacts stay
  in their roots and that a live tick only adds files; the graph builder's lemmas that extractions are
  well formed and read drafts back, that differences of snapshots are exact and recovery reports once, that
  builds and communities lose and repeat no skill, that a replaced graph is read back exactly or left alone,
  that a rebuild stores, enqueues and announces what it built, and that announced versions exist and every
  version is announced.  Some lemmas state defects of the code: stale vectors, lost usage, blocked and
  forgotten rebuilds.

  \<^bold>\<open>Not modelled.\<close>  The salience scores, prompts and provider clients of the extractor; the audit sink; the
  protocol layer of the server with its wiring, the task that reads the event stream and the buffer of the
  usage log; the health endpoint and client construction of the graph builder, and its test embedder; the
  network and connection adapters (providers, Qdrant, the Postgres pool, health checks, scope files) and the
  admin tools.  They are I/O around the operations modelled here, or not called by the pipelines; the
  manifest lists each.
\<close>

end
